(* ===== verification/Svsm_Prelude.thy ===== *)
theory Svsm_Prelude
  imports Main "HOL-Library.Word"
begin

unbundle bit_operations_syntax

text \<open>
  Shared vocabulary of the development.

  \<^item> Machine integers: \<open>u64\<close>, \<open>u32\<close>, \<open>u16\<close>, \<open>u8\<close> are words of their width.  A Rust
    \<open>usize\<close> that holds an address or a bit pattern is a \<open>u64\<close>; a \<open>usize\<close> that counts
    (page numbers, sizes, list lengths) is a \<open>nat\<close> whose every arithmetic step goes
    through the checked operations \<open>uadd\<close>, \<open>usub\<close>, \<open>umul\<close> and \<open>ushl\<close>.
  \<^item> Panics: a failed \<open>assert!\<close>, an \<open>expect\<close> on an error, an out-of-range array index and
    an arithmetic overflow of a build with overflow checks all end the kernel
    (\<open>panic = 'abort'\<close>).  They are the value \<open>None\<close> of an \<open>option\<close>.
  \<^item> Errors: a Rust \<open>Result\<close> is the datatype \<open>result\<close>.
  \<^item> State: a method with \<open>&mut self\<close> is a function of type \<open>svsm\<close>: it maps the state to
    \<open>None\<close> (a panic) or to a result together with the new state.  The state is kept on the
    error path too, because a Rust method that returns \<open>Err\<close> keeps what it wrote before.

  The weakest precondition \<open>wp m Q E s\<close> says that \<open>m\<close> started in \<open>s\<close> does not panic, that
  every \<open>Ok x\<close> satisfies \<open>Q x\<close> in the new state and every \<open>Err e\<close> satisfies \<open>E e\<close>.
\<close>

section \<open>Machine integers\<close>

type_synonym u8 = "8 word"
type_synonym u16 = "16 word"
type_synonym u32 = "32 word"
type_synonym u64 = "64 word"

definition usize_max :: nat where
  "usize_max = 2 ^ 64 - 1"

text \<open>Checked arithmetic on \<open>usize\<close> counters: \<open>None\<close> is the overflow panic.\<close>

definition uadd :: "nat \<Rightarrow> nat \<Rightarrow> nat option" where
  "uadd a b = (if a + b \<le> usize_max then Some (a + b) else None)"

definition usub :: "nat \<Rightarrow> nat \<Rightarrow> nat option" where
  "usub a b = (if b \<le> a then Some (a - b) else None)"

definition umul :: "nat \<Rightarrow> nat \<Rightarrow> nat option" where
  "umul a b = (if a * b \<le> usize_max then Some (a * b) else None)"

text \<open>
  \<open>a << n\<close> on \<open>usize\<close>: the shift distance is checked, bits shifted out are lost.
\<close>

definition ushl :: "nat \<Rightarrow> nat \<Rightarrow> nat option" where
  "ushl a n = (if n < 64 then Some ((a * 2 ^ n) mod 2 ^ 64) else None)"

text \<open>The same checks on words of any width.\<close>

definition wadd :: "'a::len word \<Rightarrow> 'a word \<Rightarrow> 'a word option" where
  "wadd a b = (if unat a + unat b < 2 ^ LENGTH('a) then Some (a + b) else None)"

definition wsub :: "'a::len word \<Rightarrow> 'a word \<Rightarrow> 'a word option" where
  "wsub a b = (if b \<le> a then Some (a - b) else None)"

text \<open>\<open>saturating_add\<close> and \<open>saturating_sub\<close>.\<close>

definition wadd_sat :: "'a::len word \<Rightarrow> 'a word \<Rightarrow> 'a word" where
  "wadd_sat a b = (if unat a + unat b < 2 ^ LENGTH('a) then a + b else - 1)"

definition wsub_sat :: "'a::len word \<Rightarrow> 'a word \<Rightarrow> 'a word" where
  "wsub_sat a b = (if b \<le> a then a - b else 0)"

text \<open>\<open>x & !m\<close> on \<open>usize\<close> counters, and the integer logarithm \<open>ilog2\<close>.\<close>

definition uand_not :: "nat \<Rightarrow> nat \<Rightarrow> nat" where
  "uand_not x m = unat ((of_nat x :: u64) AND NOT (of_nat m))"

fun ilog2 :: "nat \<Rightarrow> nat" where
  "ilog2 n = (if n < 2 then 0 else Suc (ilog2 (n div 2)))"

declare ilog2.simps [simp del]

text \<open>\<open>trailing_ones\<close> and \<open>count_ones\<close>.\<close>

definition trailing_ones :: "'a::len word \<Rightarrow> nat" where
  "trailing_ones w = length (takeWhile (bit w) [0 ..< LENGTH('a)])"

definition count_ones :: "'a::len word \<Rightarrow> nat" where
  "count_ones w = length (filter (bit w) [0 ..< LENGTH('a)])"

section \<open>Results, panics and state\<close>

datatype ('a, 'e) result = Ok 'a | Err 'e

primrec is_ok :: "('a, 'e) result \<Rightarrow> bool" where
  "is_ok (Ok x) = True"
| "is_ok (Err e) = False"

type_synonym ('s, 'a, 'e) svsm = "'s \<Rightarrow> (('a, 'e) result \<times> 's) option"

definition ret :: "'a \<Rightarrow> ('s, 'a, 'e) svsm" where
  "ret x = (\<lambda>s. Some (Ok x, s))"

definition raise :: "'e \<Rightarrow> ('s, 'a, 'e) svsm" where
  "raise e = (\<lambda>s. Some (Err e, s))"

definition panic :: "('s, 'a, 'e) svsm" where
  "panic = (\<lambda>s. None)"

text \<open>Sequencing with the \<open>?\<close> operator: an error of the first step is returned as it is.\<close>

definition bindM :: "('s, 'a, 'e) svsm \<Rightarrow> ('a \<Rightarrow> ('s, 'b, 'e) svsm) \<Rightarrow> ('s, 'b, 'e) svsm" where
  "bindM m f = (\<lambda>s. case m s of
       None \<Rightarrow> None
     | Some (Ok x, s') \<Rightarrow> f x s'
     | Some (Err e, s') \<Rightarrow> Some (Err e, s'))"

text \<open>The \<open>Result\<close> of a call as a value, for a caller that matches on it.\<close>

definition tryM :: "('s, 'a, 'e) svsm \<Rightarrow> ('s, ('a, 'e) result, 'f) svsm" where
  "tryM m = (\<lambda>s. case m s of None \<Rightarrow> None | Some (r, s') \<Rightarrow> Some (Ok r, s'))"

definition getM :: "('s, 's, 'e) svsm" where
  "getM = (\<lambda>s. Some (Ok s, s))"

definition modifyM :: "('s \<Rightarrow> 's) \<Rightarrow> ('s, unit, 'e) svsm" where
  "modifyM f = (\<lambda>s. Some (Ok (), f s))"

text \<open>A computation that may panic but touches no state.\<close>

definition liftO :: "'a option \<Rightarrow> ('s, 'a, 'e) svsm" where
  "liftO v = (\<lambda>s. case v of None \<Rightarrow> None | Some x \<Rightarrow> Some (Ok x, s))"

definition assertM :: "bool \<Rightarrow> ('s, unit, 'e) svsm" where
  "assertM b = (if b then ret () else panic)"

text \<open>\<open>for x in xs { body(x)? }\<close>.\<close>

primrec forM :: "'b list \<Rightarrow> ('b \<Rightarrow> ('s, unit, 'e) svsm) \<Rightarrow> ('s, unit, 'e) svsm" where
  "forM [] f = ret ()"
| "forM (x # xs) f = bindM (f x) (\<lambda>_. forM xs f)"

text \<open>The same loop over a body that returns no \<open>Result\<close>.\<close>

primrec forO :: "'b list \<Rightarrow> ('b \<Rightarrow> 's \<Rightarrow> 's option) \<Rightarrow> 's \<Rightarrow> 's option" where
  "forO [] f s = Some s"
| "forO (x # xs) f s = (case f x s of None \<Rightarrow> None | Some s' \<Rightarrow> forO xs f s')"

text \<open>Array reads and writes: an index out of range panics.\<close>

definition idx :: "'a list \<Rightarrow> nat \<Rightarrow> 'a option" where
  "idx xs i = (if i < length xs then Some (xs ! i) else None)"

section \<open>Weakest preconditions\<close>

definition wp ::
  "('s, 'a, 'e) svsm \<Rightarrow> ('a \<Rightarrow> 's \<Rightarrow> bool) \<Rightarrow> ('e \<Rightarrow> 's \<Rightarrow> bool) \<Rightarrow> 's \<Rightarrow> bool" where
  "wp m Q E s = (case m s of
       None \<Rightarrow> False
     | Some (Ok x, s') \<Rightarrow> Q x s'
     | Some (Err e, s') \<Rightarrow> E e s')"

named_theorems wp_simps \<open>equations that compute a weakest precondition\<close>

lemma wp_ret [wp_simps]: "wp (ret x) Q E s = Q x s"
  by (simp add: wp_def ret_def)

lemma wp_raise [wp_simps]: "wp (raise e) Q E s = E e s"
  by (simp add: wp_def raise_def)

lemma wp_panic [wp_simps]: "wp panic Q E s = False"
  by (simp add: wp_def panic_def)

lemma wp_bindM [wp_simps]: "wp (bindM m f) Q E s = wp m (\<lambda>x. wp (f x) Q E) E s"
  by (simp add: wp_def bindM_def split: option.splits prod.splits result.splits)

lemma wp_tryM [wp_simps]:
  "wp (tryM m) Q E s = wp m (\<lambda>x. Q (Ok x)) (\<lambda>e. Q (Err e)) s"
  by (simp add: wp_def tryM_def split: option.splits prod.splits result.splits)

lemma wp_getM [wp_simps]: "wp getM Q E s = Q s s"
  by (simp add: wp_def getM_def)

lemma wp_modifyM [wp_simps]: "wp (modifyM f) Q E s = Q () (f s)"
  by (simp add: wp_def modifyM_def)

lemma wp_liftO [wp_simps]: "wp (liftO v) Q E s = (\<exists>x. v = Some x \<and> Q x s)"
  by (cases v) (simp_all add: wp_def liftO_def)

lemma wp_assertM [wp_simps]: "wp (assertM b) Q E s = (b \<and> Q () s)"
  by (simp add: assertM_def wp_ret wp_panic)

lemma wp_if [wp_simps]:
  "wp (if b then m else n) Q E s = (if b then wp m Q E s else wp n Q E s)"
  by simp

lemma wp_mono:
  assumes "wp m Q E s" and "\<And>x t. Q x t \<Longrightarrow> Q' x t" and "\<And>e t. E e t \<Longrightarrow> E' e t"
  shows "wp m Q' E' s"
  using assms by (auto simp: wp_def split: option.splits prod.splits result.splits)

lemma wp_conj:
  "wp m Q E s \<Longrightarrow> wp m Q' E' s \<Longrightarrow> wp m (\<lambda>x t. Q x t \<and> Q' x t) (\<lambda>e t. E e t \<and> E' e t) s"
  by (auto simp: wp_def split: option.splits prod.splits result.splits)

text \<open>A loop keeps every invariant that each iteration keeps.\<close>

lemma wp_forM:
  assumes step: "\<And>i t. i < length xs \<Longrightarrow> I i t \<Longrightarrow> wp (f (xs ! i)) (\<lambda>_. I (Suc i)) E t"
    and start: "I 0 s"
  shows "wp (forM xs f) (\<lambda>_. I (length xs)) E s"
  using assms
proof (induction xs arbitrary: I s)
  case Nil
  then show ?case by (simp add: wp_ret)
next
  case (Cons x xs)
  have "wp (f x) (\<lambda>_. I (Suc 0)) E s"
    using Cons.prems(1) [of 0 s] Cons.prems(2) by simp
  moreover have "wp (forM xs f) (\<lambda>_. I (Suc (length xs))) E t" if "I (Suc 0) t" for t
  proof (rule Cons.IH [of "\<lambda>i. I (Suc i)"])
    fix i u
    assume "i < length xs" and "I (Suc i) u"
    then show "wp (f (xs ! i)) (\<lambda>_. I (Suc (Suc i))) E u"
      using Cons.prems(1) [of "Suc i" u] by simp
  qed (rule that)
  ultimately have "wp (f x) (\<lambda>_. wp (forM xs f) (\<lambda>_. I (Suc (length xs))) E) E s"
    by (rule wp_mono) auto
  then show ?case by (simp add: wp_bindM)
qed

text \<open>Reading a run off its weakest precondition, and back.\<close>

lemma wp_Ok: "wp m Q E s \<Longrightarrow> m s = Some (Ok x, t) \<Longrightarrow> Q x t"
  by (simp add: wp_def)

lemma wp_Err: "wp m Q E s \<Longrightarrow> m s = Some (Err e, t) \<Longrightarrow> E e t"
  by (simp add: wp_def)

lemma wp_no_panic: "wp m Q E s \<Longrightarrow> m s \<noteq> None"
  by (cases "m s") (simp_all add: wp_def)

section \<open>Lemmas on the checked operations\<close>

lemma usize_max_eq: "usize_max = 18446744073709551615"
  by (simp add: usize_max_def)

lemma uadd_eq_Some [simp]: "uadd a b = Some c \<longleftrightarrow> c = a + b \<and> a + b \<le> usize_max"
  by (auto simp: uadd_def)

lemma usub_eq_Some [simp]: "usub a b = Some c \<longleftrightarrow> c = a - b \<and> b \<le> a"
  by (auto simp: usub_def)

lemma umul_eq_Some [simp]: "umul a b = Some c \<longleftrightarrow> c = a * b \<and> a * b \<le> usize_max"
  by (auto simp: umul_def)

text \<open>The three outcomes of a call.\<close>

lemma outcome_cases [case_names Panic Ok Err]:
  fixes m :: "(('a, 'e) result \<times> 's) option"
  obtains "m = None" | x s where "m = Some (Ok x, s)" | e s where "m = Some (Err e, s)"
proof (cases m)
  case (Some p)
  then show ?thesis using that by (cases p; cases "fst p") auto
qed

lemma uadd_Some [simp]: "a + b \<le> usize_max \<Longrightarrow> uadd a b = Some (a + b)"
  by (simp add: uadd_def)

lemma usub_Some [simp]: "b \<le> a \<Longrightarrow> usub a b = Some (a - b)"
  by (simp add: usub_def)

lemma umul_Some [simp]: "a * b \<le> usize_max \<Longrightarrow> umul a b = Some (a * b)"
  by (simp add: umul_def)

lemma idx_Some [simp]: "i < length xs \<Longrightarrow> idx xs i = Some (xs ! i)"
  by (simp add: idx_def)

lemma idx_eq_Some [simp]: "idx xs i = Some x \<longleftrightarrow> i < length xs \<and> x = xs ! i"
  by (auto simp: idx_def)

lemma ushl_1_eq_Some [simp]: "ushl (Suc 0) n = Some c \<longleftrightarrow> n < 64 \<and> c = 2 ^ n"
proof -
  have "(2::nat) ^ n mod 18446744073709551616 = 2 ^ n" if "n < 64"
  proof -
    have "(2::nat) ^ n < 2 ^ 64"
      using that by (rule power_strict_increasing) simp
    then show ?thesis by simp
  qed
  then show ?thesis by (auto simp: ushl_def)
qed

lemma ushl_1_Some [simp]: "n < 64 \<Longrightarrow> ushl (Suc 0) n = Some (2 ^ n)"
  by simp

lemma unat_wadd: "wadd a b = Some c \<Longrightarrow> unat c = unat a + unat b"
  for a b :: "'a::len word"
  by (auto simp: wadd_def unat_word_ariths split: if_splits)

lemma unat_wsub: "wsub a b = Some c \<Longrightarrow> unat c = unat a - unat b"
  for a b :: "'a::len word"
  by (auto simp: wsub_def unat_sub split: if_splits)

section \<open>Masks on words\<close>

lemma unat_and_mask: "unat (w AND mask n) = unat w mod 2 ^ n"
  for w :: "'a::len word"
  by (simp only: take_bit_eq_mask [symmetric] unsigned_take_bit_eq) (simp add: take_bit_eq_mod)

lemma and_not_mask_minus: "w AND NOT (mask n) = w - (w AND mask n)"
  for w :: "'a::len word"
proof -
  have "w = (w AND NOT (mask n)) OR (w AND mask n)"
    by (rule bit_word_eqI) (auto simp: bit_simps)
  also have "\<dots> = (w AND NOT (mask n)) + (w AND mask n)"
    by (rule disjunctive_add_eq_or [symmetric], rule bit_word_eqI) (auto simp: bit_simps)
  finally show ?thesis by (metis add_diff_cancel_right')
qed

lemma unat_and_not_mask: "unat (w AND NOT (mask n)) = unat w div 2 ^ n * 2 ^ n"
  for w :: "'a::len word"
proof -
  have "unat (w AND mask n) \<le> unat w"
    by (simp add: unat_and_mask)
  then have "unat (w - (w AND mask n)) = unat w - unat w mod 2 ^ n"
    by (simp add: unat_sub word_le_nat_alt unat_and_mask)
  then show ?thesis
    by (simp add: and_not_mask_minus minus_mod_eq_div_mult)
qed

lemma unat_exp: "n < LENGTH('a) \<Longrightarrow> unat (2 ^ n :: 'a::len word) = 2 ^ n"
proof -
  assume n: "n < LENGTH('a)"
  have "unat (of_nat (2 ^ n) :: 'a word) = 2 ^ n mod 2 ^ LENGTH('a)"
    by (simp only: unat_of_nat)
  moreover have "(2::nat) ^ n < 2 ^ LENGTH('a)"
    using n by (rule power_strict_increasing) simp
  ultimately show ?thesis by simp
qed

lemma unat_mask: "n < LENGTH('a) \<Longrightarrow> unat (mask n :: 'a::len word) = 2 ^ n - 1"
  by (simp add: mask_eq_exp_minus_1 unat_minus_one unat_exp)

lemma unat_le_mask: "unat (w AND mask n) < 2 ^ n"
  for w :: "'a::len word"
  by (simp add: unat_and_mask)

lemma unat_lt_u64: "unat (w :: u64) < 18446744073709551616"
  using unsigned_less [of w] by simp

lemma unat_of_nat_u64: "x < 2 ^ 64 \<Longrightarrow> unat (of_nat x :: u64) = x"
  by (simp only: unat_of_nat) simp

lemma unat_drop_bit_div: "unat (drop_bit k w) = unat w div 2 ^ k" for w :: "'a::len word"
  unfolding unat_drop_bit_eq by (rule drop_bit_eq_div)

lemma uand_not_mask:
  assumes "x < 2 ^ 64" and "n < 64"
  shows "uand_not x (2 ^ n - 1) = x div 2 ^ n * 2 ^ n"
proof -
  have "(of_nat (2 ^ n - 1) :: u64) = mask n"
    by (simp add: mask_eq_exp_minus_1)
  then show ?thesis
    using assms by (simp add: uand_not_def unat_and_not_mask unat_of_nat_u64)
qed

lemma ilog2_le: "0 < n \<Longrightarrow> 2 ^ ilog2 n \<le> n"
proof (induction n rule: ilog2.induct)
  case (1 n)
  show ?case
  proof (cases "n < 2")
    case True
    with "1.prems" show ?thesis by (simp add: ilog2.simps [of n])
  next
    case False
    then have "2 ^ ilog2 (n div 2) \<le> n div 2" using "1.IH" by simp
    with False show ?thesis by (simp add: ilog2.simps [of n])
  qed
qed

lemma ilog2_exp: "ilog2 (2 ^ n) = n"
proof (induction n)
  case (Suc n)
  then show ?case by (simp add: ilog2.simps [of "2 ^ Suc n"] del: power_Suc) simp
qed (simp add: ilog2.simps)

lemma trailing_ones_le: "trailing_ones (w :: 'a::len word) \<le> LENGTH('a)"
  unfolding trailing_ones_def by (metis length_takeWhile_le length_upt minus_nat.diff_0)

lemma trailing_ones_below: "i < trailing_ones w \<Longrightarrow> bit w i"
  unfolding trailing_ones_def
  by (metis (no_types, lifting) add_0 length_takeWhile_le length_upt less_le_trans nth_mem
      nth_upt set_takeWhileD takeWhile_nth minus_nat.diff_0)

lemma trailing_ones_at: "trailing_ones w < LENGTH('a) \<Longrightarrow> \<not> bit w (trailing_ones w)"
  for w :: "'a::len word"
  unfolding trailing_ones_def
  by (metis (no_types, lifting) add_0 length_upt nth_length_takeWhile nth_upt minus_nat.diff_0)

lemma count_ones_card: "count_ones w = card {i. i < LENGTH('a) \<and> bit w i}"
  for w :: "'a::len word"
proof -
  have "count_ones w = card (set (filter (bit w) [0 ..< LENGTH('a)]))"
    unfolding count_ones_def by (rule distinct_card [symmetric]) simp
  moreover have "set (filter (bit w) [0 ..< LENGTH('a)]) = {i. i < LENGTH('a) \<and> bit w i}"
    by auto
  ultimately show ?thesis by simp
qed

end
