(* ===== verification/Address.thy ===== *)
theory Address
  imports Svsm_Prelude "HOL-Library.Monad_Syntax"
begin

text \<open>
  Page sizes (\<open>kernel/src/types.rs\<close>), alignment helpers (\<open>kernel/src/utils/util.rs\<close>) and
  the address types (\<open>kernel/src/address.rs\<close>).

  The trait \<open>Address\<close> is a record of its required operations (\<open>Address_ops\<close>); the
  provided methods are functions of that record, and \<open>PhysAddr\<close> and \<open>VirtAddr\<close> are its
  two implementations.  The locale \<open>Address_laws\<close> states what the provided methods need
  of an implementation; it is interpreted for both.
\<close>

section \<open>Page sizes\<close>

definition PAGE_SHIFT :: nat where "PAGE_SHIFT = 12"
definition PAGE_SHIFT_2M :: nat where "PAGE_SHIFT_2M = 21"
definition PAGE_SHIFT_1G :: nat where "PAGE_SHIFT_1G = 30"
definition PAGE_SIZE :: nat where "PAGE_SIZE = 2 ^ PAGE_SHIFT"
definition PAGE_SIZE_2M :: nat where "PAGE_SIZE_2M = 2 ^ PAGE_SHIFT_2M"
definition PAGE_SIZE_1G :: nat where "PAGE_SIZE_1G = 2 ^ PAGE_SHIFT_1G"

lemmas page_consts = PAGE_SHIFT_def PAGE_SHIFT_2M_def PAGE_SHIFT_1G_def
  PAGE_SIZE_def PAGE_SIZE_2M_def PAGE_SIZE_1G_def

datatype PageSize = Regular | Huge

primrec PageSize_into :: "PageSize \<Rightarrow> nat" where
  "PageSize_into Regular = PAGE_SIZE"
| "PageSize_into Huge = PAGE_SIZE_2M"

datatype Bytes = Zero | One | Two | Four | Eight

primrec Bytes_mask :: "Bytes \<Rightarrow> u64" where
  "Bytes_mask Zero = 0"
| "Bytes_mask One = push_bit 8 1 - 1"
| "Bytes_mask Two = push_bit 16 1 - 1"
| "Bytes_mask Four = push_bit 32 1 - 1"
| "Bytes_mask Eight = - 1"

text \<open>\<open>None\<close> is \<open>Err(SvsmError::InvalidBytes)\<close>.\<close>

definition Bytes_try_from :: "nat \<Rightarrow> Bytes option" where
  "Bytes_try_from val =
     (if val = 0 then Some Zero
      else if val = 1 then Some One
      else if val = 2 then Some Two
      else if val = 4 then Some Four
      else if val = 8 then Some Eight
      else None)"

text \<open>The \<open>repr\<close> value of the enum: its size in bytes.\<close>

primrec Bytes_as_usize :: "Bytes \<Rightarrow> nat" where
  "Bytes_as_usize Zero = 0"
| "Bytes_as_usize One = 1"
| "Bytes_as_usize Two = 2"
| "Bytes_as_usize Four = 4"
| "Bytes_as_usize Eight = 8"

section \<open>Alignment helpers\<close>

definition align_up :: "'a::len word \<Rightarrow> 'a word \<Rightarrow> 'a word option" where
  "align_up addr align = do {
     mask \<leftarrow> wsub align 1;
     s \<leftarrow> wadd addr mask;
     Some (s AND NOT mask)
   }"

definition align_down :: "'a::len word \<Rightarrow> 'a word \<Rightarrow> 'a word option" where
  "align_down addr align = do {
     mask \<leftarrow> wsub align 1;
     Some (addr AND NOT mask)
   }"

definition is_aligned :: "'a::len word \<Rightarrow> 'a word \<Rightarrow> bool option" where
  "is_aligned addr align = do {
     mask \<leftarrow> wsub align 1;
     Some (addr AND mask = 0)
   }"

abbreviation PAGE_SIZE_W :: u64 where
  "PAGE_SIZE_W \<equiv> of_nat PAGE_SIZE"

definition page_align_up :: "u64 \<Rightarrow> u64 option" where
  "page_align_up x = align_up x PAGE_SIZE_W"

definition round_to_pages :: "u64 \<Rightarrow> u64 option" where
  "round_to_pages x = do { y \<leftarrow> page_align_up x; Some (y div PAGE_SIZE_W) }"

definition page_offset :: "u64 \<Rightarrow> u64" where
  "page_offset x = x AND (PAGE_SIZE_W - 1)"

definition overlap :: "'a::linorder \<Rightarrow> 'a \<Rightarrow> 'a \<Rightarrow> 'a \<Rightarrow> bool" where
  "overlap x1 x2 y1 y2 \<longleftrightarrow> x1 \<le> y2 \<and> y1 \<le> x2"

section \<open>The trait \<open>Address\<close>\<close>

definition SIGN_BIT :: nat where "SIGN_BIT = 47"

definition sign_extend :: "u64 \<Rightarrow> u64" where
  "sign_extend addr =
     (let mask = push_bit SIGN_BIT 1 in
      if addr AND mask = mask
      then addr OR NOT (push_bit SIGN_BIT 1 - 1)
      else addr AND (push_bit SIGN_BIT 1 - 1))"

text \<open>
  The operations a type provides to be an \<open>Address\<close>: the two conversions, and the two
  provided methods that \<open>VirtAddr\<close> overrides.
\<close>

record 'a Address_ops =
  addr_from :: "u64 \<Rightarrow> 'a"
  addr_bits :: "'a \<Rightarrow> u64"
  addr_checked_add :: "'a \<Rightarrow> u64 \<Rightarrow> 'a option"
  addr_checked_sub :: "'a \<Rightarrow> u64 \<Rightarrow> 'a option"

definition Address_is_null :: "'a Address_ops \<Rightarrow> 'a \<Rightarrow> bool" where
  "Address_is_null A self \<longleftrightarrow> addr_bits A self = 0"

definition Address_align_up :: "'a Address_ops \<Rightarrow> 'a \<Rightarrow> u64 \<Rightarrow> 'a option" where
  "Address_align_up A self align = do {
     x \<leftarrow> align_up (addr_bits A self) align;
     Some (addr_from A x)
   }"

definition Address_align_down :: "'a Address_ops \<Rightarrow> 'a \<Rightarrow> u64 \<Rightarrow> 'a option" where
  "Address_align_down A self align = do {
     x \<leftarrow> align_down (addr_bits A self) align;
     Some (addr_from A x)
   }"

definition Address_page_align_up :: "'a Address_ops \<Rightarrow> 'a \<Rightarrow> 'a option" where
  "Address_page_align_up A self = Address_align_up A self PAGE_SIZE_W"

definition Address_page_align :: "'a Address_ops \<Rightarrow> 'a \<Rightarrow> 'a option" where
  "Address_page_align A self = Address_align_down A self PAGE_SIZE_W"

definition Address_is_aligned :: "'a Address_ops \<Rightarrow> 'a \<Rightarrow> u64 \<Rightarrow> bool option" where
  "Address_is_aligned A self align = is_aligned (addr_bits A self) align"

definition Address_is_page_aligned :: "'a Address_ops \<Rightarrow> 'a \<Rightarrow> bool option" where
  "Address_is_page_aligned A self = Address_is_aligned A self PAGE_SIZE_W"

text \<open>The provided bodies of \<open>checked_add\<close> and \<open>checked_sub\<close>.\<close>

definition Address_checked_add ::
  "(u64 \<Rightarrow> 'a) \<Rightarrow> ('a \<Rightarrow> u64) \<Rightarrow> 'a \<Rightarrow> u64 \<Rightarrow> 'a option" where
  "Address_checked_add from_bits bits self off =
     map_option from_bits (wadd (bits self) off)"

definition Address_checked_sub ::
  "(u64 \<Rightarrow> 'a) \<Rightarrow> ('a \<Rightarrow> u64) \<Rightarrow> 'a \<Rightarrow> u64 \<Rightarrow> 'a option" where
  "Address_checked_sub from_bits bits self off =
     map_option from_bits (wsub (bits self) off)"

definition Address_saturating_add :: "'a Address_ops \<Rightarrow> 'a \<Rightarrow> u64 \<Rightarrow> 'a" where
  "Address_saturating_add A self off = addr_from A (wadd_sat (addr_bits A self) off)"

definition Address_page_offset :: "'a Address_ops \<Rightarrow> 'a \<Rightarrow> u64" where
  "Address_page_offset A self = addr_bits A self AND (PAGE_SIZE_W - 1)"

definition Address_crosses_page :: "'a Address_ops \<Rightarrow> 'a \<Rightarrow> u64 \<Rightarrow> bool option" where
  "Address_crosses_page A self len = do {
     let start = addr_bits A self;
     let x1 = start div PAGE_SIZE_W;
     last \<leftarrow> wsub len 1;
     s \<leftarrow> wadd start last;
     let x2 = s div PAGE_SIZE_W;
     Some (x1 \<noteq> x2)
   }"

definition Address_pfn :: "'a Address_ops \<Rightarrow> 'a \<Rightarrow> u64" where
  "Address_pfn A self = drop_bit PAGE_SHIFT (addr_bits A self)"

section \<open>Physical addresses\<close>

datatype PhysAddr = PhysAddr (phys_bits: u64)

definition PhysAddr_new :: "u64 \<Rightarrow> PhysAddr" where
  "PhysAddr_new p = PhysAddr p"

definition PhysAddr_null :: PhysAddr where
  "PhysAddr_null = PhysAddr 0"

definition PhysAddr_from :: "u64 \<Rightarrow> PhysAddr" where
  "PhysAddr_from addr = PhysAddr addr"

definition PhysAddr_sub :: "PhysAddr \<Rightarrow> PhysAddr \<Rightarrow> u64 option" where
  "PhysAddr_sub self other = wsub (phys_bits self) (phys_bits other)"

definition PhysAddr_sub_usize :: "PhysAddr \<Rightarrow> u64 \<Rightarrow> PhysAddr option" where
  "PhysAddr_sub_usize self other = map_option PhysAddr_from (wsub (phys_bits self) other)"

definition PhysAddr_add :: "PhysAddr \<Rightarrow> u64 \<Rightarrow> PhysAddr option" where
  "PhysAddr_add self other = map_option PhysAddr_from (wadd (phys_bits self) other)"

definition PhysAddr_ops :: "PhysAddr Address_ops" where
  "PhysAddr_ops = \<lparr> addr_from = PhysAddr_from, addr_bits = phys_bits,
     addr_checked_add = Address_checked_add PhysAddr_from phys_bits,
     addr_checked_sub = Address_checked_sub PhysAddr_from phys_bits \<rparr>"

section \<open>Virtual addresses\<close>

datatype VirtAddr = VirtAddr (virt_bits: u64)

definition VirtAddr_null :: VirtAddr where
  "VirtAddr_null = VirtAddr 0"

definition VirtAddr_new :: "u64 \<Rightarrow> VirtAddr" where
  "VirtAddr_new addr = VirtAddr (sign_extend addr)"

definition VirtAddr_to_pgtbl_idx :: "nat \<Rightarrow> VirtAddr \<Rightarrow> u64" where
  "VirtAddr_to_pgtbl_idx L self = drop_bit (12 + L * 9) (virt_bits self) AND 0x1ff"

definition VirtAddr_const_add :: "VirtAddr \<Rightarrow> u64 \<Rightarrow> VirtAddr option" where
  "VirtAddr_const_add self offset = map_option VirtAddr_new (wadd (virt_bits self) offset)"

definition VirtAddr_const_sub :: "VirtAddr \<Rightarrow> u64 \<Rightarrow> VirtAddr option" where
  "VirtAddr_const_sub self offset = map_option VirtAddr_new (wsub (virt_bits self) offset)"

definition VirtAddr_from :: "u64 \<Rightarrow> VirtAddr" where
  "VirtAddr_from addr = VirtAddr (sign_extend addr)"

definition VirtAddr_sub :: "VirtAddr \<Rightarrow> VirtAddr \<Rightarrow> u64 option" where
  "VirtAddr_sub self other = do {
     d \<leftarrow> wsub (virt_bits self) (virt_bits other);
     Some (d AND (push_bit (SIGN_BIT + 1) 1 - 1))
   }"

definition VirtAddr_sub_usize :: "VirtAddr \<Rightarrow> u64 \<Rightarrow> VirtAddr option" where
  "VirtAddr_sub_usize self other = map_option VirtAddr_from (wsub (virt_bits self) other)"

definition VirtAddr_add :: "VirtAddr \<Rightarrow> u64 \<Rightarrow> VirtAddr option" where
  "VirtAddr_add self other = map_option VirtAddr_from (wadd (virt_bits self) other)"

definition VirtAddr_checked_add :: "VirtAddr \<Rightarrow> u64 \<Rightarrow> VirtAddr option" where
  "VirtAddr_checked_add self off =
     map_option (\<lambda>addr. VirtAddr_from (sign_extend addr)) (wadd (virt_bits self) off)"

definition VirtAddr_checked_sub :: "VirtAddr \<Rightarrow> u64 \<Rightarrow> VirtAddr option" where
  "VirtAddr_checked_sub self off =
     map_option (\<lambda>addr. VirtAddr_from (sign_extend addr)) (wsub (virt_bits self) off)"

definition VirtAddr_ops :: "VirtAddr Address_ops" where
  "VirtAddr_ops = \<lparr> addr_from = VirtAddr_from, addr_bits = virt_bits,
     addr_checked_add = VirtAddr_checked_add,
     addr_checked_sub = VirtAddr_checked_sub \<rparr>"

section \<open>Alignment\<close>

lemma exp_minus_1_mask: "(2 ^ n :: 'a::len word) - 1 = mask n"
  by (simp add: mask_eq_exp_minus_1)

lemma wsub_exp_1: "n < LENGTH('a) \<Longrightarrow> wsub (2 ^ n :: 'a::len word) 1 = Some (mask n)"
  by (simp add: wsub_def word_le_nat_alt exp_minus_1_mask unat_exp)

lemma align_down_exp:
  "n < LENGTH('a) \<Longrightarrow> align_down x (2 ^ n :: 'a::len word) = Some (x AND NOT (mask n))"
  by (simp add: align_down_def wsub_exp_1)

lemma is_aligned_exp:
  assumes "n < LENGTH('a)"
  shows "is_aligned x (2 ^ n :: 'a::len word) = Some (2 ^ n dvd unat x)"
proof -
  have "x AND mask n = 0 \<longleftrightarrow> unat (x AND mask n) = 0"
    by (simp only: unat_eq_zero)
  then show ?thesis
    using assms by (simp add: is_aligned_def wsub_exp_1 unat_and_mask dvd_eq_mod_eq_0)
qed

lemma align_up_exp:
  assumes n: "n < LENGTH('a)"
  shows "align_up x (2 ^ n :: 'a::len word) =
    (if unat x + 2 ^ n - 1 < 2 ^ LENGTH('a) then Some ((x + mask n) AND NOT (mask n)) else None)"
  using n by (simp add: align_up_def wsub_exp_1 wadd_def unat_mask)

lemma unat_align_up:
  assumes n: "n < LENGTH('a)" and y: "align_up x (2 ^ n :: 'a::len word) = Some y"
  shows "unat y = (unat x + (2 ^ n - 1)) div 2 ^ n * 2 ^ n"
proof -
  from n y have lt: "unat x + 2 ^ n - 1 < 2 ^ LENGTH('a)" and eq: "y = (x + mask n) AND NOT (mask n)"
    by (auto simp: align_up_exp split: if_splits)
  from lt n have "unat (x + mask n) = unat x + (2 ^ n - 1)"
    by (simp add: unat_word_ariths unat_mask)
  with eq show ?thesis by (simp add: unat_and_not_mask)
qed

text \<open>Rounding up on natural numbers: the least multiple that is not smaller.\<close>

lemma round_up_least:
  fixes x m d :: nat
  assumes d: "0 < d" and m: "d dvd m" "x \<le> m"
  shows "(x + (d - 1)) div d * d \<le> m"
proof -
  obtain k where k: "m = k * d" using m(1) by (metis dvd_def mult.commute)
  have "x + (d - 1) < (k + 1) * d"
    using d k m(2) by (simp add: algebra_simps)
  then have "(x + (d - 1)) div d < k + 1"
    using d by (simp add: less_mult_imp_div_less)
  then have "(x + (d - 1)) div d \<le> k" by linarith
  then show ?thesis unfolding k by (rule mult_le_mono1)
qed

lemma round_up_ge: "0 < d \<Longrightarrow> x \<le> (x + (d - 1)) div d * d" for x d :: nat
proof -
  assume d: "0 < d"
  have "x + (d - 1) = (x + (d - 1)) div d * d + (x + (d - 1)) mod d"
    by simp
  moreover have "(x + (d - 1)) mod d \<le> d - 1"
    using d by (metis Suc_pred' less_Suc_eq_le mod_less_divisor)
  ultimately show ?thesis by linarith
qed

text \<open>
  \<open>align_up\<close> panics exactly when no representable address is aligned and large enough.
\<close>

lemma align_up_None:
  assumes n: "n < LENGTH('a)"
  shows "align_up x (2 ^ n :: 'a::len word) = None \<longleftrightarrow>
    \<not> (\<exists>z :: 'a word. x \<le> z \<and> 2 ^ n dvd unat z)"
proof -
  have "unat x + 2 ^ n - 1 < 2 ^ LENGTH('a)" if z: "x \<le> z" "2 ^ n dvd unat z" for z :: "'a word"
  proof -
    have "(unat x + (2 ^ n - 1)) div 2 ^ n * 2 ^ n \<le> unat z"
      using z by (intro round_up_least) (auto simp: word_le_nat_alt)
    also have "\<dots> < 2 ^ LENGTH('a)" by (rule unsigned_less)
    finally have "(unat x + (2 ^ n - 1)) div 2 ^ n < 2 ^ LENGTH('a) div 2 ^ n"
      using n by (simp add: power_diff [symmetric] less_mult_imp_div_less
          flip: power_add) (metis le_add_diff_inverse2 less_imp_le_nat mult_less_cancel2 power_add)
    then show ?thesis
      using n by (metis add_diff_assoc div_le_mono leI linorder_not_less one_le_power one_le_numeral)
  qed
  moreover have "\<exists>z :: 'a word. x \<le> z \<and> 2 ^ n dvd unat z" if y: "align_up x (2 ^ n) = Some y" for y
    using unat_align_up [OF n y] round_up_ge [of "2 ^ n" "unat x"]
    by (intro exI [of _ y]) (simp add: word_le_nat_alt)
  ultimately show ?thesis
    using align_up_exp [OF n, of x] by (cases "align_up x (2 ^ n)") (auto split: if_splits)
qed

text \<open>
  C39. \<open>align_up\<close> on a power of two returns the least aligned address that is not below its
  argument, and panics exactly when there is none; \<open>align_down\<close> returns the greatest
  aligned address that is not above it; \<open>is_aligned\<close> decides divisibility.
\<close>

theorem align_spec:
  fixes x :: "'a::len word"
  assumes "n < LENGTH('a)"
  shows "(\<forall>y. align_up x (2 ^ n) = Some y \<longrightarrow>
      x \<le> y \<and> 2 ^ n dvd unat y \<and> (\<forall>z. x \<le> z \<and> 2 ^ n dvd unat z \<longrightarrow> y \<le> z))
    \<and> (align_up x (2 ^ n) = None \<longleftrightarrow> \<not> (\<exists>z. x \<le> z \<and> 2 ^ n dvd unat z))
    \<and> (\<exists>y. align_down x (2 ^ n) = Some y \<and> y \<le> x \<and> 2 ^ n dvd unat y
         \<and> (\<forall>z. z \<le> x \<and> 2 ^ n dvd unat z \<longrightarrow> z \<le> y))
    \<and> is_aligned x (2 ^ n) = Some (2 ^ n dvd unat x)"
proof (intro conjI allI impI)
  fix y assume y: "align_up x (2 ^ n) = Some y"
  note u = unat_align_up [OF assms y]
  show "x \<le> y" using round_up_ge [of "2 ^ n" "unat x"] by (simp add: word_le_nat_alt u)
  show "2 ^ n dvd unat y" by (simp add: u)
  fix z assume "x \<le> z \<and> 2 ^ n dvd unat z"
  then show "y \<le> z" unfolding word_le_nat_alt u by (intro round_up_least) auto
next
  show "align_up x (2 ^ n) = None \<longleftrightarrow> \<not> (\<exists>z. x \<le> z \<and> 2 ^ n dvd unat z)"
    by (rule align_up_None [OF assms])
next
  let ?y = "x AND NOT (mask n)"
  have "z \<le> ?y" if "z \<le> x" and "2 ^ n dvd unat z" for z
    using that by (simp add: word_le_nat_alt unat_and_not_mask)
      (metis div_le_mono dvd_div_mult_self mult_le_mono1)
  moreover have "?y \<le> x" by (rule word_and_le2)
  moreover have "2 ^ n dvd unat ?y" by (simp add: unat_and_not_mask)
  ultimately show "\<exists>y. align_down x (2 ^ n) = Some y \<and> y \<le> x \<and> 2 ^ n dvd unat y
      \<and> (\<forall>z. z \<le> x \<and> 2 ^ n dvd unat z \<longrightarrow> z \<le> y)"
    using align_down_exp [OF assms, of x] by blast
next
  show "is_aligned x (2 ^ n) = Some (2 ^ n dvd unat x)"
    by (rule is_aligned_exp [OF assms])
qed

theorem align_spec_witness:
  "12 < LENGTH(64) \<and> align_up (4097 :: u64) (2 ^ 12) = Some 8192
    \<and> align_down (4097 :: u64) (2 ^ 12) = Some 4096
    \<and> is_aligned (4097 :: u64) (2 ^ 12) = Some False
    \<and> {z :: u64. 4097 \<le> z \<and> z < 8192 \<and> 2 ^ 12 dvd unat z} = {}"
proof -
  have "align_up (4097 :: u64) (2 ^ 12) = Some 8192"
    by (simp add: align_up_def wsub_def wadd_def)
  moreover have "align_down (4097 :: u64) (2 ^ 12) = Some 4096"
    by (simp add: align_down_def wsub_def)
  ultimately show ?thesis
    using align_spec [of 12 "4097 :: u64"] by (auto simp: not_less)
qed

section \<open>Canonical addresses\<close>

text \<open>
  A canonical address repeats bit 47 in all bits above it, which is what the processor
  demands of a virtual address with four-level paging.
\<close>

definition canonical :: "u64 \<Rightarrow> bool" where
  "canonical x \<longleftrightarrow> drop_bit 47 x = 0 \<or> drop_bit 47 x = mask 17"

lemma push_bit_1_mask: "push_bit n 1 - 1 = (mask n :: u64)"
  by (simp add: push_bit_of_1 mask_eq_exp_minus_1)

lemma and_bit_eq_bit:
  fixes x :: "'a::len word"
  assumes n: "n < LENGTH('a)"
  shows "x AND push_bit n 1 = push_bit n 1 \<longleftrightarrow> bit x n"
proof
  assume "x AND push_bit n 1 = push_bit n 1"
  then have "bit (x AND push_bit n 1) n = bit (push_bit n 1 :: 'a word) n" by (rule arg_cong)
  then show "bit x n" using n by (simp add: bit_simps)
next
  assume "bit x n"
  then show "x AND push_bit n 1 = push_bit n 1"
    by (intro bit_word_eqI) (auto simp: bit_simps)
qed

lemma sign_extend_eq:
  "sign_extend x = (if bit x 47 then x OR NOT (mask 47) else x AND mask 47)"
proof -
  have "x AND push_bit 47 1 = push_bit 47 1 \<longleftrightarrow> bit x 47"
    by (rule and_bit_eq_bit) simp
  then show ?thesis
    unfolding sign_extend_def SIGN_BIT_def push_bit_1_mask Let_def by (simp only:)
qed

lemma bit_sign_extend:
  "n < 64 \<Longrightarrow> bit (sign_extend x) n = (if n < 47 then bit x n else bit x 47)"
  by (auto simp: sign_extend_eq bit_simps)

lemma bit_above: "m \<le> n \<Longrightarrow> bit x n = bit (drop_bit m x) (n - m)" for x :: u64
  by (simp add: bit_drop_bit_eq)

lemma canonical_bits: "canonical x \<longleftrightarrow> (\<forall>n. 47 \<le> n \<and> n < 64 \<longrightarrow> bit x n = bit x 47)"
proof
  assume "canonical x"
  then consider "drop_bit 47 x = 0" | "drop_bit 47 x = mask 17"
    by (auto simp only: canonical_def)
  then show "\<forall>n. 47 \<le> n \<and> n < 64 \<longrightarrow> bit x n = bit x 47"
    by cases (auto simp: bit_above [of 47] bit_simps)
next
  assume b: "\<forall>n. 47 \<le> n \<and> n < 64 \<longrightarrow> bit x n = bit x 47"
  show "canonical x"
  proof (cases "bit x 47")
    case True
    with b have "drop_bit 47 x = mask 17"
      by (intro bit_word_eqI) (auto simp: bit_simps dest: bit_imp_le_length)
    then show ?thesis by (simp add: canonical_def)
  next
    case False
    with b have "\<not> bit x n" if "47 \<le> n" for n
      using that bit_imp_le_length [of x n] by auto
    then have "drop_bit 47 x = 0"
      by (intro bit_word_eqI) (simp add: bit_simps)
    then show ?thesis by (simp add: canonical_def)
  qed
qed

lemma canonicalD: "canonical x \<Longrightarrow> 47 \<le> n \<Longrightarrow> n < 64 \<Longrightarrow> bit x n = bit x 47"
  unfolding canonical_bits by blast

lemma canonicalI: "(\<And>n. 47 \<le> n \<Longrightarrow> n < 64 \<Longrightarrow> bit x n = bit x 47) \<Longrightarrow> canonical x"
  unfolding canonical_bits by blast

lemma canonical_sign_extend [simp]: "canonical (sign_extend x)"
  by (simp add: canonical_bits bit_sign_extend)

lemma sign_extend_canonical: "canonical x \<Longrightarrow> sign_extend x = x"
proof (rule bit_word_eqI)
  fix n
  assume c: "canonical x" and "n < LENGTH(64)"
  then have n: "n < 64" by simp
  show "bit (sign_extend x) n = bit x n"
  proof (cases "n < 47")
    case False
    with c n have "bit x n = bit x 47" by (intro canonicalD) simp_all
    with n False show ?thesis by (simp add: bit_sign_extend)
  qed (use n in \<open>simp add: bit_sign_extend\<close>)
qed

lemma less_48: "n < 48 \<Longrightarrow> \<not> n < 47 \<Longrightarrow> n = (47::nat)"
  by simp

lemma sign_extend_low: "sign_extend x AND mask 48 = x AND mask 48"
  by (rule bit_word_eqI) (auto simp: bit_sign_extend bit_simps dest: less_48)

lemma sign_extend_cong: "x AND mask 48 = y AND mask 48 \<Longrightarrow> sign_extend x = sign_extend y"
proof -
  assume eq: "x AND mask 48 = y AND mask 48"
  have "bit x n = bit y n" if "n < 48" for n
    using arg_cong [OF eq, of "\<lambda>w. bit w n"] that by (simp add: bit_simps)
  then show ?thesis by (intro bit_word_eqI) (simp add: bit_sign_extend)
qed

section \<open>The contract of an address type\<close>

text \<open>
  What the provided methods of \<open>Address\<close> rely on: an address is rebuilt from its bits,
  clearing low bits (below the sign bit) of a valid address stays exact, and the checked
  operations are the checked operations on the bits.
\<close>

locale Address_laws =
  fixes A :: "'a Address_ops"
    and valid :: "'a \<Rightarrow> bool"
  assumes from_bits: "valid a \<Longrightarrow> addr_from A (addr_bits A a) = a"
    and valid_from: "valid (addr_from A x)"
    and bits_clear: "valid a \<Longrightarrow> n \<le> 47 \<Longrightarrow>
      addr_bits A (addr_from A (addr_bits A a AND NOT (mask n))) = addr_bits A a AND NOT (mask n)"
    and checked_add_bits: "addr_checked_add A a off = map_option (addr_from A) (wadd (addr_bits A a) off)"
    and checked_sub_bits: "addr_checked_sub A a off = map_option (addr_from A) (wsub (addr_bits A a) off)"
begin

lemma align_down_ok:
  assumes a: "valid a" and n: "n \<le> 47"
  shows "\<exists>b. Address_align_down A a (2 ^ n) = Some b \<and> valid b
    \<and> addr_bits A b = addr_bits A a AND NOT (mask n)
    \<and> Address_is_aligned A b (2 ^ n) = Some True"
proof -
  have n': "n < LENGTH(64)" using n by simp
  have "Address_align_down A a (2 ^ n) = Some (addr_from A (addr_bits A a AND NOT (mask n)))"
    by (simp add: Address_align_down_def align_down_exp [OF n'])
  moreover have "is_aligned (addr_bits A a AND NOT (mask n)) (2 ^ n) = Some True"
    by (simp add: is_aligned_exp [OF n'] unat_and_not_mask)
  ultimately show ?thesis
    using a n by (simp add: Address_is_aligned_def bits_clear valid_from)
qed

lemma page_split:
  assumes a: "valid a"
  shows "\<exists>b. Address_page_align A a = Some b \<and> valid b
    \<and> Address_is_page_aligned A b = Some True
    \<and> Address_pfn A b = Address_pfn A a
    \<and> addr_bits A b + Address_page_offset A a = addr_bits A a
    \<and> Address_page_offset A a < PAGE_SIZE_W"
proof -
  have p: "PAGE_SIZE_W = 2 ^ 12" by (simp add: page_consts)
  from align_down_ok [OF a, of 12] obtain b where
    b: "Address_align_down A a (2 ^ 12) = Some b" "valid b"
      "addr_bits A b = addr_bits A a AND NOT (mask 12)"
      "Address_is_aligned A b (2 ^ 12) = Some True"
    by auto
  have off: "Address_page_offset A a = addr_bits A a AND mask 12"
    unfolding Address_page_offset_def p exp_minus_1_mask ..
  have "drop_bit 12 (addr_bits A a AND NOT (mask 12)) = drop_bit 12 (addr_bits A a)"
    by (rule bit_word_eqI) (auto simp: bit_simps dest: bit_imp_le_length)
  then have "Address_pfn A b = Address_pfn A a"
    by (simp add: Address_pfn_def PAGE_SHIFT_def b(3))
  moreover have "addr_bits A b + Address_page_offset A a = addr_bits A a"
    by (simp add: off b(3) and_not_mask_minus)
  moreover have "Address_page_offset A a < PAGE_SIZE_W"
    using unat_le_mask [of "addr_bits A a" 12] by (simp add: off word_less_nat_alt page_consts)
  ultimately show ?thesis
    using b unfolding Address_page_align_def Address_is_page_aligned_def p by blast
qed

lemma crosses_page_iff:
  assumes "0 < unat len" and "unat (addr_bits A a) + unat len \<le> 2 ^ 64"
  shows "Address_crosses_page A a len =
    Some (unat (addr_bits A a) div PAGE_SIZE \<noteq> (unat (addr_bits A a) + unat len - 1) div PAGE_SIZE)"
proof -
  let ?s = "addr_bits A a"
  have p: "unat PAGE_SIZE_W = PAGE_SIZE" by (simp add: page_consts)
  have len: "unat (len - 1) = unat len - 1"
    using assms(1) by (intro unat_minus_one) auto
  then have sum: "unat (?s + (len - 1)) = unat ?s + unat len - 1"
    using assms by (simp add: unat_word_ariths)
  have "Address_crosses_page A a len = Some (?s div PAGE_SIZE_W \<noteq> (?s + (len - 1)) div PAGE_SIZE_W)"
    using assms len by (simp add: Address_crosses_page_def wsub_def wadd_def word_le_nat_alt Let_def)
  then show ?thesis
    by (simp only: word_unat_eq_iff unat_div p sum)
qed

lemma checked_add_valid: "addr_checked_add A a off = Some b \<Longrightarrow> valid b"
  by (auto simp: checked_add_bits valid_from)

end

lemma canonical_clear: "canonical x \<Longrightarrow> n \<le> 47 \<Longrightarrow> canonical (x AND NOT (mask n))"
proof (rule canonicalI)
  fix k :: nat
  assume "canonical x" "n \<le> 47" "47 \<le> k" "k < 64"
  then show "bit (x AND NOT (mask n)) k = bit (x AND NOT (mask n)) 47"
    using canonicalD [of x k] by (simp add: bit_simps)
qed

interpretation phys: Address_laws PhysAddr_ops "\<lambda>_. True"
  by unfold_locales
    (auto simp: PhysAddr_ops_def PhysAddr_from_def Address_checked_add_def Address_checked_sub_def)

abbreviation VirtAddr_ok :: "VirtAddr \<Rightarrow> bool" where
  "VirtAddr_ok v \<equiv> canonical (virt_bits v)"

interpretation virt: Address_laws VirtAddr_ops VirtAddr_ok
proof unfold_locales
  fix a n
  assume a: "VirtAddr_ok a" and n: "n \<le> (47::nat)"
  from canonical_clear [OF this] show
    "addr_bits VirtAddr_ops (addr_from VirtAddr_ops (addr_bits VirtAddr_ops a AND NOT (mask n)))
      = addr_bits VirtAddr_ops a AND NOT (mask n)"
    by (simp add: VirtAddr_ops_def VirtAddr_from_def sign_extend_canonical)
qed (auto simp: VirtAddr_ops_def VirtAddr_from_def sign_extend_canonical
    VirtAddr_checked_add_def VirtAddr_checked_sub_def intro!: map_option_cong)

section \<open>Address arithmetic\<close>

lemma sign_extend_unique:
  "canonical y \<and> y AND mask 48 = x AND mask 48 \<longleftrightarrow> y = sign_extend x"
  using sign_extend_cong sign_extend_canonical sign_extend_low canonical_sign_extend by metis

lemma canonical_unat: "canonical x \<longleftrightarrow> unat x < 2 ^ 47 \<or> 2 ^ 64 - 2 ^ 47 \<le> unat x"
proof -
  have "drop_bit 47 x = w \<longleftrightarrow> unat x div 2 ^ 47 = unat w" for w
    unfolding word_unat_eq_iff unat_drop_bit_eq by (simp only: drop_bit_eq_div)
  then have "canonical x \<longleftrightarrow> unat x div 2 ^ 47 = 0 \<or> unat x div 2 ^ 47 = 2 ^ 17 - 1"
    unfolding canonical_def by (simp add: unat_mask)
  then show ?thesis using unat_lt_u64 [of x] by auto
qed

lemma hole_mod: "(l + 18446462598732840960) mod 281474976710656 = l mod (281474976710656::nat)"
  using mod_mult_self1 [of l 65535 281474976710656] by simp

lemma unat_sign_extend:
  "unat (sign_extend x) =
     (let l = unat x mod 2 ^ 48 in if l < 2 ^ 47 then l else l + (2 ^ 64 - 2 ^ 48))"
proof -
  define l where "l = unat x mod 2 ^ 48"
  define v where "v = (if l < 2 ^ 47 then l else l + (2 ^ 64 - 2 ^ 48))"
  have l: "l < 2 ^ 48" by (simp add: l_def)
  then have v: "unat (of_nat v :: u64) = v"
    by (simp add: v_def unat_of_nat)
  have "canonical (of_nat v)"
    using l unfolding canonical_unat v by (simp add: v_def)
  moreover have "(of_nat v :: u64) AND mask 48 = x AND mask 48"
    unfolding word_unat_eq_iff unat_and_mask v by (auto simp: v_def l_def hole_mod)
  ultimately have "of_nat v = sign_extend x" by (simp add: sign_extend_unique [symmetric])
  then show ?thesis using v by (simp add: v_def l_def Let_def)
qed

text \<open>
  \<open>sign_extend\<close>, and with it \<open>VirtAddr::new\<close> and \<open>VirtAddr::from\<close>, returns the one
  canonical address that agrees with its argument on the low 48 bits.
\<close>

theorem sign_extend_spec:
  "(canonical y \<and> y AND mask 48 = x AND mask 48) = (VirtAddr_new x = VirtAddr y)
   \<and> VirtAddr_from x = VirtAddr_new x"
  unfolding VirtAddr_new_def VirtAddr_from_def using sign_extend_unique [of y x] by auto

lemma VirtAddr_sub_eq:
  "virt_bits a \<le> virt_bits b \<Longrightarrow>
     VirtAddr_sub b a = Some ((virt_bits b - virt_bits a) AND mask 48)"
proof -
  have "push_bit (SIGN_BIT + 1) 1 - 1 = (mask 48 :: u64)"
    by (simp only: push_bit_1_mask) (simp add: SIGN_BIT_def)
  then show "virt_bits a \<le> virt_bits b \<Longrightarrow> ?thesis"
    by (simp add: VirtAddr_sub_def wsub_def)
qed

lemma VirtAddr_add_sub_inv:
  assumes a: "VirtAddr_ok a" and off: "unat off < 2 ^ 47" and b: "VirtAddr_add a off = Some b"
  shows "VirtAddr_ok b \<and> VirtAddr_sub b a = Some off"
proof -
  obtain s where s: "wadd (virt_bits a) off = Some s" and b': "b = VirtAddr (sign_extend s)"
    using b by (auto simp: VirtAddr_add_def VirtAddr_from_def)
  have us: "unat s = unat (virt_bits a) + unat off" using s by (rule unat_wadd)
  have lt: "unat s < 2 ^ 64" using unat_lt_u64 [of s] by simp
  have ub: "unat (virt_bits b) =
      (let l = unat s mod 2 ^ 48 in if l < 2 ^ 47 then l else l + (2 ^ 64 - 2 ^ 48))"
    by (simp only: b' VirtAddr.sel unat_sign_extend)
  have le: "unat (virt_bits a) \<le> unat (virt_bits b)
      \<and> (unat (virt_bits b) - unat (virt_bits a)) mod 2 ^ 48 = unat off"
  proof (cases "unat (virt_bits a) < 2 ^ 47")
    case True
    then have "unat s mod 2 ^ 48 = unat s" using us off by simp
    then show ?thesis using us ub off True by (auto simp: Let_def hole_mod)
  next
    case False
    with a have "2 ^ 64 - 2 ^ 47 \<le> unat (virt_bits a)" by (simp add: canonical_unat)
    with us lt obtain r where r: "unat s = r + 18446462598732840960" "r < 2 ^ 48" "2 ^ 47 \<le> r"
      by (intro that [of "unat s - 18446462598732840960"]) simp_all
    then have "unat (virt_bits b) = unat s" using ub by (simp add: Let_def hole_mod)
    then show ?thesis using us off by simp
  qed
  then have "unat ((virt_bits b - virt_bits a) AND mask 48) = unat off"
    by (simp add: unat_and_mask unat_sub word_le_nat_alt)
  then have "(virt_bits b - virt_bits a) AND mask 48 = off"
    by (simp only: word_unat_eq_iff)
  with le show ?thesis
    by (simp add: VirtAddr_sub_eq word_le_nat_alt b')
qed

text \<open>
  An address range that starts at a canonical address and stays inside its half of the
  address space is linear: no addition in it wraps or crosses the hole.
\<close>

definition in_half :: "u64 \<Rightarrow> nat \<Rightarrow> bool" where
  "in_half a len \<longleftrightarrow> unat a + len < (if unat a < 2 ^ 47 then 2 ^ 47 else 2 ^ 64)"

lemma in_half_mono: "in_half a len \<Longrightarrow> off \<le> len \<Longrightarrow> in_half a off"
  by (auto simp: in_half_def split: if_splits)

lemma VirtAddr_add_linear:
  assumes a: "VirtAddr_ok a" and off: "in_half (virt_bits a) off"
  obtains v where "VirtAddr_add a (of_nat off) = Some v" and "VirtAddr_ok v"
    and "unat (virt_bits v) = unat (virt_bits a) + off" and "off < 2 ^ 47"
    and "VirtAddr_sub v a = Some (of_nat off)" and "v = VirtAddr (virt_bits a + of_nat off)"
proof -
  let ?b = "virt_bits a"
  define v where "v = VirtAddr_from (?b + of_nat off)"
  have small: "off < 2 ^ 47" using a off by (auto simp: in_half_def canonical_unat split: if_splits)
  then have u: "unat (of_nat off :: u64) = off" by (intro unat_of_nat_u64) simp
  then have w: "wadd ?b (of_nat off) = Some (?b + of_nat off)"
    using off by (auto simp: wadd_def in_half_def split: if_splits)
  then have sum: "unat (?b + of_nat off) = unat ?b + off" using unat_wadd [OF w] u by simp
  have "canonical (?b + of_nat off)"
    using off sum a by (auto simp: in_half_def canonical_unat split: if_splits)
  then have v: "v = VirtAddr (?b + of_nat off)"
    by (simp add: v_def VirtAddr_from_def sign_extend_canonical)
  have add: "VirtAddr_add a (of_nat off) = Some v" by (simp add: VirtAddr_add_def w v_def)
  have "VirtAddr_ok v \<and> VirtAddr_sub v a = Some (of_nat off)"
    using small u by (intro VirtAddr_add_sub_inv [OF a _ add]) simp
  moreover have "unat (virt_bits v) = unat ?b + off" by (simp only: v VirtAddr.sel sum)
  ultimately show thesis using that add small v by blast
qed

text \<open>
  C37. adding an offset below \<open>2\<^sup>4\<^sup>7\<close> to a canonical address gives, when it does not panic, a
  canonical address, also across the non-canonical hole, and subtracting the old address
  from the new one gives the offset back.
\<close>

theorem VirtAddr_add_sub:
  assumes "VirtAddr_ok a" and "unat off < 2 ^ 47" and "VirtAddr_add a off = Some b"
  shows "VirtAddr_ok b \<and> VirtAddr_sub b a = Some off"
  using assms by (rule VirtAddr_add_sub_inv)

theorem VirtAddr_add_sub_witness:
  "VirtAddr_ok (VirtAddr 0x7ffffffff000) \<and> unat (0x2000 :: u64) < 2 ^ 47
   \<and> VirtAddr_add (VirtAddr 0x7ffffffff000) 0x2000 = Some (VirtAddr 0xffff800000001000)
   \<and> VirtAddr_sub (VirtAddr 0xffff800000001000) (VirtAddr 0x7ffffffff000) = Some 0x2000"
proof -
  have a: "VirtAddr_ok (VirtAddr 0x7ffffffff000)" by (simp add: canonical_unat)
  have b: "VirtAddr_add (VirtAddr 0x7ffffffff000) 0x2000 = Some (VirtAddr 0xffff800000001000)"
    by (simp add: VirtAddr_add_def VirtAddr_from_def wadd_def sign_extend_def SIGN_BIT_def)
  show ?thesis using VirtAddr_add_sub [OF a _ b] a b by simp
qed

lemma bit_field9:
  "bit (push_bit k (drop_bit k x AND mask 9)) n \<longleftrightarrow> k \<le> n \<and> n < k + 9 \<and> bit x n" for x :: u64
  using bit_imp_le_length [of x n] by (auto simp: bit_simps)

text \<open>
  C38. the four page-table indices and the page offset determine a canonical address:
  putting them back at their places and sign-extending gives the address again.
\<close>

theorem VirtAddr_pgtbl_roundtrip:
  assumes "VirtAddr_ok v"
  shows "VirtAddr_new (push_bit 39 (VirtAddr_to_pgtbl_idx 3 v) OR push_bit 30 (VirtAddr_to_pgtbl_idx 2 v)
     OR push_bit 21 (VirtAddr_to_pgtbl_idx 1 v) OR push_bit 12 (VirtAddr_to_pgtbl_idx 0 v)
     OR Address_page_offset VirtAddr_ops v) = v"
proof -
  let ?x = "virt_bits v"
  have m9: "(0x1ff :: u64) = mask 9" by (simp add: mask_eq_exp_minus_1)
  have m12: "PAGE_SIZE_W - 1 = mask 12" by (simp add: mask_eq_exp_minus_1 page_consts)
  have "?x = sign_extend (push_bit 39 (drop_bit 39 ?x AND mask 9) OR push_bit 30 (drop_bit 30 ?x AND mask 9)
     OR push_bit 21 (drop_bit 21 ?x AND mask 9) OR push_bit 12 (drop_bit 12 ?x AND mask 9)
     OR (?x AND mask 12))" (is "_ = sign_extend ?y")
  proof -
    have "bit ?y n = bit ?x n" if "n < 48" for n
      using that by (simp only: bit_or_iff bit_field9 bit_and_iff bit_mask_iff) auto
    then have "?y AND mask 48 = ?x AND mask 48"
      by (intro bit_word_eqI) (simp only: bit_and_iff bit_mask_iff, blast)
    with assms show ?thesis by (simp add: sign_extend_unique [symmetric])
  qed
  then show ?thesis
    unfolding VirtAddr_to_pgtbl_idx_def Address_page_offset_def m9 m12 VirtAddr_new_def
    by (simp add: VirtAddr_ops_def)
qed

theorem VirtAddr_pgtbl_roundtrip_witness:
  "VirtAddr_ok (VirtAddr 0xffffff8000203045)
   \<and> VirtAddr_to_pgtbl_idx 3 (VirtAddr 0xffffff8000203045) = 511
   \<and> VirtAddr_to_pgtbl_idx 1 (VirtAddr 0xffffff8000203045) = 1
   \<and> VirtAddr_new (push_bit 39 (VirtAddr_to_pgtbl_idx 3 (VirtAddr 0xffffff8000203045))
      OR push_bit 30 (VirtAddr_to_pgtbl_idx 2 (VirtAddr 0xffffff8000203045))
      OR push_bit 21 (VirtAddr_to_pgtbl_idx 1 (VirtAddr 0xffffff8000203045))
      OR push_bit 12 (VirtAddr_to_pgtbl_idx 0 (VirtAddr 0xffffff8000203045))
      OR Address_page_offset VirtAddr_ops (VirtAddr 0xffffff8000203045))
     = VirtAddr 0xffffff8000203045"
proof -
  have a: "VirtAddr_ok (VirtAddr 0xffffff8000203045)" by (simp add: canonical_unat)
  have "VirtAddr_to_pgtbl_idx 3 (VirtAddr 0xffffff8000203045) = 511"
    and "VirtAddr_to_pgtbl_idx 1 (VirtAddr 0xffffff8000203045) = 1"
    by (simp_all add: VirtAddr_to_pgtbl_idx_def)
  with a VirtAddr_pgtbl_roundtrip [OF a] show ?thesis by blast
qed

text \<open>
  every physical address, and every canonical virtual address, is its page base plus
  its page offset; the base is page aligned, lies in the same page frame and the offset is
  smaller than a page.
\<close>

theorem page_base_offset:
  "(\<exists>b. Address_page_align PhysAddr_ops p = Some b
      \<and> Address_is_page_aligned PhysAddr_ops b = Some True
      \<and> Address_pfn PhysAddr_ops b = Address_pfn PhysAddr_ops p
      \<and> phys_bits b + Address_page_offset PhysAddr_ops p = phys_bits p
      \<and> Address_page_offset PhysAddr_ops p < PAGE_SIZE_W)
   \<and> (VirtAddr_ok v \<longrightarrow> (\<exists>b. Address_page_align VirtAddr_ops v = Some b \<and> VirtAddr_ok b
      \<and> Address_is_page_aligned VirtAddr_ops b = Some True
      \<and> Address_pfn VirtAddr_ops b = Address_pfn VirtAddr_ops v
      \<and> virt_bits b + Address_page_offset VirtAddr_ops v = virt_bits v
      \<and> Address_page_offset VirtAddr_ops v < PAGE_SIZE_W))"
  using phys.page_split [of p] virt.page_split [of v]
  by (auto simp: PhysAddr_ops_def VirtAddr_ops_def)

theorem page_base_offset_witness:
  "VirtAddr_ok (VirtAddr 0xffffff8000203045)
   \<and> Address_page_align VirtAddr_ops (VirtAddr 0xffffff8000203045) = Some (VirtAddr 0xffffff8000203000)
   \<and> Address_page_offset VirtAddr_ops (VirtAddr 0xffffff8000203045) = 0x45
   \<and> (\<exists>b. Address_page_align VirtAddr_ops (VirtAddr 0xffffff8000203045) = Some b
      \<and> VirtAddr_ok b \<and> virt_bits b + 0x45 = 0xffffff8000203045)"
proof -
  have a: "VirtAddr_ok (VirtAddr 0xffffff8000203045)" by (simp add: canonical_unat)
  have b: "Address_page_align VirtAddr_ops (VirtAddr 0xffffff8000203045) = Some (VirtAddr 0xffffff8000203000)"
    by (simp add: Address_page_align_def Address_align_down_def align_down_def wsub_def VirtAddr_ops_def
        VirtAddr_from_def sign_extend_def SIGN_BIT_def page_consts)
  have o: "Address_page_offset VirtAddr_ops (VirtAddr 0xffffff8000203045) = 0x45"
    by (simp add: Address_page_offset_def VirtAddr_ops_def page_consts)
  show ?thesis
    using page_base_offset [of PhysAddr_null "VirtAddr 0xffffff8000203045"] a b o by auto
qed

end
