(* ===== verification/Memory_Region.thy ===== *)
theory Memory_Region
  imports Address
begin

unbundle bit_operations_syntax

text \<open>
  Memory regions (\<open>kernel/src/utils/memory_region.rs\<close>): half-open intervals of physical or
  virtual addresses.  The address type is a record of operations \<open>A\<close>; the order of two
  addresses is the order of their bits, as the derived \<open>Ord\<close> of \<open>PhysAddr\<close> and \<open>VirtAddr\<close>
  has it.  \<open>region_set\<close> is the set of addresses a region covers, against which the
  predicates are specified.
\<close>

record 'a MemoryRegion =
  mr_start :: 'a
  mr_end :: 'a

definition MemoryRegion_new :: "'a Address_ops \<Rightarrow> 'a \<Rightarrow> u64 \<Rightarrow> 'a MemoryRegion option" where
  "MemoryRegion_new A start len = do {
     e \<leftarrow> wadd (addr_bits A start) len;
     Some \<lparr> mr_start = start, mr_end = addr_from A e \<rparr>
   }"

definition MemoryRegion_checked_new ::
  "'a Address_ops \<Rightarrow> 'a \<Rightarrow> u64 \<Rightarrow> 'a MemoryRegion option" where
  "MemoryRegion_checked_new A start len = do {
     e \<leftarrow> addr_checked_add A start len;
     Some \<lparr> mr_start = start, mr_end = e \<rparr>
   }"

definition MemoryRegion_from_addresses ::
  "'a Address_ops \<Rightarrow> 'a \<Rightarrow> 'a \<Rightarrow> 'a MemoryRegion option" where
  "MemoryRegion_from_addresses A start end' =
     (if addr_bits A start \<le> addr_bits A end'
      then Some \<lparr> mr_start = start, mr_end = end' \<rparr> else None)"

definition MemoryRegion_len :: "'a Address_ops \<Rightarrow> 'a MemoryRegion \<Rightarrow> u64" where
  "MemoryRegion_len A self = wsub_sat (addr_bits A (mr_end self)) (addr_bits A (mr_start self))"

definition MemoryRegion_is_empty :: "'a Address_ops \<Rightarrow> 'a MemoryRegion \<Rightarrow> bool" where
  "MemoryRegion_is_empty A self \<longleftrightarrow> MemoryRegion_len A self = 0"

definition MemoryRegion_overlap ::
  "'a Address_ops \<Rightarrow> 'a MemoryRegion \<Rightarrow> 'a MemoryRegion \<Rightarrow> bool" where
  "MemoryRegion_overlap A self other \<longleftrightarrow>
     addr_bits A (mr_start self) < addr_bits A (mr_end other)
     \<and> addr_bits A (mr_end self) > addr_bits A (mr_start other)"

definition MemoryRegion_contiguous ::
  "'a Address_ops \<Rightarrow> 'a MemoryRegion \<Rightarrow> 'a MemoryRegion \<Rightarrow> bool" where
  "MemoryRegion_contiguous A self other \<longleftrightarrow>
     addr_bits A (mr_start self) \<le> addr_bits A (mr_end other)
     \<and> addr_bits A (mr_end self) \<ge> addr_bits A (mr_start other)"

definition MemoryRegion_merge ::
  "'a Address_ops \<Rightarrow> 'a MemoryRegion \<Rightarrow> 'a MemoryRegion \<Rightarrow> 'a MemoryRegion" where
  "MemoryRegion_merge A self other =
     \<lparr> mr_start = (if addr_bits A (mr_start other) < addr_bits A (mr_start self)
                   then mr_start other else mr_start self),
       mr_end = (if addr_bits A (mr_end other) < addr_bits A (mr_end self)
                 then mr_end self else mr_end other) \<rparr>"

text \<open>The addresses \<open>lo, lo + step, \<dots>\<close> below \<open>hi\<close>: \<open>(lo..hi).step_by(step)\<close>.\<close>

function step_range :: "nat \<Rightarrow> nat \<Rightarrow> nat \<Rightarrow> nat list" where
  "step_range lo hi step =
     (if 0 < step \<and> lo < hi then lo # step_range (lo + step) hi step else [])"
  by pat_completeness auto
termination
  by (relation "measure (\<lambda>(lo, hi, step). hi - lo)") auto

declare step_range.simps [simp del]

definition MemoryRegion_iter_pages ::
  "'a Address_ops \<Rightarrow> 'a MemoryRegion \<Rightarrow> PageSize \<Rightarrow> 'a list" where
  "MemoryRegion_iter_pages A self psize =
     map (\<lambda>x. addr_from A (of_nat x))
       (step_range (unat (addr_bits A (mr_start self))) (unat (addr_bits A (mr_end self)))
         (PageSize_into psize))"

definition MemoryRegion_contains :: "'a Address_ops \<Rightarrow> 'a MemoryRegion \<Rightarrow> 'a \<Rightarrow> bool" where
  "MemoryRegion_contains A self addr \<longleftrightarrow>
     addr_bits A (mr_start self) \<le> addr_bits A addr \<and> addr_bits A addr < addr_bits A (mr_end self)"

definition MemoryRegion_contains_inclusive ::
  "'a Address_ops \<Rightarrow> 'a MemoryRegion \<Rightarrow> 'a \<Rightarrow> bool" where
  "MemoryRegion_contains_inclusive A self addr \<longleftrightarrow>
     addr_bits A (mr_start self) \<le> addr_bits A addr \<and> addr_bits A addr \<le> addr_bits A (mr_end self)"

definition MemoryRegion_contains_region ::
  "'a Address_ops \<Rightarrow> 'a MemoryRegion \<Rightarrow> 'a MemoryRegion \<Rightarrow> bool" where
  "MemoryRegion_contains_region A self other \<longleftrightarrow>
     addr_bits A (mr_start self) \<le> addr_bits A (mr_start other)
     \<and> addr_bits A (mr_end other) \<le> addr_bits A (mr_end self)"

definition MemoryRegion_expand ::
  "'a Address_ops \<Rightarrow> 'a MemoryRegion \<Rightarrow> u64 \<Rightarrow> 'a MemoryRegion option" where
  "MemoryRegion_expand A self len = do {
     n \<leftarrow> wadd (MemoryRegion_len A self) len;
     MemoryRegion_new A (mr_start self) n
   }"

section \<open>Regions as sets of addresses\<close>

definition region_set :: "'a Address_ops \<Rightarrow> 'a MemoryRegion \<Rightarrow> u64 set" where
  "region_set A r = {x. addr_bits A (mr_start r) \<le> x \<and> x < addr_bits A (mr_end r)}"

lemmas region_defs = region_set_def MemoryRegion_overlap_def MemoryRegion_contiguous_def
  MemoryRegion_merge_def MemoryRegion_contains_def MemoryRegion_contains_region_def

lemma region_set_empty: "MemoryRegion_is_empty A r \<longleftrightarrow> region_set A r = {}"
proof -
  have "MemoryRegion_is_empty A r \<longleftrightarrow> addr_bits A (mr_end r) \<le> addr_bits A (mr_start r)"
    by (auto simp: MemoryRegion_is_empty_def MemoryRegion_len_def wsub_sat_def)
  then show ?thesis by (auto simp: region_set_def dest: leD)
qed

text \<open>
  C40. on non-empty regions the interval tests mean what their names say: \<open>overlap\<close> is a
  common address, \<open>contains_region\<close> is inclusion, and the merge of two contiguous regions
  covers exactly the addresses of both.
\<close>

theorem region_algebra:
  assumes "\<not> MemoryRegion_is_empty A r" and "\<not> MemoryRegion_is_empty A s"
  shows "(MemoryRegion_overlap A r s \<longleftrightarrow> region_set A r \<inter> region_set A s \<noteq> {})
    \<and> (MemoryRegion_contains_region A r s \<longleftrightarrow> region_set A s \<subseteq> region_set A r)
    \<and> (MemoryRegion_contiguous A r s \<longrightarrow>
         region_set A (MemoryRegion_merge A r s) = region_set A r \<union> region_set A s)
    \<and> (MemoryRegion_contains A r a \<longleftrightarrow> addr_bits A a \<in> region_set A r)"
proof -
  obtain x y where x: "x \<in> region_set A r" and y: "y \<in> region_set A s"
    using assms by (auto simp: region_set_empty)
  let ?rs = "addr_bits A (mr_start r)" and ?re = "addr_bits A (mr_end r)"
  let ?ss = "addr_bits A (mr_start s)" and ?se = "addr_bits A (mr_end s)"
  have ne: "?rs < ?re" "?ss < ?se" using x y by (auto simp: region_set_def)
  have "region_set A r \<inter> region_set A s \<noteq> {} \<longleftrightarrow> MemoryRegion_overlap A r s"
  proof
    assume "MemoryRegion_overlap A r s"
    with ne have "max ?rs ?ss \<in> region_set A r \<inter> region_set A s"
      by (auto simp: region_set_def MemoryRegion_overlap_def max_def)
    then show "region_set A r \<inter> region_set A s \<noteq> {}" by blast
  qed (auto simp: region_set_def MemoryRegion_overlap_def)
  moreover have "region_set A s \<subseteq> region_set A r \<longleftrightarrow> MemoryRegion_contains_region A r s"
  proof
    assume sub: "region_set A s \<subseteq> region_set A r"
    have "?ss \<in> region_set A s" using ne by (simp add: region_set_def)
    moreover have "?se - 1 \<in> region_set A s"
    proof -
      have "unat (?se - 1) = unat ?se - 1"
        using ne(2) by (intro unat_minus_one) (auto simp: word_less_nat_alt)
      then show ?thesis
        using ne(2) by (simp add: region_set_def word_less_nat_alt word_le_nat_alt)
    qed
    moreover have "unat (?se - 1) = unat ?se - 1"
      using ne(2) by (intro unat_minus_one) (auto simp: word_less_nat_alt)
    ultimately have "?ss \<in> region_set A r" "?se - 1 \<in> region_set A r"
      and "unat (?se - 1) = unat ?se - 1"
      using sub by auto
    then show "MemoryRegion_contains_region A r s"
      by (auto simp: region_set_def MemoryRegion_contains_region_def word_less_nat_alt word_le_nat_alt)
  qed (auto simp: region_set_def MemoryRegion_contains_region_def)
  moreover have "region_set A (MemoryRegion_merge A r s) = region_set A r \<union> region_set A s"
    if "MemoryRegion_contiguous A r s"
    using that ne by (auto simp: region_set_def MemoryRegion_merge_def MemoryRegion_contiguous_def)
  ultimately show ?thesis by (auto simp: region_set_def MemoryRegion_contains_def)
qed

theorem region_algebra_witness:
  "\<not> MemoryRegion_is_empty PhysAddr_ops \<lparr> mr_start = PhysAddr 0x1000, mr_end = PhysAddr 0x3000 \<rparr>
   \<and> \<not> MemoryRegion_is_empty PhysAddr_ops \<lparr> mr_start = PhysAddr 0x2000, mr_end = PhysAddr 0x5000 \<rparr>
   \<and> region_set PhysAddr_ops \<lparr> mr_start = PhysAddr 0x1000, mr_end = PhysAddr 0x3000 \<rparr>
       \<inter> region_set PhysAddr_ops \<lparr> mr_start = PhysAddr 0x2000, mr_end = PhysAddr 0x5000 \<rparr> \<noteq> {}"
proof -
  let ?r = "\<lparr> mr_start = PhysAddr 0x1000, mr_end = PhysAddr 0x3000 \<rparr>"
  let ?s = "\<lparr> mr_start = PhysAddr 0x2000, mr_end = PhysAddr 0x5000 \<rparr>"
  have r: "\<not> MemoryRegion_is_empty PhysAddr_ops ?r" and s: "\<not> MemoryRegion_is_empty PhysAddr_ops ?s"
    by (simp_all add: MemoryRegion_is_empty_def MemoryRegion_len_def wsub_sat_def PhysAddr_ops_def)
  have "MemoryRegion_overlap PhysAddr_ops ?r ?s"
    by (simp add: MemoryRegion_overlap_def PhysAddr_ops_def)
  with r s region_algebra [OF r s, of PhysAddr_null] show ?thesis by blast
qed

section \<open>Page iteration\<close>

lemma step_range_eq:
  "0 < step \<Longrightarrow> step_range lo hi step =
     map (\<lambda>i. lo + i * step) [0 ..< (hi - lo + (step - 1)) div step]"
proof (induction lo hi step rule: step_range.induct)
  case (1 lo hi step)
  show ?case
  proof (cases "lo < hi")
    case True
    define k where "k = (hi - (lo + step) + (step - 1)) div step"
    have k: "(hi - lo + (step - 1)) div step = Suc k"
    proof (cases "lo + step \<le> hi")
      case True
      then have "hi - lo + (step - 1) = (hi - (lo + step) + (step - 1)) + step" by simp
      then show ?thesis using "1.prems" by (simp only: k_def div_add_self2)
    next
      case False
      then have "k = 0" using "1.prems" by (simp add: k_def)
      moreover have "(hi - lo + (step - 1)) div step = 1"
        using False True "1.prems" by (intro div_nat_eqI) simp_all
      ultimately show ?thesis by simp
    qed
    have "step_range lo hi step = lo # step_range (lo + step) hi step"
      using True "1.prems" by (subst step_range.simps) simp
    also have "\<dots> = lo # map (\<lambda>i. lo + step + i * step) [0 ..< k]"
      using "1.IH" "1.prems" True by (simp add: k_def)
    also have "\<dots> = map (\<lambda>i. lo + i * step) [0 ..< Suc k]"
      by (simp only: upt_conv_Cons map_Suc_upt [symmetric] list.map map_map o_def) simp
    finally show ?thesis by (simp only: k)
  next
    case False
    then show ?thesis using "1.prems" by (subst step_range.simps) simp
  qed
qed

lemma PageSize_into_pos: "0 < PageSize_into p"
  by (cases p) (simp_all add: page_consts)

lemma region_len_nat:
  "unat (MemoryRegion_len A r) = unat (addr_bits A (mr_end r)) - unat (addr_bits A (mr_start r))"
  by (simp add: MemoryRegion_len_def wsub_sat_def unat_sub word_le_nat_alt)

text \<open>
  Iterating over the pages of a physical region yields one address per started page, at
  equal distances from the start, all inside the region; every address of the region lies in
  the page of exactly one of them.
\<close>

theorem iter_pages_spec:
  fixes r :: "PhysAddr MemoryRegion"
  shows "let ps = MemoryRegion_iter_pages PhysAddr_ops r psize; sz = PageSize_into psize in
    length ps = (unat (MemoryRegion_len PhysAddr_ops r) + (sz - 1)) div sz
    \<and> (\<forall>i < length ps. unat (phys_bits (ps ! i)) = unat (phys_bits (mr_start r)) + i * sz
         \<and> MemoryRegion_contains PhysAddr_ops r (ps ! i))
    \<and> (\<forall>x \<in> region_set PhysAddr_ops r. \<exists>!i. i < length ps
         \<and> unat (phys_bits (ps ! i)) \<le> unat x \<and> unat x < unat (phys_bits (ps ! i)) + sz)"
proof -
  define ps where "ps = MemoryRegion_iter_pages PhysAddr_ops r psize"
  define sz where "sz = PageSize_into psize"
  let ?s = "unat (phys_bits (mr_start r))" and ?e = "unat (phys_bits (mr_end r))"
  define n where "n = (?e - ?s + (sz - 1)) div sz"
  have sz: "0 < sz" by (simp add: sz_def PageSize_into_pos)
  have ps: "ps = map (\<lambda>i. PhysAddr (of_nat (?s + i * sz))) [0 ..< n]"
    by (simp add: ps_def MemoryRegion_iter_pages_def step_range_eq [OF sz] n_def sz_def [symmetric]
        PhysAddr_ops_def PhysAddr_from_def o_def)
  have len: "length ps = n" by (simp add: ps)
  have below: "?s + i * sz < ?e" if "i < n" for i
  proof -
    have "Suc i \<le> n" using that by simp
    then have "Suc i * sz \<le> ?e - ?s + (sz - 1)"
      unfolding n_def by (metis div_times_less_eq_dividend le_trans mult_le_mono1)
    then show ?thesis using sz by simp
  qed
  have nth: "unat (phys_bits (ps ! i)) = ?s + i * sz" if "i < n" for i
  proof -
    have "?s + i * sz < 2 ^ 64"
      using below [OF that] unat_lt_u64 [of "phys_bits (mr_end r)"] by simp
    moreover have "ps ! i = PhysAddr (of_nat (?s + i * sz))"
      using that by (simp add: ps)
    ultimately show ?thesis by (simp only: PhysAddr.sel unat_of_nat_u64)
  qed
  have page: "\<exists>!i. i < n \<and> ?s + i * sz \<le> unat x \<and> unat x < ?s + i * sz + sz"
    if "?s \<le> unat x" and "unat x < ?e" for x :: u64
  proof (rule ex1I [of _ "(unat x - ?s) div sz"])
    have "(unat x - ?s) div sz * sz \<le> unat x - ?s" by (rule div_times_less_eq_dividend)
    moreover have "unat x - ?s < (unat x - ?s) div sz * sz + sz"
      using sz by (metis dividend_less_div_times add.commute)
    moreover have "(unat x - ?s) div sz < n"
    proof -
      have "(unat x - ?s + sz) div sz \<le> n"
        unfolding n_def using that by (intro div_le_mono) simp
      moreover have "(unat x - ?s + sz) div sz = Suc ((unat x - ?s) div sz)"
        using sz by (simp only: div_add_self2)
      ultimately show ?thesis by simp
    qed
    ultimately show "(unat x - ?s) div sz < n \<and> ?s + (unat x - ?s) div sz * sz \<le> unat x
        \<and> unat x < ?s + (unat x - ?s) div sz * sz + sz"
      using that by linarith
  next
    fix i assume "i < n \<and> ?s + i * sz \<le> unat x \<and> unat x < ?s + i * sz + sz"
    then show "i = (unat x - ?s) div sz"
      by (intro div_nat_eqI [symmetric]) (auto simp: algebra_simps)
  qed
  have "n = (unat (MemoryRegion_len PhysAddr_ops r) + (sz - 1)) div sz"
    by (simp add: n_def region_len_nat PhysAddr_ops_def)
  moreover have "MemoryRegion_contains PhysAddr_ops r (ps ! i)" if "i < n" for i
    using nth [OF that] below [OF that]
    by (simp add: MemoryRegion_contains_def PhysAddr_ops_def word_less_nat_alt word_le_nat_alt)
  moreover have "\<exists>!i. i < n \<and> unat (phys_bits (ps ! i)) \<le> unat x \<and> unat x < unat (phys_bits (ps ! i)) + sz"
    if "x \<in> region_set PhysAddr_ops r" for x
    using page [of x] that nth
    by (simp add: region_set_def PhysAddr_ops_def word_less_nat_alt word_le_nat_alt cong: conj_cong)
  ultimately show ?thesis
    unfolding Let_def ps_def [symmetric] sz_def [symmetric] using len nth by simp
qed

theorem iter_pages_spec_witness:
  "let ps = MemoryRegion_iter_pages PhysAddr_ops \<lparr> mr_start = PhysAddr 0x1000, mr_end = PhysAddr 0x3800 \<rparr> Regular
   in ps = [PhysAddr 0x1000, PhysAddr 0x2000, PhysAddr 0x3000]
   \<and> (\<exists>!i. i < length ps \<and> unat (phys_bits (ps ! i)) \<le> unat (0x37ff :: u64)
        \<and> unat (0x37ff :: u64) < unat (phys_bits (ps ! i)) + PageSize_into Regular)"
proof -
  let ?r = "\<lparr> mr_start = PhysAddr 0x1000, mr_end = PhysAddr 0x3800 \<rparr>"
  have ps: "MemoryRegion_iter_pages PhysAddr_ops ?r Regular
      = [PhysAddr 0x1000, PhysAddr 0x2000, PhysAddr 0x3000]"
    by (simp add: MemoryRegion_iter_pages_def PhysAddr_ops_def PhysAddr_from_def page_consts step_range.simps)
  have "(0x37ff :: u64) \<in> region_set PhysAddr_ops ?r"
    by (simp add: region_set_def PhysAddr_ops_def)
  with iter_pages_spec [of ?r Regular] ps show ?thesis
    unfolding Let_def by blast
qed

end
