(* ===== verification/Bitmap_Allocator.thy ===== *)
theory Bitmap_Allocator
  imports Svsm_Prelude "HOL-Library.Monad_Syntax"
begin

unbundle bit_operations_syntax

text \<open>
  The bitmap allocators (\<open>kernel/src/utils/bitmap_allocator.rs\<close>): a 64-bit leaf, a tree node
  with sixteen children of any allocator type, and the first-fit search \<open>alloc_aligned\<close>
  that both share.

  The trait \<open>BitmapAllocator\<close> is the record \<open>bitmap_ops\<close>; generic code takes it as an
  argument.  The locale \<open>bitmap_laws\<close> is the contract of the trait: every operation is
  described by a view of the bitmap as a set of used entries.  The search is proved once
  against the contract; the leaf is shown to satisfy it, and a tree satisfies it whenever
  its children do.
\<close>

section \<open>The trait\<close>

record 'b bitmap_ops =
  CAPACITY :: nat
  ba_set :: "'b \<Rightarrow> nat \<Rightarrow> nat \<Rightarrow> bool \<Rightarrow> 'b option"
  ba_next_free :: "'b \<Rightarrow> nat \<Rightarrow> nat option option"
  ba_get :: "'b \<Rightarrow> nat \<Rightarrow> bool option"
  ba_empty :: "'b \<Rightarrow> bool"
  ba_capacity :: "'b \<Rightarrow> nat"
  ba_used :: "'b \<Rightarrow> nat"

section \<open>First-fit search with alignment\<close>

text \<open>The number of free entries at the front of a range, up to the first used one.\<close>

fun count_free :: "'b bitmap_ops \<Rightarrow> 'b \<Rightarrow> nat list \<Rightarrow> nat option" where
  "count_free B ba [] = Some 0"
| "count_free B ba (i # is) = do {
     used \<leftarrow> ba_get B ba i;
     if \<not> used then map_option Suc (count_free B ba is) else Some 0
   }"

text \<open>
  The \<open>while\<close> loop.  A value \<open>None\<close> is a panic or a loop that does not end; the correctness
  theorem shows that neither happens.  \<open>Some (None, ba)\<close> is \<open>None\<close> of the source.
\<close>

partial_function (option) alloc_aligned_loop ::
  "'b bitmap_ops \<Rightarrow> 'b \<Rightarrow> nat \<Rightarrow> nat \<Rightarrow> nat \<Rightarrow> (nat option \<times> 'b) option" where
  "alloc_aligned_loop B ba entries align offset = do {
     end' \<leftarrow> uadd offset entries;
     if end' \<le> ba_capacity B ba then do {
       next_free \<leftarrow> ba_next_free B ba offset;
       case next_free of
         None \<Rightarrow> do {
           next_offset \<leftarrow> uadd offset (2 ^ align);
           alloc_aligned_loop B ba entries align next_offset
         }
       | Some offset_free \<Rightarrow>
           if offset_free \<noteq> offset
           then do {
             previous \<leftarrow> usub offset_free 1;
             next_offset \<leftarrow> uadd (uand_not previous (2 ^ align - 1)) (2 ^ align);
             alloc_aligned_loop B ba entries align next_offset
           }
           else if \<not> end' \<le> ba_capacity B ba then None
           else do {
             free_entries \<leftarrow> count_free B ba [offset ..< offset + entries];
             if free_entries = entries
             then do {
               ba' \<leftarrow> ba_set B ba offset entries True;
               Some (Some offset, ba')
             }
             else do {
               next_offset \<leftarrow> uadd offset (2 ^ align);
               alloc_aligned_loop B ba entries align next_offset
             }
           }
     }
     else Some (None, ba)
   }"

definition alloc_aligned ::
  "'b bitmap_ops \<Rightarrow> 'b \<Rightarrow> nat \<Rightarrow> nat \<Rightarrow> (nat option \<times> 'b) option" where
  "alloc_aligned B ba entries align =
     (if align \<ge> ilog2 (ba_capacity B ba) then Some (None, ba)
      else alloc_aligned_loop B ba entries align 0)"

definition ba_alloc ::
  "'b bitmap_ops \<Rightarrow> 'b \<Rightarrow> nat \<Rightarrow> nat \<Rightarrow> (nat option \<times> 'b) option" where
  "ba_alloc B self entries align = alloc_aligned B self entries align"

definition ba_free :: "'b bitmap_ops \<Rightarrow> 'b \<Rightarrow> nat \<Rightarrow> nat \<Rightarrow> 'b option" where
  "ba_free B self start entries = ba_set B self start entries False"

section \<open>The 64-bit leaf\<close>

record BitmapAllocator64 =
  bits64 :: u64

definition BitmapAllocator64_new_full :: BitmapAllocator64 where
  "BitmapAllocator64_new_full = \<lparr> bits64 = - 1 \<rparr>"

definition BitmapAllocator64_new_empty :: BitmapAllocator64 where
  "BitmapAllocator64_new_empty = \<lparr> bits64 = 0 \<rparr>"

definition BitmapAllocator64_set ::
  "BitmapAllocator64 \<Rightarrow> nat \<Rightarrow> nat \<Rightarrow> bool \<Rightarrow> BitmapAllocator64 option" where
  "BitmapAllocator64_set self start entries val =
     (if entries > 0 \<and> start + entries \<le> 64 then
        let start_mask = NOT (push_bit start 1 - 1);
            end_mask = push_bit 1 (push_bit (start + entries - 1) 1 - 1) + 1;
            mask' = start_mask AND end_mask
        in Some (if val then self\<lparr>bits64 := bits64 self OR mask'\<rparr>
                 else self\<lparr>bits64 := bits64 self AND NOT mask'\<rparr>)
      else None)"

definition BitmapAllocator64_next_free :: "BitmapAllocator64 \<Rightarrow> nat \<Rightarrow> nat option option" where
  "BitmapAllocator64_next_free self start =
     (if start < 64 then
        let mask' = push_bit start 1 - 1;
            i = trailing_ones (bits64 self OR mask')
        in Some (if i < 64 then Some i else None)
      else None)"

definition BitmapAllocator64_get :: "BitmapAllocator64 \<Rightarrow> nat \<Rightarrow> bool option" where
  "BitmapAllocator64_get self offset =
     (if offset < 64 then Some (bits64 self AND push_bit offset 1 \<noteq> 0) else None)"

definition BitmapAllocator64_empty :: "BitmapAllocator64 \<Rightarrow> bool" where
  "BitmapAllocator64_empty self \<longleftrightarrow> bits64 self = 0"

definition BitmapAllocator64_used :: "BitmapAllocator64 \<Rightarrow> nat" where
  "BitmapAllocator64_used self = count_ones (bits64 self)"

definition BitmapAllocator64_ops :: "BitmapAllocator64 bitmap_ops" where
  "BitmapAllocator64_ops = \<lparr> CAPACITY = 64,
     ba_set = BitmapAllocator64_set, ba_next_free = BitmapAllocator64_next_free,
     ba_get = BitmapAllocator64_get, ba_empty = BitmapAllocator64_empty,
     ba_capacity = (\<lambda>_. 64), ba_used = BitmapAllocator64_used \<rparr>"

section \<open>The tree node\<close>

record 'b BitmapAllocatorTree =
  tree_bits :: u16
  tree_child :: "'b list"

definition BitmapAllocatorTree_new_full :: "BitmapAllocator64 BitmapAllocatorTree" where
  "BitmapAllocatorTree_new_full =
     \<lparr> tree_bits = - 1, tree_child = replicate 16 BitmapAllocator64_new_full \<rparr>"

definition BitmapAllocatorTree_new_empty :: "BitmapAllocator64 BitmapAllocatorTree" where
  "BitmapAllocatorTree_new_empty =
     \<lparr> tree_bits = 0, tree_child = replicate 16 BitmapAllocator64_new_empty \<rparr>"

definition tree_capacity :: "'b bitmap_ops \<Rightarrow> nat" where
  "tree_capacity T = CAPACITY T * 16"

text \<open>The loop of \<open>set\<close> over the child indices, with the local \<open>offset\<close> and \<open>remain\<close>.\<close>

fun tree_set_loop ::
  "'b bitmap_ops \<Rightarrow> bool \<Rightarrow> nat list \<Rightarrow> 'b BitmapAllocatorTree \<Rightarrow> nat \<Rightarrow> nat
    \<Rightarrow> 'b BitmapAllocatorTree option" where
  "tree_set_loop T val [] self offset remain = Some self"
| "tree_set_loop T val (index # is) self offset remain = (
     let child_size = (if remain > CAPACITY T - offset then CAPACITY T - offset else remain);
         remain' = remain - child_size
     in do {
       c \<leftarrow> idx (tree_child self) index;
       c' \<leftarrow> ba_set T c offset child_size val;
       let bits' = (if ba_empty T c' then tree_bits self AND NOT (push_bit index 1)
                    else tree_bits self OR push_bit index 1);
       let self' = self\<lparr>tree_child := (tree_child self)[index := c'], tree_bits := bits'\<rparr>;
       if remain' = 0 then Some self'
       else tree_set_loop T val is self' 0 remain'
     })"

definition tree_set ::
  "'b bitmap_ops \<Rightarrow> 'b BitmapAllocatorTree \<Rightarrow> nat \<Rightarrow> nat \<Rightarrow> bool
    \<Rightarrow> 'b BitmapAllocatorTree option" where
  "tree_set T self start entries val =
     (if start + entries \<le> tree_capacity T
      then tree_set_loop T val [start div CAPACITY T ..< 16] self (start mod CAPACITY T) entries
      else None)"

fun tree_next_free_loop ::
  "'b bitmap_ops \<Rightarrow> nat list \<Rightarrow> 'b BitmapAllocatorTree \<Rightarrow> nat \<Rightarrow> nat option option" where
  "tree_next_free_loop T [] self offset = Some None"
| "tree_next_free_loop T (index # is) self offset = do {
     c \<leftarrow> idx (tree_child self) index;
     next \<leftarrow> ba_next_free T c offset;
     case next of
       Some next_offset \<Rightarrow> Some (Some (next_offset + index * CAPACITY T))
     | None \<Rightarrow> tree_next_free_loop T is self 0
   }"

definition tree_next_free ::
  "'b bitmap_ops \<Rightarrow> 'b BitmapAllocatorTree \<Rightarrow> nat \<Rightarrow> nat option option" where
  "tree_next_free T self start =
     (if start < tree_capacity T
      then tree_next_free_loop T [start div CAPACITY T ..< 16] self (start mod CAPACITY T)
      else None)"

definition tree_get :: "'b bitmap_ops \<Rightarrow> 'b BitmapAllocatorTree \<Rightarrow> nat \<Rightarrow> bool option" where
  "tree_get T self offset =
     (if offset < tree_capacity T
      then do {
        c \<leftarrow> idx (tree_child self) (offset div CAPACITY T);
        ba_get T c (offset mod CAPACITY T)
      }
      else None)"

definition tree_empty :: "'b BitmapAllocatorTree \<Rightarrow> bool" where
  "tree_empty self \<longleftrightarrow> tree_bits self = 0"

definition tree_used :: "'b bitmap_ops \<Rightarrow> 'b BitmapAllocatorTree \<Rightarrow> nat" where
  "tree_used T self = sum_list (map (ba_used T) (tree_child self))"

definition BitmapAllocatorTree_ops :: "'b bitmap_ops \<Rightarrow> 'b BitmapAllocatorTree bitmap_ops" where
  "BitmapAllocatorTree_ops T = \<lparr> CAPACITY = tree_capacity T,
     ba_set = tree_set T, ba_next_free = tree_next_free T,
     ba_get = tree_get T, ba_empty = tree_empty,
     ba_capacity = (\<lambda>_. tree_capacity T), ba_used = tree_used T \<rparr>"

type_synonym BitmapAllocator1024 = "BitmapAllocator64 BitmapAllocatorTree"

definition BitmapAllocator1024_ops :: "BitmapAllocator1024 bitmap_ops" where
  "BitmapAllocator1024_ops = BitmapAllocatorTree_ops BitmapAllocator64_ops"

section \<open>The contract of a bitmap allocator\<close>

text \<open>
  \<open>fits used cap entries align o\<close>: the range of \<open>entries\<close> entries at \<open>o\<close> is aligned, inside
  the bitmap and free.
\<close>

definition fits :: "(nat \<Rightarrow> bool) \<Rightarrow> nat \<Rightarrow> nat \<Rightarrow> nat \<Rightarrow> nat \<Rightarrow> bool" where
  "fits used cap entries align o' \<longleftrightarrow>
     2 ^ align dvd o' \<and> o' + entries \<le> cap \<and> (\<forall>i. o' \<le> i \<and> i < o' + entries \<longrightarrow> \<not> used i)"

definition set_range :: "(nat \<Rightarrow> bool) \<Rightarrow> nat \<Rightarrow> nat \<Rightarrow> bool \<Rightarrow> nat \<Rightarrow> bool" where
  "set_range used start entries v i = (if start \<le> i \<and> i < start + entries then v else used i)"

locale bitmap_laws =
  fixes B :: "'b bitmap_ops"
    and used :: "'b \<Rightarrow> nat \<Rightarrow> bool"
    and invar :: "'b \<Rightarrow> bool"
  assumes cap_pos: "0 < CAPACITY B"
    and cap_small: "CAPACITY B * 16 < 2 ^ 60"
    and capacity_eq: "ba_capacity B b = CAPACITY B"
    and used_below: "invar b \<Longrightarrow> used b i \<Longrightarrow> i < CAPACITY B"
    and set_ok: "invar b \<Longrightarrow> 0 < entries \<Longrightarrow> start + entries \<le> CAPACITY B \<Longrightarrow>
      \<exists>b'. ba_set B b start entries v = Some b' \<and> invar b'
        \<and> used b' = set_range (used b) start entries v"
    and set_panic: "CAPACITY B < start + entries \<Longrightarrow> ba_set B b start entries v = None"
    and next_free_ok: "invar b \<Longrightarrow> start < CAPACITY B \<Longrightarrow>
      (\<exists>i. ba_next_free B b start = Some (Some i) \<and> start \<le> i \<and> i < CAPACITY B \<and> \<not> used b i
          \<and> (\<forall>j. start \<le> j \<and> j < i \<longrightarrow> used b j))
      \<or> ba_next_free B b start = Some None \<and> (\<forall>j. start \<le> j \<and> j < CAPACITY B \<longrightarrow> used b j)"
    and get_ok: "invar b \<Longrightarrow> i < CAPACITY B \<Longrightarrow> ba_get B b i = Some (used b i)"
    and empty_ok: "invar b \<Longrightarrow> ba_empty B b \<longleftrightarrow> (\<forall>i. \<not> used b i)"
    and used_ok: "invar b \<Longrightarrow> ba_used B b = card {i. used b i}"
begin

lemma count_free_eq:
  assumes "invar b" and "\<forall>i \<in> set is. i < CAPACITY B"
  shows "count_free B b is = Some (length (takeWhile (\<lambda>i. \<not> used b i) is))"
  using assms(2) by (induction "is") (simp_all add: get_ok assms(1))

lemma count_free_all:
  assumes "invar b" and "o' + entries \<le> CAPACITY B"
  shows "\<exists>k. count_free B b [o' ..< o' + entries] = Some k
    \<and> (k = entries \<longleftrightarrow> (\<forall>i. o' \<le> i \<and> i < o' + entries \<longrightarrow> \<not> used b i))"
proof -
  let ?is = "[o' ..< o' + entries]"
  let ?t = "takeWhile (\<lambda>i. \<not> used b i) ?is"
  have c: "count_free B b ?is = Some (length ?t)"
    using assms by (intro count_free_eq) auto
  have "length ?t = entries \<longleftrightarrow> (\<forall>i \<in> set ?is. \<not> used b i)"
  proof
    assume "length ?t = entries"
    then have "?t = ?is"
      by (metis (no_types, lifting) diff_add_inverse length_upt takeWhile_eq_take take_all_iff order_refl)
    then show "\<forall>i \<in> set ?is. \<not> used b i" by (simp only: takeWhile_eq_all_conv)
  next
    assume "\<forall>i \<in> set ?is. \<not> used b i"
    then have "?t = ?is" by (simp only: takeWhile_eq_all_conv)
    then have "length ?t = length ?is" by (rule arg_cong)
    then show "length ?t = entries" by (simp only: length_upt diff_add_inverse)
  qed
  with c show ?thesis by auto
qed

text \<open>The next aligned offset after a used stretch is the first one not below its end.\<close>

lemma skip_no_fit:
  fixes i :: nat
  assumes used: "\<And>j. offset \<le> j \<Longrightarrow> j < i \<Longrightarrow> u j" and e: "0 < entries"
    and i: "offset < i" and f: "fits u cap entries align o'" and o: "offset \<le> o'"
  shows "(i - 1) div 2 ^ align * 2 ^ align + 2 ^ align \<le> o'"
proof -
  have "i \<le> o'"
    using f e o used [of o'] by (auto simp: fits_def not_less [symmetric])
  moreover obtain k where k: "o' = k * 2 ^ align"
    using f by (auto simp: fits_def dvd_def mult.commute)
  ultimately have "i - 1 < k * 2 ^ align" using i by simp
  then have "(i - 1) div 2 ^ align < k"
    by (simp add: less_mult_imp_div_less)
  then have "Suc ((i - 1) div 2 ^ align) * 2 ^ align \<le> k * 2 ^ align"
    by (intro mult_le_mono1) simp
  then show ?thesis by (simp add: k)
qed

lemma next_aligned:
  fixes o' offset :: nat
  assumes "2 ^ align dvd offset" and "2 ^ align dvd o'" and "offset < o'"
  shows "offset + 2 ^ align \<le> o'"
proof -
  have "2 ^ align dvd o' - offset" using assms by (simp add: dvd_diff_nat)
  then have "2 ^ align \<le> o' - offset" using assms(3) by (intro dvd_imp_le) simp_all
  then show ?thesis using assms(3) by simp
qed

lemma alloc_loop_spec:
  assumes b: "invar b" and e: "0 < entries" "entries \<le> CAPACITY B" and a: "2 ^ align \<le> CAPACITY B" "align < 64"
    and d: "2 ^ align dvd offset" and off: "offset \<le> 2 * CAPACITY B"
    and low: "\<And>o'. fits (used b) (CAPACITY B) entries align o' \<Longrightarrow> offset \<le> o'"
  shows "\<exists>r b'. alloc_aligned_loop B b entries align offset = Some (r, b') \<and> invar b'
    \<and> (case r of
         None \<Rightarrow> b' = b \<and> (\<forall>o'. \<not> fits (used b) (CAPACITY B) entries align o')
       | Some p \<Rightarrow> fits (used b) (CAPACITY B) entries align p
           \<and> (\<forall>o'. fits (used b) (CAPACITY B) entries align o' \<longrightarrow> p \<le> o')
           \<and> used b' = set_range (used b) p entries True)"
    (is "?Q offset")
  using d off low
proof (induction "CAPACITY B - offset" arbitrary: offset rule: less_induct)
  case less
  let ?fits = "fits (used b) (CAPACITY B) entries align"
  note unfold = alloc_aligned_loop.simps [of B b entries align offset]
  have uadd: "uadd offset entries = Some (offset + entries)"
    using less.prems(2) e cap_small by (simp add: usize_max_eq)
  show ?case
  proof (cases "offset + entries \<le> CAPACITY B")
    case False
    have "\<not> ?fits o'" for o'
      using less.prems(3) [of o'] False by (auto simp: fits_def)
    with b False show ?thesis
      by (subst unfold) (simp add: uadd capacity_eq)
  next
    case True
    with e have lt: "offset < CAPACITY B" by simp
    then have step: "uadd offset (2 ^ align) = Some (offset + 2 ^ align)"
      using a(1) cap_small by (simp add: usize_max_eq)
    have again: "?Q (offset + 2 ^ align)" if no: "\<not> ?fits offset"
    proof (rule less.hyps)
      show "CAPACITY B - (offset + 2 ^ align) < CAPACITY B - offset"
        using lt by (intro diff_less_mono2) simp_all
      show "2 ^ align dvd offset + 2 ^ align" using less.prems(1) by simp
      show "offset + 2 ^ align \<le> 2 * CAPACITY B" using lt a by simp
      fix o' assume f: "?fits o'"
      with less.prems(3) no have "offset < o'" by (metis le_neq_implies_less)
      with f less.prems(1) show "offset + 2 ^ align \<le> o'"
        by (intro next_aligned) (auto simp: fits_def)
    qed
    from next_free_ok [OF b lt] show ?thesis
    proof (elim disjE exE conjE)
      fix i
      assume nf: "ba_next_free B b offset = Some (Some i)" and i: "offset \<le> i" "i < CAPACITY B"
        and fr: "\<not> used b i" and us: "\<forall>j. offset \<le> j \<and> j < i \<longrightarrow> used b j"
      show ?thesis
      proof (cases "i = offset")
        case False
        with i have lt': "offset < i" by simp
        let ?n = "(i - 1) div 2 ^ align * 2 ^ align + 2 ^ align"
        have un: "uand_not (i - 1) (2 ^ align - 1) + 2 ^ align = ?n"
          using i cap_small a(2) by (subst uand_not_mask) simp_all
        have le: "(i - 1) div 2 ^ align * 2 ^ align \<le> i - 1" by (rule div_times_less_eq_dividend)
        then have n: "?n \<le> 2 * CAPACITY B" using i a(1) by linarith
        have ui: "usub i 1 = Some (i - 1)" using lt' by simp
        have ua: "uadd (uand_not (i - 1) (2 ^ align - 1)) (2 ^ align) = Some ?n"
          unfolding uadd_def un using n cap_small by (simp add: usize_max_eq)
        have "offset div 2 ^ align * 2 ^ align \<le> (i - 1) div 2 ^ align * 2 ^ align"
          using lt' by (intro mult_le_mono1 div_le_mono) simp
        then have ge: "offset + 2 ^ align \<le> ?n"
          using less.prems(1) by (simp add: dvd_div_mult_self)
        have "?Q ?n"
        proof (rule less.hyps)
          show "CAPACITY B - ?n < CAPACITY B - offset"
          proof (rule diff_less_mono2)
            show "offset < ?n" using ge by (rule less_le_trans [rotated]) simp
            show "offset < CAPACITY B" by (rule lt)
          qed
          show "2 ^ align dvd ?n" by simp
          show "?n \<le> 2 * CAPACITY B" by (rule n)
          fix o' assume f: "?fits o'"
          show "?n \<le> o'"
            using us e(1) lt' f less.prems(3) [OF f] by (intro skip_no_fit) auto
        qed
        then show ?thesis
          using False True by (subst unfold) (simp add: uadd capacity_eq nf ui [unfolded One_nat_def] ua [unfolded One_nat_def])
      next
        case True': True
        obtain k where k: "count_free B b [offset ..< offset + entries] = Some k"
          and kk: "k = entries \<longleftrightarrow> (\<forall>i. offset \<le> i \<and> i < offset + entries \<longrightarrow> \<not> used b i)"
          using count_free_all [OF b True] by blast
        show ?thesis
        proof (cases "k = entries")
          case ke: True
          then have f: "?fits offset"
            using kk True less.prems(1) by (simp add: fits_def)
          obtain b' where b': "ba_set B b offset entries True = Some b'" "invar b'"
            "used b' = set_range (used b) offset entries True"
            using set_ok [OF b e(1) True] by blast
          show ?thesis
            using True f less.prems(3) b' ke
            by (subst unfold) (simp add: uadd capacity_eq nf True' k)
        next
          case False
          then have "\<not> ?fits offset" using kk by (auto simp: fits_def)
          from again [OF this] show ?thesis
            using True False by (subst unfold) (simp add: uadd capacity_eq nf True' k step)
        qed
      qed
    next
      assume nf: "ba_next_free B b offset = Some None"
        and us: "\<forall>j. offset \<le> j \<and> j < CAPACITY B \<longrightarrow> used b j"
      have "\<not> ?fits offset"
        using us lt e(1) by (auto simp: fits_def intro!: exI [of _ offset])
      from again [OF this] show ?thesis
        using True by (subst unfold) (simp add: uadd capacity_eq nf step)
    qed
  qed
qed

text \<open>
  \<open>alloc\<close> returns the first aligned free range and marks exactly it as used; it returns
  nothing only when no such range exists or the alignment is too large for the bitmap.
\<close>

lemma alloc_spec:
  assumes b: "invar b" and e: "0 < entries" "entries \<le> usize_max"
  shows "\<exists>r b'. ba_alloc B b entries align = Some (r, b') \<and> invar b'
    \<and> (case r of
         None \<Rightarrow> b' = b \<and> (align < ilog2 (CAPACITY B) \<longrightarrow>
           (\<forall>o'. \<not> fits (used b) (CAPACITY B) entries align o'))
       | Some p \<Rightarrow> align < ilog2 (CAPACITY B) \<and> fits (used b) (CAPACITY B) entries align p
           \<and> (\<forall>o'. fits (used b) (CAPACITY B) entries align o' \<longrightarrow> p \<le> o')
           \<and> used b' = set_range (used b) p entries True)"
proof (cases "align < ilog2 (CAPACITY B)")
  case False
  with b show ?thesis by (simp add: ba_alloc_def alloc_aligned_def capacity_eq)
next
  case al: True
  show ?thesis
  proof (cases "entries \<le> CAPACITY B")
    case True
    have "2 ^ align \<le> (2::nat) ^ ilog2 (CAPACITY B)"
      using al by (intro power_increasing) simp_all
    with ilog2_le [OF cap_pos] have a: "2 ^ align \<le> CAPACITY B" by (rule order_trans [rotated])
    have "align < 64"
    proof (rule ccontr)
      assume "\<not> align < 64"
      then have "(2::nat) ^ 64 \<le> 2 ^ align" by (intro power_increasing) simp_all
      with a cap_small show False by simp
    qed
    from alloc_loop_spec [OF b e(1) True a this, of 0] obtain r b' where
      "alloc_aligned_loop B b entries align 0 = Some (r, b')" "invar b'"
      "case r of
         None \<Rightarrow> b' = b \<and> (\<forall>o'. \<not> fits (used b) (CAPACITY B) entries align o')
       | Some p \<Rightarrow> fits (used b) (CAPACITY B) entries align p
           \<and> (\<forall>o'. fits (used b) (CAPACITY B) entries align o' \<longrightarrow> p \<le> o')
           \<and> used b' = set_range (used b) p entries True"
      by auto
    with al show ?thesis
      by (auto simp: ba_alloc_def alloc_aligned_def capacity_eq split: option.splits)
  next
    case False
    then have "\<not> fits (used b) (CAPACITY B) entries align o'" for o'
      by (auto simp: fits_def)
    moreover from False e have "alloc_aligned_loop B b entries align 0 = Some (None, b)"
      by (subst alloc_aligned_loop.simps) (simp add: uadd_def capacity_eq)
    ultimately show ?thesis using al b
      by (simp add: ba_alloc_def alloc_aligned_def capacity_eq)
  qed
qed

lemma free_alloc:
  assumes "invar b" and "0 < entries" "entries \<le> usize_max"
    and "ba_alloc B b entries align = Some (Some p, b')"
  shows "\<exists>b''. ba_free B b' p entries = Some b'' \<and> invar b'' \<and> used b'' = used b"
proof -
  from alloc_spec [OF assms(1-3), of align] assms(4)
  have b': "invar b'" "used b' = set_range (used b) p entries True"
    and f: "fits (used b) (CAPACITY B) entries align p" by auto
  from f have "p + entries \<le> CAPACITY B" by (simp add: fits_def)
  from set_ok [OF b'(1) assms(2) this, of False] obtain b'' where
    "ba_set B b' p entries False = Some b''" "invar b''"
    "used b'' = set_range (used b') p entries False" by blast
  moreover have "set_range (set_range (used b) p entries True) p entries False = used b"
    using f by (auto simp: set_range_def fits_def fun_eq_iff)
  ultimately show ?thesis by (simp add: ba_free_def b')
qed

end

section \<open>The leaf implements the contract\<close>

definition bits64_used :: "BitmapAllocator64 \<Rightarrow> nat \<Rightarrow> bool" where
  "bits64_used b i = bit (bits64 b) i"

lemma end_mask_eq: "0 < n \<Longrightarrow> push_bit 1 (mask (n - 1)) + 1 = (mask n :: 'a::len word)"
  by (cases n) (simp_all add: push_bit_eq_mult mask_eq_exp_minus_1 algebra_simps)

lemma start_mask_eq: "push_bit n 1 - 1 = (mask n :: 'a::len word)"
  by (simp add: push_bit_of_1 mask_eq_exp_minus_1)

lemma bit_assign:
  "bit (if v then w OR m else w AND NOT m) i = (if bit m i then v else bit w i)"
  for w m :: "'a::len word"
  by (auto simp: bit_or_iff bit_and_iff bit_not_iff dest: bit_imp_le_length)

lemma BitmapAllocator64_set_bits:
  assumes "0 < entries" and "start + entries \<le> 64"
  shows "\<exists>b'. BitmapAllocator64_set b start entries v = Some b'
    \<and> bits64_used b' = set_range (bits64_used b) start entries v"
proof -
  let ?m = "NOT (mask start) AND mask (start + entries) :: u64"
  let ?b = "if v then b\<lparr>bits64 := bits64 b OR ?m\<rparr> else b\<lparr>bits64 := bits64 b AND NOT ?m\<rparr>"
  have "0 < start + entries" using assms by simp
  then have e: "push_bit 1 (mask (start + entries - 1)) + 1
      = (mask (start + entries) :: u64)"
    by (rule end_mask_eq)
  have "BitmapAllocator64_set b start entries v = Some ?b"
    using assms unfolding BitmapAllocator64_set_def start_mask_eq Let_def e by (simp only: simp_thms if_True)
  moreover have m: "bit ?m i \<longleftrightarrow> start \<le> i \<and> i < start + entries" for i
    using assms by (auto simp: bit_simps)
  have "bit (bits64 ?b) i = (if bit ?m i then v else bit (bits64 b) i)" for i
    using bit_assign [of v "bits64 b" ?m i] by (cases v) simp_all
  then have "bits64_used ?b = set_range (bits64_used b) start entries v"
    by (simp only: m bits64_used_def set_range_def fun_eq_iff) simp
  ultimately show ?thesis by blast
qed

lemma BitmapAllocator64_next_free_bits:
  assumes "start < 64"
  shows "(\<exists>i. BitmapAllocator64_next_free b start = Some (Some i) \<and> start \<le> i \<and> i < 64
          \<and> \<not> bits64_used b i \<and> (\<forall>j. start \<le> j \<and> j < i \<longrightarrow> bits64_used b j))
      \<or> BitmapAllocator64_next_free b start = Some None
          \<and> (\<forall>j. start \<le> j \<and> j < 64 \<longrightarrow> bits64_used b j)"
proof -
  let ?w = "bits64 b OR mask start" and ?i = "trailing_ones (bits64 b OR mask start)"
  have below: "bit ?w j" if "j < ?i" for j using that by (rule trailing_ones_below)
  then have used: "bits64_used b j" if "start \<le> j" "j < ?i" for j
    using below [OF that(2)] that(1) by (auto simp: bits64_used_def bit_simps)
  have "start \<le> ?i" if "?i < 64"
    using trailing_ones_at [of ?w] that by (auto simp: bit_simps)
  moreover have "\<not> bits64_used b ?i" if "?i < 64"
    using trailing_ones_at [of ?w] that by (auto simp: bit_simps bits64_used_def)
  moreover have "?i = 64" if "\<not> ?i < 64"
    using trailing_ones_le [of ?w] that by simp
  ultimately show ?thesis using assms used
    unfolding BitmapAllocator64_next_free_def start_mask_eq Let_def by (cases "?i < 64") auto
qed

lemma and_exp_eq_0: "w AND 2 ^ n = 0 \<longleftrightarrow> \<not> bit w n" for w :: "'a::len word"
  by (simp add: bit_iff_and_push_bit_not_eq_0)

interpretation bm64: bitmap_laws BitmapAllocator64_ops bits64_used "\<lambda>_. True"
proof unfold_locales
  fix b :: BitmapAllocator64 and start entries i :: nat and v
  show "0 < CAPACITY BitmapAllocator64_ops" "CAPACITY BitmapAllocator64_ops * 16 < 2 ^ 60"
    "ba_capacity BitmapAllocator64_ops b = CAPACITY BitmapAllocator64_ops"
    by (simp_all add: BitmapAllocator64_ops_def)
  show "bits64_used b i \<Longrightarrow> i < CAPACITY BitmapAllocator64_ops"
    by (auto simp: BitmapAllocator64_ops_def bits64_used_def dest: bit_imp_le_length)
  show "\<exists>b'. ba_set BitmapAllocator64_ops b start entries v = Some b' \<and> True
      \<and> bits64_used b' = set_range (bits64_used b) start entries v"
    if "0 < entries" "start + entries \<le> CAPACITY BitmapAllocator64_ops"
    using BitmapAllocator64_set_bits that by (simp add: BitmapAllocator64_ops_def)
  show "CAPACITY BitmapAllocator64_ops < start + entries \<Longrightarrow>
      ba_set BitmapAllocator64_ops b start entries v = None"
    by (simp add: BitmapAllocator64_ops_def BitmapAllocator64_set_def)
  show "start < CAPACITY BitmapAllocator64_ops \<Longrightarrow>
      (\<exists>i. ba_next_free BitmapAllocator64_ops b start = Some (Some i) \<and> start \<le> i
        \<and> i < CAPACITY BitmapAllocator64_ops \<and> \<not> bits64_used b i
        \<and> (\<forall>j. start \<le> j \<and> j < i \<longrightarrow> bits64_used b j))
      \<or> ba_next_free BitmapAllocator64_ops b start = Some None
        \<and> (\<forall>j. start \<le> j \<and> j < CAPACITY BitmapAllocator64_ops \<longrightarrow> bits64_used b j)"
    using BitmapAllocator64_next_free_bits by (simp add: BitmapAllocator64_ops_def)
  show "i < CAPACITY BitmapAllocator64_ops \<Longrightarrow>
      ba_get BitmapAllocator64_ops b i = Some (bits64_used b i)"
    by (simp add: BitmapAllocator64_ops_def BitmapAllocator64_get_def bits64_used_def and_exp_eq_0)
  show "ba_empty BitmapAllocator64_ops b \<longleftrightarrow> (\<forall>i. \<not> bits64_used b i)"
    by (auto simp: BitmapAllocator64_ops_def BitmapAllocator64_empty_def bits64_used_def
        intro: bit_word_eqI)
  have "{i. i < 64 \<and> bit (bits64 b) i} = {i. bit (bits64 b) i}"
    by (auto dest: bit_imp_le_length)
  then show "ba_used BitmapAllocator64_ops b = card {i. bits64_used b i}"
    by (simp add: BitmapAllocator64_ops_def BitmapAllocator64_used_def bits64_used_def count_ones_card)
qed

section \<open>A tree implements the contract when its children do\<close>

definition tree_view ::
  "'b bitmap_ops \<Rightarrow> ('b \<Rightarrow> nat \<Rightarrow> bool) \<Rightarrow> 'b BitmapAllocatorTree \<Rightarrow> nat \<Rightarrow> bool" where
  "tree_view T used t i \<longleftrightarrow>
     i < tree_capacity T \<and> used (tree_child t ! (i div CAPACITY T)) (i mod CAPACITY T)"

definition tree_invar ::
  "'b bitmap_ops \<Rightarrow> ('b \<Rightarrow> bool) \<Rightarrow> 'b BitmapAllocatorTree \<Rightarrow> bool" where
  "tree_invar T invar t \<longleftrightarrow> length (tree_child t) = 16 \<and> (\<forall>k<16. invar (tree_child t ! k))
     \<and> (\<forall>k<16. bit (tree_bits t) k = (\<not> ba_empty T (tree_child t ! k)))"

lemma child_range:
  fixes cap :: nat
  assumes "off + n \<le> cap"
  shows "k * cap + off \<le> i \<and> i < k * cap + off + n
     \<longleftrightarrow> i div cap = k \<and> off \<le> i mod cap \<and> i mod cap < off + n" (is "?L = ?R")
proof
  assume L: ?L
  then have "i - k * cap < cap" using assms by linarith
  moreover from L have "i = k * cap + (i - k * cap)" by simp
  ultimately have "i div cap = k" "i mod cap = i - k * cap"
    by (metis add.commute div_mult_self3 div_less add_cancel_left_right gr_implies_not0)
      (metis L add.commute le_add_diff_inverse2 add_leE mod_mult_self3 mod_less \<open>i - k * cap < cap\<close> \<open>i = k * cap + (i - k * cap)\<close>)
  with L show ?R by linarith
next
  assume ?R
  with div_mult_mod_eq [of i cap] show ?L by auto
qed

context bitmap_laws
begin

lemma tree_child_set:
  assumes t: "tree_invar B invar t" and k: "k < 16" and n: "0 < n" "off + n \<le> CAPACITY B"
  obtains c' where "ba_set B (tree_child t ! k) off n v = Some c'"
    and "tree_invar B invar (t\<lparr>tree_child := (tree_child t)[k := c'],
      tree_bits := (if ba_empty B c' then tree_bits t AND NOT (push_bit k 1)
                    else tree_bits t OR push_bit k 1)\<rparr>)"
    and "\<And>bs. tree_view B used (t\<lparr>tree_child := (tree_child t)[k := c'], tree_bits := bs\<rparr>)
      = set_range (tree_view B used t) (k * CAPACITY B + off) n v"
proof -
  let ?c = "tree_child t ! k"
  have len: "length (tree_child t) = 16" using t by (simp add: tree_invar_def)
  from set_ok [of ?c n off v] t k n obtain c' where c': "ba_set B ?c off n v = Some c'"
    "invar c'" "used c' = set_range (used ?c) off n v" by (auto simp: tree_invar_def)
  let ?bits = "if ba_empty B c' then tree_bits t AND NOT (push_bit k 1) else tree_bits t OR push_bit k 1"
  have "bit ?bits j = (if j = k then \<not> ba_empty B c' else bit (tree_bits t) j)" if "j < 16" for j
    using bit_assign [of "\<not> ba_empty B c'" "tree_bits t" "push_bit k 1" j] k that
    by (auto simp: bit_simps)
  then have "tree_invar B invar (t\<lparr>tree_child := (tree_child t)[k := c'], tree_bits := ?bits\<rparr>)"
    using t c'(2) k len by (auto simp: tree_invar_def nth_list_update)
  moreover have "tree_view B used (t\<lparr>tree_child := (tree_child t)[k := c'], tree_bits := bs\<rparr>) i
      = set_range (tree_view B used t) (k * CAPACITY B + off) n v i" for bs i
  proof (cases "i div CAPACITY B = k")
    case True
    then have "i < tree_capacity B"
      using k cap_pos by (metis div_less_iff_less_mult mult.commute tree_capacity_def)
    with True k len show ?thesis
      by (simp add: tree_view_def c'(3) set_range_def child_range [OF n(2)])
  next
    case False
    then show ?thesis by (simp add: tree_view_def set_range_def child_range [OF n(2)])
  qed
  ultimately show thesis using c'(1) that by (auto simp: fun_eq_iff)
qed

lemma tree_set_loop_ok:
  assumes "tree_invar B invar t" and "0 < remain" and "off < CAPACITY B"
    and "k * CAPACITY B + off + remain \<le> 16 * CAPACITY B"
  shows "\<exists>t'. tree_set_loop B v [k..<16] t off remain = Some t' \<and> tree_invar B invar t'
    \<and> tree_view B used t' = set_range (tree_view B used t) (k * CAPACITY B + off) remain v"
  using assms
proof (induction "16 - k" arbitrary: k t off remain)
  case 0
  then have "16 * CAPACITY B \<le> k * CAPACITY B" by simp
  with 0 show ?case by linarith
next
  case (Suc m)
  then have k: "k < 16" by simp
  let ?n = "if remain > CAPACITY B - off then CAPACITY B - off else remain"
  have n: "0 < ?n" "off + ?n \<le> CAPACITY B" using Suc.prems by auto
  obtain c' where c': "ba_set B (tree_child t ! k) off ?n v = Some c'"
    and t': "tree_invar B invar (t\<lparr>tree_child := (tree_child t)[k := c'],
      tree_bits := (if ba_empty B c' then tree_bits t AND NOT (push_bit k 1)
                    else tree_bits t OR push_bit k 1)\<rparr>)" (is "tree_invar B invar ?t")
    and view: "\<And>bs. tree_view B used (t\<lparr>tree_child := (tree_child t)[k := c'], tree_bits := bs\<rparr>)
      = set_range (tree_view B used t) (k * CAPACITY B + off) ?n v"
    using tree_child_set [OF Suc.prems(1) k n] by blast
  have step: "tree_set_loop B v [k..<16] t off remain =
      (if remain - ?n = 0 then Some ?t else tree_set_loop B v [Suc k..<16] ?t 0 (remain - ?n))"
    using k c' Suc.prems(1) by (simp add: upt_conv_Cons idx_def tree_invar_def Let_def)
  show ?case
  proof (cases "remain - ?n = 0")
    case True
    then have "?n = remain" by (simp split: if_splits)
    with True t' step view show ?thesis by simp
  next
    case False
    then have r: "?n = CAPACITY B - off" "off + remain > CAPACITY B" by (auto split: if_splits)
    have "\<exists>t'. tree_set_loop B v [Suc k..<16] ?t 0 (remain - ?n) = Some t' \<and> tree_invar B invar t'
      \<and> tree_view B used t' = set_range (tree_view B used ?t) (Suc k * CAPACITY B + 0) (remain - ?n) v"
    proof (rule Suc.hyps(1) [OF _ t'])
      show "m = 16 - Suc k" using Suc.hyps(2) by simp
      show "0 < remain - ?n" using False by simp
      show "0 < CAPACITY B" by (rule cap_pos)
      show "Suc k * CAPACITY B + 0 + (remain - ?n) \<le> 16 * CAPACITY B"
        using r Suc.prems by auto
    qed
    moreover have "set_range (set_range u (k * CAPACITY B + off) ?n v) (Suc k * CAPACITY B + 0) (remain - ?n) v
        = set_range u (k * CAPACITY B + off) remain v" for u
      using r Suc.prems by (auto simp: set_range_def fun_eq_iff)
    ultimately show ?thesis using False step view by simp
  qed
qed

lemma tree_view_child:
  assumes "k < 16" and "j < CAPACITY B"
  shows "tree_view B used t (j + k * CAPACITY B) = used (tree_child t ! k) j"
proof -
  have "j + k * CAPACITY B < CAPACITY B + k * CAPACITY B" using assms(2) by simp
  also have "\<dots> \<le> 16 * CAPACITY B" using mult_le_mono1 [of "Suc k" 16 "CAPACITY B"] assms(1) by simp
  finally show ?thesis using assms by (simp add: tree_view_def tree_capacity_def)
qed

lemma tree_view_offset:
  assumes "k < 16" and "k * CAPACITY B \<le> j" and "j < Suc k * CAPACITY B"
  shows "tree_view B used t j = used (tree_child t ! k) (j - k * CAPACITY B)"
  using tree_view_child [of k "j - k * CAPACITY B" t] assms by simp

lemma tree_next_free_loop_ok:
  assumes "tree_invar B invar t" and "off < CAPACITY B" and "k \<le> 16"
  shows "(\<exists>i. tree_next_free_loop B [k..<16] t off = Some (Some i) \<and> k * CAPACITY B + off \<le> i
        \<and> i < 16 * CAPACITY B \<and> \<not> tree_view B used t i
        \<and> (\<forall>j. k * CAPACITY B + off \<le> j \<and> j < i \<longrightarrow> tree_view B used t j))
      \<or> tree_next_free_loop B [k..<16] t off = Some None
        \<and> (\<forall>j. k * CAPACITY B + off \<le> j \<and> j < 16 * CAPACITY B \<longrightarrow> tree_view B used t j)"
  (is "?P k off")
  using assms(2,3)
proof (induction "16 - k" arbitrary: k off)
  case 0
  then show ?case by auto
next
  case (Suc m)
  then have k: "k < 16" by simp
  let ?c = "tree_child t ! k"
  have c: "invar ?c" "length (tree_child t) = 16" using assms(1) k by (simp_all add: tree_invar_def)
  have bound: "Suc k * CAPACITY B \<le> 16 * CAPACITY B" using k by (intro mult_le_mono1) simp
  have up: "[k..<16] = k # [Suc k..<16]" using k by (rule upt_conv_Cons)
  from next_free_ok [OF c(1) Suc.prems(1)] show ?case
  proof (elim disjE exE conjE)
    fix i assume i: "ba_next_free B ?c off = Some (Some i)" "off \<le> i" "i < CAPACITY B" "\<not> used ?c i"
      and before: "\<forall>j. off \<le> j \<and> j < i \<longrightarrow> used ?c j"
    have "tree_next_free_loop B [k..<16] t off = Some (Some (i + k * CAPACITY B))"
      using i(1) c(2) k by (simp add: up idx_def)
    moreover have "tree_view B used t j" if "k * CAPACITY B + off \<le> j" "j < i + k * CAPACITY B" for j
    proof -
      have "off \<le> j - k * CAPACITY B" "j - k * CAPACITY B < i" using that by linarith+
      with before have "used ?c (j - k * CAPACITY B)" by blast
      with that i(3) show ?thesis by (subst tree_view_offset [OF k]) simp_all
    qed
    moreover have "i + k * CAPACITY B < 16 * CAPACITY B" using bound i(3) unfolding mult_Suc by linarith
    ultimately show ?thesis using i tree_view_child [OF k i(3), of t]
      by (intro disjI1 exI [of _ "i + k * CAPACITY B"]) simp
  next
    assume n: "ba_next_free B ?c off = Some None"
      and all: "\<forall>j. off \<le> j \<and> j < CAPACITY B \<longrightarrow> used ?c j"
    have eq: "tree_next_free_loop B [k..<16] t off = tree_next_free_loop B [Suc k..<16] t 0"
      using n c(2) k by (simp add: up idx_def)
    have here: "tree_view B used t j" if "k * CAPACITY B + off \<le> j" "j < Suc k * CAPACITY B" for j
    proof -
      have "off \<le> j - k * CAPACITY B" "j - k * CAPACITY B < CAPACITY B"
        using that by (simp_all add: less_diff_conv2)
      with all have "used ?c (j - k * CAPACITY B)" by blast
      with that show ?thesis by (subst tree_view_offset [OF k]) simp_all
    qed
    have "?P (Suc k) 0" using Suc.hyps(2) k cap_pos by (intro Suc.hyps(1)) simp_all
    then show ?thesis
    proof (elim disjE exE conjE)
      fix i assume i: "tree_next_free_loop B [Suc k..<16] t 0 = Some (Some i)"
        "Suc k * CAPACITY B + 0 \<le> i" "i < 16 * CAPACITY B" "\<not> tree_view B used t i"
        and before: "\<forall>j. Suc k * CAPACITY B + 0 \<le> j \<and> j < i \<longrightarrow> tree_view B used t j"
      have "tree_view B used t j" if "k * CAPACITY B + off \<le> j" "j < i" for j
        using here [OF that(1)] before that(2) by (cases "j < Suc k * CAPACITY B") simp_all
      moreover have "k * CAPACITY B + off \<le> i" using Suc.prems(1) i(2) unfolding mult_Suc by linarith
      ultimately show ?thesis using i(1,3,4) unfolding eq by blast
    next
      assume none: "tree_next_free_loop B [Suc k..<16] t 0 = Some None"
        and all': "\<forall>j. Suc k * CAPACITY B + 0 \<le> j \<and> j < 16 * CAPACITY B \<longrightarrow> tree_view B used t j"
      have "tree_view B used t j" if "k * CAPACITY B + off \<le> j" "j < 16 * CAPACITY B" for j
        using here [OF that(1)] all' that(2) by (cases "j < Suc k * CAPACITY B") simp_all
      with none show ?thesis unfolding eq by blast
    qed
  qed
qed

lemma tree_used_card:
  assumes "tree_invar B invar t"
  shows "tree_used B t = card {i. tree_view B used t i}"
proof -
  let ?f = "\<lambda>k. (\<lambda>j. j + k * CAPACITY B) ` {j. used (tree_child t ! k) j}"
  have inv: "invar (tree_child t ! k)" if "k < 16" for k using assms that by (simp add: tree_invar_def)
  have fin: "finite {j. used (tree_child t ! k) j}" if "k < 16" for k
    using used_below [OF inv [OF that]] by (intro finite_subset [OF _ finite_lessThan]) auto
  have "{i. tree_view B used t i} = (\<Union>k<16. ?f k)"
  proof (intro set_eqI iffI)
    fix i assume "i \<in> {i. tree_view B used t i}"
    then have "used (tree_child t ! (i div CAPACITY B)) (i mod CAPACITY B)" "i div CAPACITY B < 16"
      using cap_pos by (auto simp: tree_view_def tree_capacity_def less_mult_imp_div_less mult.commute)
    then show "i \<in> (\<Union>k<16. ?f k)"
      by (intro UN_I [of "i div CAPACITY B"] image_eqI [of _ _ "i mod CAPACITY B"]) simp_all
  next
    fix i assume "i \<in> (\<Union>k<16. ?f k)"
    then obtain k j where "k < 16" "i = j + k * CAPACITY B" "used (tree_child t ! k) j" by auto
    then show "i \<in> {i. tree_view B used t i}"
      using tree_view_child [of k j t] used_below [OF inv] by simp
  qed
  moreover have "card (\<Union>k<16. ?f k) = (\<Sum>k<16. card (?f k))"
  proof (rule card_UN_disjoint)
    show "\<forall>k\<in>{..<16}. finite (?f k)" using fin by simp
    show "\<forall>k\<in>{..<16}. \<forall>l\<in>{..<16}. k \<noteq> l \<longrightarrow> ?f k \<inter> ?f l = {}"
    proof (intro ballI impI)
      fix k l :: nat assume kl: "k \<in> {..<16}" "l \<in> {..<16}" "k \<noteq> l"
      have d: "x div CAPACITY B = m" if "x \<in> ?f m" "m < 16" for x m
        using that used_below [OF inv [OF that(2)]] cap_pos by auto
      show "?f k \<inter> ?f l = {}"
      proof (rule equals0I)
        fix x assume "x \<in> ?f k \<inter> ?f l"
        with d [of x k] d [of x l] kl show False by simp
      qed
    qed
  qed simp
  moreover have "card (?f k) = ba_used B (tree_child t ! k)" if "k < 16" for k
    by (subst card_image) (simp_all add: inj_on_def used_ok [OF inv [OF that]])
  moreover have "tree_used B t = (\<Sum>k<16. ba_used B (tree_child t ! k))"
    using assms by (simp add: tree_used_def tree_invar_def sum_list_sum_nth atLeast0LessThan)
  ultimately show ?thesis by simp
qed

lemma tree_empty_iff:
  assumes "tree_invar B invar t"
  shows "tree_empty t \<longleftrightarrow> (\<forall>i. \<not> tree_view B used t i)"
proof
  assume "tree_empty t"
  then have "\<not> used (tree_child t ! k) j" if "k < 16" for k j
    using assms that empty_ok by (auto simp: tree_invar_def tree_empty_def)
  then show "\<forall>i. \<not> tree_view B used t i"
    by (auto simp: tree_view_def tree_capacity_def less_mult_imp_div_less mult.commute)
next
  assume none: "\<forall>i. \<not> tree_view B used t i"
  have "\<not> bit (tree_bits t) k" if "k < 16" for k
  proof -
    have inv: "invar (tree_child t ! k)" using assms that by (simp add: tree_invar_def)
    then have "\<not> used (tree_child t ! k) j" for j
      using none tree_view_child [OF that, of j t] used_below [OF inv, of j] by auto
    with inv assms that show ?thesis by (simp add: tree_invar_def empty_ok)
  qed
  then show "tree_empty t" unfolding tree_empty_def by (intro bit_word_eqI) simp
qed

lemma tree_laws:
  assumes small: "CAPACITY B * 256 < 2 ^ 60"
  shows "bitmap_laws (BitmapAllocatorTree_ops B) (tree_view B used) (tree_invar B invar)"
proof
  fix t :: "'b BitmapAllocatorTree" and start entries i :: nat and v
  have range: "start div CAPACITY B < 16" if "start < tree_capacity B"
    using that by (simp add: tree_capacity_def less_mult_imp_div_less mult.commute)
  have m: "start mod CAPACITY B < CAPACITY B" using cap_pos by simp
  have start: "start div CAPACITY B * CAPACITY B + start mod CAPACITY B = start" by simp
  show "0 < CAPACITY (BitmapAllocatorTree_ops B)" using cap_pos
    by (simp add: BitmapAllocatorTree_ops_def tree_capacity_def)
  show "CAPACITY (BitmapAllocatorTree_ops B) * 16 < 2 ^ 60" using small
    by (simp add: BitmapAllocatorTree_ops_def tree_capacity_def)
  show "ba_capacity (BitmapAllocatorTree_ops B) t = CAPACITY (BitmapAllocatorTree_ops B)"
    by (simp add: BitmapAllocatorTree_ops_def)
  show "tree_view B used t i \<Longrightarrow> i < CAPACITY (BitmapAllocatorTree_ops B)"
    by (simp add: tree_view_def BitmapAllocatorTree_ops_def)
  show "CAPACITY (BitmapAllocatorTree_ops B) < start + entries \<Longrightarrow>
      ba_set (BitmapAllocatorTree_ops B) t start entries v = None"
    by (simp add: BitmapAllocatorTree_ops_def tree_set_def)
  assume t: "tree_invar B invar t"
  show "\<exists>t'. ba_set (BitmapAllocatorTree_ops B) t start entries v = Some t'
      \<and> tree_invar B invar t' \<and> tree_view B used t' = set_range (tree_view B used t) start entries v"
    if "0 < entries" "start + entries \<le> CAPACITY (BitmapAllocatorTree_ops B)"
    using tree_set_loop_ok [OF t that(1) m, of "start div CAPACITY B" v] that(2)
    by (simp add: start BitmapAllocatorTree_ops_def tree_set_def tree_capacity_def mult.commute)
  show "(\<exists>i. ba_next_free (BitmapAllocatorTree_ops B) t start = Some (Some i) \<and> start \<le> i
        \<and> i < CAPACITY (BitmapAllocatorTree_ops B) \<and> \<not> tree_view B used t i
        \<and> (\<forall>j. start \<le> j \<and> j < i \<longrightarrow> tree_view B used t j))
      \<or> ba_next_free (BitmapAllocatorTree_ops B) t start = Some None
        \<and> (\<forall>j. start \<le> j \<and> j < CAPACITY (BitmapAllocatorTree_ops B) \<longrightarrow> tree_view B used t j)"
    if "start < CAPACITY (BitmapAllocatorTree_ops B)"
    using tree_next_free_loop_ok [OF t m, of "start div CAPACITY B"] that range
    by (simp add: start BitmapAllocatorTree_ops_def tree_next_free_def tree_capacity_def mult.commute)
  show "ba_get (BitmapAllocatorTree_ops B) t i = Some (tree_view B used t i)"
    if i: "i < CAPACITY (BitmapAllocatorTree_ops B)"
  proof -
    have "i div CAPACITY B < 16" "i mod CAPACITY B < CAPACITY B"
      using i cap_pos by (simp_all add: BitmapAllocatorTree_ops_def tree_capacity_def
          less_mult_imp_div_less mult.commute)
    with t i show ?thesis
      by (simp add: BitmapAllocatorTree_ops_def tree_get_def tree_view_def idx_def tree_invar_def get_ok)
  qed
  show "ba_empty (BitmapAllocatorTree_ops B) t \<longleftrightarrow> (\<forall>i. \<not> tree_view B used t i)"
    using tree_empty_iff [OF t] by (simp add: BitmapAllocatorTree_ops_def)
  show "ba_used (BitmapAllocatorTree_ops B) t = card {i. tree_view B used t i}"
    using tree_used_card [OF t] by (simp add: BitmapAllocatorTree_ops_def)
qed

end

definition bits1024_used :: "BitmapAllocator1024 \<Rightarrow> nat \<Rightarrow> bool" where
  "bits1024_used = tree_view BitmapAllocator64_ops bits64_used"

definition BitmapAllocator1024_invar :: "BitmapAllocator1024 \<Rightarrow> bool" where
  "BitmapAllocator1024_invar = tree_invar BitmapAllocator64_ops (\<lambda>_. True)"

interpretation bm1024: bitmap_laws BitmapAllocator1024_ops bits1024_used BitmapAllocator1024_invar
  unfolding BitmapAllocator1024_ops_def bits1024_used_def BitmapAllocator1024_invar_def
  by (rule bm64.tree_laws) (simp add: BitmapAllocator64_ops_def)

lemma CAPACITY_1024 [simp]: "CAPACITY BitmapAllocator1024_ops = 1024"
  by (simp add: BitmapAllocator1024_ops_def BitmapAllocatorTree_ops_def tree_capacity_def
      BitmapAllocator64_ops_def)

lemma BitmapAllocatorTree_new_invar:
  "BitmapAllocator1024_invar BitmapAllocatorTree_new_empty"
  "BitmapAllocator1024_invar BitmapAllocatorTree_new_full"
  by (simp_all add: BitmapAllocator1024_invar_def tree_invar_def BitmapAllocatorTree_new_empty_def
      BitmapAllocatorTree_new_full_def BitmapAllocator64_ops_def BitmapAllocator64_empty_def
      BitmapAllocator64_new_empty_def BitmapAllocator64_new_full_def)

lemma BitmapAllocatorTree_new_used:
  "bits1024_used BitmapAllocatorTree_new_empty i = False"
  "bits1024_used BitmapAllocatorTree_new_full i = (i < 1024)"
proof -
  have "i div 64 < 16" if "i < 1024" using that by simp
  then show "bits1024_used BitmapAllocatorTree_new_empty i = False"
    "bits1024_used BitmapAllocatorTree_new_full i = (i < 1024)"
    by (auto simp: bits1024_used_def tree_view_def BitmapAllocatorTree_new_empty_def tree_capacity_def
      BitmapAllocatorTree_new_full_def BitmapAllocator64_ops_def bits64_used_def
      BitmapAllocator64_new_empty_def BitmapAllocator64_new_full_def bit_minus_1_iff)
qed

section \<open>Properties\<close>

text \<open>
  C35.  \<open>BitmapAllocator1024::alloc\<close> of a positive number of entries is a total first-fit search.
  It never panics and never loops.  When it returns an offset, the range there is aligned to
  \<open>2^align\<close>, inside the bitmap, was free, is the lowest such range, and exactly it becomes used.
  When it returns nothing the bitmap is unchanged, and either \<open>align\<close> is at least 10, for which
  the search always returns nothing, or no aligned free range of that length exists.
\<close>

theorem bitmap_alloc_first_fit:
  assumes "BitmapAllocator1024_invar b" and "0 < entries" and "entries \<le> usize_max"
  shows "\<exists>r b'. ba_alloc BitmapAllocator1024_ops b entries align = Some (r, b')
    \<and> BitmapAllocator1024_invar b'
    \<and> (case r of
         None \<Rightarrow> b' = b \<and> (10 \<le> align \<or> (\<forall>p. \<not> fits (bits1024_used b) 1024 entries align p))
       | Some p \<Rightarrow> align < 10 \<and> fits (bits1024_used b) 1024 entries align p
           \<and> (\<forall>q. fits (bits1024_used b) 1024 entries align q \<longrightarrow> p \<le> q)
           \<and> bits1024_used b' = set_range (bits1024_used b) p entries True)"
proof -
  have "ilog2 1024 = 10" using ilog2_exp [of 10] by simp
  with bm1024.alloc_spec [OF assms, of align] show ?thesis by (auto split: option.splits)
qed

theorem bitmap_alloc_first_fit_witness:
  "\<exists>b'. ba_alloc BitmapAllocator1024_ops BitmapAllocatorTree_new_empty 3 1 = Some (Some 0, b')
     \<and> bits1024_used b' 2 \<and> \<not> bits1024_used b' 3"
proof -
  have f: "fits (bits1024_used BitmapAllocatorTree_new_empty) 1024 3 1 0"
    by (simp add: fits_def BitmapAllocatorTree_new_used)
  with bitmap_alloc_first_fit [OF BitmapAllocatorTree_new_invar(1), of 3 1] show ?thesis
    by (auto simp: usize_max_eq set_range_def BitmapAllocatorTree_new_used split: option.splits)
qed

text \<open>
  C36.  Freeing what \<open>alloc\<close> returned undoes it: \<open>free\<close> does not panic and the used entries are
  again exactly those from before the allocation.
\<close>

theorem bitmap_alloc_free:
  assumes "BitmapAllocator1024_invar b" and "0 < entries" and "entries \<le> usize_max"
    and "ba_alloc BitmapAllocator1024_ops b entries align = Some (Some p, b')"
  shows "\<exists>b''. ba_free BitmapAllocator1024_ops b' p entries = Some b''
    \<and> BitmapAllocator1024_invar b'' \<and> bits1024_used b'' = bits1024_used b"
  using assms by (rule bm1024.free_alloc)

theorem bitmap_alloc_free_witness:
  "\<exists>b' b''. ba_alloc BitmapAllocator1024_ops BitmapAllocatorTree_new_empty 3 1 = Some (Some 0, b')
     \<and> ba_free BitmapAllocator1024_ops b' 0 3 = Some b''
     \<and> bits1024_used b'' = bits1024_used BitmapAllocatorTree_new_empty"
proof -
  have f: "fits (bits1024_used BitmapAllocatorTree_new_empty) 1024 3 1 0"
    by (simp add: fits_def BitmapAllocatorTree_new_used)
  with bm1024.alloc_spec [OF BitmapAllocatorTree_new_invar(1), of 3 1] obtain b' where
    b': "ba_alloc BitmapAllocator1024_ops BitmapAllocatorTree_new_empty 3 1 = Some (Some 0, b')"
    using ilog2_exp [of 10] by (auto simp: usize_max_eq split: option.splits)
  with bitmap_alloc_free [OF BitmapAllocatorTree_new_invar(1) _ _ b'] show ?thesis
    by (auto simp: usize_max_eq)
qed

text \<open>
  \<open>used\<close> counts, \<open>get\<close> reads and \<open>set\<close> writes the same set of entries through the tree's
  sixteen children: after \<open>set\<close> every \<open>get\<close> sees the new value inside the range and the old one
  outside, and \<open>used\<close> and \<open>empty\<close> agree with what \<open>get\<close> reports.
\<close>

theorem bitmap_set_get:
  assumes "BitmapAllocator1024_invar b" and "0 < entries" and "start + entries \<le> 1024"
  shows "\<exists>b'. ba_set BitmapAllocator1024_ops b start entries v = Some b'
    \<and> BitmapAllocator1024_invar b'
    \<and> (\<forall>i < 1024. ba_get BitmapAllocator1024_ops b' i =
         (if start \<le> i \<and> i < start + entries then Some v else ba_get BitmapAllocator1024_ops b i))
    \<and> ba_used BitmapAllocator1024_ops b'
        = card {i. i < 1024 \<and> ba_get BitmapAllocator1024_ops b' i = Some True}
    \<and> (ba_empty BitmapAllocator1024_ops b' \<longleftrightarrow> ba_used BitmapAllocator1024_ops b' = 0)"
proof -
  from bm1024.set_ok [OF assms(1,2), of start v] assms(3) obtain b' where
    b': "ba_set BitmapAllocator1024_ops b start entries v = Some b'" "BitmapAllocator1024_invar b'"
    "bits1024_used b' = set_range (bits1024_used b) start entries v" by auto
  have get: "ba_get BitmapAllocator1024_ops c i = Some (bits1024_used c i)"
    if "BitmapAllocator1024_invar c" "i < 1024" for c i using bm1024.get_ok that by simp
  have set: "{i. i < 1024 \<and> ba_get BitmapAllocator1024_ops b' i = Some True} = {i. bits1024_used b' i}"
    using get [OF b'(2)] bm1024.used_below [OF b'(2)] by auto
  moreover have "finite {i. bits1024_used b' i}" by (subst set [symmetric]) simp
  ultimately show ?thesis
    using b' get assms(1) bm1024.used_ok [OF b'(2)] bm1024.empty_ok [OF b'(2)]
    by (auto simp: set_range_def)
qed

theorem bitmap_set_get_witness:
  "\<exists>b'. ba_set BitmapAllocator1024_ops BitmapAllocatorTree_new_full 60 8 False = Some b'
     \<and> ba_get BitmapAllocator1024_ops b' 59 = ba_get BitmapAllocator1024_ops BitmapAllocatorTree_new_full 59
     \<and> ba_get BitmapAllocator1024_ops b' 60 = Some False
     \<and> ba_get BitmapAllocator1024_ops b' 67 = Some False"
  using bitmap_set_get [OF BitmapAllocatorTree_new_invar(2), of 8 60 False] by auto

end
