(* ===== verification/Svsm_Error.thy ===== *)
theory Svsm_Error
  imports Address
begin

text \<open>
  The error types of the kernel (\<open>kernel/src/error.rs\<close> and the enums it wraps) and the
  error numbers a system call reports to user mode.

  A constructor is named after its enum: \<open>SvsmError::Mem\<close> is \<open>SvsmError_Mem\<close>.  The
  constructor \<open>TeeAttestation\<close> exists only with the feature \<open>attest\<close>, which is off here; its
  payload and \<open>PackItError\<close> come from crates that are not part of the repository, so the
  latter is an opaque type.
\<close>

typedecl PackItError

instantiation PackItError :: equal
begin

definition equal_PackItError :: "PackItError \<Rightarrow> PackItError \<Rightarrow> bool" where
  "equal_PackItError x y \<longleftrightarrow> x = y"

instance
  by standard (simp add: equal_PackItError_def)

end

datatype ElfError =
    ElfError_FileTooShort | ElfError_InvalidAddressRange | ElfError_InvalidAddressAlignment
  | ElfError_InvalidFileRange | ElfError_UnmappedVaddrRange | ElfError_UnbackedVaddrRange
  | ElfError_UnrecognizedMagic | ElfError_UnsupportedClass | ElfError_UnsupportedEndianess
  | ElfError_UnsupportedOsAbi | ElfError_UnsupportedType | ElfError_UnsupportedMachine
  | ElfError_UnsupportedVersion | ElfError_InvalidPhdrSize | ElfError_InvalidShdrSize
  | ElfError_InvalidSegmentSize | ElfError_UnalignedSegmentAddress
  | ElfError_LoadSegmentConflict | ElfError_DynamicPhdrConflict
  | ElfError_UnterminatedDynamicSection | ElfError_DynamicFieldConflict
  | ElfError_UnrecognizedDynamicField | ElfError_MissingDynamicField
  | ElfError_InvalidSectionIndex | ElfError_IncompatibleSectionType
  | ElfError_InvalidStrtabString | ElfError_InvalidSymbolEntrySize
  | ElfError_InvalidSymbolIndex | ElfError_InvalidRelocationEntrySize
  | ElfError_UnrecognizedRelocationType | ElfError_InvalidRelocationOffset
  | ElfError_RelocationAgainstUndefSymbol

datatype GhcbError =
    GhcbError_InvalidOffset | GhcbError_VmgexitInvalid | GhcbError_VmgexitError u64 u64

datatype GhcbMsrError =
    GhcbMsrError_InfoMismatch | GhcbMsrError_DataMismatch

datatype SevSnpError =
    SevSnpError_FAIL_INPUT u64 | SevSnpError_FAIL_PERMISSION u64
  | SevSnpError_FAIL_SIZEMISMATCH u64 | SevSnpError_FAIL_UNCHANGED u64

datatype TdVmcallError =
    TdVmcallError_OperandInvalid | TdVmcallError_Retry | TdVmcallError_Unknown u64

datatype TdxError =
    TdxError_OperandInvalid | TdxError_NoVeInfo | TdxError_PageSizeMismatch
  | TdxError_Unimplemented | TdxError_Vmcall TdVmcallError | TdxError_Unknown u64

datatype AllocError =
    AllocError_InvalidPageType | AllocError_InvalidHeapAddress VirtAddr
  | AllocError_OutOfMemory | AllocError_InvalidPageOrder nat
  | AllocError_InvalidFilePage VirtAddr | AllocError_InvalidPfn nat
  | AllocError_InvalidLayout

datatype InsnError =
    InsnError_DecodeDisp | InsnError_DecodeImm | InsnError_DecodeMOffset
  | InsnError_DecodeModRM | InsnError_DecodeOpCode | InsnError_DecodePrefix
  | InsnError_DecodeSib | InsnError_ExceptionAC | InsnError_ExceptionGP u8
  | InsnError_ExceptionPF u64 u32 | InsnError_ExceptionSS | InsnError_MapLinearAddr
  | InsnError_MemRead | InsnError_MemWrite | InsnError_NoOpCodeDesc | InsnError_InsnPeek
  | InsnError_InvalidDecode | InsnError_InvalidRegister | InsnError_IoIoIn
  | InsnError_IoIoOut | InsnError_UnSupportedInsn | InsnError_TranslateLinearAddr
  | InsnError_HandleMmioRead | InsnError_HandleMmioWrite

datatype FwCfgError =
    FwCfgError_FileNotFound | FwCfgError_FileSize u32 | FwCfgError_KernelRegion
  | FwCfgError_TooManyFiles | FwCfgError_InvalidFormat

datatype FsError =
    FsError_Inval | FsError_FileExists | FsError_FileNotFound | FsError_NotSupported
  | FsError_BadHandle | FsError_ReadOnly | FsError_WriteOnly | FsError_Busy
  | FsError_NotEmpty | FsError_IsFile | FsError_IsDir | FsError_PackIt PackItError

datatype ObjError =
    ObjError_InvalidHandle | ObjError_NotFound | ObjError_Busy

datatype TaskError =
    TaskError_NotTerminated | TaskError_CloseFailed

datatype VcErrorType =
    VcErrorType_Unsupported | VcErrorType_DecodeFailed | VcErrorType_UnknownCpuidLeaf

record VcError =
  vce_rip :: u64
  vce_code :: u64
  vce_error_type :: VcErrorType

datatype VirtioError =
    VirtioError_InvalidDevice | VirtioError_InvalidDeviceType

datatype BlockDeviceError =
    BlockDeviceError_Failed

datatype ImmutAfterInitError =
    ImmutAfterInitError_AlreadyInit | ImmutAfterInitError_Uninitialized

datatype VsockError =
    VsockError_ConnectionExists | VsockError_NotConnected | VsockError_PeerSocketShutdown
  | VsockError_NoPortsAvailable | VsockError_DriverError | VsockError_DeviceNotAvailable

datatype IoError =
    IoError_UnexpectedEof

datatype ApicError =
    ApicError_Disabled | ApicError_Emulation | ApicError_Registration

datatype AttestError =
    AttestError_Report | AttestError_Manifest | AttestError_Certificate
  | AttestError_CertificateSize

datatype SvsmError =
    SvsmError_PlatformInit | SvsmError_Elf ElfError | SvsmError_Ghcb GhcbError
  | SvsmError_GhcbMsr GhcbMsrError | SvsmError_SevSnp SevSnpError | SvsmError_Tdx TdxError
  | SvsmError_Mem | SvsmError_Alloc AllocError | SvsmError_MissingVMSA
  | SvsmError_MissingCAA | SvsmError_MissingSecrets | SvsmError_Insn InsnError
  | SvsmError_InvalidAddress | SvsmError_InvalidBytes | SvsmError_InvalidUtf8
  | SvsmError_Fault | SvsmError_Firmware | SvsmError_Console | SvsmError_FwCfg FwCfgError
  | SvsmError_Igvm | SvsmError_Acpi | SvsmError_FileSystem FsError
  | SvsmError_Obj ObjError | SvsmError_Task TaskError | SvsmError_Vc VcError
  | SvsmError_NotSupported | SvsmError_InvalidParameter | SvsmError_InvalidFormat
  | SvsmError_MessageDecryptionFailure | SvsmError_SnpGuestRequest u32
  | SvsmError_Apic ApicError | SvsmError_Attestation AttestError | SvsmError_HyperV u16
  | SvsmError_Virtio VirtioError | SvsmError_Block BlockDeviceError
  | SvsmError_ImmutAfterInit ImmutAfterInitError | SvsmError_Vsock VsockError
  | SvsmError_Io IoError

text \<open>System call error numbers; \<open>from\<close> is what the dispatcher returns to user mode.\<close>

datatype SysCallError = EINVAL | ENOSYS | ENOMEM | EPERM | EFAULT | EBUSY | ENOTFOUND | ENOTSUPP
  | EEXIST | ERDONLY | EWRONLY | UNKNOWN

primrec SysCallError_code :: "SysCallError \<Rightarrow> int" where
  "SysCallError_code EINVAL = -1"
| "SysCallError_code ENOSYS = -2"
| "SysCallError_code ENOMEM = -3"
| "SysCallError_code EPERM = -4"
| "SysCallError_code EFAULT = -5"
| "SysCallError_code EBUSY = -6"
| "SysCallError_code ENOTFOUND = -7"
| "SysCallError_code ENOTSUPP = -8"
| "SysCallError_code EEXIST = -9"
| "SysCallError_code ERDONLY = -10"
| "SysCallError_code EWRONLY = -11"
| "SysCallError_code UNKNOWN = -128"

definition SysCallError_from_i32 :: "int \<Rightarrow> SysCallError" where
  "SysCallError_from_i32 e =
     (if e = -1 then EINVAL else if e = -2 then ENOSYS else if e = -3 then ENOMEM
      else if e = -4 then EPERM else if e = -5 then EFAULT else if e = -6 then EBUSY
      else if e = -7 then ENOTFOUND else if e = -8 then ENOTSUPP else if e = -9 then EEXIST
      else if e = -10 then ERDONLY else if e = -11 then EWRONLY else UNKNOWN)"

definition SysCallError_from :: "SvsmError \<Rightarrow> SysCallError" where
  "SysCallError_from err = (case err of
       SvsmError_Alloc e \<Rightarrow> (case e of AllocError_OutOfMemory \<Rightarrow> ENOMEM | _ \<Rightarrow> UNKNOWN)
     | SvsmError_FileSystem e \<Rightarrow>
         (case e of FsError_FileExists \<Rightarrow> EEXIST | FsError_WriteOnly \<Rightarrow> EWRONLY
          | FsError_ReadOnly \<Rightarrow> ERDONLY | FsError_FileNotFound \<Rightarrow> ENOTFOUND
          | FsError_Inval \<Rightarrow> EINVAL | _ \<Rightarrow> UNKNOWN)
     | SvsmError_Obj e \<Rightarrow>
         (case e of ObjError_NotFound \<Rightarrow> ENOTFOUND | ObjError_InvalidHandle \<Rightarrow> EINVAL
          | _ \<Rightarrow> UNKNOWN)
     | SvsmError_NotSupported \<Rightarrow> ENOTSUPP
     | SvsmError_Mem \<Rightarrow> EINVAL
     | SvsmError_InvalidAddress \<Rightarrow> EINVAL
     | SvsmError_InvalidBytes \<Rightarrow> EINVAL
     | SvsmError_InvalidUtf8 \<Rightarrow> EINVAL
     | _ \<Rightarrow> UNKNOWN)"

text \<open>Every error number is negative and is read back as the error it stands for.\<close>

lemma SysCallError_code_roundtrip: "SysCallError_from_i32 (SysCallError_code e) = e"
  by (cases e) (simp_all add: SysCallError_from_i32_def)

lemma SysCallError_code_neg: "SysCallError_code e < 0"
  by (cases e) simp_all

end
