(* ===== verification/Virtual_Range.thy ===== *)
theory Virtual_Range
  imports Svsm_Error Memory_Region Bitmap_Allocator
begin

unbundle bit_operations_syntax

text \<open>
  The per-CPU windows of temporary virtual addresses (\<open>kernel/src/mm/virtualrange.rs\<close>):
  \<open>VirtualRange\<close> hands out page ranges of one window through the 1024-entry bitmap, each with
  a guard page behind it, and \<open>VRangeAlloc\<close> owns one such range of the 4K or of the 2M window
  of the running CPU until it is dropped.

  The two windows of the running CPU (\<open>this_cpu().vrange_4k_mut()\<close> and
  \<open>this_cpu().vrange_2m_mut()\<close>) are the state \<open>cpu_vranges\<close>.
\<close>

section \<open>The code\<close>

record VirtualRange =
  vr_start_virt :: VirtAddr
  vr_page_count :: nat
  vr_page_shift :: nat
  vr_bits :: BitmapAllocator1024

definition VirtualRange_new :: VirtualRange where
  "VirtualRange_new = \<lparr> vr_start_virt = VirtAddr_null, vr_page_count = 0,
     vr_page_shift = PAGE_SHIFT, vr_bits = BitmapAllocatorTree_new_full \<rparr>"

definition VirtualRange_init ::
  "VirtualRange \<Rightarrow> VirtAddr \<Rightarrow> nat \<Rightarrow> nat \<Rightarrow> VirtualRange option" where
  "VirtualRange_init self start_virt page_count page_shift = do {
     bits' \<leftarrow> ba_set BitmapAllocator1024_ops (vr_bits self) 0 page_count False;
     Some (self\<lparr>vr_start_virt := start_virt, vr_page_count := page_count,
       vr_page_shift := page_shift, vr_bits := bits'\<rparr>)
   }"

definition VirtualRange_alloc :: "nat \<Rightarrow> nat \<Rightarrow> (VirtualRange, VirtAddr, SvsmError) svsm" where
  "VirtualRange_alloc page_count alignment self = do {
     entries \<leftarrow> uadd page_count 1;
     (found, bits') \<leftarrow> ba_alloc BitmapAllocator1024_ops (vr_bits self) entries alignment;
     case found of
       Some offset \<Rightarrow> do {
         off \<leftarrow> ushl offset (vr_page_shift self);
         vaddr \<leftarrow> VirtAddr_add (vr_start_virt self) (of_nat off);
         Some (Ok vaddr, self\<lparr>vr_bits := bits'\<rparr>)
       }
     | None \<Rightarrow> Some (Err SvsmError_Mem, self\<lparr>vr_bits := bits'\<rparr>)
   }"

definition VirtualRange_free :: "VirtualRange \<Rightarrow> VirtAddr \<Rightarrow> nat \<Rightarrow> VirtualRange option" where
  "VirtualRange_free self vaddr page_count = do {
     d \<leftarrow> VirtAddr_sub vaddr (vr_start_virt self);
     offset \<leftarrow> (if vr_page_shift self < 64 then Some (unat (drop_bit (vr_page_shift self) d)) else None);
     entries \<leftarrow> uadd page_count 1;
     bits' \<leftarrow> ba_free BitmapAllocator1024_ops (vr_bits self) offset entries;
     Some (self\<lparr>vr_bits := bits'\<rparr>)
   }"

definition VirtualRange_used_pages :: "VirtualRange \<Rightarrow> nat" where
  "VirtualRange_used_pages self = ba_used BitmapAllocator1024_ops (vr_bits self)"

record cpu_vranges =
  vrange_4k :: VirtualRange
  vrange_2m :: VirtualRange

record VRangeAlloc =
  va_region :: "VirtAddr MemoryRegion"
  va_huge :: bool

definition VRangeAlloc_new_4k :: "u64 \<Rightarrow> nat \<Rightarrow> (cpu_vranges, VRangeAlloc, SvsmError) svsm" where
  "VRangeAlloc_new_4k size' align cpu =
     (if size' AND (PAGE_SIZE_W - 1) \<noteq> 0 then Some (Err SvsmError_Mem, cpu)
      else do {
        (r, range) \<leftarrow> VirtualRange_alloc (unat (drop_bit PAGE_SHIFT size')) align (vrange_4k cpu);
        case r of
          Err e \<Rightarrow> Some (Err e, cpu\<lparr>vrange_4k := range\<rparr>)
        | Ok addr \<Rightarrow> do {
            region \<leftarrow> MemoryRegion_new VirtAddr_ops addr size';
            Some (Ok \<lparr> va_region = region, va_huge = False \<rparr>, cpu\<lparr>vrange_4k := range\<rparr>)
          }
      })"

definition VRangeAlloc_new_2m :: "u64 \<Rightarrow> nat \<Rightarrow> (cpu_vranges, VRangeAlloc, SvsmError) svsm" where
  "VRangeAlloc_new_2m size' align cpu =
     (if size' AND (of_nat PAGE_SIZE_2M - 1) \<noteq> 0 then Some (Err SvsmError_Mem, cpu)
      else do {
        (r, range) \<leftarrow> VirtualRange_alloc (unat (drop_bit PAGE_SHIFT_2M size')) align (vrange_2m cpu);
        case r of
          Err e \<Rightarrow> Some (Err e, cpu\<lparr>vrange_2m := range\<rparr>)
        | Ok addr \<Rightarrow> do {
            region \<leftarrow> MemoryRegion_new VirtAddr_ops addr size';
            Some (Ok \<lparr> va_region = region, va_huge = True \<rparr>, cpu\<lparr>vrange_2m := range\<rparr>)
          }
      })"

definition VRangeAlloc_drop :: "VRangeAlloc \<Rightarrow> cpu_vranges \<Rightarrow> cpu_vranges option" where
  "VRangeAlloc_drop self cpu = (
     let region = va_region self; len = MemoryRegion_len VirtAddr_ops region in
     if va_huge self
     then do {
       range \<leftarrow> VirtualRange_free (vrange_2m cpu) (mr_start region) (unat (drop_bit PAGE_SHIFT_2M len));
       Some (cpu\<lparr>vrange_2m := range\<rparr>)
     }
     else do {
       range \<leftarrow> VirtualRange_free (vrange_4k cpu) (mr_start region) (unat (drop_bit PAGE_SHIFT len));
       Some (cpu\<lparr>vrange_4k := range\<rparr>)
     })"

section \<open>The window\<close>

text \<open>
  A window in use: its pages lie inside one half of the canonical addresses, and the bitmap
  entries behind its last page are permanently marked as used.
\<close>

definition vrange_used :: "VirtualRange \<Rightarrow> nat \<Rightarrow> bool" where
  "vrange_used r = bits1024_used (vr_bits r)"

definition vrange_ok :: "VirtualRange \<Rightarrow> bool" where
  "vrange_ok r \<longleftrightarrow> BitmapAllocator1024_invar (vr_bits r) \<and> VirtAddr_ok (vr_start_virt r)
     \<and> vr_page_shift r \<in> {PAGE_SHIFT, PAGE_SHIFT_2M} \<and> vr_page_count r \<le> 1024
     \<and> in_half (virt_bits (vr_start_virt r)) (vr_page_count r * 2 ^ vr_page_shift r)
     \<and> (\<forall>i \<in> {vr_page_count r ..< 1024}. vrange_used r i)"

text \<open>The virtual address of page \<open>i\<close> of the window.\<close>

definition vrange_addr :: "VirtualRange \<Rightarrow> nat \<Rightarrow> nat" where
  "vrange_addr r i = unat (virt_bits (vr_start_virt r)) + i * 2 ^ vr_page_shift r"

text \<open>Allocation and freeing change nothing but the bitmap.\<close>

definition same_window :: "VirtualRange \<Rightarrow> VirtualRange \<Rightarrow> bool" where
  "same_window r r' \<longleftrightarrow> vr_start_virt r' = vr_start_virt r \<and> vr_page_count r' = vr_page_count r
     \<and> vr_page_shift r' = vr_page_shift r"

lemma vrange_page:
  assumes r: "vrange_ok r" and i: "i \<le> vr_page_count r"
  obtains off v where "ushl i (vr_page_shift r) = Some off" "off = i * 2 ^ vr_page_shift r" "off < 2 ^ 47"
    "VirtAddr_add (vr_start_virt r) (of_nat off) = Some v"
    "VirtAddr_ok v" "unat (virt_bits v) = vrange_addr r i"
    "VirtAddr_sub v (vr_start_virt r) = Some (of_nat off)"
proof -
  let ?s = "vr_page_shift r"
  have s: "?s = 12 \<or> ?s = 21" using r by (simp add: vrange_ok_def PAGE_SHIFT_def PAGE_SHIFT_2M_def)
  have ok: "VirtAddr_ok (vr_start_virt r)" using r by (simp add: vrange_ok_def)
  have "in_half (virt_bits (vr_start_virt r)) (i * 2 ^ ?s)"
    using r i by (auto simp: vrange_ok_def intro: in_half_mono)
  from VirtAddr_add_linear [OF ok this] obtain v where v: "VirtAddr_add (vr_start_virt r) (of_nat (i * 2 ^ ?s)) = Some v" "VirtAddr_ok v"
    "unat (virt_bits v) = unat (virt_bits (vr_start_virt r)) + i * 2 ^ ?s" "i * 2 ^ ?s < 2 ^ 47"
    "VirtAddr_sub v (vr_start_virt r) = Some (of_nat (i * 2 ^ ?s))"
    by metis
  have "ushl i ?s = Some (i * 2 ^ ?s)" using s v(4) by (auto simp: ushl_def)
  then show thesis using that v by (simp only: vrange_addr_def)
qed

lemma vrange_alloc_ok:
  assumes r: "vrange_ok r" and n: "n < usize_max"
  shows "\<exists>res r'. VirtualRange_alloc n align r = Some (res, r') \<and> vrange_ok r'
    \<and> (case res of
         Err e \<Rightarrow> e = SvsmError_Mem \<and> r' = r
           \<and> (align < 10 \<longrightarrow> (\<forall>p. \<not> fits (vrange_used r) (vr_page_count r) (n + 1) align p))
       | Ok v \<Rightarrow> \<exists>p. fits (vrange_used r) (vr_page_count r) (n + 1) align p
           \<and> unat (virt_bits v) = vrange_addr r p \<and> VirtAddr_ok v
           \<and> VirtAddr_sub v (vr_start_virt r) = Some (of_nat (p * 2 ^ vr_page_shift r))
           \<and> same_window r r'
           \<and> vrange_used r' = set_range (vrange_used r) p (n + 1) True)"
proof -
  have inv: "BitmapAllocator1024_invar (vr_bits r)" using r by (simp add: vrange_ok_def)
  have log: "ilog2 1024 = 10" using ilog2_exp [of 10] by simp
  have small: "fits (vrange_used r) (vr_page_count r) k align p = fits (vrange_used r) 1024 k align p"
    if "0 < k" for k p
  proof -
    have "p + k \<le> vr_page_count r" if "fits (vrange_used r) 1024 k align p"
    proof (rule ccontr)
      assume "\<not> p + k \<le> vr_page_count r"
      then have "p + k - 1 \<in> {vr_page_count r ..< 1024}"
        using that \<open>0 < k\<close> by (auto simp: fits_def)
      then have "vrange_used r (p + k - 1)" using r by (simp add: vrange_ok_def)
      moreover have "\<not> vrange_used r (p + k - 1)" using that \<open>0 < k\<close> by (auto simp: fits_def)
      ultimately show False by simp
    qed
    moreover have "vr_page_count r \<le> 1024" using r by (simp add: vrange_ok_def)
    ultimately show ?thesis by (auto simp: fits_def)
  qed
  from bm1024.alloc_spec [OF inv, of "n + 1" align] n obtain found b' where
    a: "ba_alloc BitmapAllocator1024_ops (vr_bits r) (n + 1) align = Some (found, b')"
      "BitmapAllocator1024_invar b'"
    and f: "case found of
         None \<Rightarrow> b' = vr_bits r \<and> (align < 10 \<longrightarrow> (\<forall>p. \<not> fits (vrange_used r) 1024 (n + 1) align p))
       | Some p \<Rightarrow> fits (vrange_used r) 1024 (n + 1) align p
           \<and> bits1024_used b' = set_range (vrange_used r) p (n + 1) True"
    by (auto simp: log vrange_used_def split: option.splits)
  have u: "uadd n 1 = Some (n + 1)" using n by simp
  show ?thesis
  proof (cases found)
    case None
    with f have "b' = vr_bits r" by simp
    with None f a u r show ?thesis
      by (auto simp: VirtualRange_alloc_def small)
  next
    case (Some p)
    with f have fit: "fits (vrange_used r) (vr_page_count r) (n + 1) align p"
      and b': "bits1024_used b' = set_range (vrange_used r) p (n + 1) True" by (simp_all add: small)
    then have "p \<le> vr_page_count r" by (simp add: fits_def)
    then obtain off v where p: "ushl p (vr_page_shift r) = Some off" "off = p * 2 ^ vr_page_shift r"
      "VirtAddr_add (vr_start_virt r) (of_nat off) = Some v" "VirtAddr_ok v"
      "unat (virt_bits v) = vrange_addr r p" "VirtAddr_sub v (vr_start_virt r) = Some (of_nat off)"
      using vrange_page [OF r] by metis
    have "vrange_ok (r\<lparr>vr_bits := b'\<rparr>)"
      using r a(2) b' fit by (auto simp: vrange_ok_def vrange_used_def set_range_def)
    with Some a u p fit b' show ?thesis
      by (auto simp: VirtualRange_alloc_def vrange_used_def same_window_def)
  qed
qed

lemma vrange_free_ok:
  assumes r: "vrange_ok r" and n: "n < usize_max"
    and v: "VirtAddr_sub v (vr_start_virt r) = Some (of_nat (p * 2 ^ vr_page_shift r))"
    and p: "p + (n + 1) \<le> vr_page_count r"
  shows "\<exists>r'. VirtualRange_free r v n = Some r' \<and> vrange_ok r' \<and> same_window r r'
    \<and> vrange_used r' = set_range (vrange_used r) p (n + 1) False"
proof -
  let ?s = "vr_page_shift r"
  have s: "?s < 64" and pc: "vr_page_count r \<le> 1024" and inv: "BitmapAllocator1024_invar (vr_bits r)"
    using r by (auto simp: vrange_ok_def PAGE_SHIFT_def PAGE_SHIFT_2M_def)
  obtain off where "ushl p ?s = Some off" and off: "off = p * 2 ^ ?s" "off < 2 ^ 47"
    using vrange_page [OF r, of p] p by auto
  then have u: "unat (of_nat off :: u64) = off" by (intro unat_of_nat_u64) simp
  have d: "unat (drop_bit ?s (of_nat off :: u64)) = p"
    by (simp only: unat_drop_bit_eq u) (simp add: off(1) drop_bit_eq_div)
  from bm1024.set_ok [OF inv, of "n + 1" p False] p pc obtain b' where b':
    "ba_set BitmapAllocator1024_ops (vr_bits r) p (n + 1) False = Some b'"
    "BitmapAllocator1024_invar b'" "bits1024_used b' = set_range (vrange_used r) p (n + 1) False"
    by (auto simp: vrange_used_def)
  have "uadd n 1 = Some (n + 1)" using n by simp
  then have "VirtualRange_free r v n = Some (r\<lparr>vr_bits := b'\<rparr>)"
    using v s d b'(1) off(1) by (simp add: VirtualRange_free_def ba_free_def)
  moreover have "vrange_ok (r\<lparr>vr_bits := b'\<rparr>)"
    using r b' p by (auto simp: vrange_ok_def vrange_used_def set_range_def)
  ultimately show ?thesis using b' by (auto simp: vrange_used_def same_window_def)
qed

lemma vrange_init_ok:
  assumes "VirtAddr_ok start" and "shift \<in> {PAGE_SHIFT, PAGE_SHIFT_2M}" and "0 < n" "n \<le> 1024"
    and "in_half (virt_bits start) (n * 2 ^ shift)"
  shows "\<exists>r. VirtualRange_init VirtualRange_new start n shift = Some r \<and> vrange_ok r
    \<and> vr_start_virt r = start \<and> vr_page_count r = n \<and> vr_page_shift r = shift
    \<and> vrange_used r = (\<lambda>i. n \<le> i \<and> i < 1024)"
proof -
  from bm1024.set_ok [OF BitmapAllocatorTree_new_invar(2) assms(3), of 0 False] assms(4) obtain b' where b':
    "ba_set BitmapAllocator1024_ops BitmapAllocatorTree_new_full 0 n False = Some b'"
    "BitmapAllocator1024_invar b'"
    "bits1024_used b' = set_range (bits1024_used BitmapAllocatorTree_new_full) 0 n False" by auto
  then have "bits1024_used b' = (\<lambda>i. n \<le> i \<and> i < 1024)"
    using assms(4) by (auto simp: set_range_def BitmapAllocatorTree_new_used fun_eq_iff)
  with assms b'(1,2) show ?thesis
    by (auto simp: VirtualRange_init_def VirtualRange_new_def vrange_ok_def vrange_used_def)
qed

text \<open>The memory region of an allocation ends where its guard page starts.\<close>

lemma vrange_region:
  assumes r: "vrange_ok r" and p: "p + n \<le> vr_page_count r"
    and v: "VirtAddr_ok v" "unat (virt_bits v) = vrange_addr r p"
    and sz: "unat sz = n * 2 ^ vr_page_shift r"
  shows "\<exists>reg. MemoryRegion_new VirtAddr_ops v sz = Some reg \<and> mr_start reg = v
    \<and> MemoryRegion_len VirtAddr_ops reg = sz \<and> unat (virt_bits (mr_end reg)) = vrange_addr r (p + n)"
proof -
  obtain e where e: "VirtAddr_ok e" "unat (virt_bits e) = vrange_addr r (p + n)"
    using vrange_page [OF r p] by metis
  have sum: "unat (virt_bits v) + unat sz = unat (virt_bits e)"
    by (simp add: v(2) e(2) sz vrange_addr_def algebra_simps)
  then have w: "wadd (virt_bits v) sz = Some (virt_bits v + sz)"
    using unat_lt_u64 [of "virt_bits e"] by (simp add: wadd_def)
  then have eq: "virt_bits v + sz = virt_bits e"
    using unat_wadd [OF w] sum by (simp add: word_unat_eq_iff)
  then have "MemoryRegion_new VirtAddr_ops v sz = Some \<lparr> mr_start = v, mr_end = e \<rparr>"
    using w e(1) by (cases e) (simp add: MemoryRegion_new_def VirtAddr_ops_def VirtAddr_from_def
        sign_extend_canonical)
  moreover have "virt_bits v \<le> virt_bits e" using sum by (simp add: word_le_nat_alt)
  moreover have "virt_bits e - virt_bits v = sz" using eq by (simp add: algebra_simps)
  ultimately show ?thesis using e(2)
    by (simp add: MemoryRegion_len_def VirtAddr_ops_def wsub_sat_def)
qed

lemma vrange_alloc_Ok:
  assumes "vrange_ok r" and "n < usize_max" and "align < 10"
    and "fits (vrange_used r) (vr_page_count r) (n + 1) align p"
  obtains v r' q where "VirtualRange_alloc n align r = Some (Ok v, r')" and "vrange_ok r'"
    and "same_window r r'" and "vrange_used r' = set_range (vrange_used r) q (n + 1) True"
  using vrange_alloc_ok [OF assms(1,2), of align] assms(3,4)
  by (cases "VirtualRange_alloc n align r" rule: outcome_cases) auto

lemma vrange_example:
  obtains r where "VirtualRange_init VirtualRange_new (VirtAddr 0x1000000) 1024 PAGE_SHIFT = Some r"
    and "vrange_ok r" and "vr_page_count r = 1024" and "vrange_used r = (\<lambda>i. False)"
    and "vr_page_shift r = PAGE_SHIFT"
  using vrange_init_ok [of "VirtAddr 0x1000000" PAGE_SHIFT 1024]
  by (force simp: canonical_unat PAGE_SHIFT_def in_half_def fun_eq_iff)

section \<open>Sequences of calls\<close>

text \<open>
  \<open>vrange_run r0 live r\<close>: the window \<open>r\<close> is reached from \<open>r0\<close> by allocations and by frees of live
  ranges; \<open>live\<close> has the address, the page count and the alignment of each live range.
\<close>

inductive vrange_run :: "VirtualRange \<Rightarrow> (VirtAddr \<times> nat \<times> nat) list \<Rightarrow> VirtualRange \<Rightarrow> bool" for r0 where
  vrange_run_start: "vrange_run r0 [] r0"
| vrange_run_alloc: "vrange_run r0 live r \<Longrightarrow> n < usize_max \<Longrightarrow> VirtualRange_alloc n a r = Some (Ok v, r') \<Longrightarrow>
    vrange_run r0 ((v, n, a) # live) r'"
| vrange_run_free: "vrange_run r0 (xs @ (v, n, a) # ys) r \<Longrightarrow> VirtualRange_free r v n = Some r' \<Longrightarrow>
    vrange_run r0 (xs @ ys) r'"

text \<open>The page of the window that an address lies in, and what holds of a live range.\<close>

definition vrange_index :: "VirtualRange \<Rightarrow> VirtAddr \<Rightarrow> nat" where
  "vrange_index r v = (unat (virt_bits v) - vrange_addr r 0) div 2 ^ vr_page_shift r"

lemma vrange_index_addr: "unat (virt_bits v) = vrange_addr r p \<Longrightarrow> vrange_index r v = p"
  by (simp add: vrange_index_def vrange_addr_def)

definition live_ok :: "VirtualRange \<Rightarrow> VirtAddr \<times> nat \<times> nat \<Rightarrow> bool" where
  "live_ok r = (\<lambda>(v, n, a). let p = vrange_index r v in n < usize_max
     \<and> VirtAddr_sub v (vr_start_virt r) = Some (of_nat (p * 2 ^ vr_page_shift r))
     \<and> unat (virt_bits v) = vrange_addr r p \<and> 2 ^ a dvd p \<and> p + (n + 1) \<le> vr_page_count r
     \<and> (\<forall>i. p \<le> i \<and> i < p + (n + 1) \<longrightarrow> vrange_used r i))"

definition live_apart :: "VirtualRange \<Rightarrow> VirtAddr \<times> nat \<times> nat \<Rightarrow> VirtAddr \<times> nat \<times> nat \<Rightarrow> bool" where
  "live_apart r = (\<lambda>(v1, n1, a1) (v2, n2, a2).
     vrange_index r v1 + (n1 + 1) \<le> vrange_index r v2 \<or> vrange_index r v2 + (n2 + 1) \<le> vrange_index r v1)"

definition live_inv :: "VirtualRange \<Rightarrow> (VirtAddr \<times> nat \<times> nat) list \<Rightarrow> VirtualRange \<Rightarrow> bool" where
  "live_inv r0 live r \<longleftrightarrow> vrange_ok r \<and> same_window r0 r \<and> list_all (live_ok r) live \<and> sorted_wrt (live_apart r) live"

lemma same_window_index:
  assumes "same_window r r'"
  shows "vrange_index r' = vrange_index r" "live_apart r' = live_apart r" "vrange_addr r' = vrange_addr r"
  using assms by (simp_all add: same_window_def vrange_index_def live_apart_def vrange_addr_def fun_eq_iff)

lemma live_ok_cong:
  assumes "same_window r r'" and "live_ok r (v, n, a)"
    and "\<And>i. vrange_index r v \<le> i \<Longrightarrow> i < vrange_index r v + (n + 1) \<Longrightarrow> vrange_used r i \<Longrightarrow> vrange_used r' i"
  shows "live_ok r' (v, n, a)"
  using assms unfolding live_ok_def by (simp add: Let_def same_window_index [OF assms(1)] same_window_def)

lemma apart_addr:
  assumes "list_all (live_ok r) live" and "(v1, n1, a1) \<in> set live" "(v2, n2, a2) \<in> set live"
    and "live_apart r (v1, n1, a1) (v2, n2, a2)"
  shows "unat (virt_bits v1) + (n1 + 1) * 2 ^ vr_page_shift r \<le> unat (virt_bits v2)
    \<or> unat (virt_bits v2) + (n2 + 1) * 2 ^ vr_page_shift r \<le> unat (virt_bits v1)"
proof -
  have mono: "vrange_addr r x + k * 2 ^ vr_page_shift r \<le> vrange_addr r y" if "x + k \<le> y" for x y k
    using mult_le_mono1 [OF that, of "2 ^ vr_page_shift r"] by (simp add: vrange_addr_def algebra_simps)
  have e: "unat (virt_bits v1) = vrange_addr r (vrange_index r v1)" "unat (virt_bits v2) = vrange_addr r (vrange_index r v2)"
    using assms(1-3) by (auto simp: list_all_iff live_ok_def Let_def)
  show ?thesis using assms(4) mono unfolding e live_apart_def by blast
qed

lemma live_inv_alloc:
  assumes inv: "live_inv r0 live r" and n: "n < usize_max" and a: "VirtualRange_alloc n a r = Some (Ok v, r')"
  shows "live_inv r0 ((v, n, a) # live) r'"
proof -
  have ok: "vrange_ok r" using inv by (simp add: live_inv_def)
  from vrange_alloc_ok [OF ok n, of a] a obtain p where r': "vrange_ok r'" "same_window r r'"
    and p: "fits (vrange_used r) (vr_page_count r) (n + 1) a p" "unat (virt_bits v) = vrange_addr r p"
    "VirtAddr_sub v (vr_start_virt r) = Some (of_nat (p * 2 ^ vr_page_shift r))"
    and used: "vrange_used r' = set_range (vrange_used r) p (n + 1) True" by auto
  note same = same_window_index [OF r'(2)]
  have i: "vrange_index r v = p" by (rule vrange_index_addr [OF p(2)])
  have new: "live_ok r' (v, n, a)"
    using p n i r'(2) by (simp add: live_ok_def same used set_range_def fits_def same_window_def)
  have old: "live_ok r' x \<and> live_apart r' (v, n, a) x" if x: "x \<in> set live" for x
  proof -
    obtain w m b where x': "x = (w, m, b)" by (cases x)
    then have l: "live_ok r (w, m, b)" using inv x by (simp add: live_inv_def list_all_iff)
    have "live_ok r' (w, m, b)"
      by (rule live_ok_cong [OF r'(2) l]) (simp add: used set_range_def)
    moreover have "p + (n + 1) \<le> vrange_index r w \<or> vrange_index r w + (m + 1) \<le> p"
    proof (rule ccontr)
      assume "\<not> ?thesis"
      then have m: "max p (vrange_index r w) < p + (n + 1)" "max p (vrange_index r w) < vrange_index r w + (m + 1)" by auto
      then have "vrange_used r (max p (vrange_index r w))" using l by (simp add: live_ok_def Let_def)
      then show False using p(1) m(1) by (simp add: fits_def)
    qed
    ultimately show ?thesis by (simp add: x' same live_apart_def i)
  qed
  have "same_window r0 r'" using inv r'(2) by (simp add: live_inv_def same_window_def)
  then show ?thesis using inv r'(1) new old by (simp add: live_inv_def list_all_iff same(2))
qed

lemma live_inv_free:
  assumes inv: "live_inv r0 (xs @ (v, n, a) # ys) r" and f: "VirtualRange_free r v n = Some r'"
  shows "live_inv r0 (xs @ ys) r'"
proof -
  let ?p = "vrange_index r v"
  have ok: "vrange_ok r" and l: "live_ok r (v, n, a)" using inv by (simp_all add: live_inv_def)
  from l have p: "n < usize_max" "VirtAddr_sub v (vr_start_virt r) = Some (of_nat (?p * 2 ^ vr_page_shift r))"
    "?p + (n + 1) \<le> vr_page_count r" by (simp_all add: live_ok_def Let_def)
  from vrange_free_ok [OF ok p] f have r': "vrange_ok r'" "same_window r r'"
    "vrange_used r' = set_range (vrange_used r) ?p (n + 1) False" by auto
  have "live_ok r' x" if x: "x \<in> set (xs @ ys)" for x
  proof -
    obtain w m b where x': "x = (w, m, b)" by (cases x)
    have apart: "?p + (n + 1) \<le> vrange_index r w \<or> vrange_index r w + (m + 1) \<le> ?p"
      using inv x by (auto simp: x' live_inv_def sorted_wrt_append live_apart_def)
    have "live_ok r (w, m, b)" using inv x x' by (auto simp: live_inv_def list_all_iff)
    then show ?thesis unfolding x'
      by (rule live_ok_cong [OF r'(2)]) (use apart in \<open>auto simp: r'(3) set_range_def\<close>)
  qed
  moreover have "same_window r0 r'" using inv r'(2) by (simp add: live_inv_def same_window_def)
  ultimately show ?thesis using inv r'(1)
    by (simp add: live_inv_def list_all_iff sorted_wrt_append same_window_index(2) [OF r'(2)])
qed

lemma vrange_run_inv:
  assumes "vrange_run r0 live r" and "vrange_ok r0"
  shows "live_inv r0 live r"
  using assms(1)
proof induction
  case vrange_run_start
  then show ?case using assms(2) by (simp add: live_inv_def same_window_def)
qed (auto intro: live_inv_alloc live_inv_free)

section \<open>Properties\<close>

text \<open>
  C33. Ranges that are live at the same time never share a page.  In every sequence of
  \<open>VirtualRange::alloc\<close> and \<open>VirtualRange::free\<close> calls that frees only live ranges, each live range
  of \<open>page_count\<close> pages, together with the guard page behind it, lies inside the window, starts at
  a page of the window whose index is a multiple of \<open>2 ^ alignment\<close>, and is strictly before or
  strictly after every other live range; freeing a live range does not panic.
\<close>

theorem vrange_alloc_separated:
  assumes "vrange_ok r0" and "vrange_run r0 live r"
  shows "(\<forall>(v, n, a) \<in> set live.
        (\<exists>p. unat (virt_bits v) = vrange_addr r0 p \<and> 2 ^ a dvd p \<and> p + (n + 1) \<le> vr_page_count r0)
        \<and> VirtualRange_free r v n \<noteq> None)
    \<and> sorted_wrt (\<lambda>(v1, n1, a1) (v2, n2, a2).
        unat (virt_bits v1) + (n1 + 1) * 2 ^ vr_page_shift r0 \<le> unat (virt_bits v2)
        \<or> unat (virt_bits v2) + (n2 + 1) * 2 ^ vr_page_shift r0 \<le> unat (virt_bits v1)) live"
proof -
  note inv = vrange_run_inv [OF assms(2,1)]
  have ok: "vrange_ok r" and same: "same_window r0 r" and all: "list_all (live_ok r) live"
    and dis: "sorted_wrt (live_apart r) live" using inv by (simp_all add: live_inv_def)
  have addr: "vrange_addr r = vrange_addr r0" using same by (simp add: vrange_addr_def same_window_def fun_eq_iff)
  have one: "(\<exists>p. unat (virt_bits v) = vrange_addr r0 p \<and> 2 ^ a dvd p \<and> p + (n + 1) \<le> vr_page_count r0)
      \<and> VirtualRange_free r v n \<noteq> None" if "(v, n, a) \<in> set live" for v n a
  proof -
    have l: "live_ok r (v, n, a)" using all that by (simp add: list_all_iff)
    then obtain r' where "VirtualRange_free r v n = Some r'"
      using vrange_free_ok [OF ok, of n v "vrange_index r v"] by (auto simp: live_ok_def Let_def)
    then show ?thesis using l same by (auto simp: live_ok_def addr same_window_def Let_def)
  qed
  have "sorted_wrt (\<lambda>(v1, n1, a1) (v2, n2, a2).
        unat (virt_bits v1) + (n1 + 1) * 2 ^ vr_page_shift r0 \<le> unat (virt_bits v2)
        \<or> unat (virt_bits v2) + (n2 + 1) * 2 ^ vr_page_shift r0 \<le> unat (virt_bits v1)) live"
    using sorted_wrt_mono_rel [OF _ dis] apart_addr [OF all] same unfolding same_window_def by fastforce
  with one show ?thesis by blast
qed

text \<open>Two live ranges, the second aligned to sixteen pages.\<close>

theorem vrange_alloc_separated_witness:
  "\<exists>r r2 v1 v2. VirtualRange_init VirtualRange_new (VirtAddr 0x1000000) 1024 PAGE_SHIFT = Some r
     \<and> vrange_run r [(v2, 12, 4), (v1, 12, 0)] r2 \<and> VirtualRange_free r2 v1 12 \<noteq> None
     \<and> (unat (virt_bits v2) + 13 * 4096 \<le> unat (virt_bits v1)
        \<or> unat (virt_bits v1) + 13 * 4096 \<le> unat (virt_bits v2))"
proof -
  obtain r where r: "VirtualRange_init VirtualRange_new (VirtAddr 0x1000000) 1024 PAGE_SHIFT = Some r"
    "vrange_ok r" "vr_page_count r = 1024" "vrange_used r = (\<lambda>i. False)" "vr_page_shift r = PAGE_SHIFT"
    by (rule vrange_example)
  have n: "(12::nat) < usize_max" by (simp add: usize_max_eq)
  obtain v1 r1 q where a1: "VirtualRange_alloc 12 0 r = Some (Ok v1, r1)" "vrange_ok r1"
    "same_window r r1" "vrange_used r1 = set_range (vrange_used r) q (12 + 1) True"
    by (rule vrange_alloc_Ok [OF r(2) n, of 0 0]) (simp_all add: fits_def r)
  have "fits (vrange_used r1) (vr_page_count r1) (12 + 1) 4 (if 512 \<le> q then 0 else 768)"
    using a1(3) by (auto simp: fits_def a1(4) r set_range_def same_window_def)
  then obtain v2 r2 where a2: "VirtualRange_alloc 12 4 r1 = Some (Ok v2, r2)"
    by (rule vrange_alloc_Ok [OF a1(2) n, of 4, rotated]) simp_all
  have run: "vrange_run r [(v2, 12, 4), (v1, 12, 0)] r2"
    using vrange_run_alloc [OF vrange_run_alloc [OF vrange_run_start n a1(1)] n a2] .
  show ?thesis
    using vrange_alloc_separated [OF r(2) run] r(1) run by (auto simp: r(5) PAGE_SHIFT_def)
qed

lemma aligned_pages:
  "sz AND mask k = 0 \<Longrightarrow> unat sz = unat (drop_bit k sz) * 2 ^ k" for sz :: u64
proof -
  assume "sz AND mask k = 0"
  then have "unat sz mod 2 ^ k = 0" by (metis unat_and_mask unsigned_0)
  then show ?thesis
    by (simp only: unat_drop_bit_div) (simp add: mod_eq_0_iff_dvd)
qed

lemma vrange_new_drop:
  assumes r: "vrange_ok r" and sz: "sz AND mask (vr_page_shift r) = 0"
    and n: "n = unat (drop_bit (vr_page_shift r) sz)"
    and a: "VirtualRange_alloc n align r = Some (Ok v, r')"
  shows "\<exists>reg r''. MemoryRegion_new VirtAddr_ops v sz = Some reg \<and> mr_start reg = v
    \<and> MemoryRegion_len VirtAddr_ops reg = sz \<and> VirtualRange_free r' v n = Some r''
    \<and> vrange_ok r'' \<and> vr_page_shift r'' = vr_page_shift r \<and> vrange_used r'' = vrange_used r"
proof -
  have "n \<le> unat sz"
    unfolding n by (simp only: unat_drop_bit_div div_le_dividend)
  moreover have "n < usize_max"
  proof (rule ccontr)
    assume "\<not> n < usize_max"
    with a show False
      using unat_lt_u64 [of "drop_bit (vr_page_shift r) sz"]
      by (auto simp: VirtualRange_alloc_def n usize_max_eq bind_eq_Some_conv)
  qed
  ultimately obtain p where ok': "vrange_ok r'"
    and p: "fits (vrange_used r) (vr_page_count r) (n + 1) align p"
    "unat (virt_bits v) = vrange_addr r p" "VirtAddr_ok v"
    "VirtAddr_sub v (vr_start_virt r) = Some (of_nat (p * 2 ^ vr_page_shift r))"
    "same_window r r'"
    "vrange_used r' = set_range (vrange_used r) p (n + 1) True"
    using vrange_alloc_ok [OF r, of n align] a by auto
  have same: "vr_page_count r' = vr_page_count r" "vr_start_virt r' = vr_start_virt r"
    "vr_page_shift r' = vr_page_shift r"
    using p(5) by (simp_all add: same_window_def)
  have "p + (n + 1) \<le> vr_page_count r" using p(1) by (simp add: fits_def)
  then have "\<exists>r''. VirtualRange_free r' v n = Some r'' \<and> vrange_ok r'' \<and> same_window r' r''
      \<and> vrange_used r'' = set_range (vrange_used r') p (n + 1) False"
    using \<open>n < usize_max\<close> p(4) by (intro vrange_free_ok [OF ok']) (simp_all add: same)
  then obtain r'' where f: "VirtualRange_free r' v n = Some r''" "vrange_ok r''"
    "same_window r' r''" "vrange_used r'' = set_range (vrange_used r') p (n + 1) False"
    by blast
  have "vrange_used r'' = vrange_used r"
    using p(1) by (auto simp: f(4) p(6) set_range_def fits_def fun_eq_iff)
  moreover have "vr_page_shift r'' = vr_page_shift r" using f(3) same by (simp add: same_window_def)
  moreover have "\<exists>reg. MemoryRegion_new VirtAddr_ops v sz = Some reg \<and> mr_start reg = v
    \<and> MemoryRegion_len VirtAddr_ops reg = sz \<and> unat (virt_bits (mr_end reg)) = vrange_addr r (p + n)"
    using p(1) aligned_pages [OF sz] by (intro vrange_region [OF r _ p(3,2)]) (simp_all add: fits_def n)
  ultimately show ?thesis using f(1,2) by blast
qed

definition cpu_vranges_ok :: "cpu_vranges \<Rightarrow> bool" where
  "cpu_vranges_ok cpu \<longleftrightarrow> vrange_ok (vrange_4k cpu) \<and> vr_page_shift (vrange_4k cpu) = PAGE_SHIFT
     \<and> vrange_ok (vrange_2m cpu) \<and> vr_page_shift (vrange_2m cpu) = PAGE_SHIFT_2M"

lemma page_size_masks:
  "PAGE_SIZE_W - 1 = mask PAGE_SHIFT" "of_nat PAGE_SIZE_2M - 1 = (mask PAGE_SHIFT_2M :: u64)"
  by (simp_all add: page_consts mask_eq_exp_minus_1)

text \<open>
  C34. Dropping a \<open>VRangeAlloc\<close> gives back exactly what \<open>new_4k\<close> or \<open>new_2m\<close> took: when the
  constructor succeeds, the region it returns has exactly the requested size, and its drop does
  not panic and restores the used pages of both windows.
\<close>

theorem VRangeAlloc_new_drop:
  assumes "cpu_vranges_ok cpu"
    and "(if huge then VRangeAlloc_new_2m size' align cpu else VRangeAlloc_new_4k size' align cpu)
           = Some (Ok va, cpu')"
  shows "MemoryRegion_len VirtAddr_ops (va_region va) = size' \<and> va_huge va = huge
    \<and> (\<exists>cpu''. VRangeAlloc_drop va cpu' = Some cpu'' \<and> cpu_vranges_ok cpu''
         \<and> vrange_used (vrange_4k cpu'') = vrange_used (vrange_4k cpu)
         \<and> vrange_used (vrange_2m cpu'') = vrange_used (vrange_2m cpu))"
proof (cases huge)
  case True
  with assms obtain v r reg where sz: "size' AND mask PAGE_SHIFT_2M = 0"
    and a: "VirtualRange_alloc (unat (drop_bit PAGE_SHIFT_2M size')) align (vrange_2m cpu) = Some (Ok v, r)"
    and reg: "MemoryRegion_new VirtAddr_ops v size' = Some reg"
    and va: "va = \<lparr> va_region = reg, va_huge = True \<rparr>" "cpu' = cpu\<lparr>vrange_2m := r\<rparr>"
    by (cases "VirtualRange_alloc (unat (drop_bit PAGE_SHIFT_2M size')) align (vrange_2m cpu)" rule: outcome_cases)
      (auto simp: VRangeAlloc_new_2m_def page_size_masks bind_eq_Some_conv split: if_split_asm)
  have ok: "vrange_ok (vrange_2m cpu)" "vr_page_shift (vrange_2m cpu) = PAGE_SHIFT_2M"
    using assms(1) by (simp_all add: cpu_vranges_ok_def)
  from vrange_new_drop [OF ok(1), unfolded ok(2), OF sz refl a] reg obtain r'' where
    "mr_start reg = v" "MemoryRegion_len VirtAddr_ops reg = size'"
    "VirtualRange_free r v (unat (drop_bit PAGE_SHIFT_2M size')) = Some r''"
    "vrange_ok r''" "vr_page_shift r'' = PAGE_SHIFT_2M" "vrange_used r'' = vrange_used (vrange_2m cpu)"
    by (metis option.inject)
  with True va assms(1) show ?thesis by (simp add: VRangeAlloc_drop_def cpu_vranges_ok_def)
next
  case False
  with assms obtain v r reg where sz: "size' AND mask PAGE_SHIFT = 0"
    and a: "VirtualRange_alloc (unat (drop_bit PAGE_SHIFT size')) align (vrange_4k cpu) = Some (Ok v, r)"
    and reg: "MemoryRegion_new VirtAddr_ops v size' = Some reg"
    and va: "va = \<lparr> va_region = reg, va_huge = False \<rparr>" "cpu' = cpu\<lparr>vrange_4k := r\<rparr>"
    by (cases "VirtualRange_alloc (unat (drop_bit PAGE_SHIFT size')) align (vrange_4k cpu)" rule: outcome_cases)
      (auto simp: VRangeAlloc_new_4k_def page_size_masks bind_eq_Some_conv split: if_split_asm)
  have ok: "vrange_ok (vrange_4k cpu)" "vr_page_shift (vrange_4k cpu) = PAGE_SHIFT"
    using assms(1) by (simp_all add: cpu_vranges_ok_def)
  from vrange_new_drop [OF ok(1), unfolded ok(2), OF sz refl a] reg obtain r'' where
    "mr_start reg = v" "MemoryRegion_len VirtAddr_ops reg = size'"
    "VirtualRange_free r v (unat (drop_bit PAGE_SHIFT size')) = Some r''"
    "vrange_ok r''" "vr_page_shift r'' = PAGE_SHIFT" "vrange_used r'' = vrange_used (vrange_4k cpu)"
    by (metis option.inject)
  with False va assms(1) show ?thesis by (simp add: VRangeAlloc_drop_def cpu_vranges_ok_def)
qed

theorem VRangeAlloc_new_drop_witness:
  "\<exists>cpu cpu' va cpu''. cpu_vranges_ok cpu \<and> VRangeAlloc_new_4k 0x3000 0 cpu = Some (Ok va, cpu')
     \<and> MemoryRegion_len VirtAddr_ops (va_region va) = 0x3000
     \<and> VRangeAlloc_drop va cpu' = Some cpu''
     \<and> vrange_used (vrange_4k cpu'') = vrange_used (vrange_4k cpu)"
proof -
  obtain r where r: "vrange_ok r" "vr_page_count r = 1024" "vrange_used r = (\<lambda>i. False)"
    "vr_page_shift r = PAGE_SHIFT"
    by (rule vrange_example)
  obtain s where s: "vrange_ok s" "vr_page_shift s = PAGE_SHIFT_2M"
    using vrange_init_ok [of "VirtAddr 0x1000000" PAGE_SHIFT_2M 1024]
    by (force simp: canonical_unat PAGE_SHIFT_2M_def in_half_def)
  let ?cpu = "\<lparr> vrange_4k = r, vrange_2m = s \<rparr>"
  have n: "unat (drop_bit PAGE_SHIFT (0x3000 :: u64)) = 3" by (simp add: PAGE_SHIFT_def)
  obtain v r' q where a: "VirtualRange_alloc 3 0 r = Some (Ok v, r')"
    by (rule vrange_alloc_Ok [OF r(1), of 3 0 0]) (simp_all add: fits_def r usize_max_eq)
  have sz: "(0x3000 :: u64) AND mask (vr_page_shift r) = 0"
    by (simp add: r PAGE_SHIFT_def mask_eq_exp_minus_1)
  from vrange_new_drop [OF r(1) sz _ a] obtain reg where
    "MemoryRegion_new VirtAddr_ops v 0x3000 = Some reg" using n by (auto simp: r)
  then have new: "VRangeAlloc_new_4k 0x3000 0 ?cpu
      = Some (Ok \<lparr> va_region = reg, va_huge = False \<rparr>, ?cpu\<lparr>vrange_4k := r'\<rparr>)"
    using a sz by (simp add: VRangeAlloc_new_4k_def page_size_masks r(4) n)
  moreover have ok: "cpu_vranges_ok ?cpu" using r s by (simp add: cpu_vranges_ok_def)
  ultimately show ?thesis
    using VRangeAlloc_new_drop [OF ok, of False "0x3000" 0] by fastforce
qed

end
