(* ===== verification/Page_Info.thy ===== *)
theory Page_Info
  imports Svsm_Error
begin

unbundle bit_operations_syntax

text \<open>
  The per-page metadata of the physical page allocator (first part of
  \<open>kernel/src/mm/alloc.rs\<close>).  Each page of the heap has one 64-bit \<open>PageStorageType\<close> word:
  four type bits and, depending on the type, an order, the next page of a free list, the item
  size of a slab page or the reference count of a file page.  \<open>PageInfo\<close> is the decoded
  form; encoding and decoding are inverse on every value the allocator stores.
\<close>

section \<open>Constants and orders\<close>

definition MAX_ORDER :: nat where "MAX_ORDER = 6"

definition NO_PAGE :: nat where "NO_PAGE = usize_max"

text \<open>\<open>usize::checked_next_power_of_two\<close>.\<close>

definition checked_next_power_of_two :: "nat \<Rightarrow> nat option" where
  "checked_next_power_of_two size' =
     (let p = (if size' \<le> 1 then 1 else 2 * 2 ^ ilog2 (size' - 1)) in
      if p \<le> usize_max then Some p else None)"

definition get_order :: "nat \<Rightarrow> nat" where
  "get_order size' =
     (case checked_next_power_of_two size' of
        Some v \<Rightarrow> ilog2 v
      | None \<Rightarrow> 64) - PAGE_SHIFT"

section \<open>Page types\<close>

datatype PageType = PageType_Free | PageType_Allocated | PageType_SlabPage | PageType_Compound
  | PageType_File | PageType_Reserved

definition TYPE_SHIFT :: nat where "TYPE_SHIFT = 4"
definition TYPE_MASK :: u64 where "TYPE_MASK = push_bit TYPE_SHIFT 1 - 1"
definition NEXT_SHIFT :: nat where "NEXT_SHIFT = 12"
definition NEXT_MASK :: u64 where "NEXT_MASK = NOT (push_bit NEXT_SHIFT 1 - 1)"
definition NO_NEXT :: u64 where "NO_NEXT = of_nat NO_PAGE AND NEXT_MASK"
definition ORDER_MASK :: u64 where "ORDER_MASK = push_bit (NEXT_SHIFT - TYPE_SHIFT) 1 - 1"
definition SLAB_MASK :: u64 where "SLAB_MASK = 0xffff"

primrec PageType_as_u64 :: "PageType \<Rightarrow> u64" where
  "PageType_as_u64 PageType_Free = 0"
| "PageType_as_u64 PageType_Allocated = 1"
| "PageType_as_u64 PageType_SlabPage = 2"
| "PageType_as_u64 PageType_Compound = 3"
| "PageType_as_u64 PageType_File = 4"
| "PageType_as_u64 PageType_Reserved = push_bit TYPE_SHIFT 1 - 1"

definition PageType_try_from :: "u64 \<Rightarrow> (PageType, AllocError) result" where
  "PageType_try_from v =
     (if v = PageType_as_u64 PageType_Free then Ok PageType_Free
      else if v = PageType_as_u64 PageType_Allocated then Ok PageType_Allocated
      else if v = PageType_as_u64 PageType_SlabPage then Ok PageType_SlabPage
      else if v = PageType_as_u64 PageType_Compound then Ok PageType_Compound
      else if v = PageType_as_u64 PageType_File then Ok PageType_File
      else if v = PageType_as_u64 PageType_Reserved then Ok PageType_Reserved
      else Err AllocError_InvalidPageType)"

section \<open>Storage words\<close>

datatype PageStorageType = PageStorageType (storage: u64)

definition PageStorageType_new :: "PageType \<Rightarrow> PageStorageType" where
  "PageStorageType_new t = PageStorageType (PageType_as_u64 t)"

definition encode_order :: "PageStorageType \<Rightarrow> nat \<Rightarrow> PageStorageType" where
  "encode_order self order =
     PageStorageType (storage self OR push_bit TYPE_SHIFT (of_nat order AND ORDER_MASK))"

definition encode_next :: "PageStorageType \<Rightarrow> nat \<Rightarrow> PageStorageType" where
  "encode_next self next_page = (
     let page = (if next_page = NO_PAGE then NO_NEXT
                 else push_bit NEXT_SHIFT (of_nat next_page) AND NEXT_MASK)
     in PageStorageType (storage self OR page))"

definition encode_slab :: "PageStorageType \<Rightarrow> u64 \<Rightarrow> PageStorageType" where
  "encode_slab self slab = (
     let item_size = slab AND SLAB_MASK
     in PageStorageType (storage self OR push_bit TYPE_SHIFT item_size))"

definition encode_refcount :: "PageStorageType \<Rightarrow> u64 \<Rightarrow> PageStorageType" where
  "encode_refcount self refcount = PageStorageType (storage self OR push_bit TYPE_SHIFT refcount)"

definition decode_order :: "PageStorageType \<Rightarrow> nat" where
  "decode_order self = unat (drop_bit TYPE_SHIFT (storage self) AND ORDER_MASK)"

definition decode_next :: "PageStorageType \<Rightarrow> nat" where
  "decode_next self = (
     let next = storage self AND NEXT_MASK
     in if next = NO_NEXT then NO_PAGE else unat (drop_bit NEXT_SHIFT next))"

definition decode_slab :: "PageStorageType \<Rightarrow> u64" where
  "decode_slab self = drop_bit TYPE_SHIFT (storage self) AND SLAB_MASK"

definition decode_refcount :: "PageStorageType \<Rightarrow> u64" where
  "decode_refcount self = drop_bit TYPE_SHIFT (storage self)"

definition PageStorageType_page_type :: "PageStorageType \<Rightarrow> (PageType, AllocError) result" where
  "PageStorageType_page_type self = PageType_try_from (storage self AND TYPE_MASK)"

section \<open>Page information\<close>

datatype FreeInfo = FreeInfo (fi_next_page: nat) (fi_order: nat)
datatype AllocatedInfo = AllocatedInfo (ai_order: nat)
datatype SlabPageInfo = SlabPageInfo (si_item_size: u64)
datatype CompoundInfo = CompoundInfo (ci_order: nat)
datatype ReservedInfo = ReservedInfo
datatype FileInfo = FileInfo (file_ref_count: u64)

definition FreeInfo_encode :: "FreeInfo \<Rightarrow> PageStorageType" where
  "FreeInfo_encode self =
     encode_next (encode_order (PageStorageType_new PageType_Free) (fi_order self)) (fi_next_page self)"

definition FreeInfo_decode :: "PageStorageType \<Rightarrow> FreeInfo" where
  "FreeInfo_decode mem = FreeInfo (decode_next mem) (decode_order mem)"

definition AllocatedInfo_encode :: "AllocatedInfo \<Rightarrow> PageStorageType" where
  "AllocatedInfo_encode self = encode_order (PageStorageType_new PageType_Allocated) (ai_order self)"

definition AllocatedInfo_decode :: "PageStorageType \<Rightarrow> AllocatedInfo" where
  "AllocatedInfo_decode mem = AllocatedInfo (decode_order mem)"

definition SlabPageInfo_encode :: "SlabPageInfo \<Rightarrow> PageStorageType" where
  "SlabPageInfo_encode self = encode_slab (PageStorageType_new PageType_SlabPage) (si_item_size self)"

definition SlabPageInfo_decode :: "PageStorageType \<Rightarrow> SlabPageInfo" where
  "SlabPageInfo_decode mem = SlabPageInfo (decode_slab mem)"

definition CompoundInfo_encode :: "CompoundInfo \<Rightarrow> PageStorageType" where
  "CompoundInfo_encode self = encode_order (PageStorageType_new PageType_Compound) (ci_order self)"

definition CompoundInfo_decode :: "PageStorageType \<Rightarrow> CompoundInfo" where
  "CompoundInfo_decode mem = CompoundInfo (decode_order mem)"

definition ReservedInfo_encode :: "ReservedInfo \<Rightarrow> PageStorageType" where
  "ReservedInfo_encode self = PageStorageType_new PageType_Reserved"

definition ReservedInfo_decode :: "PageStorageType \<Rightarrow> ReservedInfo" where
  "ReservedInfo_decode mem = ReservedInfo"

definition FileInfo_new :: "u64 \<Rightarrow> FileInfo" where
  "FileInfo_new ref_count = FileInfo ref_count"

definition FileInfo_encode :: "FileInfo \<Rightarrow> PageStorageType" where
  "FileInfo_encode self = encode_refcount (PageStorageType_new PageType_File) (file_ref_count self)"

definition FileInfo_decode :: "PageStorageType \<Rightarrow> FileInfo" where
  "FileInfo_decode mem = FileInfo (decode_refcount mem)"

datatype PageInfo = PageInfo_Free FreeInfo | PageInfo_Allocated AllocatedInfo
  | PageInfo_Slab SlabPageInfo | PageInfo_Compound CompoundInfo | PageInfo_File FileInfo
  | PageInfo_Reserved ReservedInfo

primrec PageInfo_to_mem :: "PageInfo \<Rightarrow> PageStorageType" where
  "PageInfo_to_mem (PageInfo_Free fi) = FreeInfo_encode fi"
| "PageInfo_to_mem (PageInfo_Allocated ai) = AllocatedInfo_encode ai"
| "PageInfo_to_mem (PageInfo_Slab si) = SlabPageInfo_encode si"
| "PageInfo_to_mem (PageInfo_Compound ci) = CompoundInfo_encode ci"
| "PageInfo_to_mem (PageInfo_File fi) = FileInfo_encode fi"
| "PageInfo_to_mem (PageInfo_Reserved ri) = ReservedInfo_encode ri"

definition PageInfo_from_mem :: "PageStorageType \<Rightarrow> PageInfo option" where
  "PageInfo_from_mem mem = (case PageStorageType_page_type mem of
       Err e \<Rightarrow> None
     | Ok page_type \<Rightarrow> Some (case page_type of
           PageType_Free \<Rightarrow> PageInfo_Free (FreeInfo_decode mem)
         | PageType_Allocated \<Rightarrow> PageInfo_Allocated (AllocatedInfo_decode mem)
         | PageType_SlabPage \<Rightarrow> PageInfo_Slab (SlabPageInfo_decode mem)
         | PageType_Compound \<Rightarrow> PageInfo_Compound (CompoundInfo_decode mem)
         | PageType_File \<Rightarrow> PageInfo_File (FileInfo_decode mem)
         | PageType_Reserved \<Rightarrow> PageInfo_Reserved (ReservedInfo_decode mem)))"

section \<open>Encoding and decoding\<close>

text \<open>The values that fit into the fields of a storage word.\<close>

primrec PageInfo_fits :: "PageInfo \<Rightarrow> bool" where
  "PageInfo_fits (PageInfo_Free fi) \<longleftrightarrow>
     fi_order fi < 256 \<and> (fi_next_page fi = NO_PAGE \<or> fi_next_page fi < 2 ^ 52 - 1)"
| "PageInfo_fits (PageInfo_Allocated ai) \<longleftrightarrow> ai_order ai < 256"
| "PageInfo_fits (PageInfo_Slab si) \<longleftrightarrow> unat (si_item_size si) < 2 ^ 16"
| "PageInfo_fits (PageInfo_Compound ci) \<longleftrightarrow> ci_order ci < 256"
| "PageInfo_fits (PageInfo_File fi) \<longleftrightarrow> unat (file_ref_count fi) < 2 ^ 60"
| "PageInfo_fits (PageInfo_Reserved ri) \<longleftrightarrow> True"

text \<open>A word is built from a type below 16 and a field above it.\<close>

lemma storage_masks:
  "TYPE_MASK = mask 4" "ORDER_MASK = mask 8" "SLAB_MASK = mask 16" "NEXT_MASK = NOT (mask 12)"
  "NO_NEXT = NOT (mask 12)"
proof -
  have m: "push_bit n 1 - 1 = (mask n :: u64)" for n
    by (simp add: push_bit_of_1 mask_eq_exp_minus_1)
  show t: "TYPE_MASK = mask 4" "ORDER_MASK = mask 8" "NEXT_MASK = NOT (mask 12)"
    by (simp_all only: TYPE_MASK_def ORDER_MASK_def NEXT_MASK_def m TYPE_SHIFT_def NEXT_SHIFT_def)
      simp
  show "SLAB_MASK = mask 16" by (simp add: SLAB_MASK_def mask_eq_exp_minus_1)
  have "(of_nat usize_max :: u64) = - 1" by (simp add: usize_max_eq)
  then show "NO_NEXT = NOT (mask 12)" by (simp only: NO_NEXT_def t(3) NO_PAGE_def) simp
qed

lemma low_bits: "unat w < 2 ^ k \<Longrightarrow> bit w n \<Longrightarrow> n < k" for w :: "'a::len word"
proof -
  assume "unat w < 2 ^ k" "bit w n"
  then have "take_bit k w = w" by (simp add: word_unat_eq_iff unsigned_take_bit_eq take_bit_nat_eq_self)
  then have "bit (take_bit k w) n" using \<open>bit w n\<close> by simp
  then show "n < k" by (simp add: bit_take_bit_iff)
qed

lemma type_field:
  fixes t v :: u64
  assumes "unat t < 16"
  shows "(t OR push_bit 4 v) AND mask 4 = t" "drop_bit 4 (t OR push_bit 4 v) = take_bit 60 v"
proof -
  have t: "n < 4" if "bit t n" for n using low_bits [of t 4 n] assms that by simp
  show "(t OR push_bit 4 v) AND mask 4 = t"
    by (rule bit_word_eqI) (auto simp: bit_simps dest: t)
  show "drop_bit 4 (t OR push_bit 4 v) = take_bit 60 v"
    by (rule bit_word_eqI) (auto simp: bit_simps dest: t)
qed

lemma PageType_as_u64_small: "unat (PageType_as_u64 t) < 16"
  by (cases t) (simp_all add: TYPE_SHIFT_def)

lemma PageType_roundtrip: "PageType_try_from (PageType_as_u64 t) = Ok t"
  by (cases t) (simp_all add: PageType_try_from_def TYPE_SHIFT_def)

text \<open>The type and the field of a word are read back independently of each other.\<close>

lemma storage_type:
  "storage mem = PageType_as_u64 t OR push_bit 4 v \<Longrightarrow> PageStorageType_page_type mem = Ok t"
  by (simp add: PageStorageType_page_type_def storage_masks type_field PageType_as_u64_small
      PageType_roundtrip)

lemma storage_field:
  "storage mem = PageType_as_u64 t OR push_bit 4 v \<Longrightarrow> drop_bit 4 (storage mem) = take_bit 60 v"
  by (simp only: type_field(2) PageType_as_u64_small)

lemma order_field:
  assumes "order < 256"
  shows "unat (take_bit 60 (of_nat order AND mask 8 :: u64) AND mask 8) = order"
proof -
  have "take_bit 60 (of_nat order AND mask 8 :: u64) AND mask 8 = of_nat order AND mask 8"
    by (rule bit_word_eqI) (auto simp: bit_simps)
  moreover have "unat (of_nat order AND mask 8 :: u64) = order"
    using assms by (simp only: unat_and_mask) (simp add: unat_of_nat_u64)
  ultimately show ?thesis by simp
qed

lemma slab_field:
  assumes "unat v < 2 ^ 16"
  shows "take_bit 60 (v AND mask 16) AND mask 16 = (v :: u64)"
proof (rule bit_word_eqI)
  fix n show "bit (take_bit 60 (v AND mask 16) AND mask 16) n = bit v n"
    using low_bits [OF assms, of n] by (auto simp: bit_simps)
qed

lemma refcount_field: "unat v < 2 ^ 60 \<Longrightarrow> take_bit 60 v = (v :: u64)"
proof (rule bit_word_eqI)
  fix n assume "unat v < 2 ^ 60"
  then show "bit (take_bit 60 v) n = bit v n" using low_bits [of v 60 n] by (auto simp: bit_simps)
qed

text \<open>The next page of a free page shares the field with the order.\<close>

definition next_field :: "nat \<Rightarrow> u64" where
  "next_field next_page = (if next_page = NO_PAGE then mask 52 else of_nat next_page)"

lemma FreeInfo_encode_eq:
  assumes "next_page = NO_PAGE \<or> next_page < 2 ^ 52 - 1"
  shows "storage (FreeInfo_encode (FreeInfo next_page order)) =
    PageType_as_u64 PageType_Free OR push_bit 4 ((of_nat order AND mask 8) OR push_bit 8 (next_field next_page))"
proof -
  have "push_bit NEXT_SHIFT (of_nat next_page) AND NOT (mask 12) = (push_bit 12 (of_nat next_page) :: u64)"
    by (rule bit_word_eqI) (auto simp: bit_simps NEXT_SHIFT_def)
  moreover have "NOT (mask 12) = (push_bit 12 (mask 52) :: u64)"
    by (rule bit_word_eqI) (auto simp: bit_simps)
  ultimately have "(if next_page = NO_PAGE then NO_NEXT
      else push_bit NEXT_SHIFT (of_nat next_page) AND NEXT_MASK) = push_bit 4 (push_bit 8 (next_field next_page))"
    by (simp add: storage_masks next_field_def)
  then show ?thesis
    by (simp only: FreeInfo_encode_def encode_next_def encode_order_def PageStorageType_new_def
        PageStorageType.sel FreeInfo.sel Let_def storage_masks TYPE_SHIFT_def push_bit_or or.assoc)
qed

lemma next_roundtrip:
  assumes "next_page = NO_PAGE \<or> next_page < 2 ^ 52 - 1"
  shows "decode_next (FreeInfo_encode (FreeInfo next_page order)) = next_page"
proof -
  let ?w = "storage (FreeInfo_encode (FreeInfo next_page order))"
  have f: "take_bit 52 (next_field next_page) = next_field next_page"
  proof (cases "next_page = NO_PAGE")
    case True
    then show ?thesis by (intro bit_word_eqI) (auto simp: next_field_def bit_simps)
  next
    case False
    with assms show ?thesis
      by (simp add: next_field_def word_unat_eq_iff unsigned_take_bit_eq unat_of_nat_u64
          take_bit_nat_eq_self)
  qed
  have w: "?w AND NEXT_MASK = push_bit 12 (next_field next_page)"
    by (rule bit_word_eqI) (auto simp: FreeInfo_encode_eq [OF assms] storage_masks bit_simps)
  have d: "drop_bit 12 (push_bit 12 (next_field next_page)) = next_field next_page"
    by (subst (2) f [symmetric], rule bit_word_eqI) (auto simp: bit_simps)
  have no: "NO_NEXT = (push_bit 12 (mask 52) :: u64)" "drop_bit 12 NO_NEXT = (mask 52 :: u64)"
    by (rule bit_word_eqI, auto simp: bit_simps storage_masks)+
  have "push_bit 12 (next_field next_page) = NO_NEXT \<longleftrightarrow> next_field next_page = mask 52"
  proof
    assume "push_bit 12 (next_field next_page) = NO_NEXT"
    then show "next_field next_page = mask 52" using d no(2) by simp
  qed (simp only: no(1))
  moreover have "next_field next_page = mask 52 \<longleftrightarrow> next_page = NO_PAGE"
    using assms by (auto simp: next_field_def word_unat_eq_iff unat_of_nat_u64 unat_mask)
  ultimately show ?thesis
    using assms unfolding decode_next_def Let_def w NEXT_SHIFT_def d
    by (auto simp: next_field_def unat_of_nat_u64)
qed


lemma from_mem_to_mem:
  assumes "PageInfo_fits pi"
  shows "PageInfo_from_mem (PageInfo_to_mem pi) = Some pi"
  using assms
proof (cases pi)
  case (PageInfo_Free fi)
  obtain nx ord where fi: "fi = FreeInfo nx ord" by (cases fi)
  from assms PageInfo_Free fi have nx: "nx = NO_PAGE \<or> nx < 2 ^ 52 - 1" and ord: "ord < 256" by auto
  note w = FreeInfo_encode_eq [OF nx, of ord]
  have "take_bit 60 ((of_nat ord AND mask 8) OR push_bit 8 (next_field nx)) AND mask 8
      = take_bit 60 (of_nat ord AND mask 8) AND (mask 8 :: u64)"
    by (rule bit_word_eqI) (auto simp: bit_simps)
  then have "decode_order (FreeInfo_encode fi) = ord"
    unfolding decode_order_def fi storage_masks TYPE_SHIFT_def storage_field [OF w]
    using order_field [OF ord] by simp
  with PageInfo_Free fi next_roundtrip [OF nx] show ?thesis
    by (simp add: PageInfo_from_mem_def storage_type [OF w] FreeInfo_decode_def)
next
  case (PageInfo_Allocated ai)
  have w: "storage (AllocatedInfo_encode ai) =
      PageType_as_u64 PageType_Allocated OR push_bit 4 (of_nat (ai_order ai) AND mask 8)"
    by (simp only: AllocatedInfo_encode_def encode_order_def PageStorageType_new_def
        PageStorageType.sel storage_masks TYPE_SHIFT_def)
  show ?thesis using assms PageInfo_Allocated
    unfolding PageInfo_from_mem_def PageInfo_Allocated PageInfo_to_mem.simps storage_type [OF w]
      AllocatedInfo_decode_def decode_order_def TYPE_SHIFT_def storage_field [OF w] storage_masks
    by (subst order_field) simp_all
next
  case (PageInfo_Slab si)
  have w: "storage (SlabPageInfo_encode si) =
      PageType_as_u64 PageType_SlabPage OR push_bit 4 (si_item_size si AND mask 16)"
    by (simp only: SlabPageInfo_encode_def encode_slab_def PageStorageType_new_def Let_def
        PageStorageType.sel storage_masks TYPE_SHIFT_def)
  show ?thesis using assms PageInfo_Slab
    unfolding PageInfo_from_mem_def PageInfo_Slab PageInfo_to_mem.simps storage_type [OF w]
      SlabPageInfo_decode_def decode_slab_def TYPE_SHIFT_def storage_field [OF w] storage_masks
    by (subst slab_field) simp_all
next
  case (PageInfo_Compound ci)
  have w: "storage (CompoundInfo_encode ci) =
      PageType_as_u64 PageType_Compound OR push_bit 4 (of_nat (ci_order ci) AND mask 8)"
    by (simp only: CompoundInfo_encode_def encode_order_def PageStorageType_new_def
        PageStorageType.sel storage_masks TYPE_SHIFT_def)
  show ?thesis using assms PageInfo_Compound
    unfolding PageInfo_from_mem_def PageInfo_Compound PageInfo_to_mem.simps storage_type [OF w]
      CompoundInfo_decode_def decode_order_def TYPE_SHIFT_def storage_field [OF w] storage_masks
    by (subst order_field) simp_all
next
  case (PageInfo_File fi)
  have w: "storage (FileInfo_encode fi) =
      PageType_as_u64 PageType_File OR push_bit 4 (file_ref_count fi)"
    by (simp only: FileInfo_encode_def encode_refcount_def PageStorageType_new_def
        PageStorageType.sel TYPE_SHIFT_def)
  show ?thesis using assms PageInfo_File
    unfolding PageInfo_from_mem_def PageInfo_File PageInfo_to_mem.simps storage_type [OF w]
      FileInfo_decode_def decode_refcount_def TYPE_SHIFT_def storage_field [OF w]
    by (subst refcount_field) simp_all
next
  case (PageInfo_Reserved ri)
  have w: "storage (ReservedInfo_encode ri) = PageType_as_u64 PageType_Reserved OR push_bit 4 0"
    by (simp add: ReservedInfo_encode_def PageStorageType_new_def)
  show ?thesis
    unfolding PageInfo_from_mem_def PageInfo_Reserved PageInfo_to_mem.simps storage_type [OF w]
    by (cases ri) (simp add: ReservedInfo_decode_def)
qed

lemma ilog2_less: "n < 2 ^ Suc (ilog2 n)"
proof (induction n rule: ilog2.induct)
  case (1 n)
  show ?case
  proof (cases "n < 2")
    case True
    then show ?thesis by (simp add: ilog2.simps)
  next
    case False
    then have "ilog2 n = Suc (ilog2 (n div 2))" by (simp add: ilog2.simps [of n])
    with 1 False show ?thesis by simp
  qed
qed

lemma next_power_of_two:
  assumes "size' \<le> 2 ^ 63"
  obtains p where "checked_next_power_of_two size' = Some (2 ^ p)" and "size' \<le> 2 ^ p"
    and "\<And>q. size' \<le> 2 ^ q \<Longrightarrow> p \<le> q"
proof (cases "size' \<le> 1")
  case True
  then show thesis
    by (intro that [of 0]) (simp_all add: checked_next_power_of_two_def usize_max_eq)
next
  case False
  let ?p = "Suc (ilog2 (size' - 1))"
  have "size' - 1 < 2 ^ ?p" by (rule ilog2_less)
  then have le: "size' \<le> 2 ^ ?p" using False by linarith
  have low: "2 ^ ilog2 (size' - 1) \<le> size' - 1" using False by (intro ilog2_le) simp
  have least: "?p \<le> q" if "size' \<le> 2 ^ q" for q
  proof -
    have "(2::nat) ^ ilog2 (size' - 1) < 2 ^ q" using low that False by linarith
    then show ?thesis by (simp add: Suc_le_eq)
  qed
  have "?p \<le> 63" using assms by (rule least)
  then have "(2::nat) ^ ?p \<le> 2 ^ 63" by (intro power_increasing) simp_all
  then have "checked_next_power_of_two size' = Some (2 ^ ?p)"
    using False by (simp add: checked_next_power_of_two_def usize_max_eq)
  then show thesis using le least by (rule that)
qed

section \<open>Properties\<close>

text \<open>
  C32. The metadata of a page survives its trip through memory: for every \<open>PageInfo\<close> whose
  fields fit the storage word (order below 256, next page below \<open>2^52 - 1\<close> or \<open>NO_PAGE\<close>, item
  size below \<open>2^16\<close>, reference count below \<open>2^60\<close>), \<open>from_mem (to_mem pi)\<close> does not panic and
  is \<open>pi\<close>.
\<close>

theorem page_info_roundtrip:
  assumes "PageInfo_fits pi"
  shows "PageInfo_from_mem (PageInfo_to_mem pi) = Some pi"
  using assms by (rule from_mem_to_mem)

theorem page_info_roundtrip_witness:
  "PageInfo_fits (PageInfo_Free (FreeInfo 0x12345 5))
   \<and> storage (PageInfo_to_mem (PageInfo_Free (FreeInfo 0x12345 5))) = 0x12345050
   \<and> PageInfo_from_mem (PageStorageType 0x12345050) = Some (PageInfo_Free (FreeInfo 0x12345 5))"
proof -
  have fits: "PageInfo_fits (PageInfo_Free (FreeInfo 0x12345 5))" by simp
  have w: "PageInfo_to_mem (PageInfo_Free (FreeInfo 0x12345 5)) = PageStorageType 0x12345050"
    by (simp add: FreeInfo_encode_def encode_next_def encode_order_def PageStorageType_new_def
        NO_PAGE_def usize_max_eq NEXT_SHIFT_def TYPE_SHIFT_def NEXT_MASK_def ORDER_MASK_def Let_def)
  show ?thesis using page_info_roundtrip [OF fits] fits unfolding w by (simp only: PageStorageType.sel)
qed

text \<open>
  \<open>get_order\<close> returns the least order whose block holds the requested number of bytes, for
  every size up to \<open>2^63\<close>.
\<close>

theorem get_order_spec:
  assumes "size' \<le> 2 ^ 63"
  shows "size' \<le> 2 ^ get_order size' * PAGE_SIZE
    \<and> (\<forall>ord. size' \<le> 2 ^ ord * PAGE_SIZE \<longrightarrow> get_order size' \<le> ord)"
proof -
  obtain p where p: "checked_next_power_of_two size' = Some (2 ^ p)" "size' \<le> 2 ^ p"
    "\<And>q. size' \<le> 2 ^ q \<Longrightarrow> p \<le> q"
    using next_power_of_two [OF assms] by blast
  then have o: "get_order size' = p - 12" by (simp add: get_order_def ilog2_exp PAGE_SHIFT_def)
  have pg: "PAGE_SIZE = 2 ^ 12" by (simp add: page_consts)
  have "(2::nat) ^ p \<le> 2 ^ (p - 12) * 2 ^ 12"
    by (simp only: power_add [symmetric]) (rule power_increasing, simp_all)
  moreover have "p - 12 \<le> ord" if "size' \<le> 2 ^ ord * 2 ^ 12" for ord
    using p(3) [of "ord + 12"] that by (simp only: power_add) simp
  ultimately show ?thesis using p(2) by (auto simp only: o pg intro: order_trans)
qed

theorem get_order_spec_witness:
  "get_order 8193 = 2 \<and> 8193 \<le> 2 ^ get_order 8193 * PAGE_SIZE"
proof -
  have "get_order 8193 = 2"
    by (simp add: get_order_def checked_next_power_of_two_def usize_max_eq PAGE_SHIFT_def ilog2.simps)
  then show ?thesis using get_order_spec [of 8193] by simp
qed

end
