(* ===== verification/Heap_Region.thy ===== *)
theory Heap_Region
  imports Page_Info Memory_Region
begin

unbundle bit_operations_syntax

text \<open>
  The physical page allocator \<open>HeapMemoryRegion\<close> (\<open>kernel/src/mm/alloc.rs\<close>): a buddy
  allocator with six orders, one singly linked free list per order threaded through the page
  metadata, page splitting on allocation and merging with the buddy on free.

  \<open>hm_page_info pfn\<close> is the storage word at \<open>metadata_addr + 8 * pfn\<close>.  The three
  accounting arrays have the fixed length \<open>MAX_ORDER\<close>.  A method with \<open>&self\<close> is a function of
  the region, a method with \<open>&mut self\<close> returns the new region; \<open>None\<close> is a panic.
\<close>

section \<open>The region and its metadata\<close>

record HeapMemoryRegion =
  hm_start_phys :: PhysAddr
  hm_start_virt :: VirtAddr
  hm_metadata_addr :: VirtAddr
  hm_page_count :: nat
  hm_nr_pages :: "nat list"
  hm_next_page :: "nat list"
  hm_free_pages :: "nat list"
  hm_page_info :: "nat \<Rightarrow> u64"

record MemInfo =
  mi_total_pages :: "nat list"
  mi_free_pages :: "nat list"

definition HeapMemoryRegion_new :: "(nat \<Rightarrow> u64) \<Rightarrow> HeapMemoryRegion" where
  "HeapMemoryRegion_new memory = \<lparr> hm_start_phys = PhysAddr_null, hm_start_virt = VirtAddr_null,
     hm_metadata_addr = VirtAddr_null, hm_page_count = 0,
     hm_nr_pages = replicate MAX_ORDER 0, hm_next_page = replicate MAX_ORDER NO_PAGE,
     hm_free_pages = replicate MAX_ORDER 0, hm_page_info = memory \<rparr>"

definition get_virt_offset :: "HeapMemoryRegion \<Rightarrow> VirtAddr \<Rightarrow> nat option option" where
  "get_virt_offset self vaddr =
     (if virt_bits (hm_start_virt self) \<le> virt_bits vaddr
      then do {
        d \<leftarrow> VirtAddr_sub vaddr (hm_start_virt self);
        size' \<leftarrow> umul (hm_page_count self) PAGE_SIZE;
        Some (if unat d < size' then Some (unat d) else None)
      }
      else Some None)"

definition heap_phys_to_virt :: "HeapMemoryRegion \<Rightarrow> PhysAddr \<Rightarrow> VirtAddr option option" where
  "heap_phys_to_virt self paddr =
     (if phys_bits paddr < phys_bits (hm_start_phys self) then Some None
      else do {
        offset \<leftarrow> PhysAddr_sub paddr (hm_start_phys self);
        size' \<leftarrow> umul (hm_page_count self) PAGE_SIZE;
        if unat offset \<ge> size' then Some None
        else do {
          v \<leftarrow> VirtAddr_add (hm_start_virt self) offset;
          Some (Some v)
        }
      })"

definition heap_virt_to_phys :: "HeapMemoryRegion \<Rightarrow> VirtAddr \<Rightarrow> PhysAddr option option" where
  "heap_virt_to_phys self vaddr = do {
     r \<leftarrow> get_virt_offset self vaddr;
     case r of
       None \<Rightarrow> Some None
     | Some offset \<Rightarrow> do {
         p \<leftarrow> PhysAddr_add (hm_start_phys self) (of_nat offset);
         Some (Some p)
       }
   }"

definition check_pfn :: "HeapMemoryRegion \<Rightarrow> nat \<Rightarrow> unit option" where
  "check_pfn self pfn = (if pfn \<ge> hm_page_count self then None else Some ())"

definition write_page_info :: "nat \<Rightarrow> PageInfo \<Rightarrow> HeapMemoryRegion \<Rightarrow> HeapMemoryRegion option" where
  "write_page_info pfn pi self = do {
     check_pfn self pfn;
     let info = PageInfo_to_mem pi;
     Some (self\<lparr>hm_page_info := (hm_page_info self)(pfn := storage info)\<rparr>)
   }"

definition read_page_info :: "HeapMemoryRegion \<Rightarrow> nat \<Rightarrow> PageInfo option" where
  "read_page_info self pfn = do {
     check_pfn self pfn;
     PageInfo_from_mem (PageStorageType (hm_page_info self pfn))
   }"

definition get_pfn :: "HeapMemoryRegion \<Rightarrow> VirtAddr \<Rightarrow> (nat, AllocError) result option" where
  "get_pfn self vaddr = do {
     r \<leftarrow> get_virt_offset self vaddr;
     Some (case r of
         Some off \<Rightarrow> Ok (off div PAGE_SIZE)
       | None \<Rightarrow> Err (AllocError_InvalidHeapAddress vaddr))
   }"

section \<open>Allocation\<close>

definition get_next_page :: "nat \<Rightarrow> (HeapMemoryRegion, nat, AllocError) svsm" where
  "get_next_page order self = do {
     pfn \<leftarrow> idx (hm_next_page self) order;
     if pfn = NO_PAGE then Some (Err AllocError_OutOfMemory, self)
     else do {
       pg \<leftarrow> read_page_info self pfn;
       case pg of
         PageInfo_Free fi \<Rightarrow> do {
           let self = self\<lparr>hm_next_page := (hm_next_page self)[order := fi_next_page fi]\<rparr>;
           n \<leftarrow> idx (hm_free_pages self) order;
           n' \<leftarrow> usub n 1;
           Some (Ok pfn, self\<lparr>hm_free_pages := (hm_free_pages self)[order := n']\<rparr>)
         }
       | _ \<Rightarrow> None
     }
   }"

definition mark_compound_page :: "nat \<Rightarrow> nat \<Rightarrow> HeapMemoryRegion \<Rightarrow> HeapMemoryRegion option" where
  "mark_compound_page pfn order self = do {
     nr_pages \<leftarrow> ushl 1 order;
     let compound = PageInfo_Compound (CompoundInfo order);
     forO [1 ..< nr_pages] (\<lambda>i self. do {
       p \<leftarrow> uadd pfn i;
       write_page_info p compound self
     }) self
   }"

definition init_compound_page ::
  "nat \<Rightarrow> nat \<Rightarrow> nat \<Rightarrow> HeapMemoryRegion \<Rightarrow> HeapMemoryRegion option" where
  "init_compound_page pfn order next_pfn self = do {
     self \<leftarrow> write_page_info pfn (PageInfo_Free (FreeInfo next_pfn order)) self;
     mark_compound_page pfn order self
   }"

definition split_page :: "nat \<Rightarrow> nat \<Rightarrow> (HeapMemoryRegion, unit, AllocError) svsm" where
  "split_page pfn order self =
     (if \<not> (1 \<le> order \<and> order < MAX_ORDER)
      then Some (Err (AllocError_InvalidPageOrder order), self)
      else do {
        let new_order = order - 1;
        let pfn1 = pfn;
        half \<leftarrow> ushl 1 new_order;
        pfn2 \<leftarrow> uadd pfn half;
        next_pfn \<leftarrow> idx (hm_next_page self) new_order;
        self \<leftarrow> init_compound_page pfn1 new_order pfn2 self;
        self \<leftarrow> init_compound_page pfn2 new_order next_pfn self;
        let self = self\<lparr>hm_next_page := (hm_next_page self)[new_order := pfn1]\<rparr>;
        n \<leftarrow> idx (hm_nr_pages self) order;
        n' \<leftarrow> usub n 1;
        let self = self\<lparr>hm_nr_pages := (hm_nr_pages self)[order := n']\<rparr>;
        m \<leftarrow> idx (hm_nr_pages self) new_order;
        m' \<leftarrow> uadd m 2;
        let self = self\<lparr>hm_nr_pages := (hm_nr_pages self)[new_order := m']\<rparr>;
        f \<leftarrow> idx (hm_free_pages self) new_order;
        f' \<leftarrow> uadd f 2;
        Some (Ok (), self\<lparr>hm_free_pages := (hm_free_pages self)[new_order := f']\<rparr>)
      })"

definition refill_page_list :: "nat \<Rightarrow> (HeapMemoryRegion, unit, AllocError) svsm" where
  "refill_page_list order self =
     (if length (hm_next_page self) \<le> order
      then Some (Err (AllocError_InvalidPageOrder order), self)
      else if hm_next_page self ! order \<noteq> NO_PAGE then Some (Ok (), self)
      else case find (\<lambda>ord. hm_next_page self ! ord \<noteq> NO_PAGE) [order + 1 ..< MAX_ORDER] of
        None \<Rightarrow> Some (Err AllocError_OutOfMemory, self)
      | Some refill_order \<Rightarrow>
          forM (rev [order + 1 ..< refill_order + 1]) (\<lambda>ord.
            bindM (get_next_page ord) (\<lambda>pfn. split_page pfn ord)) self)"

definition allocate_pages_info :: "nat \<Rightarrow> PageInfo \<Rightarrow> (HeapMemoryRegion, VirtAddr, AllocError) svsm" where
  "allocate_pages_info order pg =
     bindM (refill_page_list order) (\<lambda>_.
     bindM (get_next_page order) (\<lambda>pfn self. do {
       self \<leftarrow> write_page_info pfn pg self;
       off \<leftarrow> umul pfn PAGE_SIZE;
       v \<leftarrow> VirtAddr_add (hm_start_virt self) (of_nat off);
       Some (Ok v, self)
     }))"

definition heap_allocate_pages :: "nat \<Rightarrow> (HeapMemoryRegion, VirtAddr, AllocError) svsm" where
  "heap_allocate_pages order = allocate_pages_info order (PageInfo_Allocated (AllocatedInfo order))"

definition heap_allocate_page :: "(HeapMemoryRegion, VirtAddr, AllocError) svsm" where
  "heap_allocate_page = heap_allocate_pages 0"

definition heap_allocate_slab_page :: "nat \<Rightarrow> (HeapMemoryRegion, VirtAddr, AllocError) svsm" where
  "heap_allocate_slab_page N = allocate_pages_info 0 (PageInfo_Slab (SlabPageInfo (of_nat N)))"

definition heap_allocate_file_page :: "(HeapMemoryRegion, VirtAddr, AllocError) svsm" where
  "heap_allocate_file_page = allocate_pages_info 0 (PageInfo_File (FileInfo_new 1))"

section \<open>Freeing and merging\<close>

definition compound_neighbor ::
  "HeapMemoryRegion \<Rightarrow> nat \<Rightarrow> nat \<Rightarrow> (nat, AllocError) result option" where
  "compound_neighbor self pfn order =
     (if order \<ge> MAX_ORDER - 1 then Some (Err (AllocError_InvalidPageOrder order))
      else if pfn AND (2 ^ order - 1) \<noteq> 0 then None
      else let pfn = pfn XOR 2 ^ order in
        if pfn \<ge> hm_page_count self then Some (Err (AllocError_InvalidPfn pfn))
        else Some (Ok pfn))"

definition merge_pages :: "nat \<Rightarrow> nat \<Rightarrow> nat \<Rightarrow> (HeapMemoryRegion, nat, AllocError) svsm" where
  "merge_pages pfn1 pfn2 order self =
     (if order \<ge> MAX_ORDER - 1 then Some (Err (AllocError_InvalidPageOrder order), self)
      else do {
        let new_order = order + 1;
        let pfn = min pfn1 pfn2;
        self \<leftarrow> write_page_info pfn (PageInfo_Allocated (AllocatedInfo new_order)) self;
        self \<leftarrow> mark_compound_page pfn new_order self;
        n \<leftarrow> idx (hm_nr_pages self) order;
        n' \<leftarrow> usub n 2;
        let self = self\<lparr>hm_nr_pages := (hm_nr_pages self)[order := n']\<rparr>;
        m \<leftarrow> idx (hm_nr_pages self) new_order;
        m' \<leftarrow> uadd m 1;
        Some (Ok pfn, self\<lparr>hm_nr_pages := (hm_nr_pages self)[new_order := m']\<rparr>)
      })"

definition next_free_pfn :: "HeapMemoryRegion \<Rightarrow> nat \<Rightarrow> nat \<Rightarrow> nat option" where
  "next_free_pfn self pfn order = do {
     page \<leftarrow> read_page_info self pfn;
     case page of PageInfo_Free fi \<Rightarrow> Some (fi_next_page fi) | _ \<Rightarrow> None
   }"

partial_function (option) allocate_pfn_walk ::
  "nat \<Rightarrow> nat \<Rightarrow> nat \<Rightarrow> HeapMemoryRegion \<Rightarrow> ((unit, AllocError) result \<times> HeapMemoryRegion) option" where
  "allocate_pfn_walk pfn order old_pfn self = do {
     current_pfn \<leftarrow> next_free_pfn self old_pfn order;
     if current_pfn = NO_PAGE then Some (Err AllocError_OutOfMemory, self)
     else if current_pfn \<noteq> pfn then allocate_pfn_walk pfn order current_pfn self
     else do {
       next_pfn \<leftarrow> next_free_pfn self current_pfn order;
       self \<leftarrow> write_page_info old_pfn (PageInfo_Free (FreeInfo next_pfn order)) self;
       self \<leftarrow> write_page_info current_pfn (PageInfo_Allocated (AllocatedInfo order)) self;
       n \<leftarrow> idx (hm_free_pages self) order;
       n' \<leftarrow> usub n 1;
       Some (Ok (), self\<lparr>hm_free_pages := (hm_free_pages self)[order := n']\<rparr>)
     }
   }"

definition allocate_pfn :: "nat \<Rightarrow> nat \<Rightarrow> (HeapMemoryRegion, unit, AllocError) svsm" where
  "allocate_pfn pfn order self = do {
     first_pfn \<leftarrow> idx (hm_next_page self) order;
     if first_pfn = NO_PAGE then Some (Err AllocError_OutOfMemory, self)
     else if first_pfn = pfn then do {
       (r, self) \<leftarrow> get_next_page order self;
       case r of Ok _ \<Rightarrow> Some (Ok (), self) | Err _ \<Rightarrow> None
     }
     else allocate_pfn_walk pfn order first_pfn self
   }"

definition free_page_raw :: "nat \<Rightarrow> nat \<Rightarrow> HeapMemoryRegion \<Rightarrow> HeapMemoryRegion option" where
  "free_page_raw pfn order self = do {
     old_next \<leftarrow> idx (hm_next_page self) order;
     self \<leftarrow> write_page_info pfn (PageInfo_Free (FreeInfo old_next order)) self;
     let self = self\<lparr>hm_next_page := (hm_next_page self)[order := pfn]\<rparr>;
     n \<leftarrow> idx (hm_free_pages self) order;
     n' \<leftarrow> uadd n 1;
     Some (self\<lparr>hm_free_pages := (hm_free_pages self)[order := n']\<rparr>)
   }"

definition try_to_merge_page :: "nat \<Rightarrow> nat \<Rightarrow> (HeapMemoryRegion, nat, AllocError) svsm" where
  "try_to_merge_page pfn order self = do {
     r \<leftarrow> compound_neighbor self pfn order;
     case r of
       Err e \<Rightarrow> Some (Err e, self)
     | Ok neighbor_pfn \<Rightarrow> do {
         neighbor_page \<leftarrow> read_page_info self neighbor_pfn;
         case neighbor_page of
           PageInfo_Free fi \<Rightarrow>
             if fi_order fi \<noteq> order
             then Some (Err (AllocError_InvalidPageOrder (fi_order fi)), self)
             else bindM (allocate_pfn neighbor_pfn order) (\<lambda>_.
                    merge_pages pfn neighbor_pfn order) self
         | _ \<Rightarrow> Some (Err (AllocError_InvalidPfn neighbor_pfn), self)
       }
   }"

partial_function (option) free_page_order ::
  "nat \<Rightarrow> nat \<Rightarrow> HeapMemoryRegion \<Rightarrow> HeapMemoryRegion option" where
  "free_page_order pfn order self = do {
     (r, self) \<leftarrow> try_to_merge_page pfn order self;
     case r of
       Ok new_pfn \<Rightarrow> do {
         order' \<leftarrow> uadd order 1;
         free_page_order new_pfn order' self
       }
     | Err e \<Rightarrow> free_page_raw pfn order self
   }"

definition heap_free_page :: "VirtAddr \<Rightarrow> HeapMemoryRegion \<Rightarrow> HeapMemoryRegion option" where
  "heap_free_page vaddr self = do {
     r \<leftarrow> get_pfn self vaddr;
     case r of
       Err e \<Rightarrow> Some self
     | Ok pfn \<Rightarrow> do {
         res \<leftarrow> read_page_info self pfn;
         case res of
           PageInfo_Allocated ai \<Rightarrow> free_page_order pfn (ai_order ai) self
         | PageInfo_Slab si \<Rightarrow> free_page_order pfn 0 self
         | PageInfo_File fi \<Rightarrow> free_page_order pfn 0 self
         | _ \<Rightarrow> None
       }
   }"

definition heap_free_multiple_pages ::
  "VirtAddr \<Rightarrow> nat \<Rightarrow> HeapMemoryRegion \<Rightarrow> HeapMemoryRegion option" where
  "heap_free_multiple_pages vaddr count =
     forO [0 ..< count] (\<lambda>offset mem. do {
       off \<leftarrow> umul offset PAGE_SIZE;
       v \<leftarrow> VirtAddr_add vaddr (of_nat off);
       heap_free_page v mem
     })"

section \<open>File pages\<close>

definition heap_get_file_page :: "VirtAddr \<Rightarrow> (HeapMemoryRegion, unit, AllocError) svsm" where
  "heap_get_file_page vaddr self = do {
     r \<leftarrow> get_pfn self vaddr;
     case r of
       Err e \<Rightarrow> Some (Err e, self)
     | Ok pfn \<Rightarrow> do {
         page \<leftarrow> read_page_info self pfn;
         case page of
           PageInfo_File fi \<Rightarrow>
             if file_ref_count fi > 0
             then do {
               n \<leftarrow> wadd (file_ref_count fi) 1;
               self \<leftarrow> write_page_info pfn (PageInfo_File (FileInfo n)) self;
               Some (Ok (), self)
             }
             else None
         | _ \<Rightarrow> Some (Err (AllocError_InvalidFilePage vaddr), self)
       }
   }"

definition heap_put_file_page :: "VirtAddr \<Rightarrow> (HeapMemoryRegion, unit, AllocError) svsm" where
  "heap_put_file_page vaddr self = do {
     r \<leftarrow> get_pfn self vaddr;
     case r of
       Err e \<Rightarrow> Some (Err e, self)
     | Ok pfn \<Rightarrow> do {
         page \<leftarrow> read_page_info self pfn;
         case page of
           PageInfo_File fi \<Rightarrow> do {
             n \<leftarrow> wsub (file_ref_count fi) 1;
             self \<leftarrow> (if n > 0 then write_page_info pfn (PageInfo_File (FileInfo n)) self
                     else heap_free_page vaddr self);
             Some (Ok (), self)
           }
         | _ \<Rightarrow> Some (Err (AllocError_InvalidFilePage vaddr), self)
       }
   }"

section \<open>Initialisation\<close>

definition heap_memory_info :: "HeapMemoryRegion \<Rightarrow> MemInfo" where
  "heap_memory_info self =
     \<lparr> mi_total_pages = hm_nr_pages self, mi_free_pages = hm_free_pages self \<rparr>"

definition add_nr_pages :: "nat \<Rightarrow> nat \<Rightarrow> HeapMemoryRegion \<Rightarrow> HeapMemoryRegion option" where
  "add_nr_pages order d self = do {
     n \<leftarrow> idx (hm_nr_pages self) order;
     n' \<leftarrow> uadd n d;
     Some (self\<lparr>hm_nr_pages := (hm_nr_pages self)[order := n']\<rparr>)
   }"

definition free_small_pages :: "nat \<Rightarrow> nat \<Rightarrow> HeapMemoryRegion \<Rightarrow> HeapMemoryRegion option" where
  "free_small_pages lo hi = forO [lo ..< hi] (\<lambda>i. free_page_order i 0)"

definition init_memory :: "nat \<Rightarrow> HeapMemoryRegion \<Rightarrow> HeapMemoryRegion option" where
  "init_memory allocated self = do {
     bytes \<leftarrow> umul (hm_page_count self) 8;
     meta_bytes \<leftarrow> align_up (of_nat bytes) PAGE_SIZE_W;
     let meta_pages = unat meta_bytes div PAGE_SIZE;
     alloc_pages \<leftarrow> usub (hm_page_count self) meta_pages;
     meta_off \<leftarrow> umul alloc_pages PAGE_SIZE;
     metadata_addr \<leftarrow> VirtAddr_add (hm_start_virt self) (of_nat meta_off);
     let self = self\<lparr>hm_metadata_addr := metadata_addr\<rparr>;
     self \<leftarrow> forO [0 ..< alloc_pages]
       (\<lambda>i. write_page_info i (PageInfo_Allocated (AllocatedInfo 0))) self;
     self \<leftarrow> forO [alloc_pages ..< hm_page_count self]
       (\<lambda>i. write_page_info i (PageInfo_Reserved ReservedInfo)) self;
     let alignment = 2 ^ (MAX_ORDER - 1);
     first_aligned \<leftarrow> align_up (of_nat allocated) (of_nat alignment :: u64);
     last_aligned \<leftarrow> align_down (of_nat alloc_pages) (of_nat alignment :: u64);
     let first_aligned_page = unat first_aligned;
     let last_aligned_page = unat last_aligned;
     if last_aligned_page > first_aligned_page
     then do {
       self \<leftarrow> add_nr_pages (MAX_ORDER - 1) ((last_aligned_page - first_aligned_page) div alignment) self;
       self \<leftarrow> forO (step_range first_aligned_page last_aligned_page alignment) (\<lambda>i self. do {
         self \<leftarrow> mark_compound_page i (MAX_ORDER - 1) self;
         free_page_raw i (MAX_ORDER - 1) self
       }) self;
       self \<leftarrow> (if first_aligned_page > allocated then do {
           self \<leftarrow> add_nr_pages 0 (first_aligned_page - allocated) self;
           free_small_pages allocated first_aligned_page self
         } else Some self);
       (if last_aligned_page < alloc_pages then do {
           self \<leftarrow> add_nr_pages 0 (alloc_pages - last_aligned_page) self;
           free_small_pages last_aligned_page alloc_pages self
         } else Some self)
     }
     else do {
       n \<leftarrow> usub alloc_pages allocated;
       idx (hm_nr_pages self) 0;
       let self = self\<lparr>hm_nr_pages := (hm_nr_pages self)[0 := n]\<rparr>;
       free_small_pages allocated alloc_pages self
     }
   }"

end
