(* ===== verification/Heap_Invariant.thy ===== *)
theory Heap_Invariant
  imports Heap_Region
begin

unbundle bit_operations_syntax

text \<open>
  The invariant of the page allocator.

  A region is described by two ghost values: the page view \<open>V\<close>, which gives the decoded
  metadata of every page, and the free lists \<open>L\<close>, one list of page numbers per order.
  \<open>blocks_ok\<close> says that the view partitions the pages into aligned blocks: a head page
  (free, allocated, slab or file) of order \<open>o\<close> is followed by \<open>2^o - 1\<close> compound pages of the same
  order, and every compound page belongs to such a head.  \<open>heap_rep B V P L r\<close> connects the view
  with the region \<open>r\<close>: the metadata words, the links of the free lists and the counters are those
  of the view.  Between two steps of an operation the metadata of a page that was just taken
  off a free list is stale; \<open>P\<close> is the set of these pages, which the view already shows as
  allocated.  \<open>B\<close> is the set of pages that were in use when the region was initialised: they are
  never counted in \<open>nr_pages\<close>.
\<close>

section \<open>Blocks\<close>

abbreviation FreeP :: "nat \<Rightarrow> nat \<Rightarrow> PageInfo" where
  "FreeP nx ord \<equiv> PageInfo_Free (FreeInfo nx ord)"

abbreviation AllocP :: "nat \<Rightarrow> PageInfo" where
  "AllocP ord \<equiv> PageInfo_Allocated (AllocatedInfo ord)"

abbreviation CompP :: "nat \<Rightarrow> PageInfo" where
  "CompP ord \<equiv> PageInfo_Compound (CompoundInfo ord)"

type_synonym page_view = "nat \<Rightarrow> PageInfo"

text \<open>The order of the block that a page heads.\<close>

primrec blk :: "PageInfo \<Rightarrow> nat option" where
  "blk (PageInfo_Free fi) = Some (fi_order fi)"
| "blk (PageInfo_Allocated ai) = Some (ai_order ai)"
| "blk (PageInfo_Slab si) = Some 0"
| "blk (PageInfo_Compound ci) = None"
| "blk (PageInfo_File fi) = Some 0"
| "blk (PageInfo_Reserved ri) = None"

definition block_ok :: "nat \<Rightarrow> page_view \<Rightarrow> nat \<Rightarrow> nat \<Rightarrow> bool" where
  "block_ok n V p ord \<longleftrightarrow> ord < MAX_ORDER \<and> 2 ^ ord dvd p \<and> p + 2 ^ ord \<le> n
     \<and> (\<forall>i. p < i \<and> i < p + 2 ^ ord \<longrightarrow> V i = CompP ord)"

definition blocks_ok :: "nat \<Rightarrow> page_view \<Rightarrow> bool" where
  "blocks_ok n V \<longleftrightarrow>
     (\<forall>p ord. p < n \<and> blk (V p) = Some ord \<longrightarrow> block_ok n V p ord)
   \<and> (\<forall>p ord. p < n \<and> V p = CompP ord \<longrightarrow> (\<exists>h. h < p \<and> p < h + 2 ^ ord \<and> blk (V h) = Some ord))"

lemma blocks_okD:
  assumes "blocks_ok n V" and "p < n" and "blk (V p) = Some ord"
  shows "ord < MAX_ORDER" "2 ^ ord dvd p" "p + 2 ^ ord \<le> n"
    "p < i \<Longrightarrow> i < p + 2 ^ ord \<Longrightarrow> V i = CompP ord"
  using assms by (auto simp: blocks_ok_def block_ok_def)

lemma blocks_ok_owner:
  assumes "blocks_ok n V" and "p < n" and "V p = CompP ord"
  obtains h where "h < p" and "p < h + 2 ^ ord" and "blk (V h) = Some ord"
  using assms unfolding blocks_ok_def by blast

text \<open>Different blocks do not share a page.\<close>

lemma blocks_disjoint:
  assumes V: "blocks_ok n V" and p: "p < n" "blk (V p) = Some a" and q: "q < n" "blk (V q) = Some b"
    and x: "x \<in> {p ..< p + 2 ^ a}" "x \<in> {q ..< q + 2 ^ b}"
  shows "p = q"
proof (rule ccontr)
  assume "p \<noteq> q"
  then consider "p < q" | "q < p" by linarith
  then show False
  proof cases
    case 1
    then have "V q = CompP a" using blocks_okD(4) [OF V p, of q] x by simp
    with q show False by simp
  next
    case 2
    then have "V p = CompP b" using blocks_okD(4) [OF V q, of p] x by simp
    with p show False by simp
  qed
qed

text \<open>
  Rebuilding whole blocks: when a view changes only inside a union \<open>R\<close> of blocks, and the
  new contents of \<open>R\<close> consist of blocks inside \<open>R\<close>, the new view is a partition again.
\<close>

definition block_union :: "nat \<Rightarrow> page_view \<Rightarrow> nat set \<Rightarrow> bool" where
  "block_union n V R \<longleftrightarrow>
     (\<forall>x\<in>R. \<exists>p ord. p < n \<and> blk (V p) = Some ord \<and> x \<in> {p ..< p + 2 ^ ord} \<and> {p ..< p + 2 ^ ord} \<subseteq> R)"

lemma reblock:
  assumes V: "blocks_ok n V" and R: "block_union n V R"
    and out: "\<And>p. p \<notin> R \<Longrightarrow> V' p = V p"
    and heads: "\<And>p ord. p \<in> R \<Longrightarrow> blk (V' p) = Some ord \<Longrightarrow> block_ok n V' p ord"
    and comp: "\<And>p ord. p \<in> R \<Longrightarrow> V' p = CompP ord \<Longrightarrow> \<exists>h. h < p \<and> p < h + 2 ^ ord \<and> blk (V' h) = Some ord"
  shows "blocks_ok n V'"
  unfolding blocks_ok_def
proof (intro conjI allI impI)
  fix p ord assume p: "p < n \<and> blk (V' p) = Some ord"
  show "block_ok n V' p ord"
  proof (cases "p \<in> R")
    case False
    with p out have b: "blk (V p) = Some ord" by simp
    have "i \<notin> R" if i: "p < i" "i < p + 2 ^ ord" for i
    proof
      assume "i \<in> R"
      with R obtain q b' where q: "q < n" "blk (V q) = Some b'" "i \<in> {q ..< q + 2 ^ b'}"
        "{q ..< q + 2 ^ b'} \<subseteq> R" by (auto simp: block_union_def)
      have "p = q" using blocks_disjoint [OF V _ b q(1,2) _ q(3)] p i by simp
      then have "p \<in> R" using q by auto
      with False show False ..
    qed
    then show ?thesis using blocks_okD [OF V _ b] p out by (simp add: block_ok_def)
  qed (use heads p in blast)
next
  fix p ord assume p: "p < n \<and> V' p = CompP ord"
  show "\<exists>h. h < p \<and> p < h + 2 ^ ord \<and> blk (V' h) = Some ord"
  proof (cases "p \<in> R")
    case False
    with p out have "V p = CompP ord" by simp
    with V p obtain h where h: "h < p" "p < h + 2 ^ ord" "blk (V h) = Some ord"
      by (auto elim: blocks_ok_owner)
    have "h \<notin> R"
    proof
      assume "h \<in> R"
      with R obtain q b where q: "q < n" "blk (V q) = Some b" "h \<in> {q ..< q + 2 ^ b}"
        "{q ..< q + 2 ^ b} \<subseteq> R" by (auto simp: block_union_def)
      have "h = q" using blocks_disjoint [OF V _ h(3) q(1,2) _ q(3)] p h(1) by simp
      then have "p \<in> R" using q(2,4) h by auto
      with False show False ..
    qed
    then show ?thesis using h out by auto
  qed (use comp p in blast)
qed

text \<open>Changing a head to another kind of head of the same order.\<close>

lemma blocks_ok_head:
  assumes V: "blocks_ok n V" and p: "blk (V p) = Some ord" "blk pi = Some ord"
  shows "blocks_ok n (V(p := pi))"
  unfolding blocks_ok_def
proof (intro conjI allI impI)
  fix q b assume q: "q < n \<and> blk ((V(p := pi)) q) = Some b"
  then have b: "blk (V q) = Some b" using p by (auto split: if_splits)
  have "V i = CompP b" if "q < i" "i < q + 2 ^ b" for i
    using blocks_okD(4) [OF V _ b that] q by simp
  moreover have "i \<noteq> p" if "V i = CompP b" for i using that p by auto
  ultimately show "block_ok n (V(p := pi)) q b"
    using blocks_okD [OF V _ b] q by (auto simp: block_ok_def)
next
  fix q b assume q: "q < n \<and> (V(p := pi)) q = CompP b"
  then have "V q = CompP b" using p by (auto split: if_splits)
  with V q obtain h where "h < q" "q < h + 2 ^ b" "blk (V h) = Some b"
    by (auto elim: blocks_ok_owner)
  then show "\<exists>h. h < q \<and> q < h + 2 ^ b \<and> blk ((V(p := pi)) h) = Some b"
    using p by (intro exI [of _ h]) auto
qed

section \<open>Free lists\<close>

primrec chain :: "page_view \<Rightarrow> nat \<Rightarrow> nat \<Rightarrow> nat list \<Rightarrow> bool" where
  "chain V ord start [] \<longleftrightarrow> start = NO_PAGE"
| "chain V ord start (p # ps) \<longleftrightarrow> start = p \<and> (\<exists>nx. V p = FreeP nx ord \<and> chain V ord nx ps)"

lemma chain_cong:
  "chain V ord start ps \<Longrightarrow> (\<And>p. p \<in> set ps \<Longrightarrow> V' p = V p) \<Longrightarrow> chain V' ord start ps"
  by (induction ps arbitrary: start) auto

definition heads :: "nat \<Rightarrow> page_view \<Rightarrow> nat \<Rightarrow> nat set" where
  "heads n V ord = {p. p < n \<and> blk (V p) = Some ord}"

definition free_heads :: "nat \<Rightarrow> page_view \<Rightarrow> nat \<Rightarrow> nat set" where
  "free_heads n V ord = {p. p < n \<and> (\<exists>nx. V p = FreeP nx ord)}"

definition lists_ok :: "page_view \<Rightarrow> (nat \<Rightarrow> nat list) \<Rightarrow> HeapMemoryRegion \<Rightarrow> bool" where
  "lists_ok V L r \<longleftrightarrow> (\<forall>ord < MAX_ORDER.
     chain V ord (hm_next_page r ! ord) (L ord) \<and> distinct (L ord)
     \<and> set (L ord) = free_heads (hm_page_count r) V ord
     \<and> hm_free_pages r ! ord = length (L ord))"

definition counts_ok :: "nat set \<Rightarrow> page_view \<Rightarrow> HeapMemoryRegion \<Rightarrow> bool" where
  "counts_ok B V r \<longleftrightarrow>
     (\<forall>ord < MAX_ORDER. hm_nr_pages r ! ord = card (heads (hm_page_count r) V ord - B))"

text \<open>The region lies inside one half of the canonical address space.\<close>

definition params_ok :: "HeapMemoryRegion \<Rightarrow> bool" where
  "params_ok r \<longleftrightarrow> VirtAddr_ok (hm_start_virt r)
     \<and> in_half (virt_bits (hm_start_virt r)) (hm_page_count r * PAGE_SIZE)
     \<and> length (hm_nr_pages r) = MAX_ORDER \<and> length (hm_next_page r) = MAX_ORDER
     \<and> length (hm_free_pages r) = MAX_ORDER"

definition heap_rep ::
  "nat set \<Rightarrow> page_view \<Rightarrow> nat set \<Rightarrow> (nat \<Rightarrow> nat list) \<Rightarrow> HeapMemoryRegion \<Rightarrow> bool" where
  "heap_rep B V P L r \<longleftrightarrow> params_ok r \<and> blocks_ok (hm_page_count r) V \<and> lists_ok V L r
     \<and> counts_ok B V r
     \<and> (\<forall>p < hm_page_count r. PageInfo_fits (V p))
     \<and> (\<forall>p < hm_page_count r. p \<notin> P \<longrightarrow> read_page_info r p = Some (V p))
     \<and> (\<forall>p \<in> P. \<exists>ord. V p = AllocP ord)
     \<and> B \<subseteq> {p. p < hm_page_count r \<and> V p = AllocP 0}"


lemma heap_repD:
  assumes "heap_rep B V P L r"
  shows "params_ok r" "blocks_ok (hm_page_count r) V" "lists_ok V L r" "counts_ok B V r"
    "p < hm_page_count r \<Longrightarrow> PageInfo_fits (V p)"
    "p < hm_page_count r \<Longrightarrow> p \<notin> P \<Longrightarrow> read_page_info r p = Some (V p)"
    "p \<in> P \<Longrightarrow> \<exists>ord. V p = AllocP ord"
    "p \<in> B \<Longrightarrow> p < hm_page_count r \<and> V p = AllocP 0"
  using assms by (auto simp: heap_rep_def)

lemma lists_okD:
  assumes "lists_ok V L r" and "ord < MAX_ORDER"
  shows "chain V ord (hm_next_page r ! ord) (L ord)" "distinct (L ord)"
    "set (L ord) = free_heads (hm_page_count r) V ord" "hm_free_pages r ! ord = length (L ord)"
  using assms by (auto simp: lists_ok_def)

lemma params_okD:
  assumes "params_ok r"
  shows "length (hm_nr_pages r) = MAX_ORDER" "length (hm_next_page r) = MAX_ORDER"
    "length (hm_free_pages r) = MAX_ORDER" "hm_page_count r < 2 ^ 35"
proof -
  show "length (hm_nr_pages r) = MAX_ORDER" "length (hm_next_page r) = MAX_ORDER"
    "length (hm_free_pages r) = MAX_ORDER"
    using assms by (auto simp: params_ok_def)
  have "hm_page_count r * 4096 < 2 ^ 47"
    using assms by (auto simp: params_ok_def in_half_def canonical_unat page_consts split: if_splits)
  then show "hm_page_count r < 2 ^ 35" by simp
qed

lemma page_small:
  assumes "params_ok r" and "p \<le> hm_page_count r"
  shows "p < 2 ^ 35" "p \<noteq> NO_PAGE" "p \<le> usize_max"
  using params_okD(4) [OF assms(1)] assms(2) by (auto simp: NO_PAGE_def usize_max_eq)

lemma finite_heads [simp]: "finite (heads n V ord)"
  by (auto simp: heads_def intro: finite_subset [of _ "{..<n}"])

lemma card_heads_le: "card (heads n V ord - B) \<le> n"
proof -
  have "card (heads n V ord - B) \<le> card {..<n}" by (intro card_mono) (auto simp: heads_def)
  then show ?thesis by simp
qed

section \<open>Reading and writing the metadata\<close>

definition put_info :: "nat \<Rightarrow> PageInfo \<Rightarrow> HeapMemoryRegion \<Rightarrow> HeapMemoryRegion" where
  "put_info p pi r = r\<lparr>hm_page_info := (hm_page_info r)(p := storage (PageInfo_to_mem pi))\<rparr>"

lemma put_info_sel [simp]:
  "hm_page_count (put_info p pi r) = hm_page_count r" "hm_start_virt (put_info p pi r) = hm_start_virt r"
  "hm_start_phys (put_info p pi r) = hm_start_phys r"
  "hm_nr_pages (put_info p pi r) = hm_nr_pages r" "hm_next_page (put_info p pi r) = hm_next_page r"
  "hm_free_pages (put_info p pi r) = hm_free_pages r"
  by (simp_all add: put_info_def)

lemma write_page_info_eq:
  "p < hm_page_count r \<Longrightarrow> write_page_info p pi r = Some (put_info p pi r)"
  by (simp add: write_page_info_def check_pfn_def put_info_def)

lemma read_put_info:
  "PageInfo_fits pi \<Longrightarrow> read_page_info (put_info p pi r) q =
     (if q = p \<and> p < hm_page_count r then Some pi else read_page_info r q)"
  using from_mem_to_mem [of pi] by (auto simp: read_page_info_def check_pfn_def put_info_def)

text \<open>\<open>mark_compound_page\<close> rewrites the pages behind a head.\<close>

definition put_compound :: "nat \<Rightarrow> nat \<Rightarrow> HeapMemoryRegion \<Rightarrow> HeapMemoryRegion" where
  "put_compound p ord r = r\<lparr>hm_page_info := (\<lambda>q. if p < q \<and> q < p + 2 ^ ord
     then storage (PageInfo_to_mem (CompP ord)) else hm_page_info r q)\<rparr>"

lemma put_compound_sel [simp]:
  "hm_page_count (put_compound p ord r) = hm_page_count r"
  "hm_start_virt (put_compound p ord r) = hm_start_virt r"
  "hm_start_phys (put_compound p ord r) = hm_start_phys r"
  "hm_nr_pages (put_compound p ord r) = hm_nr_pages r"
  "hm_next_page (put_compound p ord r) = hm_next_page r"
  "hm_free_pages (put_compound p ord r) = hm_free_pages r"
  by (simp_all add: put_compound_def)

lemma MAX_ORDER_pow: "ord < MAX_ORDER \<Longrightarrow> (2::nat) ^ ord \<le> 32"
  using power_increasing [of ord 5 "2::nat"] by (simp add: MAX_ORDER_def)

lemma read_put_compound:
  assumes "ord < MAX_ORDER" and "p + 2 ^ ord \<le> hm_page_count r"
  shows "read_page_info (put_compound p ord r) q =
     (if p < q \<and> q < p + 2 ^ ord then Some (CompP ord) else read_page_info r q)"
  using assms from_mem_to_mem [of "CompP ord"]
  by (auto simp: read_page_info_def check_pfn_def put_compound_def MAX_ORDER_def)

lemma mark_compound_page_eq:
  assumes "ord < MAX_ORDER" and "p + 2 ^ ord \<le> hm_page_count r" and "params_ok r"
  shows "mark_compound_page p ord r = Some (put_compound p ord r)"
proof -
  let ?w = "storage (PageInfo_to_mem (CompP ord))"
  let ?f = "\<lambda>i self. uadd p i \<bind> (\<lambda>q. write_page_info q (CompP ord) self)"
  have small: "p + i \<le> usize_max" if "i < 2 ^ ord" for i
    using page_small(3) [OF assms(3), of "p + i"] assms(2) that by simp
  have "forO [k ..< 2 ^ ord] ?f s = Some (s\<lparr>hm_page_info := (\<lambda>q. if p + k \<le> q \<and> q < p + 2 ^ ord then ?w
      else hm_page_info s q)\<rparr>)"
    if "k \<le> 2 ^ ord" "hm_page_count s = hm_page_count r" for k s
    using that
  proof (induction "2 ^ ord - k" arbitrary: k s)
    case 0
    then have e: "[k ..< 2 ^ ord] = []"
      "(\<lambda>q. if p + k \<le> q \<and> q < p + 2 ^ ord then ?w else hm_page_info s q) = hm_page_info s"
      by (auto simp: fun_eq_iff)
    show ?case unfolding e by simp
  next
    case (Suc m)
    then have k: "k < 2 ^ ord" by simp
    have "?f k s = Some (put_info (p + k) (CompP ord) s)"
      using k small [OF k] Suc.prems assms(2) by (simp add: write_page_info_eq)
    moreover have "forO [Suc k ..< 2 ^ ord] ?f (put_info (p + k) (CompP ord) s) =
        Some ((put_info (p + k) (CompP ord) s)\<lparr>hm_page_info := (\<lambda>q. if p + Suc k \<le> q \<and> q < p + 2 ^ ord
          then ?w else hm_page_info (put_info (p + k) (CompP ord) s) q)\<rparr>)"
      using Suc.hyps(2) k Suc.prems by (intro Suc.hyps(1)) simp_all
    moreover have "(\<lambda>q. if p + Suc k \<le> q \<and> q < p + 2 ^ ord
        then ?w else hm_page_info (put_info (p + k) (CompP ord) s) q)
        = (\<lambda>q. if p + k \<le> q \<and> q < p + 2 ^ ord then ?w else hm_page_info s q)"
      using k by (auto simp: put_info_def fun_eq_iff)
    ultimately show ?case using k by (simp add: upt_conv_Cons put_info_def)
  qed
  from this [of 1 r] have "forO [1 ..< 2 ^ ord] ?f r = Some (put_compound p ord r)"
    by (simp add: put_compound_def Suc_le_eq)
  moreover have "ushl 1 ord = Some (2 ^ ord)" using assms(1) by (simp add: MAX_ORDER_def)
  ultimately show ?thesis by (simp add: mark_compound_page_def)
qed

section \<open>Steps of the invariant\<close>

text \<open>Lists of other orders do not see a change at a page that is not on them.\<close>

lemma free_heads_upd:
  "free_heads n (V(p := pi)) ord =
     (if p < n \<and> (\<exists>nx. pi = FreeP nx ord) then insert p (free_heads n V ord) else free_heads n V ord - {p})"
  by (auto simp: free_heads_def)

lemma heads_upd:
  "blk (V p) = blk pi \<Longrightarrow> heads n (V(p := pi)) ord = heads n V ord"
  by (auto simp: heads_def)

lemma chain_not_in: "chain V ord start ps \<Longrightarrow> p \<in> set ps \<Longrightarrow> \<exists>nx. V p = FreeP nx ord"
  by (induction ps arbitrary: start) auto

text \<open>Taking the first page of a free list: the page becomes allocated in the view.\<close>

lemma heap_rep_take:
  assumes rep: "heap_rep B V P L r" and ord: "ord < MAX_ORDER" and L: "L ord = p # ps"
    and nx: "V p = FreeP nx ord"
  defines "r' \<equiv> r\<lparr>hm_next_page := (hm_next_page r)[ord := nx],
      hm_free_pages := (hm_free_pages r)[ord := length ps]\<rparr>"
  shows "heap_rep B (V(p := AllocP ord)) (insert p P) (L(ord := ps)) r'"
proof -
  let ?V = "V(p := AllocP ord)"
  note D = heap_repD [OF rep]
  note LL = lists_okD [OF D(3)]
  have p: "p < hm_page_count r" using LL(3) [OF ord] L by (auto simp: free_heads_def)
  have len: "length (hm_next_page r) = MAX_ORDER" "length (hm_free_pages r) = MAX_ORDER"
    using params_okD [OF D(1)] by auto
  have other: "p \<notin> set (L k)" if "k < MAX_ORDER" "k \<noteq> ord" for k
    using chain_not_in [OF LL(1) [OF that(1)], of p] nx that by auto
  have "chain ?V k (hm_next_page r' ! k) ((L(ord := ps)) k)" if k: "k < MAX_ORDER" for k
  proof (cases "k = ord")
    case True
    have "chain V ord nx ps" using LL(1) [OF ord] L nx by auto
    moreover have "p \<notin> set ps" using LL(2) [OF ord] L by simp
    ultimately show ?thesis using True len ord by (auto simp: r'_def intro: chain_cong)
  next
    case False
    then show ?thesis using LL(1) [OF k] other [OF k] by (auto simp: r'_def intro: chain_cong)
  qed
  moreover have "set ((L(ord := ps)) k) = free_heads (hm_page_count r) ?V k" if k: "k < MAX_ORDER" for k
  proof (cases "k = ord")
    case True
    then show ?thesis using LL(2,3) [OF ord] L by (auto simp: free_heads_upd)
  next
    case False
    then show ?thesis using LL(3) [OF k] other [OF k] by (auto simp: free_heads_upd)
  qed
  moreover have "distinct ps" using LL(2) [OF ord] L by simp
  ultimately have "lists_ok ?V (L(ord := ps)) r'"
    using LL(2,4) len ord by (simp add: lists_ok_def r'_def nth_list_update)
  moreover have "counts_ok B ?V r'"
    using D(4) nx by (simp add: counts_ok_def r'_def heads_upd)
  moreover have "blocks_ok (hm_page_count r) ?V"
    using nx by (intro blocks_ok_head [OF D(2)]) simp_all
  moreover have "params_ok r'" using D(1) by (simp add: params_ok_def r'_def)
  moreover have "read_page_info r' q = read_page_info r q" for q
    by (simp add: read_page_info_def check_pfn_def r'_def)
  moreover have "p \<notin> B" using D(8) [of p] nx by auto
  ultimately show ?thesis
    using D(5,6,7,8) ord by (auto simp: heap_rep_def r'_def MAX_ORDER_def)
qed

lemma get_next_page_none:
  assumes "heap_rep B V P L r" and "ord < MAX_ORDER" and "L ord = []"
  shows "get_next_page ord r = Some (Err AllocError_OutOfMemory, r)"
  using lists_okD(1) [OF heap_repD(3) [OF assms(1)] assms(2)] assms params_okD [OF heap_repD(1) [OF assms(1)]]
  by (simp add: get_next_page_def)

lemma get_next_page_some:
  assumes rep: "heap_rep B V P L r" and ord: "ord < MAX_ORDER" and L: "L ord = p # ps"
  obtains r' where "get_next_page ord r = Some (Ok p, r')" and "p < hm_page_count r"
    and "heap_rep B (V(p := AllocP ord)) (insert p P) (L(ord := ps)) r'"
    and "hm_start_virt r' = hm_start_virt r" and "hm_page_count r' = hm_page_count r"
    and "\<exists>nx. V p = FreeP nx ord"
proof -
  note D = heap_repD [OF rep]
  note LL = lists_okD [OF D(3) ord]
  obtain nx where nx: "V p = FreeP nx ord" and np: "hm_next_page r ! ord = p" using LL(1) L by auto
  have p: "p < hm_page_count r" using LL(3) L by (auto simp: free_heads_def)
  then have "p \<noteq> NO_PAGE" using page_small(2) [OF D(1)] by simp
  moreover have "p \<notin> P" using D(7) [of p] nx by auto
  ultimately have "get_next_page ord r = Some (Ok p, r\<lparr>hm_next_page := (hm_next_page r)[ord := nx],
      hm_free_pages := (hm_free_pages r)[ord := length ps]\<rparr>)"
    using params_okD [OF D(1)] D(6) [OF p] nx np LL(4) L ord by (simp add: get_next_page_def)
  from that [OF this p heap_rep_take [OF rep ord L nx]] nx show thesis by simp
qed

text \<open>Writing the metadata of an allocated head.\<close>

lemma heap_rep_write_head:
  assumes rep: "heap_rep B V P L r" and p: "p < hm_page_count r" "p \<notin> B"
    and V: "V p = AllocP ord" and pi: "blk pi = Some ord" "\<And>fi. pi \<noteq> PageInfo_Free fi" "PageInfo_fits pi"
  shows "heap_rep B (V(p := pi)) (P - {p}) L (put_info p pi r)"
proof -
  note D = heap_repD [OF rep]
  have L: "p \<notin> set (L k)" if "k < MAX_ORDER" for k
    using lists_okD(3) [OF D(3) that] V by (auto simp: free_heads_def)
  have "chain (V(p := pi)) k (hm_next_page r ! k) (L k)" if "k < MAX_ORDER" for k
    using lists_okD(1) [OF D(3) that] by (rule chain_cong) (use L [OF that] in auto)
  then have "lists_ok (V(p := pi)) L (put_info p pi r)"
    using lists_okD [OF D(3)] L pi(2) by (auto simp: lists_ok_def free_heads_upd)
  moreover have "counts_ok B (V(p := pi)) (put_info p pi r)"
    using D(4) V pi(1) by (simp add: counts_ok_def heads_upd)
  moreover have "blocks_ok (hm_page_count r) (V(p := pi))"
    using V pi(1) by (intro blocks_ok_head [OF D(2)]) simp_all
  moreover have "params_ok (put_info p pi r)" using D(1) by (simp add: params_ok_def)
  ultimately show ?thesis
    using D(5,6,7,8) p pi(3) by (auto simp: heap_rep_def read_put_info)
qed

text \<open>
  Splitting: the pages of an allocated block of order \<open>ord\<close> become two free blocks of the
  order below, which head the free list of that order.
\<close>

definition split_view :: "nat \<Rightarrow> nat \<Rightarrow> nat \<Rightarrow> page_view \<Rightarrow> page_view" where
  "split_view p k nx V = (\<lambda>i.
     if i = p then FreeP (p + 2 ^ k) k
     else if i = p + 2 ^ k then FreeP nx k
     else if p < i \<and> i < p + 2 ^ Suc k then CompP k
     else V i)"

lemma split_view_out: "i \<notin> {p ..< p + 2 ^ Suc k} \<Longrightarrow> split_view p k nx V i = V i"
  by (auto simp: split_view_def)

lemma block_union_head:
  "p < n \<Longrightarrow> blk (V p) = Some ord \<Longrightarrow> block_union n V {p ..< p + 2 ^ ord}"
  unfolding block_union_def by blast

lemma split_view_blocks:
  assumes V: "blocks_ok n V" and p: "p < n" "blk (V p) = Some (Suc k)"
  shows "blocks_ok n (split_view p k nx V)"
proof (rule reblock [OF V, where R = "{p ..< p + 2 ^ Suc k}"])
  note b = blocks_okD [OF V p]
  have dvd: "2 ^ k dvd p" using b(2) by (rule power_le_dvd) simp
  fix q ord assume q: "q \<in> {p ..< p + 2 ^ Suc k}"
  show "block_ok n (split_view p k nx V) q ord" if "blk (split_view p k nx V q) = Some ord"
  proof -
    have "(q = p \<or> q = p + 2 ^ k) \<and> ord = k"
      using q that by (auto simp: split_view_def split: if_splits)
    then show ?thesis using b dvd by (auto simp: block_ok_def split_view_def)
  qed
  show "\<exists>h. h < q \<and> q < h + 2 ^ ord \<and> blk (split_view p k nx V h) = Some ord"
    if "split_view p k nx V q = CompP ord"
  proof -
    have k: "ord = k" "q \<noteq> p" "q \<noteq> p + 2 ^ k" using q that by (auto simp: split_view_def split: if_splits)
    show ?thesis
    proof (cases "q < p + 2 ^ k")
      case True
      then show ?thesis using k q by (intro exI [of _ p]) (auto simp: split_view_def)
    next
      case False
      then show ?thesis using k q by (intro exI [of _ "p + 2 ^ k"]) (auto simp: split_view_def)
    qed
  qed
qed (use p in \<open>rule block_union_head\<close>, rule split_view_out)

lemma split_view_heads:
  assumes V: "blocks_ok n V" and p: "p < n" "blk (V p) = Some (Suc k)"
  shows "heads n (split_view p k nx V) ord =
    (if ord = Suc k then heads n V ord - {p}
     else if ord = k then heads n V ord \<union> {p, p + 2 ^ k} else heads n V ord)"
proof -
  note b = blocks_okD [OF V p]
  have "blk (V i) = None" if "p < i" "i < p + 2 ^ Suc k" for i using b(4) [OF that] by simp
  then have new: "blk (split_view p k nx V i) =
      (if i = p \<or> i = p + 2 ^ k then Some k else blk (V i))" for i
    by (auto simp: split_view_def)
  have "p + 2 ^ k < n" using b(3) by (simp add: less_le_trans [OF _ b(3)])
  moreover have "p + 2 ^ k \<notin> heads n V ord" using b(4) [of "p + 2 ^ k"] by (auto simp: heads_def)
  ultimately show ?thesis using p by (auto simp: heads_def new)
qed

lemma split_view_free_heads:
  assumes V: "blocks_ok n V" and p: "p < n" "V p = AllocP (Suc k)"
  shows "free_heads n (split_view p k nx V) ord =
    (if ord = k then free_heads n V ord \<union> {p, p + 2 ^ k} else free_heads n V ord)"
proof -
  have bp: "blk (V p) = Some (Suc k)" using p by simp
  note b = blocks_okD [OF V p(1) bp]
  have "V i \<noteq> PageInfo_Free fi" if "p \<le> i" "i < p + 2 ^ Suc k" for i fi
    using b(4) [of i] p(2) that by (cases "i = p") auto
  moreover have "p + 2 ^ k < n" using b(3) by (simp add: less_le_trans [OF _ b(3)])
  ultimately show ?thesis using p by (auto simp: free_heads_def split_view_def)
qed


lemma chain_start:
  "chain V ord start ps \<Longrightarrow> start = NO_PAGE \<or> start \<in> set ps"
  by (cases ps) auto

lemma heap_rep_next:
  assumes rep: "heap_rep B V P L r" and k: "k < MAX_ORDER"
  shows "hm_next_page r ! k = NO_PAGE \<or> hm_next_page r ! k < hm_page_count r"
  using chain_start [OF lists_okD(1) [OF heap_repD(3) [OF rep] k]]
    lists_okD(3) [OF heap_repD(3) [OF rep] k] by (auto simp: free_heads_def)

lemma fits_FreeP:
  assumes "params_ok r" and "nx = NO_PAGE \<or> nx \<le> hm_page_count r" and "k < MAX_ORDER"
  shows "PageInfo_fits (FreeP nx k)"
  using assms(2,3) page_small(1) [OF assms(1), of nx] by (auto simp: MAX_ORDER_def)

lemma free_not_in_block:
  assumes V: "blocks_ok n V" and p: "p < n" "V p = AllocP ord"
    and x: "x \<in> free_heads n V k"
  shows "x \<notin> {p ..< p + 2 ^ ord}"
  using blocks_okD(4) [OF V p(1), of ord x] p(2) x by (cases "x = p") (auto simp: free_heads_def)

lemma split_lists:
  assumes rep: "heap_rep B V P L r" and p: "p < hm_page_count r" "V p = AllocP (Suc k)"
    and r': "hm_page_count r' = hm_page_count r" "hm_next_page r' = (hm_next_page r)[k := p]"
      "hm_free_pages r' = (hm_free_pages r)[k := length (L k) + 2]"
  shows "lists_ok (split_view p k (hm_next_page r ! k) V) (L(k := p # (p + 2 ^ k) # L k)) r'"
proof -
  let ?V' = "split_view p k (hm_next_page r ! k) V" and ?n = "hm_page_count r"
  note D = heap_repD [OF rep]
  note LL = lists_okD [OF D(3)]
  have bp: "blk (V p) = Some (Suc k)" using p by simp
  have k: "k < MAX_ORDER" using blocks_okD(1) [OF D(2) p(1) bp] by simp
  have out: "x \<notin> {p ..< p + 2 ^ Suc k}" if "j < MAX_ORDER" "x \<in> set (L j)" for j x
    using free_not_in_block [OF D(2) p] LL(3) [OF that(1)] that(2) by blast
  have old: "chain ?V' j (hm_next_page r ! j) (L j)" if j: "j < MAX_ORDER" for j
    using LL(1) [OF j] by (rule chain_cong) (rule split_view_out, rule out [OF j])
  have len: "length (hm_next_page r) = MAX_ORDER" "length (hm_free_pages r) = MAX_ORDER"
    using params_okD [OF D(1)] by auto
  have V': "?V' p = FreeP (p + 2 ^ k) k" "?V' (p + 2 ^ k) = FreeP (hm_next_page r ! k) k"
    by (simp_all add: split_view_def)
  have "chain ?V' j (hm_next_page r' ! j) ((L(k := p # (p + 2 ^ k) # L k)) j)" if j: "j < MAX_ORDER" for j
    using old [OF j] V' j len k by (auto simp: r')
  moreover have "distinct ((L(k := p # (p + 2 ^ k) # L k)) j)" if j: "j < MAX_ORDER" for j
    using LL(2) [OF j] out [OF k, of p] out [OF k, of "p + 2 ^ k"] by auto
  moreover have "set ((L(k := p # (p + 2 ^ k) # L k)) j) = free_heads ?n ?V' j" if j: "j < MAX_ORDER" for j
    using LL(3) [OF j] by (auto simp: split_view_free_heads [OF D(2) p])
  ultimately show ?thesis using LL(4) len k by (auto simp: lists_ok_def r' nth_list_update)
qed

lemma split_counts:
  assumes rep: "heap_rep B V P L r" and p: "p < hm_page_count r" "V p = AllocP (Suc k)"
    and r': "hm_page_count r' = hm_page_count r"
      "hm_nr_pages r' = (hm_nr_pages r)[Suc k := hm_nr_pages r ! Suc k - 1, k := hm_nr_pages r ! k + 2]"
  shows "0 < hm_nr_pages r ! Suc k" "counts_ok B (split_view p k nx V) r'"
proof -
  let ?n = "hm_page_count r"
  note D = heap_repD [OF rep]
  have bp: "blk (V p) = Some (Suc k)" using p by simp
  note b = blocks_okD [OF D(2) p(1) bp]
  have k: "Suc k < MAX_ORDER" using b(1) .
  have nr: "hm_nr_pages r ! j = card (heads ?n V j - B)" if "j < MAX_ORDER" for j
    using D(4) that by (simp add: counts_ok_def)
  have B: "p \<notin> B" "p + 2 ^ k \<notin> B" using D(8) [of p] D(8) [of "p + 2 ^ k"] p b(4) [of "p + 2 ^ k"] by auto
  have pin: "p \<in> heads ?n V (Suc k) - B" using p B by (auto simp: heads_def)
  then show pos: "0 < hm_nr_pages r ! Suc k"
    unfolding nr [OF k] by (auto simp: card_gt_0_iff)
  have "p \<notin> heads ?n V k" "p + 2 ^ k \<notin> heads ?n V k"
    using p b(4) [of "p + 2 ^ k"] by (auto simp: heads_def)
  then have two: "card (insert p (insert (p + 2 ^ k) (heads ?n V k - B))) = card (heads ?n V k - B) + 2"
    by simp
  have "heads ?n V k \<union> {p, p + 2 ^ k} - B = insert p (insert (p + 2 ^ k) (heads ?n V k - B))"
    using B by auto
  moreover have "heads ?n V (Suc k) - {p} - B = heads ?n V (Suc k) - B - {p}" by auto
  ultimately have "card (heads ?n (split_view p k nx V) j - B) = hm_nr_pages r' ! j"
    if "j < MAX_ORDER" for j
    using params_okD(1) [OF D(1)] k two pin nr [OF that] nr [OF k]
    unfolding split_view_heads [OF D(2) p(1) bp] r'
    by (cases "j = Suc k"; cases "j = k") (simp_all add: nr)
  then show "counts_ok B (split_view p k nx V) r'" by (simp add: counts_ok_def r')
qed

lemma params_ok_put [simp]:
  "params_ok (put_info p pi r) = params_ok r" "params_ok (put_compound p ord r) = params_ok r"
  by (simp_all add: params_ok_def)

lemma counters_small:
  assumes "heap_rep B V P L r" and "k < MAX_ORDER"
  shows "hm_nr_pages r ! k \<le> hm_page_count r" "length (L k) \<le> hm_page_count r"
    "hm_page_count r < 2 ^ 35"
proof -
  note D = heap_repD [OF assms(1)]
  show "hm_nr_pages r ! k \<le> hm_page_count r"
    using D(4) assms(2) card_heads_le by (simp add: counts_ok_def)
  note LL = lists_okD [OF D(3) assms(2)]
  have "set (L k) \<subseteq> {..< hm_page_count r}" using LL(3) by (auto simp: free_heads_def)
  then have "card (set (L k)) \<le> hm_page_count r" using card_mono [of "{..< hm_page_count r}"] by simp
  then show "length (L k) \<le> hm_page_count r" using LL(2) by (simp add: distinct_card)
  show "hm_page_count r < 2 ^ 35" by (rule params_okD(4) [OF D(1)])
qed

lemma init_compound_page_eq:
  assumes "ord < MAX_ORDER" and "p + 2 ^ ord \<le> hm_page_count r" and "params_ok r"
  shows "init_compound_page p ord nx r = Some (put_compound p ord (put_info p (FreeP nx ord) r))"
proof -
  have "p < hm_page_count r" using assms(2) by (rule less_le_trans [rotated]) simp
  then show ?thesis
    using mark_compound_page_eq [of ord p "put_info p (FreeP nx ord) r"] assms
    by (simp add: init_compound_page_def write_page_info_eq)
qed

lemma split_page_ok:
  assumes rep: "heap_rep B V P L r" and p: "p < hm_page_count r" "V p = AllocP (Suc k)"
  obtains r' where "split_page p (Suc k) r = Some (Ok (), r')"
    and "heap_rep B (split_view p k (hm_next_page r ! k) V) (P - {p}) (L(k := p # (p + 2 ^ k) # L k)) r'"
    and "hm_start_virt r' = hm_start_virt r" and "hm_page_count r' = hm_page_count r"
proof -
  let ?n = "hm_page_count r" and ?p2 = "p + 2 ^ k" and ?nx = "hm_next_page r ! k"
  let ?V' = "split_view p k ?nx V"
  note D = heap_repD [OF rep]
  have bp: "blk (V p) = Some (Suc k)" using p by simp
  note b = blocks_okD [OF D(2) p(1) bp]
  have k: "k < MAX_ORDER" "Suc k < MAX_ORDER" "k < 64" using b(1) by (auto simp: MAX_ORDER_def)
  have le: "p + 2 ^ k \<le> ?n" "?p2 + 2 ^ k \<le> ?n" "?p2 < ?n"
    using b(3) by (simp_all add: less_le_trans [OF _ b(3)])
  note len = params_okD [OF D(1)]
  define r1 where "r1 = put_compound p k (put_info p (FreeP ?p2 k) r)"
  define r2 where "r2 = put_compound ?p2 k (put_info ?p2 (FreeP ?nx k) r1)"
  define r' where "r' = r2\<lparr>hm_next_page := (hm_next_page r)[k := p],
    hm_nr_pages := (hm_nr_pages r)[Suc k := hm_nr_pages r ! Suc k - 1, k := hm_nr_pages r ! k + 2],
    hm_free_pages := (hm_free_pages r)[k := length (L k) + 2]\<rparr>"
  have sel: "hm_page_count r' = ?n" "hm_start_virt r' = hm_start_virt r"
    by (simp_all add: r'_def r2_def r1_def)
  have "PageInfo_fits (FreeP ?p2 k)" by (rule fits_FreeP [OF D(1) _ k(1)]) (use le in simp)
  moreover have "PageInfo_fits (FreeP ?nx k)"
    by (rule fits_FreeP [OF D(1) _ k(1)]) (use heap_rep_next [OF rep k(1)] in auto)
  ultimately have f: "PageInfo_fits (FreeP ?p2 k)" "PageInfo_fits (FreeP ?nx k)" .
  have cnt: "0 < hm_nr_pages r ! Suc k" "counts_ok B ?V' r'"
    using split_counts [OF rep p, of r'] by (simp_all add: r'_def r2_def r1_def)
  have "hm_nr_pages r ! k + 2 \<le> usize_max" "length (L k) + 2 \<le> usize_max" "p + 2 ^ k \<le> usize_max"
    using counters_small [OF rep k(1)] le(1) by (auto simp: usize_max_eq)
  then have "split_page p (Suc k) r = Some (Ok (), r')"
    using k len le cnt(1) D(1) lists_okD(4) [OF D(3) k(1)]
    by (simp add: split_page_def init_compound_page_eq r'_def r2_def r1_def)
  moreover have "heap_rep B ?V' (P - {p}) (L(k := p # ?p2 # L k)) r'"
    unfolding heap_rep_def sel
  proof (intro conjI allI impI ballI subsetI)
    show "params_ok r'" using D(1) by (simp add: params_ok_def r'_def r2_def r1_def)
    show "blocks_ok ?n ?V'" by (rule split_view_blocks [OF D(2) p(1) bp])
    show "lists_ok ?V' (L(k := p # ?p2 # L k)) r'"
      by (rule split_lists [OF rep p]) (simp_all add: r'_def r2_def r1_def)
    show "counts_ok B ?V' r'" by (rule cnt)
    fix q assume q: "q < ?n"
    show "PageInfo_fits (?V' q)" using f D(5) [OF q] k by (simp add: split_view_def MAX_ORDER_def)
    assume "q \<notin> P - {p}"
    with D(6) [OF q] have "q \<noteq> p \<Longrightarrow> read_page_info r q = Some (V q)" by blast
    moreover have "read_page_info r' q = read_page_info r2 q"
      by (simp add: r'_def read_page_info_def check_pfn_def)
    ultimately show "read_page_info r' q = Some (?V' q)"
      using f k(1) le q by (auto simp: r2_def r1_def read_put_compound read_put_info split_view_def)
  next
    fix q assume q: "q \<in> P - {p}"
    then obtain ord where V: "V q = AllocP ord" using D(7) by blast
    have "q \<notin> {p ..< p + 2 ^ Suc k}" using b(4) [of q] q V by auto
    then have "?V' q = V q" by (rule split_view_out)
    with V show "\<exists>ord. ?V' q = AllocP ord" by simp
  next
    fix q assume q: "q \<in> B"
    then have V: "q < ?n" "V q = AllocP 0" using D(8) by blast+
    have "q \<notin> {p ..< p + 2 ^ Suc k}" using b(4) [of q] p(2) V by (cases "q = p") auto
    then have "?V' q = V q" by (rule split_view_out)
    with V show "q \<in> {p. p < ?n \<and> ?V' p = AllocP 0}" by simp
  qed
  ultimately show thesis using sel by (intro that)
qed

end
