(* ===== verification/Heap_Alloc.thy ===== *)
theory Heap_Alloc
  imports Heap_Invariant
begin

unbundle bit_operations_syntax

text \<open>
  Allocation of pages: \<open>refill_page_list\<close>, \<open>allocate_pages_info\<close> and their callers.

  \<open>free_set\<close> is the set of free pages of a view.  Splitting blocks is invisible at this
  level: \<open>same_pages\<close> says that two views have the same free pages and the same
  metadata for all others.  An allocation takes exactly one aligned block out of the free pages.
\<close>

section \<open>Free pages\<close>

definition block_of :: "nat \<Rightarrow> nat \<Rightarrow> nat set" where
  "block_of p ord = {p ..< p + 2 ^ ord}"

definition free_set :: "nat \<Rightarrow> page_view \<Rightarrow> nat set" where
  "free_set n V = (\<Union>ord. \<Union>p \<in> free_heads n V ord. block_of p ord)"

definition same_pages :: "nat \<Rightarrow> page_view \<Rightarrow> page_view \<Rightarrow> bool" where
  "same_pages n V V' \<longleftrightarrow> free_set n V' = free_set n V
     \<and> (\<forall>x < n. x \<notin> free_set n V \<longrightarrow> V' x = V x)"

lemma same_pages_refl [simp]: "same_pages n V V"
  by (simp add: same_pages_def)

lemma same_pages_trans: "same_pages n V V' \<Longrightarrow> same_pages n V' V'' \<Longrightarrow> same_pages n V V''"
  by (auto simp: same_pages_def)

lemma free_setI: "p \<in> free_heads n V ord \<Longrightarrow> x \<in> block_of p ord \<Longrightarrow> x \<in> free_set n V"
  by (auto simp: free_set_def)

lemma free_setE:
  assumes "x \<in> free_set n V"
  obtains p ord where "p \<in> free_heads n V ord" and "x \<in> block_of p ord"
  using assms by (auto simp: free_set_def)

lemma block_of_Suc: "block_of p (Suc k) = block_of p k \<union> block_of (p + 2 ^ k) k"
  by (auto simp: block_of_def)

lemma head_in_block [simp]: "p \<in> block_of p ord"
  by (simp add: block_of_def)

text \<open>An allocated block has no free page.\<close>

lemma alloc_not_free:
  assumes V: "blocks_ok n V" and p: "p < n" "blk (V p) = Some ord" "\<And>fi. V p \<noteq> PageInfo_Free fi"
  shows "block_of p ord \<inter> free_set n V = {}"
proof -
  have False if x: "x \<in> block_of p ord" "x \<in> free_set n V" for x
  proof -
    from x(2) obtain q k where q: "q \<in> free_heads n V k" "x \<in> block_of q k" by (rule free_setE)
    then have "q < n" "blk (V q) = Some k" by (auto simp: free_heads_def)
    then have "p = q" using blocks_disjoint [OF V p(1,2)] x(1) q(2) by (auto simp: block_of_def)
    with q(1) p(3) show False by (auto simp: free_heads_def)
  qed
  then show ?thesis by blast
qed

lemma free_set_take:
  assumes V: "blocks_ok n V" and p: "p < n" "V p = FreeP nx ord" and pi: "\<And>fi. pi \<noteq> PageInfo_Free fi"
    and b: "blk pi = Some ord"
  shows "free_set n (V(p := pi)) = free_set n V - block_of p ord"
proof -
  let ?V = "V(p := pi)"
  have V': "blocks_ok n ?V" using b p by (intro blocks_ok_head [OF V]) simp_all
  have "block_of p ord \<inter> free_set n ?V = {}"
    using alloc_not_free [OF V' p(1)] b pi by simp
  moreover have "free_set n ?V \<subseteq> free_set n V"
    using pi by (auto simp: free_set_def free_heads_upd)
  moreover have "x \<in> free_set n ?V" if x: "x \<in> free_set n V" "x \<notin> block_of p ord" for x
  proof -
    from x(1) obtain q k where q: "q \<in> free_heads n V k" "x \<in> block_of q k" by (rule free_setE)
    have "q \<noteq> p" using x(2) q p(2) by (auto simp: free_heads_def)
    then have "q \<in> free_heads n ?V k" using q(1) pi by (simp add: free_heads_upd)
    then show ?thesis using q(2) by (rule free_setI)
  qed
  ultimately show ?thesis by blast
qed

lemma free_set_split:
  assumes V: "blocks_ok n V" and p: "p < n" "V p = AllocP (Suc k)"
  shows "free_set n (split_view p k nx V) = free_set n V \<union> block_of p (Suc k)"
proof -
  have "x \<in> free_set n (split_view p k nx V)" if "x \<in> free_set n V" for x
  proof -
    from that obtain q j where "q \<in> free_heads n V j" "x \<in> block_of q j" by (rule free_setE)
    then show ?thesis by (intro free_setI [of q _ _ j]) (auto simp: split_view_free_heads [OF V p])
  qed
  moreover have "block_of p (Suc k) \<subseteq> free_set n (split_view p k nx V)"
    unfolding block_of_Suc by (auto intro: free_setI [of _ _ _ k] simp: split_view_free_heads [OF V p])
  moreover have "free_set n (split_view p k nx V) \<subseteq> free_set n V \<union> block_of p (Suc k)"
    by (auto elim!: free_setE intro: free_setI simp: split_view_free_heads [OF V p] block_of_Suc
        split: if_splits)
  ultimately show ?thesis by blast
qed

text \<open>Taking a block off its list and splitting it changes no page.\<close>

lemma same_pages_split:
  assumes V: "blocks_ok n V" and p: "p < n" "V p = FreeP nx (Suc k)"
  shows "same_pages n V (split_view p k nx' (V(p := AllocP (Suc k))))"
proof -
  let ?V = "V(p := AllocP (Suc k))"
  have V': "blocks_ok n ?V" using p by (intro blocks_ok_head [OF V]) simp_all
  have pin: "p \<in> free_heads n V (Suc k)" using p by (auto simp: free_heads_def)
  then have sub: "block_of p (Suc k) \<subseteq> free_set n V" by (auto intro: free_setI)
  have "free_set n (split_view p k nx' ?V) = free_set n V"
    using free_set_split [OF V' p(1), of k nx'] free_set_take [OF V p, of "AllocP (Suc k)"] sub
    by (simp add: Un_absorb2)
  moreover have "split_view p k nx' ?V x = V x" if "x \<notin> free_set n V" for x
  proof -
    have "x \<notin> {p ..< p + 2 ^ Suc k}" using sub that by (auto simp: block_of_def)
    then have "split_view p k nx' ?V x = ?V x" by (rule split_view_out)
    moreover have "x \<noteq> p" using \<open>x \<notin> {p ..< p + 2 ^ Suc k}\<close> by auto
    ultimately show ?thesis by simp
  qed
  ultimately show ?thesis by (simp add: same_pages_def)
qed

section \<open>Refilling a free list\<close>

lemma refill_loop:
  assumes "heap_rep B V {} L r" and "L ro \<noteq> []" and "ord \<le> ro" and "ro < MAX_ORDER"
  shows "\<exists>r' V' L'. forM (rev [ord + 1 ..< ro + 1])
      (\<lambda>ord. bindM (get_next_page ord) (\<lambda>pfn. split_page pfn ord)) r = Some (Ok (), r')
    \<and> heap_rep B V' {} L' r' \<and> L' ord \<noteq> [] \<and> same_pages (hm_page_count r) V V'
    \<and> hm_start_virt r' = hm_start_virt r \<and> hm_page_count r' = hm_page_count r"
  using assms(3,1,2,4)
proof (induction ro arbitrary: V L r rule: dec_induct)
  case base
  then show ?case by (intro exI [of _ r] exI [of _ V] exI [of _ L]) (simp add: ret_def)
next
  case (step k)
  let ?f = "\<lambda>ord. bindM (get_next_page ord) (\<lambda>pfn. split_page pfn ord)"
  obtain p ps where L: "L (Suc k) = p # ps" using step.prems(2) by (cases "L (Suc k)") auto
  obtain r1 where r1: "get_next_page (Suc k) r = Some (Ok p, r1)" "p < hm_page_count r"
    "heap_rep B (V(p := AllocP (Suc k))) {p} (L(Suc k := ps)) r1"
    "hm_start_virt r1 = hm_start_virt r" "hm_page_count r1 = hm_page_count r" "\<exists>nx. V p = FreeP nx (Suc k)"
    using get_next_page_some [OF step.prems(1,3) L] by auto
  obtain r2 where r2: "split_page p (Suc k) r1 = Some (Ok (), r2)"
    "heap_rep B (split_view p k (hm_next_page r1 ! k) (V(p := AllocP (Suc k)))) {}
       (L(Suc k := ps, k := p # (p + 2 ^ k) # L k)) r2"
    "hm_start_virt r2 = hm_start_virt r1" "hm_page_count r2 = hm_page_count r1"
    using split_page_ok [OF r1(3), of p k] r1(2,5) by auto
  have same: "same_pages (hm_page_count r) V (split_view p k (hm_next_page r1 ! k) (V(p := AllocP (Suc k))))"
    using same_pages_split [OF heap_repD(2) [OF step.prems(1)] r1(2)] r1(6) by blast
  have "\<exists>r' V' L'. forM (rev [ord + 1 ..< k + 1]) ?f r2 = Some (Ok (), r')
    \<and> heap_rep B V' {} L' r' \<and> L' ord \<noteq> []
    \<and> same_pages (hm_page_count r2) (split_view p k (hm_next_page r1 ! k) (V(p := AllocP (Suc k)))) V'
    \<and> hm_start_virt r' = hm_start_virt r2 \<and> hm_page_count r' = hm_page_count r2"
    using step.prems(3) by (intro step.IH [OF r2(2)]) simp_all
  moreover have "forM (rev [ord + 1 ..< Suc k + 1]) ?f r = forM (rev [ord + 1 ..< k + 1]) ?f r2"
    using step.hyps r1(1) r2(1) by (simp add: bindM_def)
  ultimately show ?case using same same_pages_trans r1(4,5) r2(3,4) by metis
qed

lemma refill_page_list_ok:
  assumes rep: "heap_rep B V {} L r" and ord: "ord < MAX_ORDER"
    and ex: "\<exists>j. ord \<le> j \<and> j < MAX_ORDER \<and> L j \<noteq> []"
  obtains r' V' L' where "refill_page_list ord r = Some (Ok (), r')" and "heap_rep B V' {} L' r'"
    and "L' ord \<noteq> []" and "same_pages (hm_page_count r) V V'"
    and "hm_start_virt r' = hm_start_virt r" and "hm_page_count r' = hm_page_count r"
proof -
  note D = heap_repD [OF rep]
  have len: "length (hm_next_page r) = MAX_ORDER" using params_okD [OF D(1)] by simp
  have np: "hm_next_page r ! j \<noteq> NO_PAGE \<longleftrightarrow> L j \<noteq> []" if "j < MAX_ORDER" for j
  proof (cases "L j")
    case Nil
    then show ?thesis using lists_okD(1) [OF D(3) that] by simp
  next
    case (Cons p ps)
    then have "p < hm_page_count r" using lists_okD(3) [OF D(3) that] by (auto simp: free_heads_def)
    then show ?thesis using lists_okD(1) [OF D(3) that] Cons page_small(2) [OF D(1), of p] by simp
  qed
  show thesis
  proof (cases "L ord = []")
    case False
    then show thesis using rep ord len np by (intro that [of r V L]) (simp_all add: refill_page_list_def)
  next
    case True
    obtain ro where ro: "find (\<lambda>ord. hm_next_page r ! ord \<noteq> NO_PAGE) [ord + 1 ..< MAX_ORDER] = Some ro"
      using ex True np
      by (cases "find (\<lambda>ord. hm_next_page r ! ord \<noteq> NO_PAGE) [ord + 1 ..< MAX_ORDER]")
        (force simp: find_None_iff Suc_le_eq le_less)+
    then have "hm_next_page r ! ro \<noteq> NO_PAGE" "ro \<in> set [ord + 1 ..< MAX_ORDER]"
      by (auto simp: find_Some_iff in_set_conv_nth)
    then have ro': "L ro \<noteq> []" "ord \<le> ro" "ro < MAX_ORDER" using np by auto
    from refill_loop [OF rep ro'] obtain r' V' L' where
      "forM (rev [ord + 1 ..< ro + 1]) (\<lambda>ord. bindM (get_next_page ord) (\<lambda>pfn. split_page pfn ord)) r
        = Some (Ok (), r')" "heap_rep B V' {} L' r'" "L' ord \<noteq> []" "same_pages (hm_page_count r) V V'"
      "hm_start_virt r' = hm_start_virt r" "hm_page_count r' = hm_page_count r" by blast
    moreover have "hm_next_page r ! ord = NO_PAGE" using np [OF ord] True by simp
    ultimately show thesis
      using len ord ro by (intro that [of r' V' L']) (simp_all add: refill_page_list_def)
  qed
qed

lemma refill_page_list_none:
  assumes rep: "heap_rep B V {} L r" and ord: "ord < MAX_ORDER"
    and none: "\<And>j. ord \<le> j \<Longrightarrow> j < MAX_ORDER \<Longrightarrow> L j = []"
  shows "refill_page_list ord r = Some (Err AllocError_OutOfMemory, r)"
proof -
  note D = heap_repD [OF rep]
  have np: "hm_next_page r ! j = NO_PAGE" if "ord \<le> j" "j < MAX_ORDER" for j
    using lists_okD(1) [OF D(3) that(2)] none [OF that] by simp
  then have "find (\<lambda>ord. hm_next_page r ! ord \<noteq> NO_PAGE) [ord + 1 ..< MAX_ORDER] = None"
    by (auto simp: find_None_iff)
  then show ?thesis using np [of ord] ord params_okD [OF D(1)] by (simp add: refill_page_list_def)
qed


section \<open>Allocating a block\<close>

text \<open>The virtual address of a page of the heap.\<close>

definition page_vaddr :: "HeapMemoryRegion \<Rightarrow> nat \<Rightarrow> VirtAddr" where
  "page_vaddr r p = VirtAddr (virt_bits (hm_start_virt r) + of_nat (p * PAGE_SIZE))"

lemma page_vaddr:
  assumes r: "params_ok r" and p: "p \<le> hm_page_count r"
  shows "umul p PAGE_SIZE = Some (p * PAGE_SIZE)"
    "VirtAddr_add (hm_start_virt r) (of_nat (p * PAGE_SIZE)) = Some (page_vaddr r p)"
    "unat (virt_bits (page_vaddr r p)) = unat (virt_bits (hm_start_virt r)) + p * PAGE_SIZE"
    "VirtAddr_ok (page_vaddr r p)"
    "VirtAddr_sub (page_vaddr r p) (hm_start_virt r) = Some (of_nat (p * PAGE_SIZE))"
    "p * PAGE_SIZE < 2 ^ 47"
proof -
  have ok: "VirtAddr_ok (hm_start_virt r)" using r by (simp add: params_ok_def)
  have "in_half (virt_bits (hm_start_virt r)) (p * PAGE_SIZE)"
    using r p by (auto simp: params_ok_def intro: in_half_mono)
  from VirtAddr_add_linear [OF ok this] obtain v where
    v: "VirtAddr_add (hm_start_virt r) (of_nat (p * PAGE_SIZE)) = Some v" "VirtAddr_ok v"
    "unat (virt_bits v) = unat (virt_bits (hm_start_virt r)) + p * PAGE_SIZE"
    "p * PAGE_SIZE < 2 ^ 47" "VirtAddr_sub v (hm_start_virt r) = Some (of_nat (p * PAGE_SIZE))"
    "v = page_vaddr r p"
    unfolding page_vaddr_def by metis
  from v(1-5) show "VirtAddr_add (hm_start_virt r) (of_nat (p * PAGE_SIZE)) = Some (page_vaddr r p)"
    "unat (virt_bits (page_vaddr r p)) = unat (virt_bits (hm_start_virt r)) + p * PAGE_SIZE"
    "VirtAddr_ok (page_vaddr r p)" "p * PAGE_SIZE < 2 ^ 47"
    "VirtAddr_sub (page_vaddr r p) (hm_start_virt r) = Some (of_nat (p * PAGE_SIZE))"
    unfolding v(6) by (simp_all only:)
  show "umul p PAGE_SIZE = Some (p * PAGE_SIZE)" using v(4) by (simp add: usize_max_eq)
qed

text \<open>
  What an allocation does to the view: one block of free pages gets the new head \<open>pg\<close>,
  every page outside the old free pages keeps its metadata.
\<close>

definition took_block :: "nat \<Rightarrow> page_view \<Rightarrow> page_view \<Rightarrow> nat \<Rightarrow> nat \<Rightarrow> PageInfo \<Rightarrow> bool" where
  "took_block n V V' p ord pg \<longleftrightarrow> 2 ^ ord dvd p \<and> block_of p ord \<subseteq> free_set n V
     \<and> free_set n V' = free_set n V - block_of p ord
     \<and> V' p = pg \<and> (\<forall>x \<in> block_of p ord - {p}. V' x = CompP ord)
     \<and> (\<forall>x < n. x \<notin> free_set n V \<longrightarrow> V' x = V x)"

lemma allocate_pages_info_ok:
  assumes rep: "heap_rep B V {} L r" and ord: "ord < MAX_ORDER"
    and ex: "\<exists>j. ord \<le> j \<and> j < MAX_ORDER \<and> L j \<noteq> []"
    and pg: "blk pg = Some ord" "\<And>fi. pg \<noteq> PageInfo_Free fi" "PageInfo_fits pg"
  obtains r' V' L' p where "allocate_pages_info ord pg r = Some (Ok (page_vaddr r p), r')"
    and "heap_rep B V' {} L' r'" and "p < hm_page_count r" and "took_block (hm_page_count r) V V' p ord pg"
    and "hm_start_virt r' = hm_start_virt r" and "hm_page_count r' = hm_page_count r"
proof -
  let ?n = "hm_page_count r"
  obtain r1 V1 L1 where r1: "refill_page_list ord r = Some (Ok (), r1)" "heap_rep B V1 {} L1 r1"
    "L1 ord \<noteq> []" "same_pages ?n V V1" "hm_start_virt r1 = hm_start_virt r" "hm_page_count r1 = ?n"
    using refill_page_list_ok [OF rep ord ex] by metis
  obtain p ps where L: "L1 ord = p # ps" using r1(3) by (cases "L1 ord") auto
  obtain r2 where r2: "get_next_page ord r1 = Some (Ok p, r2)" "p < ?n"
    "heap_rep B (V1(p := AllocP ord)) {p} (L1(ord := ps)) r2"
    "hm_start_virt r2 = hm_start_virt r" "hm_page_count r2 = ?n" and free: "\<exists>nx. V1 p = FreeP nx ord"
    using get_next_page_some [OF r1(2) ord L] r1(5,6) by metis
  have nB: "p \<notin> B" using heap_repD(8) [OF r1(2)] free by fastforce
  let ?V = "V1(p := pg)" and ?r = "put_info p pg r2"
  have rep': "heap_rep B ?V {} (L1(ord := ps)) ?r"
    using heap_rep_write_head [OF r2(3) _ nB _ pg] r2(2,5) by simp
  have V1: "blocks_ok ?n V1" using heap_repD(2) [OF r1(2)] r1(6) by simp
  from free obtain nx where nx: "V1 p = FreeP nx ord" by blast
  then have b: "blk (V1 p) = Some ord" by simp
  have sub: "block_of p ord \<subseteq> free_set ?n V1"
    using nx r2(2) by (auto intro!: free_setI simp: free_heads_def)
  have "took_block ?n V ?V p ord pg"
    unfolding took_block_def
  proof (intro conjI ballI allI impI)
    show "2 ^ ord dvd p" using blocks_okD(2) [OF V1 r2(2) b] .
    show "block_of p ord \<subseteq> free_set ?n V" using sub r1(4) by (simp add: same_pages_def)
    show "free_set ?n ?V = free_set ?n V - block_of p ord"
      using free_set_take [OF V1 r2(2) nx pg(2,1)] r1(4) by (simp add: same_pages_def)
    fix x
    show "?V x = CompP ord" if "x \<in> block_of p ord - {p}"
      using blocks_okD(4) [OF V1 r2(2) b, of x] that by (auto simp: block_of_def)
    have "p \<in> free_set ?n V" using sub r1(4) by (auto simp: same_pages_def)
    then show "?V x = V x" if "x < ?n" "x \<notin> free_set ?n V"
      using that r1(4) by (auto simp: same_pages_def)
  qed simp
  moreover have "allocate_pages_info ord pg r = Some (Ok (page_vaddr r p), ?r)"
  proof -
    have par: "params_ok r" using heap_repD(1) [OF rep] .
    have "VirtAddr_add (hm_start_virt r2) (of_nat (p * PAGE_SIZE)) = Some (page_vaddr r p)"
      using page_vaddr(2) [OF par, of p] r2(2,4) by simp
    then show ?thesis
      using r1(1) r2(1,2,5) page_vaddr(1) [OF par, of p]
      by (simp add: allocate_pages_info_def bindM_def write_page_info_eq)
  qed
  ultimately show thesis using rep' r2(2,4,5) by (intro that [of p ?r ?V "L1(ord := ps)"]) simp_all
qed

lemma allocate_pages_info_none:
  assumes "heap_rep B V {} L r" and "ord < MAX_ORDER"
    and "\<And>j. ord \<le> j \<Longrightarrow> j < MAX_ORDER \<Longrightarrow> L j = []"
  shows "allocate_pages_info ord pg r = Some (Err AllocError_OutOfMemory, r)"
  using refill_page_list_none [OF assms] by (simp add: allocate_pages_info_def bindM_def)

end
