(* ===== verification/Heap_Free.thy ===== *)
theory Heap_Free
  imports Heap_Alloc
begin

unbundle bit_operations_syntax

text \<open>
  Freeing pages: \<open>allocate_pfn\<close>, which unlinks a given page from its free list,
  \<open>merge_pages\<close>, the merge loop \<open>free_page_order\<close> and \<open>free_page\<close>.  Merging is invisible in
  the set of free pages: freeing a block adds exactly its pages.
\<close>

section \<open>Unlinking a page from a free list\<close>

text \<open>Two views that differ only in the links of free pages.\<close>

definition same_links :: "PageInfo \<Rightarrow> PageInfo \<Rightarrow> bool" where
  "same_links a b \<longleftrightarrow> a = b \<or> (\<exists>n1 n2 ord. a = FreeP n1 ord \<and> b = FreeP n2 ord)"

lemma same_links_blk: "same_links a b \<Longrightarrow> blk a = blk b"
  by (auto simp: same_links_def)

lemma chain_append:
  "chain V ord start (xs @ p # ys) \<Longrightarrow>
     \<exists>nx. V p = FreeP nx ord \<and> chain V ord nx ys \<and> start = hd (xs @ [p])"
  by (induction xs arbitrary: start) auto

text \<open>Relinking the predecessor \<open>q\<close> of \<open>p\<close> removes \<open>p\<close> from the chain.\<close>

lemma chain_unlink:
  assumes "chain V ord start (xs @ q # p # ys)" and "distinct (xs @ q # p # ys)"
    and "V p = FreeP nx ord" and "W = V(q := FreeP nx ord, p := pi)"
  shows "chain W ord start (xs @ q # ys)"
  using assms(1,2)
proof (induction xs arbitrary: start)
  case Nil
  then have "chain V ord nx ys" using assms(3) by auto
  then have "chain W ord nx ys" by (rule chain_cong) (use Nil.prems(2) assms(4) in auto)
  moreover have "W q = FreeP nx ord" using Nil.prems(2) assms(4) by simp
  ultimately show ?case using Nil.prems(1) by simp
next
  case (Cons a xs)
  from Cons.prems(1) obtain m where m: "start = a" "V a = FreeP m ord" "chain V ord m (xs @ q # p # ys)"
    by auto
  have "W a = FreeP m ord" using Cons.prems(2) m(2) assms(4) by auto
  moreover have "chain W ord m (xs @ q # ys)" using Cons.IH [OF m(3)] Cons.prems(2) by simp
  ultimately show ?case using m(1) by simp
qed

lemma free_set_same_links:
  assumes "\<And>x. same_links (V' x) (V x)"
  shows "free_set n V' = free_set n V"
proof -
  have "(\<exists>nx. V' x = FreeP nx ord) \<longleftrightarrow> (\<exists>nx. V x = FreeP nx ord)" for x ord
    using assms [of x] unfolding same_links_def by (cases "V x = V' x") auto
  then show ?thesis by (simp add: free_set_def free_heads_def)
qed

lemma heap_rep_unlink:
  assumes rep: "heap_rep B V P L r" and ord: "ord < MAX_ORDER" and L: "L ord = xs @ q # p # ys"
    and nx: "V p = FreeP nx ord"
  defines "r' \<equiv> (put_info p (AllocP ord) (put_info q (FreeP nx ord) r))
      \<lparr>hm_free_pages := (hm_free_pages r)[ord := length (L ord) - 1]\<rparr>"
  shows "heap_rep B (V(q := FreeP nx ord, p := AllocP ord)) P (L(ord := xs @ q # ys)) r'"
proof -
  let ?V = "V(q := FreeP nx ord, p := AllocP ord)" and ?n = "hm_page_count r"
  note D = heap_repD [OF rep]
  note LL = lists_okD [OF D(3)]
  have mem: "p < ?n" "q < ?n" using LL(3) [OF ord] L by (auto simp: free_heads_def)
  obtain m where q: "V q = FreeP m ord" using chain_not_in [OF LL(1) [OF ord], of q] L by auto
  have neq: "p \<noteq> q" using LL(2) [OF ord] L by auto
  have len: "length (hm_free_pages r) = MAX_ORDER" using params_okD [OF D(1)] by auto
  have other: "p \<notin> set (L k)" "q \<notin> set (L k)" if "k < MAX_ORDER" "k \<noteq> ord" for k
    using LL(3) [OF that(1)] nx q that(2) by (simp_all add: free_heads_def)
  have "nx = NO_PAGE \<or> nx < ?n"
  proof -
    have "chain V ord nx ys" using chain_append [of V ord _ "xs @ [q]" p ys] LL(1) [OF ord] L nx by auto
    then show ?thesis using chain_start [of V ord nx ys] LL(3) [OF ord] L by (auto simp: free_heads_def)
  qed
  then have fit: "PageInfo_fits (FreeP nx ord)" "PageInfo_fits (AllocP ord)"
    using fits_FreeP [OF D(1) _ ord, of nx] ord by (auto simp: MAX_ORDER_def)
  have "chain ?V k (hm_next_page r ! k) ((L(ord := xs @ q # ys)) k)" if k: "k < MAX_ORDER" for k
  proof (cases "k = ord")
    case True
    have "chain ?V ord (hm_next_page r ! ord) (xs @ q # ys)"
      using LL(1,2) [OF ord] unfolding L by (rule chain_unlink) (rule nx, rule refl)
    then show ?thesis using True by simp
  next
    case False
    have "chain ?V k (hm_next_page r ! k) (L k)"
      using LL(1) [OF k] by (rule chain_cong) (use other [OF k False] in auto)
    then show ?thesis using False by simp
  qed
  moreover have "set ((L(ord := xs @ q # ys)) k) = free_heads ?n ?V k" if k: "k < MAX_ORDER" for k
  proof (cases "k = ord")
    case True
    then show ?thesis using LL(2,3) [OF ord] L mem neq by (auto simp: free_heads_upd)
  next
    case False
    then show ?thesis using LL(3) [OF k] other [OF k] by (auto simp: free_heads_upd)
  qed
  moreover have "distinct ((L(ord := xs @ q # ys)) k)" if k: "k < MAX_ORDER" for k
    using LL(2) [OF k] L by auto
  ultimately have "lists_ok ?V (L(ord := xs @ q # ys)) r'"
    using LL(4) len ord L by (simp add: lists_ok_def r'_def nth_list_update)
  moreover have "counts_ok B ?V r'"
    using D(4) nx q neq by (simp add: counts_ok_def r'_def heads_upd)
  moreover have "blocks_ok ?n ?V"
    using nx q neq by (intro blocks_ok_head [OF blocks_ok_head [OF D(2)]]) auto
  moreover have "params_ok r'" using D(1) by (simp add: params_ok_def r'_def)
  moreover have "read_page_info r' x =
      read_page_info (put_info p (AllocP ord) (put_info q (FreeP nx ord) r)) x" for x
    by (simp add: read_page_info_def check_pfn_def r'_def)
  moreover have "p \<notin> B" "q \<notin> B" "p \<notin> P" "q \<notin> P" using D(8) [of p] D(8) [of q] D(7) [of p] D(7) [of q] nx q by auto
  ultimately show ?thesis
    using D(5,6,7,8) mem neq fit by (auto simp: heap_rep_def r'_def read_put_info)
qed


lemma next_free_pfn_eq:
  assumes rep: "heap_rep B V P L r" and q: "q < hm_page_count r" "V q = FreeP nx ord"
  shows "next_free_pfn r q k = Some nx"
proof -
  have "q \<notin> P" using heap_repD(7) [OF rep, of q] q(2) by auto
  then show ?thesis using heap_repD(6) [OF rep q(1)] q(2) by (simp add: next_free_pfn_def)
qed

lemma allocate_pfn_walk_ok:
  assumes rep: "heap_rep B V P L r" and ord: "ord < MAX_ORDER"
    and L: "L ord = xs @ q # ys" and p: "p \<in> set ys"
  shows "\<exists>r' V' ys'. allocate_pfn_walk p ord q r = Some (Ok (), r')
    \<and> heap_rep B V' P (L(ord := ys')) r' \<and> V' p = AllocP ord \<and> (\<forall>x. x \<noteq> p \<longrightarrow> same_links (V' x) (V x))
    \<and> hm_start_virt r' = hm_start_virt r \<and> hm_page_count r' = hm_page_count r"
  using L p
proof (induction ys arbitrary: xs q)
  case (Cons y ys)
  note D = heap_repD [OF rep]
  note LL = lists_okD [OF D(3) ord]
  have in_n: "x < hm_page_count r" "x \<noteq> NO_PAGE" if "x \<in> set (L ord)" for x
    using that LL(3) page_small(2) [OF D(1), of x] by (auto simp: free_heads_def)
  have "chain V ord (hm_next_page r ! ord) (xs @ q # y # ys)" using LL(1) Cons.prems(1) by simp
  then have "V q = FreeP y ord" using chain_append [of V ord _ xs q "y # ys"] by auto
  then have nq: "next_free_pfn r q ord = Some y"
    using next_free_pfn_eq [OF rep] in_n Cons.prems(1) by simp
  show ?case
  proof (cases "y = p")
    case False
    then have "allocate_pfn_walk p ord q r = allocate_pfn_walk p ord y r"
      using nq in_n(2) [of y] Cons.prems(1) by (subst allocate_pfn_walk.simps) simp
    moreover have "L ord = (xs @ [q]) @ y # ys" "p \<in> set ys" using Cons.prems False by auto
    ultimately show ?thesis using Cons.IH [of "xs @ [q]" y] by (simp only:)
  next
    case True
    obtain nx where nx: "V p = FreeP nx ord"
      using chain_not_in [OF LL(1), of p] Cons.prems(1) True by auto
    then have np: "next_free_pfn r p ord = Some nx"
      using next_free_pfn_eq [OF rep] in_n Cons.prems(1) True by simp
    define r' where "r' = (put_info p (AllocP ord) (put_info q (FreeP nx ord) r))
        \<lparr>hm_free_pages := (hm_free_pages r)[ord := length (L ord) - 1]\<rparr>"
    define W where "W = V(q := FreeP nx ord, p := AllocP ord)"
    have "heap_rep B W P (L(ord := xs @ q # ys)) r'"
      using heap_rep_unlink [OF rep ord _ nx] Cons.prems(1) True unfolding W_def r'_def by blast
    moreover have "allocate_pfn_walk p ord q r = Some (Ok (), r')"
      using nq np True in_n Cons.prems(1) LL(4) ord params_okD [OF D(1)]
      by (subst allocate_pfn_walk.simps) (simp add: write_page_info_eq r'_def)
    moreover have "\<forall>x. x \<noteq> p \<longrightarrow> same_links (W x) (V x)" "W p = AllocP ord"
      using \<open>V q = FreeP y ord\<close> by (auto simp: same_links_def W_def)
    moreover have "hm_start_virt r' = hm_start_virt r" "hm_page_count r' = hm_page_count r"
      by (simp_all add: r'_def)
    ultimately show ?thesis by blast
  qed
qed simp

lemma heap_rep_more: "heap_rep B V P L r \<Longrightarrow> V p = AllocP ord \<Longrightarrow> heap_rep B V (insert p P) L r"
  by (auto simp: heap_rep_def)

lemma allocate_pfn_ok:
  assumes rep: "heap_rep B V P L r" and p: "p < hm_page_count r" "V p = FreeP nx ord"
  obtains r' V' L' where "allocate_pfn p ord r = Some (Ok (), r')"
    and "heap_rep B V' (insert p P) L' r'" and "V' p = AllocP ord"
    and "\<And>x. x \<noteq> p \<Longrightarrow> same_links (V' x) (V x)"
    and "hm_start_virt r' = hm_start_virt r" and "hm_page_count r' = hm_page_count r"
proof -
  note D = heap_repD [OF rep]
  have ord: "ord < MAX_ORDER" using blocks_okD(1) [OF D(2) p(1)] p(2) by simp
  note LL = lists_okD [OF D(3) ord]
  have mem: "p \<in> set (L ord)" using LL(3) p by (auto simp: free_heads_def)
  then obtain q ys where L: "L ord = q # ys" by (cases "L ord") auto
  then have np: "hm_next_page r ! ord = q" using LL(1) by simp
  have q: "q < hm_page_count r" using LL(3) L by (auto simp: free_heads_def)
  have q': "q \<noteq> NO_PAGE" using page_small(2) [OF D(1), of q] q by simp
  have i: "idx (hm_next_page r) ord = Some q" using np ord params_okD [OF D(1)] by simp
  show thesis
  proof (cases "q = p")
    case True
    with get_next_page_some [OF rep ord L] obtain r' where r': "get_next_page ord r = Some (Ok p, r')"
      "heap_rep B (V(p := AllocP ord)) (insert p P) (L(ord := ys)) r'"
      "hm_start_virt r' = hm_start_virt r" "hm_page_count r' = hm_page_count r" by metis
    then show thesis using i q' True
      by (intro that [of r' "V(p := AllocP ord)" "L(ord := ys)"])
        (simp_all add: allocate_pfn_def same_links_def)
  next
    case False
    then have "p \<in> set ys" using mem L by simp
    from allocate_pfn_walk_ok [OF rep ord _ this, of "[]"] L obtain r' V' ys' where
      r': "allocate_pfn_walk p ord q r = Some (Ok (), r')" "heap_rep B V' P (L(ord := ys')) r'"
      "V' p = AllocP ord" "\<forall>x. x \<noteq> p \<longrightarrow> same_links (V' x) (V x)"
      "hm_start_virt r' = hm_start_virt r" "hm_page_count r' = hm_page_count r" by auto
    have "allocate_pfn p ord r = Some (Ok (), r')"
      using r'(1) i q' False by (simp add: allocate_pfn_def)
    from that [OF this heap_rep_more [OF r'(2,3)] r'(3)] r'(4-6) show thesis by simp
  qed
qed


section \<open>Merging two buddies\<close>

definition merge_view :: "nat \<Rightarrow> nat \<Rightarrow> page_view \<Rightarrow> page_view" where
  "merge_view p k V = (\<lambda>i.
     if i = p then AllocP (Suc k)
     else if p < i \<and> i < p + 2 ^ Suc k then CompP (Suc k)
     else V i)"

lemma merge_view_out: "i \<notin> {p ..< p + 2 ^ Suc k} \<Longrightarrow> merge_view p k V i = V i"
  by (auto simp: merge_view_def)

text \<open>Two allocated buddies of order \<open>k\<close> at \<open>p\<close>.\<close>

definition buddies :: "nat \<Rightarrow> page_view \<Rightarrow> nat \<Rightarrow> nat \<Rightarrow> bool" where
  "buddies n V p k \<longleftrightarrow> Suc k < MAX_ORDER \<and> 2 ^ Suc k dvd p \<and> p + 2 ^ k < n
     \<and> V p = AllocP k \<and> V (p + 2 ^ k) = AllocP k"

lemma buddies_pages:
  assumes V: "blocks_ok n V" and b: "buddies n V p k" and i: "p \<le> i" "i < p + 2 ^ Suc k"
  shows "V i = (if i = p \<or> i = p + 2 ^ k then AllocP k else CompP k)" "p + 2 ^ Suc k \<le> n"
proof -
  have p: "p < n" "blk (V p) = Some k" and q: "p + 2 ^ k < n" "blk (V (p + 2 ^ k)) = Some k"
    using b by (auto simp: buddies_def)
  show "p + 2 ^ Suc k \<le> n" using blocks_okD(3) [OF V q] by simp
  have "i < p + 2 ^ k \<or> i = p + 2 ^ k \<or> p + 2 ^ k < i" by linarith
  then show "V i = (if i = p \<or> i = p + 2 ^ k then AllocP k else CompP k)"
    using blocks_okD(4) [OF V p, of i] blocks_okD(4) [OF V q, of i] i b
    by (cases "i = p"; cases "i = p + 2 ^ k") (auto simp: buddies_def)
qed

lemma merge_view_blocks:
  assumes V: "blocks_ok n V" and b: "buddies n V p k"
  shows "blocks_ok n (merge_view p k V)"
proof (rule reblock [OF V, where R = "{p ..< p + 2 ^ Suc k}"])
  have p: "p < n" "blk (V p) = Some k" and q: "p + 2 ^ k < n" "blk (V (p + 2 ^ k)) = Some k"
    using b by (auto simp: buddies_def)
  show "block_union n V {p ..< p + 2 ^ Suc k}"
    unfolding block_union_def
  proof
    fix x assume x: "x \<in> {p ..< p + 2 ^ Suc k}"
    show "\<exists>q ord. q < n \<and> blk (V q) = Some ord \<and> x \<in> {q ..< q + 2 ^ ord}
        \<and> {q ..< q + 2 ^ ord} \<subseteq> {p ..< p + 2 ^ Suc k}"
    proof (cases "x < p + 2 ^ k")
      case True
      then show ?thesis using p x by (intro exI [of _ p] exI [of _ k]) auto
    next
      case False
      then show ?thesis using q x by (intro exI [of _ "p + 2 ^ k"] exI [of _ k]) auto
    qed
  qed
  fix i ord assume i: "i \<in> {p ..< p + 2 ^ Suc k}"
  show "block_ok n (merge_view p k V) i ord" if "blk (merge_view p k V i) = Some ord"
  proof -
    have "i = p" "ord = Suc k" using i that by (auto simp: merge_view_def split: if_splits)
    then show ?thesis using b buddies_pages(2) [OF V b, of p] by (auto simp: block_ok_def buddies_def merge_view_def)
  qed
  show "\<exists>h. h < i \<and> i < h + 2 ^ ord \<and> blk (merge_view p k V h) = Some ord"
    if "merge_view p k V i = CompP ord"
    using i that by (intro exI [of _ p]) (auto simp: merge_view_def split: if_splits)
qed (rule merge_view_out)

lemma merge_view_heads:
  assumes V: "blocks_ok n V" and b: "buddies n V p k"
  shows "heads n (merge_view p k V) ord =
    (if ord = k then heads n V ord - {p, p + 2 ^ k}
     else if ord = Suc k then insert p (heads n V ord) else heads n V ord)"
proof -
  have new: "blk (merge_view p k V i) = (if i = p then Some (Suc k)
      else if i = p + 2 ^ k then None else blk (V i))" for i
    using buddies_pages(1) [OF V b, of i] by (auto simp: merge_view_def)
  have "p < n" using b by (auto simp: buddies_def)
  then show ?thesis using b by (auto simp: heads_def new buddies_def)
qed

lemma merge_view_free_heads:
  assumes V: "blocks_ok n V" and b: "buddies n V p k"
  shows "free_heads n (merge_view p k V) ord = free_heads n V ord"
proof -
  have "V i \<noteq> PageInfo_Free fi" "merge_view p k V i \<noteq> PageInfo_Free fi"
    if "p \<le> i" "i < p + 2 ^ Suc k" for i fi
    using buddies_pages(1) [OF V b that] that by (auto simp: merge_view_def)
  moreover have "merge_view p k V i = V i" if "\<not> (p \<le> i \<and> i < p + 2 ^ Suc k)" for i
    using that by (intro merge_view_out) simp
  ultimately show ?thesis unfolding free_heads_def by metis
qed

lemma merge_counts:
  assumes rep: "heap_rep B V P L r" and b: "buddies (hm_page_count r) V p k" and B: "p \<notin> B" "p + 2 ^ k \<notin> B"
    and r': "hm_page_count r' = hm_page_count r"
      "hm_nr_pages r' = (hm_nr_pages r)[k := hm_nr_pages r ! k - 2, Suc k := hm_nr_pages r ! Suc k + 1]"
  shows "2 \<le> hm_nr_pages r ! k" "counts_ok B (merge_view p k V) r'"
proof -
  let ?n = "hm_page_count r"
  note D = heap_repD [OF rep]
  have k: "k < MAX_ORDER" "Suc k < MAX_ORDER" using b by (auto simp: buddies_def)
  have nr: "hm_nr_pages r ! j = card (heads ?n V j - B)" if "j < MAX_ORDER" for j
    using D(4) that by (simp add: counts_ok_def)
  have in_heads: "{p, p + 2 ^ k} \<subseteq> heads ?n V k - B" using b B by (auto simp: heads_def buddies_def)
  then have "card {p, p + 2 ^ k} \<le> card (heads ?n V k - B)" by (intro card_mono) auto
  then show two: "2 \<le> hm_nr_pages r ! k" by (simp add: nr [OF k(1)])
  have "heads ?n V k - {p, p + 2 ^ k} - B = heads ?n V k - B - {p, p + 2 ^ k}" by auto
  then have ck: "card (heads ?n V k - {p, p + 2 ^ k} - B) = hm_nr_pages r ! k - 2"
    using in_heads by (simp add: card_Diff_subset nr [OF k(1)])
  have "insert p (heads ?n V (Suc k)) - B = insert p (heads ?n V (Suc k) - B)" using B by auto
  moreover have "p \<notin> heads ?n V (Suc k)" using b by (simp add: heads_def buddies_def)
  ultimately have cs: "card (insert p (heads ?n V (Suc k)) - B) = hm_nr_pages r ! Suc k + 1"
    by (simp add: nr [OF k(2)])
  have "card (heads ?n (merge_view p k V) j - B) = hm_nr_pages r' ! j" if "j < MAX_ORDER" for j
    using params_okD(1) [OF D(1)] k nr [OF that] ck cs
    unfolding merge_view_heads [OF D(2) b] r'
    by (cases "j = Suc k"; cases "j = k") simp_all
  then show "counts_ok B (merge_view p k V) r'" by (simp add: counts_ok_def r')
qed

lemma merge_pages_ok:
  assumes rep: "heap_rep B V P L r" and b: "buddies (hm_page_count r) V p k" and B: "p \<notin> B" "p + 2 ^ k \<notin> B"
    and pq: "{p1, p2} = {p, p + 2 ^ k}"
  obtains r' where "merge_pages p1 p2 k r = Some (Ok p, r')"
    and "heap_rep B (merge_view p k V) (P - {p, p + 2 ^ k}) L r'"
    and "hm_start_virt r' = hm_start_virt r" and "hm_page_count r' = hm_page_count r"
proof -
  let ?n = "hm_page_count r" and ?V' = "merge_view p k V"
  note D = heap_repD [OF rep]
  note pages = buddies_pages [OF D(2) b]
  have k: "k < MAX_ORDER" "Suc k < MAX_ORDER" using b by (auto simp: buddies_def)
  have le: "p + 2 ^ Suc k \<le> ?n" using pages(2) [of p] by simp
  have p: "p < ?n" using b by (simp add: buddies_def)
  note len = params_okD [OF D(1)]
  define r1 where "r1 = put_compound p (Suc k) (put_info p (AllocP (Suc k)) r)"
  define r' where "r' = r1\<lparr>hm_nr_pages :=
    (hm_nr_pages r)[k := hm_nr_pages r ! k - 2, Suc k := hm_nr_pages r ! Suc k + 1]\<rparr>"
  have sel: "hm_page_count r' = ?n" "hm_start_virt r' = hm_start_virt r"
    by (simp_all add: r'_def r1_def)
  have cnt: "2 \<le> hm_nr_pages r ! k" "counts_ok B ?V' r'"
    using merge_counts [OF rep b B, of r'] by (simp_all add: r'_def r1_def)
  have m: "min p1 p2 = p" using pq by (auto simp: doubleton_eq_iff)
  have small: "hm_nr_pages r ! Suc k + 1 \<le> usize_max"
    using counters_small [OF rep k(2)] by (auto simp: usize_max_eq)
  have mark: "mark_compound_page p (Suc k) (put_info p (AllocP (Suc k)) r) = Some r1"
    unfolding r1_def using k le D(1) by (intro mark_compound_page_eq) simp_all
  have "merge_pages p1 p2 k r = Some (Ok p, r')"
    using k len cnt(1) small mark
    by (simp add: merge_pages_def m write_page_info_eq p r'_def) (simp add: MAX_ORDER_def r1_def)
  moreover have "heap_rep B ?V' (P - {p, p + 2 ^ k}) L r'"
    unfolding heap_rep_def sel
  proof (intro conjI allI impI ballI subsetI)
    show "params_ok r'" using D(1) by (simp add: params_ok_def r'_def r1_def)
    show "blocks_ok ?n ?V'" by (rule merge_view_blocks [OF D(2) b])
    show "counts_ok B ?V' r'" by (rule cnt)
    have "?V' x = V x" if "x \<in> set (L j)" "j < MAX_ORDER" for x j
    proof (rule merge_view_out)
      have "x \<in> free_heads ?n V j" using that lists_okD(3) [OF D(3)] by blast
      then show "x \<notin> {p ..< p + 2 ^ Suc k}"
        using pages(1) [of x] by (auto simp: free_heads_def split: if_splits)
    qed
    then show "lists_ok ?V' L r'"
      using D(3) by (auto simp: lists_ok_def r'_def r1_def merge_view_free_heads [OF D(2) b] intro: chain_cong)
    fix q assume q: "q < ?n"
    show "PageInfo_fits (?V' q)" using D(5) [OF q] k by (simp add: merge_view_def MAX_ORDER_def)
    assume "q \<notin> P - {p, p + 2 ^ k}"
    then have "q \<noteq> p \<Longrightarrow> q \<noteq> p + 2 ^ k \<Longrightarrow> read_page_info r q = Some (V q)" using D(6) [OF q] by blast
    moreover have "read_page_info r' q = read_page_info r1 q"
      by (simp add: r'_def read_page_info_def check_pfn_def)
    moreover have "PageInfo_fits (AllocP (Suc k))" using k by (simp add: MAX_ORDER_def)
    then have "read_page_info r1 q = (if p < q \<and> q < p + 2 ^ Suc k then Some (CompP (Suc k))
        else if q = p then Some (AllocP (Suc k)) else read_page_info r q)"
      unfolding r1_def using k(2) le p by (subst read_put_compound) (auto simp: read_put_info)
    ultimately show "read_page_info r' q = Some (?V' q)"
      by (cases "q = p"; cases "q = p + 2 ^ k") (auto simp: merge_view_def)
  next
    fix q assume q: "q \<in> P - {p, p + 2 ^ k}"
    then obtain ord where V: "V q = AllocP ord" using D(7) by blast
    have "q \<notin> {p ..< p + 2 ^ Suc k}" using pages(1) [of q] q V by (auto split: if_splits)
    then have "?V' q = V q" by (rule merge_view_out)
    with V show "\<exists>ord. ?V' q = AllocP ord" by simp
  next
    fix q assume q: "q \<in> B"
    then have V: "q < ?n" "V q = AllocP 0" using D(8) by blast+
    have "q \<notin> {p ..< p + 2 ^ Suc k}" using pages(1) [of q] q B V by (auto split: if_splits)
    then have "?V' q = V q" by (rule merge_view_out)
    with V show "q \<in> {p. p < ?n \<and> ?V' p = AllocP 0}" by simp
  qed
  ultimately show thesis using sel by (intro that)
qed


section \<open>The buddy of a block\<close>

lemma xor_exp_nat: "p XOR 2 ^ k = (if bit p k then p - 2 ^ k else p + 2 ^ k)" for p :: nat
proof -
  have set: "x XOR 2 ^ k = x + 2 ^ k" if "\<not> bit x k" for x :: nat
  proof -
    have "x XOR 2 ^ k = flip_bit k x" by (simp add: flip_bit_def push_bit_of_1)
    then show ?thesis using that by (simp add: flip_bit_eq_if set_bit_eq)
  qed
  have "p = (p XOR 2 ^ k) + 2 ^ k" if "bit p k"
  proof -
    have "\<not> bit (p XOR 2 ^ k) k" using that by (simp add: bit_xor_iff bit_exp_iff)
    from set [OF this] show ?thesis by (simp add: xor.assoc)
  qed
  then have "p XOR 2 ^ k = p - 2 ^ k" if "bit p k" using that by linarith
  then show ?thesis using set [of p] by simp
qed

lemma buddy_cases:
  fixes p :: nat
  assumes "2 ^ k dvd p"
  shows "{p, p XOR 2 ^ k} = {min p (p XOR 2 ^ k), min p (p XOR 2 ^ k) + 2 ^ k}"
    "2 ^ Suc k dvd min p (p XOR 2 ^ k)" "p XOR 2 ^ k \<noteq> p" "2 ^ k dvd p XOR 2 ^ k"
proof -
  obtain m where m: "p = m * 2 ^ k" using assms by (auto simp: dvd_def mult.commute)
  have bit: "bit p k \<longleftrightarrow> odd m" by (simp add: m bit_iff_odd)
  have "{p, p XOR 2 ^ k} = {min p (p XOR 2 ^ k), min p (p XOR 2 ^ k) + 2 ^ k}
      \<and> 2 ^ Suc k dvd min p (p XOR 2 ^ k) \<and> p XOR 2 ^ k \<noteq> p \<and> 2 ^ k dvd p XOR 2 ^ k"
  proof (cases "odd m")
    case True
    then obtain j where j: "m = 2 * j + 1" by (rule oddE)
    have "p XOR 2 ^ k = j * 2 ^ Suc k" "p = j * 2 ^ Suc k + 2 ^ k"
      using bit True by (simp_all add: xor_exp_nat m j algebra_simps)
    then show ?thesis by auto
  next
    case False
    then obtain j where j: "m = 2 * j" by (auto elim: evenE)
    have "p XOR 2 ^ k = j * 2 ^ Suc k + 2 ^ k" "p = j * 2 ^ Suc k"
      using bit False by (simp_all add: xor_exp_nat m j algebra_simps)
    then show ?thesis by auto
  qed
  then show "{p, p XOR 2 ^ k} = {min p (p XOR 2 ^ k), min p (p XOR 2 ^ k) + 2 ^ k}"
    "2 ^ Suc k dvd min p (p XOR 2 ^ k)" "p XOR 2 ^ k \<noteq> p" "2 ^ k dvd p XOR 2 ^ k" by blast+
qed

lemma compound_neighbor_eq:
  assumes "2 ^ ord dvd pfn"
  shows "compound_neighbor r pfn ord =
    (if ord \<ge> MAX_ORDER - 1 then Some (Err (AllocError_InvalidPageOrder ord))
     else if pfn XOR 2 ^ ord \<ge> hm_page_count r then Some (Err (AllocError_InvalidPfn (pfn XOR 2 ^ ord)))
     else Some (Ok (pfn XOR 2 ^ ord)))"
proof -
  have "pfn AND (2 ^ ord - 1) = 0"
  proof -
    have "pfn AND (2 ^ ord - 1) = take_bit ord pfn" by (simp only: take_bit_eq_mask mask_nat_def)
    then show ?thesis using assms by (simp add: take_bit_eq_mod mod_eq_0_iff_dvd)
  qed
  then show ?thesis by (simp add: compound_neighbor_def Let_def)
qed

section \<open>Freeing a block\<close>

lemma free_set_add:
  assumes "p < n" and "\<And>fi. V p \<noteq> PageInfo_Free fi"
  shows "free_set n (V(p := FreeP nx ord)) = free_set n V \<union> block_of p ord"
proof -
  have p: "p \<notin> free_heads n V k" for k using assms(2) by (auto simp: free_heads_def)
  have h: "free_heads n (V(p := FreeP nx ord)) k =
      (if k = ord then insert p (free_heads n V k) else free_heads n V k)" for k
    using assms(1) p [of k] by (auto simp: free_heads_upd)
  show ?thesis
  proof (intro subset_antisym subsetI)
    fix x assume "x \<in> free_set n (V(p := FreeP nx ord))"
    then show "x \<in> free_set n V \<union> block_of p ord"
      by (auto elim!: free_setE intro: free_setI simp: h split: if_splits)
  next
    fix x assume "x \<in> free_set n V \<union> block_of p ord"
    then show "x \<in> free_set n (V(p := FreeP nx ord))"
      by (auto elim!: free_setE intro: free_setI [of _ _ _ ord] free_setI simp: h)
  qed
qed

lemma free_page_raw_ok:
  assumes rep: "heap_rep B V P L r" and p: "p < hm_page_count r" "V p = AllocP ord" "p \<notin> B"
  obtains r' where "free_page_raw p ord r = Some r'"
    and "heap_rep B (V(p := FreeP (hm_next_page r ! ord) ord)) (P - {p}) (L(ord := p # L ord)) r'"
    and "hm_start_virt r' = hm_start_virt r" and "hm_page_count r' = hm_page_count r"
proof -
  let ?n = "hm_page_count r" and ?nx = "hm_next_page r ! ord"
  let ?V' = "V(p := FreeP ?nx ord)"
  note D = heap_repD [OF rep]
  note LL = lists_okD [OF D(3)]
  have ord: "ord < MAX_ORDER" using blocks_okD(1) [OF D(2) p(1)] p(2) by simp
  note len = params_okD [OF D(1)]
  have out: "p \<notin> set (L k)" if "k < MAX_ORDER" for k
    using LL(3) [OF that] p(2) by (auto simp: free_heads_def)
  have fit: "PageInfo_fits (FreeP ?nx ord)"
    by (rule fits_FreeP [OF D(1) _ ord]) (use heap_rep_next [OF rep ord] in auto)
  define r' where "r' = (put_info p (FreeP ?nx ord) r)
    \<lparr>hm_next_page := (hm_next_page r)[ord := p], hm_free_pages := (hm_free_pages r)[ord := length (L ord) + 1]\<rparr>"
  have sel: "hm_page_count r' = ?n" "hm_start_virt r' = hm_start_virt r" by (simp_all add: r'_def)
  have "length (L ord) + 1 \<le> usize_max" using counters_small [OF rep ord] by (auto simp: usize_max_eq)
  then have "free_page_raw p ord r = Some r'"
    using ord len p(1) LL(4) [OF ord] by (simp add: free_page_raw_def write_page_info_eq r'_def)
  moreover have "heap_rep B ?V' (P - {p}) (L(ord := p # L ord)) r'"
    unfolding heap_rep_def sel
  proof (intro conjI allI impI ballI subsetI)
    show "params_ok r'" using D(1) by (simp add: params_ok_def r'_def)
    show "blocks_ok ?n ?V'" using p(2) by (intro blocks_ok_head [OF D(2)]) simp_all
    show "counts_ok B ?V' r'" using D(4) p(2) by (simp add: counts_ok_def r'_def heads_upd)
    have old: "chain ?V' k (hm_next_page r ! k) (L k)" if k: "k < MAX_ORDER" for k
      using LL(1) [OF k] by (rule chain_cong) (use out [OF k] in auto)
    have "chain ?V' k (hm_next_page r' ! k) ((L(ord := p # L ord)) k)" if k: "k < MAX_ORDER" for k
      using old [OF k] len ord by (auto simp: r'_def)
    moreover have "set ((L(ord := p # L ord)) k) = free_heads ?n ?V' k" if k: "k < MAX_ORDER" for k
      using LL(3) [OF k] out [OF k] p(1) by (auto simp: free_heads_upd)
    moreover have "distinct ((L(ord := p # L ord)) k)" if k: "k < MAX_ORDER" for k
      using LL(2) [OF k] out [OF k] by auto
    ultimately show "lists_ok ?V' (L(ord := p # L ord)) r'"
      using LL(4) len ord by (simp add: lists_ok_def r'_def nth_list_update)
    fix q assume q: "q < ?n"
    show "PageInfo_fits (?V' q)" using D(5) [OF q] fit by simp
    show "read_page_info r' q = Some (?V' q)" if "q \<notin> P - {p}"
    proof -
      have "read_page_info r' q = read_page_info (put_info p (FreeP ?nx ord) r) q"
        by (simp add: r'_def read_page_info_def check_pfn_def)
      then show ?thesis using D(6) [OF q] that p(1) fit by (auto simp: read_put_info)
    qed
  next
    fix q assume "q \<in> P - {p}"
    then show "\<exists>ord. ?V' q = AllocP ord" using D(7) [of q] by auto
  next
    fix q assume "q \<in> B"
    then show "q \<in> {p. p < ?n \<and> ?V' p = AllocP 0}" using D(8) [of q] p(3) by auto
  qed
  ultimately show thesis using sel by (intro that)
qed


text \<open>
  One round of merging.  Either the buddy cannot be merged and nothing changes, or
  the block and its free buddy become one allocated block of the next order.
\<close>

definition merged :: "nat \<Rightarrow> page_view \<Rightarrow> page_view \<Rightarrow> nat \<Rightarrow> nat \<Rightarrow> nat \<Rightarrow> bool" where
  "merged n V V' p ord m \<longleftrightarrow> V' m = AllocP (Suc ord)
     \<and> free_set n V' \<union> block_of m (Suc ord) = free_set n V \<union> block_of p ord
     \<and> (\<forall>x < n. x \<notin> free_set n V \<union> block_of p ord \<longrightarrow> V' x = V x)"

lemma merged_view:
  assumes V: "blocks_ok n V" and dvd: "2 ^ ord dvd p" and q: "p XOR 2 ^ ord < n" "V (p XOR 2 ^ ord) = FreeP nx ord"
    and V1: "blocks_ok n V1" "buddies n V1 (min p (p XOR 2 ^ ord)) ord"
    and q1: "V1 (p XOR 2 ^ ord) = AllocP ord"
    and links: "\<And>x. x \<noteq> p XOR 2 ^ ord \<Longrightarrow> same_links (V1 x) (V x)"
  shows "merged n V (merge_view (min p (p XOR 2 ^ ord)) ord V1) p ord (min p (p XOR 2 ^ ord))"
proof -
  let ?q = "p XOR 2 ^ ord"
  let ?m = "min p ?q"
  note bc = buddy_cases [OF dvd]
  have mq: "{?m, ?m + 2 ^ ord} = {p, ?q}" using bc(1) by simp
  have same: "same_links (V1 x) ((V(?q := AllocP ord)) x)" for x
    using q1 links by (cases "x = ?q") (auto simp: same_links_def)
  have f: "free_set n (merge_view ?m ord V1) = free_set n V - block_of ?q ord"
  proof -
    have "free_set n (merge_view ?m ord V1) = free_set n V1"
      unfolding free_set_def using merge_view_free_heads [OF V1] by simp
    also have "\<dots> = free_set n (V(?q := AllocP ord))" by (rule free_set_same_links [OF same])
    also have "\<dots> = free_set n V - block_of ?q ord" by (rule free_set_take [OF V q]) simp_all
    finally show ?thesis .
  qed
  have blocks: "block_of ?m (Suc ord) = block_of p ord \<union> block_of ?q ord"
    unfolding block_of_Suc using mq by (auto simp: doubleton_eq_iff)
  have qf: "block_of ?q ord \<subseteq> free_set n V" using q free_setI [of ?q n V ord] by (auto simp: free_heads_def)
  have "merge_view ?m ord V1 x = V x"
    if x: "x < n" "x \<notin> free_set n V \<union> block_of p ord" for x
  proof -
    have "x \<notin> block_of ?m (Suc ord)" using x qf blocks by auto
    then have "merge_view ?m ord V1 x = V1 x" by (intro merge_view_out) (simp add: block_of_def)
    moreover have "x \<noteq> ?q" using x(2) qf head_in_block [of ?q ord] by blast
    moreover have "V x \<noteq> FreeP a b" for a b
      using x free_setI [of x n V b x] by (auto simp: free_heads_def)
    ultimately show ?thesis using links [of x] by (auto simp: same_links_def)
  qed
  moreover have "free_set n (merge_view ?m ord V1) \<union> block_of ?m (Suc ord) = free_set n V \<union> block_of p ord"
    unfolding f blocks using qf by auto
  ultimately show ?thesis by (simp add: merged_def merge_view_def)
qed

lemma try_to_merge_page_free_buddy:
  assumes rep: "heap_rep B V P L r" and P: "P \<subseteq> {p}"
    and p: "p < hm_page_count r" "V p = AllocP ord" "p \<notin> B"
    and q: "p XOR 2 ^ ord < hm_page_count r" "V (p XOR 2 ^ ord) = FreeP nx ord" and ord: "Suc ord < MAX_ORDER"
  obtains m r' V' L' where "try_to_merge_page p ord r = Some (Ok m, r')" and "heap_rep B V' {} L' r'"
    and "m < hm_page_count r" "m \<notin> B" and "merged (hm_page_count r) V V' p ord m"
    and "hm_start_virt r' = hm_start_virt r" "hm_page_count r' = hm_page_count r"
proof -
  let ?n = "hm_page_count r" and ?q = "p XOR 2 ^ ord"
  let ?m = "min p ?q"
  note D = heap_repD [OF rep]
  have bp: "blk (V p) = Some ord" using p(2) by simp
  have dvd: "2 ^ ord dvd p" using blocks_okD(2) [OF D(2) p(1) bp] .
  note bc = buddy_cases [OF dvd] and cn = compound_neighbor_eq [OF dvd, of r]
  have rd: "read_page_info r ?q = Some (V ?q)" using D(6) [OF q(1)] P bc(3) by auto
  obtain r1 V1 L1 where r1: "allocate_pfn ?q ord r = Some (Ok (), r1)"
    "heap_rep B V1 (insert ?q P) L1 r1" "V1 ?q = AllocP ord" "\<And>x. x \<noteq> ?q \<Longrightarrow> same_links (V1 x) (V x)"
    "hm_start_virt r1 = hm_start_virt r" "hm_page_count r1 = ?n"
    using allocate_pfn_ok [OF rep q] by metis
  have V1p: "V1 p = AllocP ord" using r1(4) [of p] bc(3) p(2) by (auto simp: same_links_def)
  have mq: "{?m, ?m + 2 ^ ord} = {p, ?q}" using bc(1) by simp
  then have both: "V1 x = AllocP ord" "x < ?n" "x \<notin> B" if "x \<in> {?m, ?m + 2 ^ ord}" for x
    using that r1(3) V1p p(1,3) q D(8) [of ?q] by (auto simp del: insert_iff simp: insert_iff [of x])
  have bud: "buddies (hm_page_count r1) V1 ?m ord"
    using ord bc(2) both r1(6) by (simp add: buddies_def)
  have nb: "?m \<notin> B" "?m + 2 ^ ord \<notin> B" using both(3) by auto
  obtain r2 where r2: "merge_pages p ?q ord r1 = Some (Ok ?m, r2)"
    "heap_rep B (merge_view ?m ord V1) (insert ?q P - {?m, ?m + 2 ^ ord}) L1 r2"
    "hm_start_virt r2 = hm_start_virt r1" "hm_page_count r2 = hm_page_count r1"
    using merge_pages_ok [OF r1(2) bud nb bc(1)] by blast
  have "insert ?q P - {?m, ?m + 2 ^ ord} = {}" unfolding mq using P by auto
  with r2(2) have rep': "heap_rep B (merge_view ?m ord V1) {} L1 r2" by simp
  have "merged ?n V (merge_view ?m ord V1) p ord ?m"
    using heap_repD(2) [OF r1(2)] bud r1(6) by (intro merged_view [OF D(2) dvd q _ _ r1(3,4)]) simp_all
  moreover have "try_to_merge_page p ord r = Some (Ok ?m, r2)"
    using cn q ord rd r1(1) r2(1) by (simp add: try_to_merge_page_def bindM_def MAX_ORDER_def)
  moreover have "?m < ?n" using both by auto
  ultimately show thesis using that rep' nb(1) r1(5,6) r2(3,4) by metis
qed

lemma try_to_merge_page_ok:
  assumes rep: "heap_rep B V P L r" and P: "P \<subseteq> {p}"
    and p: "p < hm_page_count r" "V p = AllocP ord" "p \<notin> B"
  shows "(\<exists>e. try_to_merge_page p ord r = Some (Err e, r))
    \<or> (\<exists>m r' V' L'. try_to_merge_page p ord r = Some (Ok m, r') \<and> heap_rep B V' {} L' r'
        \<and> Suc ord < MAX_ORDER \<and> m < hm_page_count r \<and> m \<notin> B \<and> merged (hm_page_count r) V V' p ord m
        \<and> hm_start_virt r' = hm_start_virt r \<and> hm_page_count r' = hm_page_count r)"
proof -
  let ?n = "hm_page_count r" and ?q = "p XOR 2 ^ ord"
  note D = heap_repD [OF rep]
  have bp: "blk (V p) = Some ord" using p(2) by simp
  have dvd: "2 ^ ord dvd p" using blocks_okD(2) [OF D(2) p(1) bp] .
  note bc = buddy_cases [OF dvd] and cn = compound_neighbor_eq [OF dvd, of r]
  show ?thesis
  proof (cases "ord < MAX_ORDER - 1 \<and> ?q < ?n \<and> (\<exists>nx. V ?q = FreeP nx ord)")
    case False
    show ?thesis
    proof (cases "ord < MAX_ORDER - 1 \<and> ?q < ?n")
      case True
      then have "read_page_info r ?q = Some (V ?q)" using D(6) [of ?q] P bc(3) by auto
      moreover have "fi_order fi \<noteq> ord" if "V ?q = PageInfo_Free fi" for fi
        using True False that by (cases fi) auto
      ultimately show ?thesis using True cn
        by (intro disjI1, cases "V ?q") (auto simp: try_to_merge_page_def)
    qed (use cn in \<open>auto simp: try_to_merge_page_def\<close>)
  next
    case True
    then obtain nx where q: "?q < ?n" "V ?q = FreeP nx ord" and ord: "Suc ord < MAX_ORDER" by auto
    show ?thesis using try_to_merge_page_free_buddy [OF rep P p q ord] ord by metis
  qed
qed

text \<open>What freeing a block does to the view: exactly its pages become free.\<close>

definition gave_block :: "nat \<Rightarrow> page_view \<Rightarrow> page_view \<Rightarrow> nat \<Rightarrow> nat \<Rightarrow> bool" where
  "gave_block n V V' p ord \<longleftrightarrow> free_set n V' = free_set n V \<union> block_of p ord
     \<and> (\<forall>x < n. x \<notin> free_set n V \<union> block_of p ord \<longrightarrow> V' x = V x)"

lemma gave_merged:
  assumes "merged n V V1 p ord m" and "gave_block n V1 V' m (Suc ord)"
  shows "gave_block n V V' p ord"
proof -
  have "free_set n V1 \<union> block_of m (Suc ord) = free_set n V \<union> block_of p ord"
    using assms(1) by (simp add: merged_def)
  then show ?thesis using assms unfolding gave_block_def merged_def by metis
qed

lemma free_page_order_ok:
  assumes "heap_rep B V P L r" and "P \<subseteq> {p}"
    and "p < hm_page_count r" "V p = AllocP ord" "p \<notin> B"
  shows "\<exists>r' V' L'. free_page_order p ord r = Some r' \<and> heap_rep B V' {} L' r'
    \<and> gave_block (hm_page_count r) V V' p ord
    \<and> hm_start_virt r' = hm_start_virt r \<and> hm_page_count r' = hm_page_count r"
  using assms
proof (induction "MAX_ORDER - ord" arbitrary: V P L r p ord rule: less_induct)
  case less
  note rep = less.prems(1) and p = less.prems(3-5)
  let ?n = "hm_page_count r"
  from try_to_merge_page_ok [OF rep less.prems(2) p] show ?case
  proof (elim disjE exE conjE)
    fix e assume e: "try_to_merge_page p ord r = Some (Err e, r)"
    obtain r' where r': "free_page_raw p ord r = Some r'"
      "heap_rep B (V(p := FreeP (hm_next_page r ! ord) ord)) (P - {p}) (L(ord := p # L ord)) r'"
      "hm_start_virt r' = hm_start_virt r" "hm_page_count r' = ?n"
      using free_page_raw_ok [OF rep p] by blast
    have "P - {p} = {}" using less.prems(2) by auto
    with r'(2) have "heap_rep B (V(p := FreeP (hm_next_page r ! ord) ord)) {} (L(ord := p # L ord)) r'" by simp
    moreover have "free_set ?n (V(p := FreeP (hm_next_page r ! ord) ord)) = free_set ?n V \<union> block_of p ord"
      using p by (intro free_set_add) simp_all
    then have "gave_block ?n V (V(p := FreeP (hm_next_page r ! ord) ord)) p ord" by (auto simp: gave_block_def)
    moreover have "free_page_order p ord r = Some r'"
      using e r'(1) by (subst free_page_order.simps) simp
    ultimately show ?thesis using r'(3,4) by blast
  next
    fix m r1 V1 L1
    assume m: "try_to_merge_page p ord r = Some (Ok m, r1)" "heap_rep B V1 {} L1 r1" "Suc ord < MAX_ORDER"
      "m < ?n" "m \<notin> B" and mg: "merged ?n V V1 p ord m"
      and sel: "hm_start_virt r1 = hm_start_virt r" "hm_page_count r1 = ?n"
    have "\<exists>r' V' L'. free_page_order m (Suc ord) r1 = Some r' \<and> heap_rep B V' {} L' r'
      \<and> gave_block (hm_page_count r1) V1 V' m (Suc ord)
      \<and> hm_start_virt r' = hm_start_virt r1 \<and> hm_page_count r' = hm_page_count r1"
      using m mg sel by (intro less.hyps) (auto simp: merged_def)
    moreover have "free_page_order p ord r = free_page_order m (Suc ord) r1"
    proof -
      have "ord + 1 \<le> usize_max" using m(3) by (simp add: MAX_ORDER_def usize_max_eq)
      then show ?thesis using m(1) by (subst free_page_order.simps) simp
    qed
    ultimately show ?thesis using gave_merged [OF mg] sel by metis
  qed
qed

text \<open>An allocated, slab or file page about to be freed: its metadata no longer counts.\<close>

lemma heap_rep_stale:
  assumes rep: "heap_rep B V {} L r" and p: "p < hm_page_count r" "blk (V p) = Some ord"
    and V: "\<And>fi. V p \<noteq> PageInfo_Free fi"
  shows "heap_rep B (V(p := AllocP ord)) {p} L r"
proof -
  note D = heap_repD [OF rep]
  have L: "p \<notin> set (L k)" if "k < MAX_ORDER" for k
    using lists_okD(3) [OF D(3) that] V by (auto simp: free_heads_def)
  have "chain (V(p := AllocP ord)) k (hm_next_page r ! k) (L k)" if "k < MAX_ORDER" for k
    using lists_okD(1) [OF D(3) that] by (rule chain_cong) (use L [OF that] in auto)
  then have "lists_ok (V(p := AllocP ord)) L r"
    using lists_okD [OF D(3)] L by (auto simp: lists_ok_def free_heads_upd)
  moreover have "counts_ok B (V(p := AllocP ord)) r"
    using D(4) p by (simp add: counts_ok_def heads_upd)
  moreover have "blocks_ok (hm_page_count r) (V(p := AllocP ord))"
    using p by (intro blocks_ok_head [OF D(2)]) simp_all
  moreover have "ord < 256" using blocks_okD(1) [OF D(2) p] by (simp add: MAX_ORDER_def)
  ultimately show ?thesis
    using D p by (auto simp: heap_rep_def)
qed

lemma free_set_stale:
  assumes "\<And>fi. V p \<noteq> PageInfo_Free fi"
  shows "free_set n (V(p := AllocP ord)) = free_set n V"
proof -
  have "free_heads n (V(p := AllocP ord)) k = free_heads n V k" for k
    using assms by (auto simp: free_heads_def)
  then show ?thesis by (simp add: free_set_def)
qed

lemma get_pfn_page:
  assumes r: "params_ok r" and p: "p < hm_page_count r"
  shows "get_pfn r (page_vaddr r p) = Some (Ok p)"
proof -
  note v = page_vaddr [OF r, of p]
  have u: "unat (of_nat (p * PAGE_SIZE) :: u64) = p * PAGE_SIZE"
    using v(6) p by (intro unat_of_nat_u64) simp
  have "virt_bits (hm_start_virt r) \<le> virt_bits (page_vaddr r p)"
    using v(3) p by (simp add: word_le_nat_alt)
  moreover have "p * PAGE_SIZE < hm_page_count r * PAGE_SIZE" using p by (simp add: page_consts)
  moreover have "umul (hm_page_count r) PAGE_SIZE = Some (hm_page_count r * PAGE_SIZE)"
    using page_vaddr(1) [OF r, of "hm_page_count r"] by simp
  ultimately show ?thesis
    using v(5) p u unfolding get_pfn_def get_virt_offset_def by (simp add: page_consts)
qed

lemma heap_free_page_ok:
  assumes rep: "heap_rep B V {} L r" and p: "p < hm_page_count r" "blk (V p) = Some ord" "p \<notin> B"
    and V: "\<And>fi. V p \<noteq> PageInfo_Free fi"
  obtains r' V' L' where "heap_free_page (page_vaddr r p) r = Some r'" and "heap_rep B V' {} L' r'"
    and "gave_block (hm_page_count r) V V' p ord"
    and "hm_start_virt r' = hm_start_virt r" and "hm_page_count r' = hm_page_count r"
proof -
  note D = heap_repD [OF rep]
  from free_page_order_ok [OF heap_rep_stale [OF rep p(1,2) V], of p ord] p obtain r' V' L' where
    r': "free_page_order p ord r = Some r'" "heap_rep B V' {} L' r'"
    "gave_block (hm_page_count r) (V(p := AllocP ord)) V' p ord"
    "hm_start_virt r' = hm_start_virt r" "hm_page_count r' = hm_page_count r"
    by auto
  have "gave_block (hm_page_count r) V V' p ord"
    using r'(3) free_set_stale [of V p, OF V] by (auto simp: gave_block_def)
  moreover have "heap_free_page (page_vaddr r p) r = Some r'"
    using get_pfn_page [OF D(1) p(1)] D(6) [OF p(1)] r'(1) p(2) V
    by (cases "V p") (auto simp: heap_free_page_def)
  ultimately show thesis using r'(2,4,5) by (intro that)
qed

end
