(* ===== verification/Heap_Spec.thy ===== *)
theory Heap_Spec
  imports Heap_Free
begin

text \<open>
  The contract of the page allocator.  The abstract state is the set of free page frames and the
  map from block heads to the metadata of the block; allocation moves one aligned block from the
  first to the second, freeing moves it back.  The locale \<open>page_allocator\<close> states this contract
  with what its clients derive from it; \<open>HeapMemoryRegion\<close> is shown to satisfy it.
\<close>

section \<open>The abstract allocator\<close>

record abs_heap =
  ah_free :: "nat set"
  ah_used :: "nat \<Rightarrow> PageInfo option"

definition abs_alloc :: "nat \<Rightarrow> PageInfo \<Rightarrow> nat \<Rightarrow> abs_heap \<Rightarrow> abs_heap \<Rightarrow> bool" where
  "abs_alloc ord pg p s s' \<longleftrightarrow> 2 ^ ord dvd p \<and> block_of p ord \<subseteq> ah_free s \<and> p \<notin> dom (ah_used s)
     \<and> s' = \<lparr> ah_free = ah_free s - block_of p ord, ah_used = (ah_used s)(p \<mapsto> pg) \<rparr>"

definition abs_free :: "nat \<Rightarrow> nat \<Rightarrow> abs_heap \<Rightarrow> abs_heap \<Rightarrow> bool" where
  "abs_free ord p s s' \<longleftrightarrow>
     s' = \<lparr> ah_free = ah_free s \<union> block_of p ord, ah_used = (ah_used s)(p := None) \<rparr>"

text \<open>A page that can be handed to an allocation or to a free of order \<open>ord\<close>.\<close>

definition used_page :: "nat \<Rightarrow> PageInfo \<Rightarrow> bool" where
  "used_page ord pg \<longleftrightarrow> blk pg = Some ord \<and> (\<forall>fi. pg \<noteq> PageInfo_Free fi) \<and> PageInfo_fits pg"

locale page_allocator =
  fixes inv :: "'s \<Rightarrow> bool"
    and abs :: "'s \<Rightarrow> abs_heap"
    and alloc :: "nat \<Rightarrow> PageInfo \<Rightarrow> 's \<Rightarrow> ((VirtAddr, AllocError) result \<times> 's) option"
    and free :: "VirtAddr \<Rightarrow> 's \<Rightarrow> 's option"
    and addr :: "'s \<Rightarrow> nat \<Rightarrow> VirtAddr"
    and boot :: "nat set"
  assumes alloc_refines: "inv s \<Longrightarrow> ord < MAX_ORDER \<Longrightarrow> used_page ord pg \<Longrightarrow>
      (\<exists>p s'. alloc ord pg s = Some (Ok (addr s p), s') \<and> inv s' \<and> p \<notin> boot
          \<and> abs_alloc ord pg p (abs s) (abs s') \<and> addr s' = addr s)
      \<or> (alloc ord pg s = Some (Err AllocError_OutOfMemory, s))"
    and free_refines: "inv s \<Longrightarrow> ah_used (abs s) p = Some pg \<Longrightarrow> used_page ord pg \<Longrightarrow> p \<notin> boot \<Longrightarrow>
      \<exists>s'. free (addr s p) s = Some s' \<and> inv s' \<and> abs_free ord p (abs s) (abs s') \<and> addr s' = addr s"
    and used_not_free: "inv s \<Longrightarrow> ah_used (abs s) p = Some pg \<Longrightarrow> used_page ord pg \<Longrightarrow>
      block_of p ord \<inter> ah_free (abs s) = {}"
begin

lemma alloc_free_restores:
  assumes "inv s" and "ord < MAX_ORDER" and "used_page ord pg" and "alloc ord pg s = Some (Ok v, s1)"
  obtains s2 where "free v s1 = Some s2" and "inv s2" and "abs s2 = abs s"
proof -
  from alloc_refines [OF assms(1-3)] assms(4) obtain p where
    p: "v = addr s p" "inv s1" "p \<notin> boot" "abs_alloc ord pg p (abs s) (abs s1)" "addr s1 = addr s" by auto
  have "ah_used (abs s1) p = Some pg" using p(4) by (simp add: abs_alloc_def)
  from free_refines [OF p(2) this assms(3) p(3)] p(5) obtain s2 where
    s2: "free v s1 = Some s2" "inv s2" "abs_free ord p (abs s1) (abs s2)" by (auto simp: p(1))
  have "abs s2 = abs s"
    using s2(3) p(4) by (cases "abs s") (auto simp: abs_free_def abs_alloc_def fun_upd_idem domIff)
  with s2(1,2) show thesis by (rule that)
qed

lemma alloc_disjoint:
  assumes "inv s" and "ah_used (abs s) p = Some pg" and "used_page k pg"
    and "ord < MAX_ORDER" and "used_page ord pg'" and "alloc ord pg' s = Some (Ok v, s')"
  obtains q where "v = addr s q" and "ah_used (abs s') q = Some pg'" and "ah_used (abs s') p = Some pg"
    and "block_of p k \<inter> block_of q ord = {}"
proof -
  from alloc_refines [OF assms(1,4,5)] assms(6) obtain q where
    q: "v = addr s q" "abs_alloc ord pg' q (abs s) (abs s')" by auto
  have d: "block_of p k \<inter> block_of q ord = {}"
    using used_not_free [OF assms(1-3)] q(2) by (auto simp: abs_alloc_def)
  then have "p \<noteq> q" using head_in_block by blast
  with q d assms(2) show thesis by (intro that [of q]) (auto simp: abs_alloc_def)
qed

end

section \<open>The abstraction of a heap region\<close>

definition heap_view :: "HeapMemoryRegion \<Rightarrow> page_view" where
  "heap_view r p = (case read_page_info r p of Some pg \<Rightarrow> pg | None \<Rightarrow> PageInfo_Reserved ReservedInfo)"

definition heap_used :: "nat \<Rightarrow> page_view \<Rightarrow> nat \<Rightarrow> PageInfo option" where
  "heap_used n V p = (if p < n \<and> blk (V p) \<noteq> None \<and> (\<forall>fi. V p \<noteq> PageInfo_Free fi) then Some (V p) else None)"

definition heap_abs :: "HeapMemoryRegion \<Rightarrow> abs_heap" where
  "heap_abs r = \<lparr> ah_free = free_set (hm_page_count r) (heap_view r),
     ah_used = heap_used (hm_page_count r) (heap_view r) \<rparr>"

definition heap_inv :: "nat set \<Rightarrow> HeapMemoryRegion \<Rightarrow> bool" where
  "heap_inv B r \<longleftrightarrow> (\<exists>L. heap_rep B (heap_view r) {} L r)"

text \<open>The view of a region with no stale pages is what its metadata reads as.\<close>

lemma heap_rep_cong:
  assumes "heap_rep B V P L r" and "P = {}" and "\<And>p. p < hm_page_count r \<Longrightarrow> V' p = V p"
  shows "heap_rep B V' P L r"
proof -
  note D = heap_repD [OF assms(1)]
  let ?n = "hm_page_count r"
  have fh: "free_heads ?n V' k = free_heads ?n V k" "heads ?n V' k = heads ?n V k" for k
    using assms(3) by (auto simp: free_heads_def heads_def)
  have "chain V' k (hm_next_page r ! k) (L k)" if k: "k < MAX_ORDER" for k
  proof (rule chain_cong [OF lists_okD(1) [OF D(3) k]])
    fix p assume "p \<in> set (L k)"
    then show "V' p = V p" using lists_okD(3) [OF D(3) k] assms(3) by (simp add: free_heads_def)
  qed
  then have "lists_ok V' L r" using lists_okD [OF D(3)] by (simp add: lists_ok_def fh)
  moreover have "blocks_ok ?n V'"
    unfolding blocks_ok_def
  proof (intro conjI allI impI)
    fix p ord assume p: "p < ?n \<and> blk (V' p) = Some ord"
    then have "blk (V p) = Some ord" using assms(3) by auto
    from blocks_okD [OF D(2) conjunct1 [OF p] this] assms(3) show "block_ok ?n V' p ord"
      by (simp add: block_ok_def)
  next
    fix p ord assume p: "p < ?n \<and> V' p = CompP ord"
    then have "V p = CompP ord" using assms(3) by auto
    from blocks_ok_owner [OF D(2) conjunct1 [OF p] this] obtain h where
      h: "h < p" "p < h + 2 ^ ord" "blk (V h) = Some ord" .
    with p assms(3) [of h] show "\<exists>h<p. p < h + 2 ^ ord \<and> blk (V' h) = Some ord" by auto
  qed
  ultimately show ?thesis
    using D assms(2,3) fh by (auto simp: heap_rep_def counts_ok_def)
qed

lemma heap_view_rep:
  assumes "heap_rep B V {} L r"
  shows "p < hm_page_count r \<Longrightarrow> heap_view r p = V p" and "heap_rep B (heap_view r) {} L r"
proof -
  show v: "heap_view r p = V p" if "p < hm_page_count r" for p
    using heap_repD(6) [OF assms that] by (simp add: heap_view_def)
  show "heap_rep B (heap_view r) {} L r" using assms by (rule heap_rep_cong) (simp_all add: v)
qed

lemma heap_inv_rep: "heap_rep B V {} L r \<Longrightarrow> heap_inv B r"
  using heap_view_rep(2) unfolding heap_inv_def by blast

lemma heap_abs_rep:
  assumes "heap_rep B V {} L r"
  shows "ah_free (heap_abs r) = free_set (hm_page_count r) V" "ah_used (heap_abs r) = heap_used (hm_page_count r) V"
proof -
  have "free_heads (hm_page_count r) (heap_view r) k = free_heads (hm_page_count r) V k" for k
    using heap_view_rep(1) [OF assms] by (auto simp: free_heads_def)
  then show "ah_free (heap_abs r) = free_set (hm_page_count r) V"
    by (simp add: heap_abs_def free_set_def)
  show "ah_used (heap_abs r) = heap_used (hm_page_count r) V"
    using heap_view_rep(1) [OF assms] by (auto simp: heap_abs_def heap_used_def fun_eq_iff)
qed

text \<open>A page of a free block is no used head.\<close>

lemma heap_used_free:
  assumes "blocks_ok n V" and "x \<in> free_set n V"
  shows "heap_used n V x = None"
proof (rule ccontr)
  assume "heap_used n V x \<noteq> None"
  then obtain ord where x: "x < n" "blk (V x) = Some ord" "\<And>fi. V x \<noteq> PageInfo_Free fi"
    by (auto simp: heap_used_def split: if_splits)
  from alloc_not_free [OF assms(1) x] assms(2) head_in_block [of x ord] show False by blast
qed

lemma heap_used_comp: "V x = CompP k \<Longrightarrow> heap_used n V x = None"
  by (simp add: heap_used_def)

lemma took_block_abs:
  assumes V: "blocks_ok n V" "blocks_ok n V'" and t: "took_block n V V' p ord pg" and p: "p < n"
    and pg: "used_page ord pg"
  shows "heap_used n V' = (heap_used n V)(p \<mapsto> pg)"
proof
  fix x
  consider "x = p" | "x \<in> block_of p ord - {p}" | "x \<in> free_set n V'" | "x \<notin> free_set n V"
    using t by (auto simp: took_block_def)
  then show "heap_used n V' x = ((heap_used n V)(p \<mapsto> pg)) x"
  proof cases
    case 1 then show ?thesis using t p pg by (auto simp: took_block_def heap_used_def used_page_def)
  next
    case 2
    then have "V' x = CompP ord" "x \<in> free_set n V" using t by (auto simp: took_block_def)
    then show ?thesis using 2 heap_used_free [OF V(1)] by (auto simp: heap_used_comp)
  next
    case 3
    then have "x \<in> free_set n V" "x \<noteq> p" using t by (auto simp: took_block_def)
    then show ?thesis using 3 heap_used_free [OF V(1)] heap_used_free [OF V(2)] by simp
  next
    case 4
    then have "x \<noteq> p" "x < n \<Longrightarrow> V' x = V x"
      using t head_in_block [of p ord] unfolding took_block_def by blast+
    then show ?thesis by (auto simp: heap_used_def)
  qed
qed

lemma gave_block_abs:
  assumes V: "blocks_ok n V" "blocks_ok n V'" and g: "gave_block n V V' p ord" and p: "p < n"
    and b: "blk (V p) = Some ord"
  shows "heap_used n V' = (heap_used n V)(p := None)"
proof
  fix x
  consider "x \<in> free_set n V" | "x \<in> block_of p ord" | "x \<notin> free_set n V \<union> block_of p ord" by blast
  then show "heap_used n V' x = ((heap_used n V)(p := None)) x"
  proof cases
    case 1
    then have "x \<in> free_set n V'" using g by (auto simp: gave_block_def)
    then show ?thesis using 1 heap_used_free [OF V(1)] heap_used_free [OF V(2)] by simp
  next
    case 2
    then have "x \<in> free_set n V'" using g by (auto simp: gave_block_def)
    moreover have "x = p \<or> V x = CompP ord"
      using 2 blocks_okD(4) [OF V(1) p b, of x] unfolding block_of_def by fastforce
    ultimately show ?thesis using heap_used_free [OF V(2)] by (auto simp: heap_used_comp)
  next
    case 3
    then have "x \<noteq> p" "x < n \<Longrightarrow> V' x = V x"
      using g head_in_block [of p ord] unfolding gave_block_def by blast+
    then show ?thesis by (auto simp: heap_used_def)
  qed
qed

section \<open>The heap region satisfies the contract\<close>

lemma heap_alloc_refines:
  assumes inv: "heap_inv B r" and ord: "ord < MAX_ORDER" and pg: "used_page ord pg"
  shows "(\<exists>p r'. allocate_pages_info ord pg r = Some (Ok (page_vaddr r p), r') \<and> heap_inv B r'
        \<and> p < hm_page_count r \<and> p \<notin> B \<and> abs_alloc ord pg p (heap_abs r) (heap_abs r')
        \<and> hm_start_virt r' = hm_start_virt r \<and> hm_page_count r' = hm_page_count r)
      \<or> (allocate_pages_info ord pg r = Some (Err AllocError_OutOfMemory, r)
        \<and> (\<forall>p j nx. p < hm_page_count r \<longrightarrow> ord \<le> j \<longrightarrow> heap_view r p \<noteq> FreeP nx j))"
proof -
  let ?n = "hm_page_count r" and ?V = "heap_view r"
  from inv obtain L where rep: "heap_rep B ?V {} L r" by (auto simp: heap_inv_def)
  note D = heap_repD [OF rep]
  show ?thesis
  proof (cases "\<exists>j. ord \<le> j \<and> j < MAX_ORDER \<and> L j \<noteq> []")
    case True
    from allocate_pages_info_ok [OF rep ord True] pg obtain r' V' L' p where
      r': "allocate_pages_info ord pg r = Some (Ok (page_vaddr r p), r')" "heap_rep B V' {} L' r'"
      "p < ?n" "took_block ?n ?V V' p ord pg" "hm_start_virt r' = hm_start_virt r" "hm_page_count r' = ?n"
      unfolding used_page_def by metis
    have "blocks_ok ?n V'" using heap_repD(2) [OF r'(2)] r'(6) by simp
    note used = took_block_abs [OF D(2) this r'(4,3) pg]
    have pf: "p \<in> free_set ?n ?V" using r'(4) head_in_block [of p ord] by (auto simp: took_block_def)
    have "p \<notin> dom (heap_used ?n ?V)" using heap_used_free [OF D(2) pf] by auto
    moreover have "p \<notin> B"
      using heap_used_free [OF D(2) pf] D(8) [of p] by (auto simp: heap_used_def)
    ultimately show ?thesis
      using r' used heap_abs_rep [OF rep] heap_abs_rep [OF r'(2)] heap_inv_rep [OF r'(2)]
      by (auto simp: abs_alloc_def took_block_def)
  next
    case False
    have "?V p \<noteq> FreeP nx j" if "p < ?n" "ord \<le> j" for p j nx
    proof
      assume f: "?V p = FreeP nx j"
      then have "j < MAX_ORDER" using blocks_okD(1) [OF D(2) that(1), of j] by simp
      with f that False show False using lists_okD(3) [OF D(3), of j] by (auto simp: free_heads_def)
    qed
    then show ?thesis using allocate_pages_info_none [OF rep ord] False by auto
  qed
qed

lemma heap_free_refines:
  assumes inv: "heap_inv B r" and p: "ah_used (heap_abs r) p = Some pg" "used_page ord pg" "p \<notin> B"
  shows "\<exists>r'. heap_free_page (page_vaddr r p) r = Some r' \<and> heap_inv B r'
    \<and> abs_free ord p (heap_abs r) (heap_abs r')
    \<and> hm_start_virt r' = hm_start_virt r \<and> hm_page_count r' = hm_page_count r"
proof -
  let ?n = "hm_page_count r" and ?V = "heap_view r"
  from inv obtain L where rep: "heap_rep B ?V {} L r" by (auto simp: heap_inv_def)
  have V: "p < ?n" "?V p = pg" using p(1) by (auto simp: heap_abs_def heap_used_def split: if_splits)
  with p(2) have b: "blk (?V p) = Some ord" and nf: "\<And>fi. ?V p \<noteq> PageInfo_Free fi"
    by (auto simp: used_page_def)
  obtain r' V' L' where r': "heap_free_page (page_vaddr r p) r = Some r'" "heap_rep B V' {} L' r'"
    "gave_block ?n ?V V' p ord" "hm_start_virt r' = hm_start_virt r" "hm_page_count r' = ?n"
    using heap_free_page_ok [OF rep V(1) b p(3) nf] by metis
  have "blocks_ok ?n V'" using heap_repD(2) [OF r'(2)] r'(5) by simp
  from gave_block_abs [OF heap_repD(2) [OF rep] this r'(3) V(1) b] r' show ?thesis
    using heap_abs_rep [OF rep] heap_abs_rep [OF r'(2)] heap_inv_rep [OF r'(2)]
    by (auto simp: abs_free_def gave_block_def)
qed

lemma heap_used_not_free:
  assumes inv: "heap_inv B r" and p: "ah_used (heap_abs r) p = Some pg" "used_page ord pg"
  shows "block_of p ord \<inter> ah_free (heap_abs r) = {}"
proof -
  from inv obtain L where rep: "heap_rep B (heap_view r) {} L r" by (auto simp: heap_inv_def)
  have "p < hm_page_count r" "heap_view r p = pg"
    using p(1) by (auto simp: heap_abs_def heap_used_def split: if_splits)
  with alloc_not_free [OF heap_repD(2) [OF rep], of p ord] p(2) show ?thesis
    by (auto simp: used_page_def heap_abs_def)
qed

lemma page_vaddr_cong: "hm_start_virt r' = hm_start_virt r \<Longrightarrow> page_vaddr r' = page_vaddr r"
  by (simp add: page_vaddr_def fun_eq_iff)

interpretation heap: page_allocator "heap_inv B" heap_abs allocate_pages_info heap_free_page page_vaddr B for B
proof
  fix r ord pg assume "heap_inv B r" "ord < MAX_ORDER" "used_page ord pg"
  from heap_alloc_refines [OF this] show "(\<exists>p s'. allocate_pages_info ord pg r = Some (Ok (page_vaddr r p), s')
      \<and> heap_inv B s' \<and> p \<notin> B \<and> abs_alloc ord pg p (heap_abs r) (heap_abs s') \<and> page_vaddr s' = page_vaddr r)
    \<or> allocate_pages_info ord pg r = Some (Err AllocError_OutOfMemory, r)"
    using page_vaddr_cong by blast
next
  fix r p pg ord assume "heap_inv B r" "ah_used (heap_abs r) p = Some pg" "used_page ord pg" "p \<notin> B"
  from heap_free_refines [OF this] show "\<exists>s'. heap_free_page (page_vaddr r p) r = Some s' \<and> heap_inv B s'
      \<and> abs_free ord p (heap_abs r) (heap_abs s') \<and> page_vaddr s' = page_vaddr r"
    using page_vaddr_cong by blast
qed (rule heap_used_not_free)

end
