(* ===== verification/Heap_Init.thy ===== *)
theory Heap_Init
  imports Heap_Spec
begin

text \<open>
  \<open>HeapMemoryRegion::init_memory\<close> turns an empty region into one that satisfies the
  allocator invariant, with every page outside the boot pages and the metadata free.  The page
  counters are filled in before the pages are freed, so the intermediate states satisfy the
  invariant up to the counter of the largest order.
\<close>

section \<open>Loops and counters\<close>

lemma forO_upt:
  assumes "I a s" and "a \<le> b" and "\<And>i s. a \<le> i \<Longrightarrow> i < b \<Longrightarrow> I i s \<Longrightarrow> \<exists>s'. f i s = Some s' \<and> I (Suc i) s'"
  shows "\<exists>s'. forO [a ..< b] f s = Some s' \<and> I b s'"
  using assms
proof (induction "b - a" arbitrary: a s)
  case (Suc k)
  then have "a < b" by simp
  from Suc.prems(3) [OF _ this Suc.prems(1)] obtain s1 where s1: "f a s = Some s1" "I (Suc a) s1" by auto
  have "\<exists>s'. forO [Suc a ..< b] f s1 = Some s' \<and> I b s'"
    using Suc.hyps(2) \<open>a < b\<close> s1(2) Suc.prems(3) by (intro Suc.hyps(1)) auto
  then show ?case using s1(1) \<open>a < b\<close> by (simp add: upt_conv_Cons)
qed simp

lemma forO_map: "forO (map g xs) f s = forO xs (\<lambda>i. f (g i)) s"
  by (induction xs arbitrary: s) (simp_all split: option.split)

text \<open>Pages that were not counted so far are added to the counter of order 0.\<close>

lemma heap_rep_count:
  assumes rep: "heap_rep B V P L r" and R: "R \<subseteq> B"
  shows "heap_rep (B - R) V P L (r\<lparr>hm_nr_pages := (hm_nr_pages r)[0 := hm_nr_pages r ! 0 + card R]\<rparr>)"
    (is "heap_rep _ _ _ _ ?r")
proof -
  note D = heap_repD [OF rep]
  let ?n = "hm_page_count r"
  have B: "B \<subseteq> heads ?n V 0" using D(8) by (auto simp: heads_def)
  have "card (heads ?n V 0 - (B - R)) = card ((heads ?n V 0 - B) \<union> R)"
    using R B by (intro arg_cong [where f = card]) auto
  also have "\<dots> = card (heads ?n V 0 - B) + card R"
    using R B by (intro card_Un_disjoint) (auto intro: finite_subset [OF _ finite_heads])
  finally have 0: "card (heads ?n V 0 - (B - R)) = card (heads ?n V 0 - B) + card R" .
  have "heads ?n V k - (B - R) = heads ?n V k - B" if "k \<noteq> 0" for k
    using that R D(8) by (fastforce simp: heads_def)
  then have "counts_ok (B - R) V ?r"
    using D(4) 0 params_okD(1) [OF D(1)] by (auto simp: counts_ok_def nth_list_update)
  then show ?thesis
    using rep by (auto simp: heap_rep_def params_ok_def lists_ok_def read_page_info_def check_pfn_def)
qed

lemma free_page_raw_nr:
  "free_page_raw p ord (r\<lparr>hm_nr_pages := xs\<rparr>) = map_option (\<lambda>r. r\<lparr>hm_nr_pages := xs\<rparr>) (free_page_raw p ord r)"
  by (cases "p < hm_page_count r")
    (auto simp: free_page_raw_def write_page_info_def check_pfn_def Option.bind_eq_None_conv
      split: Option.bind_split)

lemma free_page_raw_keeps_nr: "free_page_raw p ord r = Some r' \<Longrightarrow> hm_nr_pages r' = hm_nr_pages r"
  by (auto simp: free_page_raw_def write_page_info_def check_pfn_def bind_eq_Some_conv split: if_splits)

section \<open>Freeing whole blocks of the largest order\<close>

definition big_view :: "nat \<Rightarrow> nat \<Rightarrow> page_view \<Rightarrow> page_view" where
  "big_view p ord V = (\<lambda>i. if i = p then AllocP ord else if p < i \<and> i < p + 2 ^ ord then CompP ord else V i)"

lemma big_view_out: "i \<notin> block_of p ord \<Longrightarrow> big_view p ord V i = V i"
  by (auto simp: big_view_def block_of_def)

lemma big_view_in: "i \<in> block_of p ord \<Longrightarrow> i \<noteq> p \<Longrightarrow> big_view p ord V i = CompP ord"
  by (auto simp: big_view_def block_of_def)

lemma big_view_head [simp]: "big_view p ord V p = AllocP ord"
  by (simp add: big_view_def)

text \<open>\<open>V\<close> is the view in which the pages of \<open>F\<close> have been freed and the others are as in \<open>V0\<close>.\<close>

definition freed :: "nat \<Rightarrow> page_view \<Rightarrow> nat set \<Rightarrow> page_view \<Rightarrow> bool" where
  "freed n V0 F V \<longleftrightarrow> free_set n V = F \<and> (\<forall>x < n. x \<notin> F \<longrightarrow> V x = V0 x)"

lemma freed_gave:
  assumes "freed n V0 F V" and "gave_block n V V' p ord"
  shows "freed n V0 (F \<union> block_of p ord) V'"
  using assms by (auto simp: freed_def gave_block_def)

lemma big_view_blocks:
  assumes V: "blocks_ok n V" and ord: "ord < MAX_ORDER" and p: "2 ^ ord dvd p" "p + 2 ^ ord \<le> n"
    and a: "\<And>x. x \<in> block_of p ord \<Longrightarrow> V x = AllocP 0"
  shows "blocks_ok n (big_view p ord V)"
proof (rule reblock [OF V, where R = "block_of p ord"])
  show "block_union n V (block_of p ord)"
    unfolding block_union_def
  proof
    fix x assume x: "x \<in> block_of p ord"
    then have "x < n" "{x ..< x + 2 ^ 0} \<subseteq> block_of p ord" using p(2) by (auto simp: block_of_def)
    then show "\<exists>p' k. p' < n \<and> blk (V p') = Some k \<and> x \<in> {p' ..< p' + 2 ^ k} \<and> {p' ..< p' + 2 ^ k} \<subseteq> block_of p ord"
      using a [OF x] by (intro exI [of _ x] exI [of _ 0]) simp
  qed
  show "block_ok n (big_view p ord V) q k" if "q \<in> block_of p ord" "blk (big_view p ord V q) = Some k" for q k
  proof -
    have "q = p" using that big_view_in [OF that(1)] by (metis blk.simps(4) option.distinct(1))
    with that show ?thesis using ord p by (simp add: block_ok_def big_view_def)
  qed
  show "\<exists>h. h < q \<and> q < h + 2 ^ k \<and> blk (big_view p ord V h) = Some k"
    if "q \<in> block_of p ord" "big_view p ord V q = CompP k" for q k
    using that by (intro exI [of _ p]) (auto simp: big_view_def block_of_def split: if_splits)
qed (rule big_view_out)

lemma big_view_free_heads:
  assumes a: "\<And>x. x \<in> block_of p ord \<Longrightarrow> V x = AllocP 0"
  shows "free_heads n (big_view p ord V) k = free_heads n V k"
proof -
  have "(\<exists>nx. big_view p ord V x = FreeP nx k) \<longleftrightarrow> (\<exists>nx. V x = FreeP nx k)" for x
    using a [of x] by (cases "x \<in> block_of p ord"; cases "x = p") (simp_all add: big_view_out big_view_in)
  then show ?thesis by (simp add: free_heads_def)
qed

lemma big_view_heads:
  assumes p: "p + 2 ^ ord \<le> n" and ord: "0 < ord"
    and a: "\<And>x. x \<in> block_of p ord \<Longrightarrow> V x = AllocP 0" and B: "block_of p ord \<subseteq> B"
    and B0: "\<And>x. x \<in> B \<Longrightarrow> V x = AllocP 0"
  shows "heads n (big_view p ord V) k - (B - block_of p ord) =
    (if k = ord then insert p (heads n V k - B) else heads n V k - B)"
proof -
  have pn: "p < n" using p by (rule less_le_trans [rotated]) simp
  have "x \<in> heads n (big_view p ord V) k - (B - block_of p ord) \<longleftrightarrow>
      x \<in> (if k = ord then insert p (heads n V k - B) else heads n V k - B)" for x
  proof (cases "x \<in> block_of p ord")
    case True
    then show ?thesis using pn B by (cases "x = p") (auto simp: heads_def big_view_in)
  next
    case False
    then have "x \<noteq> p" using head_in_block by blast
    with False show ?thesis using big_view_out [OF False, of V] by (auto simp: heads_def)
  qed
  then show ?thesis by blast
qed

lemma big_view_rep:
  assumes rep: "heap_rep B V {} L (r\<lparr>hm_nr_pages := xs\<rparr>)" and ord: "0 < ord" "ord < MAX_ORDER"
    and p: "2 ^ ord dvd p" "p + 2 ^ ord \<le> hm_page_count r" "block_of p ord \<subseteq> B"
  shows "heap_rep (B - block_of p ord) (big_view p ord V) {p} L
    ((put_compound p ord r)\<lparr>hm_nr_pages := xs[ord := xs ! ord + 1]\<rparr>)" (is "heap_rep ?B ?V _ _ ?r")
proof -
  note D = heap_repD [OF rep, simplified]
  let ?n = "hm_page_count r"
  have B0: "V x = AllocP 0" if "x \<in> B" for x using D(8) that by blast
  then have a: "V x = AllocP 0" if "x \<in> block_of p ord" for x using p(3) that by blast
  note hd = big_view_heads [OF p(2) ord(1) a p(3) B0]
  have pn: "p < ?n" using p(2) by (rule less_le_trans [rotated]) simp
  have "p \<notin> heads ?n V ord" using a [of p] ord(1) by (simp add: heads_def)
  then have "counts_ok ?B ?V ?r"
    using D(4) params_okD(1) [OF D(1)] ord(2) by (auto simp: counts_ok_def hd nth_list_update)
  moreover have "lists_ok ?V L ?r"
  proof -
    have "chain ?V k (hm_next_page r ! k) (L k)" if k: "k < MAX_ORDER" for k
    proof (rule chain_cong)
      show "chain V k (hm_next_page r ! k) (L k)" using lists_okD(1) [OF D(3) k] by simp
      fix q assume "q \<in> set (L k)"
      then have "q \<notin> block_of p ord" using lists_okD(3) [OF D(3) k] a by (auto simp: free_heads_def)
      then show "?V q = V q" by (rule big_view_out)
    qed
    then show ?thesis
      using lists_okD(2-) [OF D(3)] by (simp add: lists_ok_def big_view_free_heads [OF a])
  qed
  moreover have "params_ok ?r" using D(1) by (simp add: params_ok_def)
  moreover have "blocks_ok ?n ?V" by (rule big_view_blocks [OF D(2) ord(2) p(1,2) a])
  moreover have "read_page_info ?r q = Some (?V q)" if q: "q < ?n" "q \<noteq> p" for q
  proof -
    have "read_page_info ?r q = read_page_info (put_compound p ord r) q"
      "read_page_info (r\<lparr>hm_nr_pages := xs\<rparr>) q = read_page_info r q"
      by (simp_all add: read_page_info_def check_pfn_def)
    then show ?thesis
      using D(6) [OF q(1)] q(2) by (auto simp: read_put_compound [OF ord(2) p(2)] big_view_def)
  qed
  moreover have "PageInfo_fits (?V q)" if "q < ?n" for q
    using D(5) [OF that] ord(2) by (auto simp: big_view_def MAX_ORDER_def)
  moreover have "?V q = AllocP 0" "q < ?n" if "q \<in> ?B" for q
    using that D(8) [of q] big_view_out [of q p ord V] by auto
  ultimately show ?thesis by (auto simp: heap_rep_def)
qed

definition free_big_page :: "nat \<Rightarrow> HeapMemoryRegion \<Rightarrow> HeapMemoryRegion option" where
  "free_big_page i self = do {
     self \<leftarrow> mark_compound_page i (MAX_ORDER - 1) self;
     free_page_raw i (MAX_ORDER - 1) self
   }"

lemma free_big_page_ok:
  fixes r :: HeapMemoryRegion
  defines "ord \<equiv> MAX_ORDER - 1"
  assumes rep: "heap_rep B V {} L (r\<lparr>hm_nr_pages := xs\<rparr>)" and f: "freed (hm_page_count r) V0 F V"
    and p: "2 ^ ord dvd p" "p + 2 ^ ord \<le> hm_page_count r" "block_of p ord \<subseteq> B"
    and nr: "length (hm_nr_pages r) = MAX_ORDER"
  obtains r' V' L' where "free_big_page p r = Some r'"
    and "heap_rep (B - block_of p ord) V' {} L' (r'\<lparr>hm_nr_pages := xs[ord := xs ! ord + 1]\<rparr>)"
    and "freed (hm_page_count r) V0 (F \<union> block_of p ord) V'" and "hm_nr_pages r' = hm_nr_pages r"
    and "hm_start_virt r' = hm_start_virt r" "hm_page_count r' = hm_page_count r"
proof -
  let ?n = "hm_page_count r" and ?xs = "xs[ord := xs ! ord + 1]"
  let ?V = "big_view p ord V" and ?r = "put_compound p ord r"
  have o: "0 < ord" "ord < MAX_ORDER" by (simp_all add: ord_def MAX_ORDER_def)
  note D = heap_repD [OF rep, simplified]
  have par: "params_ok r" using D(1) nr by (simp add: params_ok_def)
  have pn: "p < ?n" using p(2) by (rule less_le_trans [rotated]) simp
  have a: "V x = AllocP 0" if "x \<in> block_of p ord" for x using p(3) D(8) that by blast
  have nB: "p \<notin> B - block_of p ord" by simp
  obtain r1 where r1: "free_page_raw p ord (?r\<lparr>hm_nr_pages := ?xs\<rparr>) = Some r1"
    "heap_rep (B - block_of p ord) (?V(p := FreeP (hm_next_page r ! ord) ord)) {} (L(ord := p # L ord)) r1"
    "hm_start_virt r1 = hm_start_virt r" "hm_page_count r1 = ?n"
    using free_page_raw_ok [OF big_view_rep [OF rep o p], of p ord] pn nB by auto
  from r1(1) obtain r' where r': "free_page_raw p ord ?r = Some r'" "r1 = r'\<lparr>hm_nr_pages := ?xs\<rparr>"
    unfolding free_page_raw_nr by auto
  have "free_set ?n ?V = free_set ?n V" unfolding free_set_def by (simp add: big_view_free_heads [OF a])
  then have fs: "free_set ?n (?V(p := FreeP (hm_next_page r ! ord) ord)) = F \<union> block_of p ord"
    using f pn by (subst free_set_add) (auto simp: freed_def)
  have "freed ?n V0 (F \<union> block_of p ord) (?V(p := FreeP (hm_next_page r ! ord) ord))"
    unfolding freed_def
  proof (intro conjI allI impI)
    fix x assume "x < ?n" "x \<notin> F \<union> block_of p ord"
    moreover from this have "x \<noteq> p" using head_in_block by blast
    ultimately show "(?V(p := FreeP (hm_next_page r ! ord) ord)) x = V0 x"
      using f by (simp add: freed_def big_view_out)
  qed (rule fs)
  moreover have "free_big_page p r = Some r'"
    using mark_compound_page_eq [OF o(2) p(2) par] r'(1) by (simp add: free_big_page_def ord_def)
  moreover have "hm_nr_pages r' = hm_nr_pages r" using free_page_raw_keeps_nr [OF r'(1)] by simp
  ultimately show thesis using r1(2-4) r'(2)
    by (intro that [of r' "?V(p := FreeP (hm_next_page r ! ord) ord)" "L(ord := p # L ord)"]) simp_all
qed

section \<open>The freeing loops\<close>

lemma free_small_pages_ok:
  assumes rep: "heap_rep B V {} L r" and f: "freed (hm_page_count r) V0 F V"
    and lh: "lo \<le> hi" "hi \<le> hm_page_count r" "{lo ..< hi} \<inter> (F \<union> B) = {}"
    and V0: "\<And>x. lo \<le> x \<Longrightarrow> x < hi \<Longrightarrow> V0 x = AllocP 0"
  obtains r' V' L' where "free_small_pages lo hi r = Some r'" and "heap_rep B V' {} L' r'"
    and "freed (hm_page_count r) V0 (F \<union> {lo ..< hi}) V'"
    and "hm_start_virt r' = hm_start_virt r" "hm_page_count r' = hm_page_count r"
proof -
  let ?n = "hm_page_count r"
  define I where "I i r' \<longleftrightarrow> (\<exists>V' L'. heap_rep B V' {} L' r' \<and> freed ?n V0 (F \<union> {lo ..< i}) V')
    \<and> hm_start_virt r' = hm_start_virt r \<and> hm_page_count r' = ?n" for i and r' :: HeapMemoryRegion
  have "\<exists>r'. forO [lo ..< hi] (\<lambda>i. free_page_order i 0) r = Some r' \<and> I hi r'"
  proof (rule forO_upt [OF _ lh(1)])
    show "I lo r" using rep f unfolding I_def by auto
    fix i r1 assume i: "lo \<le> i" "i < hi" and "I i r1"
    then obtain V1 L1 where 1: "heap_rep B V1 {} L1 r1" "freed ?n V0 (F \<union> {lo ..< i}) V1"
      "hm_start_virt r1 = hm_start_virt r" "hm_page_count r1 = ?n" unfolding I_def by auto
    have out: "i \<notin> F" "i \<notin> B" using i lh(3) by (auto simp: disjoint_iff)
    have "V1 i = AllocP 0" using 1(2) i lh(2) V0 [OF i] out by (auto simp: freed_def)
    then obtain r2 V2 L2 where 2: "free_page_order i 0 r1 = Some r2" "heap_rep B V2 {} L2 r2"
      "gave_block ?n V1 V2 i 0" "hm_start_virt r2 = hm_start_virt r1" "hm_page_count r2 = ?n"
      using free_page_order_ok [OF 1(1), of i 0] i lh(2) 1(4) out(2) by auto
    have "F \<union> {lo ..< i} \<union> block_of i 0 = F \<union> {lo ..< Suc i}" using i by (auto simp: block_of_def)
    with freed_gave [OF 1(2) 2(3)] have "freed ?n V0 (F \<union> {lo ..< Suc i}) V2" by simp
    then show "\<exists>r'. free_page_order i 0 r1 = Some r' \<and> I (Suc i) r'"
      using 2 1(3) unfolding I_def by auto
  qed
  then obtain r' where r': "free_small_pages lo hi r = Some r'" "I hi r'" unfolding free_small_pages_def by blast
  then obtain V' L' where "heap_rep B V' {} L' r'" "freed ?n V0 (F \<union> {lo ..< hi}) V'"
    "hm_start_virt r' = hm_start_virt r" "hm_page_count r' = ?n" unfolding I_def by blast
  with r'(1) show thesis by (rule that)
qed

lemma free_big_pages_ok:
  fixes r :: HeapMemoryRegion
  defines "ord \<equiv> MAX_ORDER - 1" and "N \<equiv> 2 ^ (MAX_ORDER - 1)"
  assumes rep: "heap_rep B V {} L (r\<lparr>hm_nr_pages := replicate MAX_ORDER 0\<rparr>)" and f: "freed (hm_page_count r) V0 {} V"
    and lo: "N dvd lo" "lo + k * N \<le> hm_page_count r" "{lo ..< lo + k * N} \<subseteq> B"
    and nr: "length (hm_nr_pages r) = MAX_ORDER"
  obtains r' V' L' where "forO [0 ..< k] (\<lambda>i. free_big_page (lo + i * N)) r = Some r'"
    and "heap_rep (B - {lo ..< lo + k * N}) V' {} L' (r'\<lparr>hm_nr_pages := (replicate MAX_ORDER 0)[ord := k]\<rparr>)"
    and "freed (hm_page_count r) V0 {lo ..< lo + k * N} V'" and "hm_nr_pages r' = hm_nr_pages r"
    and "hm_start_virt r' = hm_start_virt r" "hm_page_count r' = hm_page_count r"
proof -
  let ?n = "hm_page_count r"
  let ?xs = "\<lambda>i. (replicate MAX_ORDER (0 :: nat))[ord := i]"
  define I where "I i r' \<longleftrightarrow> (\<exists>V' L'. heap_rep (B - {lo ..< lo + i * N}) V' {} L' (r'\<lparr>hm_nr_pages := ?xs i\<rparr>)
      \<and> freed ?n V0 {lo ..< lo + i * N} V') \<and> hm_nr_pages r' = hm_nr_pages r
    \<and> hm_start_virt r' = hm_start_virt r \<and> hm_page_count r' = ?n" for i and r' :: HeapMemoryRegion
  have "\<exists>r'. forO [0 ..< k] (\<lambda>i. free_big_page (lo + i * N)) r = Some r' \<and> I k r'"
  proof (rule forO_upt)
    have "?xs 0 = replicate MAX_ORDER 0" by (simp add: list_update_same_conv ord_def MAX_ORDER_def)
    then show "I 0 r" using rep f unfolding I_def by auto
    fix i r1 assume i: "i < k" and "I i r1"
    then obtain V1 L1 where 1: "heap_rep (B - {lo ..< lo + i * N}) V1 {} L1 (r1\<lparr>hm_nr_pages := ?xs i\<rparr>)"
      "freed ?n V0 {lo ..< lo + i * N} V1" "hm_nr_pages r1 = hm_nr_pages r"
      "hm_start_virt r1 = hm_start_virt r" "hm_page_count r1 = ?n" unfolding I_def by auto
    have blk: "block_of (lo + i * N) ord = {lo + i * N ..< lo + Suc i * N}"
      by (auto simp: block_of_def N_def ord_def)
    have le: "lo + Suc i * N \<le> lo + k * N" using i by (intro add_left_mono mult_le_mono1) simp
    have sub: "block_of (lo + i * N) ord \<subseteq> B - {lo ..< lo + i * N}"
      unfolding blk using lo(3) le by (auto simp: subset_iff)
    have "lo + i * N + 2 ^ ord \<le> hm_page_count r1" using le lo(2) 1(5) by (simp add: N_def ord_def)
    moreover have "2 ^ ord dvd lo + i * N" using lo(1) by (simp add: N_def ord_def)
    ultimately obtain r2 V2 L2 where 2: "free_big_page (lo + i * N) r1 = Some r2"
      "heap_rep (B - {lo ..< lo + i * N} - block_of (lo + i * N) ord) V2 {} L2
        (r2\<lparr>hm_nr_pages := (?xs i)[ord := ?xs i ! ord + 1]\<rparr>)"
      "freed ?n V0 ({lo ..< lo + i * N} \<union> block_of (lo + i * N) ord) V2"
      "hm_nr_pages r2 = hm_nr_pages r" "hm_start_virt r2 = hm_start_virt r" "hm_page_count r2 = ?n"
      using free_big_page_ok [OF 1(1), of V0 "{lo ..< lo + i * N}" "lo + i * N"] 1(2-5) nr sub
      unfolding ord_def [symmetric] by metis
    have "{lo ..< lo + i * N} \<union> block_of (lo + i * N) ord = {lo ..< lo + Suc i * N}"
      unfolding blk by auto
    moreover have "B - {lo ..< lo + i * N} - block_of (lo + i * N) ord = B - {lo ..< lo + Suc i * N}"
      unfolding blk by auto
    moreover have "(?xs i)[ord := ?xs i ! ord + 1] = ?xs (Suc i)" by (simp add: ord_def MAX_ORDER_def)
    ultimately show "\<exists>r'. free_big_page (lo + i * N) r1 = Some r' \<and> I (Suc i) r'"
      using 2 unfolding I_def by metis
  qed simp
  then obtain r' where r': "forO [0 ..< k] (\<lambda>i. free_big_page (lo + i * N)) r = Some r'" "I k r'" by blast
  then obtain V' L' where "heap_rep (B - {lo ..< lo + k * N}) V' {} L' (r'\<lparr>hm_nr_pages := ?xs k\<rparr>)"
    "freed ?n V0 {lo ..< lo + k * N} V'" "hm_nr_pages r' = hm_nr_pages r"
    "hm_start_virt r' = hm_start_virt r" "hm_page_count r' = ?n" unfolding I_def by blast
  with r'(1) show thesis by (rule that)
qed

section \<open>The initial metadata\<close>

definition fresh_heap :: "HeapMemoryRegion \<Rightarrow> bool" where
  "fresh_heap r \<longleftrightarrow> VirtAddr_ok (hm_start_virt r)
     \<and> in_half (virt_bits (hm_start_virt r)) (hm_page_count r * PAGE_SIZE)
     \<and> hm_nr_pages r = replicate MAX_ORDER 0 \<and> hm_next_page r = replicate MAX_ORDER NO_PAGE
     \<and> hm_free_pages r = replicate MAX_ORDER 0"

lemma write_range_eq:
  assumes "lo \<le> hi" "hi \<le> hm_page_count r"
  shows "forO [lo ..< hi] (\<lambda>i. write_page_info i pg) r = Some (r\<lparr>hm_page_info := (\<lambda>i.
    if lo \<le> i \<and> i < hi then storage (PageInfo_to_mem pg) else hm_page_info r i)\<rparr>)"
proof -
  let ?r = "\<lambda>k. r\<lparr>hm_page_info := (\<lambda>i. if lo \<le> i \<and> i < k then storage (PageInfo_to_mem pg) else hm_page_info r i)\<rparr>"
  have "\<exists>r'. forO [lo ..< hi] (\<lambda>i. write_page_info i pg) r = Some r' \<and> r' = ?r hi"
  proof (rule forO_upt [OF _ assms(1)])
    have "(\<lambda>i. if lo \<le> i \<and> i < lo then storage (PageInfo_to_mem pg) else hm_page_info r i) = hm_page_info r"
      by (auto simp: fun_eq_iff)
    then show "r = ?r lo" by simp
    fix i s assume i: "lo \<le> i" "i < hi" "s = ?r i"
    have "(hm_page_info (?r i))(i := storage (PageInfo_to_mem pg)) = hm_page_info (?r (Suc i))"
      using i(1) by (auto simp: fun_eq_iff less_Suc_eq)
    then show "\<exists>s'. write_page_info i pg s = Some s' \<and> s' = ?r (Suc i)"
      using i assms by (simp add: write_page_info_def check_pfn_def)
  qed
  then show ?thesis by simp
qed

definition boot_view :: "nat \<Rightarrow> page_view" where
  "boot_view a = (\<lambda>i. if i < a then AllocP 0 else PageInfo_Reserved ReservedInfo)"

lemma boot_view_rep:
  assumes r: "fresh_heap r" and a: "a \<le> hm_page_count r"
    and pi: "\<And>i. i < hm_page_count r \<Longrightarrow> hm_page_info r' i = storage (PageInfo_to_mem (boot_view a i))"
    and eq: "r' = r\<lparr>hm_page_info := hm_page_info r', hm_metadata_addr := hm_metadata_addr r'\<rparr>"
  shows "heap_rep {..<a} (boot_view a) {} (\<lambda>_. []) r'" and "freed (hm_page_count r) V {} (boot_view a) = (\<forall>x < hm_page_count r. boot_view a x = V x)"
proof -
  let ?n = "hm_page_count r"
  have sel: "hm_page_count r' = ?n" "hm_start_virt r' = hm_start_virt r" "hm_nr_pages r' = hm_nr_pages r"
    "hm_next_page r' = hm_next_page r" "hm_free_pages r' = hm_free_pages r"
    by (subst eq, simp)+
  have fh: "free_heads ?n (boot_view a) k = {}" for k by (auto simp: free_heads_def boot_view_def)
  have hd: "heads ?n (boot_view a) k - {..<a} = {}" for k by (auto simp: heads_def boot_view_def)
  have a0: "boot_view a i = AllocP 0" if "i < a" for i using that by (simp add: boot_view_def)
  have fits: "PageInfo_fits (boot_view a i)" for i by (simp add: boot_view_def)
  have "blocks_ok ?n (boot_view a)"
    unfolding blocks_ok_def block_ok_def using a by (auto simp: boot_view_def MAX_ORDER_def)
  moreover have "read_page_info r' i = Some (boot_view a i)" if "i < ?n" for i
    using pi [OF that] from_mem_to_mem [OF fits] that sel(1) by (simp add: read_page_info_def check_pfn_def)
  ultimately show "heap_rep {..<a} (boot_view a) {} (\<lambda>_. []) r'"
    using r fits a unfolding heap_rep_def sel
    by (auto simp: params_ok_def fresh_heap_def lists_ok_def counts_ok_def sel fh hd a0)
  show "freed ?n V {} (boot_view a) = (\<forall>x < ?n. boot_view a x = V x)"
    by (auto simp: freed_def free_set_def fh)
qed

section \<open>The whole initialisation\<close>

definition meta_pages :: "nat \<Rightarrow> nat" where
  "meta_pages n = (8 * n + (PAGE_SIZE - 1)) div PAGE_SIZE"

lemma align_up_nat:
  assumes "n < 64" and "x + 2 ^ n \<le> 2 ^ 63"
  shows "\<exists>y. align_up (of_nat x :: u64) (2 ^ n) = Some y \<and> unat y = (x + (2 ^ n - 1)) div 2 ^ n * 2 ^ n"
proof -
  have x: "unat (of_nat x :: u64) = x" using assms(2) by (intro unat_of_nat_u64) simp
  have "unat (of_nat x :: u64) + 2 ^ n - 1 < 2 ^ LENGTH(64)" using assms(2) unfolding x by simp
  then obtain y where y: "align_up (of_nat x :: u64) (2 ^ n) = Some y"
    using align_up_exp [of n "of_nat x :: u64"] assms(1) by auto
  with unat_align_up [OF _ y] assms(1) show ?thesis unfolding x by auto
qed

lemma align_down_nat:
  assumes "n < 64" and "x < 2 ^ 63"
  shows "\<exists>y. align_down (of_nat x :: u64) (2 ^ n) = Some y \<and> unat y = x div 2 ^ n * 2 ^ n"
proof -
  have x: "unat (of_nat x :: u64) = x" using assms(2) by (intro unat_of_nat_u64) simp
  show ?thesis using align_down_exp [of n "of_nat x :: u64"] assms(1) x by (simp add: unat_and_not_mask)
qed

text \<open>The metadata phase: every allocatable page allocated, the metadata pages reserved.\<close>

lemma init_metadata:
  assumes r: "fresh_heap r" and a: "a \<le> hm_page_count r"
  obtains r0 r' where "forO [0 ..< a] (\<lambda>i. write_page_info i (PageInfo_Allocated (AllocatedInfo 0)))
        (r\<lparr>hm_metadata_addr := m\<rparr>) = Some r0" and "hm_page_count r0 = hm_page_count r"
    and "forO [a ..< hm_page_count r] (\<lambda>i. write_page_info i (PageInfo_Reserved ReservedInfo)) r0 = Some r'"
    and "heap_rep {..<a} (boot_view a) {} (\<lambda>_. []) r'" and "freed (hm_page_count r) (boot_view a) {} (boot_view a)"
    and "hm_start_virt r' = hm_start_virt r" "hm_page_count r' = hm_page_count r" "hm_nr_pages r' = replicate MAX_ORDER 0"
proof -
  let ?n = "hm_page_count r"
  define r' where "r' = r\<lparr>hm_metadata_addr := m, hm_page_info := (\<lambda>i. if a \<le> i \<and> i < ?n
      then storage (PageInfo_to_mem (PageInfo_Reserved ReservedInfo))
      else if i < a then storage (PageInfo_to_mem (AllocP 0)) else hm_page_info r i)\<rparr>"
  define r0 where "r0 = r\<lparr>hm_metadata_addr := m, hm_page_info := (\<lambda>i. if i < a
      then storage (PageInfo_to_mem (AllocP 0)) else hm_page_info r i)\<rparr>"
  have "forO [0 ..< a] (\<lambda>i. write_page_info i (PageInfo_Allocated (AllocatedInfo 0)))
      (r\<lparr>hm_metadata_addr := m\<rparr>) = Some r0"
    using a by (simp add: write_range_eq r0_def cong: if_cong)
  moreover have "forO [a ..< ?n] (\<lambda>i. write_page_info i (PageInfo_Reserved ReservedInfo)) r0 = Some r'"
    using a by (simp add: write_range_eq r0_def r'_def cong: if_cong)
  moreover have "heap_rep {..<a} (boot_view a) {} (\<lambda>_. []) r'"
    by (rule boot_view_rep(1) [OF r a]) (simp_all add: r'_def boot_view_def)
  moreover have "freed ?n (boot_view a) {} (boot_view a)"
    by (auto simp: freed_def free_set_def free_heads_def boot_view_def)
  ultimately show thesis using r by (intro that [of r0 r']) (simp_all add: r0_def r'_def fresh_heap_def)
qed

lemma free_counted_pages:
  assumes rep: "heap_rep B V {} L r" and f: "freed (hm_page_count r) V0 F V"
    and lh: "lo \<le> hi" "{lo ..< hi} \<subseteq> B" "{lo ..< hi} \<inter> F = {}"
    and V0: "\<And>x. lo \<le> x \<Longrightarrow> x < hi \<Longrightarrow> V0 x = AllocP 0"
  obtains r' V' L' where "add_nr_pages 0 (hi - lo) r \<bind> free_small_pages lo hi = Some r'"
    and "(if lo < hi then add_nr_pages 0 (hi - lo) r \<bind> free_small_pages lo hi else Some r) = Some r'"
    and "heap_rep (B - {lo ..< hi}) V' {} L' r'" and "freed (hm_page_count r) V0 (F \<union> {lo ..< hi}) V'"
    and "hm_start_virt r' = hm_start_virt r" "hm_page_count r' = hm_page_count r"
proof (cases "lo < hi")
  case True
  note D = heap_repD [OF rep]
  have hi: "hi \<le> hm_page_count r"
    using D(8) [of "hi - 1"] lh(2) True by (auto simp: subset_iff)
  let ?r = "r\<lparr>hm_nr_pages := (hm_nr_pages r)[0 := hm_nr_pages r ! 0 + card {lo ..< hi}]\<rparr>"
  have "add_nr_pages 0 (hi - lo) r = Some ?r"
  proof -
    have "hm_nr_pages r ! 0 + (hi - lo) \<le> usize_max"
      using counters_small [OF rep, of 0] hi by (auto simp: MAX_ORDER_def usize_max_eq)
    then show ?thesis using params_okD(1) [OF D(1)] by (simp add: add_nr_pages_def MAX_ORDER_def)
  qed
  moreover have dj: "{lo ..< hi} \<inter> (F \<union> (B - {lo ..< hi})) = {}" using lh(3) by auto
  have "freed (hm_page_count ?r) V0 F V" "hi \<le> hm_page_count ?r" using f hi by simp_all
  from free_small_pages_ok [OF heap_rep_count [OF rep lh(2)] this(1) lh(1) this(2) dj V0, simplified]
  obtain r' V' L' where "free_small_pages lo hi ?r = Some r'" "heap_rep (B - {lo ..< hi}) V' {} L' r'"
    "freed (hm_page_count r) V0 (F \<union> {lo ..< hi}) V'"
    "hm_start_virt r' = hm_start_virt r" "hm_page_count r' = hm_page_count r"
    by (metis card_atLeastLessThan)
  ultimately show thesis using that True by simp
next
  case False
  have "hm_nr_pages r ! 0 \<le> usize_max"
    using counters_small [OF rep, of 0] by (auto simp: MAX_ORDER_def usize_max_eq)
  then have "add_nr_pages 0 (hi - lo) r = Some r"
    using False params_okD(1) [OF heap_repD(1) [OF rep]] by (simp add: add_nr_pages_def MAX_ORDER_def)
  with False that [of r V L] rep f show thesis by (simp add: free_small_pages_def)
qed

lemma init_small:
  assumes rep: "heap_rep {..<a} (boot_view a) {} L r" and f: "freed (hm_page_count r) (boot_view a) {} (boot_view a)"
    and nr: "hm_nr_pages r = replicate MAX_ORDER 0" and al: "al \<le> a"
  obtains r' V' L' where "free_small_pages al a (r\<lparr>hm_nr_pages := (hm_nr_pages r)[0 := a - al]\<rparr>) = Some r'"
    and "heap_rep {..<al} V' {} L' r'" and "freed (hm_page_count r) (boot_view a) {al ..< a} V'"
    and "hm_start_virt r' = hm_start_virt r" "hm_page_count r' = hm_page_count r"
proof -
  have B: "{al ..< a} \<subseteq> {..<a}" "{al ..< a} \<inter> {} = {}" "{..<a} - {al ..< a} = {..<al}" using al by auto
  have V0: "boot_view a x = AllocP 0" if "al \<le> x" "x < a" for x using that by (simp add: boot_view_def)
  obtain r' V' L' where r': "add_nr_pages 0 (a - al) r \<bind> free_small_pages al a = Some r'"
    "heap_rep ({..<a} - {al ..< a}) V' {} L' r'" "freed (hm_page_count r) (boot_view a) ({} \<union> {al ..< a}) V'"
    "hm_start_virt r' = hm_start_virt r" "hm_page_count r' = hm_page_count r"
    by (rule free_counted_pages [OF rep f al B(1,2) V0])
  moreover have "add_nr_pages 0 (a - al) r = Some (r\<lparr>hm_nr_pages := (hm_nr_pages r)[0 := a - al]\<rparr>)"
    using r'(1) nr by (auto simp: add_nr_pages_def MAX_ORDER_def bind_eq_Some_conv uadd_def split: if_splits)
  ultimately show thesis using that B(3) by simp
qed

lemma init_big:
  assumes rep: "heap_rep {..<a} (boot_view a) {} L r" and f: "freed (hm_page_count r) (boot_view a) {} (boot_view a)"
    and nr: "hm_nr_pages r = replicate MAX_ORDER 0"
    and al: "al \<le> lo" "lo + k * 2 ^ (MAX_ORDER - 1) \<le> a" "2 ^ (MAX_ORDER - 1) dvd lo"
  obtains r' V' L' where "(do {
       self \<leftarrow> add_nr_pages (MAX_ORDER - 1) k r;
       self \<leftarrow> forO [0 ..< k] (\<lambda>i. free_big_page (lo + i * 2 ^ (MAX_ORDER - 1))) self;
       self \<leftarrow> (if al < lo then add_nr_pages 0 (lo - al) self \<bind> free_small_pages al lo else Some self);
       if lo + k * 2 ^ (MAX_ORDER - 1) < a
       then add_nr_pages 0 (a - (lo + k * 2 ^ (MAX_ORDER - 1))) self
         \<bind> free_small_pages (lo + k * 2 ^ (MAX_ORDER - 1)) a
       else Some self
     }) = Some r'"
    and "heap_rep {..<al} V' {} L' r'" and "freed (hm_page_count r) (boot_view a) {al ..< a} V'"
    and "hm_start_virt r' = hm_start_virt r" "hm_page_count r' = hm_page_count r"
proof -
  let ?n = "hm_page_count r" and ?V = "boot_view a" and ?hi = "lo + k * 2 ^ (MAX_ORDER - 1)"
  note D = heap_repD [OF rep]
  have a: "a \<le> ?n" using D(8) [of "a - 1"] by (cases "a = 0") (auto simp: subset_iff)
  have V0: "?V x = AllocP 0" if "x < a" for x using that by (simp add: boot_view_def)
  define r1 where "r1 = r\<lparr>hm_nr_pages := (replicate MAX_ORDER 0)[MAX_ORDER - 1 := k]\<rparr>"
  have "k * 1 \<le> k * 2 ^ (MAX_ORDER - 1)" by (intro mult_le_mono2) simp
  then have "k \<le> usize_max" using page_small(3) [OF D(1), of k] al(2) a by linarith
  then have 1: "add_nr_pages (MAX_ORDER - 1) k r = Some r1"
    using nr by (simp add: add_nr_pages_def r1_def MAX_ORDER_def)
  have r1: "r1\<lparr>hm_nr_pages := replicate MAX_ORDER 0\<rparr> = r" using nr by (simp add: r1_def)
  obtain r2 V2 L2 where 2: "forO [0 ..< k] (\<lambda>i. free_big_page (lo + i * 2 ^ (MAX_ORDER - 1))) r1 = Some r2"
    "heap_rep ({..<a} - {lo ..< ?hi}) V2 {} L2 (r2\<lparr>hm_nr_pages := (replicate MAX_ORDER 0)[MAX_ORDER - 1 := k]\<rparr>)"
    "freed ?n ?V {lo ..< ?hi} V2" "hm_nr_pages r2 = hm_nr_pages r1"
    "hm_start_virt r2 = hm_start_virt r" "hm_page_count r2 = ?n"
  proof -
    have rep1: "heap_rep {..<a} ?V {} L (r1\<lparr>hm_nr_pages := replicate MAX_ORDER 0\<rparr>)" unfolding r1 by (rule rep)
    have "freed (hm_page_count r1) ?V {} ?V" "?hi \<le> hm_page_count r1" "{lo ..< ?hi} \<subseteq> {..<a}"
      "length (hm_nr_pages r1) = MAX_ORDER" and sel: "hm_page_count r1 = ?n" "hm_start_virt r1 = hm_start_virt r"
      using f al a by (auto simp: r1_def)
    from free_big_pages_ok [OF rep1 this(1) al(3) this(2-4)] that show thesis unfolding sel by blast
  qed
  have "(replicate MAX_ORDER 0)[MAX_ORDER - 1 := k] = hm_nr_pages r2" using 2(4) by (simp add: r1_def)
  with 2(2) have rep2: "heap_rep ({..<a} - {lo ..< ?hi}) V2 {} L2 r2" by (simp only: ) simp
  obtain r3 V3 L3 where 3:
    "(if al < lo then add_nr_pages 0 (lo - al) r2 \<bind> free_small_pages al lo else Some r2) = Some r3"
    "heap_rep ({..<a} - {lo ..< ?hi} - {al ..< lo}) V3 {} L3 r3" "freed ?n ?V ({lo ..< ?hi} \<union> {al ..< lo}) V3"
    "hm_start_virt r3 = hm_start_virt r" "hm_page_count r3 = ?n"
  proof -
    have "freed (hm_page_count r2) ?V {lo ..< ?hi} V2" "{al ..< lo} \<subseteq> {..<a} - {lo ..< ?hi}"
      "{al ..< lo} \<inter> {lo ..< ?hi} = {}" "\<And>x. al \<le> x \<Longrightarrow> x < lo \<Longrightarrow> ?V x = AllocP 0"
      using 2(3,6) al(2) V0 by auto
    from free_counted_pages [OF rep2 this(1) al(1) this(2-)] that 2(5,6) show thesis by metis
  qed
  obtain r4 V4 L4 where 4:
    "(if ?hi < a then add_nr_pages 0 (a - ?hi) r3 \<bind> free_small_pages ?hi a else Some r3) = Some r4"
    "heap_rep ({..<a} - {lo ..< ?hi} - {al ..< lo} - {?hi ..< a}) V4 {} L4 r4"
    "freed ?n ?V ({lo ..< ?hi} \<union> {al ..< lo} \<union> {?hi ..< a}) V4"
    "hm_start_virt r4 = hm_start_virt r" "hm_page_count r4 = ?n"
  proof -
    have "freed (hm_page_count r3) ?V ({lo ..< ?hi} \<union> {al ..< lo}) V3"
      "{?hi ..< a} \<subseteq> {..<a} - {lo ..< ?hi} - {al ..< lo}" "{?hi ..< a} \<inter> ({lo ..< ?hi} \<union> {al ..< lo}) = {}"
      "\<And>x. ?hi \<le> x \<Longrightarrow> x < a \<Longrightarrow> ?V x = AllocP 0"
      using 3(3,5) V0 by auto
    from free_counted_pages [OF 3(2) this(1) al(2) this(2-)] that 3(4,5) show thesis by metis
  qed
  have "{..<a} - {lo ..< ?hi} - {al ..< lo} - {?hi ..< a} = {..<al}"
    "{lo ..< ?hi} \<union> {al ..< lo} \<union> {?hi ..< a} = {al ..< a}" using al(1,2) by auto
  with 4(2,3) have "heap_rep {..<al} V4 {} L4 r4" "freed ?n ?V {al ..< a} V4" by simp_all
  with 1 2(1) 3(1) 4(1,4,5) show thesis by (intro that [of r4]) simp_all
qed

lemma init_memory_run:
  assumes r: "fresh_heap r" and al: "al + meta_pages (hm_page_count r) \<le> hm_page_count r"
    and a_def: "a = hm_page_count r - meta_pages (hm_page_count r)"
  obtains r' V' L' where "init_memory al r = Some r'" and "heap_rep {..<al} V' {} L' r'"
    and "freed (hm_page_count r) (boot_view a) {al ..< a} V'"
    and "hm_start_virt r' = hm_start_virt r" "hm_page_count r' = hm_page_count r"
proof -
  let ?n = "hm_page_count r" and ?N = "2 ^ (MAX_ORDER - 1) :: nat"
  have par: "params_ok r" using r by (simp add: fresh_heap_def params_ok_def)
  have n: "?n < 2 ^ 35" using params_okD(4) [OF par] .
  have a: "a \<le> ?n" "al \<le> a" using al by (simp_all add: a_def)
  obtain y where y: "align_up (of_nat (?n * 8) :: u64) PAGE_SIZE_W = Some y" "unat y div PAGE_SIZE = meta_pages ?n"
    using align_up_nat [of 12 "?n * 8"] n by (auto simp: page_consts meta_pages_def mult.commute)
  obtain first where f: "align_up (of_nat al :: u64) (of_nat ?N) = Some first" "unat first = (al + (?N - 1)) div ?N * ?N"
    using align_up_nat [of 5 al] n a by (auto simp: MAX_ORDER_def)
  obtain last where l: "align_down (of_nat a :: u64) (of_nat ?N) = Some last" "unat last = a div ?N * ?N"
    using align_down_nat [of 5 a] n a by (auto simp: MAX_ORDER_def)
  note v = page_vaddr [OF par a(1)]
  obtain r0 r1 where r1: "forO [0 ..< a] (\<lambda>i. write_page_info i (PageInfo_Allocated (AllocatedInfo 0)))
        (r\<lparr>hm_metadata_addr := page_vaddr r a\<rparr>) = Some r0" "hm_page_count r0 = ?n"
    "forO [a ..< ?n] (\<lambda>i. write_page_info i (PageInfo_Reserved ReservedInfo)) r0 = Some r1"
    "heap_rep {..<a} (boot_view a) {} (\<lambda>_. []) r1" "freed ?n (boot_view a) {} (boot_view a)"
    "hm_start_virt r1 = hm_start_virt r" "hm_page_count r1 = ?n" "hm_nr_pages r1 = replicate MAX_ORDER 0"
    by (rule init_metadata [OF r a(1)])
  have "umul ?n 8 = Some (?n * 8)" "usub ?n (meta_pages ?n) = Some a"
    using n al by (simp_all add: usize_max_eq a_def)
  note start = this y v(1,2) r1(1-3)
  note run = init_memory_def [of al r, unfolded Let_def, simplified start f(1) l(1) Option.bind.simps]
  show thesis
  proof (cases "unat first < unat last")
    case True
    define k where "k = (unat last - unat first) div ?N"
    have k: "unat last = unat first + k * ?N"
    proof -
      have "unat last - unat first = (a div ?N - (al + (?N - 1)) div ?N) * ?N"
        unfolding f(2) l(2) by (rule diff_mult_distrib [symmetric])
      then have "k = a div ?N - (al + (?N - 1)) div ?N" by (simp add: k_def)
      with True show ?thesis unfolding f(2) l(2) by (simp add: algebra_simps flip: diff_mult_distrib)
    qed
    have "a div ?N * ?N \<le> a" by simp
    then have lo: "al \<le> unat first" "?N dvd unat first" "unat first + k * ?N \<le> a"
      using round_up_ge [of ?N al] f(2) l(2) k by simp_all
    have "step_range (unat first) (unat last) ?N = map (\<lambda>i. unat first + i * ?N) [0 ..< k]"
      unfolding k by (subst step_range_eq) (simp_all add: MAX_ORDER_def)
    then have "init_memory al r = (do {
       self \<leftarrow> add_nr_pages (MAX_ORDER - 1) k r1;
       self \<leftarrow> forO [0 ..< k] (\<lambda>i. free_big_page (unat first + i * ?N)) self;
       self \<leftarrow> (if al < unat first then add_nr_pages 0 (unat first - al) self \<bind> free_small_pages al (unat first) else Some self);
       if unat first + k * ?N < a then add_nr_pages 0 (a - (unat first + k * ?N)) self
         \<bind> free_small_pages (unat first + k * ?N) a else Some self })"
      using True unfolding run k free_big_page_def by (simp add: k_def [symmetric] forO_map)
    with init_big [OF r1(4) _ r1(8) lo(1,3,2)] r1(5-7) that show thesis by metis
  next
    case False
    from init_small [OF r1(4) _ r1(8) a(2)] r1(5-7) obtain r' V' L' where
      r': "free_small_pages al a (r1\<lparr>hm_nr_pages := (hm_nr_pages r1)[0 := a - al]\<rparr>) = Some r'"
      "heap_rep {..<al} V' {} L' r'" "freed ?n (boot_view a) {al ..< a} V'"
      "hm_start_virt r' = hm_start_virt r" "hm_page_count r' = ?n" by metis
    have "init_memory al r = Some r'"
      using False r'(1) a(2) r1(8) unfolding run by (simp add: MAX_ORDER_def)
    with r'(2-) show thesis by (intro that)
  qed
qed

end
