(* ===== verification/Heap_Properties.thy ===== *)
theory Heap_Properties
  imports Heap_Init
begin

text \<open>
  The properties of the public page allocator operations, stated on the abstraction
  \<^const>\<open>heap_abs\<close>: allocation, freeing, misuse, the accounting of \<open>memory_info\<close> and the
  reference counts of file pages.
\<close>

section \<open>Shared facts\<close>

lemma used_page_simps [simp]:
  "used_page ord (AllocP k) \<longleftrightarrow> k = ord \<and> ord < 256"
  "used_page ord (PageInfo_Slab si) \<longleftrightarrow> ord = 0 \<and> unat (si_item_size si) < 2 ^ 16"
  "used_page ord (PageInfo_File fi) \<longleftrightarrow> ord = 0 \<and> unat (file_ref_count fi) < 2 ^ 60"
  by (auto simp: used_page_def)

text \<open>A small region: 66 pages, of which the last holds the metadata and the first is a boot page.\<close>

definition demo_region :: HeapMemoryRegion where
  "demo_region = (HeapMemoryRegion_new (\<lambda>_. 0))
     \<lparr>hm_start_virt := VirtAddr 0xffffff8000000000, hm_page_count := 66\<rparr>"

lemma demo_region:
  "fresh_heap demo_region" "hm_page_count demo_region = 66" "meta_pages 66 = 1"
proof -
  show "hm_page_count demo_region = 66" by (simp add: demo_region_def)
  show "meta_pages 66 = 1" by (simp add: page_consts meta_pages_def)
  have "unat (0xffffff8000000000 :: u64) = 0xffffff8000000000" by simp
  then have "canonical 0xffffff8000000000" "in_half 0xffffff8000000000 (66 * PAGE_SIZE)"
    by (simp_all only: canonical_unat in_half_def) (simp_all add: page_consts)
  then show "fresh_heap demo_region"
    by (simp add: fresh_heap_def demo_region_def HeapMemoryRegion_new_def)
qed

definition demo_heap :: HeapMemoryRegion where
  "demo_heap = (case init_memory 1 demo_region of Some r \<Rightarrow> r | None \<Rightarrow> demo_region)"

lemma demo_heap:
  "heap_inv {0} demo_heap" "hm_page_count demo_heap = 66" "ah_free (heap_abs demo_heap) = {1..<65}"
  "ah_used (heap_abs demo_heap) 0 = Some (AllocP 0)"
proof -
  have "1 + meta_pages (hm_page_count demo_region) \<le> hm_page_count demo_region"
    by (simp add: demo_region)
  from init_memory_run [OF demo_region(1) this refl]
  obtain r' V' L' where r: "init_memory 1 demo_region = Some r'" "heap_rep {..<1} V' {} L' r'"
    "freed 66 (boot_view (66 - 1)) {1 ..< 66 - 1} V'" "hm_page_count r' = 66"
    unfolding demo_region by metis
  have "{..<1} = {0 :: nat}" by auto
  with r heap_inv_rep [OF r(2)] heap_abs_rep [OF r(2)] show
    "heap_inv {0} demo_heap" "hm_page_count demo_heap = 66" "ah_free (heap_abs demo_heap) = {1..<65}"
    by (simp_all add: demo_heap_def freed_def)
  show "ah_used (heap_abs demo_heap) 0 = Some (AllocP 0)"
    using r heap_abs_rep [OF r(2)] heap_repD(8) [OF r(2), of 0] by (simp add: demo_heap_def heap_used_def)
qed

lemma demo_alloc:
  obtains v r' where "heap_allocate_pages 0 demo_heap = Some (Ok v, r')"
proof -
  have "1 \<in> free_set 66 (heap_view demo_heap)" using demo_heap(2,3) by (simp add: heap_abs_def)
  then obtain p nx j where "p < 66" "heap_view demo_heap p = FreeP nx j"
    by (auto elim!: free_setE simp: free_heads_def)
  with heap_alloc_refines [OF demo_heap(1), of 0 "AllocP 0"] demo_heap(2) that show thesis
    by (auto simp: heap_allocate_pages_def MAX_ORDER_def)
qed


section \<open>Initialisation\<close>

text \<open>
  C3. Initialisation of a fresh region never panics when the boot pages and the metadata fit into
  it.  Afterwards the allocator invariant holds, the free pages are exactly those between the
  boot pages and the metadata, and the boot pages are recorded as single allocated pages.
\<close>

theorem init_memory_spec:
  assumes r: "fresh_heap r" and al: "al + meta_pages (hm_page_count r) \<le> hm_page_count r"
  shows "\<exists>r'. init_memory al r = Some r' \<and> heap_inv {..<al} r'
    \<and> ah_free (heap_abs r') = {al ..< hm_page_count r - meta_pages (hm_page_count r)}
    \<and> (\<forall>p < al. ah_used (heap_abs r') p = Some (AllocP 0))
    \<and> hm_start_virt r' = hm_start_virt r \<and> hm_page_count r' = hm_page_count r"
proof -
  let ?n = "hm_page_count r"
  define a where "a = ?n - meta_pages ?n"
  obtain r' V' L' where r': "init_memory al r = Some r'" "heap_rep {..<al} V' {} L' r'"
    "freed ?n (boot_view a) {al ..< a} V'" "hm_start_virt r' = hm_start_virt r" "hm_page_count r' = ?n"
    by (rule init_memory_run [OF r al a_def])
  have "heap_used ?n V' p = Some (AllocP 0)" if "p < al" for p
    using heap_repD(8) [OF r'(2), of p] that r'(5) by (simp add: heap_used_def)
  then show ?thesis
    using r' heap_inv_rep [OF r'(2)] heap_abs_rep [OF r'(2)] by (auto simp: freed_def a_def)
qed

theorem init_memory_spec_witness:
  "fresh_heap demo_region \<and> (\<exists>r'. init_memory 1 demo_region = Some r' \<and> heap_inv {..<1} r'
    \<and> ah_free (heap_abs r') = {1 ..< 65} \<and> ah_used (heap_abs r') 0 = Some (AllocP 0))"
proof -
  have "1 + meta_pages (hm_page_count demo_region) \<le> hm_page_count demo_region"
    by (simp add: demo_region)
  from init_memory_spec [OF demo_region(1) this] demo_region show ?thesis by auto
qed

section \<open>Allocation\<close>

text \<open>
  C1. \<open>allocate_pages\<close> refines the abstract allocation: a successful call returns the
  address of an aligned block of \<open>2 ^ order\<close> pages that were free, makes exactly these pages
  allocated, and keeps every other allocation and the invariant.  It fails with
  \<open>OutOfMemory\<close>, leaving the heap unchanged, only when no free block of the requested or a larger
  order exists, and with \<open>InvalidPageOrder\<close> when the order is out of range.
\<close>

theorem heap_allocate_pages_spec:
  assumes "heap_inv B r"
  shows "(ord < MAX_ORDER \<and> (\<exists>p r'. heap_allocate_pages ord r = Some (Ok (page_vaddr r p), r')
        \<and> heap_inv B r' \<and> p < hm_page_count r \<and> p \<notin> B
        \<and> abs_alloc ord (AllocP ord) p (heap_abs r) (heap_abs r')
        \<and> hm_start_virt r' = hm_start_virt r \<and> hm_page_count r' = hm_page_count r))
    \<or> (ord < MAX_ORDER \<and> heap_allocate_pages ord r = Some (Err AllocError_OutOfMemory, r)
        \<and> {p. p < hm_page_count r \<and> (\<exists>j nx. ord \<le> j \<and> heap_view r p = FreeP nx j)} = {})
    \<or> (MAX_ORDER \<le> ord \<and> heap_allocate_pages ord r = Some (Err (AllocError_InvalidPageOrder ord), r))"
proof (cases "ord < MAX_ORDER")
  case True
  then have "used_page ord (AllocP ord)" by (simp add: MAX_ORDER_def)
  from heap_alloc_refines [OF assms True this] True show ?thesis
    unfolding heap_allocate_pages_def by blast
next
  case False
  from assms obtain L where "heap_rep B (heap_view r) {} L r" by (auto simp: heap_inv_def)
  then have "length (hm_next_page r) = MAX_ORDER" by (intro params_okD(2) heap_repD(1))
  with False show ?thesis
    by (simp add: heap_allocate_pages_def allocate_pages_info_def bindM_def refill_page_list_def)
qed

theorem heap_allocate_pages_spec_witness:
  "heap_inv {0} demo_heap \<and> (\<exists>v r'. heap_allocate_pages 0 demo_heap = Some (Ok v, r') \<and> heap_inv {0} r')"
proof (rule demo_alloc)
  fix v r' assume "heap_allocate_pages 0 demo_heap = Some (Ok v, r')"
  with heap_allocate_pages_spec [OF demo_heap(1), of 0] demo_heap(1) show ?thesis by auto
qed

text \<open>What the invariant says of a block in use, whether it is allocated, a slab page or a file page.\<close>

lemma used_page_of:
  assumes inv: "heap_inv B r" and p: "ah_used (heap_abs r) p = Some pg"
  obtains k where "used_page k pg"
proof -
  from inv obtain L where rep: "heap_rep B (heap_view r) {} L r" by (auto simp: heap_inv_def)
  have v: "p < hm_page_count r" "heap_view r p = pg" "blk pg \<noteq> None" "\<forall>fi. pg \<noteq> PageInfo_Free fi"
    using p by (auto simp: heap_abs_def heap_used_def split: if_splits)
  have "PageInfo_fits pg" using heap_repD(5) [OF rep v(1)] v(2) by simp
  then show thesis using v(3,4) by (auto simp: used_page_def intro: that)
qed

text \<open>
  C5. Two blocks that are in use at the same time share no page: every block in use, whether
  allocated, a slab page or a file page, stays in use over a successful \<open>allocate_pages\<close>, and the
  block that the call returns is disjoint from it.
\<close>

theorem heap_alloc_disjoint:
  assumes "heap_inv B r" and "ah_used (heap_abs r) p = Some pg"
    and "heap_allocate_pages ord r = Some (Ok v, r')"
  shows "\<exists>k q. blk pg = Some k \<and> v = page_vaddr r q \<and> ah_used (heap_abs r') q = Some (AllocP ord)
    \<and> ah_used (heap_abs r') p = Some pg \<and> block_of p k \<inter> block_of q ord = {}"
proof -
  obtain k where k: "used_page k pg" using used_page_of [OF assms(1,2)] .
  have ord: "ord < MAX_ORDER"
    using assms(1,3) params_okD(2) [of r]
    by (auto simp: heap_inv_def heap_allocate_pages_def allocate_pages_info_def bindM_def refill_page_list_def
        dest!: heap_repD(1) split: if_splits)
  then have o: "used_page ord (AllocP ord)" by (simp add: MAX_ORDER_def)
  have "blk pg = Some k" using k by (simp add: used_page_def)
  with heap.alloc_disjoint [OF assms(1,2) k ord o] assms(3) show ?thesis
    unfolding heap_allocate_pages_def by blast
qed

theorem heap_alloc_disjoint_witness:
  "ah_used (heap_abs demo_heap) 0 = Some (AllocP 0) \<and> (\<exists>v r' q. heap_allocate_pages 0 demo_heap = Some (Ok v, r')
    \<and> v = page_vaddr demo_heap q \<and> ah_used (heap_abs r') 0 = Some (AllocP 0) \<and> block_of 0 0 \<inter> block_of q 0 = {})"
proof (rule demo_alloc)
  fix v r' assume a: "heap_allocate_pages 0 demo_heap = Some (Ok v, r')"
  from heap_alloc_disjoint [OF demo_heap(1,4) a] a demo_heap(4) show ?thesis by auto
qed

section \<open>Freeing\<close>

text \<open>
  C2. \<open>free_page\<close> refines the abstract free: for the head of a block in use that was not
  handed out at boot it terminates without panic, makes exactly the pages of the block free
  (whatever merging with buddies happens), and keeps every other allocation and the invariant.
\<close>

theorem heap_free_page_spec:
  assumes "heap_inv B r" and "ah_used (heap_abs r) p = Some pg" and "used_page ord pg" and "p \<notin> B"
  shows "\<exists>r'. heap_free_page (page_vaddr r p) r = Some r' \<and> heap_inv B r'
    \<and> abs_free ord p (heap_abs r) (heap_abs r')
    \<and> hm_start_virt r' = hm_start_virt r \<and> hm_page_count r' = hm_page_count r"
  using assms by (rule heap_free_refines)

theorem heap_free_page_spec_witness:
  "\<exists>p v r r'. heap_allocate_pages 0 demo_heap = Some (Ok v, r) \<and> heap_inv {0} r
    \<and> ah_used (heap_abs r) p = Some (AllocP 0) \<and> heap_free_page (page_vaddr r p) r = Some r'
    \<and> abs_free 0 p (heap_abs r) (heap_abs r')"
proof (rule demo_alloc)
  fix v r assume a: "heap_allocate_pages 0 demo_heap = Some (Ok v, r)"
  with heap_alloc_refines [OF demo_heap(1), of 0 "AllocP 0"] obtain p where
    p: "heap_inv {0} r" "p \<notin> {0}" "abs_alloc 0 (AllocP 0) p (heap_abs demo_heap) (heap_abs r)"
    by (auto simp: heap_allocate_pages_def MAX_ORDER_def)
  then have u: "ah_used (heap_abs r) p = Some (AllocP 0)" by (simp add: abs_alloc_def)
  have "used_page 0 (AllocP 0)" by simp
  from heap_free_page_spec [OF p(1) u this p(2)] a p(1) u show ?thesis by blast
qed

text \<open>
  C4. Freeing what \<open>allocate_pages\<close> returned restores the abstract state: the same pages are
  free and the same blocks are in use as before, although blocks may have been split and merged.
\<close>

theorem heap_alloc_free_roundtrip:
  assumes "heap_inv B r" and "ord < MAX_ORDER" and "heap_allocate_pages ord r = Some (Ok v, r1)"
  shows "\<exists>r2. heap_free_page v r1 = Some r2 \<and> heap_inv B r2 \<and> heap_abs r2 = heap_abs r"
proof -
  have "used_page ord (AllocP ord)" using assms(2) by (simp add: MAX_ORDER_def)
  from heap.alloc_free_restores [OF assms(1,2) this] assms(3) show ?thesis
    unfolding heap_allocate_pages_def by blast
qed

theorem heap_alloc_free_roundtrip_witness:
  "\<exists>v r1 r2. heap_allocate_pages 0 demo_heap = Some (Ok v, r1) \<and> heap_free_page v r1 = Some r2
    \<and> heap_abs r2 = heap_abs demo_heap"
proof (rule demo_alloc)
  fix v r' assume a: "heap_allocate_pages 0 demo_heap = Some (Ok v, r')"
  have "0 < MAX_ORDER" by (simp add: MAX_ORDER_def)
  from heap_alloc_free_roundtrip [OF demo_heap(1) this a] a show ?thesis by blast
qed

text \<open>
  C18. Misuse of \<open>free_page\<close>: an address outside the region is ignored, and freeing a page that
  is already free, a page inside a block or a metadata page panics.
\<close>

theorem heap_free_page_misuse:
  assumes "heap_inv B r"
  shows "(virt_bits v < virt_bits (hm_start_virt r) \<or> (\<exists>d. VirtAddr_sub v (hm_start_virt r) = Some d
        \<and> hm_page_count r * PAGE_SIZE \<le> unat d) \<longrightarrow> heap_free_page v r = Some r)
    \<and> (p < hm_page_count r \<and> ah_used (heap_abs r) p = None \<longrightarrow> heap_free_page (page_vaddr r p) r = None)"
proof (intro conjI impI)
  from assms obtain L where rep: "heap_rep B (heap_view r) {} L r" by (auto simp: heap_inv_def)
  note D = heap_repD [OF rep]
  have "umul (hm_page_count r) PAGE_SIZE = Some (hm_page_count r * PAGE_SIZE)"
    by (rule page_vaddr(1) [OF D(1)]) simp
  then show "heap_free_page v r = Some r" if "virt_bits v < virt_bits (hm_start_virt r)
      \<or> (\<exists>d. VirtAddr_sub v (hm_start_virt r) = Some d \<and> hm_page_count r * PAGE_SIZE \<le> unat d)"
    using that by (auto simp: heap_free_page_def get_pfn_def get_virt_offset_def split: if_splits)
  assume p: "p < hm_page_count r \<and> ah_used (heap_abs r) p = None"
  show "heap_free_page (page_vaddr r p) r = None"
    using p get_pfn_page [OF D(1), of p] D(6) [of p]
    by (cases "heap_view r p") (auto simp: heap_free_page_def heap_abs_def heap_used_def split: if_splits)
qed

theorem heap_free_page_misuse_witness:
  "heap_inv {0} demo_heap \<and> ah_used (heap_abs demo_heap) 1 = None
    \<and> heap_free_page (page_vaddr demo_heap 1) demo_heap = None"
proof -
  obtain L where rep: "heap_rep {0} (heap_view demo_heap) {} L demo_heap"
    using demo_heap(1) by (auto simp: heap_inv_def)
  have "1 \<in> free_set 66 (heap_view demo_heap)" using demo_heap(2,3) by (simp add: heap_abs_def)
  then have "ah_used (heap_abs demo_heap) 1 = None"
    using heap_used_free [OF heap_repD(2) [OF rep]] demo_heap(2) by (simp add: heap_abs_def)
  then show ?thesis using heap_free_page_misuse [OF demo_heap(1), of _ 1] demo_heap(1,2) by simp
qed

section \<open>Accounting\<close>

lemma free_set_card:
  assumes V: "blocks_ok n V"
  shows "card (free_set n V) = (\<Sum>ord < MAX_ORDER. 2 ^ ord * card (free_heads n V ord))"
proof -
  have fin: "finite (free_heads n V ord)" for ord
    by (rule finite_subset [of _ "{..<n}"]) (auto simp: free_heads_def)
  have hd: "p < n" "blk (V p) = Some ord" if "p \<in> free_heads n V ord" for p ord
    using that by (auto simp: free_heads_def)
  have same: "p = q \<and> i = j"
    if "p \<in> free_heads n V i" "q \<in> free_heads n V j" "x \<in> block_of p i" "x \<in> block_of q j" for p q i j x
  proof -
    have "p = q" using blocks_disjoint [OF V hd [OF that(1)] hd [OF that(2)]] that(3,4) by (simp add: block_of_def)
    then show ?thesis using that(1,2) by (auto simp: free_heads_def)
  qed
  have small: "ord < MAX_ORDER" if "p \<in> free_heads n V ord" for p ord
    using hd [OF that] blocks_okD(1) [OF V] by blast
  have "free_set n V = (\<Union>ord \<in> {..<MAX_ORDER}. \<Union>p \<in> free_heads n V ord. block_of p ord)"
    using small by (fastforce simp: free_set_def)
  also have "card \<dots> = (\<Sum>ord < MAX_ORDER. card (\<Union>p \<in> free_heads n V ord. block_of p ord))"
  proof (rule card_UN_disjoint)
    show "\<forall>i \<in> {..<MAX_ORDER}. \<forall>j \<in> {..<MAX_ORDER}. i \<noteq> j \<longrightarrow>
      (\<Union>p \<in> free_heads n V i. block_of p i) \<inter> (\<Union>p \<in> free_heads n V j. block_of p j) = {}"
      using same by (fastforce simp: disjoint_iff)
  qed (use fin in \<open>auto simp: block_of_def\<close>)
  also have "\<dots> = (\<Sum>ord < MAX_ORDER. 2 ^ ord * card (free_heads n V ord))"
  proof (rule sum.cong [OF refl])
    fix ord
    have "card (\<Union>p \<in> free_heads n V ord. block_of p ord) = (\<Sum>p \<in> free_heads n V ord. card (block_of p ord))"
    proof (rule card_UN_disjoint [OF fin])
      show "\<forall>p \<in> free_heads n V ord. \<forall>q \<in> free_heads n V ord. p \<noteq> q \<longrightarrow> block_of p ord \<inter> block_of q ord = {}"
        using same by blast
    qed (simp add: block_of_def)
    then show "card (\<Union>p \<in> free_heads n V ord. block_of p ord) = 2 ^ ord * card (free_heads n V ord)"
      by (simp add: block_of_def)
  qed
  finally show ?thesis .
qed

text \<open>
  C19. The counters reported by \<open>memory_info\<close> are exact: weighted by the size of their order they
  add up to the number of free pages.
\<close>

theorem heap_memory_info_exact:
  assumes "heap_inv B r"
  shows "(\<Sum>ord < MAX_ORDER. 2 ^ ord * mi_free_pages (heap_memory_info r) ! ord) = card (ah_free (heap_abs r))"
proof -
  from assms obtain L where rep: "heap_rep B (heap_view r) {} L r" by (auto simp: heap_inv_def)
  note D = heap_repD [OF rep]
  have "hm_free_pages r ! ord = card (free_heads (hm_page_count r) (heap_view r) ord)" if "ord < MAX_ORDER" for ord
    using lists_okD(2-4) [OF D(3) that] by (metis distinct_card)
  then show ?thesis using free_set_card [OF D(2)] by (simp add: heap_memory_info_def heap_abs_def)
qed

theorem heap_memory_info_exact_witness:
  "(\<Sum>ord < MAX_ORDER. 2 ^ ord * mi_free_pages (heap_memory_info demo_heap) ! ord) = 64"
  using heap_memory_info_exact [OF demo_heap(1)] by (simp add: demo_heap(3))

section \<open>File pages\<close>

text \<open>Rewriting the metadata of a used page changes the abstract state at that page only.\<close>

lemma heap_write_used:
  assumes inv: "heap_inv B r" and p: "ah_used (heap_abs r) p = Some pg" "used_page ord pg" "p \<notin> B"
    and pg': "used_page ord pg'"
  obtains r' where "write_page_info p pg' r = Some r'" and "heap_inv B r'"
    and "heap_abs r' = (heap_abs r)\<lparr>ah_used := (ah_used (heap_abs r))(p \<mapsto> pg')\<rparr>"
    and "hm_start_virt r' = hm_start_virt r" and "hm_page_count r' = hm_page_count r"
proof -
  let ?n = "hm_page_count r" and ?V = "heap_view r"
  from inv obtain L where rep: "heap_rep B ?V {} L r" by (auto simp: heap_inv_def)
  have V: "p < ?n" "?V p = pg" using p(1) by (auto simp: heap_abs_def heap_used_def split: if_splits)
  with p(2) have b: "blk (?V p) = Some ord" and nf: "\<And>fi. ?V p \<noteq> PageInfo_Free fi"
    by (auto simp: used_page_def)
  from pg' have pi: "blk pg' = Some ord" "\<And>fi. pg' \<noteq> PageInfo_Free fi" "PageInfo_fits pg'"
    by (auto simp: used_page_def)
  have rep': "heap_rep B (?V(p := pg')) {} L (put_info p pg' r)"
    using heap_rep_write_head [OF heap_rep_stale [OF rep V(1) b nf] V(1) p(3) _ pi] by simp
  have "free_heads ?n (?V(p := pg')) k = free_heads ?n ?V k" for k
    using nf pi(2) by (auto simp: free_heads_def)
  then have "free_set ?n (?V(p := pg')) = free_set ?n ?V" by (simp add: free_set_def)
  moreover have "heap_used ?n (?V(p := pg')) = (heap_used ?n ?V)(p \<mapsto> pg')"
    using V(1) pi by (auto simp: heap_used_def fun_eq_iff)
  ultimately have "heap_abs (put_info p pg' r) = (heap_abs r)\<lparr>ah_used := (ah_used (heap_abs r))(p \<mapsto> pg')\<rparr>"
    using heap_abs_rep [OF rep] heap_abs_rep [OF rep'] by (cases "heap_abs (put_info p pg' r)") simp
  then show thesis using that [OF _ heap_inv_rep [OF rep']] V(1) by (simp add: write_page_info_eq put_info_def)
qed

lemma heap_used_read:
  assumes "heap_inv B r" and "ah_used (heap_abs r) p = Some pg"
  shows "get_pfn r (page_vaddr r p) = Some (Ok p)" "read_page_info r p = Some pg"
    "pg \<noteq> AllocP 0 \<Longrightarrow> p \<notin> B"
proof -
  from assms(1) obtain L where rep: "heap_rep B (heap_view r) {} L r" by (auto simp: heap_inv_def)
  note D = heap_repD [OF rep]
  have V: "p < hm_page_count r" "heap_view r p = pg"
    using assms(2) by (auto simp: heap_abs_def heap_used_def split: if_splits)
  show "get_pfn r (page_vaddr r p) = Some (Ok p)" "read_page_info r p = Some pg"
    using get_pfn_page [OF D(1) V(1)] D(6) [OF V(1)] V(2) by simp_all
  show "p \<notin> B" if "pg \<noteq> AllocP 0" using D(8) [of p] V(2) that by auto
qed

lemma heap_file_page_refs:
  assumes inv: "heap_inv B r" and p: "ah_used (heap_abs r) p = Some (PageInfo_File (FileInfo n))"
    and n: "0 < n" "unat n + 1 < 2 ^ 60"
  shows "\<exists>r'. heap_get_file_page (page_vaddr r p) r = Some (Ok (), r') \<and> heap_inv B r'
      \<and> hm_start_virt r' = hm_start_virt r \<and> hm_page_count r' = hm_page_count r
      \<and> heap_abs r' = (heap_abs r)\<lparr>ah_used := (ah_used (heap_abs r))(p \<mapsto> PageInfo_File (FileInfo (n + 1)))\<rparr>"
    and "\<exists>r'. heap_put_file_page (page_vaddr r p) r = Some (Ok (), r') \<and> heap_inv B r'
      \<and> hm_start_virt r' = hm_start_virt r \<and> hm_page_count r' = hm_page_count r
      \<and> (if n = 1 then abs_free 0 p (heap_abs r) (heap_abs r')
         else heap_abs r' = (heap_abs r)\<lparr>ah_used := (ah_used (heap_abs r))(p \<mapsto> PageInfo_File (FileInfo (n - 1)))\<rparr>)"
proof -
  note rd = heap_used_read [OF inv p]
  have nB: "p \<notin> B" by (rule rd(3)) simp
  have u: "used_page 0 (PageInfo_File (FileInfo n))" using n by simp
  have "unat (n + 1) = unat n + 1" using n(2) by (simp add: unat_word_ariths)
  then have up: "used_page 0 (PageInfo_File (FileInfo (n + 1)))" "wadd n 1 = Some (n + 1)"
    using n(2) by (simp_all add: wadd_def)
  have "1 \<le> n" using n(1) by (simp add: word_less_nat_alt word_le_nat_alt)
  then have "wsub n 1 = Some (n - 1)" "unat (n - 1) = unat n - 1" by (simp_all add: wsub_def unat_sub)
  then have dn: "wsub n 1 = Some (n - 1)" "used_page 0 (PageInfo_File (FileInfo (n - 1)))" "0 < n - 1 \<longleftrightarrow> n \<noteq> 1"
    using n(2) by (simp_all add: word_gt_0)
  obtain r1 where r1: "write_page_info p (PageInfo_File (FileInfo (n + 1))) r = Some r1" "heap_inv B r1"
    "heap_abs r1 = (heap_abs r)\<lparr>ah_used := (ah_used (heap_abs r))(p \<mapsto> PageInfo_File (FileInfo (n + 1)))\<rparr>"
    "hm_start_virt r1 = hm_start_virt r" "hm_page_count r1 = hm_page_count r"
    by (rule heap_write_used [OF inv p u nB up(1)])
  obtain r2 where r2: "write_page_info p (PageInfo_File (FileInfo (n - 1))) r = Some r2" "heap_inv B r2"
    "heap_abs r2 = (heap_abs r)\<lparr>ah_used := (ah_used (heap_abs r))(p \<mapsto> PageInfo_File (FileInfo (n - 1)))\<rparr>"
    "hm_start_virt r2 = hm_start_virt r" "hm_page_count r2 = hm_page_count r"
    by (rule heap_write_used [OF inv p u nB dn(2)])
  obtain r3 where r3: "heap_free_page (page_vaddr r p) r = Some r3" "heap_inv B r3"
    "abs_free 0 p (heap_abs r) (heap_abs r3)" "hm_start_virt r3 = hm_start_virt r" "hm_page_count r3 = hm_page_count r"
    using heap_free_refines [OF inv p u nB] by blast
  have "heap_get_file_page (page_vaddr r p) r = Some (Ok (), r1)"
    using rd(1,2) n(1) up(2) r1(1) by (simp add: heap_get_file_page_def)
  then show "\<exists>r'. heap_get_file_page (page_vaddr r p) r = Some (Ok (), r') \<and> heap_inv B r'
      \<and> hm_start_virt r' = hm_start_virt r \<and> hm_page_count r' = hm_page_count r
      \<and> heap_abs r' = (heap_abs r)\<lparr>ah_used := (ah_used (heap_abs r))(p \<mapsto> PageInfo_File (FileInfo (n + 1)))\<rparr>"
    using r1 by blast
  have "heap_put_file_page (page_vaddr r p) r = Some (Ok (), if n = 1 then r3 else r2)"
    using rd(1,2) dn(1,3) r2(1) r3(1) by (simp add: heap_put_file_page_def)
  then show "\<exists>r'. heap_put_file_page (page_vaddr r p) r = Some (Ok (), r') \<and> heap_inv B r'
      \<and> hm_start_virt r' = hm_start_virt r \<and> hm_page_count r' = hm_page_count r
      \<and> (if n = 1 then abs_free 0 p (heap_abs r) (heap_abs r')
         else heap_abs r' = (heap_abs r)\<lparr>ah_used := (ah_used (heap_abs r))(p \<mapsto> PageInfo_File (FileInfo (n - 1)))\<rparr>)"
    using r2 r3 by simp
qed

text \<open>
  C20. \<open>get_file_page\<close> and \<open>put_file_page\<close> count references: taking a reference adds one, dropping
  one subtracts one, and dropping the last one frees the page; nothing else changes.
\<close>

theorem heap_file_page_refcount:
  assumes inv: "heap_inv B r" and p: "ah_used (heap_abs r) p = Some (PageInfo_File (FileInfo n))"
    and n: "0 < n" "unat n + 1 < 2 ^ 60"
  shows "(\<exists>r'. heap_get_file_page (page_vaddr r p) r = Some (Ok (), r') \<and> heap_inv B r'
      \<and> heap_abs r' = (heap_abs r)\<lparr>ah_used := (ah_used (heap_abs r))(p \<mapsto> PageInfo_File (FileInfo (n + 1)))\<rparr>)
    \<and> (\<exists>r'. heap_put_file_page (page_vaddr r p) r = Some (Ok (), r') \<and> heap_inv B r'
      \<and> (if n = 1 then abs_free 0 p (heap_abs r) (heap_abs r')
         else heap_abs r' = (heap_abs r)\<lparr>ah_used := (ah_used (heap_abs r))(p \<mapsto> PageInfo_File (FileInfo (n - 1)))\<rparr>))"
  using heap_file_page_refs [OF assms] by blast

theorem heap_file_page_refcount_witness:
  "\<exists>v r p. heap_allocate_file_page demo_heap = Some (Ok v, r) \<and> heap_inv {0} r
    \<and> ah_used (heap_abs r) p = Some (PageInfo_File (FileInfo 1))
    \<and> (\<exists>r'. heap_get_file_page (page_vaddr r p) r = Some (Ok (), r'))"
proof -
  obtain p nx j where "p < 66" "heap_view demo_heap p = FreeP nx j"
  proof -
    have "1 \<in> free_set 66 (heap_view demo_heap)" using demo_heap(2,3) by (simp add: heap_abs_def)
    then show thesis using that by (auto elim!: free_setE simp: free_heads_def)
  qed
  with heap_alloc_refines [OF demo_heap(1), of 0 "PageInfo_File (FileInfo 1)"] demo_heap(2)
  obtain q r where q: "heap_allocate_file_page demo_heap = Some (Ok (page_vaddr demo_heap q), r)" "heap_inv {0} r"
    "abs_alloc 0 (PageInfo_File (FileInfo 1)) q (heap_abs demo_heap) (heap_abs r)"
    by (auto simp: heap_allocate_file_page_def FileInfo_new_def MAX_ORDER_def)
  have u: "ah_used (heap_abs r) q = Some (PageInfo_File (FileInfo 1))" using q(3) by (simp add: abs_alloc_def)
  from heap_file_page_refcount [OF q(2) u] q(1,2) u show ?thesis by simp blast
qed

end
