(* ===== verification/Slab_Model.thy ===== *)
theory Slab_Model
  imports Heap_Init
begin

unbundle bit_operations_syntax

text \<open>
  The slab allocators on top of the page allocator (\<open>kernel/src/mm/alloc.rs\<close>): \<open>SlabPage\<close>,
  \<open>SlabCommon\<close>, \<open>SlabPageSlab\<close>, \<open>Slab\<close>, the global allocator \<open>SvsmAllocator\<close> and its
  initialisation.  The slot size \<open>N\<close>, a const generic of the code, is the first argument.

  A \<open>SlabCommon\<close> embeds its first page and links further pages through \<open>next_page\<close>; the linked
  pages are the list \<open>sc_next\<close>, each with the address of its \<open>SlabPage\<close> object, which is a slot of
  the slab of slab pages.  The 16- and 32-bit counters are natural numbers whose additions check
  the width.  The slab with slot size \<open>SLAB_PAGE_SIZE\<close> is the static \<open>SLAB_PAGE_SLAB\<close>.
\<close>

section \<open>Slab pages\<close>

definition cadd :: "nat \<Rightarrow> nat \<Rightarrow> nat \<Rightarrow> nat option" where
  "cadd w a b = (if a + b < 2 ^ w then Some (a + b) else None)"

record SlabPage =
  sp_vaddr :: VirtAddr
  sp_free :: nat
  sp_used_bitmap :: "u64 list"

definition SlabPage_new :: SlabPage where
  "SlabPage_new = \<lparr> sp_vaddr = VirtAddr_null, sp_free = 0, sp_used_bitmap = replicate 2 0 \<rparr>"

definition slab_capacity :: "nat \<Rightarrow> nat" where
  "slab_capacity N = PAGE_SIZE div N"

definition vaddr_is_null :: "VirtAddr \<Rightarrow> bool" where
  "vaddr_is_null v \<longleftrightarrow> virt_bits v = 0"

definition SlabPage_init :: "nat \<Rightarrow> SlabPage \<Rightarrow> (HeapMemoryRegion, SlabPage, AllocError) svsm" where
  "SlabPage_init N self =
     (if \<not> vaddr_is_null (sp_vaddr self) then ret self
      else bindM (heap_allocate_slab_page N) (\<lambda>vaddr.
        ret (self\<lparr>sp_vaddr := vaddr, sp_free := slab_capacity N mod 2 ^ 16\<rparr>)))"

definition SlabPage_destroy :: "SlabPage \<Rightarrow> HeapMemoryRegion \<Rightarrow> HeapMemoryRegion option" where
  "SlabPage_destroy self root =
     (if \<not> vaddr_is_null (sp_vaddr self) then heap_free_page (sp_vaddr self) root else Some root)"

text \<open>The bit of slot \<open>i\<close> in the bitmap.\<close>

definition slot_used :: "SlabPage \<Rightarrow> nat \<Rightarrow> bool option" where
  "slot_used self i = do {
     w \<leftarrow> idx (sp_used_bitmap self) (i div 64);
     Some (w AND push_bit (i mod 64) 1 \<noteq> 0)
   }"

fun slab_page_scan :: "nat \<Rightarrow> nat list \<Rightarrow> SlabPage \<Rightarrow> ((VirtAddr, AllocError) result \<times> SlabPage) option" where
  "slab_page_scan N [] self = Some (Err AllocError_OutOfMemory, self)"
| "slab_page_scan N (i # is) self = do {
     used \<leftarrow> slot_used self i;
     if \<not> used then do {
       w \<leftarrow> idx (sp_used_bitmap self) (i div 64);
       f \<leftarrow> usub (sp_free self) 1;
       off \<leftarrow> umul N i;
       vaddr \<leftarrow> VirtAddr_add (sp_vaddr self) (of_nat off);
       Some (Ok vaddr, self\<lparr>sp_used_bitmap := (sp_used_bitmap self)[i div 64 := w OR push_bit (i mod 64) 1],
         sp_free := f\<rparr>)
     }
     else slab_page_scan N is self
   }"

definition SlabPage_allocate :: "nat \<Rightarrow> SlabPage \<Rightarrow> ((VirtAddr, AllocError) result \<times> SlabPage) option" where
  "SlabPage_allocate N self =
     (if sp_free self = 0 then Some (Err AllocError_OutOfMemory, self)
      else slab_page_scan N [0 ..< slab_capacity N] self)"

definition SlabPage_free :: "nat \<Rightarrow> VirtAddr \<Rightarrow> SlabPage \<Rightarrow> ((unit, AllocError) result \<times> SlabPage) option" where
  "SlabPage_free N vaddr self =
     (if virt_bits vaddr < virt_bits (sp_vaddr self) then Some (Err (AllocError_InvalidHeapAddress vaddr), self)
      else do {
        end' \<leftarrow> VirtAddr_add (sp_vaddr self) PAGE_SIZE_W;
        if virt_bits vaddr \<ge> virt_bits end' then Some (Err (AllocError_InvalidHeapAddress vaddr), self)
        else do {
          offset \<leftarrow> VirtAddr_sub vaddr (sp_vaddr self);
          let i = unat offset div N;
          w \<leftarrow> idx (sp_used_bitmap self) (i div 64);
          f \<leftarrow> cadd 16 (sp_free self) 1;
          Some (Ok (), self\<lparr>sp_used_bitmap := (sp_used_bitmap self)[i div 64 := w AND NOT (push_bit (i mod 64) 1)],
            sp_free := f\<rparr>)
        }
      })"

section \<open>Slabs\<close>

record SlabCommon =
  sc_capacity :: nat
  sc_free :: nat
  sc_pages :: nat
  sc_full_pages :: nat
  sc_free_pages :: nat
  sc_page :: SlabPage
  sc_next :: "(VirtAddr \<times> SlabPage) list"

definition SlabCommon_new :: SlabCommon where
  "SlabCommon_new = \<lparr> sc_capacity = 0, sc_free = 0, sc_pages = 0, sc_full_pages = 0, sc_free_pages = 0,
     sc_page = SlabPage_new, sc_next = [] \<rparr>"

definition SlabCommon_init :: "nat \<Rightarrow> SlabCommon \<Rightarrow> (HeapMemoryRegion, SlabCommon, AllocError) svsm" where
  "SlabCommon_init N self =
     bindM (SlabPage_init N (sc_page self)) (\<lambda>page.
       ret (self\<lparr>sc_page := page, sc_capacity := slab_capacity N, sc_free := slab_capacity N, sc_pages := 1,
         sc_full_pages := 0, sc_free_pages := 1\<rparr>))"

definition add_slab_page :: "nat \<Rightarrow> VirtAddr \<times> SlabPage \<Rightarrow> SlabCommon \<Rightarrow> SlabCommon option" where
  "add_slab_page N new_page self = do {
     pages \<leftarrow> cadd 32 (sc_pages self) 1;
     free_pages \<leftarrow> cadd 32 (sc_free_pages self) 1;
     capacity \<leftarrow> cadd 32 (sc_capacity self) (slab_capacity N);
     free \<leftarrow> cadd 32 (sc_free self) (slab_capacity N);
     Some (self\<lparr>sc_next := new_page # sc_next self, sc_pages := pages, sc_free_pages := free_pages,
       sc_capacity := capacity, sc_free := free\<rparr>)
   }"

text \<open>
  The walk of \<open>allocate_slot\<close> along the pages: the address, the number of free slots of the page
  before the allocation, and the pages afterwards.  Running off the end of the list panics.
\<close>

fun allocate_slot_walk ::
  "nat \<Rightarrow> SlabPage \<Rightarrow> (VirtAddr \<times> SlabPage) list \<Rightarrow> (VirtAddr \<times> nat \<times> SlabPage \<times> (VirtAddr \<times> SlabPage) list) option" where
  "allocate_slot_walk N page rest = do {
     (r, page') \<leftarrow> SlabPage_allocate N page;
     case r of
       Ok vaddr \<Rightarrow> Some (vaddr, sp_free page, page', rest)
     | Err _ \<Rightarrow>
         (case rest of
            [] \<Rightarrow> None
          | (a, next_page) # rest' \<Rightarrow> do {
              (vaddr, free, next_page', rest'') \<leftarrow> allocate_slot_walk N next_page rest';
              Some (vaddr, free, page', (a, next_page') # rest'')
            })
   }"

declare allocate_slot_walk.simps [simp del]

definition allocate_slot :: "nat \<Rightarrow> SlabCommon \<Rightarrow> (VirtAddr \<times> SlabCommon) option" where
  "allocate_slot N self =
     (if sc_free self = 0 then None
      else do {
        (vaddr, free, page, rest) \<leftarrow> allocate_slot_walk N (sc_page self) (sc_next self);
        f \<leftarrow> usub (sc_free self) 1;
        let self = self\<lparr>sc_page := page, sc_next := rest, sc_free := f\<rparr>;
        if free = slab_capacity N mod 2 ^ 16 then do {
          n \<leftarrow> usub (sc_free_pages self) 1;
          Some (vaddr, self\<lparr>sc_free_pages := n\<rparr>)
        }
        else if free = 1 then do {
          n \<leftarrow> cadd 32 (sc_full_pages self) 1;
          Some (vaddr, self\<lparr>sc_full_pages := n\<rparr>)
        }
        else Some (vaddr, self)
      })"

fun deallocate_slot_walk ::
  "nat \<Rightarrow> VirtAddr \<Rightarrow> SlabPage \<Rightarrow> (VirtAddr \<times> SlabPage) list \<Rightarrow> (nat \<times> SlabPage \<times> (VirtAddr \<times> SlabPage) list) option" where
  "deallocate_slot_walk N vaddr page rest = do {
     (r, page') \<leftarrow> SlabPage_free N vaddr page;
     case r of
       Ok _ \<Rightarrow> Some (sp_free page, page', rest)
     | Err _ \<Rightarrow>
         (case rest of
            [] \<Rightarrow> None
          | (a, next_page) # rest' \<Rightarrow> do {
              (free, next_page', rest'') \<leftarrow> deallocate_slot_walk N vaddr next_page rest';
              Some (free, page', (a, next_page') # rest'')
            })
   }"

declare deallocate_slot_walk.simps [simp del]

definition deallocate_slot :: "nat \<Rightarrow> VirtAddr \<Rightarrow> SlabCommon \<Rightarrow> SlabCommon option" where
  "deallocate_slot N vaddr self = do {
     (free, page, rest) \<leftarrow> deallocate_slot_walk N vaddr (sc_page self) (sc_next self);
     f \<leftarrow> cadd 32 (sc_free self) 1;
     let self = self\<lparr>sc_page := page, sc_next := rest, sc_free := f\<rparr>;
     if free = 0 then do {
       n \<leftarrow> usub (sc_full_pages self) 1;
       Some (self\<lparr>sc_full_pages := n\<rparr>)
     }
     else do {
       f1 \<leftarrow> cadd 16 free 1;
       if f1 = slab_capacity N mod 2 ^ 16 then do {
         n \<leftarrow> cadd 32 (sc_free_pages self) 1;
         Some (self\<lparr>sc_free_pages := n\<rparr>)
       }
       else Some self
     }
   }"

text \<open>Removing the first linked page without used slots.\<close>

fun take_free_page ::
  "nat \<Rightarrow> (VirtAddr \<times> SlabPage) list \<Rightarrow> ((VirtAddr \<times> SlabPage) \<times> (VirtAddr \<times> SlabPage) list) option" where
  "take_free_page N [] = None"
| "take_free_page N (p # rest) =
     (if sp_free (snd p) \<noteq> slab_capacity N mod 2 ^ 16
      then do { (q, rest') \<leftarrow> take_free_page N rest; Some (q, p # rest') }
      else Some (p, rest))"

definition free_one_page :: "nat \<Rightarrow> SlabCommon \<Rightarrow> ((VirtAddr \<times> SlabPage) \<times> SlabCommon) option" where
  "free_one_page N self = do {
     (p, rest) \<leftarrow> take_free_page N (sc_next self);
     pages \<leftarrow> usub (sc_pages self) 1;
     free_pages \<leftarrow> usub (sc_free_pages self) 1;
     capacity \<leftarrow> usub (sc_capacity self) (slab_capacity N);
     free \<leftarrow> usub (sc_free self) (slab_capacity N);
     Some (p, self\<lparr>sc_next := rest, sc_pages := pages, sc_free_pages := free_pages, sc_capacity := capacity,
       sc_free := free\<rparr>)
   }"

section \<open>The slab of slab pages\<close>

text \<open>\<open>size_of::<SlabPage<32>>()\<close>: an address, a 16-bit counter, two words and a pointer.\<close>

definition SLAB_PAGE_SIZE :: nat where "SLAB_PAGE_SIZE = 40"

definition allocate_page_slot :: "nat \<Rightarrow> (SlabCommon \<times> HeapMemoryRegion, VirtAddr \<times> SlabPage, AllocError) svsm" where
  "allocate_page_slot S = (\<lambda>(self, root). do {
     (ptr, self) \<leftarrow> allocate_slot SLAB_PAGE_SIZE self;
     (r, root) \<leftarrow> SlabPage_init S SlabPage_new root;
     case r of
       Ok page \<Rightarrow> Some (Ok (ptr, page), (self, root))
     | Err e \<Rightarrow> do {
         self \<leftarrow> deallocate_slot SLAB_PAGE_SIZE ptr self;
         Some (Err e, (self, root))
       }
   })"

definition deallocate_page_slot ::
  "VirtAddr \<times> SlabPage \<Rightarrow> SlabCommon \<times> HeapMemoryRegion \<Rightarrow> (SlabCommon \<times> HeapMemoryRegion) option" where
  "deallocate_page_slot p = (\<lambda>(self, root). do {
     root \<leftarrow> SlabPage_destroy (snd p) root;
     self \<leftarrow> deallocate_slot SLAB_PAGE_SIZE (fst p) self;
     Some (self, root)
   })"

definition SlabPageSlab_grow_slab :: "(SlabCommon \<times> HeapMemoryRegion, unit, AllocError) svsm" where
  "SlabPageSlab_grow_slab = (\<lambda>(self, root).
     if sc_capacity self = 0 then do {
       (r, root) \<leftarrow> SlabCommon_init SLAB_PAGE_SIZE self root;
       case r of Ok self \<Rightarrow> Some (Ok (), (self, root)) | Err e \<Rightarrow> Some (Err e, (self, root))
     }
     else if sc_free self \<ge> 2 then Some (Ok (), (self, root))
     else if sc_free self = 0 then None
     else do {
       (r, (self, root)) \<leftarrow> allocate_page_slot SLAB_PAGE_SIZE (self, root);
       case r of
         Err e \<Rightarrow> Some (Err e, (self, root))
       | Ok p \<Rightarrow> do { self \<leftarrow> add_slab_page SLAB_PAGE_SIZE p self; Some (Ok (), (self, root)) }
     })"

partial_function (option) SlabPageSlab_shrink_slab ::
  "SlabCommon \<times> HeapMemoryRegion \<Rightarrow> (SlabCommon \<times> HeapMemoryRegion) option" where
  "SlabPageSlab_shrink_slab s =
     (if sc_free_pages (fst s) > 1 then do {
        (p, self) \<leftarrow> free_one_page SLAB_PAGE_SIZE (fst s);
        s' \<leftarrow> deallocate_page_slot p (self, snd s);
        SlabPageSlab_shrink_slab s'
      }
      else Some s)"

definition SlabPageSlab_allocate ::
  "nat \<Rightarrow> (SlabCommon \<times> HeapMemoryRegion, VirtAddr \<times> SlabPage, AllocError) svsm" where
  "SlabPageSlab_allocate S = bindM SlabPageSlab_grow_slab (\<lambda>_. allocate_page_slot S)"

definition SlabPageSlab_deallocate ::
  "VirtAddr \<times> SlabPage \<Rightarrow> SlabCommon \<times> HeapMemoryRegion \<Rightarrow> (SlabCommon \<times> HeapMemoryRegion) option" where
  "SlabPageSlab_deallocate p s = do {
     s \<leftarrow> deallocate_page_slot p s;
     SlabPageSlab_shrink_slab s
   }"

section \<open>Slabs of objects\<close>

text \<open>The statics: \<open>ROOT_MEM\<close>, \<open>SLAB_PAGE_SLAB\<close> and the slabs of \<open>ALLOCATOR\<close>.\<close>

record slab_mem =
  sm_root :: HeapMemoryRegion
  sm_slab :: "nat \<Rightarrow> SlabCommon"

definition sm_put :: "nat \<Rightarrow> SlabCommon \<Rightarrow> slab_mem \<Rightarrow> slab_mem" where
  "sm_put N c s = s\<lparr>sm_slab := (sm_slab s)(N := c)\<rparr>"

definition sm_put_pages :: "SlabCommon \<times> HeapMemoryRegion \<Rightarrow> slab_mem \<Rightarrow> slab_mem" where
  "sm_put_pages p s = s\<lparr>sm_slab := (sm_slab s)(SLAB_PAGE_SIZE := fst p), sm_root := snd p\<rparr>"

definition sm_pages :: "slab_mem \<Rightarrow> SlabCommon \<times> HeapMemoryRegion" where
  "sm_pages s = (sm_slab s SLAB_PAGE_SIZE, sm_root s)"

definition Slab_grow_slab :: "nat \<Rightarrow> (slab_mem, unit, AllocError) svsm" where
  "Slab_grow_slab N s =
     (let self = sm_slab s N in
      if sc_capacity self = 0 then do {
        (r, root) \<leftarrow> SlabCommon_init N self (sm_root s);
        case r of
          Ok self \<Rightarrow> Some (Ok (), (sm_put N self s)\<lparr>sm_root := root\<rparr>)
        | Err e \<Rightarrow> Some (Err e, s\<lparr>sm_root := root\<rparr>)
      }
      else if sc_free self \<noteq> 0 then Some (Ok (), s)
      else do {
        (r, pages) \<leftarrow> SlabPageSlab_allocate N (sm_pages s);
        let s = sm_put_pages pages s;
        case r of
          Err e \<Rightarrow> Some (Err e, s)
        | Ok p \<Rightarrow> do { self \<leftarrow> add_slab_page N p self; Some (Ok (), sm_put N self s) }
      })"

definition Slab_shrink_slab :: "nat \<Rightarrow> slab_mem \<Rightarrow> slab_mem option" where
  "Slab_shrink_slab N s =
     (let self = sm_slab s N in
      if sc_free_pages self \<le> 1 then Some s
      else do {
        f2 \<leftarrow> (if 2 * sc_free self < 2 ^ 32 then Some (2 * sc_free self) else None);
        if f2 < sc_capacity self then Some s
        else do {
          (p, self) \<leftarrow> free_one_page N self;
          pages \<leftarrow> SlabPageSlab_deallocate p (sm_pages s);
          Some (sm_put N self (sm_put_pages pages s))
        }
      })"

definition Slab_allocate :: "nat \<Rightarrow> (slab_mem, VirtAddr, AllocError) svsm" where
  "Slab_allocate N = bindM (Slab_grow_slab N) (\<lambda>_. \<lambda>s. do {
     (vaddr, self) \<leftarrow> allocate_slot N (sm_slab s N);
     Some (Ok vaddr, sm_put N self s)
   })"

definition Slab_deallocate :: "nat \<Rightarrow> VirtAddr \<Rightarrow> slab_mem \<Rightarrow> slab_mem option" where
  "Slab_deallocate N vaddr s = do {
     self \<leftarrow> deallocate_slot N vaddr (sm_slab s N);
     Slab_shrink_slab N (sm_put N self s)
   }"

section \<open>The global allocator\<close>

text \<open>The slab for a rounded size; larger sizes go to the page allocator.\<close>

definition slab_for :: "nat \<Rightarrow> nat option" where
  "slab_for size' =
     (case checked_next_power_of_two size' of
        None \<Rightarrow> None
      | Some n \<Rightarrow> if n \<le> 32 then Some 32 else if n \<in> {64, 128, 256, 512, 1024, 2048} then Some n else None)"

definition SvsmAllocator_allocate :: "nat \<Rightarrow> slab_mem \<Rightarrow> ((VirtAddr, AllocError) result \<times> slab_mem) option option" where
  "SvsmAllocator_allocate size' s = map_option (\<lambda>N. Slab_allocate N s) (slab_for size')"

definition SvsmAllocator_deallocate :: "VirtAddr \<Rightarrow> nat \<Rightarrow> slab_mem \<Rightarrow> slab_mem option option" where
  "SvsmAllocator_deallocate addr size' s =
     (case slab_for size' of
        None \<Rightarrow> None
      | Some N \<Rightarrow> if vaddr_is_null addr then None else Some (Slab_deallocate N addr s))"

definition GlobalAlloc_alloc :: "nat \<Rightarrow> slab_mem \<Rightarrow> (VirtAddr \<times> slab_mem) option" where
  "GlobalAlloc_alloc size' s = do {
     (r, s) \<leftarrow> (case SvsmAllocator_allocate size' s of
        Some m \<Rightarrow> m
      | None \<Rightarrow>
          if get_order size' \<ge> MAX_ORDER then Some (Err AllocError_OutOfMemory, s)
          else do {
            (r, root) \<leftarrow> heap_allocate_pages (get_order size') (sm_root s);
            Some (r, s\<lparr>sm_root := root\<rparr>)
          });
     Some (case r of Ok addr \<Rightarrow> addr | Err _ \<Rightarrow> VirtAddr_null, s)
   }"

definition GlobalAlloc_dealloc :: "VirtAddr \<Rightarrow> nat \<Rightarrow> slab_mem \<Rightarrow> slab_mem option" where
  "GlobalAlloc_dealloc addr size' s = do {
     r \<leftarrow> get_pfn (sm_root s) addr;
     pfn \<leftarrow> (case r of Ok pfn \<Rightarrow> Some pfn | Err _ \<Rightarrow> None);
     info \<leftarrow> read_page_info (sm_root s) pfn;
     case info of
       PageInfo_Allocated _ \<Rightarrow> do { root \<leftarrow> heap_free_page addr (sm_root s); Some (s\<lparr>sm_root := root\<rparr>) }
     | PageInfo_Slab _ \<Rightarrow> (case SvsmAllocator_deallocate addr size' s of Some m \<Rightarrow> m | None \<Rightarrow> None)
     | _ \<Rightarrow> None
   }"

definition root_mem_init :: "PhysAddr \<Rightarrow> VirtAddr \<Rightarrow> nat \<Rightarrow> nat \<Rightarrow> slab_mem \<Rightarrow> slab_mem option" where
  "root_mem_init pstart vstart page_count allocated s = do {
     root \<leftarrow> init_memory allocated
       ((sm_root s)\<lparr>hm_start_phys := pstart, hm_start_virt := vstart, hm_page_count := page_count\<rparr>);
     (r, root) \<leftarrow> SlabCommon_init SLAB_PAGE_SIZE (sm_slab s SLAB_PAGE_SIZE) root;
     case r of Ok self \<Rightarrow> Some ((sm_put SLAB_PAGE_SIZE self s)\<lparr>sm_root := root\<rparr>) | Err _ \<Rightarrow> None
   }"

definition MIN_ALIGN :: nat where "MIN_ALIGN = 32"

text \<open>
  \<open>Layout::from_size_align\<close>, a size and an alignment: the alignment is a power of two and the size
  rounded up to it fits \<open>isize\<close>.
\<close>

definition layout_from_size_align :: "nat \<Rightarrow> nat \<Rightarrow> (nat \<times> nat) option" where
  "layout_from_size_align size' align' =
     (if align' \<noteq> 0 \<and> checked_next_power_of_two align' = Some align' \<and> align' \<le> 2 ^ 63 \<and> size' \<le> 2 ^ 63 - align'
      then Some (size', align') else None)"

definition layout_from_size :: "nat \<Rightarrow> (nat \<times> nat, AllocError) result" where
  "layout_from_size size' =
     (let align' = (if size' mod PAGE_SIZE = 0 then PAGE_SIZE else MIN_ALIGN) in
      case layout_from_size_align size' align' of Some l \<Rightarrow> Ok l | None \<Rightarrow> Err AllocError_InvalidLayout)"

definition layout_from_ptr :: "VirtAddr \<Rightarrow> slab_mem \<Rightarrow> (nat \<times> nat) option option" where
  "layout_from_ptr va s = do {
     r \<leftarrow> get_pfn (sm_root s) va;
     case r of
       Err _ \<Rightarrow> Some None
     | Ok pfn \<Rightarrow> do {
         info \<leftarrow> read_page_info (sm_root s) pfn;
         case info of
           PageInfo_Allocated ai \<Rightarrow> do {
             size' \<leftarrow> umul (2 ^ ai_order ai) PAGE_SIZE;
             l \<leftarrow> layout_from_size_align size' PAGE_SIZE;
             Some (Some l)
           }
         | PageInfo_Slab si \<Rightarrow> do {
             l \<leftarrow> layout_from_size_align (unat (si_item_size si)) (unat (si_item_size si));
             Some (Some l)
           }
         | _ \<Rightarrow> Some None
       }
   }"

end
