(* ===== verification/Slab_Page_Lemmas.thy ===== *)
theory Slab_Page_Lemmas
  imports Slab_Model
begin

unbundle bit_operations_syntax

text \<open>
  One slab page: the set of used slots, the well-formedness of a page, and what allocating and
  freeing a slot does to it.
\<close>

section \<open>Well-formed pages\<close>

definition slot_size_ok :: "nat \<Rightarrow> bool" where
  "slot_size_ok N \<longleftrightarrow> 32 \<le> N \<and> N \<le> 2048"

lemma slab_capacity_bounds:
  assumes "slot_size_ok N"
  shows "2 \<le> slab_capacity N" and "slab_capacity N \<le> 128" and "N * slab_capacity N \<le> PAGE_SIZE"
    and "slab_capacity N mod 2 ^ 16 = slab_capacity N"
proof -
  have N: "32 \<le> N" "N \<le> 2048" "0 < N" using assms by (auto simp: slot_size_ok_def)
  show "2 \<le> slab_capacity N"
    using N by (simp add: slab_capacity_def page_consts less_eq_div_iff_mult_less_eq)
  have "slab_capacity N \<le> 4096 div 32"
    unfolding slab_capacity_def using div_le_mono2 [OF _ N(1), of 4096] by (simp add: page_consts)
  then show 128: "slab_capacity N \<le> 128" by simp
  then show "slab_capacity N mod 2 ^ 16 = slab_capacity N" by simp
  show "N * slab_capacity N \<le> PAGE_SIZE" by (simp add: slab_capacity_def)
qed

text \<open>The address of slot \<open>i\<close> of a page.\<close>

definition slot_addr :: "nat \<Rightarrow> SlabPage \<Rightarrow> nat \<Rightarrow> VirtAddr" where
  "slot_addr N p i = VirtAddr (virt_bits (sp_vaddr p) + of_nat (N * i))"

definition page_used :: "SlabPage \<Rightarrow> nat set" where
  "page_used p = {i. i < 128 \<and> bit (sp_used_bitmap p ! (i div 64)) (i mod 64)}"

definition page_addr_ok :: "VirtAddr \<Rightarrow> bool" where
  "page_addr_ok v \<longleftrightarrow> VirtAddr_ok v \<and> in_half (virt_bits v) PAGE_SIZE \<and> virt_bits v \<noteq> 0"

definition page_ok :: "nat \<Rightarrow> SlabPage \<Rightarrow> bool" where
  "page_ok N p \<longleftrightarrow> page_addr_ok (sp_vaddr p) \<and> length (sp_used_bitmap p) = 2
     \<and> page_used p \<subseteq> {..< slab_capacity N} \<and> sp_free p + card (page_used p) = slab_capacity N"

lemma finite_page_used [simp]: "finite (page_used p)"
  by (simp add: page_used_def)

lemma page_okD:
  assumes "page_ok N p"
  shows "page_addr_ok (sp_vaddr p)" "length (sp_used_bitmap p) = 2"
    "i \<in> page_used p \<Longrightarrow> i < slab_capacity N" "sp_free p + card (page_used p) = slab_capacity N"
    "sp_free p \<le> slab_capacity N"
  using assms by (auto simp: page_ok_def)

lemma page_used_empty_iff: "page_ok N p \<Longrightarrow> page_used p = {} \<longleftrightarrow> sp_free p = slab_capacity N"
  using page_okD(4) [of N p] by (auto simp: card_eq_0_iff)

lemma slot_used_eq: "length (sp_used_bitmap p) = 2 \<Longrightarrow> i < 128 \<Longrightarrow> slot_used p i = Some (i \<in> page_used p)"
proof -
  assume l: "length (sp_used_bitmap p) = 2" and i: "i < 128"
  have "i div 64 < 2" using i by simp
  moreover have "(w AND push_bit (i mod 64) 1 \<noteq> 0) = bit w (i mod 64)" for w :: u64
    by (simp add: and_exp_eq_0_iff_not_bit push_bit_of_1)
  ultimately show ?thesis using l i by (simp add: slot_used_def page_used_def)
qed

text \<open>The two bitmap updates.\<close>

lemma div_mod_64_eq: "i div 64 = j div 64 \<Longrightarrow> i mod 64 = j mod 64 \<Longrightarrow> i = (j::nat)"
  by (metis div_mult_mod_eq)

lemma page_used_set:
  assumes "length (sp_used_bitmap p) = 2" and "i < 128"
  shows "page_used (p\<lparr>sp_used_bitmap := (sp_used_bitmap p)[i div 64 := sp_used_bitmap p ! (i div 64) OR push_bit (i mod 64) 1], sp_free := f\<rparr>)
    = insert i (page_used p)"
  using assms
  by (auto simp: page_used_def nth_list_update bit_or_iff push_bit_of_1 bit_exp_iff dest: div_mod_64_eq)

lemma page_used_clear:
  assumes "length (sp_used_bitmap p) = 2" and "i < 128"
  shows "page_used (p\<lparr>sp_used_bitmap := (sp_used_bitmap p)[i div 64 := sp_used_bitmap p ! (i div 64) AND NOT (push_bit (i mod 64) 1)], sp_free := f\<rparr>)
    = page_used p - {i}"
  using assms
  by (auto simp: page_used_def nth_list_update bit_and_iff bit_not_iff push_bit_of_1 bit_exp_iff dest: div_mod_64_eq)

section \<open>Addresses of slots\<close>

lemma page_addr_add:
  assumes "page_addr_ok v" and "off \<le> PAGE_SIZE"
  shows "VirtAddr_add v (of_nat off) = Some (VirtAddr (virt_bits v + of_nat off))"
    "unat (virt_bits v + of_nat off) = unat (virt_bits v) + off"
    "VirtAddr_sub (VirtAddr (virt_bits v + of_nat off)) v = Some (of_nat off)"
proof -
  have "VirtAddr_ok v" "in_half (virt_bits v) off"
    using assms by (auto simp: page_addr_ok_def intro: in_half_mono)
  from VirtAddr_add_linear [OF this] show
    "VirtAddr_add v (of_nat off) = Some (VirtAddr (virt_bits v + of_nat off))"
    "unat (virt_bits v + of_nat off) = unat (virt_bits v) + off"
    "VirtAddr_sub (VirtAddr (virt_bits v + of_nat off)) v = Some (of_nat off)"
    by (metis VirtAddr.sel)+
qed

text \<open>The memory of a page, as a set of addresses.\<close>

definition page_bytes :: "VirtAddr \<Rightarrow> nat set" where
  "page_bytes v = {unat (virt_bits v) ..< unat (virt_bits v) + PAGE_SIZE}"

definition object_bytes :: "nat \<Rightarrow> VirtAddr \<Rightarrow> nat set" where
  "object_bytes N v = {unat (virt_bits v) ..< unat (virt_bits v) + N}"

lemma slot_off_le:
  assumes "slot_size_ok N" and "i < slab_capacity N"
  shows "N * i + N \<le> PAGE_SIZE" and "N * i < PAGE_SIZE"
proof -
  have "N * (i + 1) \<le> N * slab_capacity N" using assms(2) by (intro mult_le_mono2) simp
  with slab_capacity_bounds(3) [OF assms(1)] show "N * i + N \<le> PAGE_SIZE" by simp
  moreover have "0 < N" using assms(1) by (simp add: slot_size_ok_def)
  ultimately show "N * i < PAGE_SIZE" by linarith
qed

lemma unat_slot_addr:
  assumes "slot_size_ok N" and "page_addr_ok (sp_vaddr p)" and "i < slab_capacity N"
  shows "unat (virt_bits (slot_addr N p i)) = unat (virt_bits (sp_vaddr p)) + N * i"
  using page_addr_add(2) [OF assms(2), of "N * i"] slot_off_le(2) [OF assms(1,3)] by (simp add: slot_addr_def)

lemma object_bytes_slot:
  assumes "slot_size_ok N" and "page_addr_ok (sp_vaddr p)" and "i < slab_capacity N"
  shows "object_bytes N (slot_addr N p i) \<subseteq> page_bytes (sp_vaddr p)"
    and "unat (virt_bits (slot_addr N p i)) \<in> page_bytes (sp_vaddr p)"
  using unat_slot_addr [OF assms] slot_off_le [OF assms(1,3)] by (auto simp: object_bytes_def page_bytes_def)

lemma object_bytes_disjoint:
  assumes "slot_size_ok N" and "page_addr_ok (sp_vaddr p)" and "i < slab_capacity N" and "j < slab_capacity N"
    and "i \<noteq> j"
  shows "object_bytes N (slot_addr N p i) \<inter> object_bytes N (slot_addr N p j) = {}"
proof -
  have *: "N * a + N \<le> N * b" if "a < b" for a b
    using mult_le_mono2 [of "a + 1" b N] that by simp
  have "N * i + N \<le> N * j \<or> N * j + N \<le> N * i" using assms(5) * by (meson nat_neq_iff)
  then show ?thesis
    unfolding object_bytes_def unat_slot_addr [OF assms(1,2,3)] unat_slot_addr [OF assms(1,2,4)] by auto
qed

lemma slot_addr_inj:
  assumes "slot_size_ok N" and "page_addr_ok (sp_vaddr p)" and "i < slab_capacity N" and "j < slab_capacity N"
  shows "slot_addr N p i = slot_addr N p j \<longleftrightarrow> i = j"
proof
  assume "slot_addr N p i = slot_addr N p j"
  then have "N * i = N * j"
    using unat_slot_addr [OF assms(1,2,3)] unat_slot_addr [OF assms(1,2,4)] by (metis add_left_cancel)
  then show "i = j" using assms(1) by (simp add: slot_size_ok_def)
qed simp

section \<open>Allocating a slot\<close>

lemma slab_page_scan_ok:
  assumes N: "slot_size_ok N" and p: "page_ok N p" and free: "sp_free p \<noteq> 0"
    and js: "set js \<subseteq> {..< slab_capacity N}" and ex: "\<not> set js \<subseteq> page_used p"
  shows "\<exists>i p'. slab_page_scan N js p = Some (Ok (slot_addr N p i), p') \<and> i < slab_capacity N
    \<and> i \<notin> page_used p \<and> page_ok N p' \<and> page_used p' = insert i (page_used p)
    \<and> sp_free p' = sp_free p - 1 \<and> sp_vaddr p' = sp_vaddr p"
  using js ex
proof (induction js)
  case (Cons i js)
  note D = page_okD [OF p]
  have i: "i < slab_capacity N" "i < 128" using Cons.prems(1) slab_capacity_bounds(2) [OF N] by auto
  note u = slot_used_eq [OF D(2) i(2)]
  show ?case
  proof (cases "i \<in> page_used p")
    case True
    then show ?thesis using Cons u by (auto split: if_splits)
  next
    case False
    let ?p = "p\<lparr>sp_used_bitmap := (sp_used_bitmap p)[i div 64 := sp_used_bitmap p ! (i div 64) OR push_bit (i mod 64) 1], sp_free := sp_free p - 1\<rparr>"
    note up = page_used_set [OF D(2) i(2), of "sp_free p - 1"]
    have lt: "N * i < 4096" using slot_off_le(2) [OF N i(1)] by (simp add: page_consts)
    have "i div 64 < 2" using i(2) by simp
    then have "slab_page_scan N (i # js) p = Some (Ok (slot_addr N p i), ?p)"
      using u False D(2) free lt page_addr_add(1) [OF D(1), of "N * i"]
      by (simp add: slot_addr_def page_consts usize_max_eq)
    moreover have "page_ok N ?p"
      unfolding page_ok_def up using D i(1) free False by auto
    ultimately show ?thesis using up i(1) False by auto
  qed
qed simp

lemma SlabPage_allocate_ok:
  assumes "slot_size_ok N" and "page_ok N p" and "sp_free p \<noteq> 0"
  obtains i p' where "SlabPage_allocate N p = Some (Ok (slot_addr N p i), p')" and "i < slab_capacity N"
    and "i \<notin> page_used p" and "page_ok N p'" and "page_used p' = insert i (page_used p)"
    and "sp_free p' = sp_free p - 1" and "sp_vaddr p' = sp_vaddr p"
proof -
  have "\<not> set [0 ..< slab_capacity N] \<subseteq> page_used p"
  proof
    assume "set [0 ..< slab_capacity N] \<subseteq> page_used p"
    then have "slab_capacity N \<le> card (page_used p)"
      using card_mono [of "page_used p" "{0 ..< slab_capacity N}"] by simp
    then show False using page_okD(4) [OF assms(2)] assms(3) by simp
  qed
  then have "\<exists>i p'. slab_page_scan N [0 ..< slab_capacity N] p = Some (Ok (slot_addr N p i), p') \<and> i < slab_capacity N
    \<and> i \<notin> page_used p \<and> page_ok N p' \<and> page_used p' = insert i (page_used p)
    \<and> sp_free p' = sp_free p - 1 \<and> sp_vaddr p' = sp_vaddr p"
    by (intro slab_page_scan_ok assms) auto
  then show thesis using that assms(3) by (auto simp: SlabPage_allocate_def)
qed

lemma SlabPage_allocate_full: "sp_free p = 0 \<Longrightarrow> SlabPage_allocate N p = Some (Err AllocError_OutOfMemory, p)"
  by (simp add: SlabPage_allocate_def)

section \<open>Freeing a slot\<close>

lemma page_end:
  assumes "page_addr_ok v"
  obtains e where "VirtAddr_add v PAGE_SIZE_W = Some e" and "unat (virt_bits e) = unat (virt_bits v) + PAGE_SIZE"
proof -
  from page_addr_add(1,2) [OF assms order_refl] show thesis
    by (intro that [of "VirtAddr (virt_bits v + PAGE_SIZE_W)"]) (simp_all only: VirtAddr.sel)
qed

lemma SlabPage_free_elsewhere:
  assumes "page_ok N p" and "unat (virt_bits v) \<notin> page_bytes (sp_vaddr p)"
  shows "SlabPage_free N v p = Some (Err (AllocError_InvalidHeapAddress v), p)"
proof -
  from page_end [OF page_okD(1) [OF assms(1)]] obtain e where
    "VirtAddr_add (sp_vaddr p) PAGE_SIZE_W = Some e"
    "unat (virt_bits e) = unat (virt_bits (sp_vaddr p)) + PAGE_SIZE" .
  with assms(2) show ?thesis
    by (auto simp: SlabPage_free_def page_bytes_def word_less_nat_alt word_le_nat_alt)
qed

lemma SlabPage_free_ok:
  assumes N: "slot_size_ok N" and p: "page_ok N p" and i: "i \<in> page_used p"
  obtains p' where "SlabPage_free N (slot_addr N p i) p = Some (Ok (), p')" and "page_ok N p'"
    and "page_used p' = page_used p - {i}" and "sp_free p' = sp_free p + 1" and "sp_vaddr p' = sp_vaddr p"
proof -
  note D = page_okD [OF p]
  have ic: "i < slab_capacity N" using D(3) i .
  then have i128: "i < 128" using slab_capacity_bounds(2) [OF N] by linarith
  have N0: "0 < N" using N by (simp add: slot_size_ok_def)
  from page_end [OF D(1)] obtain e where e: "VirtAddr_add (sp_vaddr p) PAGE_SIZE_W = Some e"
    "unat (virt_bits e) = unat (virt_bits (sp_vaddr p)) + PAGE_SIZE" .
  note a = unat_slot_addr [OF N D(1) ic] and lt = slot_off_le(2) [OF N ic]
  have sub: "VirtAddr_sub (slot_addr N p i) (sp_vaddr p) = Some (of_nat (N * i))"
    using page_addr_add(3) [OF D(1), of "N * i"] lt by (simp add: slot_addr_def)
  have u: "unat (of_nat (N * i) :: u64) = N * i" using lt by (intro unat_of_nat_u64) (simp add: page_consts)
  have cu: "card (page_used p) > 0" using i by (auto simp: card_gt_0_iff)
  have f: "sp_free p + 1 \<le> slab_capacity N" using D(4) cu by simp
  then have c: "cadd 16 (sp_free p) 1 = Some (sp_free p + 1)"
    using slab_capacity_bounds(2) [OF N] by (simp add: cadd_def)
  let ?p = "p\<lparr>sp_used_bitmap := (sp_used_bitmap p)[i div 64 := sp_used_bitmap p ! (i div 64) AND NOT (push_bit (i mod 64) 1)], sp_free := sp_free p + 1\<rparr>"
  note up = page_used_clear [OF D(2) i128, of "sp_free p + 1"]
  have "i div 64 < 2" using i128 by simp
  then have "SlabPage_free N (slot_addr N p i) p = Some (Ok (), ?p)"
    using a lt e sub u c D(2) N0
    by (simp add: SlabPage_free_def word_less_nat_alt word_le_nat_alt del: of_nat_mult)
  moreover have "sp_free p + 1 + card (page_used p - {i}) = slab_capacity N"
    using D(4) i cu by (simp add: card_Diff_singleton)
  then have "page_ok N ?p" unfolding page_ok_def up using D(1-3) by auto
  ultimately show thesis by (rule that) (use up in simp_all)
qed

end
