(* ===== verification/Slab_Common_Lemmas.thy ===== *)
theory Slab_Common_Lemmas
  imports Slab_Page_Lemmas
begin

text \<open>
  The operations of \<open>SlabCommon\<close>: its counters describe its pages, allocating takes a slot that
  was not in use, freeing gives back exactly the slot, and growing and shrinking change no used
  slot.
\<close>

section \<open>Lists of pages\<close>

definition page_sep :: "SlabPage \<Rightarrow> SlabPage \<Rightarrow> bool" where
  "page_sep p q \<longleftrightarrow> page_bytes (sp_vaddr p) \<inter> page_bytes (sp_vaddr q) = {}"

definition pages_ok :: "nat \<Rightarrow> SlabPage list \<Rightarrow> bool" where
  "pages_ok N xs \<longleftrightarrow> (\<forall>p \<in> set xs. page_ok N p) \<and> sorted_wrt page_sep xs"

definition pages_used :: "nat \<Rightarrow> SlabPage list \<Rightarrow> VirtAddr set" where
  "pages_used N xs = {slot_addr N (xs ! k) i |k i. k < length xs \<and> i \<in> page_used (xs ! k)}"

lemma pages_used_image:
  "pages_used N xs = (\<lambda>(l, j). slot_addr N (xs ! l) j) ` {(l, j). l < length xs \<and> j \<in> page_used (xs ! l)}"
  by (auto simp: pages_used_def)

lemma page_sep_commute: "page_sep p q \<longleftrightarrow> page_sep q p"
  by (auto simp: page_sep_def)

lemma pages_ok_nth: "pages_ok N xs \<Longrightarrow> k < length xs \<Longrightarrow> page_ok N (xs ! k)"
  by (simp add: pages_ok_def)

lemma pages_ok_sep: "pages_ok N xs \<Longrightarrow> k < length xs \<Longrightarrow> l < length xs \<Longrightarrow> k \<noteq> l \<Longrightarrow> page_sep (xs ! k) (xs ! l)"
  by (metis linorder_neqE_nat page_sep_commute pages_ok_def sorted_wrt_nth_less)

lemma slot_addr_cong: "sp_vaddr p' = sp_vaddr p \<Longrightarrow> slot_addr N p' = slot_addr N p"
  by (simp add: slot_addr_def fun_eq_iff)

lemma page_sep_cong: "sp_vaddr p' = sp_vaddr p \<Longrightarrow> page_sep p' = page_sep p"
  "sp_vaddr q' = sp_vaddr q \<Longrightarrow> page_sep p q' = page_sep p q"
  by (simp_all add: page_sep_def fun_eq_iff)

text \<open>Slots of different pages or with different indices have different addresses.\<close>

lemma slot_addr_eq_iff:
  assumes N: "slot_size_ok N" and xs: "pages_ok N xs" and k: "k < length xs" and l: "l < length xs"
    and i: "i < slab_capacity N" and j: "j < slab_capacity N"
  shows "slot_addr N (xs ! k) i = slot_addr N (xs ! l) j \<longleftrightarrow> k = l \<and> i = j"
proof (cases "k = l")
  case True
  with slot_addr_inj [OF N page_okD(1) [OF pages_ok_nth [OF xs k]] i j] show ?thesis by simp
next
  case False
  from object_bytes_slot(2) [OF N page_okD(1) [OF pages_ok_nth [OF xs k]] i]
    object_bytes_slot(2) [OF N page_okD(1) [OF pages_ok_nth [OF xs l]] j]
    pages_ok_sep [OF xs k l False] False
  show ?thesis by (auto simp: page_sep_def)
qed

lemma slot_addr_used_iff:
  assumes N: "slot_size_ok N" and xs: "pages_ok N xs" and k: "k < length xs" and i: "i < slab_capacity N"
  shows "slot_addr N (xs ! k) i \<in> pages_used N xs \<longleftrightarrow> i \<in> page_used (xs ! k)"
  using slot_addr_eq_iff [OF N xs k _ i] page_okD(3) [OF pages_ok_nth [OF xs]] k
  by (fastforce simp: pages_used_def)

text \<open>Replacing one page by a page at the same address.\<close>

lemma pages_ok_update:
  assumes xs: "pages_ok N xs" and k: "k < length xs" and p': "page_ok N p'" "sp_vaddr p' = sp_vaddr (xs ! k)"
  shows "pages_ok N (xs[k := p'])"
proof -
  have v: "sp_vaddr (xs[k := p'] ! i) = sp_vaddr (xs ! i)" for i
    by (cases "i = k") (use p'(2) k in simp_all)
  have "page_sep (xs[k := p'] ! i) (xs[k := p'] ! j)" if "i < j" "j < length xs" for i j
    using that pages_ok_sep [OF xs, of i j] by (simp add: page_sep_def v)
  then have "sorted_wrt page_sep (xs[k := p'])" by (simp add: sorted_wrt_iff_nth_less)
  moreover have "page_ok N p" if "p \<in> set (xs[k := p'])" for p
    using that xs p'(1) set_update_subset_insert [of xs k p'] by (auto simp: pages_ok_def)
  ultimately show ?thesis by (simp add: pages_ok_def)
qed

lemma pages_used_update:
  assumes N: "slot_size_ok N" and xs: "pages_ok N xs" and k: "k < length xs" and v: "sp_vaddr p' = sp_vaddr (xs ! k)"
  shows "page_used p' = insert i (page_used (xs ! k)) \<Longrightarrow>
      pages_used N (xs[k := p']) = insert (slot_addr N (xs ! k) i) (pages_used N xs)"
    and "page_used p' = page_used (xs ! k) - {i} \<Longrightarrow> i \<in> page_used (xs ! k) \<Longrightarrow>
      pages_used N (xs[k := p']) = pages_used N xs - {slot_addr N (xs ! k) i}"
proof -
  have sa: "slot_addr N (xs[k := p'] ! l) = slot_addr N (xs ! l)" for l
    by (cases "l = k") (use slot_addr_cong [OF v] k in simp_all)
  have pu: "page_used (xs[k := p'] ! l) = (if l = k then page_used p' else page_used (xs ! l))" for l
    using k by simp
  have mem: "a \<in> pages_used N (xs[k := p']) \<longleftrightarrow>
      (\<exists>l j. a = slot_addr N (xs ! l) j \<and> l < length xs \<and> j \<in> (if l = k then page_used p' else page_used (xs ! l)))" for a
    by (simp only: pages_used_def mem_Collect_eq sa pu length_list_update)
  show "pages_used N (xs[k := p']) = insert (slot_addr N (xs ! k) i) (pages_used N xs)"
    if "page_used p' = insert i (page_used (xs ! k))"
    unfolding set_eq_iff mem that using k by (auto simp: pages_used_def split: if_splits)
  show "pages_used N (xs[k := p']) = pages_used N xs - {slot_addr N (xs ! k) i}"
    if u: "page_used p' = page_used (xs ! k) - {i}" and i: "i \<in> page_used (xs ! k)"
  proof -
    let ?f = "\<lambda>(l, j). slot_addr N (xs ! l) j" and ?P = "{(l, j). l < length xs \<and> j \<in> page_used (xs ! l)}"
    note lt = page_okD(3) [OF pages_ok_nth [OF xs]]
    have "pages_used N (xs[k := p']) =
        ?f ` {(l, j). l < length xs \<and> j \<in> (if l = k then page_used p' else page_used (xs ! l))}"
      by (simp only: pages_used_image sa pu length_list_update)
    moreover have "{(l, j). l < length xs \<and> j \<in> (if l = k then page_used p' else page_used (xs ! l))} = ?P - {(k, i)}"
      unfolding u by (auto split: if_splits)
    moreover have "inj_on ?f ?P"
    proof (rule inj_onI)
      fix x y assume "x \<in> ?P" "y \<in> ?P" "?f x = ?f y"
      then show "x = y"
        using slot_addr_eq_iff [OF N xs, of "fst x" "fst y" "snd x" "snd y"] lt [of "fst x" "snd x"] lt [of "fst y" "snd y"]
        by (cases x; cases y) simp
    qed
    then have "?f ` (?P - {(k, i)}) = ?f ` ?P - ?f ` {(k, i)}"
      by (rule inj_on_image_set_diff) (use i k in auto)
    ultimately show ?thesis unfolding pages_used_image by simp
  qed
qed

lemma length_filter_update:
  "k < length xs \<Longrightarrow> length (filter P (xs[k := y])) + of_bool (P (xs ! k)) = length (filter P xs) + of_bool (P y)"
proof (induction xs arbitrary: k)
  case (Cons x xs)
  then show ?case by (cases k) auto
qed simp

lemma sum_free_update:
  "k < length xs \<Longrightarrow> sum_list (map sp_free (xs[k := p'])) + sp_free (xs ! k) = sum_list (map sp_free xs) + sp_free p'"
proof (induction xs arbitrary: k)
  case (Cons x xs)
  then show ?case by (cases k) auto
qed simp

section \<open>Well-formed slabs\<close>

definition sc_all_pages :: "SlabCommon \<Rightarrow> SlabPage list" where
  "sc_all_pages c = sc_page c # map snd (sc_next c)"

definition counters_ok :: "nat \<Rightarrow> SlabPage list \<Rightarrow> SlabCommon \<Rightarrow> bool" where
  "counters_ok N xs c \<longleftrightarrow> sc_capacity c = slab_capacity N * length xs \<and> sc_free c = sum_list (map sp_free xs)
     \<and> sc_pages c = length xs \<and> sc_full_pages c = length (filter (\<lambda>p. sp_free p = 0) xs)
     \<and> sc_free_pages c = length (filter (\<lambda>p. sp_free p = slab_capacity N) xs)"

lemma counters_okD:
  assumes "counters_ok N xs c"
  shows "sc_capacity c = slab_capacity N * length xs" "sc_free c = sum_list (map sp_free xs)"
    "sc_pages c = length xs" "sc_full_pages c = length (filter (\<lambda>p. sp_free p = 0) xs)"
    "sc_free_pages c = length (filter (\<lambda>p. sp_free p = slab_capacity N) xs)"
  using assms by (auto simp: counters_ok_def)

definition common_ok :: "nat \<Rightarrow> SlabCommon \<Rightarrow> bool" where
  "common_ok N c \<longleftrightarrow> pages_ok N (sc_all_pages c) \<and> counters_ok N (sc_all_pages c) c"

definition slab_used :: "nat \<Rightarrow> SlabCommon \<Rightarrow> VirtAddr set" where
  "slab_used N c = pages_used N (sc_all_pages c)"

lemma sum_free_le: "pages_ok N xs \<Longrightarrow> sum_list (map sp_free xs) \<le> slab_capacity N * length xs"
proof (induction xs)
  case (Cons p xs)
  then show ?case using page_okD(5) [of N p] by (auto simp: pages_ok_def)
qed simp

lemma capacity_small: "slot_size_ok N \<Longrightarrow> n < 2 ^ 24 \<Longrightarrow> slab_capacity N * n < 2 ^ 31"
proof -
  assume "slot_size_ok N" "n < 2 ^ 24"
  then have "slab_capacity N * n \<le> 128 * n" "128 * n < 2 ^ 31"
    using slab_capacity_bounds(2) [of N] by (simp_all add: mult_le_mono1)
  then show ?thesis by linarith
qed

text \<open>The invariants of a slab do not depend on the addresses of the page objects.\<close>

definition same_pages :: "SlabCommon \<Rightarrow> SlabCommon \<Rightarrow> bool" where
  "same_pages c c' \<longleftrightarrow> map sp_vaddr (sc_all_pages c') = map sp_vaddr (sc_all_pages c) \<and> map fst (sc_next c') = map fst (sc_next c)"

lemma slab_same_pages_refl [simp]: "same_pages c c"
  by (simp add: same_pages_def)

lemma slab_same_pages_trans: "same_pages a b \<Longrightarrow> same_pages b c \<Longrightarrow> same_pages a c"
  by (simp add: same_pages_def)

section \<open>Allocating a slot\<close>

lemma allocate_slot_walk_ok:
  assumes N: "slot_size_ok N" and xs: "\<forall>p \<in> set (page # map snd rest). page_ok N p"
    and ex: "\<exists>p \<in> set (page # map snd rest). sp_free p \<noteq> 0"
  shows "\<exists>k i p' page' rest'. allocate_slot_walk N page rest =
      Some (slot_addr N ((page # map snd rest) ! k) i, sp_free ((page # map snd rest) ! k), page', rest')
    \<and> page' # map snd rest' = (page # map snd rest)[k := p'] \<and> map fst rest' = map fst rest
    \<and> k \<le> length rest \<and> i < slab_capacity N \<and> i \<notin> page_used ((page # map snd rest) ! k)
    \<and> page_ok N p' \<and> page_used p' = insert i (page_used ((page # map snd rest) ! k))
    \<and> sp_free ((page # map snd rest) ! k) = sp_free p' + 1 \<and> sp_vaddr p' = sp_vaddr ((page # map snd rest) ! k)"
  using xs ex
proof (induction rest arbitrary: page)
  case Nil
  from SlabPage_allocate_ok [OF N, of page] Nil obtain i p' where
    p': "SlabPage_allocate N page = Some (Ok (slot_addr N page i), p')" "i < slab_capacity N"
    "i \<notin> page_used page" "page_ok N p'" "page_used p' = insert i (page_used page)"
    "sp_free p' = sp_free page - 1" "sp_vaddr p' = sp_vaddr page" by auto
  then show ?case using Nil
    by (intro exI [of _ 0] exI [of _ i] exI [of _ p'] exI [of _ "[]"]) (simp add: allocate_slot_walk.simps)
next
  case (Cons q rest)
  obtain a next_page where q: "q = (a, next_page)" by (cases q)
  show ?case
  proof (cases "sp_free page = 0")
    case False
    from SlabPage_allocate_ok [OF N, of page] Cons.prems(1) False obtain i p' where
      p': "SlabPage_allocate N page = Some (Ok (slot_addr N page i), p')" "i < slab_capacity N"
      "i \<notin> page_used page" "page_ok N p'" "page_used p' = insert i (page_used page)"
      "sp_free p' = sp_free page - 1" "sp_vaddr p' = sp_vaddr page" by auto
    then show ?thesis using False
      by (intro exI [of _ 0] exI [of _ i] exI [of _ p'] exI [of _ "q # rest"])
        (simp add: allocate_slot_walk.simps)
  next
    case True
    from Cons.IH [of next_page] Cons.prems True obtain k i p' page' rest' where
      IH: "allocate_slot_walk N next_page rest =
        Some (slot_addr N ((next_page # map snd rest) ! k) i, sp_free ((next_page # map snd rest) ! k), page', rest')"
      "page' # map snd rest' = (next_page # map snd rest)[k := p']" "map fst rest' = map fst rest"
      "k \<le> length rest" "i < slab_capacity N" "i \<notin> page_used ((next_page # map snd rest) ! k)" "page_ok N p'"
      "page_used p' = insert i (page_used ((next_page # map snd rest) ! k))"
      "sp_free ((next_page # map snd rest) ! k) = sp_free p' + 1"
      "sp_vaddr p' = sp_vaddr ((next_page # map snd rest) ! k)"
      by (auto simp: q)
    then show ?thesis
      by (intro exI [of _ "Suc k"] exI [of _ i] exI [of _ p'] exI [of _ page] exI [of _ "(a, page') # rest'"])
        (simp add: allocate_slot_walk.simps [of N page] SlabPage_allocate_full [OF True] q)
  qed
qed

lemma allocate_slot_ok:
  assumes N: "slot_size_ok N" and c: "common_ok N c" and free: "sc_free c \<noteq> 0"
    and len: "length (sc_next c) + 1 < 2 ^ 24"
  obtains v c' k i where "allocate_slot N c = Some (v, c')" and "common_ok N c'" and "same_pages c c'"
    and "v \<notin> slab_used N c" and "slab_used N c' = insert v (slab_used N c)" and "sc_free c' = sc_free c - 1"
    and "k < length (sc_all_pages c)" and "i < slab_capacity N" and "v = slot_addr N (sc_all_pages c ! k) i"
proof -
  let ?xs = "sc_all_pages c"
  have ok: "pages_ok N ?xs" and cnt: "counters_ok N ?xs c" using c by (auto simp: common_ok_def)
  have "\<exists>p \<in> set ?xs. sp_free p \<noteq> 0"
  proof (rule ccontr)
    assume "\<not> ?thesis"
    then have "sum_list (map sp_free ?xs) = 0" by (auto simp: sum_list_eq_0_iff)
    then show False using free counters_okD(2) [OF cnt] by linarith
  qed
  from allocate_slot_walk_ok [OF N, of "sc_page c" "sc_next c", folded sc_all_pages_def] this ok
  obtain k i p' page' rest' where
    w: "allocate_slot_walk N (sc_page c) (sc_next c) = Some (slot_addr N (?xs ! k) i, sp_free (?xs ! k), page', rest')"
    "page' # map snd rest' = ?xs[k := p']" "map fst rest' = map fst (sc_next c)"
    "k \<le> length (sc_next c)" "i < slab_capacity N" "i \<notin> page_used (?xs ! k)" "page_ok N p'"
    "page_used p' = insert i (page_used (?xs ! k))"
    "sp_free (?xs ! k) = sp_free p' + 1" "sp_vaddr p' = sp_vaddr (?xs ! k)"
    by (auto simp: pages_ok_def)
  have k: "k < length ?xs" using w(4) by (simp add: sc_all_pages_def)
  note cb = slab_capacity_bounds [OF N]
  let ?full = "sc_full_pages c + (if sp_free (?xs ! k) = 1 then 1 else 0)"
    and ?fp = "sc_free_pages c - (if sp_free (?xs ! k) = slab_capacity N then 1 else 0)"
  define c' where "c' = c\<lparr>sc_page := page', sc_next := rest', sc_free := sc_free c - 1, sc_full_pages := ?full, sc_free_pages := ?fp\<rparr>"
  have sel: "sc_capacity c' = sc_capacity c" "sc_pages c' = sc_pages c" "sc_free c' = sc_free c - 1"
    "sc_full_pages c' = ?full" "sc_free_pages c' = ?fp" "sc_next c' = rest'" "sc_page c' = page'"
    by (simp_all add: c'_def)
  have all: "sc_all_pages c' = ?xs[k := p']" using w(2) by (simp add: sc_all_pages_def sel)
  have s: "sum_list (map sp_free (?xs[k := p'])) + 1 = sc_free c"
    using sum_free_update [OF k, of p'] w(9) cnt by (simp add: counters_ok_def)
  have f: "length (filter (\<lambda>p. sp_free p = 0) (?xs[k := p'])) = ?full"
    using length_filter_update [OF k, of "\<lambda>p. sp_free p = 0" p'] w(9) cnt by (auto simp: counters_ok_def)
  have "sp_free p' \<noteq> slab_capacity N" using page_okD(5) [OF pages_ok_nth [OF ok k]] w(9) by linarith
  then have e: "length (filter (\<lambda>p. sp_free p = slab_capacity N) (?xs[k := p'])) = ?fp"
    "sp_free (?xs ! k) = slab_capacity N \<Longrightarrow> 1 \<le> sc_free_pages c"
    using length_filter_update [OF k, of "\<lambda>p. sp_free p = slab_capacity N" p'] cnt by (auto simp: counters_ok_def)
  have "sc_full_pages c \<le> length ?xs" using cnt by (simp add: counters_ok_def)
  then have full: "sc_full_pages c + 1 < 2 ^ 32" using len by (simp add: sc_all_pages_def)
  have "common_ok N c'"
    unfolding common_ok_def all counters_ok_def sel f e(1)
    using pages_ok_update [OF ok k w(7,10)] s [symmetric] counters_okD(1,3) [OF cnt] by simp
  moreover have "allocate_slot N c = Some (slot_addr N (?xs ! k) i, c')"
    using free w(1,9) e(2) cb full
    by (auto simp: allocate_slot_def cadd_def Let_def c'_def)
  moreover have "map sp_vaddr (?xs[k := p']) = map sp_vaddr ?xs"
    using w(10) k by (simp add: map_update list_update_same_conv)
  then have "same_pages c c'" using w(3) unfolding same_pages_def all sel by simp
  moreover have "slot_addr N (?xs ! k) i \<notin> slab_used N c"
    using slot_addr_used_iff [OF N ok k w(5)] w(6) by (simp add: slab_used_def)
  moreover have "slab_used N c' = insert (slot_addr N (?xs ! k) i) (slab_used N c)"
    using pages_used_update(1) [OF N ok k w(10,8)] unfolding slab_used_def all .
  ultimately show thesis using k w(5) sel(3) by (intro that [of _ c' k i]) simp_all
qed

section \<open>Freeing a slot\<close>

lemma deallocate_slot_walk_ok:
  assumes N: "slot_size_ok N" and xs: "pages_ok N (page # map snd rest)"
    and k: "k \<le> length rest" and i: "i \<in> page_used ((page # map snd rest) ! k)"
  shows "\<exists>p' page' rest'. deallocate_slot_walk N (slot_addr N ((page # map snd rest) ! k) i) page rest =
      Some (sp_free ((page # map snd rest) ! k), page', rest')
    \<and> page' # map snd rest' = (page # map snd rest)[k := p'] \<and> map fst rest' = map fst rest
    \<and> page_ok N p' \<and> page_used p' = page_used ((page # map snd rest) ! k) - {i}
    \<and> sp_free p' = sp_free ((page # map snd rest) ! k) + 1 \<and> sp_vaddr p' = sp_vaddr ((page # map snd rest) ! k)"
  using xs k i
proof (induction rest arbitrary: page k)
  case Nil
  then have p: "page_ok N page" "i \<in> page_used page" "k = 0" by (auto simp: pages_ok_def)
  from SlabPage_free_ok [OF N p(1,2)] obtain p' where
    "SlabPage_free N (slot_addr N page i) page = Some (Ok (), p')" "page_ok N p'"
    "page_used p' = page_used page - {i}" "sp_free p' = sp_free page + 1" "sp_vaddr p' = sp_vaddr page" .
  then show ?case using p(3) by (simp add: deallocate_slot_walk.simps)
next
  case (Cons q rest)
  obtain a next_page where q: "q = (a, next_page)" by (cases q)
  have page: "page_ok N page" using Cons.prems(1) by (simp add: pages_ok_def)
  show ?case
  proof (cases k)
    case 0
    with Cons.prems(3) have "i \<in> page_used page" by simp
    from SlabPage_free_ok [OF N page this] obtain p' where
      "SlabPage_free N (slot_addr N page i) page = Some (Ok (), p')" "page_ok N p'"
      "page_used p' = page_used page - {i}" "sp_free p' = sp_free page + 1" "sp_vaddr p' = sp_vaddr page" .
    then show ?thesis using 0 by (simp add: deallocate_slot_walk.simps)
  next
    case (Suc l)
    let ?ys = "next_page # map snd rest"
    have ys: "pages_ok N ?ys" using Cons.prems(1) by (simp add: pages_ok_def q)
    have l: "l < length ?ys" "i \<in> page_used (?ys ! l)" using Cons.prems(2,3) Suc by (simp_all add: q)
    note pl = pages_ok_nth [OF ys l(1)]
    have "unat (virt_bits (slot_addr N (?ys ! l) i)) \<in> page_bytes (sp_vaddr (?ys ! l))"
      using object_bytes_slot(2) [OF N page_okD(1) [OF pl] page_okD(3) [OF pl l(2)]] .
    moreover have "page_sep page (?ys ! l)"
      using Cons.prems(1) l(1) by (auto simp: pages_ok_def q nth_Cons split: nat.splits)
    ultimately have "unat (virt_bits (slot_addr N (?ys ! l) i)) \<notin> page_bytes (sp_vaddr page)"
      by (auto simp: page_sep_def)
    note err = SlabPage_free_elsewhere [OF page this]
    from Cons.IH [OF ys _ l(2)] l(1) obtain p' page' rest' where
      IH: "deallocate_slot_walk N (slot_addr N (?ys ! l) i) next_page rest = Some (sp_free (?ys ! l), page', rest')"
      "page' # map snd rest' = ?ys[l := p']" "map fst rest' = map fst rest" "page_ok N p'"
      "page_used p' = page_used (?ys ! l) - {i}" "sp_free p' = sp_free (?ys ! l) + 1" "sp_vaddr p' = sp_vaddr (?ys ! l)"
      by auto
    then show ?thesis
      by (intro exI [of _ p'] exI [of _ page] exI [of _ "(a, page') # rest'"])
        (simp add: deallocate_slot_walk.simps [of N _ page] err q Suc)
  qed
qed

lemma deallocate_slot_ok:
  assumes N: "slot_size_ok N" and c: "common_ok N c" and v: "v \<in> slab_used N c"
    and len: "length (sc_next c) + 1 < 2 ^ 24"
  obtains c' where "deallocate_slot N v c = Some c'" and "common_ok N c'" and "same_pages c c'"
    and "slab_used N c' = slab_used N c - {v}" and "sc_free c' = sc_free c + 1"
proof -
  let ?xs = "sc_all_pages c"
  have ok: "pages_ok N ?xs" and cnt: "counters_ok N ?xs c" using c by (auto simp: common_ok_def)
  from v obtain k i where k: "k < length ?xs" and i: "i \<in> page_used (?xs ! k)" and ve: "v = slot_addr N (?xs ! k) i"
    by (auto simp: slab_used_def pages_used_def)
  have "k \<le> length (sc_next c)" using k by (simp add: sc_all_pages_def)
  from deallocate_slot_walk_ok [OF N, of "sc_page c" "sc_next c", folded sc_all_pages_def, OF ok this i]
  obtain p' page' rest' where
    w: "deallocate_slot_walk N v (sc_page c) (sc_next c) = Some (sp_free (?xs ! k), page', rest')"
    "page' # map snd rest' = ?xs[k := p']" "map fst rest' = map fst (sc_next c)" "page_ok N p'"
    "page_used p' = page_used (?xs ! k) - {i}" "sp_free p' = sp_free (?xs ! k) + 1" "sp_vaddr p' = sp_vaddr (?xs ! k)"
    by (auto simp: ve)
  note cb = slab_capacity_bounds [OF N]
  let ?full = "sc_full_pages c - (if sp_free (?xs ! k) = 0 then 1 else 0)"
    and ?fp = "sc_free_pages c + (if sp_free (?xs ! k) + 1 = slab_capacity N then 1 else 0)"
  define c' where "c' = c\<lparr>sc_page := page', sc_next := rest', sc_free := sc_free c + 1, sc_full_pages := ?full, sc_free_pages := ?fp\<rparr>"
  have sel: "sc_capacity c' = sc_capacity c" "sc_pages c' = sc_pages c" "sc_free c' = sc_free c + 1"
    "sc_full_pages c' = ?full" "sc_free_pages c' = ?fp" "sc_next c' = rest'" "sc_page c' = page'"
    by (simp_all add: c'_def)
  have all: "sc_all_pages c' = ?xs[k := p']" using w(2) by (simp add: sc_all_pages_def sel)
  have s: "sum_list (map sp_free (?xs[k := p'])) = sc_free c + 1"
    using sum_free_update [OF k, of p'] w(6) counters_okD(2) [OF cnt] by simp
  have f: "length (filter (\<lambda>p. sp_free p = 0) (?xs[k := p'])) = ?full" "sp_free (?xs ! k) = 0 \<Longrightarrow> 1 \<le> sc_full_pages c"
    using length_filter_update [OF k, of "\<lambda>p. sp_free p = 0" p'] w(6) counters_okD(4) [OF cnt] by auto
  have "sp_free (?xs ! k) \<noteq> slab_capacity N" using page_okD(5) [OF w(4)] w(6) by linarith
  then have e: "length (filter (\<lambda>p. sp_free p = slab_capacity N) (?xs[k := p'])) = ?fp"
    using length_filter_update [OF k, of "\<lambda>p. sp_free p = slab_capacity N" p'] w(6) counters_okD(5) [OF cnt] by auto
  note ok' = pages_ok_update [OF ok k w(4,7)]
  have "sc_free_pages c \<le> length ?xs" using counters_okD(5) [OF cnt] by simp
  then have fp: "sc_free_pages c + 1 < 2 ^ 32" using len by (simp add: sc_all_pages_def)
  have "sc_free c + 1 \<le> slab_capacity N * length ?xs" using sum_free_le [OF ok'] s by simp
  then have fr: "sc_free c + 1 < 2 ^ 32"
    using capacity_small [OF N, of "length ?xs"] len by (simp add: sc_all_pages_def)
  have f16: "sp_free (?xs ! k) + 1 < 2 ^ 16" using page_okD(5) [OF w(4)] w(6) cb(2) by simp
  have "common_ok N c'"
    unfolding common_ok_def all counters_ok_def sel f(1) e s using ok' counters_okD(1,3) [OF cnt] by simp
  moreover have "deallocate_slot N v c = Some c'"
  proof (cases "sp_free (?xs ! k) = 0")
    case True
    then show ?thesis using w(1) f(2) cb fr fp by (simp add: deallocate_slot_def cadd_def Let_def c'_def)
  next
    case False
    then show ?thesis using w(1) cb fr fp f16 by (simp add: deallocate_slot_def cadd_def Let_def c'_def)
  qed
  moreover have "map sp_vaddr (?xs[k := p']) = map sp_vaddr ?xs"
    using w(7) k by (simp add: map_update list_update_same_conv)
  then have "same_pages c c'" using w(3) unfolding same_pages_def all sel by simp
  moreover have "slab_used N c' = slab_used N c - {v}"
    using pages_used_update(2) [OF N ok k w(7,5) i] unfolding slab_used_def all ve .
  ultimately show thesis using sel(3) by (intro that [of c']) simp_all
qed

section \<open>Growing and shrinking\<close>

lemma pages_used_Union: "pages_used N xs = (\<Union>p \<in> set xs. slot_addr N p ` page_used p)"
proof
  show "pages_used N xs \<subseteq> (\<Union>p \<in> set xs. slot_addr N p ` page_used p)"
    using nth_mem by (fastforce simp: pages_used_def)
  show "(\<Union>p \<in> set xs. slot_addr N p ` page_used p) \<subseteq> pages_used N xs"
  proof
    fix a assume "a \<in> (\<Union>p \<in> set xs. slot_addr N p ` page_used p)"
    then obtain p i where "p \<in> set xs" "i \<in> page_used p" "a = slot_addr N p i" by auto
    moreover from this(1) obtain k where "k < length xs" "p = xs ! k" by (auto simp: in_set_conv_nth)
    ultimately show "a \<in> pages_used N xs" unfolding pages_used_def by blast
  qed
qed

lemma add_slab_page_ok:
  assumes N: "slot_size_ok N" and c: "common_ok N c" and p: "page_ok N p" "page_used p = {}"
    and sep: "\<forall>q \<in> set (sc_all_pages c). page_sep q p" and len: "length (sc_next c) + 2 < 2 ^ 24"
  obtains c' where "add_slab_page N (a, p) c = Some c'" and "common_ok N c'" and "slab_used N c' = slab_used N c"
    and "sc_next c' = (a, p) # sc_next c" and "sc_page c' = sc_page c" and "sc_free c' = sc_free c + slab_capacity N"
proof -
  let ?xs = "sc_all_pages c"
  have ok: "pages_ok N ?xs" and cnt: "counters_ok N ?xs c" using c by (auto simp: common_ok_def)
  note cs = counters_okD [OF cnt] and cb = slab_capacity_bounds [OF N]
  have l: "length ?xs + 1 < 2 ^ 24" using len by (simp add: sc_all_pages_def)
  have cap: "sc_capacity c + slab_capacity N < 2 ^ 32" using capacity_small [OF N l] cs(1) by simp
  have "sc_free c \<le> sc_capacity c" using sum_free_le [OF ok] cs(1,2) by simp
  then have fr: "sc_free c + slab_capacity N < 2 ^ 32" using cap by linarith
  have fp: "sc_free_pages c + 1 < 2 ^ 32" "sc_pages c + 1 < 2 ^ 32"
    using cs(3,5) l le_less_trans [OF length_filter_le l [THEN add_lessD1]] by (auto intro: le_less_trans [OF length_filter_le])
  define c' where "c' = c\<lparr>sc_next := (a, p) # sc_next c, sc_pages := sc_pages c + 1, sc_free_pages := sc_free_pages c + 1,
    sc_capacity := sc_capacity c + slab_capacity N, sc_free := sc_free c + slab_capacity N\<rparr>"
  have sel: "sc_capacity c' = sc_capacity c + slab_capacity N" "sc_pages c' = sc_pages c + 1"
    "sc_free c' = sc_free c + slab_capacity N" "sc_full_pages c' = sc_full_pages c"
    "sc_free_pages c' = sc_free_pages c + 1" "sc_next c' = (a, p) # sc_next c" "sc_page c' = sc_page c"
    by (simp_all add: c'_def)
  have all: "sc_all_pages c' = sc_page c # p # map snd (sc_next c)" "?xs = sc_page c # map snd (sc_next c)"
    by (simp_all add: sc_all_pages_def sel)
  have full: "sp_free p = slab_capacity N" using page_used_empty_iff [OF p(1)] p(2) by simp
  have "pages_ok N (sc_all_pages c')"
    using ok p(1) sep unfolding all by (auto simp: pages_ok_def page_sep_commute)
  moreover have "counters_ok N (sc_all_pages c') c'"
    using cs full cb(1) unfolding all counters_ok_def sel by (simp add: algebra_simps)
  moreover have "add_slab_page N (a, p) c = Some c'"
    using cap fr fp by (simp add: add_slab_page_def cadd_def c'_def)
  moreover have "slab_used N c' = slab_used N c"
    unfolding slab_used_def all by (simp add: pages_used_Union p(2))
  ultimately show thesis using sel by (intro that [of c']) (simp_all add: common_ok_def)
qed

lemma take_free_page_ok:
  "(\<exists>p \<in> set rest. sp_free (snd p) = slab_capacity N mod 2 ^ 16) \<Longrightarrow>
    \<exists>pre p post. rest = pre @ p # post \<and> sp_free (snd p) = slab_capacity N mod 2 ^ 16
      \<and> take_free_page N rest = Some (p, pre @ post)"
proof (induction rest)
  case (Cons q rest)
  show ?case
  proof (cases "sp_free (snd q) = slab_capacity N mod 2 ^ 16")
    case True
    then show ?thesis by (intro exI [of _ "[]"]) simp
  next
    case False
    with Cons obtain pre p post where "rest = pre @ p # post" "sp_free (snd p) = slab_capacity N mod 2 ^ 16"
      "take_free_page N rest = Some (p, pre @ post)" by auto
    with False show ?thesis by (intro exI [of _ "q # pre"] exI [of _ p] exI [of _ post]) simp
  qed
qed simp

lemma free_one_page_ok:
  assumes N: "slot_size_ok N" and c: "common_ok N c" and free: "sc_free_pages c > 1"
  obtains pre a p post c' where "free_one_page N c = Some ((a, p), c')" and "common_ok N c'"
    and "slab_used N c' = slab_used N c" and "page_used p = {}" and "page_ok N p"
    and "sc_next c = pre @ (a, p) # post" and "sc_next c' = pre @ post" and "sc_page c' = sc_page c"
    and "sc_free c = sc_free c' + slab_capacity N"
proof -
  let ?xs = "sc_all_pages c"
  have ok: "pages_ok N ?xs" and cnt: "counters_ok N ?xs c" using c by (auto simp: common_ok_def)
  note cs = counters_okD [OF cnt] and cb = slab_capacity_bounds [OF N]
  have "\<exists>q \<in> set (sc_next c). sp_free (snd q) = slab_capacity N"
  proof (rule ccontr)
    assume "\<not> ?thesis"
    then have "filter (\<lambda>p. sp_free p = slab_capacity N) (map snd (sc_next c)) = []"
      by (auto simp: filter_empty_conv)
    then show False using free cs(5) by (auto simp: sc_all_pages_def split: if_splits)
  qed
  from take_free_page_ok [of "sc_next c" N, unfolded cb(4), OF this] obtain pre q post where
    q: "sc_next c = pre @ q # post" "sp_free (snd q) = slab_capacity N"
    "take_free_page N (sc_next c) = Some (q, pre @ post)" by auto
  obtain a p where ap: "q = (a, p)" by (cases q)
  define c' where "c' = c\<lparr>sc_next := pre @ post, sc_pages := sc_pages c - 1, sc_free_pages := sc_free_pages c - 1,
    sc_capacity := sc_capacity c - slab_capacity N, sc_free := sc_free c - slab_capacity N\<rparr>"
  have sel: "sc_capacity c' = sc_capacity c - slab_capacity N" "sc_pages c' = sc_pages c - 1"
    "sc_free c' = sc_free c - slab_capacity N" "sc_full_pages c' = sc_full_pages c"
    "sc_free_pages c' = sc_free_pages c - 1" "sc_next c' = pre @ post" "sc_page c' = sc_page c"
    by (simp_all add: c'_def)
  have all: "sc_all_pages c' = (sc_page c # map snd pre) @ map snd post"
    "?xs = (sc_page c # map snd pre) @ p # map snd post"
    by (simp_all add: sc_all_pages_def sel q(1) ap)
  have p: "page_ok N p" using ok unfolding all by (simp add: pages_ok_def)
  have u: "page_used p = {}" using page_used_empty_iff [OF p] q(2) ap by simp
  have fr: "slab_capacity N \<le> sc_free c" "slab_capacity N \<le> sc_capacity c" "1 \<le> sc_pages c"
    using cs(1-3) q(2) unfolding all by (simp_all add: ap)
  have "pages_ok N (sc_all_pages c')"
    using ok unfolding all by (auto simp: pages_ok_def sorted_wrt_append)
  moreover have "counters_ok N (sc_all_pages c') c'"
    using cs q(2) cb(1) unfolding all counters_ok_def sel by (simp add: algebra_simps ap)
  moreover have "free_one_page N c = Some ((a, p), c')"
    using q(3) fr free by (simp add: free_one_page_def c'_def ap)
  moreover have "slab_used N c' = slab_used N c"
    unfolding slab_used_def all by (simp add: pages_used_Union u)
  ultimately show thesis
    using sel q(1) ap p u fr by (intro that [of a p c' pre post]) (simp_all add: common_ok_def)
qed

end
