(* ===== verification/Slab_Heap.thy ===== *)
theory Slab_Heap
  imports Slab_Common_Lemmas
begin

text \<open>
  Slabs over the page allocator: every page of a slab is a page frame the heap holds as used with
  the slab's item size, and the slab of slab pages holds exactly the page objects in use.
\<close>

section \<open>Slabs on heap pages\<close>

definition slab_info :: "nat \<Rightarrow> PageInfo" where
  "slab_info N = PageInfo_Slab (SlabPageInfo (of_nat N))"

definition root_ok :: "nat set \<Rightarrow> HeapMemoryRegion \<Rightarrow> bool" where
  "root_ok B r \<longleftrightarrow> heap_inv B r \<and> virt_bits (hm_start_virt r) \<noteq> 0 \<and> hm_page_count r + 1 < 2 ^ 24"

text \<open>The page \<open>p\<close> is the frame \<open>f\<close>, used for items of size \<open>N\<close>.\<close>

definition page_at :: "nat set \<Rightarrow> HeapMemoryRegion \<Rightarrow> nat \<Rightarrow> SlabPage \<Rightarrow> nat \<Rightarrow> bool" where
  "page_at B r N p f \<longleftrightarrow> f < hm_page_count r \<and> f \<notin> B \<and> sp_vaddr p = page_vaddr r f
     \<and> ah_used (heap_abs r) f = Some (slab_info N)"

definition slab_at :: "nat set \<Rightarrow> HeapMemoryRegion \<Rightarrow> nat \<Rightarrow> SlabCommon \<Rightarrow> bool" where
  "slab_at B r N c \<longleftrightarrow> common_ok N c \<and> (\<forall>p \<in> set (sc_all_pages c). \<exists>f. page_at B r N p f)"

lemma root_params: "root_ok B r \<Longrightarrow> params_ok r"
  by (auto simp: root_ok_def heap_inv_def dest: heap_repD(1))

lemma slab_info_inj: "slot_size_ok N \<Longrightarrow> slot_size_ok M \<Longrightarrow> slab_info N = slab_info M \<longleftrightarrow> N = M"
proof -
  assume "slot_size_ok N" "slot_size_ok M"
  then have "unat (of_nat N :: u64) = N" "unat (of_nat M :: u64) = M"
    by (auto simp: slot_size_ok_def intro: unat_of_nat_u64)
  then show ?thesis unfolding slab_info_def by (metis PageInfo.inject(3) SlabPageInfo.inject)
qed

lemma used_slab_info: "slot_size_ok N \<Longrightarrow> used_page 0 (slab_info N)"
proof -
  assume "slot_size_ok N"
  then have "N < 2 ^ 16" "unat (of_nat N :: u64) = N"
    by (auto simp: slot_size_ok_def intro: unat_of_nat_u64)
  then show ?thesis by (simp add: used_page_def slab_info_def)
qed

lemma frame_addr:
  assumes r: "root_ok B r" and f: "f < hm_page_count r"
  shows "page_addr_ok (page_vaddr r f)"
    and "unat (virt_bits (page_vaddr r f)) = unat (virt_bits (hm_start_virt r)) + f * PAGE_SIZE"
proof -
  note v = page_vaddr [OF root_params [OF r], of f] and w = page_vaddr [OF root_params [OF r], of "f + 1"]
  show u: "unat (virt_bits (page_vaddr r f)) = unat (virt_bits (hm_start_virt r)) + f * PAGE_SIZE"
    using v(3) f by simp
  have "in_half (virt_bits (hm_start_virt r)) (hm_page_count r * PAGE_SIZE)"
    using root_params [OF r] by (simp add: params_ok_def)
  moreover have "(f + 1) * PAGE_SIZE \<le> hm_page_count r * PAGE_SIZE" using f by (intro mult_le_mono1) simp
  ultimately have "in_half (virt_bits (page_vaddr r f)) PAGE_SIZE"
    unfolding in_half_def u by (auto split: if_splits)
  moreover have "virt_bits (page_vaddr r f) \<noteq> 0"
  proof
    assume "virt_bits (page_vaddr r f) = 0"
    then have "unat (virt_bits (hm_start_virt r)) = 0" using u by simp
    then show False using r by (simp add: root_ok_def unat_eq_0)
  qed
  ultimately show "page_addr_ok (page_vaddr r f)" using v(4) f by (simp add: page_addr_ok_def)
qed

lemma frames_disjoint:
  assumes "root_ok B r" and "f < hm_page_count r" and "g < hm_page_count r" and "f \<noteq> g"
  shows "page_bytes (page_vaddr r f) \<inter> page_bytes (page_vaddr r g) = {}"
proof -
  have *: "a * PAGE_SIZE + PAGE_SIZE \<le> b * PAGE_SIZE" if "a < b" for a b
    using mult_le_mono1 [of "a + 1" b PAGE_SIZE] that by simp
  have "f * PAGE_SIZE + PAGE_SIZE \<le> g * PAGE_SIZE \<or> g * PAGE_SIZE + PAGE_SIZE \<le> f * PAGE_SIZE"
    using assms(4) * by (meson nat_neq_iff)
  then show ?thesis
    unfolding page_bytes_def frame_addr(2) [OF assms(1,2)] frame_addr(2) [OF assms(1,3)] by auto
qed

lemma page_bytes_ne: "unat (virt_bits v) \<in> page_bytes v"
  by (simp add: page_bytes_def page_consts)

lemma page_at_inj:
  assumes "root_ok B r" and "page_at B r N p f" and "page_at B r M q g" and "slot_size_ok N" and "slot_size_ok M"
  shows "sp_vaddr p = sp_vaddr q \<longleftrightarrow> f = g" and "f = g \<Longrightarrow> N = M" and "f \<noteq> g \<Longrightarrow> page_sep p q"
proof -
  show "f \<noteq> g \<Longrightarrow> page_sep p q"
    using frames_disjoint [OF assms(1), of f g] assms(2,3) by (simp add: page_at_def page_sep_def)
  then show "sp_vaddr p = sp_vaddr q \<longleftrightarrow> f = g"
    using assms(2,3) page_bytes_ne [of "sp_vaddr p"] by (cases "f = g") (auto simp: page_at_def page_sep_def)
  show "f = g \<Longrightarrow> N = M" using assms(2-5) slab_info_inj by (auto simp: page_at_def)
qed

lemma slab_at_common: "slab_at B r N c \<Longrightarrow> common_ok N c"
  by (simp add: slab_at_def)

lemma slab_at_length:
  assumes r: "root_ok B r" and N: "slot_size_ok N" and c: "slab_at B r N c"
  shows "length (sc_next c) + 2 < 2 ^ 24"
proof -
  let ?xs = "sc_all_pages c" and ?fr = "\<lambda>p. THE f. page_at B r N p f"
  have fr: "page_at B r N p (?fr p)" if "p \<in> set ?xs" for p
  proof -
    from c that obtain f where f: "page_at B r N p f" by (auto simp: slab_at_def)
    moreover have "g = f" if "page_at B r N p g" for g using page_at_inj(1) [OF r that f N N] by simp
    ultimately show ?thesis by (rule theI)
  qed
  have "distinct (map ?fr ?xs)"
  proof -
    have "?fr (?xs ! i) \<noteq> ?fr (?xs ! j)" if "i < length ?xs" "j < length ?xs" "i \<noteq> j" for i j
    proof
      assume "?fr (?xs ! i) = ?fr (?xs ! j)"
      then have "sp_vaddr (?xs ! i) = sp_vaddr (?xs ! j)"
        using fr [of "?xs ! i"] fr [of "?xs ! j"] that by (simp add: page_at_def)
      moreover have "page_sep (?xs ! i) (?xs ! j)"
        using slab_at_common [OF c] that by (intro pages_ok_sep) (auto simp: common_ok_def)
      ultimately show False using page_bytes_ne [of "sp_vaddr (?xs ! i)"] by (auto simp: page_sep_def)
    qed
    then show ?thesis by (auto simp: distinct_conv_nth)
  qed
  then have "length ?xs = card (set (map ?fr ?xs))" by (metis distinct_card length_map)
  also have "\<dots> \<le> card {..< hm_page_count r}"
    using fr by (intro card_mono) (auto simp: page_at_def)
  finally show ?thesis using r by (simp add: sc_all_pages_def root_ok_def)
qed

text \<open>What a change of the heap keeps: all used frames but those in \<open>F\<close> and those of the slab of pages.\<close>

definition root_kept :: "nat set \<Rightarrow> HeapMemoryRegion \<Rightarrow> HeapMemoryRegion \<Rightarrow> bool" where
  "root_kept F r r' \<longleftrightarrow> hm_start_virt r' = hm_start_virt r \<and> hm_page_count r' = hm_page_count r
     \<and> (\<forall>g i. ah_used (heap_abs r) g = Some i \<and> g \<notin> F \<and> i \<noteq> slab_info SLAB_PAGE_SIZE
          \<longrightarrow> ah_used (heap_abs r') g = Some i)"

lemma root_kept_refl [simp]: "root_kept F r r"
  by (simp add: root_kept_def)

lemma root_kept_trans: "root_kept F r r1 \<Longrightarrow> root_kept {} r1 r2 \<Longrightarrow> root_kept F r r2"
  by (simp add: root_kept_def)

lemma page_vaddr_kept: "hm_start_virt r' = hm_start_virt r \<Longrightarrow> page_vaddr r' = page_vaddr r"
  by (rule page_vaddr_cong)

lemma slot_size_SLAB_PAGE [simp]: "slot_size_ok SLAB_PAGE_SIZE"
  by (simp add: slot_size_ok_def SLAB_PAGE_SIZE_def)

lemma page_at_kept:
  assumes "root_kept F r r'" and "page_at B r N p f" and "f \<notin> F" and "slot_size_ok N" and "N \<noteq> SLAB_PAGE_SIZE"
  shows "page_at B r' N p f"
  using assms slab_info_inj [OF assms(4) slot_size_SLAB_PAGE] page_vaddr_cong [of r' r]
  by (simp add: root_kept_def page_at_def)

lemma slab_at_kept:
  assumes k: "root_kept F r r'" and c: "slab_at B r N c" and N: "slot_size_ok N" "N \<noteq> SLAB_PAGE_SIZE"
    and F: "\<And>p f. p \<in> set (sc_all_pages c) \<Longrightarrow> page_at B r N p f \<Longrightarrow> f \<notin> F"
  shows "slab_at B r' N c"
  using c F page_at_kept [OF k _ _ N] unfolding slab_at_def by blast

section \<open>A fresh page\<close>

definition fresh_page :: "nat set \<Rightarrow> nat \<Rightarrow> SlabPage \<Rightarrow> HeapMemoryRegion \<Rightarrow> HeapMemoryRegion \<Rightarrow> bool" where
  "fresh_page B N p r r' \<longleftrightarrow> root_ok B r' \<and> page_ok N p \<and> page_used p = {}
     \<and> hm_start_virt r' = hm_start_virt r \<and> hm_page_count r' = hm_page_count r
     \<and> (\<exists>f. page_at B r' N p f \<and> abs_alloc 0 (slab_info N) f (heap_abs r) (heap_abs r'))"

lemma SlabPage_init_ok:
  assumes r: "root_ok B r" and N: "slot_size_ok N"
  shows "(\<exists>p r'. SlabPage_init N SlabPage_new r = Some (Ok p, r') \<and> fresh_page B N p r r')
    \<or> SlabPage_init N SlabPage_new r = Some (Err AllocError_OutOfMemory, r)"
proof -
  have inv: "heap_inv B r" using r by (simp add: root_ok_def)
  have null: "vaddr_is_null (sp_vaddr SlabPage_new)"
    by (simp add: vaddr_is_null_def SlabPage_new_def VirtAddr_null_def)
  have "0 < MAX_ORDER" by (simp add: MAX_ORDER_def)
  from heap_alloc_refines [OF inv this used_slab_info [OF N]] consider
    f r' where "allocate_pages_info 0 (slab_info N) r = Some (Ok (page_vaddr r f), r')" "heap_inv B r'"
      "f < hm_page_count r" "f \<notin> B" "abs_alloc 0 (slab_info N) f (heap_abs r) (heap_abs r')"
      "hm_start_virt r' = hm_start_virt r" "hm_page_count r' = hm_page_count r"
    | "allocate_pages_info 0 (slab_info N) r = Some (Err AllocError_OutOfMemory, r)" by blast
  then show ?thesis
  proof cases
    case (1 f r')
    let ?p = "SlabPage_new\<lparr>sp_vaddr := page_vaddr r f, sp_free := slab_capacity N\<rparr>"
    have "SlabPage_init N SlabPage_new r = Some (Ok ?p, r')"
      using 1(1) null slab_capacity_bounds(4) [OF N]
      by (simp add: SlabPage_init_def heap_allocate_slab_page_def slab_info_def bindM_def ret_def)
    moreover have u: "page_used ?p = {}"
      by (auto simp: page_used_def SlabPage_new_def nth_Cons' numeral_2_eq_2)
    moreover have "page_ok N ?p"
      unfolding page_ok_def u using frame_addr(1) [OF r 1(3)] by (simp add: SlabPage_new_def)
    moreover have "root_ok B r'" using r 1 by (simp add: root_ok_def)
    moreover have "page_at B r' N ?p f"
      using 1 page_vaddr_cong [OF 1(6)] by (simp add: page_at_def abs_alloc_def)
    ultimately show ?thesis using 1(5-7) unfolding fresh_page_def by blast
  next
    case 2
    then show ?thesis using null
      by (simp add: SlabPage_init_def heap_allocate_slab_page_def slab_info_def bindM_def)
  qed
qed

lemma fresh_page_kept:
  assumes "fresh_page B N p r r'"
  shows "root_kept {} r r'" and "root_ok B r'"
    and "slab_at B r M c \<Longrightarrow> slab_at B r' M c"
    and "slab_at B r M c \<Longrightarrow> slot_size_ok N \<Longrightarrow> slot_size_ok M \<Longrightarrow> q \<in> set (sc_all_pages c) \<Longrightarrow> page_sep q p"
proof -
  from assms obtain f where f: "page_at B r' N p f" "abs_alloc 0 (slab_info N) f (heap_abs r) (heap_abs r')"
    and s: "hm_start_virt r' = hm_start_virt r" "hm_page_count r' = hm_page_count r" and r': "root_ok B r'"
    by (auto simp: fresh_page_def)
  have used: "ah_used (heap_abs r') = (ah_used (heap_abs r))(f \<mapsto> slab_info N)" "ah_used (heap_abs r) f = None"
    using f(2) by (auto simp: abs_alloc_def)
  then have keep: "ah_used (heap_abs r) g = Some i \<Longrightarrow> ah_used (heap_abs r') g = Some i \<and> g \<noteq> f" for g i by auto
  then show "root_kept {} r r'" using s by (simp add: root_kept_def)
  have at: "page_at B r M q g \<Longrightarrow> page_at B r' M q g \<and> g \<noteq> f" for q M g
    using keep [of g] s page_vaddr_cong [OF s(1)] by (auto simp: page_at_def)
  then show "slab_at B r M c \<Longrightarrow> slab_at B r' M c" by (meson slab_at_def)
  show "page_sep q p" if "slab_at B r M c" "slot_size_ok N" "slot_size_ok M" "q \<in> set (sc_all_pages c)"
    using that at page_at_inj(3) [OF r' _ f(1) that(3,2)] unfolding slab_at_def by blast
  show "root_ok B r'" by (rule r')
qed

lemma SlabPage_destroy_ok:
  assumes r: "root_ok B r" and N: "slot_size_ok N" and p: "page_at B r N p f"
  obtains r' where "SlabPage_destroy p r = Some r'" and "root_ok B r'" and "root_kept {f} r r'"
    and "\<And>M q g. page_at B r M q g \<Longrightarrow> g \<noteq> f \<Longrightarrow> page_at B r' M q g"
proof -
  have inv: "heap_inv B r" using r by (simp add: root_ok_def)
  from p have f: "ah_used (heap_abs r) f = Some (slab_info N)" "f \<notin> B" "f < hm_page_count r" "sp_vaddr p = page_vaddr r f"
    by (auto simp: page_at_def)
  from heap_free_refines [OF inv f(1) used_slab_info [OF N] f(2)] obtain r' where
    r': "heap_free_page (page_vaddr r f) r = Some r'" "heap_inv B r'" "abs_free 0 f (heap_abs r) (heap_abs r')"
    "hm_start_virt r' = hm_start_virt r" "hm_page_count r' = hm_page_count r" by blast
  have "SlabPage_destroy p r = Some r'"
    using r'(1) f(4) frame_addr(1) [OF r f(3)]
    by (simp add: SlabPage_destroy_def vaddr_is_null_def page_addr_ok_def)
  moreover have "root_ok B r'" using r r' by (simp add: root_ok_def)
  moreover have "root_kept {f} r r'" using r'(3-5) by (simp add: root_kept_def abs_free_def)
  moreover have "page_at B r' M q g" if "page_at B r M q g" "g \<noteq> f" for M q g
    using that r'(3-5) page_vaddr_cong [OF r'(4)] by (simp add: page_at_def abs_free_def)
  ultimately show thesis by (rule that)
qed

end
