(* ===== verification/Slab_Page_Slab.thy ===== *)
theory Slab_Page_Slab
  imports Slab_Heap
begin

text \<open>
  \<open>SlabPageSlab\<close>, the allocator of \<open>SlabPage\<close> objects, which also holds the objects of its own
  pages.  The used slots are its own page objects together with the objects \<open>D\<close> handed out.
\<close>

definition pages_inv :: "nat set \<Rightarrow> VirtAddr set \<Rightarrow> SlabCommon \<times> HeapMemoryRegion \<Rightarrow> bool" where
  "pages_inv B D s \<longleftrightarrow> root_ok B (snd s) \<and> slab_at B (snd s) SLAB_PAGE_SIZE (fst s)
     \<and> distinct (map fst (sc_next (fst s)))
     \<and> slab_used SLAB_PAGE_SIZE (fst s) = set (map fst (sc_next (fst s))) \<union> D
     \<and> set (map fst (sc_next (fst s))) \<inter> D = {}"

lemma pages_invD:
  assumes "pages_inv B D (c, r)"
  shows "root_ok B r" "slab_at B r SLAB_PAGE_SIZE c" "distinct (map fst (sc_next c))"
    "slab_used SLAB_PAGE_SIZE c = set (map fst (sc_next c)) \<union> D" "set (map fst (sc_next c)) \<inter> D = {}"
    "common_ok SLAB_PAGE_SIZE c" "length (sc_next c) + 2 < 2 ^ 24"
  using assms slab_at_length [OF _ slot_size_SLAB_PAGE] by (auto simp: pages_inv_def slab_at_def)

lemma slab_at_same_pages:
  assumes "slab_at B r N c" and "same_pages c c'" and "common_ok N c'"
  shows "slab_at B r N c'"
proof -
  have "\<exists>q \<in> set (sc_all_pages c). sp_vaddr q = sp_vaddr p" if "p \<in> set (sc_all_pages c')" for p
  proof -
    have "sp_vaddr p \<in> set (map sp_vaddr (sc_all_pages c'))" using that by simp
    also have "map sp_vaddr (sc_all_pages c') = map sp_vaddr (sc_all_pages c)"
      using assms(2) by (simp add: same_pages_def)
    finally show ?thesis by auto
  qed
  then show ?thesis using assms(1,3) by (fastforce simp: slab_at_def page_at_def)
qed

text \<open>The slots handed out or taken back change \<open>D\<close> only.\<close>

lemma pages_inv_same:
  assumes "pages_inv B D (c, r)" and "same_pages c c'" and "common_ok SLAB_PAGE_SIZE c'"
    and "slab_used SLAB_PAGE_SIZE c' = set (map fst (sc_next c)) \<union> D'" and "set (map fst (sc_next c)) \<inter> D' = {}"
  shows "pages_inv B D' (c', r)"
proof -
  have "map fst (sc_next c') = map fst (sc_next c)" using assms(2) by (simp add: same_pages_def)
  then show ?thesis
    using pages_invD [OF assms(1)] slab_at_same_pages [OF _ assms(2,3)] assms(4,5)
    unfolding pages_inv_def by simp
qed

lemma pages_inv_root:
  assumes "pages_inv B D (c, r)" and "root_ok B r'" and "slab_at B r' SLAB_PAGE_SIZE c"
  shows "pages_inv B D (c, r')"
  using assms by (simp add: pages_inv_def)

section \<open>Page objects\<close>

lemma allocate_page_slot_ok:
  assumes inv: "pages_inv B D (c, r)" and free: "sc_free c \<noteq> 0" and S: "slot_size_ok S"
  shows "(\<exists>a p c' r'. allocate_page_slot S (c, r) = Some (Ok (a, p), (c', r')) \<and> pages_inv B (insert a D) (c', r')
        \<and> a \<notin> D \<and> fresh_page B S p r r' \<and> slab_at B r SLAB_PAGE_SIZE c' \<and> sc_free c' = sc_free c - 1 \<and> same_pages c c')
    \<or> (\<exists>c'. allocate_page_slot S (c, r) = Some (Err AllocError_OutOfMemory, (c', r)) \<and> pages_inv B D (c', r)
        \<and> sc_free c' = sc_free c)"
proof -
  note D = pages_invD [OF inv]
  have len: "length (sc_next c) + 1 < 2 ^ 24" using D(7) by simp
  from allocate_slot_ok [OF slot_size_SLAB_PAGE D(6) free len] obtain a c1 where
    c1: "allocate_slot SLAB_PAGE_SIZE c = Some (a, c1)" "common_ok SLAB_PAGE_SIZE c1" "same_pages c c1"
    "a \<notin> slab_used SLAB_PAGE_SIZE c" "slab_used SLAB_PAGE_SIZE c1 = insert a (slab_used SLAB_PAGE_SIZE c)"
    "sc_free c1 = sc_free c - 1" by metis
  have inv1: "pages_inv B (insert a D) (c1, r)"
    by (rule pages_inv_same [OF inv c1(3,2)]) (use c1(4,5) D(4,5) in auto)
  note D1 = pages_invD [OF inv1]
  from SlabPage_init_ok [OF D(1) S] consider
    p r' where "SlabPage_init S SlabPage_new r = Some (Ok p, r')" "fresh_page B S p r r'"
    | "SlabPage_init S SlabPage_new r = Some (Err AllocError_OutOfMemory, r)" by blast
  then show ?thesis
  proof cases
    case (1 p r')
    then have "pages_inv B (insert a D) (c1, r')"
      using pages_inv_root [OF inv1] fresh_page_kept(2,3) [OF 1(2)] D1(2) by blast
    then show ?thesis
      using 1 c1 D(4) D1(2) by (intro disjI1 exI [of _ a] exI [of _ p] exI [of _ c1] exI [of _ r'])
        (simp add: allocate_page_slot_def)
  next
    case 2
    have "a \<in> slab_used SLAB_PAGE_SIZE c1" using c1(5) by simp
    from deallocate_slot_ok [OF slot_size_SLAB_PAGE c1(2) this] D1(7) obtain c2 where
      c2: "deallocate_slot SLAB_PAGE_SIZE a c1 = Some c2" "common_ok SLAB_PAGE_SIZE c2" "same_pages c1 c2"
      "slab_used SLAB_PAGE_SIZE c2 = slab_used SLAB_PAGE_SIZE c1 - {a}" "sc_free c2 = sc_free c1 + 1"
      by auto
    have "slab_used SLAB_PAGE_SIZE c2 = slab_used SLAB_PAGE_SIZE c" using c2(4) c1(4,5) by simp
    then have "pages_inv B D (c2, r)"
      using pages_inv_same [OF inv slab_same_pages_trans [OF c1(3) c2(3)] c2(2)] D(4,5) by simp
    then show ?thesis using 2 c1(1,6) c2(1,5) free by (simp add: allocate_page_slot_def)
  qed
qed

lemma deallocate_page_slot_ok:
  assumes inv: "pages_inv B (insert a D) (c, r)" and a: "a \<notin> D" and S: "slot_size_ok S"
    and p: "page_at B r S p f" and other: "\<And>q. q \<in> set (sc_all_pages c) \<Longrightarrow> sp_vaddr q \<noteq> sp_vaddr p"
  obtains c' r' where "deallocate_page_slot (a, p) (c, r) = Some (c', r')" and "pages_inv B D (c', r')"
    and "root_kept {f} r r'" and "same_pages c c'" and "sc_free c' = sc_free c + 1"
proof -
  note D = pages_invD [OF inv]
  from SlabPage_destroy_ok [OF D(1) S p] obtain r' where
    r': "SlabPage_destroy p r = Some r'" "root_ok B r'" "root_kept {f} r r'"
    "\<And>M q g. page_at B r M q g \<Longrightarrow> g \<noteq> f \<Longrightarrow> page_at B r' M q g" by metis
  have "slab_at B r' SLAB_PAGE_SIZE c"
    unfolding slab_at_def
  proof (intro conjI ballI D(6))
    fix q assume q: "q \<in> set (sc_all_pages c)"
    with D(2) obtain g where g: "page_at B r SLAB_PAGE_SIZE q g" by (auto simp: slab_at_def)
    with page_at_inj(1) [OF D(1) g p slot_size_SLAB_PAGE S] other [OF q] have "g \<noteq> f" by simp
    with r'(4) [OF g] show "\<exists>f. page_at B r' SLAB_PAGE_SIZE q f" by blast
  qed
  with pages_inv_root [OF inv r'(2)] have inv': "pages_inv B (insert a D) (c, r')" .
  have "a \<in> slab_used SLAB_PAGE_SIZE c" using D(4) by simp
  from deallocate_slot_ok [OF slot_size_SLAB_PAGE D(6) this] D(7) obtain c' where
    c': "deallocate_slot SLAB_PAGE_SIZE a c = Some c'" "common_ok SLAB_PAGE_SIZE c'" "same_pages c c'"
    "slab_used SLAB_PAGE_SIZE c' = slab_used SLAB_PAGE_SIZE c - {a}" "sc_free c' = sc_free c + 1" by auto
  have "pages_inv B D (c', r')"
    by (rule pages_inv_same [OF inv' c'(3,2)]) (use c'(4) D(4,5) a in auto)
  moreover have "deallocate_page_slot (a, p) (c, r) = Some (c', r')"
    using r'(1) c'(1) by (simp add: deallocate_page_slot_def)
  ultimately show thesis using that r'(3) c'(3,5) by blast
qed

section \<open>Growing and shrinking\<close>

lemma SlabPageSlab_grow_ok:
  assumes inv: "pages_inv B D (c, r)" and free: "1 \<le> sc_free c"
  shows "(\<exists>c' r'. SlabPageSlab_grow_slab (c, r) = Some (Ok (), (c', r')) \<and> pages_inv B D (c', r')
        \<and> root_kept {} r r' \<and> 2 \<le> sc_free c')
    \<or> (\<exists>c'. SlabPageSlab_grow_slab (c, r) = Some (Err AllocError_OutOfMemory, (c', r)) \<and> pages_inv B D (c', r)
        \<and> 1 \<le> sc_free c')"
proof -
  note D = pages_invD [OF inv] and cb = slab_capacity_bounds [OF slot_size_SLAB_PAGE]
  have cap: "sc_capacity c \<noteq> 0"
    using D(6) cb(1) by (auto simp: common_ok_def counters_ok_def sc_all_pages_def)
  show ?thesis
  proof (cases "2 \<le> sc_free c")
    case True
    then show ?thesis using inv cap by (auto simp: SlabPageSlab_grow_slab_def)
  next
    case False
    with free have one: "sc_free c = 1" by simp
    with allocate_page_slot_ok [OF inv _ slot_size_SLAB_PAGE] consider
      a p c1 r' where "allocate_page_slot SLAB_PAGE_SIZE (c, r) = Some (Ok (a, p), (c1, r'))"
        "pages_inv B (insert a D) (c1, r')" "a \<notin> D" "fresh_page B SLAB_PAGE_SIZE p r r'"
        "slab_at B r SLAB_PAGE_SIZE c1" "same_pages c c1"
      | c' where "allocate_page_slot SLAB_PAGE_SIZE (c, r) = Some (Err AllocError_OutOfMemory, (c', r))"
        "pages_inv B D (c', r)" "sc_free c' = sc_free c" by force
    then show ?thesis
    proof cases
      case (1 a p c1 r')
      note D1 = pages_invD [OF 1(2)]
      have sep: "\<forall>q \<in> set (sc_all_pages c1). page_sep q p"
        using fresh_page_kept(4) [OF 1(4,5)] by simp
      have p: "page_ok SLAB_PAGE_SIZE p" "page_used p = {}" "\<exists>f. page_at B r' SLAB_PAGE_SIZE p f"
        using 1(4) by (auto simp: fresh_page_def)
      from add_slab_page_ok [OF slot_size_SLAB_PAGE D1(6) p(1,2) sep D1(7), of a] obtain c' where
        c': "add_slab_page SLAB_PAGE_SIZE (a, p) c1 = Some c'" "common_ok SLAB_PAGE_SIZE c'"
        "slab_used SLAB_PAGE_SIZE c' = slab_used SLAB_PAGE_SIZE c1" "sc_next c' = (a, p) # sc_next c1"
        "sc_page c' = sc_page c1" "sc_free c' = sc_free c1 + slab_capacity SLAB_PAGE_SIZE" .
      have "slab_at B r' SLAB_PAGE_SIZE c'"
        using D1(2) c'(2,4,5) p(3) by (auto simp: slab_at_def sc_all_pages_def)
      then have "pages_inv B D (c', r')"
        using D1 1(3) c'(3,4) by (auto simp: pages_inv_def)
      then show ?thesis
        using 1(1) c'(1,6) cap one cb(1) fresh_page_kept(1) [OF 1(4)]
        by (simp add: SlabPageSlab_grow_slab_def)
    next
      case (2 c')
      then show ?thesis using cap one by (simp add: SlabPageSlab_grow_slab_def)
    qed
  qed
qed

lemma free_pages_free:
  assumes "slot_size_ok N" and "common_ok N c" and "1 \<le> sc_free_pages c"
  shows "2 \<le> sc_free c"
proof -
  let ?xs = "sc_all_pages c"
  have cnt: "counters_ok N ?xs c" using assms(2) by (simp add: common_ok_def)
  then have "filter (\<lambda>p. sp_free p = slab_capacity N) ?xs \<noteq> []"
    using assms(3) counters_okD(5) [OF cnt] by auto
  then obtain p where "p \<in> set ?xs" "sp_free p = slab_capacity N" by (auto simp: filter_empty_conv)
  then have "slab_capacity N \<in> set (map sp_free ?xs)" by force
  then have "slab_capacity N \<le> sum_list (map sp_free ?xs)" by (rule member_le_sum_list) simp
  then show ?thesis using counters_okD(2) [OF cnt] slab_capacity_bounds(1) [OF assms(1)] by simp
qed

text \<open>The loop of \<open>shrink_slab\<close> ends: every round unlinks a page.\<close>

lemma SlabPageSlab_shrink_ok:
  assumes "pages_inv B D (c, r)" and "1 \<le> sc_free c"
  shows "\<exists>c' r'. SlabPageSlab_shrink_slab (c, r) = Some (c', r') \<and> pages_inv B D (c', r')
    \<and> root_kept {} r r' \<and> 1 \<le> sc_free c' \<and> sc_free_pages c' \<le> 1"
  using assms
proof (induction "length (sc_next c)" arbitrary: c r rule: less_induct)
  case less
  note D = pages_invD [OF less.prems(1)]
  show ?case
  proof (cases "1 < sc_free_pages c")
    case False
    then show ?thesis using less.prems by (simp add: SlabPageSlab_shrink_slab.simps [of "(c, r)"])
  next
    case True
    from free_one_page_ok [OF slot_size_SLAB_PAGE D(6) True] obtain pre a p post c1 where
      c1: "free_one_page SLAB_PAGE_SIZE c = Some ((a, p), c1)" "common_ok SLAB_PAGE_SIZE c1"
      "slab_used SLAB_PAGE_SIZE c1 = slab_used SLAB_PAGE_SIZE c" "sc_next c = pre @ (a, p) # post"
      "sc_next c1 = pre @ post" "sc_page c1 = sc_page c" by metis
    have sub: "set (sc_all_pages c1) \<subseteq> set (sc_all_pages c)" "p \<in> set (sc_all_pages c)"
      using c1(4-6) by (auto simp: sc_all_pages_def)
    then have "slab_at B r SLAB_PAGE_SIZE c1" using D(2) c1(2) by (auto simp: slab_at_def)
    then have inv1: "pages_inv B (insert a D) (c1, r)" and a: "a \<notin> D"
      using D c1(3-5) by (auto simp: pages_inv_def)
    obtain f where f: "page_at B r SLAB_PAGE_SIZE p f" using D(2) sub(2) by (auto simp: slab_at_def)
    have fs: "root_kept {f} r s \<Longrightarrow> root_kept {} r s" for s
      using f unfolding root_kept_def page_at_def by (metis option.inject singletonD)
    have "page_sep q p" if "q \<in> set (sc_all_pages c1)" for q
      using that D(6) c1(4-6)
      by (auto simp: common_ok_def pages_ok_def sc_all_pages_def sorted_wrt_append page_sep_commute)
    then have other: "sp_vaddr q \<noteq> sp_vaddr p" if "q \<in> set (sc_all_pages c1)" for q
      using that page_bytes_ne [of "sp_vaddr p"] unfolding page_sep_def by (metis Int_iff empty_iff)
    from deallocate_page_slot_ok [OF inv1 a slot_size_SLAB_PAGE f other] obtain c2 r2 where
      c2: "deallocate_page_slot (a, p) (c1, r) = Some (c2, r2)" "pages_inv B D (c2, r2)" "root_kept {f} r r2"
      "same_pages c1 c2" "sc_free c2 = sc_free c1 + 1" by blast
    have "length (sc_next c2) = length (sc_next c1)"
      using c2(4) by (metis same_pages_def length_map)
    then have lt: "length (sc_next c2) < length (sc_next c)" using c1(4,5) by simp
    from less.hyps [OF lt c2(2)] c2(5) obtain c' r' where
      c': "SlabPageSlab_shrink_slab (c2, r2) = Some (c', r')" "pages_inv B D (c', r')" "root_kept {} r2 r'"
      "1 \<le> sc_free c'" "sc_free_pages c' \<le> 1" by auto
    have "SlabPageSlab_shrink_slab (c, r) = Some (c', r')"
      using True c1(1) c2(1) c'(1) by (simp add: SlabPageSlab_shrink_slab.simps [of "(c, r)"])
    then show ?thesis using c' root_kept_trans [OF fs [OF c2(3)] c'(3)] by blast
  qed
qed

section \<open>Allocating and freeing page objects\<close>

lemma SlabPageSlab_allocate_ok:
  assumes inv: "pages_inv B D (c, r)" and free: "1 \<le> sc_free c" and S: "slot_size_ok S"
  shows "(\<exists>a p c' r1 r'. SlabPageSlab_allocate S (c, r) = Some (Ok (a, p), (c', r')) \<and> pages_inv B (insert a D) (c', r')
        \<and> a \<notin> D \<and> root_kept {} r r1 \<and> fresh_page B S p r1 r' \<and> 1 \<le> sc_free c')
    \<or> (\<exists>c' r'. SlabPageSlab_allocate S (c, r) = Some (Err AllocError_OutOfMemory, (c', r')) \<and> pages_inv B D (c', r')
        \<and> root_kept {} r r' \<and> 1 \<le> sc_free c')"
proof -
  from SlabPageSlab_grow_ok [OF inv free] consider
    c1 r1 where "SlabPageSlab_grow_slab (c, r) = Some (Ok (), (c1, r1))" "pages_inv B D (c1, r1)"
      "root_kept {} r r1" "2 \<le> sc_free c1"
    | c' where "SlabPageSlab_grow_slab (c, r) = Some (Err AllocError_OutOfMemory, (c', r))" "pages_inv B D (c', r)"
      "1 \<le> sc_free c'" by blast
  then show ?thesis
  proof cases
    case (1 c1 r1)
    then have "sc_free c1 \<noteq> 0" by simp
    from allocate_page_slot_ok [OF 1(2) this S] show ?thesis
      using 1 by (force simp: SlabPageSlab_allocate_def bindM_def)
  next
    case (2 c')
    then show ?thesis by (simp add: SlabPageSlab_allocate_def bindM_def)
  qed
qed

lemma SlabPageSlab_deallocate_ok:
  assumes inv: "pages_inv B (insert a D) (c, r)" and a: "a \<notin> D" and S: "slot_size_ok S"
    and p: "page_at B r S p f" and other: "\<And>q. q \<in> set (sc_all_pages c) \<Longrightarrow> sp_vaddr q \<noteq> sp_vaddr p"
  obtains c' r' where "SlabPageSlab_deallocate (a, p) (c, r) = Some (c', r')" and "pages_inv B D (c', r')"
    and "root_kept {f} r r'" and "1 \<le> sc_free c'"
proof -
  from deallocate_page_slot_ok [OF inv a S p other] obtain c1 r1 where
    c1: "deallocate_page_slot (a, p) (c, r) = Some (c1, r1)" "pages_inv B D (c1, r1)" "root_kept {f} r r1"
    "sc_free c1 = sc_free c + 1" by metis
  from SlabPageSlab_shrink_ok [OF c1(2)] c1(4) obtain c' r' where
    "SlabPageSlab_shrink_slab (c1, r1) = Some (c', r')" "pages_inv B D (c', r')" "root_kept {} r1 r'" "1 \<le> sc_free c'"
    by auto
  with c1 show thesis
    using root_kept_trans [OF c1(3)] by (intro that) (simp_all add: SlabPageSlab_deallocate_def)
qed

end
