(* ===== verification/Slab_Alloc.thy ===== *)
theory Slab_Alloc
  imports Slab_Page_Slab
begin

text \<open>
  The object slabs together: the invariant over the heap, the slab of pages and the slabs of all
  slot sizes, and allocation and deallocation of objects.
\<close>

section \<open>The invariant\<close>

definition slab_sizes :: "nat set" where
  "slab_sizes = {32, 64, 128, 256, 512, 1024, 2048}"

definition page_objects :: "SlabCommon \<Rightarrow> VirtAddr set" where
  "page_objects c = set (map fst (sc_next c))"

text \<open>The page objects of the slabs other than \<open>N\<close>.\<close>

definition objects_but :: "nat \<Rightarrow> slab_mem \<Rightarrow> VirtAddr set" where
  "objects_but N s = (\<Union>M \<in> slab_sizes - {N}. page_objects (sm_slab s M))"

definition slab_ok :: "nat set \<Rightarrow> HeapMemoryRegion \<Rightarrow> nat \<Rightarrow> SlabCommon \<Rightarrow> bool" where
  "slab_ok B r N c \<longleftrightarrow> distinct (map fst (sc_next c)) \<and> (c = SlabCommon_new \<or> slab_at B r N c)"

definition slab_inv :: "nat set \<Rightarrow> slab_mem \<Rightarrow> bool" where
  "slab_inv B s \<longleftrightarrow> pages_inv B (\<Union>M \<in> slab_sizes. page_objects (sm_slab s M)) (sm_pages s)
     \<and> 1 \<le> sc_free (sm_slab s SLAB_PAGE_SIZE)
     \<and> (\<forall>N \<in> slab_sizes. slab_ok B (sm_root s) N (sm_slab s N))
     \<and> (\<forall>N \<in> slab_sizes. page_objects (sm_slab s N) \<inter> objects_but N s = {})"

definition live :: "slab_mem \<Rightarrow> nat \<Rightarrow> VirtAddr set" where
  "live s N = slab_used N (sm_slab s N)"

lemma slab_sizes_ok:
  assumes "N \<in> slab_sizes"
  shows "slot_size_ok N" and "N \<noteq> SLAB_PAGE_SIZE"
  using assms by (auto simp: slab_sizes_def slot_size_ok_def SLAB_PAGE_SIZE_def)

lemma slab_invD:
  assumes "slab_inv B s" and "N \<in> slab_sizes"
  shows "pages_inv B (page_objects (sm_slab s N) \<union> objects_but N s) (sm_slab s SLAB_PAGE_SIZE, sm_root s)"
    "1 \<le> sc_free (sm_slab s SLAB_PAGE_SIZE)" "slab_ok B (sm_root s) N (sm_slab s N)"
    "page_objects (sm_slab s N) \<inter> objects_but N s = {}" "root_ok B (sm_root s)"
proof -
  have "(\<Union>M \<in> slab_sizes. page_objects (sm_slab s M)) = page_objects (sm_slab s N) \<union> objects_but N s"
    using assms(2) by (auto simp: objects_but_def)
  then show "pages_inv B (page_objects (sm_slab s N) \<union> objects_but N s) (sm_slab s SLAB_PAGE_SIZE, sm_root s)"
    using assms(1) by (simp add: slab_inv_def sm_pages_def)
  then show "root_ok B (sm_root s)" by (rule pages_invD)
qed (use assms in \<open>auto simp: slab_inv_def\<close>)

lemma page_objects_new [simp]: "page_objects SlabCommon_new = {}"
  by (simp add: page_objects_def SlabCommon_new_def)

lemma slab_used_new [simp]: "slab_used N SlabCommon_new = {}"
  by (auto simp: slab_used_def pages_used_Union sc_all_pages_def SlabCommon_new_def SlabPage_new_def page_used_def
      nth_Cons' numeral_2_eq_2)

lemma sc_new_not_at: "slot_size_ok N \<Longrightarrow> \<not> slab_at B r N SlabCommon_new"
proof
  assume "slot_size_ok N" "slab_at B r N SlabCommon_new"
  then have "0 = slab_capacity N" by (simp add: slab_at_def common_ok_def counters_ok_def SlabCommon_new_def sc_all_pages_def)
  then show False using slab_capacity_bounds(1) [OF \<open>slot_size_ok N\<close>] by simp
qed

lemma slab_at_capacity:
  assumes "slot_size_ok N" and "slab_at B r N c"
  shows "sc_capacity c \<noteq> 0"
  using assms slab_capacity_bounds(1) [of N] by (auto simp: slab_at_def common_ok_def counters_ok_def sc_all_pages_def)

text \<open>Replacing the slab \<open>N\<close>, the slab of pages and the heap together.\<close>

definition sm_update :: "nat \<Rightarrow> SlabCommon \<Rightarrow> SlabCommon \<Rightarrow> HeapMemoryRegion \<Rightarrow> slab_mem \<Rightarrow> slab_mem" where
  "sm_update N c p r s = sm_put N c (sm_put_pages (p, r) s)"

lemma sm_update_sel:
  assumes "N \<in> slab_sizes"
  shows "sm_slab (sm_update N c p r s) N = c" "sm_root (sm_update N c p r s) = r"
    "sm_slab (sm_update N c p r s) SLAB_PAGE_SIZE = p"
    "M \<noteq> N \<Longrightarrow> M \<noteq> SLAB_PAGE_SIZE \<Longrightarrow> sm_slab (sm_update N c p r s) M = sm_slab s M"
  using slab_sizes_ok(2) [OF assms] by (simp_all add: sm_update_def sm_put_def sm_put_pages_def)

lemma sm_update_eq:
  assumes "N \<in> slab_sizes"
  shows "sm_put N c s = sm_update N c (sm_slab s SLAB_PAGE_SIZE) (sm_root s) s"
    "(sm_put N c s)\<lparr>sm_root := r\<rparr> = sm_update N c (sm_slab s SLAB_PAGE_SIZE) r s"
    "sm_put_pages (p, r) s = sm_update N (sm_slab s N) p r s"
    "sm_update N c' p' r' (sm_update N c p r s) = sm_update N c' p' r' s"
  using slab_sizes_ok(2) [OF assms] by (auto simp: sm_update_def sm_put_def sm_put_pages_def fun_eq_iff)

text \<open>Every used frame that is no slab page frame of \<open>N\<close> is kept.\<close>

definition others_kept :: "nat \<Rightarrow> HeapMemoryRegion \<Rightarrow> HeapMemoryRegion \<Rightarrow> bool" where
  "others_kept N r r' \<longleftrightarrow> hm_start_virt r' = hm_start_virt r \<and> hm_page_count r' = hm_page_count r
     \<and> (\<forall>g i. ah_used (heap_abs r) g = Some i \<and> i \<noteq> slab_info N \<and> i \<noteq> slab_info SLAB_PAGE_SIZE
          \<longrightarrow> ah_used (heap_abs r') g = Some i)"

lemma others_kept_refl [simp]: "others_kept N r r"
  by (simp add: others_kept_def)

lemma others_kept_trans: "others_kept N a b \<Longrightarrow> others_kept N b c \<Longrightarrow> others_kept N a c"
  by (simp add: others_kept_def)

lemma root_kept_others:
  "root_kept {} r r' \<Longrightarrow> others_kept N r r'"
  "root_kept {f} r r' \<Longrightarrow> ah_used (heap_abs r) f = Some (slab_info N) \<Longrightarrow> others_kept N r r'"
  unfolding root_kept_def others_kept_def by blast (metis option.inject singletonD)

lemma slab_ok_kept:
  assumes "others_kept N r r'" and "slab_ok B r M c" and "M \<in> slab_sizes" and "M \<noteq> N" and "slot_size_ok N"
  shows "slab_ok B r' M c"
proof -
  have i: "slab_info M \<noteq> slab_info N" "slab_info M \<noteq> slab_info SLAB_PAGE_SIZE"
    using slab_info_inj [OF slab_sizes_ok(1) [OF assms(3)]] assms(4,5) slab_sizes_ok(2) [OF assms(3)] by auto
  have "page_at B r M p f \<Longrightarrow> page_at B r' M p f" for p f
    using assms(1) i page_vaddr_cong [of r' r] by (simp add: others_kept_def page_at_def)
  then have "slab_at B r M c \<Longrightarrow> slab_at B r' M c" unfolding slab_at_def by blast
  then show ?thesis using assms(2) by (auto simp: slab_ok_def)
qed

lemma slab_inv_update:
  assumes s: "slab_inv B s" and N: "N \<in> slab_sizes" and p: "pages_inv B (page_objects c \<union> objects_but N s) (p, r)"
    and free: "1 \<le> sc_free p" and c: "slab_ok B r N c" and dis: "page_objects c \<inter> objects_but N s = {}"
    and k: "others_kept N (sm_root s) r"
  shows "slab_inv B (sm_update N c p r s)"
proof -
  let ?s = "sm_update N c p r s"
  note sel = sm_update_sel [OF N, where c = c and p = p and r = r and s = s]
  have but: "objects_but N ?s = objects_but N s"
    using sel(4) slab_sizes_ok(2) by (auto simp: objects_but_def)
  have "(\<Union>M \<in> slab_sizes. page_objects (sm_slab ?s M)) = page_objects (sm_slab ?s N) \<union> objects_but N ?s"
    using N by (auto simp: objects_but_def)
  then have pg: "pages_inv B (\<Union>M \<in> slab_sizes. page_objects (sm_slab ?s M)) (sm_pages ?s)"
    using p by (simp add: but sm_pages_def sel)
  have ok: "slab_ok B (sm_root ?s) M (sm_slab ?s M)" if M: "M \<in> slab_sizes" for M
  proof (cases "M = N")
    case False
    then show ?thesis
      using slab_ok_kept [OF k slab_invD(3) [OF s M] M False slab_sizes_ok(1) [OF N]] sel(4) [OF False slab_sizes_ok(2) [OF M]]
      by (simp add: sel)
  qed (simp add: sel c)
  have "page_objects (sm_slab ?s M) \<inter> objects_but M ?s = {}" if M: "M \<in> slab_sizes" for M
  proof (cases "M = N")
    case False
    have sM: "sm_slab ?s M = sm_slab s M" by (rule sel(4) [OF False slab_sizes_ok(2) [OF M]])
    have "page_objects (sm_slab s M) \<subseteq> objects_but N s" using M False by (auto simp: objects_but_def)
    moreover have "objects_but M ?s \<subseteq> objects_but M s \<union> page_objects c"
    proof
      fix a assume "a \<in> objects_but M ?s"
      then obtain K where K: "K \<in> slab_sizes" "K \<noteq> M" "a \<in> page_objects (sm_slab ?s K)" by (auto simp: objects_but_def)
      then show "a \<in> objects_but M s \<union> page_objects c"
        using sel(1) sel(4) [OF _ slab_sizes_ok(2) [OF K(1)]] by (cases "K = N") (auto simp: objects_but_def)
    qed
    ultimately show ?thesis using slab_invD(4) [OF s M] dis unfolding sM by blast
  qed (simp add: sel but dis)
  then show ?thesis using pg ok free by (simp add: slab_inv_def sel)
qed

section \<open>Growing a slab\<close>

lemma SlabCommon_init_ok:
  assumes r: "root_ok B r" and N: "slot_size_ok N"
  shows "(\<exists>c p r'. SlabCommon_init N SlabCommon_new r = Some (Ok c, r') \<and> fresh_page B N p r r' \<and> slab_at B r' N c
        \<and> sc_next c = [] \<and> slab_used N c = {} \<and> sc_free c \<noteq> 0)
    \<or> SlabCommon_init N SlabCommon_new r = Some (Err AllocError_OutOfMemory, r)"
proof -
  have new: "sc_page SlabCommon_new = SlabPage_new" "sc_next SlabCommon_new = []" by (simp_all add: SlabCommon_new_def)
  note cb = slab_capacity_bounds [OF N]
  from SlabPage_init_ok [OF r N] show ?thesis
  proof (elim disjE exE conjE)
    fix p r' assume p: "SlabPage_init N SlabPage_new r = Some (Ok p, r')" "fresh_page B N p r r'"
    let ?c = "SlabCommon_new\<lparr>sc_page := p, sc_capacity := slab_capacity N, sc_free := slab_capacity N, sc_pages := 1,
         sc_full_pages := 0, sc_free_pages := 1\<rparr>"
    have all: "sc_all_pages ?c = [p]" by (simp add: sc_all_pages_def new)
    have u: "page_ok N p" "page_used p = {}" "\<exists>f. page_at B r' N p f" using p(2) by (auto simp: fresh_page_def)
    then have "sp_free p = slab_capacity N" using page_used_empty_iff by blast
    then have "slab_at B r' N ?c"
      unfolding slab_at_def common_ok_def counters_ok_def all using u cb(1) by (simp add: pages_ok_def)
    moreover have "slab_used N ?c = {}" unfolding slab_used_def all by (simp add: pages_used_Union u(2))
    moreover have "SlabCommon_init N SlabCommon_new r = Some (Ok ?c, r')"
      using p(1) by (simp add: SlabCommon_init_def bindM_def ret_def new)
    ultimately show ?thesis using p(2) cb(1) new(2)
      by (intro disjI1 exI [of _ ?c] exI [of _ p] exI [of _ r']) simp
  next
    assume "SlabPage_init N SlabPage_new r = Some (Err AllocError_OutOfMemory, r)"
    then show ?thesis by (simp add: SlabCommon_init_def bindM_def new)
  qed
qed

definition grown :: "nat set \<Rightarrow> nat \<Rightarrow> slab_mem \<Rightarrow> slab_mem \<Rightarrow> bool" where
  "grown B N s s' \<longleftrightarrow> slab_inv B s' \<and> (\<forall>M \<in> slab_sizes. live s' M = live s M) \<and> others_kept N (sm_root s) (sm_root s')"

lemma live_update:
  assumes "N \<in> slab_sizes" and "M \<in> slab_sizes"
  shows "live (sm_update N c p r s) M = (if M = N then slab_used N c else live s M)"
  using sm_update_sel(1,4) [OF assms(1)] slab_sizes_ok(2) [OF assms(2)] by (simp add: live_def)

lemma grown_update:
  assumes "slab_inv B (sm_update N c p r s)" and "N \<in> slab_sizes" and "slab_used N c = slab_used N (sm_slab s N)"
    and "others_kept N (sm_root s) r"
  shows "grown B N s (sm_update N c p r s)"
proof -
  have "live (sm_update N c p r s) M = live s M" if "M \<in> slab_sizes" for M
    using live_update [OF assms(2) that] assms(3) by (simp add: live_def)
  then show ?thesis using assms(1,4) by (simp add: grown_def sm_update_sel [OF assms(2)])
qed

lemma Slab_grow_ok:
  assumes s: "slab_inv B s" and N: "N \<in> slab_sizes"
  shows "(\<exists>s'. Slab_grow_slab N s = Some (Ok (), s') \<and> grown B N s s' \<and> slab_at B (sm_root s') N (sm_slab s' N)
        \<and> sc_free (sm_slab s' N) \<noteq> 0)
    \<or> (\<exists>s'. Slab_grow_slab N s = Some (Err AllocError_OutOfMemory, s') \<and> grown B N s s')"
proof -
  let ?c = "sm_slab s N" and ?p = "sm_slab s SLAB_PAGE_SIZE" and ?r = "sm_root s"
  note D = slab_invD [OF s N] and Nok = slab_sizes_ok(1) [OF N] and sel = sm_update_sel [OF N] and eq = sm_update_eq [OF N]
  consider (new) "?c = SlabCommon_new" | (free) "slab_at B ?r N ?c" "sc_free ?c \<noteq> 0" | (full) "slab_at B ?r N ?c" "sc_free ?c = 0"
    using D(3) by (auto simp: slab_ok_def)
  then show ?thesis
  proof cases
    case new
    have cap: "sc_capacity ?c = 0" unfolding new by (simp add: SlabCommon_new_def)
    from SlabCommon_init_ok [OF D(5) Nok] show ?thesis
    proof (elim disjE exE conjE)
      fix c p r' assume c: "SlabCommon_init N SlabCommon_new ?r = Some (Ok c, r')" "fresh_page B N p ?r r'"
        "slab_at B r' N c" "sc_next c = []" "slab_used N c = {}" "sc_free c \<noteq> 0"
      let ?s = "sm_update N c ?p r' s"
      have po: "page_objects c = {}" "page_objects ?c = {}" unfolding new by (simp_all add: page_objects_def c(4) SlabCommon_new_def)
      have "pages_inv B (page_objects c \<union> objects_but N s) (?p, r')"
        using pages_inv_root [OF D(1) fresh_page_kept(2) [OF c(2)] fresh_page_kept(3) [OF c(2) pages_invD(2) [OF D(1)]]]
        by (simp add: po)
      then have "slab_inv B ?s"
        by (rule slab_inv_update [OF s N])
          (use D(2) c(3,4) root_kept_others(1) [OF fresh_page_kept(1) [OF c(2)]] in \<open>simp_all add: slab_ok_def po\<close>)
      then have "grown B N s ?s"
        by (rule grown_update [OF _ N]) (use root_kept_others(1) [OF fresh_page_kept(1) [OF c(2)]] c(5) new in simp_all)
      moreover have "Slab_grow_slab N s = Some (Ok (), ?s)"
        using cap c(1) by (simp add: Slab_grow_slab_def Let_def eq(2) new)
      ultimately show ?thesis using c(3,6) by (simp add: sel)
    next
      assume "SlabCommon_init N SlabCommon_new ?r = Some (Err AllocError_OutOfMemory, ?r)"
      then have "Slab_grow_slab N s = Some (Err AllocError_OutOfMemory, s)"
        using cap by (simp add: Slab_grow_slab_def Let_def new)
      then show ?thesis using s by (simp add: grown_def)
    qed
  next
    case free
    then show ?thesis using s slab_at_capacity [OF Nok free(1)] by (simp add: Slab_grow_slab_def Let_def grown_def)
  next
    case full
    note cap = slab_at_capacity [OF Nok full(1)]
    from SlabPageSlab_allocate_ok [OF D(1,2) Nok] show ?thesis
    proof (elim disjE exE conjE)
      fix a p c' r1 r' assume c: "SlabPageSlab_allocate N (?p, ?r) = Some (Ok (a, p), c', r')"
        "pages_inv B (insert a (page_objects ?c \<union> objects_but N s)) (c', r')"
        "a \<notin> page_objects ?c \<union> objects_but N s" "root_kept {} ?r r1" "fresh_page B N p r1 r'" "1 \<le> sc_free c'"
      have at1: "slab_at B r1 N ?c" using slab_at_kept [OF c(4) full(1) Nok slab_sizes_ok(2) [OF N]] by simp
      have p: "page_ok N p" "page_used p = {}" "\<exists>f. page_at B r' N p f" using c(5) by (auto simp: fresh_page_def)
      have sep: "\<forall>q \<in> set (sc_all_pages ?c). page_sep q p" using fresh_page_kept(4) [OF c(5) at1 Nok Nok] by blast
      from add_slab_page_ok [OF Nok slab_at_common [OF at1] p(1,2) sep slab_at_length [OF D(5) Nok full(1)], of a] obtain d where
        d: "add_slab_page N (a, p) ?c = Some d" "common_ok N d" "slab_used N d = slab_used N ?c"
        "sc_next d = (a, p) # sc_next ?c" "sc_page d = sc_page ?c" "sc_free d = sc_free ?c + slab_capacity N" .
      let ?s = "sm_update N d c' r' s"
      have k: "others_kept N ?r r'"
        by (rule others_kept_trans [OF root_kept_others(1) [OF c(4)] root_kept_others(1) [OF fresh_page_kept(1) [OF c(5)]]])
      have at: "slab_at B r' N d"
        using fresh_page_kept(3) [OF c(5) at1] d(2,4,5) p(3) by (auto simp: slab_at_def sc_all_pages_def)
      have po: "page_objects d = insert a (page_objects ?c)" by (simp add: page_objects_def d(4))
      have "pages_inv B (page_objects d \<union> objects_but N s) (c', r')" using c(2) by (simp add: po)
      then have "slab_inv B ?s"
        by (rule slab_inv_update [OF s N _ c(6) _ _ k])
          (use at D(3,4) c(3) d(4) in \<open>auto simp: slab_ok_def po page_objects_def\<close>)
      then have "grown B N s ?s"
        by (rule grown_update [OF _ N d(3) k])
      moreover have "Slab_grow_slab N s = Some (Ok (), ?s)"
        using cap full(2) c(1) d(1) by (simp add: Slab_grow_slab_def Let_def sm_pages_def sm_update_def)
      ultimately show ?thesis using at d(6) slab_capacity_bounds(1) [OF Nok] by (simp add: sel)
    next
      fix c' r' assume c: "SlabPageSlab_allocate N (?p, ?r) = Some (Err AllocError_OutOfMemory, c', r')"
        "pages_inv B (page_objects ?c \<union> objects_but N s) (c', r')" "root_kept {} ?r r'" "1 \<le> sc_free c'"
      let ?s = "sm_update N ?c c' r' s"
      have "slab_at B r' N ?c" using slab_at_kept [OF c(3) full(1) Nok slab_sizes_ok(2) [OF N]] by simp
      then have "slab_inv B ?s"
        using D(3,4) c(4) root_kept_others(1) [OF c(3)] by (intro slab_inv_update [OF s N c(2)]) (simp_all add: slab_ok_def)
      then have "grown B N s ?s"
        by (rule grown_update [OF _ N refl root_kept_others(1) [OF c(3)]])
      moreover have "Slab_grow_slab N s = Some (Err AllocError_OutOfMemory, ?s)"
        using cap full(2) c(1) by (simp add: Slab_grow_slab_def Let_def sm_pages_def eq(3))
      ultimately show ?thesis by blast
    qed
  qed
qed

end
