(* ===== verification/Slab_Objects.thy ===== *)
theory Slab_Objects
  imports Slab_Alloc
begin

text \<open>
  Objects of the slabs: the contract of an object allocator as a locale, the slabs as its
  instance, the placement of objects in heap pages, and the global allocator on top.
\<close>

section \<open>Allocating and freeing objects\<close>

definition others_live :: "nat \<Rightarrow> slab_mem \<Rightarrow> slab_mem \<Rightarrow> bool" where
  "others_live N s s' \<longleftrightarrow> (\<forall>M \<in> slab_sizes - {N}. live s' M = live s M)"

lemma slab_at_not_new: "slab_at B r N c \<Longrightarrow> slot_size_ok N \<Longrightarrow> c \<noteq> SlabCommon_new"
  using sc_new_not_at by blast

lemma slab_same_update:
  assumes s: "slab_inv B s" and N: "N \<in> slab_sizes" and at: "slab_at B (sm_root s) N (sm_slab s N)"
    and c: "common_ok N c" "same_pages (sm_slab s N) c"
  shows "slab_inv B (sm_put N c s)" and "slab_at B (sm_root s) N c"
proof -
  note D = slab_invD [OF s N]
  have o: "map fst (sc_next c) = map fst (sc_next (sm_slab s N))" using c(2) by (simp add: same_pages_def)
  show at': "slab_at B (sm_root s) N c" by (rule slab_at_same_pages [OF at c(2,1)])
  show "slab_inv B (sm_put N c s)"
    unfolding sm_update_eq(1) [OF N]
    by (rule slab_inv_update [OF s N]) (use D at' in \<open>simp_all add: page_objects_def o slab_ok_def\<close>)
qed

lemma Slab_allocate_ok:
  assumes s: "slab_inv B s" and N: "N \<in> slab_sizes"
  shows "(\<exists>v s'. Slab_allocate N s = Some (Ok v, s') \<and> slab_inv B s' \<and> v \<notin> live s N
        \<and> live s' N = insert v (live s N) \<and> others_live N s s' \<and> others_kept N (sm_root s) (sm_root s'))
    \<or> (\<exists>s'. Slab_allocate N s = Some (Err AllocError_OutOfMemory, s') \<and> slab_inv B s'
        \<and> (\<forall>M \<in> slab_sizes. live s' M = live s M) \<and> others_kept N (sm_root s) (sm_root s'))"
  using Slab_grow_ok [OF s N]
proof (elim disjE exE conjE)
  fix s1 assume g: "Slab_grow_slab N s = Some (Ok (), s1)" "grown B N s s1"
    "slab_at B (sm_root s1) N (sm_slab s1 N)" "sc_free (sm_slab s1 N) \<noteq> 0"
  note Nok = slab_sizes_ok(1) [OF N]
  have s1: "slab_inv B s1" "live s1 M = live s M" "others_kept N (sm_root s) (sm_root s1)" if "M \<in> slab_sizes" for M
    using g(2) that by (auto simp: grown_def)
  note root = slab_invD(5) [OF s1(1) [OF N] N]
  have "length (sc_next (sm_slab s1 N)) + 1 < 2 ^ 24" using slab_at_length [OF root Nok g(3)] by simp
  from allocate_slot_ok [OF Nok slab_at_common [OF g(3)] g(4) this] obtain v c where
    c: "allocate_slot N (sm_slab s1 N) = Some (v, c)" "common_ok N c" "same_pages (sm_slab s1 N) c"
    "v \<notin> slab_used N (sm_slab s1 N)" "slab_used N c = insert v (slab_used N (sm_slab s1 N))" by metis
  let ?s = "sm_put N c s1"
  have l: "live ?s M = (if M = N then insert v (live s N) else live s M)" if "M \<in> slab_sizes" for M
    using that s1(2) [OF that] s1(2) [OF N] c(5) by (simp add: live_def sm_put_def)
  have "Slab_allocate N s = Some (Ok v, ?s)" using g(1) c(1) by (simp add: Slab_allocate_def bindM_def)
  moreover have "v \<notin> live s N" using c(4) s1(2) [OF N] by (simp add: live_def)
  moreover have "sm_root ?s = sm_root s1" by (simp add: sm_put_def)
  ultimately show ?thesis
    using slab_same_update(1) [OF s1(1) [OF N] N g(3) c(2,3)] s1(3) [OF N] l N by (simp add: others_live_def)
next
  fix s1 assume g: "Slab_grow_slab N s = Some (Err AllocError_OutOfMemory, s1)" "grown B N s s1"
  then show ?thesis by (simp add: Slab_allocate_def bindM_def grown_def)
qed

lemma Slab_shrink_ok:
  assumes s: "slab_inv B s" and N: "N \<in> slab_sizes" and at: "slab_at B (sm_root s) N (sm_slab s N)"
  shows "\<exists>s'. Slab_shrink_slab N s = Some s' \<and> grown B N s s'"
proof -
  let ?c = "sm_slab s N"
  note D = slab_invD [OF s N] and Nok = slab_sizes_ok(1) [OF N]
  have cnt: "counters_ok N (sc_all_pages ?c) ?c" and pok: "pages_ok N (sc_all_pages ?c)"
    using slab_at_common [OF at] by (auto simp: common_ok_def)
  have "sc_free ?c \<le> slab_capacity N * length (sc_all_pages ?c)"
    using sum_free_le [OF pok] counters_okD(2) [OF cnt] by simp
  moreover have "slab_capacity N * length (sc_all_pages ?c) < 2 ^ 31"
    using capacity_small [OF Nok, of "length (sc_all_pages ?c)"] slab_at_length [OF D(5) Nok at] by (simp add: sc_all_pages_def)
  ultimately have small: "2 * sc_free ?c < 2 ^ 32" by simp
  show ?thesis
  proof (cases "1 < sc_free_pages ?c \<and> \<not> 2 * sc_free ?c < sc_capacity ?c")
    case False
    then have "Slab_shrink_slab N s = Some s" using small by (auto simp: Slab_shrink_slab_def Let_def)
    then show ?thesis using s by (simp add: grown_def)
  next
    case True
    then have free: "1 < sc_free_pages ?c" "\<not> 2 * sc_free ?c < sc_capacity ?c" by blast+
    from free_one_page_ok [OF Nok slab_at_common [OF at] free(1)] obtain pre a p post c where
      c: "free_one_page N ?c = Some ((a, p), c)" "common_ok N c" "slab_used N c = slab_used N ?c"
      "sc_next ?c = pre @ (a, p) # post" "sc_next c = pre @ post" "sc_page c = sc_page ?c" by metis
    have sub: "set (sc_all_pages c) \<subseteq> set (sc_all_pages ?c)" "p \<in> set (sc_all_pages ?c)"
      using c(4-6) by (auto simp: sc_all_pages_def)
    obtain f where f: "page_at B (sm_root s) N p f" using at sub(2) by (auto simp: slab_at_def)
    have "distinct (map fst (sc_next ?c))" using D(3) by (simp add: slab_ok_def)
    then have po: "page_objects ?c = insert a (page_objects c)" "a \<notin> page_objects c" "distinct (map fst (sc_next c))"
      using c(4,5) by (auto simp: page_objects_def)
    let ?D = "page_objects c \<union> objects_but N s"
    have a: "a \<notin> ?D" using po D(4) by auto
    have inv1: "pages_inv B (insert a ?D) (sm_slab s SLAB_PAGE_SIZE, sm_root s)" using D(1) po(1) by simp
    have other: "sp_vaddr q \<noteq> sp_vaddr p" if q: "q \<in> set (sc_all_pages (sm_slab s SLAB_PAGE_SIZE))" for q
    proof -
      obtain g where g: "page_at B (sm_root s) SLAB_PAGE_SIZE q g"
        using pages_invD(2) [OF D(1)] q by (auto simp: slab_at_def)
      from page_at_inj(1,2) [OF D(5) g f slot_size_SLAB_PAGE Nok] slab_sizes_ok(2) [OF N] show ?thesis by auto
    qed
    from SlabPageSlab_deallocate_ok [OF inv1 a Nok f other] obtain p' r' where
      p': "SlabPageSlab_deallocate (a, p) (sm_slab s SLAB_PAGE_SIZE, sm_root s) = Some (p', r')"
      "pages_inv B ?D (p', r')" "root_kept {f} (sm_root s) r'" "1 \<le> sc_free p'" by blast
    have k: "others_kept N (sm_root s) r'"
      using root_kept_others(2) [OF p'(3)] f by (simp add: page_at_def)
    have "g \<noteq> f" if q: "q \<in> set (sc_all_pages c)" "page_at B (sm_root s) N q g" for q g
    proof -
      have "page_sep q p" using q(1) pok c(4-6)
        by (auto simp: pages_ok_def sc_all_pages_def sorted_wrt_append page_sep_commute)
      then have "sp_vaddr q \<noteq> sp_vaddr p"
        using page_bytes_ne [of "sp_vaddr p"] unfolding page_sep_def by (metis Int_iff empty_iff)
      then show ?thesis using page_at_inj(1) [OF D(5) q(2) f Nok Nok] by simp
    qed
    moreover have "slab_at B (sm_root s) N c" using at c(2) sub(1) by (auto simp: slab_at_def)
    ultimately have at': "slab_at B r' N c"
      using slab_at_kept [OF p'(3) _ Nok slab_sizes_ok(2) [OF N]] by auto
    have "slab_inv B (sm_update N c p' r' s)"
      by (rule slab_inv_update [OF s N p'(2,4) _ _ k]) (use at' po D(4) in \<open>auto simp: slab_ok_def\<close>)
    from grown_update [OF this N c(3) k] have "grown B N s (sm_update N c p' r' s)" .
    moreover have "Slab_shrink_slab N s = Some (sm_update N c p' r' s)"
      using free small c(1) p'(1) by (simp add: Slab_shrink_slab_def Let_def sm_pages_def sm_update_def)
    ultimately show ?thesis by blast
  qed
qed

lemma Slab_deallocate_ok:
  assumes s: "slab_inv B s" and N: "N \<in> slab_sizes" and v: "v \<in> live s N"
  shows "\<exists>s'. Slab_deallocate N v s = Some s' \<and> slab_inv B s' \<and> live s' N = live s N - {v}
    \<and> others_live N s s' \<and> others_kept N (sm_root s) (sm_root s')"
proof -
  note D = slab_invD [OF s N] and Nok = slab_sizes_ok(1) [OF N]
  have at: "slab_at B (sm_root s) N (sm_slab s N)" using D(3) v by (auto simp: slab_ok_def live_def)
  have vu: "v \<in> slab_used N (sm_slab s N)" using v by (simp add: live_def)
  have "length (sc_next (sm_slab s N)) + 1 < 2 ^ 24" using slab_at_length [OF D(5) Nok at] by simp
  from deallocate_slot_ok [OF Nok slab_at_common [OF at] vu this] obtain c where
    c: "deallocate_slot N v (sm_slab s N) = Some c" "common_ok N c" "same_pages (sm_slab s N) c"
    "slab_used N c = slab_used N (sm_slab s N) - {v}" by metis
  let ?s = "sm_put N c s"
  note up = slab_same_update [OF s N at c(2,3)]
  have sel: "sm_root ?s = sm_root s" "sm_slab ?s N = c" by (simp_all add: sm_put_def)
  from Slab_shrink_ok [OF up(1) N] up(2) obtain s' where s': "Slab_shrink_slab N ?s = Some s'" "grown B N ?s s'"
    unfolding sel by blast
  have "live ?s M = (if M = N then live s N - {v} else live s M)" for M using c(4) by (simp add: live_def sm_put_def)
  then show ?thesis using s' c(1) N by (auto simp: Slab_deallocate_def grown_def others_live_def sel)
qed

section \<open>The contract of an object allocator\<close>

locale object_allocator =
  fixes inv :: "'s \<Rightarrow> bool"
    and live :: "'s \<Rightarrow> nat \<Rightarrow> VirtAddr set"
    and alloc :: "nat \<Rightarrow> 's \<Rightarrow> ((VirtAddr, AllocError) result \<times> 's) option"
    and free :: "nat \<Rightarrow> VirtAddr \<Rightarrow> 's \<Rightarrow> 's option"
    and sizes :: "nat set"
  assumes alloc_spec: "inv s \<Longrightarrow> N \<in> sizes \<Longrightarrow>
      (\<exists>v s'. alloc N s = Some (Ok v, s') \<and> inv s' \<and> v \<notin> live s N \<and> live s' N = insert v (live s N)
          \<and> (\<forall>M \<in> sizes - {N}. live s' M = live s M))
      \<or> (\<exists>s'. alloc N s = Some (Err AllocError_OutOfMemory, s') \<and> inv s' \<and> (\<forall>M \<in> sizes. live s' M = live s M))"
    and free_spec: "inv s \<Longrightarrow> N \<in> sizes \<Longrightarrow> v \<in> live s N \<Longrightarrow>
      \<exists>s'. free N v s = Some s' \<and> inv s' \<and> live s' N = live s N - {v} \<and> (\<forall>M \<in> sizes - {N}. live s' M = live s M)"
    and live_disjoint: "inv s \<Longrightarrow> N \<in> sizes \<Longrightarrow> M \<in> sizes \<Longrightarrow> a \<in> live s N \<Longrightarrow> b \<in> live s M \<Longrightarrow> (N, a) \<noteq> (M, b) \<Longrightarrow>
      object_bytes N a \<inter> object_bytes M b = {}"
begin

lemma alloc_fresh_bytes:
  assumes "inv s" and "N \<in> sizes" and "alloc N s = Some (Ok v, s')" and "M \<in> sizes" and "b \<in> live s M"
  shows "object_bytes N v \<inter> object_bytes M b = {}"
proof -
  from alloc_spec [OF assms(1,2)] assms(3) have s': "inv s'" "v \<notin> live s N" "live s' N = insert v (live s N)"
    "\<forall>M \<in> sizes - {N}. live s' M = live s M" by auto
  then have "v \<in> live s' N" "b \<in> live s' M" "(N, v) \<noteq> (M, b)" using assms(4,5) by auto
  then show ?thesis using live_disjoint [OF s'(1) assms(2,4)] by blast
qed

lemma alloc_free_live:
  assumes "inv s" and "N \<in> sizes" and "alloc N s = Some (Ok v, s1)"
  obtains s2 where "free N v s1 = Some s2" and "inv s2" and "\<And>M. M \<in> sizes \<Longrightarrow> live s2 M = live s M"
proof -
  from alloc_spec [OF assms(1,2)] assms(3) have s1: "inv s1" "v \<notin> live s N" "live s1 N = insert v (live s N)"
    "\<forall>M \<in> sizes - {N}. live s1 M = live s M" by auto
  from free_spec [OF s1(1) assms(2), of v] s1 obtain s2 where s2: "free N v s1 = Some s2" "inv s2"
    "live s2 N = live s1 N - {v}" "\<forall>M \<in> sizes - {N}. live s2 M = live s1 M" by auto
  have "live s2 M = live s M" if "M \<in> sizes" for M using that s1 s2(3,4) by (cases "M = N") auto
  with s2(1,2) show thesis by (rule that)
qed

end

text \<open>Every live object is a slot of a page of its slab.\<close>

lemma live_placed:
  assumes s: "slab_inv B s" and N: "N \<in> slab_sizes" and v: "v \<in> live s N"
  obtains f i p where "page_at B (sm_root s) N p f" and "i < slab_capacity N" and "v = slot_addr N p i"
    and "page_addr_ok (sp_vaddr p)" and "i \<in> page_used p" and "p \<in> set (sc_all_pages (sm_slab s N))"
proof -
  have at: "slab_at B (sm_root s) N (sm_slab s N)"
    using slab_invD(3) [OF s N] v by (auto simp: slab_ok_def live_def)
  from v obtain p i where p: "p \<in> set (sc_all_pages (sm_slab s N))" "i \<in> page_used p" "v = slot_addr N p i"
    by (auto simp: live_def slab_used_def pages_used_Union)
  have "page_ok N p" using slab_at_common [OF at] p(1) by (simp add: common_ok_def pages_ok_def)
  moreover obtain f where "page_at B (sm_root s) N p f" using at p(1) by (auto simp: slab_at_def)
  ultimately show thesis using that p page_okD(1,3) by blast
qed

lemma live_objects_disjoint:
  assumes s: "slab_inv B s" and N: "N \<in> slab_sizes" and M: "M \<in> slab_sizes" and a: "a \<in> live s N" and b: "b \<in> live s M"
    and ne: "(N, a) \<noteq> (M, b)"
  shows "object_bytes N a \<inter> object_bytes M b = {}"
proof -
  note Nok = slab_sizes_ok(1) [OF N] and Mok = slab_sizes_ok(1) [OF M] and root = slab_invD(5) [OF s N]
  from live_placed [OF s N a] obtain f i p where
    p: "page_at B (sm_root s) N p f" "i < slab_capacity N" "a = slot_addr N p i" "page_addr_ok (sp_vaddr p)" by metis
  from live_placed [OF s M b] obtain g j q where
    q: "page_at B (sm_root s) M q g" "j < slab_capacity M" "b = slot_addr M q j" "page_addr_ok (sp_vaddr q)" by metis
  show ?thesis
  proof (cases "f = g")
    case False
    from page_at_inj(3) [OF root p(1) q(1) Nok Mok False] show ?thesis
      using object_bytes_slot(1) [OF Nok p(4,2)] object_bytes_slot(1) [OF Mok q(4,2)]
      unfolding page_sep_def p(3) q(3) by blast
  next
    case True
    have NM: "N = M" and v: "sp_vaddr q = sp_vaddr p" using page_at_inj(1,2) [OF root p(1) q(1) Nok Mok] True by auto
    have b': "b = slot_addr N p j" using q(3) slot_addr_cong [OF v] NM by simp
    then have "i \<noteq> j" using ne NM p(3) by auto
    then show ?thesis using object_bytes_disjoint [OF Nok p(4,2)] q(2) NM b' p(3) by auto
  qed
qed

interpretation slabs: object_allocator "slab_inv B" live Slab_allocate Slab_deallocate slab_sizes for B
proof
  fix s N assume "slab_inv B s" "N \<in> slab_sizes"
  from Slab_allocate_ok [OF this] show "(\<exists>v s'. Slab_allocate N s = Some (Ok v, s') \<and> slab_inv B s' \<and> v \<notin> live s N
      \<and> live s' N = insert v (live s N) \<and> (\<forall>M \<in> slab_sizes - {N}. live s' M = live s M))
    \<or> (\<exists>s'. Slab_allocate N s = Some (Err AllocError_OutOfMemory, s') \<and> slab_inv B s'
      \<and> (\<forall>M \<in> slab_sizes. live s' M = live s M))"
    unfolding others_live_def by blast
next
  fix s N v assume "slab_inv B s" "N \<in> slab_sizes" "v \<in> live s N"
  from Slab_deallocate_ok [OF this] show "\<exists>s'. Slab_deallocate N v s = Some s' \<and> slab_inv B s'
      \<and> live s' N = live s N - {v} \<and> (\<forall>M \<in> slab_sizes - {N}. live s' M = live s M)"
    unfolding others_live_def by blast
qed (rule live_objects_disjoint)

end
