(* ===== verification/Slab_Claims.thy ===== *)
theory Slab_Claims
  imports Slab_Objects Heap_Properties
begin

text \<open>
  The global allocator: where objects of the slabs lie, what allocation and deallocation of any
  size do, and the initialisation of the heap and the slabs.
\<close>

section \<open>Reading the heap at an object\<close>

lemma get_pfn_inside:
  assumes r: "root_ok B r" and f: "f < hm_page_count r" and off: "off < PAGE_SIZE"
  shows "get_pfn r (VirtAddr (virt_bits (page_vaddr r f) + of_nat off)) = Some (Ok f)"
proof -
  let ?n = "f * PAGE_SIZE + off" and ?s = "hm_start_virt r"
  note par = root_params [OF r]
  have "f * PAGE_SIZE + PAGE_SIZE \<le> hm_page_count r * PAGE_SIZE"
    using mult_le_mono1 [of "f + 1" "hm_page_count r" PAGE_SIZE] f by simp
  then have lt: "?n < hm_page_count r * PAGE_SIZE" using off by linarith
  have "VirtAddr_ok ?s" "in_half (virt_bits ?s) ?n"
    using par lt by (auto simp: params_ok_def intro: in_half_mono)
  from VirtAddr_add_linear [OF this] obtain v where
    v: "unat (virt_bits v) = unat (virt_bits ?s) + ?n" "?n < 2 ^ 47" "VirtAddr_sub v ?s = Some (of_nat ?n)"
    "v = VirtAddr (virt_bits ?s + of_nat ?n)" by metis
  have "VirtAddr (virt_bits (page_vaddr r f) + of_nat off) = v"
    unfolding v(4) page_vaddr_def by (simp add: add.assoc)
  moreover have "unat (of_nat ?n :: u64) = ?n" using v(2) by (intro unat_of_nat_u64) simp
  moreover have "umul (hm_page_count r) PAGE_SIZE = Some (hm_page_count r * PAGE_SIZE)"
    using page_vaddr(1) [OF par, of "hm_page_count r"] by simp
  moreover have "?n div PAGE_SIZE = f" using off by simp
  moreover have "virt_bits ?s \<le> virt_bits v" using v(1) by (simp add: word_le_nat_alt)
  ultimately show ?thesis using v(3) lt unfolding get_pfn_def get_virt_offset_def by simp
qed

lemma live_frame:
  assumes s: "slab_inv B s" and N: "N \<in> slab_sizes" and v: "v \<in> live s N"
  obtains f where "f < hm_page_count (sm_root s)" and "f \<notin> B"
    and "ah_used (heap_abs (sm_root s)) f = Some (slab_info N)" and "get_pfn (sm_root s) v = Some (Ok f)"
    and "read_page_info (sm_root s) f = Some (slab_info N)"
    and "object_bytes N v \<subseteq> page_bytes (page_vaddr (sm_root s) f)" and "v \<noteq> VirtAddr_null"
proof -
  note Nok = slab_sizes_ok(1) [OF N] and root = slab_invD(5) [OF s N]
  from live_placed [OF s N v] obtain f i p where
    p: "page_at B (sm_root s) N p f" "i < slab_capacity N" "v = slot_addr N p i" "page_addr_ok (sp_vaddr p)" by metis
  have f: "f < hm_page_count (sm_root s)" "f \<notin> B" "ah_used (heap_abs (sm_root s)) f = Some (slab_info N)"
    "sp_vaddr p = page_vaddr (sm_root s) f" using p(1) by (auto simp: page_at_def)
  have "v = VirtAddr (virt_bits (page_vaddr (sm_root s) f) + of_nat (N * i))" using p(3) f(4) by (simp add: slot_addr_def)
  then have "get_pfn (sm_root s) v = Some (Ok f)"
    using get_pfn_inside [OF root f(1) slot_off_le(2) [OF Nok p(2)]] by simp
  moreover have "read_page_info (sm_root s) f = Some (slab_info N)"
    using root f(3) by (auto simp: root_ok_def intro: heap_used_read(2))
  moreover have "object_bytes N v \<subseteq> page_bytes (page_vaddr (sm_root s) f)"
    using object_bytes_slot(1) [OF Nok p(4,2)] p(3) f(4) by simp
  moreover have "v \<noteq> VirtAddr_null"
  proof
    assume "v = VirtAddr_null"
    then have "unat (virt_bits (sp_vaddr p)) = 0"
      using unat_slot_addr [OF Nok p(4,2)] p(3) by (simp add: VirtAddr_null_def)
    then show False using p(4) by (simp add: page_addr_ok_def unat_eq_0)
  qed
  ultimately show thesis using that f by blast
qed

section \<open>The slab of a size\<close>

lemma slab_for_sizes: "slab_for size' = Some N \<Longrightarrow> N \<in> slab_sizes"
  by (auto simp: slab_for_def slab_sizes_def split: option.splits if_splits)

lemma slab_for_le:
  assumes "slab_for size' = Some N" and "size' < 2 ^ 63"
  shows "size' \<le> N"
proof -
  from next_power_of_two [of size'] assms(2) obtain p where
    "checked_next_power_of_two size' = Some (2 ^ p)" "size' \<le> 2 ^ p" by auto
  then show ?thesis using assms(1) by (auto simp: slab_for_def split: if_splits)
qed

lemma get_order_fits:
  assumes "size' < 2 ^ 63"
  shows "size' \<le> 2 ^ get_order size' * PAGE_SIZE"
proof -
  from next_power_of_two [of size'] assms obtain p where
    p: "checked_next_power_of_two size' = Some (2 ^ p)" "size' \<le> 2 ^ p" by auto
  have "(2::nat) ^ p \<le> 2 ^ (p - 12 + 12)" by (intro power_increasing) simp_all
  then show ?thesis using p by (simp add: get_order_def ilog2_exp page_consts power_add)
qed

lemma slab_layout_align: "N \<in> slab_sizes \<Longrightarrow> layout_from_size_align N N = Some (N, N)"
proof -
  have "checked_next_power_of_two (2 ^ k) = Some (2 ^ k)" if "k \<le> 63" for k
  proof -
    have le: "(2::nat) ^ k \<le> 2 ^ 63" using that by (intro power_increasing) simp_all
    from next_power_of_two [OF this] obtain p where
      p: "checked_next_power_of_two (2 ^ k) = Some (2 ^ p)" "(2::nat) ^ k \<le> 2 ^ p" "\<And>q. (2::nat) ^ k \<le> 2 ^ q \<Longrightarrow> p \<le> q" by metis
    have "k \<le> p" using p(2) by simp
    then show ?thesis using p(1) p(3) [of k] by simp
  qed
  from this [of 5] this [of 6] this [of 7] this [of 8] this [of 9] this [of 10] this [of 11]
  show "N \<in> slab_sizes \<Longrightarrow> ?thesis" by (auto simp: slab_sizes_def layout_from_size_align_def)
qed

section \<open>Pages beside the slabs\<close>

text \<open>Allocating or freeing a block that is no slab page changes no slab.\<close>

lemma slab_inv_root:
  assumes s: "slab_inv B s" and r: "heap_inv B r" "hm_start_virt r = hm_start_virt (sm_root s)"
    "hm_page_count r = hm_page_count (sm_root s)"
    and k: "\<And>g N. ah_used (heap_abs (sm_root s)) g = Some (slab_info N) \<Longrightarrow> ah_used (heap_abs r) g = Some (slab_info N)"
  shows "slab_inv B (s\<lparr>sm_root := r\<rparr>)"
proof -
  have "32 \<in> slab_sizes" by (simp add: slab_sizes_def)
  then have root: "root_ok B r" using slab_invD(5) [OF s, of 32] r by (simp add: root_ok_def)
  have "page_at B (sm_root s) N p f \<Longrightarrow> page_at B r N p f" for N p f
    using r(2,3) k [of f N] page_vaddr_cong [OF r(2)] by (simp add: page_at_def)
  then have at: "slab_at B (sm_root s) N c \<Longrightarrow> slab_at B r N c" for N c unfolding slab_at_def by blast
  have "pages_inv B (\<Union>M \<in> slab_sizes. page_objects (sm_slab s M)) (sm_slab s SLAB_PAGE_SIZE, sm_root s)"
    using s by (simp add: slab_inv_def sm_pages_def)
  from pages_inv_root [OF this root at [OF pages_invD(2) [OF this]]] at s show ?thesis
    unfolding slab_inv_def slab_ok_def objects_but_def sm_pages_def by auto
qed

section \<open>Initialisation\<close>

lemma heap_alloc_not_oom:
  assumes "heap_inv B r" and "x \<in> ah_free (heap_abs r)" and "used_page 0 pg"
  shows "allocate_pages_info 0 pg r \<noteq> Some (Err AllocError_OutOfMemory, r)"
proof -
  have "x \<in> free_set (hm_page_count r) (heap_view r)" using assms(2) by (simp add: heap_abs_def)
  then obtain p nx j where "p < hm_page_count r" "heap_view r p = FreeP nx j"
    by (auto elim!: free_setE simp: free_heads_def)
  with heap_alloc_refines [OF assms(1) _ assms(3)] show ?thesis by (auto simp: MAX_ORDER_def)
qed

lemma SlabCommon_init_succeeds:
  assumes r: "root_ok B r" and N: "slot_size_ok N" and x: "x \<in> ah_free (heap_abs r)"
  obtains c p r' where "SlabCommon_init N SlabCommon_new r = Some (Ok c, r')"
    and "fresh_page B N p r r'" and "slab_at B r' N c" and "sc_next c = []"
    and "slab_used N c = {}" and "sc_free c \<noteq> 0"
proof -
  have inv: "heap_inv B r" using r by (simp add: root_ok_def)
  have "SlabCommon_init N SlabCommon_new r \<noteq> Some (Err AllocError_OutOfMemory, r)"
  proof
    assume "SlabCommon_init N SlabCommon_new r = Some (Err AllocError_OutOfMemory, r)"
    then have "allocate_pages_info 0 (slab_info N) r = Some (Err AllocError_OutOfMemory, r)"
      by (auto simp: SlabCommon_init_def SlabPage_init_def bindM_def ret_def slab_info_def SlabCommon_new_def SlabPage_new_def
          VirtAddr_null_def vaddr_is_null_def heap_allocate_slab_page_def split: option.splits result.splits prod.splits)
    then show False using heap_alloc_not_oom [OF inv x used_slab_info [OF N]] by blast
  qed
  then show thesis using SlabCommon_init_ok [OF r N] that by blast
qed

lemma Slab_allocate_succeeds:
  assumes s: "slab_inv B s" and N: "N \<in> slab_sizes" and new: "sm_slab s N = SlabCommon_new"
    and x: "x \<in> ah_free (heap_abs (sm_root s))"
  obtains v s' where "Slab_allocate N s = Some (Ok v, s')"
proof -
  from SlabCommon_init_succeeds [OF slab_invD(5) [OF s N] slab_sizes_ok(1) [OF N] x] obtain c r' where
    "SlabCommon_init N SlabCommon_new (sm_root s) = Some (Ok c, r')" by metis
  then have "Slab_grow_slab N s = Some (Ok (), (sm_put N c s)\<lparr>sm_root := r'\<rparr>)"
    by (simp add: Slab_grow_slab_def new) (simp add: SlabCommon_new_def)
  then have "Slab_allocate N s \<noteq> Some (Err e, s')" for e s'
    by (auto simp: Slab_allocate_def bindM_def split: Option.bind_splits)
  then show thesis using Slab_allocate_ok [OF s N] that by blast
qed

lemma root_mem_init_ok:
  assumes r: "fresh_heap ((sm_root s)\<lparr>hm_start_phys := ps, hm_start_virt := vs, hm_page_count := n\<rparr>)"
    and n: "al + meta_pages n < n" "n + 1 < 2 ^ 24" and vs: "virt_bits vs \<noteq> 0"
    and new: "sm_slab s = (\<lambda>_. SlabCommon_new)"
  obtains s' where "root_mem_init ps vs n al s = Some s'" and "slab_inv {..<al} s'"
    and "\<And>N. N \<in> slab_sizes \<Longrightarrow> sm_slab s' N = SlabCommon_new"
    and "\<exists>f. ah_free (heap_abs (sm_root s')) = {al ..< n - meta_pages n} - {f}"
proof -
  let ?r = "(sm_root s)\<lparr>hm_start_phys := ps, hm_start_virt := vs, hm_page_count := n\<rparr>"
  have al: "al + meta_pages (hm_page_count ?r) \<le> hm_page_count ?r" using n(1) by simp
  obtain r' V' L' where r': "init_memory al ?r = Some r'" "heap_rep {..<al} V' {} L' r'"
    "freed n (boot_view (n - meta_pages n)) {al ..< n - meta_pages n} V'" "hm_start_virt r' = vs" "hm_page_count r' = n"
    using init_memory_run [OF r al refl] by auto
  have root: "root_ok {..<al} r'" using heap_inv_rep [OF r'(2)] r'(4,5) n(2) vs by (simp add: root_ok_def)
  have "al \<in> ah_free (heap_abs r')" using heap_abs_rep [OF r'(2)] r'(3,5) n(1) by (simp add: freed_def)
  from SlabCommon_init_succeeds [OF root slot_size_SLAB_PAGE this] obtain c p r2 where
    c: "SlabCommon_init SLAB_PAGE_SIZE SlabCommon_new r' = Some (Ok c, r2)" "fresh_page {..<al} SLAB_PAGE_SIZE p r' r2"
    "slab_at {..<al} r2 SLAB_PAGE_SIZE c" "sc_next c = []" "slab_used SLAB_PAGE_SIZE c = {}" "sc_free c \<noteq> 0" .
  let ?s = "(sm_put SLAB_PAGE_SIZE c s)\<lparr>sm_root := r2\<rparr>"
  have sl: "sm_slab ?s N = SlabCommon_new" if "N \<in> slab_sizes" for N
    using slab_sizes_ok(2) [OF that] new by (simp add: sm_put_def)
  have "slab_inv {..<al} ?s"
    using c(3-6) fresh_page_kept(2) [OF c(2)] sl
    by (auto simp: slab_inv_def pages_inv_def sm_pages_def sm_put_def slab_ok_def SlabCommon_new_def page_objects_def)
  moreover have "root_mem_init ps vs n al s = Some ?s"
    using r'(1) c(1) new by (simp add: root_mem_init_def)
  moreover have "\<exists>f. ah_free (heap_abs (sm_root ?s)) = {al ..< n - meta_pages n} - {f}"
    using c(2) heap_abs_rep [OF r'(2)] r'(3,5) by (auto simp: fresh_page_def abs_alloc_def freed_def block_of_def)
  ultimately show thesis using sl by (intro that [of ?s])
qed

text \<open>A small system: the heap of 66 pages with its slabs just initialised.\<close>

definition demo_boot :: slab_mem where
  "demo_boot = \<lparr> sm_root = HeapMemoryRegion_new (\<lambda>_. 0), sm_slab = (\<lambda>_. SlabCommon_new) \<rparr>"

definition demo_slabs :: slab_mem where
  "demo_slabs = (case root_mem_init PhysAddr_null (VirtAddr 0xffffff8000000000) 66 1 demo_boot of
     Some s \<Rightarrow> s | None \<Rightarrow> demo_boot)"

lemma demo_slabs:
  "slab_inv {0} demo_slabs" "N \<in> slab_sizes \<Longrightarrow> sm_slab demo_slabs N = SlabCommon_new"
  "\<exists>x. x \<in> ah_free (heap_abs (sm_root demo_slabs))"
proof -
  have r: "(sm_root demo_boot)\<lparr>hm_start_phys := PhysAddr_null, hm_start_virt := VirtAddr 0xffffff8000000000, hm_page_count := 66\<rparr>
      = demo_region"
    by (simp add: demo_boot_def demo_region_def HeapMemoryRegion_new_def)
  have one: "{..<1} = {0 :: nat}" by auto
  have "fresh_heap ((sm_root demo_boot)\<lparr>hm_start_phys := PhysAddr_null, hm_start_virt := VirtAddr 0xffffff8000000000,
      hm_page_count := 66\<rparr>)" unfolding r by (rule demo_region(1))
  moreover have "1 + meta_pages 66 < 66" "(66::nat) + 1 < 2 ^ 24" "virt_bits (VirtAddr 0xffffff8000000000) \<noteq> 0"
    "sm_slab demo_boot = (\<lambda>_. SlabCommon_new)" by (simp_all add: demo_region(3) demo_boot_def)
  ultimately obtain s' where s': "root_mem_init PhysAddr_null (VirtAddr 0xffffff8000000000) 66 1 demo_boot = Some s'"
    "slab_inv {..<1} s'" "\<And>N. N \<in> slab_sizes \<Longrightarrow> sm_slab s' N = SlabCommon_new"
    "\<exists>f. ah_free (heap_abs (sm_root s')) = {1 ..< 66 - meta_pages 66} - {f}"
    using root_mem_init_ok by blast
  have d: "demo_slabs = s'" using s'(1) by (simp add: demo_slabs_def)
  show "slab_inv {0} demo_slabs" "N \<in> slab_sizes \<Longrightarrow> sm_slab demo_slabs N = SlabCommon_new"
    using s'(2,3) unfolding d one by blast+
  from s'(4) obtain f where "ah_free (heap_abs (sm_root s')) = {1 ..< 65} - {f}" by (auto simp: demo_region(3))
  then have "(if f = 1 then 2 else 1) \<in> ah_free (heap_abs (sm_root s'))" by auto
  then show "\<exists>x. x \<in> ah_free (heap_abs (sm_root demo_slabs))" unfolding d by blast
qed

text \<open>The small system with one live object of 64 bytes.\<close>

definition demo_object :: "VirtAddr \<times> slab_mem" where
  "demo_object = (case Slab_allocate 64 demo_slabs of Some (Ok v, s) \<Rightarrow> (v, s) | _ \<Rightarrow> (VirtAddr_null, demo_slabs))"

lemma demo_object:
  "slab_inv {0} (snd demo_object)" "fst demo_object \<in> live (snd demo_object) 64"
proof -
  have N: "64 \<in> slab_sizes" by (simp add: slab_sizes_def)
  from demo_slabs(3) obtain x where x: "x \<in> ah_free (heap_abs (sm_root demo_slabs))" ..
  from Slab_allocate_succeeds [OF demo_slabs(1) N demo_slabs(2) [OF N] x] obtain v s' where
    v: "Slab_allocate 64 demo_slabs = Some (Ok v, s')" .
  then have d: "demo_object = (v, s')" by (simp add: demo_object_def)
  from Slab_allocate_ok [OF demo_slabs(1) N] v have "slab_inv {0} s'" "v \<in> live s' 64" by auto
  then show "slab_inv {0} (snd demo_object)" "fst demo_object \<in> live (snd demo_object) 64"
    unfolding d by simp_all
qed

lemma slab_for_50: "slab_for 50 = Some 64"
proof -
  have "ilog2 49 = 5" by (simp add: ilog2.simps)
  then show ?thesis by (simp add: slab_for_def checked_next_power_of_two_def usize_max_eq)
qed

section \<open>Properties\<close>

text \<open>
  C10. Live objects of all slabs are separate: each lies in one page frame of the heap, a frame
  allocated as a slab page of the object's size, the bytes of two different live objects never
  overlap, and \<open>layout_from_ptr\<close> on the address of an object returns its size and alignment.
\<close>

theorem slab_objects_separate:
  assumes "slab_inv B s" and "N \<in> slab_sizes" and "a \<in> live s N"
  shows "(\<exists>f. f \<notin> B \<and> ah_used (heap_abs (sm_root s)) f = Some (PageInfo_Slab (SlabPageInfo (of_nat N)))
        \<and> object_bytes N a \<subseteq> page_bytes (page_vaddr (sm_root s) f))
    \<and> (\<forall>M b. M \<in> slab_sizes \<and> b \<in> live s M \<and> (N, a) \<noteq> (M, b) \<longrightarrow> object_bytes N a \<inter> object_bytes M b = {})
    \<and> layout_from_ptr a s = Some (Some (N, N))"
proof -
  from live_frame [OF assms] obtain f where
    f: "f \<notin> B" "ah_used (heap_abs (sm_root s)) f = Some (slab_info N)" "get_pfn (sm_root s) a = Some (Ok f)"
    "read_page_info (sm_root s) f = Some (slab_info N)" "object_bytes N a \<subseteq> page_bytes (page_vaddr (sm_root s) f)" by metis
  have "unat (of_nat N :: u64) = N" using slab_sizes_ok(1) [OF assms(2)] by (intro unat_of_nat_u64) (simp add: slot_size_ok_def)
  then have "layout_from_ptr a s = Some (Some (N, N))"
    using f(3,4) slab_layout_align [OF assms(2)] by (simp add: layout_from_ptr_def slab_info_def)
  then show ?thesis
    using f slabs.live_disjoint [OF assms(1,2) _ assms(3)] unfolding slab_info_def by blast
qed

theorem slab_objects_separate_witness:
  "slab_inv {0} (snd demo_object) \<and> (64::nat) \<in> slab_sizes \<and> fst demo_object \<in> live (snd demo_object) 64
   \<and> layout_from_ptr (fst demo_object) (snd demo_object) = Some (Some (64, 64))"
proof -
  have N: "(64::nat) \<in> slab_sizes" by (simp add: slab_sizes_def)
  from slab_objects_separate [OF demo_object(1) N demo_object(2)] N demo_object show ?thesis by blast
qed

text \<open>
  C11. The global allocator returns for every size without panicking.  It returns null, changing no
  live object, or for a size of up to 2048 bytes a slot of the smallest slab size that holds it
  which was not live before, and for larger sizes the address of a block of free pages large
  enough.  All other objects stay live and the invariant holds afterwards.
\<close>

theorem global_alloc_spec:
  assumes s: "slab_inv B s" and size: "size' < 2 ^ 63"
  shows "\<exists>v s'. GlobalAlloc_alloc size' s = Some (v, s') \<and> slab_inv B s' \<and>
    (if v = VirtAddr_null then (\<forall>M \<in> slab_sizes. live s' M = live s M)
     else case slab_for size' of
       Some N \<Rightarrow> N \<in> slab_sizes \<and> size' \<le> N \<and> v \<notin> live s N \<and> live s' N = insert v (live s N)
         \<and> (\<forall>M \<in> slab_sizes - {N}. live s' M = live s M)
     | None \<Rightarrow> sm_slab s' = sm_slab s \<and> size' \<le> 2 ^ get_order size' * PAGE_SIZE
         \<and> (\<exists>f. v = page_vaddr (sm_root s) f \<and> abs_alloc (get_order size') (AllocP (get_order size')) f
              (heap_abs (sm_root s)) (heap_abs (sm_root s'))))"
proof (cases "slab_for size'")
  case (Some N)
  note N = slab_for_sizes [OF Some]
  from Slab_allocate_ok [OF s N] show ?thesis
  proof (elim disjE exE conjE)
    fix v s' assume v: "Slab_allocate N s = Some (Ok v, s')" "slab_inv B s'" "v \<notin> live s N"
      "live s' N = insert v (live s N)" "others_live N s s'"
    then have "v \<in> live s' N" by simp
    then have "v \<noteq> VirtAddr_null" using live_frame [OF v(2) N] by metis
    then show ?thesis using v N slab_for_le [OF Some size] Some
      by (simp add: GlobalAlloc_alloc_def SvsmAllocator_allocate_def others_live_def)
  next
    fix s' assume "Slab_allocate N s = Some (Err AllocError_OutOfMemory, s')" "slab_inv B s'"
      "\<forall>M \<in> slab_sizes. live s' M = live s M"
    then show ?thesis using Some by (simp add: GlobalAlloc_alloc_def SvsmAllocator_allocate_def)
  qed
next
  case None
  let ?o = "get_order size'" and ?r = "sm_root s"
  have root: "root_ok B ?r" using slab_invD(5) [OF s, of 32] by (simp add: slab_sizes_def)
  then have inv: "heap_inv B ?r" by (simp add: root_ok_def)
  show ?thesis
  proof (cases "?o < MAX_ORDER")
    case False
    then show ?thesis using None s
      by (simp add: GlobalAlloc_alloc_def SvsmAllocator_allocate_def)
  next
    case True
    then have "used_page ?o (AllocP ?o)" by (simp add: MAX_ORDER_def)
    from heap_alloc_refines [OF inv True this] show ?thesis
    proof (elim disjE exE conjE)
      fix f r' assume f: "allocate_pages_info ?o (AllocP ?o) ?r = Some (Ok (page_vaddr ?r f), r')" "heap_inv B r'"
        "f < hm_page_count ?r" "abs_alloc ?o (AllocP ?o) f (heap_abs ?r) (heap_abs r')"
        "hm_start_virt r' = hm_start_virt ?r" "hm_page_count r' = hm_page_count ?r"
      have "slab_inv B (s\<lparr>sm_root := r'\<rparr>)"
        by (rule slab_inv_root [OF s f(2,5,6)]) (use f(4) in \<open>auto simp: abs_alloc_def\<close>)
      moreover have "page_vaddr ?r f \<noteq> VirtAddr_null"
        using frame_addr(1) [OF root f(3)] by (auto simp: page_addr_ok_def VirtAddr_null_def)
      ultimately show ?thesis using f(1,4) True None get_order_fits [OF size]
        by (auto simp: GlobalAlloc_alloc_def SvsmAllocator_allocate_def heap_allocate_pages_def)
    next
      assume "allocate_pages_info ?o (AllocP ?o) ?r = Some (Err AllocError_OutOfMemory, ?r)"
      then show ?thesis using True None s
        by (simp add: GlobalAlloc_alloc_def SvsmAllocator_allocate_def heap_allocate_pages_def)
    qed
  qed
qed

theorem global_alloc_spec_witness:
  "slab_inv {0} demo_slabs \<and> slab_for 50 = Some 64
   \<and> (\<exists>v s'. GlobalAlloc_alloc 50 demo_slabs = Some (v, s') \<and> slab_inv {0} s'
        \<and> (v = VirtAddr_null \<or> live s' 64 = insert v (live demo_slabs 64)))"
proof -
  have "(50::nat) < 2 ^ 63" by simp
  from global_alloc_spec [OF demo_slabs(1) this] slab_for_50 demo_slabs(1) show ?thesis by (auto split: if_splits)
qed

text \<open>
  C12. Deallocating a live object through the global allocator terminates without panicking, also
  where it unlinks slab pages and the slab of slab pages shrinks in turn: afterwards exactly this
  object is no longer live, and the heap keeps every allocation that is no page of this slab or
  of the slab of slab pages.
\<close>

theorem global_dealloc_spec:
  assumes s: "slab_inv B s" and N: "slab_for size' = Some N" and v: "v \<in> live s N"
  shows "\<exists>s'. GlobalAlloc_dealloc v size' s = Some s' \<and> slab_inv B s' \<and> live s' N = live s N - {v}
    \<and> (\<forall>M \<in> slab_sizes - {N}. live s' M = live s M)
    \<and> (\<forall>g i. ah_used (heap_abs (sm_root s)) g = Some i \<and> i \<noteq> slab_info N \<and> i \<noteq> slab_info SLAB_PAGE_SIZE
          \<longrightarrow> ah_used (heap_abs (sm_root s')) g = Some i)"
proof -
  note Ns = slab_for_sizes [OF N]
  from live_frame [OF s Ns v] obtain f where
    f: "get_pfn (sm_root s) v = Some (Ok f)" "read_page_info (sm_root s) f = Some (slab_info N)" "v \<noteq> VirtAddr_null" by metis
  have "\<not> vaddr_is_null v" using f(3) by (cases v) (simp add: vaddr_is_null_def VirtAddr_null_def)
  then have "GlobalAlloc_dealloc v size' s = Slab_deallocate N v s"
    using f(1,2) N by (simp add: GlobalAlloc_dealloc_def slab_info_def SvsmAllocator_deallocate_def)
  with Slab_deallocate_ok [OF s Ns v] show ?thesis by (auto simp: others_live_def others_kept_def)
qed

theorem global_dealloc_spec_witness:
  "slab_inv {0} (snd demo_object) \<and> slab_for 50 = Some 64 \<and> fst demo_object \<in> live (snd demo_object) 64
   \<and> (\<exists>s'. GlobalAlloc_dealloc (fst demo_object) 50 (snd demo_object) = Some s'
        \<and> live s' 64 = live (snd demo_object) 64 - {fst demo_object})"
  using global_dealloc_spec [OF demo_object(1) slab_for_50 demo_object(2)] demo_object slab_for_50 by blast

end
