(* ===== verification/Ram_File.thy ===== *)
theory Ram_File
  imports Heap_Properties Svsm_Error
begin

text \<open>
  Reference-counted file pages (\<open>PageRef\<close> of \<open>kernel/src/mm/alloc.rs\<close>), buffers
  (\<open>kernel/src/fs/buffer.rs\<close>) and the files of the RAM file system (\<open>RawRamFile\<close> of
  \<open>kernel/src/fs/ramfs.rs\<close>).

  \<open>page_mem\<close> holds the page allocator and the bytes of memory at their virtual addresses.  The
  parameter \<open>V\<close> is the translation of the active page table, which \<open>virt_to_phys\<close> reads; it
  panics where there is no mapping.
\<close>

section \<open>Memory\<close>

record page_mem =
  pm_root :: HeapMemoryRegion
  pm_bytes :: "nat \<Rightarrow> u8"

type_synonym translation = "VirtAddr \<Rightarrow> PhysAddr option"

definition mem_read :: "(nat \<Rightarrow> u8) \<Rightarrow> nat \<Rightarrow> nat \<Rightarrow> u8 list" where
  "mem_read mem a n = map mem [a ..< a + n]"

definition mem_write :: "(nat \<Rightarrow> u8) \<Rightarrow> nat \<Rightarrow> u8 list \<Rightarrow> nat \<Rightarrow> u8" where
  "mem_write mem a bs = (\<lambda>x. if a \<le> x \<and> x < a + length bs then bs ! (x - a) else mem x)"

definition pm_write :: "VirtAddr \<Rightarrow> u8 list \<Rightarrow> page_mem \<Rightarrow> page_mem" where
  "pm_write dst bs m = m\<lparr>pm_bytes := mem_write (pm_bytes m) (unat (virt_bits dst)) bs\<rparr>"

definition pm_read :: "VirtAddr \<Rightarrow> nat \<Rightarrow> page_mem \<Rightarrow> u8 list" where
  "pm_read src n m = mem_read (pm_bytes m) (unat (virt_bits src)) n"

definition zero_mem_region :: "VirtAddr \<Rightarrow> VirtAddr \<Rightarrow> page_mem \<Rightarrow> page_mem option" where
  "zero_mem_region start end' m =
     (if virt_bits start = 0 then None
      else do {
        count \<leftarrow> VirtAddr_checked_sub end' (virt_bits start);
        Some (pm_write start (replicate (unat (virt_bits count)) 0) m)
      })"

text \<open>A call of the page allocator; its errors are wrapped in \<open>SvsmError\<close>.\<close>

definition on_root :: "(HeapMemoryRegion, 'a, AllocError) svsm \<Rightarrow> (page_mem, 'a, SvsmError) svsm" where
  "on_root f m = do {
     (r, root) \<leftarrow> f (pm_root m);
     let m' = m\<lparr>pm_root := root\<rparr>;
     Some (case r of Ok x \<Rightarrow> (Ok x, m') | Err e \<Rightarrow> (Err (SvsmError_Alloc e), m'))
   }"

definition allocate_file_page :: "(page_mem, VirtAddr, SvsmError) svsm" where
  "allocate_file_page = bindM (on_root heap_allocate_file_page) (\<lambda>vaddr m. do {
     end' \<leftarrow> VirtAddr_add vaddr PAGE_SIZE_W;
     m \<leftarrow> zero_mem_region vaddr end' m;
     Some (Ok vaddr, m)
   })"

definition get_file_page :: "VirtAddr \<Rightarrow> (page_mem, unit, SvsmError) svsm" where
  "get_file_page vaddr = on_root (heap_get_file_page vaddr)"

definition put_file_page :: "VirtAddr \<Rightarrow> (page_mem, unit, SvsmError) svsm" where
  "put_file_page vaddr = on_root (heap_put_file_page vaddr)"

section \<open>Buffers\<close>

datatype Buffer = SliceMutRefBuffer "u8 list" | SliceRefBuffer "u8 list"

fun Buffer_slice :: "Buffer \<Rightarrow> u8 list" where
  "Buffer_slice (SliceMutRefBuffer sl) = sl"
| "Buffer_slice (SliceRefBuffer sl) = sl"

definition Buffer_size :: "Buffer \<Rightarrow> nat" where
  "Buffer_size self = length (Buffer_slice self)"

text \<open>\<open>read_buffer\<close> into a slice of length \<open>len\<close>: the bytes that replace the front of the slice.\<close>

definition Buffer_read_buffer :: "Buffer \<Rightarrow> nat \<Rightarrow> nat \<Rightarrow> (u8 list, SvsmError) result option" where
  "Buffer_read_buffer self len offset = do {
     rest \<leftarrow> usub (Buffer_size self) offset;
     let size' = min len rest;
     Some (Ok (take size' (drop offset (Buffer_slice self))))
   }"

fun Buffer_write_buffer :: "u8 list \<Rightarrow> nat \<Rightarrow> Buffer \<Rightarrow> ((nat, SvsmError) result \<times> Buffer) option" where
  "Buffer_write_buffer buf offset (SliceMutRefBuffer sl) = do {
     rest \<leftarrow> usub (length sl) offset;
     let size' = min (length buf) rest;
     Some (Ok size', SliceMutRefBuffer (take offset sl @ take size' buf @ drop (offset + size') sl))
   }"
| "Buffer_write_buffer buf offset (SliceRefBuffer sl) =
     Some (Err (SvsmError_FileSystem FsError_NotSupported), SliceRefBuffer sl)"

section \<open>Page references\<close>

record PageRef =
  pr_virt_addr :: VirtAddr
  pr_phys_addr :: PhysAddr

definition PageRef_new :: "translation \<Rightarrow> (page_mem, PageRef, SvsmError) svsm" where
  "PageRef_new V = bindM allocate_file_page (\<lambda>virt_addr m. do {
     phys_addr \<leftarrow> V virt_addr;
     Some (Ok \<lparr> pr_virt_addr = virt_addr, pr_phys_addr = phys_addr \<rparr>, m)
   })"

definition PageRef_try_copy_page :: "translation \<Rightarrow> PageRef \<Rightarrow> (page_mem, PageRef, SvsmError) svsm" where
  "PageRef_try_copy_page V self = bindM allocate_file_page (\<lambda>virt_addr m. do {
     let m = pm_write virt_addr (pm_read (pr_virt_addr self) PAGE_SIZE m) m;
     phys_addr \<leftarrow> V virt_addr;
     Some (Ok \<lparr> pr_virt_addr = virt_addr, pr_phys_addr = phys_addr \<rparr>, m)
   })"

definition PageRef_write :: "PageRef \<Rightarrow> nat \<Rightarrow> u8 list \<Rightarrow> page_mem \<Rightarrow> page_mem option" where
  "PageRef_write self offset buf m = do {
     end' \<leftarrow> uadd offset (length buf);
     if end' \<le> PAGE_SIZE then do {
       dst \<leftarrow> VirtAddr_add (pr_virt_addr self) (of_nat offset);
       Some (pm_write dst buf m)
     }
     else None
   }"

definition PageRef_read :: "PageRef \<Rightarrow> nat \<Rightarrow> nat \<Rightarrow> page_mem \<Rightarrow> u8 list option" where
  "PageRef_read self offset len m = do {
     end' \<leftarrow> uadd offset len;
     if end' \<le> PAGE_SIZE then do {
       src \<leftarrow> VirtAddr_add (pr_virt_addr self) (of_nat offset);
       Some (pm_read src len m)
     }
     else None
   }"

definition PageRef_copy_from_buffer ::
  "PageRef \<Rightarrow> Buffer \<Rightarrow> nat \<Rightarrow> nat \<Rightarrow> nat \<Rightarrow> (page_mem, nat, SvsmError) svsm" where
  "PageRef_copy_from_buffer self buffer buffer_offset page_off size' m = do {
     page_end \<leftarrow> uadd page_off size';
     buffer_end \<leftarrow> uadd buffer_offset size';
     if page_end \<le> PAGE_SIZE \<and> buffer_end \<le> Buffer_size buffer then do {
       let safe_size = min (PAGE_SIZE - page_off) size';
       dst \<leftarrow> VirtAddr_const_add (pr_virt_addr self) (of_nat page_off);
       r \<leftarrow> Buffer_read_buffer buffer safe_size buffer_offset;
       Some (case r of Ok bs \<Rightarrow> (Ok (length bs), pm_write dst bs m) | Err e \<Rightarrow> (Err e, m))
     }
     else None
   }"

definition PageRef_copy_to_buffer ::
  "PageRef \<Rightarrow> page_mem \<Rightarrow> nat \<Rightarrow> nat \<Rightarrow> nat \<Rightarrow> (Buffer, nat, SvsmError) svsm" where
  "PageRef_copy_to_buffer self m buffer_offset page_off size' buffer = do {
     page_end \<leftarrow> uadd page_off size';
     buffer_end \<leftarrow> uadd buffer_offset size';
     if page_end \<le> PAGE_SIZE \<and> buffer_end \<le> Buffer_size buffer then do {
       let safe_size = min (PAGE_SIZE - page_off) size';
       src \<leftarrow> VirtAddr_const_add (pr_virt_addr self) (of_nat page_off);
       Buffer_write_buffer (pm_read src safe_size m) buffer_offset buffer
     }
     else None
   }"

definition PageRef_fill :: "PageRef \<Rightarrow> nat \<Rightarrow> u8 \<Rightarrow> page_mem \<Rightarrow> page_mem option" where
  "PageRef_fill self offset val m = do {
     size' \<leftarrow> usub PAGE_SIZE offset;
     dst \<leftarrow> VirtAddr_add (pr_virt_addr self) (of_nat offset);
     Some (pm_write dst (replicate size' val) m)
   }"

text \<open>The \<open>expect\<close> of a result panics on an error.\<close>

definition expectM :: "('s, 'a, 'e) svsm \<Rightarrow> 's \<Rightarrow> ('a \<times> 's) option" where
  "expectM f s = do { (r, s) \<leftarrow> f s; case r of Ok x \<Rightarrow> Some (x, s) | Err _ \<Rightarrow> None }"

definition PageRef_clone :: "PageRef \<Rightarrow> page_mem \<Rightarrow> (PageRef \<times> page_mem) option" where
  "PageRef_clone self m = do {
     (_, m) \<leftarrow> expectM (get_file_page (pr_virt_addr self)) m;
     Some (self, m)
   }"

definition PageRef_drop :: "PageRef \<Rightarrow> page_mem \<Rightarrow> page_mem option" where
  "PageRef_drop self m = do {
     (_, m) \<leftarrow> expectM (put_file_page (pr_virt_addr self)) m;
     Some m
   }"

section \<open>Files\<close>

record RawRamFile =
  rf_capacity :: nat
  rf_size :: nat
  rf_pages :: "PageRef list"

type_synonym file_state = "RawRamFile \<times> page_mem"

definition RawRamFile_new :: RawRamFile where
  "RawRamFile_new = \<lparr> rf_capacity = 0, rf_size = 0, rf_pages = [] \<rparr>"

definition increase_capacity :: "translation \<Rightarrow> (file_state, unit, SvsmError) svsm" where
  "increase_capacity V = (\<lambda>(self, m). do {
     (r, m) \<leftarrow> PageRef_new V m;
     case r of
       Err e \<Rightarrow> Some (Err e, (self, m))
     | Ok page_ref \<Rightarrow> do {
         capacity \<leftarrow> uadd (rf_capacity self) PAGE_SIZE;
         Some (Ok (), (self\<lparr>rf_pages := rf_pages self @ [page_ref], rf_capacity := capacity\<rparr>, m))
       }
   })"

partial_function (option) set_capacity_loop ::
  "translation \<Rightarrow> nat \<Rightarrow> file_state \<Rightarrow> ((unit, SvsmError) result \<times> file_state) option" where
  "set_capacity_loop V cap s =
     (if cap > rf_capacity (fst s) then do {
        (r, s) \<leftarrow> increase_capacity V s;
        case r of Ok _ \<Rightarrow> set_capacity_loop V cap s | Err e \<Rightarrow> Some (Err e, s)
      }
      else Some (Ok (), s))"

definition set_capacity :: "translation \<Rightarrow> nat \<Rightarrow> (file_state, unit, SvsmError) svsm" where
  "set_capacity V capacity s = do {
     cap \<leftarrow> page_align_up (of_nat capacity);
     set_capacity_loop V (unat cap) s
   }"

definition read_buffer_from_page :: "file_state \<Rightarrow> nat \<Rightarrow> nat \<Rightarrow> (Buffer, nat, SvsmError) svsm" where
  "read_buffer_from_page = (\<lambda>(self, m) buffer_offset file_offset buffer.
     let page_off = unat (page_offset (of_nat file_offset));
         page_index = file_offset div PAGE_SIZE
     in if page_index \<ge> length (rf_pages self) then Some (Ok 0, buffer)
        else do {
          rest \<leftarrow> usub (Buffer_size buffer) buffer_offset;
          page_rest \<leftarrow> usub PAGE_SIZE page_off;
          file_rest \<leftarrow> usub (rf_size self) file_offset;
          PageRef_copy_to_buffer (rf_pages self ! page_index) m buffer_offset page_off
            (min file_rest (min rest page_rest)) buffer
        })"

definition write_buffer_to_page :: "Buffer \<Rightarrow> nat \<Rightarrow> nat \<Rightarrow> RawRamFile \<Rightarrow> (page_mem, nat, SvsmError) svsm" where
  "write_buffer_to_page buffer buffer_offset file_offset self m =
     (let page_off = unat (page_offset (of_nat file_offset));
          page_index = file_offset div PAGE_SIZE
      in do {
        rest \<leftarrow> usub (Buffer_size buffer) buffer_offset;
        page_rest \<leftarrow> usub PAGE_SIZE page_off;
        page \<leftarrow> idx (rf_pages self) page_index;
        PageRef_copy_from_buffer page buffer buffer_offset page_off (min rest page_rest) m
      })"

partial_function (option) read_buffer_loop ::
  "file_state \<Rightarrow> nat \<Rightarrow> nat \<Rightarrow> nat \<Rightarrow> Buffer \<Rightarrow> ((nat, SvsmError) result \<times> Buffer) option" where
  "read_buffer_loop s current len buffer_offset buffer =
     (if len > 0 then do {
        (r, buffer) \<leftarrow> read_buffer_from_page s buffer_offset current buffer;
        case r of
          Err e \<Rightarrow> Some (Err e, buffer)
        | Ok read \<Rightarrow> do {
            current \<leftarrow> uadd current read;
            buffer_offset \<leftarrow> uadd buffer_offset read;
            len \<leftarrow> usub len read;
            if current = rf_size (fst s) then Some (Ok buffer_offset, buffer)
            else read_buffer_loop s current len buffer_offset buffer
          }
      }
      else Some (Ok buffer_offset, buffer))"

definition RawRamFile_read_buffer :: "file_state \<Rightarrow> nat \<Rightarrow> (Buffer, nat, SvsmError) svsm" where
  "RawRamFile_read_buffer s file_offset buffer =
     read_buffer_loop s (min file_offset (rf_size (fst s))) (Buffer_size buffer) 0 buffer"

text \<open>Reading into a slice: the slice afterwards.\<close>

definition RawRamFile_read :: "file_state \<Rightarrow> u8 list \<Rightarrow> nat \<Rightarrow> ((nat, SvsmError) result \<times> u8 list) option" where
  "RawRamFile_read s buf file_offset =
     map_option (\<lambda>(r, b). (r, Buffer_slice b)) (RawRamFile_read_buffer s file_offset (SliceMutRefBuffer buf))"

partial_function (option) write_buffer_loop ::
  "Buffer \<Rightarrow> nat \<Rightarrow> nat \<Rightarrow> nat \<Rightarrow> file_state \<Rightarrow> ((nat, SvsmError) result \<times> file_state) option" where
  "write_buffer_loop buffer current len buffer_offset s =
     (if len > 0 then do {
        (r, m) \<leftarrow> write_buffer_to_page buffer buffer_offset current (fst s) (snd s);
        case r of
          Err e \<Rightarrow> Some (Err e, (fst s, m))
        | Ok written \<Rightarrow> do {
            current \<leftarrow> uadd current written;
            buffer_offset \<leftarrow> uadd buffer_offset written;
            len \<leftarrow> usub len written;
            write_buffer_loop buffer current len buffer_offset
              ((fst s)\<lparr>rf_size := max (rf_size (fst s)) current\<rparr>, m)
          }
      }
      else Some (Ok buffer_offset, s))"

definition RawRamFile_write_buffer :: "translation \<Rightarrow> Buffer \<Rightarrow> nat \<Rightarrow> (file_state, nat, SvsmError) svsm" where
  "RawRamFile_write_buffer V buffer file_offset s =
     (let len = Buffer_size buffer in
      case uadd file_offset len of
        None \<Rightarrow> Some (Err (SvsmError_FileSystem FsError_Inval), s)
      | Some capacity \<Rightarrow>
          bindM (set_capacity V capacity) (\<lambda>_. write_buffer_loop buffer file_offset len 0) s)"

definition RawRamFile_write :: "translation \<Rightarrow> u8 list \<Rightarrow> nat \<Rightarrow> (file_state, nat, SvsmError) svsm" where
  "RawRamFile_write V buf file_offset = RawRamFile_write_buffer V (SliceRefBuffer buf) file_offset"

definition RawRamFile_truncate :: "nat \<Rightarrow> (file_state, nat, SvsmError) svsm" where
  "RawRamFile_truncate size' = (\<lambda>(self, m).
     if size' > rf_size self then Some (Err (SvsmError_FileSystem FsError_Inval), (self, m))
     else do {
       let offset = unat (page_offset (of_nat size'));
       let base_pages = size' div PAGE_SIZE;
       let new_pages = (if offset > 0 then base_pages + 1 else base_pages);
       m \<leftarrow> (if new_pages \<le> length (rf_pages self)
             then forO (drop new_pages (rf_pages self)) (\<lambda>page_ref m. do {
               m \<leftarrow> PageRef_fill page_ref 0 0 m;
               PageRef_drop page_ref m
             }) m
             else None);
       capacity \<leftarrow> umul new_pages PAGE_SIZE;
       let self = self\<lparr>rf_pages := take new_pages (rf_pages self), rf_capacity := capacity, rf_size := size'\<rparr>;
       m \<leftarrow> (if offset > 0 then
               (if rf_pages self = [] then None else PageRef_fill (last (rf_pages self)) offset 0 m)
             else Some m);
       Some (Ok size', (self, m))
     })"

definition RawRamFile_mapping :: "nat \<Rightarrow> file_state \<Rightarrow> (PageRef option \<times> page_mem) option" where
  "RawRamFile_mapping offset = (\<lambda>(self, m).
     if offset > rf_size self then Some (None, m)
     else if drop_bit PAGE_SHIFT offset < length (rf_pages self) then do {
       (p, m) \<leftarrow> PageRef_clone (rf_pages self ! drop_bit PAGE_SHIFT offset) m;
       Some (Some p, m)
     }
     else Some (None, m))"

end
