(* ===== verification/Fs_Model.thy ===== *)
theory Fs_Model
  imports Ram_File
begin

text \<open>
  The RAM file system: directories (\<open>kernel/src/fs/ramfs.rs\<close>), file handles, path walking and the
  file system operations (\<open>kernel/src/fs/filesystem.rs\<close>) and the file system objects of system
  calls (\<open>kernel/src/fs/obj.rs\<close>).

  Files and directories are shared through \<open>Arc\<close>; here they live in a store under numbers, and an
  \<open>Arc\<close> is such a number.  An object stays in the store when its last reference is dropped.  Locks
  are taken and released within each operation.
\<close>

section \<open>Directories\<close>

type_synonym FileName = string

datatype DirEntry = DirEntry_File nat | DirEntry_Directory nat

fun DirEntry_is_file :: "DirEntry \<Rightarrow> bool" where
  "DirEntry_is_file (DirEntry_File f) = True"
| "DirEntry_is_file (DirEntry_Directory d) = False"

definition DirEntry_is_dir :: "DirEntry \<Rightarrow> bool" where
  "DirEntry_is_dir self \<longleftrightarrow> \<not> DirEntry_is_file self"

record DirectoryEntry =
  de_name :: FileName
  de_entry :: DirEntry

record RawRamDirectory =
  rd_entries :: "DirectoryEntry list"
  rd_remove_in_progress :: bool

definition RawRamDirectory_new :: RawRamDirectory where
  "RawRamDirectory_new = \<lparr> rd_entries = [], rd_remove_in_progress = False \<rparr>"

abbreviation fs_err :: "FsError \<Rightarrow> ('a, SvsmError) result" where
  "fs_err e \<equiv> Err (SvsmError_FileSystem e)"

definition has_entry :: "RawRamDirectory \<Rightarrow> FileName \<Rightarrow> bool" where
  "has_entry self nm \<longleftrightarrow> (\<exists>e \<in> set (rd_entries self). de_name e = nm)"

definition check_remove :: "RawRamDirectory \<Rightarrow> (unit, SvsmError) result" where
  "check_remove self = (if rd_remove_in_progress self then fs_err FsError_Busy else Ok ())"

definition dir_list :: "RawRamDirectory \<Rightarrow> FileName list" where
  "dir_list self = map de_name (rd_entries self)"

definition prepare_remove :: "RawRamDirectory \<Rightarrow> (unit, SvsmError) result \<times> RawRamDirectory" where
  "prepare_remove self = (case check_remove self of
       Err e \<Rightarrow> (Err e, self)
     | Ok _ \<Rightarrow> if rd_entries self = [] then (Ok (), self\<lparr>rd_remove_in_progress := True\<rparr>)
              else (fs_err FsError_NotEmpty, self))"

definition lookup_entry :: "RawRamDirectory \<Rightarrow> FileName \<Rightarrow> (DirEntry, SvsmError) result" where
  "lookup_entry self nm = (case find (\<lambda>e. de_name e = nm) (rd_entries self) of
       Some e \<Rightarrow> Ok (de_entry e)
     | None \<Rightarrow> fs_err FsError_FileNotFound)"

text \<open>\<open>swap_remove\<close>: the last element takes the place of the removed one.\<close>

definition swap_remove :: "'a list \<Rightarrow> nat \<Rightarrow> 'a list" where
  "swap_remove xs i = butlast (xs[i := last xs])"

fun position_of :: "('a \<Rightarrow> bool) \<Rightarrow> 'a list \<Rightarrow> nat option" where
  "position_of P [] = None"
| "position_of P (x # xs) = (if P x then Some 0 else map_option Suc (position_of P xs))"

definition dir_unlink :: "FileName \<Rightarrow> RawRamDirectory \<Rightarrow> (unit, SvsmError) result \<times> RawRamDirectory" where
  "dir_unlink nm self = (case position_of (\<lambda>e. de_name e = nm) (rd_entries self) of
       Some i \<Rightarrow> (Ok (), self\<lparr>rd_entries := swap_remove (rd_entries self) i\<rparr>)
     | None \<Rightarrow> (fs_err FsError_FileNotFound, self))"

section \<open>The store\<close>

record fs_state =
  fs_mem :: page_mem
  fs_files :: "nat \<Rightarrow> RawRamFile option"
  fs_dirs :: "nat \<Rightarrow> RawRamDirectory option"
  fs_root :: "nat option"
  fs_next :: nat

definition put_dir :: "nat \<Rightarrow> RawRamDirectory \<Rightarrow> fs_state \<Rightarrow> fs_state" where
  "put_dir d dir s = s\<lparr>fs_dirs := (fs_dirs s)(d \<mapsto> dir)\<rparr>"

text \<open>The operations of the trait \<open>Directory\<close> on a directory of the store.\<close>

definition Directory_list :: "nat \<Rightarrow> fs_state \<Rightarrow> FileName list option" where
  "Directory_list d s = map_option dir_list (fs_dirs s d)"

definition Directory_lookup_entry :: "nat \<Rightarrow> FileName \<Rightarrow> fs_state \<Rightarrow> (DirEntry, SvsmError) result option" where
  "Directory_lookup_entry d nm s = map_option (\<lambda>dir. lookup_entry dir nm) (fs_dirs s d)"

definition Directory_prepare_remove :: "nat \<Rightarrow> (fs_state, unit, SvsmError) svsm" where
  "Directory_prepare_remove d s = do {
     dir \<leftarrow> fs_dirs s d;
     let (r, dir) = prepare_remove dir;
     Some (r, put_dir d dir s)
   }"

definition Directory_create_file :: "nat \<Rightarrow> FileName \<Rightarrow> (fs_state, nat, SvsmError) svsm" where
  "Directory_create_file d nm s = do {
     dir \<leftarrow> fs_dirs s d;
     case check_remove dir of
       Err e \<Rightarrow> Some (Err e, s)
     | Ok _ \<Rightarrow>
         if has_entry dir nm then Some (fs_err FsError_FileExists, s)
         else let new_file = fs_next s in
           Some (Ok new_file, put_dir d
             (dir\<lparr>rd_entries := rd_entries dir @ [\<lparr> de_name = nm, de_entry = DirEntry_File new_file \<rparr>]\<rparr>)
             (s\<lparr>fs_files := (fs_files s)(new_file \<mapsto> RawRamFile_new), fs_next := Suc new_file\<rparr>))
   }"

definition Directory_create_directory :: "nat \<Rightarrow> FileName \<Rightarrow> (fs_state, nat, SvsmError) svsm" where
  "Directory_create_directory d nm s = do {
     dir \<leftarrow> fs_dirs s d;
     case check_remove dir of
       Err e \<Rightarrow> Some (Err e, s)
     | Ok _ \<Rightarrow>
         if has_entry dir nm then Some (fs_err FsError_FileExists, s)
         else let new_dir = fs_next s in
           Some (Ok new_dir, put_dir d
             (dir\<lparr>rd_entries := rd_entries dir @ [\<lparr> de_name = nm, de_entry = DirEntry_Directory new_dir \<rparr>]\<rparr>)
             (s\<lparr>fs_dirs := (fs_dirs s)(new_dir \<mapsto> RawRamDirectory_new), fs_next := Suc new_dir\<rparr>))
   }"

definition Directory_unlink :: "nat \<Rightarrow> FileName \<Rightarrow> (fs_state, unit, SvsmError) svsm" where
  "Directory_unlink d nm s = do {
     dir \<leftarrow> fs_dirs s d;
     let (r, dir) = dir_unlink nm dir;
     Some (r, put_dir d dir s)
   }"

section \<open>File handles\<close>

record RawFileHandle =
  fh_file :: nat
  fh_current :: nat
  fh_read :: bool
  fh_write :: bool

definition RawFileHandle_new :: "nat \<Rightarrow> bool \<Rightarrow> bool \<Rightarrow> RawFileHandle" where
  "RawFileHandle_new file rd wr = \<lparr> fh_file = file, fh_current = 0, fh_read = rd, fh_write = wr \<rparr>"

definition check_read :: "RawFileHandle \<Rightarrow> (unit, SvsmError) result" where
  "check_read self = (if \<not> fh_read self then fs_err FsError_WriteOnly else Ok ())"

definition check_write :: "RawFileHandle \<Rightarrow> (unit, SvsmError) result" where
  "check_write self = (if \<not> fh_write self then fs_err FsError_ReadOnly else Ok ())"

text \<open>A file operation on a file of the store.\<close>

definition on_file :: "nat \<Rightarrow> (file_state, 'a, SvsmError) svsm \<Rightarrow> (fs_state, 'a, SvsmError) svsm" where
  "on_file f op s = do {
     file \<leftarrow> fs_files s f;
     (r, (file, m)) \<leftarrow> op (file, fs_mem s);
     Some (r, s\<lparr>fs_files := (fs_files s)(f \<mapsto> file), fs_mem := m\<rparr>)
   }"

definition file_size :: "nat \<Rightarrow> fs_state \<Rightarrow> nat option" where
  "file_size f s = map_option rf_size (fs_files s f)"

text \<open>The file pointer moves by the number of bytes of a successful operation.\<close>

definition advance :: "(nat, SvsmError) result \<Rightarrow> RawFileHandle \<Rightarrow> RawFileHandle option" where
  "advance r self = (case r of
       Ok v \<Rightarrow> map_option (\<lambda>c. self\<lparr>fh_current := c\<rparr>) (uadd (fh_current self) v)
     | Err e \<Rightarrow> Some self)"

definition RawFileHandle_read_buffer ::
  "fs_state \<Rightarrow> (RawFileHandle \<times> Buffer, nat, SvsmError) svsm" where
  "RawFileHandle_read_buffer s = (\<lambda>(self, buffer). case check_read self of
       Err e \<Rightarrow> Some (Err e, (self, buffer))
     | Ok _ \<Rightarrow> do {
         file \<leftarrow> fs_files s (fh_file self);
         (result, buffer) \<leftarrow> RawRamFile_read_buffer (file, fs_mem s) (fh_current self) buffer;
         self \<leftarrow> advance result self;
         Some (result, (self, buffer))
       })"

definition RawFileHandle_read :: "fs_state \<Rightarrow> (RawFileHandle \<times> u8 list, nat, SvsmError) svsm" where
  "RawFileHandle_read s = (\<lambda>(self, buf). case check_read self of
       Err e \<Rightarrow> Some (Err e, (self, buf))
     | Ok _ \<Rightarrow> do {
         file \<leftarrow> fs_files s (fh_file self);
         (result, buf) \<leftarrow> RawRamFile_read (file, fs_mem s) buf (fh_current self);
         self \<leftarrow> advance result self;
         Some (result, (self, buf))
       })"

definition RawFileHandle_write_buffer ::
  "translation \<Rightarrow> Buffer \<Rightarrow> (RawFileHandle \<times> fs_state, nat, SvsmError) svsm" where
  "RawFileHandle_write_buffer V buffer = (\<lambda>(self, s). case check_write self of
       Err e \<Rightarrow> Some (Err e, (self, s))
     | Ok _ \<Rightarrow> do {
         (result, s) \<leftarrow> on_file (fh_file self) (RawRamFile_write_buffer V buffer (fh_current self)) s;
         self \<leftarrow> advance result self;
         Some (result, (self, s))
       })"

definition RawFileHandle_write ::
  "translation \<Rightarrow> u8 list \<Rightarrow> (RawFileHandle \<times> fs_state, nat, SvsmError) svsm" where
  "RawFileHandle_write V buf = (\<lambda>(self, s). case check_write self of
       Err e \<Rightarrow> Some (Err e, (self, s))
     | Ok _ \<Rightarrow> do {
         (result, s) \<leftarrow> on_file (fh_file self) (RawRamFile_write V buf (fh_current self)) s;
         self \<leftarrow> advance result self;
         Some (result, (self, s))
       })"

definition RawFileHandle_truncate :: "nat \<Rightarrow> (RawFileHandle \<times> fs_state, nat, SvsmError) svsm" where
  "RawFileHandle_truncate offset = (\<lambda>(self, s). case check_write self of
       Err e \<Rightarrow> Some (Err e, (self, s))
     | Ok _ \<Rightarrow> do {
         (result, s) \<leftarrow> on_file (fh_file self) (RawRamFile_truncate offset) s;
         new_size \<leftarrow> file_size (fh_file self) s;
         let self = (if is_ok result \<and> fh_current self \<ge> new_size then self\<lparr>fh_current := new_size\<rparr> else self);
         Some (result, (self, s))
       })"

definition RawFileHandle_seek_abs :: "nat \<Rightarrow> fs_state \<Rightarrow> RawFileHandle \<Rightarrow> RawFileHandle option" where
  "RawFileHandle_seek_abs pos s self = do {
     size' \<leftarrow> file_size (fh_file self) s;
     Some (self\<lparr>fh_current := min pos size'\<rparr>)
   }"

definition RawFileHandle_seek_rel :: "int \<Rightarrow> fs_state \<Rightarrow> RawFileHandle \<Rightarrow> RawFileHandle option" where
  "RawFileHandle_seek_rel offset s self =
     (let p = int (fh_current self) + offset;
          pos = (if 0 \<le> p \<and> p \<le> int usize_max then nat p else 0)
      in RawFileHandle_seek_abs pos s self)"

definition RawFileHandle_seek_end :: "nat \<Rightarrow> fs_state \<Rightarrow> RawFileHandle \<Rightarrow> RawFileHandle option" where
  "RawFileHandle_seek_end offset s self = do {
     size' \<leftarrow> file_size (fh_file self) s;
     RawFileHandle_seek_abs (size' - offset) s self
   }"

section \<open>Paths\<close>

function split_path_allow_empty :: "string \<Rightarrow> string list" where
  "split_path_allow_empty path =
     (let item = takeWhile (\<lambda>c. c \<noteq> CHR ''/'') path;
          rest = dropWhile (\<lambda>c. c \<noteq> CHR ''/'') path;
          items = (if rest = [] then [] else split_path_allow_empty (tl rest))
      in if item = [] then items else item # items)"
  by pat_completeness auto
termination
proof (relation "measure length")
  fix path item rest :: string
  assume "rest = dropWhile (\<lambda>c. c \<noteq> CHR ''/'') path" "rest \<noteq> []"
  then have "length (tl rest) < length rest" "length rest \<le> length path"
    using length_dropWhile_le [of "\<lambda>c. c \<noteq> CHR ''/''" path] by (simp, simp only:)
  then show "(tl rest, path) \<in> measure length" by simp
qed simp

declare split_path_allow_empty.simps [simp del]

definition split_path :: "string \<Rightarrow> (string list, SvsmError) result" where
  "split_path path =
     (let items = split_path_allow_empty path in
      if items = [] then fs_err FsError_Inval else Ok items)"

fun walk_path :: "nat \<Rightarrow> string list \<Rightarrow> fs_state \<Rightarrow> (nat, SvsmError) result option" where
  "walk_path current_dir [] s = Some (Ok current_dir)"
| "walk_path current_dir (item # items) s = do {
     r \<leftarrow> Directory_lookup_entry current_dir item s;
     case r of
       Err e \<Rightarrow> Some (Err e)
     | Ok (DirEntry_File _) \<Rightarrow> Some (fs_err FsError_FileNotFound)
     | Ok (DirEntry_Directory dir) \<Rightarrow> walk_path dir items s
   }"

fun walk_create_loop :: "nat \<Rightarrow> string list \<Rightarrow> (fs_state, nat, SvsmError) svsm" where
  "walk_create_loop current_dir [] s = Some (Ok current_dir, s)"
| "walk_create_loop current_dir (item # items) s = do {
     r \<leftarrow> Directory_lookup_entry current_dir item s;
     case r of
       Ok (DirEntry_File _) \<Rightarrow> Some (fs_err FsError_FileNotFound, s)
     | Ok (DirEntry_Directory dir) \<Rightarrow> walk_create_loop dir items s
     | Err _ \<Rightarrow> do {
         (c, s) \<leftarrow> Directory_create_directory current_dir item s;
         case c of Err e \<Rightarrow> Some (Err e, s) | Ok dir \<Rightarrow> walk_create_loop dir items s
       }
   }"

section \<open>The file system\<close>

definition initialize_fs :: "fs_state \<Rightarrow> fs_state option" where
  "initialize_fs s = (case fs_root s of
       Some _ \<Rightarrow> None
     | None \<Rightarrow> Some (s\<lparr>fs_dirs := (fs_dirs s)(fs_next s \<mapsto> RawRamDirectory_new), fs_root := Some (fs_next s),
         fs_next := Suc (fs_next s)\<rparr>))"

definition walk_path_from_root :: "string list \<Rightarrow> fs_state \<Rightarrow> (nat, SvsmError) result option" where
  "walk_path_from_root items s = do { root \<leftarrow> fs_root s; walk_path root items s }"

definition walk_path_create :: "string list \<Rightarrow> (fs_state, nat, SvsmError) svsm" where
  "walk_path_create items s = do { root \<leftarrow> fs_root s; walk_create_loop root items s }"

text \<open>The directory that holds the last item of a path, with the name of the item.\<close>

definition walk_parent :: "nat \<Rightarrow> string \<Rightarrow> fs_state \<Rightarrow> (nat \<times> FileName, SvsmError) result option" where
  "walk_parent root_dir path s = (case split_path path of
       Err e \<Rightarrow> Some (Err e)
     | Ok items \<Rightarrow> do {
         r \<leftarrow> walk_path root_dir (butlast items) s;
         Some (case r of Ok dir \<Rightarrow> Ok (dir, last items) | Err e \<Rightarrow> Err e)
       })"

definition open_root :: "nat \<Rightarrow> string \<Rightarrow> bool \<Rightarrow> bool \<Rightarrow> fs_state \<Rightarrow> (RawFileHandle, SvsmError) result option" where
  "open_root root_dir path rd wr s = do {
     r \<leftarrow> walk_parent root_dir path s;
     case r of
       Err e \<Rightarrow> Some (Err e)
     | Ok (dir, nm) \<Rightarrow> do {
         e \<leftarrow> Directory_lookup_entry dir nm s;
         Some (case e of
             Err e \<Rightarrow> Err e
           | Ok (DirEntry_Directory _) \<Rightarrow> fs_err FsError_FileNotFound
           | Ok (DirEntry_File f) \<Rightarrow> Ok (RawFileHandle_new f rd wr))
       }
   }"

definition fs_open :: "string \<Rightarrow> bool \<Rightarrow> bool \<Rightarrow> fs_state \<Rightarrow> (RawFileHandle, SvsmError) result option" where
  "fs_open path rd wr s = do { root \<leftarrow> fs_root s; open_root root path rd wr s }"

definition fs_opendir :: "string \<Rightarrow> fs_state \<Rightarrow> (nat, SvsmError) result option" where
  "fs_opendir path s = walk_path_from_root (split_path_allow_empty path) s"

definition create_root :: "nat \<Rightarrow> string \<Rightarrow> (fs_state, RawFileHandle, SvsmError) svsm" where
  "create_root root_dir path s = do {
     r \<leftarrow> walk_parent root_dir path s;
     case r of
       Err e \<Rightarrow> Some (Err e, s)
     | Ok (dir, nm) \<Rightarrow> do {
         (c, s) \<leftarrow> Directory_create_file dir nm s;
         Some (case c of Ok file \<Rightarrow> Ok (RawFileHandle_new file True True) | Err e \<Rightarrow> Err e, s)
       }
   }"

definition fs_create :: "string \<Rightarrow> (fs_state, RawFileHandle, SvsmError) svsm" where
  "fs_create path s = do { root \<leftarrow> fs_root s; create_root root path s }"

definition create_all :: "string \<Rightarrow> (fs_state, RawFileHandle, SvsmError) svsm" where
  "create_all path s = (case split_path path of
       Err e \<Rightarrow> Some (Err e, s)
     | Ok items \<Rightarrow> do {
         (r, s) \<leftarrow> walk_path_create (butlast items) s;
         case r of
           Err e \<Rightarrow> Some (Err e, s)
         | Ok dir \<Rightarrow>
             if last items = [] then Some (fs_err FsError_Inval, s)
             else do {
               (c, s) \<leftarrow> Directory_create_file dir (last items) s;
               Some (case c of Ok file \<Rightarrow> Ok (RawFileHandle_new file True True) | Err e \<Rightarrow> Err e, s)
             }
       })"

definition mkdir_root :: "nat \<Rightarrow> string \<Rightarrow> (fs_state, unit, SvsmError) svsm" where
  "mkdir_root root_dir path s = do {
     r \<leftarrow> walk_parent root_dir path s;
     case r of
       Err e \<Rightarrow> Some (Err e, s)
     | Ok (dir, nm) \<Rightarrow> do {
         (c, s) \<leftarrow> Directory_create_directory dir nm s;
         Some (case c of Ok _ \<Rightarrow> Ok () | Err e \<Rightarrow> Err e, s)
       }
   }"

definition fs_mkdir :: "string \<Rightarrow> (fs_state, unit, SvsmError) svsm" where
  "fs_mkdir path s = do { root \<leftarrow> fs_root s; mkdir_root root path s }"

definition unlink_root :: "nat \<Rightarrow> string \<Rightarrow> (fs_state, unit, SvsmError) svsm" where
  "unlink_root root_dir path s = do {
     r \<leftarrow> walk_parent root_dir path s;
     case r of
       Err e \<Rightarrow> Some (Err e, s)
     | Ok (dir, nm) \<Rightarrow> do {
         e \<leftarrow> Directory_lookup_entry dir nm s;
         case e of
           Err e \<Rightarrow> Some (Err e, s)
         | Ok (DirEntry_File _) \<Rightarrow> Directory_unlink dir nm s
         | Ok (DirEntry_Directory _) \<Rightarrow> Some (fs_err FsError_IsDir, s)
       }
   }"

definition fs_unlink :: "string \<Rightarrow> (fs_state, unit, SvsmError) svsm" where
  "fs_unlink path s = do { root \<leftarrow> fs_root s; unlink_root root path s }"

definition rmdir_root :: "nat \<Rightarrow> string \<Rightarrow> (fs_state, unit, SvsmError) svsm" where
  "rmdir_root root_dir path s = do {
     r \<leftarrow> walk_parent root_dir path s;
     case r of
       Err e \<Rightarrow> Some (Err e, s)
     | Ok (dir, nm) \<Rightarrow> do {
         e \<leftarrow> Directory_lookup_entry dir nm s;
         case e of
           Err e \<Rightarrow> Some (Err e, s)
         | Ok (DirEntry_File _) \<Rightarrow> Some (fs_err FsError_IsFile, s)
         | Ok (DirEntry_Directory target) \<Rightarrow>
             bindM (Directory_prepare_remove target) (\<lambda>_. Directory_unlink dir nm) s
       }
   }"

definition fs_rmdir :: "string \<Rightarrow> (fs_state, unit, SvsmError) svsm" where
  "fs_rmdir path s = do { root \<leftarrow> fs_root s; rmdir_root root path s }"

definition fs_list_dir :: "string \<Rightarrow> fs_state \<Rightarrow> (FileName list, SvsmError) result option" where
  "fs_list_dir path s = do {
     r \<leftarrow> fs_opendir path s;
     case r of
       Err e \<Rightarrow> Some (Err e)
     | Ok dir \<Rightarrow> map_option Ok (Directory_list dir s)
   }"

definition find_dir :: "nat \<Rightarrow> string \<Rightarrow> fs_state \<Rightarrow> (nat, SvsmError) result option" where
  "find_dir dir relative_path s =
     (if relative_path = [] then Some (fs_err FsError_Inval)
      else walk_path dir (split_path_allow_empty relative_path) s)"

section \<open>File system objects\<close>

record DirectoryHandle =
  dh_dir :: nat
  dh_list :: "FileName list"
  dh_next :: nat

definition DirectoryHandle_new :: "nat \<Rightarrow> fs_state \<Rightarrow> DirectoryHandle option" where
  "DirectoryHandle_new dir s = map_option (\<lambda>l. \<lparr> dh_dir = dir, dh_list = l, dh_next = 0 \<rparr>) (Directory_list dir s)"

datatype FsObj = FsObj_File RawFileHandle | FsObj_Directory DirectoryHandle

text \<open>The operations of a file handle through an object: \<open>f\<close> is the operation of the handle.\<close>

fun FsObj_on_file ::
  "(RawFileHandle \<times> 's, 'a, SvsmError) svsm \<Rightarrow> (FsObj \<times> 's, 'a, SvsmError) svsm" where
  "FsObj_on_file f (FsObj_File fh, s) = do {
     (r, (fh, s)) \<leftarrow> f (fh, s);
     Some (r, (FsObj_File fh, s))
   }"
| "FsObj_on_file f (FsObj_Directory dh, s) = Some (Err SvsmError_NotSupported, (FsObj_Directory dh, s))"

fun FsObj_readdir :: "fs_state \<Rightarrow> (FsObj, (FileName \<times> DirEntry) option, SvsmError) svsm" where
  "FsObj_readdir s (FsObj_File fh) = Some (Err SvsmError_NotSupported, FsObj_File fh)"
| "FsObj_readdir s (FsObj_Directory dh) =
     (if dh_next dh < length (dh_list dh) then do {
        let nm = dh_list dh ! dh_next dh;
        let next' = (dh_next dh + 1) mod 2 ^ 64;
        r \<leftarrow> Directory_lookup_entry (dh_dir dh) nm s;
        Some (case r of Ok e \<Rightarrow> Ok (Some (nm, e)) | Err e \<Rightarrow> Err e, FsObj_Directory (dh\<lparr>dh_next := next'\<rparr>))
      }
      else Some (Ok None, FsObj_Directory dh))"

end
