(* ===== verification/Fs_Lemmas.thy ===== *)
theory Fs_Lemmas
  imports Fs_Model "HOL-Library.Multiset"
begin

text \<open>
  The file system as a map from paths to entries: resolution of paths in the store, the invariant
  of the directory tree, and the effect of adding and removing entries.
\<close>

section \<open>Directories as maps\<close>

definition dir_map :: "RawRamDirectory \<Rightarrow> FileName \<Rightarrow> DirEntry option" where
  "dir_map dir = map_of (map (\<lambda>e. (de_name e, de_entry e)) (rd_entries dir))"

definition dir_lookup :: "fs_state \<Rightarrow> nat \<Rightarrow> FileName \<Rightarrow> DirEntry option" where
  "dir_lookup s d nm = (case fs_dirs s d of None \<Rightarrow> None | Some dir \<Rightarrow> dir_map dir nm)"

lemma find_map_of:
  "map_option de_entry (find (\<lambda>e. de_name e = nm) es) = map_of (map (\<lambda>e. (de_name e, de_entry e)) es) nm"
  by (induction es) auto

lemma lookup_entry_map: "lookup_entry dir nm = (case dir_map dir nm of Some e \<Rightarrow> Ok e | None \<Rightarrow> fs_err FsError_FileNotFound)"
  unfolding dir_map_def find_map_of [symmetric] lookup_entry_def by (auto split: option.splits)

lemma has_entry_map: "has_entry dir nm \<longleftrightarrow> dir_map dir nm \<noteq> None"
  by (auto simp: has_entry_def dir_map_def map_of_eq_None_iff image_iff)

lemma dir_map_append:
  "dir_map dir nm = None \<Longrightarrow> dir_map (dir\<lparr>rd_entries := rd_entries dir @ [\<lparr> de_name = nm, de_entry = e \<rparr>]\<rparr>) = (dir_map dir)(nm \<mapsto> e)"
  by (auto simp: dir_map_def map_add_def fun_eq_iff split: option.splits)

lemma dir_map_ran: "dir_map dir nm = Some e \<Longrightarrow> \<exists>x \<in> set (rd_entries dir). de_name x = nm \<and> de_entry x = e"
  by (auto simp: dir_map_def dest!: map_of_SomeD)

lemma dir_map_entry:
  assumes "distinct (map de_name (rd_entries dir))" and "x \<in> set (rd_entries dir)"
  shows "dir_map dir (de_name x) = Some (de_entry x)"
proof -
  have "map fst (map (\<lambda>e. (de_name e, de_entry e)) (rd_entries dir)) = map de_name (rd_entries dir)"
    by (simp add: comp_def)
  then have "distinct (map fst (map (\<lambda>e. (de_name e, de_entry e)) (rd_entries dir)))" using assms(1) by metis
  moreover have "(de_name x, de_entry x) \<in> set (map (\<lambda>e. (de_name e, de_entry e)) (rd_entries dir))" using assms(2) by auto
  ultimately show ?thesis unfolding dir_map_def by (rule map_of_is_SomeI)
qed

lemma mset_swap_remove:
  assumes "i < length xs"
  shows "mset (swap_remove xs i) = mset xs - {#xs ! i#}"
proof -
  define ys y where "ys = butlast xs" and "y = last xs"
  have xs: "xs = ys @ [y]" using assms by (cases xs rule: rev_cases) (auto simp: ys_def y_def)
  show ?thesis
  proof (cases "i < length ys")
    case True
    then have "swap_remove xs i = ys[i := y]" by (simp add: swap_remove_def xs list_update_append1)
    moreover have "ys ! i \<in># mset ys" using True by simp
    ultimately show ?thesis using True by (simp add: xs mset_update nth_append)
  next
    case False
    then have "i = length ys" using assms by (simp add: xs)
    then show ?thesis by (simp add: swap_remove_def xs)
  qed
qed

lemma position_of_Some: "position_of P xs = Some i \<Longrightarrow> i < length xs \<and> P (xs ! i)"
  by (induction xs arbitrary: i) (auto split: if_splits)

lemma position_of_None: "position_of P xs = None \<longleftrightarrow> (\<forall>x \<in> set xs. \<not> P x)"
  by (induction xs) auto

lemma dir_unlink_map:
  assumes d: "distinct (map de_name (rd_entries dir))"
  shows "dir_map dir nm = None \<Longrightarrow> dir_unlink nm dir = (fs_err FsError_FileNotFound, dir)"
    and "dir_map dir nm = Some e \<Longrightarrow> \<exists>dir'. dir_unlink nm dir = (Ok (), dir') \<and> dir_map dir' = (dir_map dir)(nm := None)
      \<and> distinct (map de_name (rd_entries dir')) \<and> set (rd_entries dir') \<subseteq> set (rd_entries dir)
      \<and> rd_remove_in_progress dir' = rd_remove_in_progress dir"
proof -
  assume "dir_map dir nm = None"
  then have "position_of (\<lambda>e. de_name e = nm) (rd_entries dir) = None"
    using has_entry_map [of dir nm] by (simp add: position_of_None has_entry_def)
  then show "dir_unlink nm dir = (fs_err FsError_FileNotFound, dir)" by (simp add: dir_unlink_def)
next
  assume e: "dir_map dir nm = Some e"
  then have "has_entry dir nm" by (simp add: has_entry_map)
  then obtain i where i: "position_of (\<lambda>e. de_name e = nm) (rd_entries dir) = Some i"
    by (cases "position_of (\<lambda>e. de_name e = nm) (rd_entries dir)") (auto simp: position_of_None has_entry_def)
  let ?xs = "rd_entries dir" let ?ys = "swap_remove ?xs i" let ?dir = "dir\<lparr>rd_entries := ?ys\<rparr>"
  note ii = position_of_Some [OF i]
  have ms: "mset ?ys = mset ?xs - {#?xs ! i#}" using mset_swap_remove ii by blast
  have dx: "distinct ?xs" using d by (simp add: distinct_map)
  have "mset (?xs ! i # ?ys) = mset ?xs" using ms ii by (simp add: insert_DiffM)
  then have "distinct (?xs ! i # ?ys)" and all: "set (?xs ! i # ?ys) = set ?xs"
    using dx mset_eq_imp_distinct_iff mset_eq_setD by blast+
  then have "distinct ?ys" and set: "set ?ys = set ?xs - {?xs ! i}" by auto
  have dn: "distinct (map de_name ?ys)"
    using d set \<open>distinct ?ys\<close> by (auto simp: distinct_map inj_on_def)
  have only: "x = ?xs ! i" if "x \<in> set ?xs" "de_name x = nm" for x
    using that ii d by (auto simp: distinct_map inj_on_def)
  have "dir_map ?dir k = ((dir_map dir)(nm := None)) k" for k
  proof (cases "\<exists>x \<in> set ?ys. de_name x = k")
    case True
    then obtain x where x: "x \<in> set ?ys" "de_name x = k" by blast
    then have "k \<noteq> nm" using only set by auto
    moreover have "dir_map ?dir k = Some (de_entry x)" using dir_map_entry [of ?dir x] dn x by simp
    moreover have "dir_map dir k = Some (de_entry x)" using dir_map_entry [OF d, of x] x set by simp
    ultimately show ?thesis by simp
  next
    case False
    then have none: "dir_map ?dir k = None" using dir_map_ran [of ?dir k] by (cases "dir_map ?dir k") auto
    have "k = nm \<or> dir_map dir k = None"
    proof (rule ccontr)
      assume "\<not> ?thesis"
      then obtain y where "dir_map dir k = Some y" "k \<noteq> nm" by auto
      from dir_map_ran [OF this(1)] obtain x where "x \<in> set ?xs" "de_name x = k" by blast
      then show False using False set ii \<open>k \<noteq> nm\<close> by auto
    qed
    then show ?thesis using none by auto
  qed
  moreover have "dir_unlink nm dir = (Ok (), ?dir)" using i by (simp add: dir_unlink_def)
  ultimately show "\<exists>dir'. dir_unlink nm dir = (Ok (), dir') \<and> dir_map dir' = (dir_map dir)(nm := None)
      \<and> distinct (map de_name (rd_entries dir')) \<and> set (rd_entries dir') \<subseteq> set (rd_entries dir)
      \<and> rd_remove_in_progress dir' = rd_remove_in_progress dir"
    using dn set by (intro exI [of _ ?dir]) (auto simp: fun_eq_iff)
qed

section \<open>Resolving paths\<close>

fun resolve :: "fs_state \<Rightarrow> DirEntry \<Rightarrow> string list \<Rightarrow> DirEntry option" where
  "resolve s e [] = Some e"
| "resolve s (DirEntry_Directory d) (n # ns) = Option.bind (dir_lookup s d n) (\<lambda>e. resolve s e ns)"
| "resolve s (DirEntry_File f) (n # ns) = None"

definition fs_abs :: "fs_state \<Rightarrow> string list \<Rightarrow> DirEntry option" where
  "fs_abs s p = (case fs_root s of None \<Rightarrow> None | Some r \<Rightarrow> resolve s (DirEntry_Directory r) p)"

lemma resolve_snoc:
  "resolve s e (p @ [k]) = (case resolve s e p of Some (DirEntry_Directory c) \<Rightarrow> dir_lookup s c k | _ \<Rightarrow> None)"
proof (induction p arbitrary: e)
  case Nil
  then show ?case by (cases e) (auto split: Option.bind_splits)
next
  case (Cons n ns)
  then show ?case by (cases e) (auto split: Option.bind_splits)
qed

lemma resolve_snoc_Some:
  "resolve s e (p @ [k]) = Some y \<longleftrightarrow> (\<exists>c. resolve s e p = Some (DirEntry_Directory c) \<and> dir_lookup s c k = Some y)"
  by (auto simp: resolve_snoc split: option.splits DirEntry.splits)

text \<open>Adding an entry that leads nowhere else.\<close>

lemma resolve_add:
  assumes l: "\<And>c k. dir_lookup s' c k = (if c = d \<and> k = n then Some x else dir_lookup s c k)"
    and n: "dir_lookup s d n = None"
    and leaf: "\<And>c k. x = DirEntry_Directory c \<Longrightarrow> dir_lookup s' c k = None"
    and fresh: "\<And>p. resolve s e p \<noteq> Some x"
  shows "resolve s' e p = Some y \<longleftrightarrow> resolve s e p = Some y \<or> (\<exists>q. p = q @ [n] \<and> resolve s e q = Some (DirEntry_Directory d) \<and> y = x)"
proof (induction p arbitrary: y rule: rev_induct)
  case (snoc k p)
  have "resolve s' e (p @ [k]) = Some y \<longleftrightarrow> (\<exists>c. resolve s e p = Some (DirEntry_Directory c) \<and> dir_lookup s' c k = Some y)"
    unfolding resolve_snoc_Some snoc using leaf by (metis option.distinct(1))
  also have "\<dots> \<longleftrightarrow> (\<exists>c. resolve s e p = Some (DirEntry_Directory c) \<and> dir_lookup s c k = Some y)
      \<or> (resolve s e p = Some (DirEntry_Directory d) \<and> k = n \<and> y = x)"
    using n by (auto simp: l)
  finally show ?case by (auto simp: resolve_snoc_Some)
qed simp

lemma resolve_remove:
  assumes l: "\<And>c k. dir_lookup s' c k = (if c = d \<and> k = n then None else dir_lookup s c k)"
    and x: "dir_lookup s d n = Some x" and leaf: "\<And>c k. x = DirEntry_Directory c \<Longrightarrow> dir_lookup s c k = None"
  shows "resolve s' e p = Some y \<longleftrightarrow> resolve s e p = Some y \<and> \<not> (\<exists>q. p = q @ [n] \<and> resolve s e q = Some (DirEntry_Directory d))"
proof (induction p arbitrary: y rule: rev_induct)
  case (snoc k p)
  have no: "dir_lookup s c k = None" if "p = q @ [n]" "resolve s e q = Some (DirEntry_Directory d)" "resolve s e p = Some (DirEntry_Directory c)" for q c
    using that x leaf by (auto simp: resolve_snoc)
  have "resolve s' e (p @ [k]) = Some y \<longleftrightarrow> (\<exists>c. resolve s e p = Some (DirEntry_Directory c) \<and> dir_lookup s' c k = Some y)"
    unfolding resolve_snoc_Some snoc using no by (auto simp: l)
  then show ?case unfolding resolve_snoc_Some by (auto simp: l)
qed simp

section \<open>The invariant\<close>

fun entry_ok :: "fs_state \<Rightarrow> DirEntry \<Rightarrow> bool" where
  "entry_ok s (DirEntry_File f) \<longleftrightarrow> f < fs_next s \<and> fs_files s f \<noteq> None"
| "entry_ok s (DirEntry_Directory c) \<longleftrightarrow> c < fs_next s
     \<and> (\<exists>dir. fs_dirs s c = Some dir \<and> \<not> rd_remove_in_progress dir) \<and> fs_root s \<noteq> Some c"

definition fs_inv :: "fs_state \<Rightarrow> bool" where
  "fs_inv s \<longleftrightarrow> (\<exists>r dir. fs_root s = Some r \<and> fs_dirs s r = Some dir \<and> \<not> rd_remove_in_progress dir)
     \<and> (\<forall>d dir. fs_dirs s d = Some dir \<longrightarrow> d < fs_next s \<and> distinct (map de_name (rd_entries dir)))
     \<and> (\<forall>f file. fs_files s f = Some file \<longrightarrow> f < fs_next s)
     \<and> (\<forall>d n e. dir_lookup s d n = Some e \<longrightarrow> entry_ok s e)
     \<and> (\<forall>d n d' n' e. dir_lookup s d n = Some e \<longrightarrow> dir_lookup s d' n' = Some e \<longrightarrow> d = d' \<and> n = n')"

lemma fs_invD:
  assumes "fs_inv s"
  shows "\<exists>r dir. fs_root s = Some r \<and> fs_dirs s r = Some dir \<and> \<not> rd_remove_in_progress dir"
    "fs_dirs s d = Some dir \<Longrightarrow> d < fs_next s" "fs_dirs s d = Some dir \<Longrightarrow> distinct (map de_name (rd_entries dir))"
    "dir_lookup s d n = Some e \<Longrightarrow> entry_ok s e"
    "dir_lookup s d n = Some e \<Longrightarrow> dir_lookup s d' n' = Some e \<Longrightarrow> d = d' \<and> n = n'"
    "fs_files s f = Some file \<Longrightarrow> f < fs_next s"
  using assms by (auto simp: fs_inv_def)

lemma resolve_entry:
  assumes "fs_inv s" and "resolve s e p = Some y" and "p \<noteq> []"
  shows "entry_ok s y"
proof -
  obtain q k where "p = q @ [k]" using assms(3) by (cases p rule: rev_cases) auto
  then show ?thesis using assms(1,2) fs_invD(4) by (auto simp: resolve_snoc_Some)
qed

lemma fs_abs_dir:
  assumes s: "fs_inv s" and y: "fs_abs s p = Some (DirEntry_Directory c)"
  obtains dir where "fs_dirs s c = Some dir" and "\<not> rd_remove_in_progress dir"
proof -
  from fs_invD(1) [OF s] obtain r dir where r: "fs_root s = Some r" "fs_dirs s r = Some dir" "\<not> rd_remove_in_progress dir" by blast
  show thesis
  proof (cases "p = []")
    case True
    then show thesis using y r that by (auto simp: fs_abs_def)
  next
    case False
    then show thesis using resolve_entry [OF s _ False, of "DirEntry_Directory r"] y r(1) that by (auto simp: fs_abs_def)
  qed
qed

text \<open>Every entry has one path.\<close>

lemma fs_abs_inj:
  assumes s: "fs_inv s"
  shows "fs_abs s p = Some y \<Longrightarrow> fs_abs s q = Some y \<Longrightarrow> p = q"
proof (induction p arbitrary: q y rule: rev_induct)
  case Nil
  from fs_invD(1) [OF s] obtain r where r: "fs_root s = Some r" by blast
  have y: "y = DirEntry_Directory r" using Nil(1) r by (simp add: fs_abs_def)
  show ?case
  proof (rule ccontr)
    assume "[] \<noteq> q"
    then have "entry_ok s y" using resolve_entry [OF s, of "DirEntry_Directory r" q y] Nil(2) r by (simp add: fs_abs_def)
    then show False using y r by simp
  qed
next
  case (snoc k p)
  from fs_invD(1) [OF s] obtain r where r: "fs_root s = Some r" by blast
  from snoc.prems(1) r obtain c where c: "fs_abs s p = Some (DirEntry_Directory c)" "dir_lookup s c k = Some y"
    by (auto simp: fs_abs_def resolve_snoc_Some)
  show ?case
  proof (cases q rule: rev_cases)
    case Nil
    then have "y = DirEntry_Directory r" using snoc.prems(2) r by (simp add: fs_abs_def)
    then show ?thesis using fs_invD(4) [OF s c(2)] r by simp
  next
    case (snoc q' k')
    with snoc.prems(2) r obtain c' where c': "fs_abs s q' = Some (DirEntry_Directory c')" "dir_lookup s c' k' = Some y"
      by (auto simp: fs_abs_def resolve_snoc_Some)
    from fs_invD(5) [OF s c(2) c'(2)] have "c = c'" "k = k'" by auto
    then show ?thesis using snoc.IH [OF c(1), of q'] c'(1) \<open>q = q' @ [k']\<close> by simp
  qed
qed

lemma walk_path_resolve:
  assumes s: "fs_inv s"
  shows "fs_dirs s d \<noteq> None \<Longrightarrow> walk_path d items s = Some (case resolve s (DirEntry_Directory d) items of
    Some (DirEntry_Directory c) \<Rightarrow> Ok c | _ \<Rightarrow> fs_err FsError_FileNotFound)"
proof (induction items arbitrary: d)
  case (Cons n ns)
  then obtain dir where dir: "fs_dirs s d = Some dir" by auto
  show ?case
  proof (cases "dir_map dir n")
    case None
    then show ?thesis using dir by (simp add: Directory_lookup_entry_def lookup_entry_map dir_lookup_def)
  next
    case (Some e)
    then have "entry_ok s e" using fs_invD(4) [OF s, of d n e] dir by (simp add: dir_lookup_def)
    then show ?thesis using Some dir Cons.IH
      by (cases e) (auto simp: Directory_lookup_entry_def lookup_entry_map dir_lookup_def split: list.splits, cases ns, auto)
  qed
qed simp

end
