(* ===== verification/Fs_Ops.thy ===== *)
theory Fs_Ops
  imports Fs_Lemmas
begin

text \<open>
  What the operations of the directories and of the file system do to the map from paths to
  entries.
\<close>

section \<open>Adding and removing an entry\<close>

lemma fs_add_entry:
  assumes s: "fs_inv s"
    and l: "\<And>c k. dir_lookup s' c k = (if c = d \<and> k = n then Some x else dir_lookup s c k)"
    and n: "dir_lookup s d n = None" and root: "fs_root s' = fs_root s"
    and dirs: "\<And>c dir. fs_dirs s' c = Some dir \<Longrightarrow> c < fs_next s' \<and> distinct (map de_name (rd_entries dir))"
    and files: "\<And>f file. fs_files s' f = Some file \<Longrightarrow> f < fs_next s'"
    and ok: "\<And>e. entry_ok s e \<Longrightarrow> entry_ok s' e" "entry_ok s' x" "\<not> entry_ok s x"
    and keep: "\<And>c dir. fs_dirs s c = Some dir \<Longrightarrow> \<exists>dir'. fs_dirs s' c = Some dir' \<and> rd_remove_in_progress dir' = rd_remove_in_progress dir"
    and leaf: "\<And>c k. x = DirEntry_Directory c \<Longrightarrow> dir_lookup s' c k = None"
    and q: "fs_abs s q = Some (DirEntry_Directory d)"
  shows "fs_inv s'" and "fs_abs s' = (fs_abs s)(q @ [n] \<mapsto> x)"
proof -
  from fs_invD(1) [OF s] obtain r dir where r: "fs_root s = Some r" "fs_dirs s r = Some dir" "\<not> rd_remove_in_progress dir" by blast
  have new: "dir_lookup s c k \<noteq> Some x" for c k using fs_invD(4) [OF s] ok(3) by blast
  have "\<exists>r dir. fs_root s' = Some r \<and> fs_dirs s' r = Some dir \<and> \<not> rd_remove_in_progress dir"
    using r root keep [OF r(2)] by auto
  moreover have "entry_ok s' e" if "dir_lookup s' c k = Some e" for c k e
    using that fs_invD(4) [OF s, of c k e] ok(1) [of e] ok(2) by (auto simp: l split: if_splits)
  moreover have "c = c' \<and> k = k'" if "dir_lookup s' c k = Some e" "dir_lookup s' c' k' = Some e" for c k c' k' e
    using that fs_invD(5) [OF s, of c k e c' k'] new by (auto simp: l split: if_splits)
  ultimately show "fs_inv s'" using dirs files unfolding fs_inv_def by metis
  have nr: "x \<noteq> DirEntry_Directory r" using ok(2) r(1) root by auto
  have fresh: "resolve s (DirEntry_Directory r) p \<noteq> Some x" for p
  proof (cases p rule: rev_cases)
    case Nil
    then show ?thesis using nr by simp
  next
    case (snoc p' k)
    then show ?thesis using new by (simp add: resolve_snoc_Some)
  qed
  have iff: "fs_abs s' p = Some y \<longleftrightarrow> fs_abs s p = Some y \<or> (\<exists>q. p = q @ [n] \<and> fs_abs s q = Some (DirEntry_Directory d) \<and> y = x)" for p y
    using resolve_add [OF l n leaf fresh] r(1) root by (simp add: fs_abs_def)
  have none: "fs_abs s (q @ [n]) = None" using q n r(1) by (simp add: fs_abs_def resolve_snoc)
  show "fs_abs s' = (fs_abs s)(q @ [n] \<mapsto> x)"
  proof
    fix p
    show "fs_abs s' p = ((fs_abs s)(q @ [n] \<mapsto> x)) p"
    proof (cases "p = q @ [n]")
      case True
      then show ?thesis using iff [of p x] q by auto
    next
      case False
      have other: "q' = q" if "fs_abs s q' = Some (DirEntry_Directory d)" for q' by (rule fs_abs_inj [OF s that q])
      have same: "fs_abs s' p = Some y \<longleftrightarrow> fs_abs s p = Some y" for y
        using iff [of p y] False other by metis
      have "fs_abs s' p = fs_abs s p" using same by (metis option.exhaust)
      then show ?thesis using False by simp
    qed
  qed
qed

lemma fs_remove_entry:
  assumes s: "fs_inv s"
    and l: "\<And>c k. dir_lookup s' c k = (if c = d \<and> k = n then None else dir_lookup s c k)"
    and x: "dir_lookup s d n = Some x" and leaf: "\<And>c k. x = DirEntry_Directory c \<Longrightarrow> dir_lookup s c k = None"
    and root: "fs_root s' = fs_root s" "fs_next s' = fs_next s" "fs_files s' = fs_files s"
    and dirs: "\<And>c dir. fs_dirs s' c = Some dir \<Longrightarrow> \<exists>dir0. fs_dirs s c = Some dir0 \<and> distinct (map de_name (rd_entries dir))"
    and keep: "\<And>c dir. fs_dirs s c = Some dir \<Longrightarrow> \<exists>dir'. fs_dirs s' c = Some dir'
      \<and> (x \<noteq> DirEntry_Directory c \<longrightarrow> rd_remove_in_progress dir' = rd_remove_in_progress dir)"
    and q: "fs_abs s q = Some (DirEntry_Directory d)"
  shows "fs_inv s'" and "fs_abs s' = (fs_abs s)(q @ [n] := None)"
proof -
  from fs_invD(1) [OF s] obtain r dir where r: "fs_root s = Some r" "fs_dirs s r = Some dir" "\<not> rd_remove_in_progress dir" by blast
  have nr: "x \<noteq> DirEntry_Directory r" using fs_invD(4) [OF s x] r(1) by auto
  have "\<exists>r dir. fs_root s' = Some r \<and> fs_dirs s' r = Some dir \<and> \<not> rd_remove_in_progress dir"
    using r root keep [OF r(2)] nr by auto
  moreover have "entry_ok s' e" if e: "dir_lookup s' c k = Some e" for c k e
  proof -
    have old: "dir_lookup s c k = Some e" "c = d \<and> k = n \<Longrightarrow> False" using e by (auto simp: l split: if_splits)
    then have "e \<noteq> x" using fs_invD(5) [OF s old(1), of d n] x by auto
    then show ?thesis using fs_invD(4) [OF s old(1)] root keep by (cases e) auto
  qed
  moreover have "c = c' \<and> k = k'" if "dir_lookup s' c k = Some e" "dir_lookup s' c' k' = Some e" for c k c' k' e
    using that fs_invD(5) [OF s, of c k e c' k'] by (auto simp: l split: if_splits)
  moreover have "c < fs_next s' \<and> distinct (map de_name (rd_entries dir))" if "fs_dirs s' c = Some dir" for c dir
    using dirs [OF that] fs_invD(2) [OF s] root by auto
  moreover have "f < fs_next s'" if "fs_files s' f = Some fl" for f fl using that fs_invD(6) [OF s] root by auto
  ultimately show "fs_inv s'" unfolding fs_inv_def by metis
  have iff: "fs_abs s' p = Some y \<longleftrightarrow> fs_abs s p = Some y \<and> \<not> (\<exists>q. p = q @ [n] \<and> fs_abs s q = Some (DirEntry_Directory d))" for p y
    using resolve_remove [OF l x leaf] r(1) root by (simp add: fs_abs_def)
  show "fs_abs s' = (fs_abs s)(q @ [n] := None)"
  proof
    fix p
    show "fs_abs s' p = ((fs_abs s)(q @ [n] := None)) p"
    proof (cases "p = q @ [n]")
      case True
      then show ?thesis using iff [of p] q by (cases "fs_abs s' p") auto
    next
      case False
      have other: "q' = q" if "fs_abs s q' = Some (DirEntry_Directory d)" for q' by (rule fs_abs_inj [OF s that q])
      have same: "fs_abs s' p = Some y \<longleftrightarrow> fs_abs s p = Some y" for y
        using iff [of p y] False other by metis
      have "fs_abs s' p = fs_abs s p" using same by (metis option.exhaust)
      then show ?thesis using False by simp
    qed
  qed
qed

section \<open>The directory operations\<close>

lemma create_file_spec:
  assumes s: "fs_inv s" and q: "fs_abs s q = Some (DirEntry_Directory d)"
  shows "dir_lookup s d n \<noteq> None \<Longrightarrow> Directory_create_file d n s = Some (fs_err FsError_FileExists, s)"
    and "dir_lookup s d n = None \<Longrightarrow> \<exists>s'. Directory_create_file d n s = Some (Ok (fs_next s), s') \<and> fs_inv s'
      \<and> fs_abs s' = (fs_abs s)(q @ [n] \<mapsto> DirEntry_File (fs_next s))
      \<and> fs_files s' = (fs_files s)(fs_next s \<mapsto> RawRamFile_new) \<and> fs_mem s' = fs_mem s"
proof -
  from s q obtain dir where dir: "fs_dirs s d = Some dir" "\<not> rd_remove_in_progress dir" by (rule fs_abs_dir)
  {
    assume "dir_lookup s d n \<noteq> None"
    then show "Directory_create_file d n s = Some (fs_err FsError_FileExists, s)"
      using dir by (simp add: Directory_create_file_def check_remove_def has_entry_map dir_lookup_def)
  }
  assume n: "dir_lookup s d n = None"
  then have nm: "dir_map dir n = None" using dir by (simp add: dir_lookup_def)
  let ?f = "fs_next s"
  define dir' where "dir' = dir\<lparr>rd_entries := rd_entries dir @ [\<lparr> de_name = n, de_entry = DirEntry_File ?f \<rparr>]\<rparr>"
  define s' where "s' = put_dir d dir' (s\<lparr>fs_files := (fs_files s)(?f \<mapsto> RawRamFile_new), fs_next := Suc ?f\<rparr>)"
  have sel: "fs_root s' = fs_root s" "fs_next s' = Suc ?f" "fs_files s' = (fs_files s)(?f \<mapsto> RawRamFile_new)"
    "fs_dirs s' = (fs_dirs s)(d \<mapsto> dir')" "fs_mem s' = fs_mem s" by (simp_all add: s'_def put_dir_def)
  have m: "dir_map dir' = (dir_map dir)(n \<mapsto> DirEntry_File ?f)" unfolding dir'_def by (rule dir_map_append [OF nm])
  have rip: "rd_remove_in_progress dir' = rd_remove_in_progress dir" by (simp add: dir'_def)
  have dn: "distinct (map de_name (rd_entries dir'))"
    using fs_invD(3) [OF s dir(1)] nm has_entry_map [of dir n] by (auto simp: dir'_def has_entry_def)
  have l: "dir_lookup s' c k = (if c = d \<and> k = n then Some (DirEntry_File ?f) else dir_lookup s c k)" for c k
    using dir m by (simp add: dir_lookup_def sel)
  have ok: "entry_ok s e \<Longrightarrow> entry_ok s' e" for e using dir rip by (cases e) (auto simp: sel)
  have c: "Directory_create_file d n s = Some (Ok ?f, s')"
    using dir nm by (simp add: Directory_create_file_def check_remove_def has_entry_map s'_def dir'_def Let_def)
  have "fs_inv s'" "fs_abs s' = (fs_abs s)(q @ [n] \<mapsto> DirEntry_File ?f)"
    using fs_invD(2,3,6) [OF s] dir dn rip by (intro fs_add_entry [OF s l n sel(1) _ _ ok _ _ _ _ q];
      fastforce simp: sel less_Suc_eq split: if_splits)+
  then show "\<exists>s'. Directory_create_file d n s = Some (Ok (fs_next s), s') \<and> fs_inv s'
      \<and> fs_abs s' = (fs_abs s)(q @ [n] \<mapsto> DirEntry_File (fs_next s))
      \<and> fs_files s' = (fs_files s)(fs_next s \<mapsto> RawRamFile_new) \<and> fs_mem s' = fs_mem s"
    using c sel by blast
qed

lemma create_directory_spec:
  assumes s: "fs_inv s" and q: "fs_abs s q = Some (DirEntry_Directory d)"
  shows "dir_lookup s d n \<noteq> None \<Longrightarrow> Directory_create_directory d n s = Some (fs_err FsError_FileExists, s)"
    and "dir_lookup s d n = None \<Longrightarrow> \<exists>s'. Directory_create_directory d n s = Some (Ok (fs_next s), s') \<and> fs_inv s'
      \<and> fs_abs s' = (fs_abs s)(q @ [n] \<mapsto> DirEntry_Directory (fs_next s))
      \<and> fs_files s' = fs_files s \<and> fs_mem s' = fs_mem s"
proof -
  from s q obtain dir where dir: "fs_dirs s d = Some dir" "\<not> rd_remove_in_progress dir" by (rule fs_abs_dir)
  {
    assume "dir_lookup s d n \<noteq> None"
    then show "Directory_create_directory d n s = Some (fs_err FsError_FileExists, s)"
      using dir by (simp add: Directory_create_directory_def check_remove_def has_entry_map dir_lookup_def)
  }
  assume n: "dir_lookup s d n = None"
  then have nm: "dir_map dir n = None" using dir by (simp add: dir_lookup_def)
  let ?f = "fs_next s"
  define dir' where "dir' = dir\<lparr>rd_entries := rd_entries dir @ [\<lparr> de_name = n, de_entry = DirEntry_Directory ?f \<rparr>]\<rparr>"
  define s' where "s' = put_dir d dir' (s\<lparr>fs_dirs := (fs_dirs s)(?f \<mapsto> RawRamDirectory_new), fs_next := Suc ?f\<rparr>)"
  have sel: "fs_root s' = fs_root s" "fs_next s' = Suc ?f" "fs_files s' = fs_files s"
    "fs_dirs s' = (fs_dirs s)(?f \<mapsto> RawRamDirectory_new, d \<mapsto> dir')" "fs_mem s' = fs_mem s" by (simp_all add: s'_def put_dir_def)
  have m: "dir_map dir' = (dir_map dir)(n \<mapsto> DirEntry_Directory ?f)" unfolding dir'_def by (rule dir_map_append [OF nm])
  have rip: "rd_remove_in_progress dir' = rd_remove_in_progress dir" by (simp add: dir'_def)
  have dn: "distinct (map de_name (rd_entries dir'))"
    using fs_invD(3) [OF s dir(1)] nm has_entry_map [of dir n] by (auto simp: dir'_def has_entry_def)
  have new: "fs_dirs s ?f = None" using fs_invD(2) [OF s, of ?f] by (cases "fs_dirs s ?f") auto
  have ne: "?f \<noteq> d" using new dir by auto
  have empty: "dir_map RawRamDirectory_new = (\<lambda>_. None)" by (simp add: dir_map_def RawRamDirectory_new_def fun_eq_iff)
  have l: "dir_lookup s' c k = (if c = d \<and> k = n then Some (DirEntry_Directory ?f) else dir_lookup s c k)" for c k
    using dir m new empty ne by (auto simp: dir_lookup_def sel)
  have leaf: "dir_lookup s' c k = None" if "DirEntry_Directory ?f = DirEntry_Directory c" for c k
    using that ne empty by (simp add: dir_lookup_def sel)
  have ok: "entry_ok s e \<Longrightarrow> entry_ok s' e" for e using dir rip new by (cases e) (auto simp: sel)
  have c: "Directory_create_directory d n s = Some (Ok ?f, s')"
    using dir nm by (simp add: Directory_create_directory_def check_remove_def has_entry_map s'_def dir'_def Let_def)
  have root: "fs_root s \<noteq> Some ?f" using fs_invD(1) [OF s] new by auto
  have dirs: "c < fs_next s' \<and> distinct (map de_name (rd_entries dir))" if "fs_dirs s' c = Some dir" for c dir
    using that dn fs_invD(2,3) [OF s, of c dir] dir fs_invD(2) [OF s dir(1)]
    by (auto simp: sel RawRamDirectory_new_def split: if_splits)
  have keep: "\<exists>dir'. fs_dirs s' c = Some dir' \<and> rd_remove_in_progress dir' = rd_remove_in_progress dir" if "fs_dirs s c = Some dir" for c dir
    using that new rip dir by (auto simp: sel)
  have files: "f < fs_next s'" if "fs_files s' f = Some fl" for f fl using that fs_invD(6) [OF s] by (auto simp: sel less_Suc_eq)
  have x: "entry_ok s' (DirEntry_Directory ?f)" "\<not> entry_ok s (DirEntry_Directory ?f)" using root ne by (auto simp: sel RawRamDirectory_new_def)
  have "fs_inv s'" by (rule fs_add_entry(1) [OF s l n sel(1) dirs files ok x keep leaf q])
  moreover have "fs_abs s' = (fs_abs s)(q @ [n] \<mapsto> DirEntry_Directory ?f)"
    by (rule fs_add_entry(2) [OF s l n sel(1) dirs files ok x keep leaf q])
  ultimately show "\<exists>s'. Directory_create_directory d n s = Some (Ok (fs_next s), s') \<and> fs_inv s'
      \<and> fs_abs s' = (fs_abs s)(q @ [n] \<mapsto> DirEntry_Directory (fs_next s)) \<and> fs_files s' = fs_files s \<and> fs_mem s' = fs_mem s"
    using c sel by blast
qed

text \<open>Two states that differ only in the removal mark of the directory \<open>x\<close>.\<close>

definition same_tree :: "DirEntry \<Rightarrow> fs_state \<Rightarrow> fs_state \<Rightarrow> bool" where
  "same_tree x s s1 \<longleftrightarrow> fs_root s1 = fs_root s \<and> fs_next s1 = fs_next s \<and> fs_files s1 = fs_files s \<and> fs_mem s1 = fs_mem s
     \<and> (\<forall>c. rel_option (\<lambda>a b. rd_entries b = rd_entries a \<and> (x \<noteq> DirEntry_Directory c \<longrightarrow> rd_remove_in_progress b = rd_remove_in_progress a))
          (fs_dirs s c) (fs_dirs s1 c))"

lemma same_tree_refl [simp]: "same_tree x s s"
  by (simp add: same_tree_def option.rel_refl)

lemma same_tree_dir:
  assumes "same_tree x s s1"
  shows "fs_dirs s c = Some a \<Longrightarrow> \<exists>b. fs_dirs s1 c = Some b \<and> rd_entries b = rd_entries a
      \<and> (x \<noteq> DirEntry_Directory c \<longrightarrow> rd_remove_in_progress b = rd_remove_in_progress a)"
    and "fs_dirs s1 c = Some b \<Longrightarrow> \<exists>a. fs_dirs s c = Some a \<and> rd_entries b = rd_entries a"
    and "dir_lookup s1 c k = dir_lookup s c k"
proof -
  have c: "rel_option (\<lambda>a b. rd_entries b = rd_entries a \<and> (x \<noteq> DirEntry_Directory c \<longrightarrow> rd_remove_in_progress b = rd_remove_in_progress a))
      (fs_dirs s c) (fs_dirs s1 c)" using assms by (simp add: same_tree_def)
  show "fs_dirs s c = Some a \<Longrightarrow> \<exists>b. fs_dirs s1 c = Some b \<and> rd_entries b = rd_entries a
      \<and> (x \<noteq> DirEntry_Directory c \<longrightarrow> rd_remove_in_progress b = rd_remove_in_progress a)"
    using c by (auto simp: option_rel_Some1)
  show "fs_dirs s1 c = Some b \<Longrightarrow> \<exists>a. fs_dirs s c = Some a \<and> rd_entries b = rd_entries a"
    using c by (auto simp: option_rel_Some2)
  show "dir_lookup s1 c k = dir_lookup s c k"
    using c by (cases "fs_dirs s c"; cases "fs_dirs s1 c") (auto simp: dir_lookup_def dir_map_def)
qed

lemma unlink_spec:
  assumes s: "fs_inv s" and q: "fs_abs s q = Some (DirEntry_Directory d)" and x: "dir_lookup s d n = Some x"
    and leaf: "\<And>c k. x = DirEntry_Directory c \<Longrightarrow> dir_lookup s c k = None" and s1: "same_tree x s s1"
  shows "\<exists>s'. Directory_unlink d n s1 = Some (Ok (), s') \<and> fs_inv s' \<and> fs_abs s' = (fs_abs s)(q @ [n] := None)
    \<and> fs_files s' = fs_files s \<and> fs_mem s' = fs_mem s"
proof -
  from s q obtain dir where dir: "fs_dirs s d = Some dir" by (rule fs_abs_dir)
  from same_tree_dir(1) [OF s1 dir] obtain dir1 where dir1: "fs_dirs s1 d = Some dir1" "rd_entries dir1 = rd_entries dir"
    "x \<noteq> DirEntry_Directory d \<Longrightarrow> rd_remove_in_progress dir1 = rd_remove_in_progress dir" by auto
  have dn: "distinct (map de_name (rd_entries dir1))" using fs_invD(3) [OF s dir] dir1 by simp
  have "dir_map dir1 n = Some x" using x dir dir1 by (simp add: dir_lookup_def dir_map_def)
  from dir_unlink_map(2) [OF dn this] obtain dir' where dir': "dir_unlink n dir1 = (Ok (), dir')"
    "dir_map dir' = (dir_map dir1)(n := None)" "distinct (map de_name (rd_entries dir'))"
    "rd_remove_in_progress dir' = rd_remove_in_progress dir1" by blast
  define s' where "s' = put_dir d dir' s1"
  have eq: "fs_root s1 = fs_root s" "fs_next s1 = fs_next s" "fs_files s1 = fs_files s" "fs_mem s1 = fs_mem s"
    using s1 by (simp_all add: same_tree_def)
  have sel: "fs_root s' = fs_root s" "fs_next s' = fs_next s" "fs_files s' = fs_files s" "fs_mem s' = fs_mem s"
    "fs_dirs s' = (fs_dirs s1)(d \<mapsto> dir')" by (simp_all add: s'_def put_dir_def eq)
  have l: "dir_lookup s' c k = (if c = d \<and> k = n then None else dir_lookup s c k)" for c k
    using same_tree_dir(3) [OF s1, of c k] dir1 dir'(2) by (auto simp: dir_lookup_def sel)
  have dirs: "\<exists>dir0. fs_dirs s c = Some dir0 \<and> distinct (map de_name (rd_entries dir))" if "fs_dirs s' c = Some dir" for c dir
  proof (cases "c = d")
    case True
    then show ?thesis using that dir'(3) \<open>fs_dirs s d = Some _\<close> by (auto simp: sel)
  next
    case False
    then have "fs_dirs s1 c = Some dir" using that by (simp add: sel)
    from same_tree_dir(2) [OF s1 this] obtain a where "fs_dirs s c = Some a" "rd_entries dir = rd_entries a" by auto
    then show ?thesis using fs_invD(3) [OF s] by auto
  qed
  have keep: "\<exists>dir'. fs_dirs s' c = Some dir' \<and> (x \<noteq> DirEntry_Directory c \<longrightarrow> rd_remove_in_progress dir' = rd_remove_in_progress dir)"
    if "fs_dirs s c = Some dir" for c dir
    using same_tree_dir(1) [OF s1 that] dir1(3) dir' that \<open>fs_dirs s d = Some _\<close> by (cases "c = d") (auto simp: sel)
  have "fs_inv s'" by (rule fs_remove_entry(1) [OF s l x leaf sel(1-3) dirs keep q])
  moreover have "fs_abs s' = (fs_abs s)(q @ [n] := None)" by (rule fs_remove_entry(2) [OF s l x leaf sel(1-3) dirs keep q])
  moreover have "Directory_unlink d n s1 = Some (Ok (), s')" using dir1(1) dir'(1) by (simp add: Directory_unlink_def s'_def)
  ultimately show ?thesis using sel by blast
qed

lemma rmdir_spec:
  assumes s: "fs_inv s" and q: "fs_abs s q = Some (DirEntry_Directory d)" and x: "dir_lookup s d n = Some (DirEntry_Directory t)"
  shows "\<exists>k. fs_abs s (q @ [n, k]) \<noteq> None \<Longrightarrow> Directory_prepare_remove t s = Some (fs_err FsError_NotEmpty, s)"
    and "\<forall>k. fs_abs s (q @ [n, k]) = None \<Longrightarrow>
      \<exists>s'. bindM (Directory_prepare_remove t) (\<lambda>_. Directory_unlink d n) s = Some (Ok (), s') \<and> fs_inv s'
        \<and> fs_abs s' = (fs_abs s)(q @ [n] := None) \<and> fs_files s' = fs_files s \<and> fs_mem s' = fs_mem s"
proof -
  from fs_invD(1) [OF s] obtain r where r: "fs_root s = Some r" by blast
  have n: "fs_abs s (q @ [n]) = Some (DirEntry_Directory t)" using q x r by (simp add: fs_abs_def resolve_snoc)
  have k: "fs_abs s (q @ [n, k]) = dir_lookup s t k" for k
    using resolve_snoc [of s _ "q @ [n]" k] n r by (simp add: fs_abs_def)
  from s n obtain dir where dir: "fs_dirs s t = Some dir" "\<not> rd_remove_in_progress dir" by (rule fs_abs_dir)
  have empty: "rd_entries dir = [] \<longleftrightarrow> (\<forall>k. dir_lookup s t k = None)"
    using dir_map_entry [OF fs_invD(3) [OF s dir(1)], of "hd (rd_entries dir)"] dir(1)
    by (cases "rd_entries dir") (auto simp: dir_lookup_def dir_map_def)
  {
    assume "\<exists>k. fs_abs s (q @ [n, k]) \<noteq> None"
    then show "Directory_prepare_remove t s = Some (fs_err FsError_NotEmpty, s)"
      using dir k empty by (auto simp: Directory_prepare_remove_def prepare_remove_def check_remove_def put_dir_def fun_upd_idem)
  }
  assume none: "\<forall>k. fs_abs s (q @ [n, k]) = None"
  define s1 where "s1 = put_dir t (dir\<lparr>rd_remove_in_progress := True\<rparr>) s"
  have p: "Directory_prepare_remove t s = Some (Ok (), s1)"
    using dir k empty none by (simp add: Directory_prepare_remove_def prepare_remove_def check_remove_def s1_def)
  have leaf: "dir_lookup s c k = None" if "DirEntry_Directory t = DirEntry_Directory c" for c k using that none k by simp
  have st: "same_tree (DirEntry_Directory t) s s1" using dir(1) by (auto simp: same_tree_def s1_def put_dir_def option.rel_refl)
  from unlink_spec [OF s q x leaf st] obtain s' where "Directory_unlink d n s1 = Some (Ok (), s') \<and> fs_inv s'
      \<and> fs_abs s' = (fs_abs s)(q @ [n] := None) \<and> fs_files s' = fs_files s \<and> fs_mem s' = fs_mem s" by blast
  then show "\<exists>s'. bindM (Directory_prepare_remove t) (\<lambda>_. Directory_unlink d n) s = Some (Ok (), s') \<and> fs_inv s'
      \<and> fs_abs s' = (fs_abs s)(q @ [n] := None) \<and> fs_files s' = fs_files s \<and> fs_mem s' = fs_mem s"
    using p by (auto simp: bindM_def)
qed

section \<open>Walking to the parent of a path\<close>

lemma fs_abs_parent:
  assumes "fs_inv s" and "p \<noteq> []"
  shows "fs_abs s p = (case fs_abs s (butlast p) of Some (DirEntry_Directory d) \<Rightarrow> dir_lookup s d (last p) | _ \<Rightarrow> None)"
proof -
  from fs_invD(1) [OF assms(1)] obtain r where r: "fs_root s = Some r" by blast
  then show ?thesis using resolve_snoc [of s _ "butlast p" "last p"] assms(2) by (simp add: fs_abs_def)
qed

lemma walk_parent_spec:
  assumes s: "fs_inv s" and r: "fs_root s = Some r"
  shows "walk_parent r path s = Some (let p = split_path_allow_empty path in
    if p = [] then fs_err FsError_Inval
    else case fs_abs s (butlast p) of Some (DirEntry_Directory d) \<Rightarrow> Ok (d, last p) | _ \<Rightarrow> fs_err FsError_FileNotFound)"
proof -
  have "fs_dirs s r \<noteq> None" using fs_invD(1) [OF s] r by auto
  from walk_path_resolve [OF s this] show ?thesis
    by (auto simp: walk_parent_def split_path_def Let_def fs_abs_def r split: option.splits DirEntry.splits)
qed

lemma Directory_lookup_spec:
  assumes s: "fs_inv s" and p: "p \<noteq> []" and q: "fs_abs s (butlast p) = Some (DirEntry_Directory d)"
  shows "Directory_lookup_entry d (last p) s = Some (case fs_abs s p of Some e \<Rightarrow> Ok e | None \<Rightarrow> fs_err FsError_FileNotFound)"
proof -
  from s q obtain dir where dir: "fs_dirs s d = Some dir" by (rule fs_abs_dir)
  then show ?thesis using q fs_abs_parent [OF s p] by (simp add: Directory_lookup_entry_def lookup_entry_map dir_lookup_def)
qed

end
