(* ===== verification/Ram_File_Lemmas.thy ===== *)
theory Ram_File_Lemmas
  imports Ram_File Slab_Heap
begin

text \<open>
  Files as byte sequences: the invariant of a file over its pages in the heap, and the effect of
  the page operations and loops on the bytes of the file.
\<close>

section \<open>Memory\<close>

lemma mem_write_other: "x < a \<or> a + length bs \<le> x \<Longrightarrow> mem_write mem a bs x = mem x"
  by (auto simp: mem_write_def)

lemma mem_write_at: "i < length bs \<Longrightarrow> mem_write mem a bs (a + i) = bs ! i"
  by (simp add: mem_write_def)

lemma mem_read_nth [simp]: "i < n \<Longrightarrow> mem_read mem a n ! i = mem (a + i)" "length (mem_read mem a n) = n"
  by (simp_all add: mem_read_def)

lemma pm_root_write [simp]: "pm_root (pm_write v bs m) = pm_root m"
  by (simp add: pm_write_def)

lemma page_offset_nat: "k < 2 ^ 64 \<Longrightarrow> unat (page_offset (of_nat k)) = k mod PAGE_SIZE"
proof -
  assume "k < 2 ^ 64"
  then have u: "unat (of_nat k :: u64) = k" by (rule unat_of_nat_u64)
  have m: "PAGE_SIZE_W - 1 = (mask 12 :: u64)" by (simp add: page_consts mask_eq_exp_minus_1)
  show ?thesis unfolding page_offset_def m unat_and_mask u by (simp add: page_consts)
qed

section \<open>Files over their frames\<close>

definition file_page :: "HeapMemoryRegion \<Rightarrow> PageRef \<Rightarrow> nat \<Rightarrow> bool" where
  "file_page r p f \<longleftrightarrow> f < hm_page_count r \<and> pr_virt_addr p = page_vaddr r f
     \<and> (\<exists>n. ah_used (heap_abs r) f = Some (PageInfo_File (FileInfo n)) \<and> 0 < n \<and> unat n + 1 < 2 ^ 60)"

text \<open>The byte at a position of a file.\<close>

definition file_byte :: "file_state \<Rightarrow> nat \<Rightarrow> u8" where
  "file_byte s k = pm_bytes (snd s)
     (unat (virt_bits (pr_virt_addr (rf_pages (fst s) ! (k div PAGE_SIZE)))) + k mod PAGE_SIZE)"

definition file_at :: "nat set \<Rightarrow> nat list \<Rightarrow> file_state \<Rightarrow> bool" where
  "file_at B fs s \<longleftrightarrow> root_ok B (pm_root (snd s)) \<and> distinct fs \<and> length fs = length (rf_pages (fst s))
     \<and> (\<forall>i < length fs. file_page (pm_root (snd s)) (rf_pages (fst s) ! i) (fs ! i))
     \<and> rf_capacity (fst s) = length fs * PAGE_SIZE \<and> rf_size (fst s) \<le> rf_capacity (fst s)
     \<and> (\<forall>k. rf_size (fst s) \<le> k \<longrightarrow> k < rf_capacity (fst s) \<longrightarrow> file_byte s k = 0)"

definition content :: "file_state \<Rightarrow> u8 list" where
  "content s = map (file_byte s) [0 ..< rf_size (fst s)]"

text \<open>The frames in use outside \<open>F\<close> keep their metadata and contents.\<close>

definition others_same :: "nat set \<Rightarrow> page_mem \<Rightarrow> page_mem \<Rightarrow> bool" where
  "others_same F m m' \<longleftrightarrow> hm_start_virt (pm_root m') = hm_start_virt (pm_root m)
     \<and> hm_page_count (pm_root m') = hm_page_count (pm_root m)
     \<and> (\<forall>g i. ah_used (heap_abs (pm_root m)) g = Some i \<longrightarrow> g \<notin> F \<longrightarrow>
          ah_used (heap_abs (pm_root m')) g = Some i
          \<and> (\<forall>x \<in> page_bytes (page_vaddr (pm_root m) g). pm_bytes m' x = pm_bytes m x))"

lemma others_same_refl [simp]: "others_same F m m"
  by (simp add: others_same_def)

lemma others_same_trans: "others_same F a b \<Longrightarrow> others_same F b c \<Longrightarrow> others_same F a c"
  using page_vaddr_cong [of "pm_root b" "pm_root a"] by (simp add: others_same_def) metis

lemma others_same_mono: "others_same F a b \<Longrightarrow> F \<subseteq> G \<Longrightarrow> others_same G a b"
  by (auto simp: others_same_def)

lemma file_atD:
  assumes "file_at B fs s"
  shows "root_ok B (pm_root (snd s))" "distinct fs" "length (rf_pages (fst s)) = length fs"
    "i < length fs \<Longrightarrow> file_page (pm_root (snd s)) (rf_pages (fst s) ! i) (fs ! i)"
    "rf_capacity (fst s) = length fs * PAGE_SIZE" "rf_size (fst s) \<le> rf_capacity (fst s)"
    "rf_size (fst s) \<le> k \<Longrightarrow> k < rf_capacity (fst s) \<Longrightarrow> file_byte s k = 0"
    "i < length fs \<Longrightarrow> fs ! i < hm_page_count (pm_root (snd s))"
    "i < length fs \<Longrightarrow> pr_virt_addr (rf_pages (fst s) ! i) = page_vaddr (pm_root (snd s)) (fs ! i)"
  using assms by (auto simp: file_at_def file_page_def)

lemma file_at_small:
  assumes "file_at B fs s"
  shows "length fs \<le> hm_page_count (pm_root (snd s))" and "length fs * PAGE_SIZE < 2 ^ 36"
proof -
  note D = file_atD [OF assms]
  have "set fs \<subseteq> {..< hm_page_count (pm_root (snd s))}" using D(8) by (auto simp: in_set_conv_nth)
  then have "card (set fs) \<le> hm_page_count (pm_root (snd s))" by (metis card_lessThan card_mono finite_lessThan)
  then show "length fs \<le> hm_page_count (pm_root (snd s))" using distinct_card [OF D(2)] by simp
  then have "length fs < 2 ^ 24" using D(1) by (simp add: root_ok_def)
  then show "length fs * PAGE_SIZE < 2 ^ 36" by (simp add: page_consts)
qed

lemma file_pos:
  assumes "k < n * PAGE_SIZE"
  shows "k div PAGE_SIZE < n" and "k mod PAGE_SIZE < PAGE_SIZE"
  using assms by (simp_all add: less_mult_imp_div_less page_consts)

lemma page_index: "n * PAGE_SIZE \<le> k \<Longrightarrow> k < n * PAGE_SIZE + PAGE_SIZE \<Longrightarrow> k div PAGE_SIZE = n"
  by (intro div_nat_eqI) (simp_all add: mult.commute)

text \<open>Writing inside one frame.\<close>

lemma frame_write:
  assumes r: "root_ok B r" and f: "f < hm_page_count r" and o: "off + length bs \<le> PAGE_SIZE"
    and g: "g < hm_page_count r" and j: "j < PAGE_SIZE"
  shows "mem_write mem (unat (virt_bits (page_vaddr r f)) + off) bs (unat (virt_bits (page_vaddr r g)) + j)
    = (if g = f \<and> off \<le> j \<and> j < off + length bs then bs ! (j - off) else mem (unat (virt_bits (page_vaddr r g)) + j))"
proof (cases "g = f")
  case False
  have "unat (virt_bits (page_vaddr r g)) + j \<in> page_bytes (page_vaddr r g)" using j by (simp add: page_bytes_def)
  then have "unat (virt_bits (page_vaddr r g)) + j \<notin> page_bytes (page_vaddr r f)"
    using frames_disjoint [OF r g f False] by blast
  then have "unat (virt_bits (page_vaddr r g)) + j < unat (virt_bits (page_vaddr r f))
      \<or> unat (virt_bits (page_vaddr r f)) + PAGE_SIZE \<le> unat (virt_bits (page_vaddr r g)) + j"
    by (auto simp: page_bytes_def)
  then show ?thesis using o False by (subst mem_write_other) auto
qed (auto simp: mem_write_def)

lemma frame_add:
  assumes "root_ok B r" and "f < hm_page_count r" and "off \<le> PAGE_SIZE"
  shows "VirtAddr_add (page_vaddr r f) (of_nat off) = Some (VirtAddr (virt_bits (page_vaddr r f) + of_nat off))"
    "VirtAddr_const_add (page_vaddr r f) (of_nat off) = Some (VirtAddr (virt_bits (page_vaddr r f) + of_nat off))"
    "unat (virt_bits (page_vaddr r f) + of_nat off) = unat (virt_bits (page_vaddr r f)) + off"
  using page_addr_add [OF frame_addr(1) [OF assms(1,2)] assms(3)]
  by (simp_all add: VirtAddr_const_add_def VirtAddr_add_def VirtAddr_new_def VirtAddr_from_def)

lemma frame_write_others:
  assumes r: "root_ok B (pm_root m)" and f: "f < hm_page_count (pm_root m)" and o: "off + length bs \<le> PAGE_SIZE"
  shows "others_same {f} m (pm_write (VirtAddr (virt_bits (page_vaddr (pm_root m) f) + of_nat off)) bs m)"
proof -
  let ?r = "pm_root m"
  have u: "unat (virt_bits (page_vaddr ?r f) + of_nat off) = unat (virt_bits (page_vaddr ?r f)) + off"
    using frame_add(3) [OF r f] o by simp
  have "mem_write (pm_bytes m) (unat (virt_bits (page_vaddr ?r f)) + off) bs x = pm_bytes m x"
    if g: "ah_used (heap_abs ?r) g = Some i" "g \<noteq> f" and x: "x \<in> page_bytes (page_vaddr ?r g)" for g i x
  proof -
    have gn: "g < hm_page_count ?r" using g(1) by (auto simp: heap_abs_def heap_used_def split: if_splits)
    from x obtain j where j: "x = unat (virt_bits (page_vaddr ?r g)) + j" "j < PAGE_SIZE"
      by (auto simp: page_bytes_def) (metis add.commute add_less_cancel_left le_add_diff_inverse)
    show ?thesis using frame_write [OF r f o gn j(2), of "pm_bytes m"] g(2) by (simp add: j(1))
  qed
  then show ?thesis by (auto simp: others_same_def pm_write_def u)
qed

section \<open>Reading and writing pages of a file\<close>

lemma file_page_write:
  assumes s: "file_at B fs (self, m)" and i: "i < length fs" and o: "off + length bs \<le> PAGE_SIZE"
  defines "m' \<equiv> pm_write (VirtAddr (virt_bits (page_vaddr (pm_root m) (fs ! i)) + of_nat off)) bs m"
  shows "pm_root m' = pm_root m" and "others_same (set fs) m m'"
    and "rf_pages self' = rf_pages self \<Longrightarrow> k < rf_capacity self \<Longrightarrow> file_byte (self', m') k =
      (if i * PAGE_SIZE + off \<le> k \<and> k < i * PAGE_SIZE + off + length bs then bs ! (k - (i * PAGE_SIZE + off))
       else file_byte (self, m) k)"
proof -
  note D = file_atD [OF s, simplified] and f = file_atD(8) [OF s i, simplified]
  show "pm_root m' = pm_root m" by (simp add: m'_def pm_write_def)
  show "others_same (set fs) m m'"
    unfolding m'_def by (rule others_same_mono [OF frame_write_others [OF D(1) f o]]) (use i in auto)
  assume pages: "rf_pages self' = rf_pages self" and k: "k < rf_capacity self"
  let ?j = "k div PAGE_SIZE" and ?l = "k mod PAGE_SIZE"
  have jl: "?j < length fs" "?l < PAGE_SIZE" using k file_pos [of k "length fs"] by (simp_all add: D(5))
  have kj: "k = ?j * PAGE_SIZE + ?l" by simp
  have eq: "fs ! ?j = fs ! i \<longleftrightarrow> ?j = i" using D(2) jl(1) i by (simp add: nth_eq_iff_index_eq)
  have u: "unat (virt_bits (page_vaddr (pm_root m) (fs ! i)) + of_nat off) = unat (virt_bits (page_vaddr (pm_root m) (fs ! i))) + off"
    using frame_add(3) [OF D(1) f] o by simp
  have "file_byte (self', m') k = (if ?j = i \<and> off \<le> ?l \<and> ?l < off + length bs then bs ! (?l - off) else file_byte (self, m) k)"
    using frame_write [OF D(1) f o file_atD(8) [OF s jl(1), simplified] jl(2), of "pm_bytes m"] D(9) [OF jl(1)]
    by (simp add: file_byte_def m'_def pm_write_def pages u eq)
  moreover have "(?j = i \<and> off \<le> ?l \<and> ?l < off + length bs) \<longleftrightarrow> (i * PAGE_SIZE + off \<le> k \<and> k < i * PAGE_SIZE + off + length bs)"
  proof
    assume c: "i * PAGE_SIZE + off \<le> k \<and> k < i * PAGE_SIZE + off + length bs"
    then have "i * PAGE_SIZE \<le> k" "k < i * PAGE_SIZE + PAGE_SIZE" using o by auto
    then have "?j = i" by (rule page_index)
    then show "?j = i \<and> off \<le> ?l \<and> ?l < off + length bs" using c kj by auto
  qed (use kj in auto)
  moreover have "?j = i \<Longrightarrow> k - (i * PAGE_SIZE + off) = ?l - off" using kj by auto
  ultimately show "file_byte (self', m') k =
      (if i * PAGE_SIZE + off \<le> k \<and> k < i * PAGE_SIZE + off + length bs then bs ! (k - (i * PAGE_SIZE + off))
       else file_byte (self, m) k)" by auto
qed

section \<open>Allocating file pages\<close>

abbreviation FileP :: "u64 \<Rightarrow> PageInfo" where
  "FileP n \<equiv> PageInfo_File (FileInfo n)"

lemma zero_page:
  assumes r: "root_ok B r" and f: "f < hm_page_count r"
  shows "VirtAddr_add (page_vaddr r f) PAGE_SIZE_W = Some (VirtAddr (virt_bits (page_vaddr r f) + PAGE_SIZE_W))"
    and "zero_mem_region (page_vaddr r f) (VirtAddr (virt_bits (page_vaddr r f) + PAGE_SIZE_W)) m
      = Some (pm_write (VirtAddr (virt_bits (page_vaddr r f) + of_nat 0)) (replicate PAGE_SIZE 0) m)"
proof -
  let ?v = "virt_bits (page_vaddr r f)"
  show "VirtAddr_add (page_vaddr r f) PAGE_SIZE_W = Some (VirtAddr (?v + PAGE_SIZE_W))"
    using frame_add(1) [OF r f order_refl] .
  have "?v \<noteq> 0" using frame_addr(1) [OF r f] by (simp add: page_addr_ok_def)
  moreover have u: "unat (?v + PAGE_SIZE_W) = unat ?v + PAGE_SIZE" by (rule frame_add(3) [OF r f order_refl])
  then have "wsub (?v + PAGE_SIZE_W) ?v = Some PAGE_SIZE_W"
    by (simp add: wsub_def word_le_nat_alt)
  moreover have uw: "unat PAGE_SIZE_W = PAGE_SIZE" by (simp add: page_consts)
  then have "canonical PAGE_SIZE_W" unfolding canonical_unat uw by (simp add: page_consts)
  ultimately show "zero_mem_region (page_vaddr r f) (VirtAddr (?v + PAGE_SIZE_W)) m
      = Some (pm_write (VirtAddr (?v + of_nat 0)) (replicate PAGE_SIZE 0) m)"
    using uw by (simp add: zero_mem_region_def VirtAddr_checked_sub_def sign_extend_canonical VirtAddr_from_def)
qed

lemma allocate_file_page_ok:
  assumes m: "root_ok B (pm_root m)"
  shows "(\<exists>f m1. allocate_file_page m = Some (Ok (page_vaddr (pm_root m) f),
          pm_write (VirtAddr (virt_bits (page_vaddr (pm_root m1) f) + of_nat 0)) (replicate PAGE_SIZE 0) m1)
        \<and> root_ok B (pm_root m1) \<and> f < hm_page_count (pm_root m1) \<and> ah_used (heap_abs (pm_root m)) f = None
        \<and> ah_used (heap_abs (pm_root m1)) = (ah_used (heap_abs (pm_root m)))(f \<mapsto> FileP 1)
        \<and> hm_start_virt (pm_root m1) = hm_start_virt (pm_root m) \<and> hm_page_count (pm_root m1) = hm_page_count (pm_root m)
        \<and> pm_bytes m1 = pm_bytes m)
    \<or> allocate_file_page m = Some (Err (SvsmError_Alloc AllocError_OutOfMemory), m)"
proof -
  let ?r = "pm_root m"
  have inv: "heap_inv B ?r" using m by (simp add: root_ok_def)
  have "used_page 0 (FileP 1)" "0 < MAX_ORDER" by (simp_all add: MAX_ORDER_def)
  from heap_alloc_refines [OF inv this(2,1)] show ?thesis
  proof (elim disjE exE conjE)
    fix f r' assume f: "allocate_pages_info 0 (FileP 1) ?r = Some (Ok (page_vaddr ?r f), r')" "heap_inv B r'"
      "f < hm_page_count ?r" "abs_alloc 0 (FileP 1) f (heap_abs ?r) (heap_abs r')" "hm_start_virt r' = hm_start_virt ?r"
      "hm_page_count r' = hm_page_count ?r"
    let ?m = "m\<lparr>pm_root := r'\<rparr>"
    have root: "root_ok B r'" using m f by (simp add: root_ok_def)
    note pv = page_vaddr_cong [OF f(5)]
    have "f < hm_page_count r'" using f(3,6) by simp
    from zero_page [OF root this] have "allocate_file_page m = Some (Ok (page_vaddr ?r f),
        pm_write (VirtAddr (virt_bits (page_vaddr r' f) + of_nat 0)) (replicate PAGE_SIZE 0) ?m)"
      using f(1) by (simp add: allocate_file_page_def on_root_def heap_allocate_file_page_def FileInfo_new_def bindM_def pv Let_def)
    then show ?thesis using root f(3-6) by (intro disjI1 exI [of _ f] exI [of _ ?m]) (auto simp: abs_alloc_def)
  next
    assume "allocate_pages_info 0 (FileP 1) ?r = Some (Err AllocError_OutOfMemory, ?r)"
    then show ?thesis
      by (simp add: allocate_file_page_def on_root_def heap_allocate_file_page_def FileInfo_new_def bindM_def Let_def)
  qed
qed

lemma others_same_fresh:
  assumes o: "others_same {f} m1 m2" and f: "ah_used (heap_abs (pm_root m)) f = None"
    and u: "ah_used (heap_abs (pm_root m1)) = (ah_used (heap_abs (pm_root m)))(f \<mapsto> x)"
    and m1: "hm_start_virt (pm_root m1) = hm_start_virt (pm_root m)" "hm_page_count (pm_root m1) = hm_page_count (pm_root m)"
      "pm_bytes m1 = pm_bytes m"
  shows "others_same {} m m2"
  unfolding others_same_def
proof (intro conjI allI impI)
  fix g i assume g: "ah_used (heap_abs (pm_root m)) g = Some i"
  then have "ah_used (heap_abs (pm_root m1)) g = Some i" "g \<noteq> f" using f u by auto
  then show "ah_used (heap_abs (pm_root m2)) g = Some i"
    "\<forall>x \<in> page_bytes (page_vaddr (pm_root m) g). pm_bytes m2 x = pm_bytes m x"
    using o m1(3) page_vaddr_cong [OF m1(1)] by (auto simp: others_same_def)
qed (use o m1 in \<open>simp_all add: others_same_def\<close>)

text \<open>The page table maps the pages of the heap.\<close>

definition heap_mapped :: "translation \<Rightarrow> HeapMemoryRegion \<Rightarrow> bool" where
  "heap_mapped V r \<longleftrightarrow> (\<forall>f < hm_page_count r. V (page_vaddr r f) \<noteq> None)"

lemma heap_mapped_same: "others_same F m m' \<Longrightarrow> heap_mapped V (pm_root m) \<Longrightarrow> heap_mapped V (pm_root m')"
  using page_vaddr_cong [of "pm_root m'" "pm_root m"] by (simp add: heap_mapped_def others_same_def)

lemma file_page_same:
  assumes "others_same F m m'" and "file_page (pm_root m) p f" and "f \<notin> F"
  shows "file_page (pm_root m') p f"
  using assms page_vaddr_cong [of "pm_root m'" "pm_root m"] by (auto simp: file_page_def others_same_def)

text \<open>The bytes of a file whose frames are kept.\<close>

lemma file_byte_same:
  assumes s: "file_at B fs (self, m)" and o: "others_same F m m'" and F: "set fs \<inter> F = {}" and k: "k < rf_capacity self"
    and pages: "\<And>i. i < length fs \<Longrightarrow> rf_pages self' ! i = rf_pages self ! i"
  shows "file_byte (self', m') k = file_byte (self, m) k"
proof -
  note D = file_atD [OF s, simplified]
  let ?j = "k div PAGE_SIZE"
  have j: "?j < length fs" "k mod PAGE_SIZE < PAGE_SIZE" using k file_pos [of k "length fs"] by (simp_all add: D(5))
  have "fs ! ?j \<notin> F" using F j(1) by (auto dest: nth_mem)
  moreover obtain n where "ah_used (heap_abs (pm_root m)) (fs ! ?j) = Some (FileP n)" using D(4) [OF j(1)] by (auto simp: file_page_def)
  ultimately have "\<forall>x \<in> page_bytes (page_vaddr (pm_root m) (fs ! ?j)). pm_bytes m' x = pm_bytes m x"
    using o by (auto simp: others_same_def)
  moreover have "unat (virt_bits (page_vaddr (pm_root m) (fs ! ?j))) + k mod PAGE_SIZE \<in> page_bytes (page_vaddr (pm_root m) (fs ! ?j))"
    using j(2) by (simp add: page_bytes_def)
  ultimately show ?thesis using pages [OF j(1)] D(9) [OF j(1)] by (simp add: file_byte_def)
qed

lemma increase_capacity_ok:
  assumes s: "file_at B fs (self, m)" and V: "heap_mapped V (pm_root m)"
  shows "(\<exists>f p m'. increase_capacity V (self, m) =
          Some (Ok (), (self\<lparr>rf_pages := rf_pages self @ [p], rf_capacity := rf_capacity self + PAGE_SIZE\<rparr>, m'))
        \<and> file_at B (fs @ [f]) (self\<lparr>rf_pages := rf_pages self @ [p], rf_capacity := rf_capacity self + PAGE_SIZE\<rparr>, m')
        \<and> others_same {} m m' \<and> ah_used (heap_abs (pm_root m)) f = None)
    \<or> increase_capacity V (self, m) = Some (Err (SvsmError_Alloc AllocError_OutOfMemory), (self, m))"
proof -
  note D = file_atD [OF s, simplified]
  from allocate_file_page_ok [OF D(1)] show ?thesis
  proof (elim disjE exE conjE)
    fix f m1 assume f: "allocate_file_page m = Some (Ok (page_vaddr (pm_root m) f),
          pm_write (VirtAddr (virt_bits (page_vaddr (pm_root m1) f) + of_nat 0)) (replicate PAGE_SIZE 0) m1)"
      "root_ok B (pm_root m1)" "f < hm_page_count (pm_root m1)" "ah_used (heap_abs (pm_root m)) f = None"
      "ah_used (heap_abs (pm_root m1)) = (ah_used (heap_abs (pm_root m)))(f \<mapsto> FileP 1)"
      "hm_start_virt (pm_root m1) = hm_start_virt (pm_root m)" "hm_page_count (pm_root m1) = hm_page_count (pm_root m)"
      "pm_bytes m1 = pm_bytes m"
    let ?m = "pm_write (VirtAddr (virt_bits (page_vaddr (pm_root m1) f) + of_nat 0)) (replicate PAGE_SIZE (0::u8)) m1"
    note pv = page_vaddr_cong [OF f(6)]
    have root: "pm_root ?m = pm_root m1" by (simp add: pm_write_def)
    have o1: "others_same {f} m1 ?m" by (rule frame_write_others [OF f(2,3)]) simp
    have o: "others_same {} m ?m" by (rule others_same_fresh [OF o1 f(4-8)])
    have fn: "f \<notin> set fs"
    proof
      assume "f \<in> set fs"
      then obtain i where i: "i < length fs" "fs ! i = f" by (auto simp: in_set_conv_nth)
      show False using D(4) [OF i(1)] i(2) f(4) by (auto simp: file_page_def)
    qed
    obtain pa where pa: "V (page_vaddr (pm_root m) f) = Some pa"
      using V f(3,7) by (auto simp: heap_mapped_def)
    let ?p = "\<lparr>pr_virt_addr = page_vaddr (pm_root m) f, pr_phys_addr = pa\<rparr>"
    let ?self = "self\<lparr>rf_pages := rf_pages self @ [?p], rf_capacity := rf_capacity self + PAGE_SIZE\<rparr>"
    have fp: "file_page (pm_root ?m) ?p f" using f(3,5) by (simp add: file_page_def pv)
    have new: "file_byte (?self, ?m) k = 0" if k: "rf_capacity self \<le> k" "k < rf_capacity self + PAGE_SIZE" for k
    proof -
      have "k div PAGE_SIZE = length fs" "k mod PAGE_SIZE < PAGE_SIZE"
        using k by (simp_all add: D(5) page_index)
      moreover have "unat (virt_bits (page_vaddr (pm_root m1) f) + of_nat 0) = unat (virt_bits (page_vaddr (pm_root m1) f)) + 0"
        by simp
      ultimately show ?thesis using D(3) by (simp add: file_byte_def nth_append pv [symmetric] pm_write_def mem_write_at)
    qed
    have old: "file_byte (?self, ?m) k = file_byte (self, m) k" if "k < rf_capacity self" for k
      by (rule file_byte_same [OF s o _ that]) (use D(3) in \<open>simp_all add: nth_append\<close>)
    have "file_page (pm_root ?m) (rf_pages ?self ! i) ((fs @ [f]) ! i)" if "i < length (fs @ [f])" for i
      using that fp file_page_same [OF o D(4)] D(3) by (cases "i < length fs") (auto simp: nth_append less_Suc_eq)
    moreover have "file_byte (?self, ?m) k = 0" if "rf_size self \<le> k" "k < rf_capacity self + PAGE_SIZE" for k
      using that new old D(7) by (cases "k < rf_capacity self") auto
    ultimately have "file_at B (fs @ [f]) (?self, ?m)"
      using D(2,3,5,6) fn f(2) unfolding file_at_def fst_conv snd_conv root by simp
    moreover have "rf_capacity self + PAGE_SIZE \<le> usize_max"
      using file_at_small(2) [OF s] by (simp add: D(5) usize_max_eq page_consts)
    then have "increase_capacity V (self, m) = Some (Ok (), (?self, ?m))"
      using f(1) pa by (simp add: increase_capacity_def PageRef_new_def bindM_def)
    ultimately show ?thesis using o f(4) by blast
  next
    assume "allocate_file_page m = Some (Err (SvsmError_Alloc AllocError_OutOfMemory), m)"
    then show ?thesis by (simp add: increase_capacity_def PageRef_new_def bindM_def)
  qed
qed

text \<open>The loop of \<open>set_capacity\<close> ends: every round adds a page.\<close>

lemma set_capacity_loop_ok:
  assumes "file_at B fs (self, m)" and "heap_mapped V (pm_root m)"
  shows "\<exists>r gs self' m'. set_capacity_loop V cap (self, m) = Some (r, (self', m')) \<and> file_at B (fs @ gs) (self', m')
    \<and> rf_size self' = rf_size self \<and> others_same {} m m'
    \<and> (\<forall>k < rf_capacity self. file_byte (self', m') k = file_byte (self, m) k)
    \<and> (\<forall>g \<in> set gs. ah_used (heap_abs (pm_root m)) g = None)
    \<and> (r = Ok () \<and> cap \<le> rf_capacity self' \<or> r = Err (SvsmError_Alloc AllocError_OutOfMemory))"
  using assms
proof (induction "cap - rf_capacity self" arbitrary: self m fs rule: less_induct)
  case less
  show ?case
  proof (cases "rf_capacity self < cap")
    case False
    then show ?thesis using less.prems
      by (intro exI [of _ "Ok ()"] exI [of _ "[]"] exI [of _ self] exI [of _ m])
        (simp add: set_capacity_loop.simps [of V cap "(self, m)"])
  next
    case True
    from increase_capacity_ok [OF less.prems] show ?thesis
    proof (elim disjE exE conjE)
      fix f p m1
      let ?self = "self\<lparr>rf_pages := rf_pages self @ [p], rf_capacity := rf_capacity self + PAGE_SIZE\<rparr>"
      assume f: "increase_capacity V (self, m) = Some (Ok (), (?self, m1))" "file_at B (fs @ [f]) (?self, m1)"
        "others_same {} m m1" "ah_used (heap_abs (pm_root m)) f = None"
      have "cap - rf_capacity ?self < cap - rf_capacity self" using True by (simp add: page_consts)
      from less.hyps [OF this f(2) heap_mapped_same [OF f(3) less.prems(2)]] obtain r gs self' m' where
        IH: "set_capacity_loop V cap (?self, m1) = Some (r, (self', m'))" "file_at B ((fs @ [f]) @ gs) (self', m')"
        "rf_size self' = rf_size self" "others_same {} m1 m'"
        "\<forall>k < rf_capacity self + PAGE_SIZE. file_byte (self', m') k = file_byte (?self, m1) k"
        "\<forall>g \<in> set gs. ah_used (heap_abs (pm_root m1)) g = None"
        "r = Ok () \<and> cap \<le> rf_capacity self' \<or> r = Err (SvsmError_Alloc AllocError_OutOfMemory)" by auto
      have "set_capacity_loop V cap (self, m) = Some (r, (self', m'))"
        using True f(1) IH(1) by (simp add: set_capacity_loop.simps [of V cap "(self, m)"])
      moreover have "file_byte (?self, m1) k = file_byte (self, m) k" if "k < rf_capacity self" for k
        by (rule file_byte_same [OF less.prems(1) f(3) _ that])
          (use file_atD(3) [OF less.prems(1)] in \<open>simp_all add: nth_append\<close>)
      moreover have "ah_used (heap_abs (pm_root m)) g = None" if "g \<in> set gs" for g
        using IH(6) that f(3) by (cases "ah_used (heap_abs (pm_root m)) g") (auto simp: others_same_def)
      ultimately show ?thesis using IH f(4) others_same_trans [OF f(3) IH(4)]
        by (intro exI [of _ r] exI [of _ "f # gs"] exI [of _ self'] exI [of _ m']) auto
    next
      assume "increase_capacity V (self, m) = Some (Err (SvsmError_Alloc AllocError_OutOfMemory), (self, m))"
      then show ?thesis using True less.prems
        by (intro exI [of _ "Err (SvsmError_Alloc AllocError_OutOfMemory)"] exI [of _ "[]"] exI [of _ self] exI [of _ m])
          (simp add: set_capacity_loop.simps [of V cap "(self, m)"])
    qed
  qed
qed

end
