(* ===== verification/Ram_File_Ops.thy ===== *)
theory Ram_File_Ops
  imports Ram_File_Lemmas
begin

text \<open>
  Reading, writing and truncating RAM files: the loops terminate, and the operations are those of
  a sequence of bytes.
\<close>

section \<open>Writing\<close>

lemma write_page_ok:
  assumes s: "file_at B fs (self, m)" and b: "bo + len = Buffer_size b" "Buffer_size b < 2 ^ 63" and len: "0 < len"
    and cap: "current + len \<le> rf_capacity self"
  defines "w \<equiv> min len (PAGE_SIZE - current mod PAGE_SIZE)"
  shows "write_buffer_to_page b bo current self m = Some (Ok w,
      pm_write (VirtAddr (virt_bits (page_vaddr (pm_root m) (fs ! (current div PAGE_SIZE))) + of_nat (current mod PAGE_SIZE)))
        (take w (drop bo (Buffer_slice b))) m)"
    and "0 < w" and "w \<le> len" and "current div PAGE_SIZE < length fs" and "current mod PAGE_SIZE + w \<le> PAGE_SIZE"
    and "length (take w (drop bo (Buffer_slice b))) = w"
proof -
  note D = file_atD [OF s, simplified]
  let ?i = "current div PAGE_SIZE" and ?o = "current mod PAGE_SIZE"
  have p: "?i < length fs" "?o < PAGE_SIZE" using file_pos [of current "length fs"] cap len by (simp_all add: D(5))
  then show w: "0 < w" "w \<le> len" "?i < length fs" "?o + w \<le> PAGE_SIZE" using len by (auto simp: w_def)
  have small: "current < 2 ^ 64" "bo + w \<le> usize_max" "?o + w \<le> usize_max"
    using cap len file_at_small(2) [OF s] b w p(2) by (simp_all add: D(5) usize_max_eq page_consts)
  note po = page_offset_nat [OF small(1)]
  show l: "length (take w (drop bo (Buffer_slice b))) = w" using b(1) w(2) by (simp add: Buffer_size_def)
  have "Buffer_read_buffer b w bo = Some (Ok (take w (drop bo (Buffer_slice b))))"
    using b(1) w(2) by (simp add: Buffer_read_buffer_def Buffer_size_def min_def)
  moreover have "VirtAddr_const_add (page_vaddr (pm_root m) (fs ! ?i)) (of_nat ?o)
      = Some (VirtAddr (virt_bits (page_vaddr (pm_root m) (fs ! ?i)) + of_nat ?o))"
    using frame_add(2) [OF D(1) D(8) [OF p(1)]] p(2) by simp
  moreover have "min (PAGE_SIZE - ?o) w = w" "bo + w \<le> Buffer_size b" using w b(1) by auto
  ultimately have "PageRef_copy_from_buffer (rf_pages self ! ?i) b bo ?o w m = Some (Ok w,
      pm_write (VirtAddr (virt_bits (page_vaddr (pm_root m) (fs ! ?i)) + of_nat ?o)) (take w (drop bo (Buffer_slice b))) m)"
    using small w(4) D(9) [OF p(1)] l by (simp add: PageRef_copy_from_buffer_def Let_def)
  then show "write_buffer_to_page b bo current self m = Some (Ok w,
      pm_write (VirtAddr (virt_bits (page_vaddr (pm_root m) (fs ! ?i)) + of_nat ?o)) (take w (drop bo (Buffer_slice b))) m)"
    using b(1) p D(3) unfolding write_buffer_to_page_def po by (simp add: w_def Let_def flip: b(1))
qed

lemma write_buffer_loop_ok:
  assumes "file_at B fs (self, m)" and "bo + len = Buffer_size b" and "Buffer_size b < 2 ^ 63"
    and "current + len \<le> rf_capacity self"
  shows "\<exists>self' m'. write_buffer_loop b current len bo (self, m) = Some (Ok (bo + len), (self', m'))
    \<and> file_at B fs (self', m') \<and> pm_root m' = pm_root m \<and> others_same (set fs) m m'
    \<and> rf_capacity self' = rf_capacity self \<and> rf_pages self' = rf_pages self
    \<and> rf_size self' = (if len = 0 then rf_size self else max (rf_size self) (current + len))
    \<and> (\<forall>k < rf_capacity self. file_byte (self', m') k =
        (if current \<le> k \<and> k < current + len then Buffer_slice b ! (bo + (k - current)) else file_byte (self, m) k))"
  using assms
proof (induction len arbitrary: self m bo current rule: less_induct)
  case (less len)
  note s = less.prems(1) note D = file_atD [OF s, simplified]
  show ?case
  proof (cases "len = 0")
    case True
    then show ?thesis using s by (auto simp: write_buffer_loop.simps [of b current])
  next
    case False
    then have "0 < len" by simp
    note W = write_page_ok [OF s less.prems(2,3) this less.prems(4)]
    define w where "w = min len (PAGE_SIZE - current mod PAGE_SIZE)"
    define bs where "bs = take w (drop bo (Buffer_slice b))"
    define m1 where "m1 = pm_write (VirtAddr (virt_bits (page_vaddr (pm_root m) (fs ! (current div PAGE_SIZE))) + of_nat (current mod PAGE_SIZE))) bs m"
    note W = W [folded w_def, folded bs_def, folded m1_def]
    let ?self = "self\<lparr>rf_size := max (rf_size self) (current + w)\<rparr>"
    have o: "current mod PAGE_SIZE + length bs \<le> PAGE_SIZE" using W(5,6) by simp
    note F = file_page_write [OF s W(4) o, folded m1_def]
    have cur: "current div PAGE_SIZE * PAGE_SIZE + current mod PAGE_SIZE = current" by simp
    have byte: "file_byte (?self, m1) k = (if current \<le> k \<and> k < current + w then Buffer_slice b ! (bo + (k - current))
        else file_byte (self, m) k)" if k: "k < rf_capacity self" for k
    proof -
      have "bs ! (k - current) = Buffer_slice b ! (bo + (k - current))" if "current \<le> k" "k < current + w"
        using that less.prems(2) W(3) by (simp add: bs_def Buffer_size_def)
      then show ?thesis using F(3) [of ?self k] k unfolding cur W(6) by auto
    qed
    have s1: "file_at B fs (?self, m1)"
      unfolding file_at_def
    proof (intro conjI)
      show "\<forall>k. rf_size (fst (?self, m1)) \<le> k \<longrightarrow> k < rf_capacity (fst (?self, m1)) \<longrightarrow> file_byte (?self, m1) k = 0"
        using byte D(7) by simp
    qed (use D F(1) less.prems(4) W(3) in simp_all)
    have "len - w < len" using W(2) False by simp
    from less.IH [OF this s1, of "bo + w" "current + w"] less.prems(2,3,4) W(3) obtain self' m' where
      IH: "write_buffer_loop b (current + w) (len - w) (bo + w) (?self, m1) = Some (Ok (bo + len), (self', m'))"
      "file_at B fs (self', m')" "pm_root m' = pm_root m1" "others_same (set fs) m1 m'"
      "rf_capacity self' = rf_capacity self" "rf_pages self' = rf_pages self"
      "rf_size self' = (if len - w = 0 then max (rf_size self) (current + w) else max (max (rf_size self) (current + w)) (current + len))"
      "\<forall>k < rf_capacity self. file_byte (self', m') k =
        (if current + w \<le> k \<and> k < current + len then Buffer_slice b ! (bo + w + (k - (current + w))) else file_byte (?self, m1) k)"
      by (auto simp: add.assoc)
    have "current + w \<le> usize_max" "bo + w \<le> usize_max"
      using less.prems(2-4) W(3) file_at_small(2) [OF s] by (simp_all add: D(5) usize_max_eq)
    then have "write_buffer_loop b current len bo (self, m) = Some (Ok (bo + len), (self', m'))"
      using False W(1,3) IH(1) by (simp add: write_buffer_loop.simps [of b current])
    moreover have "rf_size self' = max (rf_size self) (current + len)" using IH(7) W(3) by auto
    moreover have "file_byte (self', m') k = (if current \<le> k \<and> k < current + len then Buffer_slice b ! (bo + (k - current))
        else file_byte (self, m) k)" if k: "k < rf_capacity self" for k
      using IH(8) byte [OF k] k W(3) by auto
    ultimately show ?thesis using IH(2-6) F(1) False others_same_trans [OF F(2) IH(4)] by (intro exI conjI) auto
  qed
qed

text \<open>Writing bytes into a sequence at an offset, filling a gap with zeros.\<close>

definition write_at :: "u8 list \<Rightarrow> nat \<Rightarrow> u8 list \<Rightarrow> u8 list" where
  "write_at c off d = (if d = [] then c
     else take off (c @ replicate (off - length c) 0) @ d @ drop (off + length d) c)"

lemma length_write_at: "length (write_at c off d) = (if d = [] then length c else max (length c) (off + length d))"
  by (auto simp: write_at_def)

lemma nth_write_at:
  assumes "d \<noteq> []" and "k < max (length c) (off + length d)"
  shows "write_at c off d ! k = (if off \<le> k \<and> k < off + length d then d ! (k - off) else if k < length c then c ! k else 0)"
  using assms by (auto simp: write_at_def nth_append min_def)

lemma content_eqI:
  assumes "length c = rf_size (fst s)" and "\<And>k. k < rf_size (fst s) \<Longrightarrow> c ! k = file_byte s k"
  shows "content s = c"
  by (rule nth_equalityI) (use assms in \<open>simp_all add: content_def\<close>)

lemma content_nth [simp]: "k < rf_size (fst s) \<Longrightarrow> content s ! k = file_byte s k" "length (content s) = rf_size (fst s)"
  by (simp_all add: content_def)

lemma RawRamFile_write_ok:
  assumes s: "file_at B fs (self, m)" and V: "heap_mapped V (pm_root m)" and b: "Buffer_size b < 2 ^ 63"
    and off: "off + Buffer_size b \<le> usize_max - PAGE_SIZE"
  shows "\<exists>r gs self' m'. RawRamFile_write_buffer V b off (self, m) = Some (r, (self', m')) \<and> file_at B (fs @ gs) (self', m')
    \<and> others_same (set fs) m m' \<and> (\<forall>g \<in> set gs. ah_used (heap_abs (pm_root m)) g = None)
    \<and> (r = Ok (Buffer_size b) \<and> content (self', m') = write_at (content (self, m)) off (Buffer_slice b)
       \<or> r = Err (SvsmError_Alloc AllocError_OutOfMemory) \<and> content (self', m') = content (self, m))"
proof -
  let ?n = "Buffer_size b"
  note D = file_atD [OF s, simplified]
  have cap_lt: "off + ?n < 2 ^ 64" using off by (simp add: usize_max_eq)
  have uo: "unat (of_nat (off + ?n) :: u64) = off + ?n" using cap_lt by (rule unat_of_nat_u64)
  obtain cap where cap: "page_align_up (of_nat (off + ?n)) = Some cap" "off + ?n \<le> unat cap"
  proof -
    let ?w = "of_nat (off + ?n) :: u64"
    have one: "wsub PAGE_SIZE_W 1 = Some (mask 12)" using wsub_exp_1 [of 12, where 'a = 64] by (simp add: page_consts)
    have "unat (mask 12 :: u64) = 4095" by (simp add: unat_mask)
    then have "wadd ?w (mask 12) = Some (?w + mask 12)" "unat (?w + mask 12) = off + ?n + 4095"
      using off uo unat_wadd [of ?w "mask 12" "?w + mask 12"] by (simp_all add: wadd_def usize_max_eq page_consts)
    moreover have "off + ?n \<le> (off + ?n + 4095) div 2 ^ 12 * 2 ^ 12"
      using div_mult_mod_eq [of "off + ?n + 4095" 4096] mod_less_divisor [of 4096 "off + ?n + 4095"] by simp
    ultimately show thesis using one
      by (intro that [of "(?w + mask 12) AND NOT (mask 12)"]) (simp_all add: page_align_up_def align_up_def unat_and_not_mask del: of_nat_add)
  qed
  from set_capacity_loop_ok [OF s V, of "unat cap"] obtain r gs self1 m1 where
    c: "set_capacity_loop V (unat cap) (self, m) = Some (r, (self1, m1))" "file_at B (fs @ gs) (self1, m1)"
    "rf_size self1 = rf_size self" "others_same {} m m1" "\<forall>k < rf_capacity self. file_byte (self1, m1) k = file_byte (self, m) k"
    "\<forall>g \<in> set gs. ah_used (heap_abs (pm_root m)) g = None"
    "r = Ok () \<and> unat cap \<le> rf_capacity self1 \<or> r = Err (SvsmError_Alloc AllocError_OutOfMemory)" by blast
  have run: "RawRamFile_write_buffer V b off (self, m) =
      bindM (\<lambda>s. set_capacity_loop V (unat cap) s) (\<lambda>_. write_buffer_loop b off ?n 0) (self, m)"
    using off cap(1) by (simp add: RawRamFile_write_buffer_def set_capacity_def bindM_def)
  have same: "content (self1, m1) = content (self, m)" using c(3,5) D(6) by (intro content_eqI) simp_all
  from c(7) show ?thesis
  proof (elim disjE conjE)
    assume r: "r = Ok ()" "unat cap \<le> rf_capacity self1"
    with cap(2) have "off + ?n \<le> rf_capacity self1" by simp
    from write_buffer_loop_ok [OF c(2) add_0 b this] obtain self' m' where
      w: "write_buffer_loop b off ?n 0 (self1, m1) = Some (Ok ?n, (self', m'))" "file_at B (fs @ gs) (self', m')"
      "others_same (set (fs @ gs)) m1 m'" "rf_capacity self' = rf_capacity self1"
      "rf_size self' = (if ?n = 0 then rf_size self1 else max (rf_size self1) (off + ?n))"
      "\<forall>k < rf_capacity self1. file_byte (self', m') k =
        (if off \<le> k \<and> k < off + ?n then Buffer_slice b ! (0 + (k - off)) else file_byte (self1, m1) k)" by auto
    have o: "others_same (set fs) m m'"
      using c(4,6) w(3) page_vaddr_cong [of "pm_root m1" "pm_root m"] by (fastforce simp: others_same_def)
    have "content (self', m') = write_at (content (self1, m1)) off (Buffer_slice b)"
    proof (cases "Buffer_slice b = []")
      case True
      then have n0: "?n = 0" by (simp add: Buffer_size_def)
      show ?thesis
        using w(5,6) file_atD(6) [OF c(2)] True unfolding n0 by (intro content_eqI) (auto simp: write_at_def)
    next
      case False
      then have n: "?n \<noteq> 0" "?n = length (Buffer_slice b)" by (auto simp: Buffer_size_def)
      have sz: "rf_size self' = max (rf_size self1) (off + ?n)" using w(5) n(1) by simp
      show ?thesis
      proof (rule content_eqI)
        show "length (write_at (content (self1, m1)) off (Buffer_slice b)) = rf_size (fst (self', m'))"
          using False n(2) sz by (simp add: length_write_at)
        fix k assume k: "k < rf_size (fst (self', m'))"
        then have kc: "k < rf_capacity self1" using file_atD(6) [OF w(2)] w(4) by simp
        have km: "k < max (length (content (self1, m1))) (off + length (Buffer_slice b))" using k sz n(2) by simp
        have "rf_size self1 \<le> k \<Longrightarrow> file_byte (self1, m1) k = 0" using file_atD(7) [OF c(2), of k] kc by simp
        then show "write_at (content (self1, m1)) off (Buffer_slice b) ! k = file_byte (self', m') k"
          unfolding nth_write_at [OF False km] using w(6) kc n(2) by auto
      qed
    qed
    moreover have "RawRamFile_write_buffer V b off (self, m) = Some (Ok ?n, (self', m'))"
      unfolding run using c(1) r(1) w(1) by (simp add: bindM_def)
    ultimately show ?thesis using w(2) o same c(6) by (intro exI [of _ "Ok ?n"] exI [of _ gs] exI [of _ self'] exI [of _ m']) simp
  next
    assume r: "r = Err (SvsmError_Alloc AllocError_OutOfMemory)"
    then have "RawRamFile_write_buffer V b off (self, m) = Some (Err (SvsmError_Alloc AllocError_OutOfMemory), (self1, m1))"
      unfolding run using c(1) by (simp add: bindM_def)
    then show ?thesis using c(2,6) same others_same_mono [OF c(4), of "set fs"] by blast
  qed
qed

section \<open>Reading\<close>

lemma read_page_ok:
  assumes s: "file_at B fs (self, m)" and b: "bo + len = length sl" "length sl < 2 ^ 63" and cur: "current \<le> rf_size self"
  defines "w \<equiv> min (rf_size self - current) (min len (PAGE_SIZE - current mod PAGE_SIZE))"
  shows "read_buffer_from_page (self, m) bo current (SliceMutRefBuffer sl) =
    Some (Ok w, SliceMutRefBuffer (take bo sl @ map (file_byte (self, m)) [current ..< current + w] @ drop (bo + w) sl))"
proof -
  note D = file_atD [OF s, simplified]
  let ?i = "current div PAGE_SIZE" and ?o = "current mod PAGE_SIZE"
  have o: "?o < PAGE_SIZE" by (simp add: page_consts)
  have "current < 2 ^ 64" using cur D(6) file_at_small(2) [OF s] by (simp add: D(5))
  note po = page_offset_nat [OF this]
  show ?thesis
  proof (cases "?i < length fs")
    case False
    then have "length fs * PAGE_SIZE \<le> current" by (metis div_less_iff_less_mult not_le_imp_less not_less o zero_less_iff_neq_zero gr_implies_not0)
    then have "w = 0" using cur D(5,6) by (simp add: w_def)
    then show ?thesis using False D(3) by (simp add: read_buffer_from_page_def Let_def)
  next
    case True
    have w: "w \<le> len" "?o + w \<le> PAGE_SIZE" using o by (auto simp: w_def)
    note f = D(8) [OF True] and pa = D(9) [OF True]
    let ?src = "VirtAddr (virt_bits (page_vaddr (pm_root m) (fs ! ?i)) + of_nat ?o)"
    have u: "unat (virt_bits (page_vaddr (pm_root m) (fs ! ?i)) + of_nat ?o) = unat (virt_bits (page_vaddr (pm_root m) (fs ! ?i))) + ?o"
      using frame_add(3) [OF D(1) f] o by simp
    have "pm_read ?src w m = map (file_byte (self, m)) [current ..< current + w]"
    proof (rule nth_equalityI)
      fix j assume "j < length (pm_read ?src w m)"
      then have j: "j < w" by (simp add: pm_read_def)
      have cj: "current = ?i * PAGE_SIZE + ?o" by simp
      have "(current + j) div PAGE_SIZE = ?i" by (rule page_index) (use cj j w(2) in linarith)+
      moreover from this have "(current + j) mod PAGE_SIZE = ?o + j"
        by (metis add_diff_cancel_left' add.assoc mult.commute div_mult_mod_eq)
      ultimately show "pm_read ?src w m ! j = map (file_byte (self, m)) [current ..< current + w] ! j"
        using j u pa by (simp add: pm_read_def file_byte_def add.assoc)
    qed (simp add: pm_read_def)
    moreover have "?o + w \<le> usize_max" "bo + w \<le> usize_max" "bo + w \<le> length sl"
      using w b o by (simp_all add: usize_max_eq page_consts)
    moreover have "min (PAGE_SIZE - ?o) w = w" using w(2) by simp
    ultimately have "PageRef_copy_to_buffer (rf_pages self ! ?i) m bo ?o w (SliceMutRefBuffer sl) =
        Some (Ok w, SliceMutRefBuffer (take bo sl @ map (file_byte (self, m)) [current ..< current + w] @ drop (bo + w) sl))"
      using w frame_add(2) [OF D(1) f] o b(1)
      by (simp add: PageRef_copy_to_buffer_def pa Buffer_size_def Let_def min_def)
    moreover have "min (rf_size self - current) (min (length sl - bo) (PAGE_SIZE - ?o)) = w"
      by (simp add: w_def flip: b(1))
    ultimately show ?thesis
      using True D(3) cur b(1) o unfolding read_buffer_from_page_def
      by (simp add: po Buffer_size_def Let_def)
  qed
qed

lemma read_buffer_loop_ok:
  assumes s: "file_at B fs (self, m)" and "bo + len = length sl" and "length sl < 2 ^ 63" and "current \<le> rf_size self"
  shows "read_buffer_loop (self, m) current len bo (SliceMutRefBuffer sl) =
    (let n = min len (rf_size self - current) in
     Some (Ok (bo + n), SliceMutRefBuffer (take bo sl @ map (file_byte (self, m)) [current ..< current + n] @ drop (bo + n) sl)))"
  using assms(2-)
proof (induction len arbitrary: bo current sl rule: less_induct)
  case (less len)
  note D = file_atD [OF s, simplified]
  define w where "w = min (rf_size self - current) (min len (PAGE_SIZE - current mod PAGE_SIZE))"
  define sl' where "sl' = take bo sl @ map (file_byte (self, m)) [current ..< current + w] @ drop (bo + w) sl"
  note R = read_page_ok [OF s less.prems, folded w_def, folded sl'_def]
  have w: "w \<le> len" "w \<le> rf_size self - current" by (auto simp: w_def)
  have small: "current + w \<le> usize_max" "bo + w \<le> usize_max"
    using w less.prems D(6) file_at_small(2) [OF s] by (simp_all add: D(5) usize_max_eq)
  have len': "length sl' = length sl" using w(1) less.prems(1) by (simp add: sl'_def)
  show ?case
  proof (cases "len = 0")
    case True
    then show ?thesis using less.prems by (simp add: read_buffer_loop.simps [of "(self, m)"])
  next
    case False
    show ?thesis
    proof (cases "current + w = rf_size self")
      case True
      then have "min len (rf_size self - current) = w" using w(1) by simp
      then show ?thesis using False R small w(1) True
        by (simp add: read_buffer_loop.simps [of "(self, m)" current] sl'_def)
    next
      case c: False
      have "0 < w" using c less.prems(3) False by (auto simp: w_def min_def page_consts split: if_splits)
      then have lt: "len - w < len" using False by simp
      have "current + w \<le> rf_size self" using w(2) less.prems(3) by simp
      note IH = less.IH [OF lt, of "bo + w" sl' "current + w", OF _ _ this]
      have "read_buffer_loop (self, m) current len bo (SliceMutRefBuffer sl)
          = read_buffer_loop (self, m) (current + w) (len - w) (bo + w) (SliceMutRefBuffer sl')"
        using False R small w(1) c by (simp add: read_buffer_loop.simps [of "(self, m)" current])
      also have "\<dots> = (let n = min (len - w) (rf_size self - (current + w)) in
        Some (Ok (bo + w + n), SliceMutRefBuffer (take (bo + w) sl' @ map (file_byte (self, m)) [current + w ..< current + w + n]
          @ drop (bo + w + n) sl')))"
        using less.prems(1,2) w(1) len' by (intro IH) simp_all
      also have "\<dots> = (let n = min len (rf_size self - current) in
        Some (Ok (bo + n), SliceMutRefBuffer (take bo sl @ map (file_byte (self, m)) [current ..< current + n] @ drop (bo + n) sl)))"
      proof -
        define n where "n = min (len - w) (rf_size self - (current + w))"
        have n: "min len (rf_size self - current) = w + n" using w by (auto simp: n_def)
        have lb: "length (take bo sl) = bo" using less.prems(1) by simp
        have "take (bo + w) sl' = take bo sl @ map (file_byte (self, m)) [current ..< current + w]"
          unfolding sl'_def using lb by simp
        moreover have "drop (bo + w + n) sl' = drop (bo + (w + n)) sl"
          unfolding sl'_def using lb by (simp add: ac_simps)
        moreover have "[current ..< current + (w + n)] = [current ..< current + w] @ [current + w ..< current + w + n]"
          using upt_add_eq_append [of current "current + w" n] by (simp add: add.assoc)
        ultimately show ?thesis unfolding Let_def n n_def [symmetric] by (simp add: add.assoc)
      qed
      finally show ?thesis .
    qed
  qed
qed

lemma RawRamFile_read_ok:
  assumes s: "file_at B fs (self, m)" and b: "length buf < 2 ^ 63"
  shows "RawRamFile_read (self, m) buf off =
    (let d = take (length buf) (drop off (content (self, m))) in Some (Ok (length d), d @ drop (length d) buf))"
proof -
  let ?c = "min off (rf_size self)"
  define n where "n = min (length buf) (rf_size self - ?c)"
  have "read_buffer_loop (self, m) ?c (length buf) 0 (SliceMutRefBuffer buf) =
      Some (Ok n, SliceMutRefBuffer (map (file_byte (self, m)) [?c ..< ?c + n] @ drop n buf))"
    using read_buffer_loop_ok [OF s add_0 b, of ?c] by (simp add: n_def Let_def)
  moreover have "map (file_byte (self, m)) [?c ..< ?c + n] = take (length buf) (drop off (content (self, m)))"
  proof (cases "off \<le> rf_size self")
    case True
    have "map (file_byte (self, m)) [off ..< off + n] ! i = take (length buf) (drop off (content (self, m))) ! i"
      if i: "i < n" for i
    proof -
      have "off + i < rf_size self" "i < length buf" using i True by (auto simp: n_def)
      then show ?thesis using i True by simp
    qed
    then show ?thesis using True by (intro nth_equalityI) (simp_all add: n_def)
  qed (simp add: n_def)
  moreover have "n = length (take (length buf) (drop off (content (self, m))))" by (auto simp: n_def min_def)
  ultimately show ?thesis
    by (simp add: RawRamFile_read_def RawRamFile_read_buffer_def Buffer_size_def Let_def)
qed

end
