(* ===== verification/Ram_File_Claims.thy ===== *)
theory Ram_File_Claims
  imports Ram_File_Ops
begin

text \<open>
  Truncating files and dropping page references, and the contract of a file as a sequence of
  bytes.
\<close>

section \<open>Dropping pages\<close>

lemma PageRef_drop_ok:
  assumes r: "root_ok B (pm_root m)" and p: "file_page (pm_root m) p f"
  shows "\<exists>m'. PageRef_drop p m = Some m' \<and> root_ok B (pm_root m') \<and> others_same {f} m m' \<and> pm_bytes m' = pm_bytes m"
proof -
  let ?r = "pm_root m"
  have inv: "heap_inv B ?r" using r by (simp add: root_ok_def)
  from p obtain n where n: "ah_used (heap_abs ?r) f = Some (FileP n)" "0 < n" "unat n + 1 < 2 ^ 60"
    and v: "pr_virt_addr p = page_vaddr ?r f" by (auto simp: file_page_def)
  from heap_file_page_refs(2) [OF inv n] obtain r' where
    r': "heap_put_file_page (page_vaddr ?r f) ?r = Some (Ok (), r')" "heap_inv B r'" "hm_start_virt r' = hm_start_virt ?r"
    "hm_page_count r' = hm_page_count ?r" "if n = 1 then abs_free 0 f (heap_abs ?r) (heap_abs r')
         else heap_abs r' = (heap_abs ?r)\<lparr>ah_used := (ah_used (heap_abs ?r))(f \<mapsto> FileP (n - 1))\<rparr>" by blast
  have used: "ah_used (heap_abs r') g = ah_used (heap_abs ?r) g" if "g \<noteq> f" for g
    using r'(5) that by (auto simp: abs_free_def split: if_splits)
  have "PageRef_drop p m = Some (m\<lparr>pm_root := r'\<rparr>)"
    using r'(1) v by (simp add: PageRef_drop_def expectM_def put_file_page_def on_root_def Let_def)
  moreover have "root_ok B r'" using r r'(2-4) by (simp add: root_ok_def)
  moreover have "others_same {f} m (m\<lparr>pm_root := r'\<rparr>)" using r'(3,4) used by (simp add: others_same_def)
  ultimately show ?thesis by simp
qed

lemma PageRef_fill_ok:
  assumes "root_ok B (pm_root m)" and "f < hm_page_count (pm_root m)" and "pr_virt_addr p = page_vaddr (pm_root m) f"
    and "off \<le> PAGE_SIZE"
  shows "PageRef_fill p off 0 m = Some (pm_write (VirtAddr (virt_bits (page_vaddr (pm_root m) f) + of_nat off))
    (replicate (PAGE_SIZE - off) 0) m)"
  using frame_add(1) [OF assms(1,2,4)] assms(3,4) by (simp add: PageRef_fill_def)

lemma drop_pages_ok:
  assumes "root_ok B (pm_root m)" and "list_all2 (file_page (pm_root m)) ps gs" and "distinct gs"
  shows "\<exists>m'. forO ps (\<lambda>page_ref m. do { m \<leftarrow> PageRef_fill page_ref 0 0 m; PageRef_drop page_ref m }) m = Some m'
    \<and> root_ok B (pm_root m') \<and> others_same (set gs) m m'"
  using assms
proof (induction ps arbitrary: gs m)
  case Nil
  then show ?case by simp
next
  case (Cons p ps)
  then obtain f gs' where gs: "gs = f # gs'" "file_page (pm_root m) p f" "list_all2 (file_page (pm_root m)) ps gs'"
    by (auto simp: list_all2_Cons1)
  have f: "f < hm_page_count (pm_root m)" "pr_virt_addr p = page_vaddr (pm_root m) f" using gs(2) by (auto simp: file_page_def)
  let ?m = "pm_write (VirtAddr (virt_bits (page_vaddr (pm_root m) f) + of_nat 0)) (replicate (PAGE_SIZE - 0) (0::u8)) m"
  have fill: "PageRef_fill p 0 0 m = Some ?m" by (rule PageRef_fill_ok [OF Cons.prems(1) f]) simp
  have o1: "others_same {f} m ?m" by (rule frame_write_others [OF Cons.prems(1) f(1)]) simp
  from PageRef_drop_ok [of B ?m p f] Cons.prems(1) gs(2) obtain m1 where
    m1: "PageRef_drop p ?m = Some m1" "root_ok B (pm_root m1)" "others_same {f} ?m m1" by auto
  note o = others_same_trans [OF o1 m1(3)]
  have "f \<notin> set gs'" using Cons.prems(3) gs(1) by simp
  have "list_all2 (file_page (pm_root m1)) ps gs'"
    using gs(3)
  proof (rule list.rel_mono_strong)
    fix p' g assume "g \<in> set gs'" "file_page (pm_root m) p' g"
    then show "file_page (pm_root m1) p' g" using file_page_same [OF o] \<open>f \<notin> set gs'\<close> by auto
  qed
  from Cons.IH [OF m1(2) this] Cons.prems(3) gs(1) obtain m' where
    "forO ps (\<lambda>page_ref m. do { m \<leftarrow> PageRef_fill page_ref 0 0 m; PageRef_drop page_ref m }) m1 = Some m'"
    "root_ok B (pm_root m')" "others_same (set gs') m1 m'" by auto
  moreover have "others_same (set gs) m m'"
    using others_same_trans [OF others_same_mono [OF o] others_same_mono [OF \<open>others_same (set gs') m1 m'\<close>]] gs(1) by auto
  ultimately show ?case using fill m1(1) by simp
qed

section \<open>Truncating\<close>

lemma RawRamFile_truncate_ok:
  assumes s: "file_at B fs (self, m)" and n: "n \<le> rf_size self"
  shows "\<exists>np self' m'. RawRamFile_truncate n (self, m) = Some (Ok n, (self', m')) \<and> file_at B (take np fs) (self', m')
    \<and> others_same (set fs) m m' \<and> content (self', m') = take n (content (self, m))"
proof -
  note D = file_atD [OF s, simplified]
  define q where "q = n div PAGE_SIZE"
  define ov where "ov = n mod PAGE_SIZE"
  define np where "np = (if 0 < ov then q + 1 else q)"
  have nd: "n = q * PAGE_SIZE + ov" and ol: "ov < PAGE_SIZE" by (simp_all add: q_def ov_def page_consts)
  have np: "n \<le> np * PAGE_SIZE" "0 < ov \<Longrightarrow> np * PAGE_SIZE = n - ov + PAGE_SIZE" "ov = 0 \<Longrightarrow> np * PAGE_SIZE = n"
    using nd ol by (auto simp: np_def)
  have "np \<le> length fs"
  proof (rule ccontr)
    assume "\<not> np \<le> length fs"
    then have "(length fs + 1) * PAGE_SIZE \<le> np * PAGE_SIZE" by (intro mult_le_mono1) simp
    then show False using n D(5,6) np(2,3) ol nd by (cases "0 < ov") (auto simp: page_consts)
  qed
  have n64: "n < 2 ^ 64" using n D(6) file_at_small(2) [OF s] by (simp add: D(5))
  note po = page_offset_nat [OF n64]
  have "list_all2 (file_page (pm_root m)) (rf_pages self) fs" using D(3,4) by (simp add: list_all2_conv_all_nth)
  then have "list_all2 (file_page (pm_root m)) (drop np (rf_pages self)) (drop np fs)" by (rule list_all2_dropI)
  from drop_pages_ok [OF D(1) this] D(2) obtain m1 where
    m1: "forO (drop np (rf_pages self)) (\<lambda>page_ref m. do { m \<leftarrow> PageRef_fill page_ref 0 0 m; PageRef_drop page_ref m }) m = Some m1"
    "root_ok B (pm_root m1)" "others_same (set (drop np fs)) m m1" by auto
  have dis: "set (take np fs) \<inter> set (drop np fs) = {}"
    using D(2) by (metis append_take_drop_id distinct_append)
  let ?self = "self\<lparr>rf_pages := take np (rf_pages self), rf_capacity := np * PAGE_SIZE, rf_size := n\<rparr>"
  let ?full = "?self\<lparr>rf_size := np * PAGE_SIZE\<rparr>"
  have fp: "file_page (pm_root m1) (take np (rf_pages self) ! i) (take np fs ! i)" if "i < np" for i
  proof -
    have "fs ! i \<in> set (take np fs)" using that \<open>np \<le> length fs\<close> by (auto simp: in_set_conv_nth)
    then show ?thesis using file_page_same [OF m1(3) D(4) [of i]] that \<open>np \<le> length fs\<close> dis by auto
  qed
  have full: "file_at B (take np fs) (?full, m1)"
    using m1(2) D(2,3) fp \<open>np \<le> length fs\<close> by (simp add: file_at_def)
  have keep: "file_byte (?full, m1) k = file_byte (self, m) k" if k: "k < np * PAGE_SIZE" for k
  proof -
    have j: "k div PAGE_SIZE < np" "k mod PAGE_SIZE < PAGE_SIZE" using file_pos [OF k] by simp_all
    let ?f = "fs ! (k div PAGE_SIZE)"
    have "?f \<in> set (take np fs)" using j(1) \<open>np \<le> length fs\<close> by (auto simp: in_set_conv_nth)
    then have "?f \<notin> set (drop np fs)" using dis by auto
    moreover obtain c where "ah_used (heap_abs (pm_root m)) ?f = Some (FileP c)"
      using D(4) [of "k div PAGE_SIZE"] j(1) \<open>np \<le> length fs\<close> by (auto simp: file_page_def)
    ultimately have "\<forall>x \<in> page_bytes (page_vaddr (pm_root m) ?f). pm_bytes m1 x = pm_bytes m x"
      using m1(3) by (auto simp: others_same_def)
    then show ?thesis using j D(9) [of "k div PAGE_SIZE"] \<open>np \<le> length fs\<close> by (simp add: file_byte_def page_bytes_def)
  qed
  obtain m' where m': "(if 0 < ov then if take np (rf_pages self) = [] then None else PageRef_fill (last (take np (rf_pages self))) ov 0 m1
        else Some m1) = Some m'" "pm_root m' = pm_root m1" "others_same (set (take np fs)) m1 m'"
    "\<And>k. k < np * PAGE_SIZE \<Longrightarrow> file_byte (?self, m') k = (if n \<le> k then 0 else file_byte (self, m) k)"
  proof (cases "0 < ov")
    case False
    then show thesis using keep np(3) by (intro that [of m1]) (simp_all add: file_byte_def)
  next
    case True
    then have i: "np - 1 < length (take np fs)" "np = q + 1" using \<open>np \<le> length fs\<close> by (auto simp: np_def)
    have le: "ov + length (replicate (PAGE_SIZE - ov) (0::u8)) \<le> PAGE_SIZE" using ol by simp
    note F = file_page_write [OF full i(1) le] and E = file_atD(8,9) [OF full i(1), simplified]
    have ne: "take np (rf_pages self) \<noteq> []" using i D(3) \<open>np \<le> length fs\<close> by auto
    have last: "last (take np (rf_pages self)) = take np (rf_pages self) ! (np - 1)" "take np (rf_pages self) \<noteq> []"
      using last_conv_nth [OF ne] ne D(3) \<open>np \<le> length fs\<close> by simp_all
    have pos: "(np - 1) * PAGE_SIZE + ov = n" "n + (PAGE_SIZE - ov) = np * PAGE_SIZE" using nd i(2) np(2) True ol by auto
    note fill = PageRef_fill_ok [OF m1(2) E(1) _ less_imp_le [OF ol], of "take np (rf_pages self) ! (np - 1)"]
    show thesis
    proof (rule that [of "pm_write (VirtAddr (virt_bits (page_vaddr (pm_root m1) (take np fs ! (np - 1))) + of_nat ov))
        (replicate (PAGE_SIZE - ov) 0) m1"])
      fix k assume k: "k < np * PAGE_SIZE"
      show "file_byte (?self, pm_write (VirtAddr (virt_bits (page_vaddr (pm_root m1) (take np fs ! (np - 1))) + of_nat ov))
          (replicate (PAGE_SIZE - ov) 0) m1) k = (if n \<le> k then 0 else file_byte (self, m) k)"
        using F(3) [of ?self k] keep [OF k] k pos by auto
    qed (use True last fill E F in simp_all)
  qed
  have run: "RawRamFile_truncate n (self, m) = Some (Ok n, (?self, m'))"
  proof -
    have "np * PAGE_SIZE \<le> length fs * PAGE_SIZE" using \<open>np \<le> length fs\<close> by (rule mult_le_mono1)
    also have "\<dots> \<le> usize_max" using file_at_small(2) [OF s] by (simp add: usize_max_eq)
    finally have "np * PAGE_SIZE \<le> usize_max" .
    moreover have "\<not> rf_size self < n" "np \<le> length (rf_pages self)" using n \<open>np \<le> length fs\<close> D(3) by simp_all
    ultimately show ?thesis
      using m1(1) m'(1) unfolding RawRamFile_truncate_def po q_def [symmetric] ov_def [symmetric]
      by (cases "0 < ov") (auto simp: po Let_def q_def [symmetric] ov_def [symmetric] np_def split: if_splits)
  qed
  have "file_at B (take np fs) (?self, m')"
    using m1(2) m'(2,4) D(2,3) fp \<open>np \<le> length fs\<close> np(1) by (simp add: file_at_def)
  moreover have "content (?self, m') = take n (content (self, m))"
  proof (rule content_eqI)
    fix k assume "k < rf_size (fst (?self, m'))"
    then have k: "k < n" "k < np * PAGE_SIZE" "k < rf_size (fst (self, m))" using np(1) n by simp_all
    show "take n (content (self, m)) ! k = file_byte (?self, m') k" using m'(4) [OF k(2)] k(1) content_nth(1) [OF k(3)] by simp
  qed (use n in simp)
  moreover have "others_same (set fs) m m'"
    using others_same_trans [OF others_same_mono [OF m1(3)] others_same_mono [OF m'(3)]] set_drop_subset [of np fs] set_take_subset [of np fs]
    by blast
  ultimately show ?thesis using run by blast
qed

section \<open>Properties\<close>

text \<open>
  C9. A RAM file is a sequence of bytes.  Writing a buffer at any offset terminates without panic
  and stores exactly the buffer there, a gap behind the old end reads as zeros, or fails with
  \<open>OutOfMemory\<close> and leaves the contents as they are.  Reading at any offset returns the bytes of the
  file from there, up to the length of the slice, and leaves the rest of the slice.  Truncating
  keeps a prefix.  All pages in use that are not pages of the file keep their metadata and bytes.
\<close>

theorem ram_file_refines_bytes:
  assumes s: "file_at B fs (self, m)" and V: "heap_mapped V (pm_root m)"
    and data: "length data < 2 ^ 63" "off + length data \<le> usize_max - PAGE_SIZE" and buf: "length buf < 2 ^ 63"
  shows "(\<exists>r gs s'. RawRamFile_write V data off (self, m) = Some (r, s') \<and> file_at B (fs @ gs) s' \<and> others_same (set fs) m (snd s')
      \<and> (r = Ok (length data) \<and> content s' = write_at (content (self, m)) off data
         \<or> r = Err (SvsmError_Alloc AllocError_OutOfMemory) \<and> content s' = content (self, m)))
    \<and> RawRamFile_read (self, m) buf off = (let d = take (length buf) (drop off (content (self, m))) in
        Some (Ok (length d), d @ drop (length d) buf))
    \<and> (if rf_size self < n then RawRamFile_truncate n (self, m) = Some (Err (SvsmError_FileSystem FsError_Inval), (self, m))
       else \<exists>np s'. RawRamFile_truncate n (self, m) = Some (Ok n, s') \<and> file_at B (take np fs) s'
         \<and> others_same (set fs) m (snd s') \<and> content s' = take n (content (self, m)))"
proof (intro conjI)
  have b: "Buffer_size (SliceRefBuffer data) = length data" "Buffer_slice (SliceRefBuffer data) = data"
    by (simp_all add: Buffer_size_def)
  show "\<exists>r gs s'. RawRamFile_write V data off (self, m) = Some (r, s') \<and> file_at B (fs @ gs) s' \<and> others_same (set fs) m (snd s')
      \<and> (r = Ok (length data) \<and> content s' = write_at (content (self, m)) off data
         \<or> r = Err (SvsmError_Alloc AllocError_OutOfMemory) \<and> content s' = content (self, m))"
    using RawRamFile_write_ok [OF s V, of "SliceRefBuffer data" off, unfolded b, OF data] unfolding RawRamFile_write_def by fastforce
  show "RawRamFile_read (self, m) buf off = (let d = take (length buf) (drop off (content (self, m))) in
      Some (Ok (length d), d @ drop (length d) buf))" by (rule RawRamFile_read_ok [OF s buf])
  show "if rf_size self < n then RawRamFile_truncate n (self, m) = Some (Err (SvsmError_FileSystem FsError_Inval), (self, m))
       else \<exists>np s'. RawRamFile_truncate n (self, m) = Some (Ok n, s') \<and> file_at B (take np fs) s'
         \<and> others_same (set fs) m (snd s') \<and> content s' = take n (content (self, m))"
  proof (cases "rf_size self < n")
    case True
    then show ?thesis by (simp add: RawRamFile_truncate_def)
  next
    case False
    then show ?thesis using RawRamFile_truncate_ok [OF s, of n] by fastforce
  qed
qed

definition demo_mem :: page_mem where
  "demo_mem = \<lparr> pm_root = demo_heap, pm_bytes = (\<lambda>_. 0xff) \<rparr>"

lemma demo_file: "file_at {0} [] (RawRamFile_new, demo_mem)"
proof -
  have "virt_bits (hm_start_virt demo_heap) \<noteq> 0"
  proof -
    have "1 + meta_pages (hm_page_count demo_region) \<le> hm_page_count demo_region" by (simp add: demo_region)
    from init_memory_run [OF demo_region(1) this refl] obtain r' where
      "init_memory 1 demo_region = Some r'" "hm_start_virt r' = hm_start_virt demo_region" by metis
    then show ?thesis by (simp add: demo_heap_def demo_region_def)
  qed
  then have "root_ok {0} demo_heap" using demo_heap(1,2) by (simp add: root_ok_def)
  then show ?thesis by (simp add: file_at_def RawRamFile_new_def demo_mem_def)
qed

theorem ram_file_refines_bytes_witness:
  "file_at {0} [] (RawRamFile_new, demo_mem) \<and> heap_mapped (\<lambda>v. Some (PhysAddr (virt_bits v))) (pm_root demo_mem)
   \<and> (\<exists>r gs s'. RawRamFile_write (\<lambda>v. Some (PhysAddr (virt_bits v))) [1, 2, 3] 5000 (RawRamFile_new, demo_mem) = Some (r, s')
        \<and> file_at {0} gs s' \<and> (r = Ok 3 \<and> content s' = replicate 5000 0 @ [1, 2, 3]
           \<or> r = Err (SvsmError_Alloc AllocError_OutOfMemory) \<and> content s' = []))"
proof -
  have V: "heap_mapped (\<lambda>v. Some (PhysAddr (virt_bits v))) (pm_root demo_mem)" by (simp add: heap_mapped_def)
  have c: "content (RawRamFile_new, demo_mem) = []" by (simp add: content_def RawRamFile_new_def)
  have "write_at [] 5000 [1, 2, 3] = replicate 5000 0 @ [1, 2, 3]" by (simp add: write_at_def)
  moreover have "length [1::u8, 2, 3] < 2 ^ 63" "5000 + length [1::u8, 2, 3] \<le> usize_max - PAGE_SIZE" "length ([]::u8 list) < 2 ^ 63"
    by (simp_all add: usize_max_eq page_consts)
  ultimately show ?thesis
    using ram_file_refines_bytes [OF demo_file V, of "[1, 2, 3]" 5000 "[]"] demo_file V unfolding c by fastforce
qed

end
