(* ===== verification/Fs_Claims.thy ===== *)
theory Fs_Claims
  imports Fs_Ops Ram_File_Claims "HOL-Library.Sublist"
begin

text \<open>
  The file system refines a map from paths to entries; missing directories of a path are created;
  the bytes of the files behind the handles.
\<close>

section \<open>The abstract file system\<close>

text \<open>The error of an operation on the map, \<open>None\<close> when it succeeds.\<close>

definition create_error :: "(string list \<Rightarrow> DirEntry option) \<Rightarrow> string list \<Rightarrow> FsError option" where
  "create_error t p = (if p = [] then Some FsError_Inval
     else case t (butlast p) of
       Some (DirEntry_Directory d) \<Rightarrow> if t p = None then None else Some FsError_FileExists
     | _ \<Rightarrow> Some FsError_FileNotFound)"

definition unlink_error :: "(string list \<Rightarrow> DirEntry option) \<Rightarrow> string list \<Rightarrow> FsError option" where
  "unlink_error t p = (if p = [] then Some FsError_Inval
     else case t p of
       None \<Rightarrow> Some FsError_FileNotFound
     | Some (DirEntry_Directory d) \<Rightarrow> Some FsError_IsDir
     | Some (DirEntry_File f) \<Rightarrow> None)"

definition rmdir_error :: "(string list \<Rightarrow> DirEntry option) \<Rightarrow> string list \<Rightarrow> FsError option" where
  "rmdir_error t p = (if p = [] then Some FsError_Inval
     else case t p of
       None \<Rightarrow> Some FsError_FileNotFound
     | Some (DirEntry_File f) \<Rightarrow> Some FsError_IsFile
     | Some (DirEntry_Directory d) \<Rightarrow> if \<exists>k. t (p @ [k]) \<noteq> None then Some FsError_NotEmpty else None)"

definition open_result :: "(string list \<Rightarrow> DirEntry option) \<Rightarrow> string list \<Rightarrow> (nat, SvsmError) result" where
  "open_result t p = (if p = [] then fs_err FsError_Inval
     else case t p of Some (DirEntry_File f) \<Rightarrow> Ok f | _ \<Rightarrow> fs_err FsError_FileNotFound)"

section \<open>The operations on the map\<close>

lemma fs_next_fresh: "fs_inv s \<Longrightarrow> fs_files s (fs_next s) = None"
  using fs_invD(6) [of s "fs_next s"] by (cases "fs_files s (fs_next s)") auto

lemma fs_create_spec:
  assumes s: "fs_inv s" and p: "p = split_path_allow_empty path"
  shows "create_error (fs_abs s) p = Some e \<Longrightarrow> fs_create path s = Some (fs_err e, s)"
    and "create_error (fs_abs s) p = None \<Longrightarrow> \<exists>f s'. fs_create path s = Some (Ok (RawFileHandle_new f True True), s') \<and> fs_inv s'
      \<and> fs_abs s' = (fs_abs s)(p \<mapsto> DirEntry_File f) \<and> fs_files s f = None \<and> fs_files s' = (fs_files s)(f \<mapsto> RawRamFile_new)
      \<and> fs_mem s' = fs_mem s"
proof -
  from fs_invD(1) [OF s] obtain r where r: "fs_root s = Some r" by blast
  note w = walk_parent_spec [OF s r, of path, folded p, unfolded Let_def]
  {
    assume "create_error (fs_abs s) p = Some e"
    then show "fs_create path s = Some (fs_err e, s)"
      using create_file_spec(1) [OF s, of "butlast p" _ "last p"] fs_abs_parent [OF s, of p]
      by (auto simp: create_error_def fs_create_def r create_root_def w split: if_splits option.splits DirEntry.splits)
  }
  assume ok: "create_error (fs_abs s) p = None"
  then obtain d where d: "p \<noteq> []" "fs_abs s (butlast p) = Some (DirEntry_Directory d)" "fs_abs s p = None"
    by (auto simp: create_error_def split: if_splits option.splits DirEntry.splits)
  then have "dir_lookup s d (last p) = None" using fs_abs_parent [OF s d(1)] by simp
  from create_file_spec(2) [OF s d(2) this] d(1) show "\<exists>f s'. fs_create path s = Some (Ok (RawFileHandle_new f True True), s') \<and> fs_inv s'
      \<and> fs_abs s' = (fs_abs s)(p \<mapsto> DirEntry_File f) \<and> fs_files s f = None \<and> fs_files s' = (fs_files s)(f \<mapsto> RawRamFile_new)
      \<and> fs_mem s' = fs_mem s"
    using fs_next_fresh [OF s] by (auto simp: fs_create_def r create_root_def w d)
qed

lemma fs_mkdir_spec:
  assumes s: "fs_inv s" and p: "p = split_path_allow_empty path"
  shows "create_error (fs_abs s) p = Some e \<Longrightarrow> fs_mkdir path s = Some (fs_err e, s)"
    and "create_error (fs_abs s) p = None \<Longrightarrow> \<exists>d s'. fs_mkdir path s = Some (Ok (), s') \<and> fs_inv s'
      \<and> fs_abs s' = (fs_abs s)(p \<mapsto> DirEntry_Directory d) \<and> fs_files s' = fs_files s \<and> fs_mem s' = fs_mem s"
proof -
  from fs_invD(1) [OF s] obtain r where r: "fs_root s = Some r" by blast
  note w = walk_parent_spec [OF s r, of path, folded p, unfolded Let_def]
  {
    assume "create_error (fs_abs s) p = Some e"
    then show "fs_mkdir path s = Some (fs_err e, s)"
      using create_directory_spec(1) [OF s, of "butlast p" _ "last p"] fs_abs_parent [OF s, of p]
      by (auto simp: create_error_def fs_mkdir_def r mkdir_root_def w split: if_splits option.splits DirEntry.splits)
  }
  assume ok: "create_error (fs_abs s) p = None"
  then obtain d where d: "p \<noteq> []" "fs_abs s (butlast p) = Some (DirEntry_Directory d)" "fs_abs s p = None"
    by (auto simp: create_error_def split: if_splits option.splits DirEntry.splits)
  then have "dir_lookup s d (last p) = None" using fs_abs_parent [OF s d(1)] by simp
  from create_directory_spec(2) [OF s d(2) this] d(1) show "\<exists>d s'. fs_mkdir path s = Some (Ok (), s') \<and> fs_inv s'
      \<and> fs_abs s' = (fs_abs s)(p \<mapsto> DirEntry_Directory d) \<and> fs_files s' = fs_files s \<and> fs_mem s' = fs_mem s"
    by (auto simp: fs_mkdir_def r mkdir_root_def w d)
qed

lemma fs_unlink_spec:
  assumes s: "fs_inv s" and p: "p = split_path_allow_empty path"
  shows "unlink_error (fs_abs s) p = Some e \<Longrightarrow> fs_unlink path s = Some (fs_err e, s)"
    and "unlink_error (fs_abs s) p = None \<Longrightarrow> \<exists>s'. fs_unlink path s = Some (Ok (), s') \<and> fs_inv s'
      \<and> fs_abs s' = (fs_abs s)(p := None) \<and> fs_files s' = fs_files s \<and> fs_mem s' = fs_mem s"
proof -
  from fs_invD(1) [OF s] obtain r where r: "fs_root s = Some r" by blast
  note w = walk_parent_spec [OF s r, of path, folded p, unfolded Let_def]
  {
    assume "unlink_error (fs_abs s) p = Some e"
    then show "fs_unlink path s = Some (fs_err e, s)"
      using Directory_lookup_spec [OF s, of p] fs_abs_parent [OF s, of p]
      by (auto simp: unlink_error_def fs_unlink_def r unlink_root_def w split: if_splits option.splits DirEntry.splits)
  }
  assume "unlink_error (fs_abs s) p = None"
  then obtain f where f: "p \<noteq> []" "fs_abs s p = Some (DirEntry_File f)"
    by (auto simp: unlink_error_def split: if_splits option.splits DirEntry.splits)
  with fs_abs_parent [OF s f(1)] obtain d where d: "fs_abs s (butlast p) = Some (DirEntry_Directory d)"
      "dir_lookup s d (last p) = Some (DirEntry_File f)" by (auto split: option.splits DirEntry.splits)
  from unlink_spec [OF s d _ same_tree_refl] f(1) show "\<exists>s'. fs_unlink path s = Some (Ok (), s') \<and> fs_inv s'
      \<and> fs_abs s' = (fs_abs s)(p := None) \<and> fs_files s' = fs_files s \<and> fs_mem s' = fs_mem s"
    by (auto simp: fs_unlink_def r unlink_root_def w d Directory_lookup_spec [OF s f(1) d(1)] f)
qed

lemma fs_rmdir_spec:
  assumes s: "fs_inv s" and p: "p = split_path_allow_empty path"
  shows "rmdir_error (fs_abs s) p = Some e \<Longrightarrow> fs_rmdir path s = Some (fs_err e, s)"
    and "rmdir_error (fs_abs s) p = None \<Longrightarrow> \<exists>s'. fs_rmdir path s = Some (Ok (), s') \<and> fs_inv s'
      \<and> fs_abs s' = (fs_abs s)(p := None) \<and> fs_files s' = fs_files s \<and> fs_mem s' = fs_mem s"
proof -
  from fs_invD(1) [OF s] obtain r where r: "fs_root s = Some r" by blast
  note w = walk_parent_spec [OF s r, of path, folded p, unfolded Let_def]
  have dir: "\<exists>d. fs_abs s (butlast p) = Some (DirEntry_Directory d) \<and> dir_lookup s d (last p) = Some (DirEntry_Directory t)"
    if "p \<noteq> []" "fs_abs s p = Some (DirEntry_Directory t)" for t
    using fs_abs_parent [OF s that(1)] that(2) by (auto split: option.splits DirEntry.splits)
  have snoc: "butlast p @ [last p, k] = p @ [k]" if "p \<noteq> []" for k
    using that by (metis append.assoc append_Cons append_Nil append_butlast_last_id)
  {
    assume e: "rmdir_error (fs_abs s) p = Some e"
    show "fs_rmdir path s = Some (fs_err e, s)"
    proof (cases "\<exists>t. p \<noteq> [] \<and> fs_abs s p = Some (DirEntry_Directory t)")
      case True
      then obtain t where t: "p \<noteq> []" "fs_abs s p = Some (DirEntry_Directory t)" by blast
      from dir [OF t] obtain d where d: "fs_abs s (butlast p) = Some (DirEntry_Directory d)"
        "dir_lookup s d (last p) = Some (DirEntry_Directory t)" by blast
      have "Directory_prepare_remove t s = Some (fs_err FsError_NotEmpty, s)" "e = FsError_NotEmpty"
        using e t rmdir_spec(1) [OF s d] by (auto simp: rmdir_error_def snoc split: if_splits)
      then show ?thesis using t
        by (simp add: fs_rmdir_def r rmdir_root_def w d Directory_lookup_spec [OF s t(1) d(1)] bindM_def)
    next
      case False
      then show ?thesis using e Directory_lookup_spec [OF s, of p] fs_abs_parent [OF s, of p]
        by (auto simp: rmdir_error_def fs_rmdir_def r rmdir_root_def w split: if_splits option.splits DirEntry.splits)
    qed
  }
  assume ok: "rmdir_error (fs_abs s) p = None"
  then obtain t where t: "p \<noteq> []" "fs_abs s p = Some (DirEntry_Directory t)" "\<forall>k. fs_abs s (p @ [k]) = None"
    by (auto simp: rmdir_error_def split: if_splits option.splits DirEntry.splits)
  from dir [OF t(1,2)] obtain d where d: "fs_abs s (butlast p) = Some (DirEntry_Directory d)"
    "dir_lookup s d (last p) = Some (DirEntry_Directory t)" by blast
  from rmdir_spec(2) [OF s d] t(1,3) show "\<exists>s'. fs_rmdir path s = Some (Ok (), s') \<and> fs_inv s'
      \<and> fs_abs s' = (fs_abs s)(p := None) \<and> fs_files s' = fs_files s \<and> fs_mem s' = fs_mem s"
    by (auto simp: fs_rmdir_def r rmdir_root_def w d Directory_lookup_spec [OF s t(1) d(1)] t(2) snoc)
qed

lemma fs_open_spec:
  assumes s: "fs_inv s" and p: "p = split_path_allow_empty path"
  shows "fs_open path rd wr s = Some (case open_result (fs_abs s) p of Ok f \<Rightarrow> Ok (RawFileHandle_new f rd wr) | Err e \<Rightarrow> Err e)"
proof -
  from fs_invD(1) [OF s] obtain r where r: "fs_root s = Some r" by blast
  note w = walk_parent_spec [OF s r, of path, folded p, unfolded Let_def]
  show ?thesis using Directory_lookup_spec [OF s, of p] fs_abs_parent [OF s, of p]
    by (auto simp: open_result_def fs_open_def r open_root_def w split: option.splits DirEntry.splits)
qed

lemma initialize_fs_spec:
  assumes "fs_root s = None" and "\<And>d. fs_dirs s d = None" and "\<And>f. fs_files s f = None"
  shows "\<exists>s'. initialize_fs s = Some s' \<and> fs_inv s' \<and> fs_abs s' = [[] \<mapsto> DirEntry_Directory (fs_next s)]
    \<and> fs_files s' = fs_files s \<and> fs_mem s' = fs_mem s"
proof -
  define r where "r = fs_next s"
  define s' where "s' = s\<lparr>fs_dirs := (fs_dirs s)(r \<mapsto> RawRamDirectory_new), fs_root := Some r, fs_next := Suc r\<rparr>"
  have l: "dir_lookup s' d n = None" for d n using assms(2) by (auto simp: dir_lookup_def s'_def dir_map_def RawRamDirectory_new_def)
  have "resolve s' (DirEntry_Directory r) p = (if p = [] then Some (DirEntry_Directory r) else None)" for p
    by (cases p) (simp_all add: l)
  then have "fs_abs s' = [[] \<mapsto> DirEntry_Directory r]" by (auto simp: fs_abs_def s'_def fun_eq_iff)
  moreover have "fs_inv s'" using assms by (auto simp: fs_inv_def l) (auto simp: s'_def RawRamDirectory_new_def split: if_splits)
  ultimately show ?thesis using assms(1) by (auto simp: initialize_fs_def s'_def r_def)
qed

section \<open>Creating missing directories\<close>

lemma fs_abs_prefix:
  assumes s: "fs_inv s"
  shows "fs_abs s (p @ q) \<noteq> None \<Longrightarrow> q \<noteq> [] \<Longrightarrow> \<exists>d. fs_abs s p = Some (DirEntry_Directory d)"
proof (induction q rule: rev_induct)
  case (snoc k q)
  have e: "fs_abs s (p @ q @ [k]) = (case fs_abs s (p @ q) of Some (DirEntry_Directory d) \<Rightarrow> dir_lookup s d k | _ \<Rightarrow> None)"
    using fs_abs_parent [OF s, of "(p @ q) @ [k]", unfolded butlast_snoc last_snoc] by simp
  then obtain d where d: "fs_abs s (p @ q) = Some (DirEntry_Directory d)"
    using snoc.prems(1) by (auto split: option.splits DirEntry.splits)
  then show ?case using snoc.IH by (cases "q = []") auto
qed simp

lemma walk_create_spec:
  assumes "fs_inv s" and "fs_abs s q = Some (DirEntry_Directory d)"
  shows "if \<exists>a f. prefix a items \<and> fs_abs s (q @ a) = Some (DirEntry_File f)
    then walk_create_loop d items s = Some (fs_err FsError_FileNotFound, s)
    else \<exists>c s'. walk_create_loop d items s = Some (Ok c, s') \<and> fs_inv s' \<and> fs_abs s' (q @ items) = Some (DirEntry_Directory c)
      \<and> fs_abs s \<subseteq>\<^sub>m fs_abs s' \<and> dom (fs_abs s') = dom (fs_abs s) \<union> {q @ a | a. prefix a items}
      \<and> fs_files s' = fs_files s \<and> fs_mem s' = fs_mem s \<and> (fs_abs s (q @ items) \<noteq> None \<longrightarrow> s' = s)"
  using assms
proof (induction items arbitrary: s q d)
  case Nil
  then show ?case by auto
next
  case (Cons n ns)
  have e: "fs_abs s (q @ [n]) = dir_lookup s d n" using fs_abs_parent [OF Cons.prems(1), of "q @ [n]"] Cons.prems(2) by simp
  note look = Directory_lookup_spec [OF Cons.prems(1), of "q @ [n]" d, simplified, OF Cons.prems(2)]
  have pre: "prefix a (n # ns) \<longleftrightarrow> a = [] \<or> (\<exists>b. a = n # b \<and> prefix b ns)" for a by (cases a) auto
  have ps: "{q @ a | a. prefix a (n # ns)} = insert q {(q @ [n]) @ a | a. prefix a ns}" by (auto simp: pre)
  show ?case
  proof (cases "fs_abs s (q @ [n])")
    case None
    from create_directory_spec(2) [OF Cons.prems, of n] None e obtain s1 where s1:
      "Directory_create_directory d n s = Some (Ok (fs_next s), s1)" "fs_inv s1"
      "fs_abs s1 = (fs_abs s)(q @ [n] \<mapsto> DirEntry_Directory (fs_next s))" "fs_files s1 = fs_files s" "fs_mem s1 = fs_mem s" by auto
    have below: "fs_abs s ((q @ [n]) @ a) = None" for a
      using fs_abs_prefix [OF Cons.prems(1), of "q @ [n]" a] None by (metis append_Nil2 option.distinct(1))
    have nofile: "\<not> (\<exists>a f. prefix a ns \<and> fs_abs s1 ((q @ [n]) @ a) = Some (DirEntry_File f))"
      using below by (auto simp: s1(3) split: if_splits)
    have "\<not> (\<exists>a f. prefix a (n # ns) \<and> fs_abs s (q @ a) = Some (DirEntry_File f))"
      using below Cons.prems(2) by (auto simp: pre)
    moreover have "fs_abs s1 (q @ [n]) = Some (DirEntry_Directory (fs_next s))" by (simp add: s1(3))
    from Cons.IH [OF s1(2) this, unfolded if_not_P [OF nofile]] obtain c s' where c: "walk_create_loop (fs_next s) ns s1 = Some (Ok c, s')" "fs_inv s'"
      "fs_abs s' ((q @ [n]) @ ns) = Some (DirEntry_Directory c)" "fs_abs s1 \<subseteq>\<^sub>m fs_abs s'"
      "dom (fs_abs s') = dom (fs_abs s1) \<union> {(q @ [n]) @ a | a. prefix a ns}" "fs_files s' = fs_files s1" "fs_mem s' = fs_mem s1"
      by blast
    moreover have "fs_abs s \<subseteq>\<^sub>m fs_abs s1" using None by (auto simp: s1(3) map_le_def)
    then have "fs_abs s \<subseteq>\<^sub>m fs_abs s'" using c(4) by (rule map_le_trans)
    moreover have "dom (fs_abs s') = dom (fs_abs s) \<union> {q @ a | a. prefix a (n # ns)}"
      unfolding ps c(5) using Cons.prems(2) by (auto simp: s1(3))
    moreover have "walk_create_loop d (n # ns) s = Some (Ok c, s')" using look None s1(1) c(1) by simp
    ultimately show ?thesis using s1 below by auto
  next
    case (Some x)
    show ?thesis
    proof (cases x)
      case (DirEntry_File f)
      then have "prefix [n] (n # ns) \<and> fs_abs s (q @ [n]) = Some (DirEntry_File f)" using Some by simp
      then have "\<exists>a f. prefix a (n # ns) \<and> fs_abs s (q @ a) = Some (DirEntry_File f)" by blast
      then show ?thesis using look Some DirEntry_File by simp
    next
      case (DirEntry_Directory t)
      then have t: "fs_abs s (q @ [n]) = Some (DirEntry_Directory t)" using Some by simp
      have isf: "(\<exists>a f. prefix a (n # ns) \<and> fs_abs s (q @ a) = Some (DirEntry_File f))
          \<longleftrightarrow> (\<exists>a f. prefix a ns \<and> fs_abs s ((q @ [n]) @ a) = Some (DirEntry_File f))"
        using Cons.prems(2) by (auto simp: pre)
      have "walk_create_loop d (n # ns) s = walk_create_loop t ns s" using look t by simp
      moreover have "dom (fs_abs s) \<union> insert q A = dom (fs_abs s) \<union> A" for A using Cons.prems(2) by auto
      moreover have "q @ n # ns = (q @ [n]) @ ns" by simp
      ultimately show ?thesis using Cons.IH [OF Cons.prems(1) t] unfolding isf ps by (simp only:)
    qed
  qed
qed

lemma split_path_items: "x \<in> set (split_path_allow_empty path) \<Longrightarrow> x \<noteq> []"
proof (induction path rule: split_path_allow_empty.induct)
  case (1 path)
  then show ?case by (subst (asm) (2) split_path_allow_empty.simps) (auto simp: Let_def split: if_splits)
qed

section \<open>Properties\<close>

text \<open>
  C6. The file system is a map from paths to files and directories.  On every path, well formed or
  not, create, mkdir, unlink, rmdir and open return without panic.  They report an error exactly
  when the map says so, and then nothing changes: the empty path, a missing or non-directory
  parent, an existing target of create and mkdir, a missing target or one of the wrong kind for
  unlink, rmdir and open, a directory that is not empty.  Otherwise create and mkdir change the map
  at the path alone, to an empty file that is not in the store or to a directory; unlink and rmdir
  take the path alone out of the map and leave the files of open handles as they are; the tree
  invariant is kept.
\<close>

theorem fs_refines_paths:
  assumes s: "fs_inv s" and p: "p = split_path_allow_empty path"
  shows "(case create_error (fs_abs s) p of
        Some e \<Rightarrow> fs_create path s = Some (fs_err e, s)
      | None \<Rightarrow> \<exists>f s'. fs_create path s = Some (Ok (RawFileHandle_new f True True), s') \<and> fs_inv s'
          \<and> fs_abs s' = (fs_abs s)(p \<mapsto> DirEntry_File f) \<and> fs_files s f = None
          \<and> fs_files s' = (fs_files s)(f \<mapsto> RawRamFile_new) \<and> fs_mem s' = fs_mem s)
    \<and> (case create_error (fs_abs s) p of
        Some e \<Rightarrow> fs_mkdir path s = Some (fs_err e, s)
      | None \<Rightarrow> \<exists>d s'. fs_mkdir path s = Some (Ok (), s') \<and> fs_inv s'
          \<and> fs_abs s' = (fs_abs s)(p \<mapsto> DirEntry_Directory d) \<and> fs_files s' = fs_files s \<and> fs_mem s' = fs_mem s)
    \<and> (case unlink_error (fs_abs s) p of
        Some e \<Rightarrow> fs_unlink path s = Some (fs_err e, s)
      | None \<Rightarrow> \<exists>s'. fs_unlink path s = Some (Ok (), s') \<and> fs_inv s'
          \<and> fs_abs s' = (fs_abs s)(p := None) \<and> fs_files s' = fs_files s \<and> fs_mem s' = fs_mem s)
    \<and> (case rmdir_error (fs_abs s) p of
        Some e \<Rightarrow> fs_rmdir path s = Some (fs_err e, s)
      | None \<Rightarrow> \<exists>s'. fs_rmdir path s = Some (Ok (), s') \<and> fs_inv s'
          \<and> fs_abs s' = (fs_abs s)(p := None) \<and> fs_files s' = fs_files s \<and> fs_mem s' = fs_mem s)
    \<and> fs_open path rd wr s = Some (case open_result (fs_abs s) p of Ok f \<Rightarrow> Ok (RawFileHandle_new f rd wr) | Err e \<Rightarrow> Err e)"
proof (intro conjI)
  show "case create_error (fs_abs s) p of
        Some e \<Rightarrow> fs_create path s = Some (fs_err e, s)
      | None \<Rightarrow> \<exists>f s'. fs_create path s = Some (Ok (RawFileHandle_new f True True), s') \<and> fs_inv s'
          \<and> fs_abs s' = (fs_abs s)(p \<mapsto> DirEntry_File f) \<and> fs_files s f = None
          \<and> fs_files s' = (fs_files s)(f \<mapsto> RawRamFile_new) \<and> fs_mem s' = fs_mem s"
    using fs_create_spec [OF s p] by (simp split: option.splits)
  show "case create_error (fs_abs s) p of
        Some e \<Rightarrow> fs_mkdir path s = Some (fs_err e, s)
      | None \<Rightarrow> \<exists>d s'. fs_mkdir path s = Some (Ok (), s') \<and> fs_inv s'
          \<and> fs_abs s' = (fs_abs s)(p \<mapsto> DirEntry_Directory d) \<and> fs_files s' = fs_files s \<and> fs_mem s' = fs_mem s"
    using fs_mkdir_spec [OF s p] by (simp split: option.splits)
  show "case unlink_error (fs_abs s) p of
        Some e \<Rightarrow> fs_unlink path s = Some (fs_err e, s)
      | None \<Rightarrow> \<exists>s'. fs_unlink path s = Some (Ok (), s') \<and> fs_inv s'
          \<and> fs_abs s' = (fs_abs s)(p := None) \<and> fs_files s' = fs_files s \<and> fs_mem s' = fs_mem s"
    using fs_unlink_spec [OF s p] by (simp split: option.splits)
  show "case rmdir_error (fs_abs s) p of
        Some e \<Rightarrow> fs_rmdir path s = Some (fs_err e, s)
      | None \<Rightarrow> \<exists>s'. fs_rmdir path s = Some (Ok (), s') \<and> fs_inv s'
          \<and> fs_abs s' = (fs_abs s)(p := None) \<and> fs_files s' = fs_files s \<and> fs_mem s' = fs_mem s"
    using fs_rmdir_spec [OF s p] by (simp split: option.splits)
qed (rule fs_open_spec [OF s p])

definition demo_store :: fs_state where
  "demo_store = \<lparr> fs_mem = demo_mem, fs_files = (\<lambda>_. None), fs_dirs = (\<lambda>_. None), fs_root = None, fs_next = 0 \<rparr>"

definition demo_fs :: fs_state where
  "demo_fs = the (initialize_fs demo_store)"

lemma demo_fs: "initialize_fs demo_store = Some demo_fs" "fs_inv demo_fs" "fs_abs demo_fs = [[] \<mapsto> DirEntry_Directory 0]"
  "fs_files demo_fs = (\<lambda>_. None)" "fs_mem demo_fs = demo_mem"
  using initialize_fs_spec [of demo_store] by (auto simp: demo_fs_def demo_store_def)

lemma demo_path: "split_path_allow_empty ''/etc//'' = [''etc'']"
  by (simp add: split_path_allow_empty.simps [of "''/etc//''"] split_path_allow_empty.simps [of "''etc//''"]
      split_path_allow_empty.simps [of "''/''"] split_path_allow_empty.simps [of "[]"])

theorem fs_refines_paths_witness:
  "fs_inv demo_fs \<and> [''etc''] = split_path_allow_empty ''/etc//''
    \<and> (\<exists>d s'. fs_mkdir ''/etc//'' demo_fs = Some (Ok (), s') \<and> fs_inv s'
      \<and> fs_abs s' = [[] \<mapsto> DirEntry_Directory 0, [''etc''] \<mapsto> DirEntry_Directory d])
    \<and> fs_unlink ''/etc//'' demo_fs = Some (fs_err FsError_FileNotFound, demo_fs)"
proof -
  have "create_error (fs_abs demo_fs) [''etc''] = None" "unlink_error (fs_abs demo_fs) [''etc''] = Some FsError_FileNotFound"
    by (simp_all add: demo_fs(3) create_error_def unlink_error_def)
  then show ?thesis using fs_refines_paths [OF demo_fs(2) demo_path [symmetric], of False False] demo_fs(2,3) demo_path
    by (simp only: option.case) metis
qed

text \<open>
  C7. Creating a file with its directories: create_all returns without panic on every path.  It
  fails without changing anything on the empty path, when a proper prefix of the path is a file,
  and when the path exists; otherwise it creates exactly the missing prefixes of the path, each of
  them a directory, and an empty file at the path, and every other path leads where it did.
\<close>

theorem create_all_creates_prefixes:
  assumes s: "fs_inv s" and p: "p = split_path_allow_empty path"
  shows "if p = [] then create_all path s = Some (fs_err FsError_Inval, s)
    else if \<exists>a f. strict_prefix a p \<and> fs_abs s a = Some (DirEntry_File f) then create_all path s = Some (fs_err FsError_FileNotFound, s)
    else if fs_abs s p \<noteq> None then create_all path s = Some (fs_err FsError_FileExists, s)
    else \<exists>f s'. create_all path s = Some (Ok (RawFileHandle_new f True True), s') \<and> fs_inv s'
      \<and> fs_abs s' p = Some (DirEntry_File f) \<and> fs_abs s \<subseteq>\<^sub>m fs_abs s' \<and> dom (fs_abs s') = dom (fs_abs s) \<union> {a. prefix a p}
      \<and> fs_files s f = None \<and> fs_files s' = (fs_files s)(f \<mapsto> RawRamFile_new) \<and> fs_mem s' = fs_mem s"
proof (cases "p = []")
  case True
  then show ?thesis using p by (simp add: create_all_def split_path_def)
next
  case False
  from fs_invD(1) [OF s] obtain r where r: "fs_root s = Some r" by blast
  have root: "fs_abs s [] = Some (DirEntry_Directory r)" using r by (simp add: fs_abs_def)
  have "\<not> prefix p (butlast p)" using False prefix_length_le [of p "butlast p"] by (cases p rule: rev_cases) auto
  then have pre: "prefix a (butlast p) \<longleftrightarrow> strict_prefix a p" for a
    using False prefix_snoc [of a "butlast p" "last p"] by (auto simp: strict_prefix_def)
  have ne: "last p \<noteq> []" using split_path_items [of "last p" path] p False by simp
  have run: "create_all path s = do {
      (r, s) \<leftarrow> walk_create_loop r (butlast p) s;
      case r of Err e \<Rightarrow> Some (Err e, s)
      | Ok dir \<Rightarrow> do {
          (c, s) \<leftarrow> Directory_create_file dir (last p) s;
          Some (case c of Ok file \<Rightarrow> Ok (RawFileHandle_new file True True) | Err e \<Rightarrow> Err e, s) } }"
    using False ne by (simp add: create_all_def split_path_def walk_path_create_def r Let_def p [symmetric] cong: result.case_cong)
  note w = walk_create_spec [OF s root, of "butlast p", simplified, unfolded pre]
  show ?thesis
  proof (cases "\<exists>a f. strict_prefix a p \<and> fs_abs s a = Some (DirEntry_File f)")
    case True
    with w have "walk_create_loop r (butlast p) s = Some (fs_err FsError_FileNotFound, s)" by (simp only: if_True ex_simps)
    then show ?thesis using True False by (simp add: run)
  next
    case nofile: False
    with w obtain c s1 where c: "walk_create_loop r (butlast p) s = Some (Ok c, s1)" "fs_inv s1"
      "fs_abs s1 (butlast p) = Some (DirEntry_Directory c)" "fs_abs s \<subseteq>\<^sub>m fs_abs s1"
      "dom (fs_abs s1) = dom (fs_abs s) \<union> {a. strict_prefix a p}" "fs_files s1 = fs_files s" "fs_mem s1 = fs_mem s"
      "fs_abs s (butlast p) \<noteq> None \<Longrightarrow> s1 = s" by (auto split: if_splits)
    note e = fs_abs_parent [OF c(2) False, unfolded c(3), simplified]
    show ?thesis
    proof (cases "fs_abs s p")
      case (Some x)
      have "fs_abs s (butlast p) \<noteq> None" using fs_abs_parent [OF s False] Some by (auto split: option.splits)
      then have eq: "s1 = s" by (rule c(8))
      then have "dir_lookup s1 c (last p) \<noteq> None" using e Some by (metis option.distinct(1))
      then have "Directory_create_file c (last p) s1 = Some (fs_err FsError_FileExists, s1)" "s1 = s"
        using create_file_spec(1) [OF c(2,3), of "last p"] eq by simp_all
      then show ?thesis using Some False nofile c(1) by (simp add: run)
    next
      case None
      have n1: "fs_abs s1 p = None" using c(5) None by (metis Un_iff domIff mem_Collect_eq prefix_order.less_irrefl)
      from create_file_spec(2) [OF c(2,3), of "last p"] e n1 False obtain f s' where f:
        "Directory_create_file c (last p) s1 = Some (Ok f, s')" "f = fs_next s1" "fs_inv s'" "fs_abs s' = (fs_abs s1)(p \<mapsto> DirEntry_File f)"
        "fs_files s' = (fs_files s1)(f \<mapsto> RawRamFile_new)" "fs_mem s' = fs_mem s1" by auto
      have "create_all path s = Some (Ok (RawFileHandle_new f True True), s')" using c(1) f(1) by (simp add: run)
      moreover have "fs_abs s \<subseteq>\<^sub>m fs_abs s'" using c(4) None by (auto simp: f(4) map_le_def)
      moreover have "dom (fs_abs s') = dom (fs_abs s) \<union> {a. prefix a p}" by (auto simp: f(4) c(5))
      moreover have "fs_files s f = None" using fs_next_fresh [OF c(2)] by (simp add: f(2) c(6))
      ultimately show ?thesis using False nofile None f c by auto
    qed
  qed
qed

lemma demo_path_deep: "split_path_allow_empty ''a/b'' = [''a'', ''b'']"
  by (simp add: split_path_allow_empty.simps [of "''a/b''"] split_path_allow_empty.simps [of "''b''"])

theorem create_all_creates_prefixes_witness:
  "fs_inv demo_fs \<and> [''a'', ''b''] = split_path_allow_empty ''a/b''
    \<and> (\<exists>f s'. create_all ''a/b'' demo_fs = Some (Ok (RawFileHandle_new f True True), s') \<and> fs_inv s'
      \<and> fs_abs s' [''a'', ''b''] = Some (DirEntry_File f))"
proof -
  have "\<not> (\<exists>a f. strict_prefix a [''a'', ''b''] \<and> fs_abs demo_fs a = Some (DirEntry_File f))" "fs_abs demo_fs [''a'', ''b''] = None"
    by (simp_all add: demo_fs(3))
  then show ?thesis using create_all_creates_prefixes [OF demo_fs(2) demo_path_deep [symmetric]] demo_fs(2) demo_path_deep
    by (simp only: if_False list.distinct) metis
qed

end
