(* ===== verification/Fs_Handles.thy ===== *)
theory Fs_Handles
  imports Fs_Claims
begin

text \<open>
  The store of the file system and the page heap together: the files of the store own different
  pages of the heap, and an operation through a handle changes the bytes of its own file alone.
\<close>

section \<open>The store over the heap\<close>

definition fs_frames_ok :: "nat set \<Rightarrow> fs_state \<Rightarrow> (nat \<Rightarrow> nat list) \<Rightarrow> bool" where
  "fs_frames_ok B s fr \<longleftrightarrow> root_ok B (pm_root (fs_mem s))
     \<and> (\<forall>f fl. fs_files s f = Some fl \<longrightarrow> file_at B (fr f) (fl, fs_mem s))
     \<and> (\<forall>f g. fs_files s f \<noteq> None \<longrightarrow> fs_files s g \<noteq> None \<longrightarrow> f \<noteq> g \<longrightarrow> set (fr f) \<inter> set (fr g) = {})"

definition fs_store :: "nat set \<Rightarrow> fs_state \<Rightarrow> bool" where
  "fs_store B s \<longleftrightarrow> fs_inv s \<and> (\<exists>fr. fs_frames_ok B s fr)"

definition file_bytes :: "fs_state \<Rightarrow> nat \<Rightarrow> u8 list option" where
  "file_bytes s f = map_option (\<lambda>fl. content (fl, fs_mem s)) (fs_files s f)"

lemma file_at_same:
  assumes s: "file_at B fs (self, m)" and o: "others_same F m m'" and F: "set fs \<inter> F = {}" and r: "root_ok B (pm_root m')"
  shows "file_at B fs (self, m')" and "content (self, m') = content (self, m)"
proof -
  note D = file_atD [OF s, simplified]
  have b: "file_byte (self, m') k = file_byte (self, m) k" if "k < rf_capacity self" for k
    by (rule file_byte_same [OF s o F that]) simp
  have "file_page (pm_root m') (rf_pages self ! i) (fs ! i)" if "i < length fs" for i
    using file_page_same [OF o D(4) [OF that]] F that by (auto dest: nth_mem)
  then show "file_at B fs (self, m')" using D b r unfolding file_at_def by simp
  show "content (self, m') = content (self, m)" using b D(6) by (intro content_eqI) simp_all
qed

lemma fs_inv_files:
  assumes s: "fs_inv s" and f: "fs_files s f \<noteq> None"
  shows "fs_inv (s\<lparr>fs_files := (fs_files s)(f \<mapsto> fl), fs_mem := m\<rparr>)" and "fs_abs (s\<lparr>fs_files := (fs_files s)(f \<mapsto> fl), fs_mem := m\<rparr>) = fs_abs s"
proof -
  let ?s = "s\<lparr>fs_files := (fs_files s)(f \<mapsto> fl), fs_mem := m\<rparr>"
  have l: "dir_lookup ?s d n = dir_lookup s d n" for d n by (simp add: dir_lookup_def)
  have e: "entry_ok s x \<Longrightarrow> entry_ok ?s x" for x by (cases x) auto
  have "resolve ?s x p = resolve s x p" for x p
    by (induction s x p rule: resolve.induct) (simp_all add: dir_lookup_def split: Option.bind_split)
  then show "fs_abs ?s = fs_abs s" by (simp add: fs_abs_def fun_eq_iff split: option.split)
  show "fs_inv ?s" unfolding fs_inv_def l
    using fs_invD(1) [OF s] fs_invD(2,3) [OF s] e [OF fs_invD(4) [OF s]] fs_invD(5) [OF s] fs_invD(6) [OF s] f
    by (auto split: if_splits)
qed

text \<open>A file operation that keeps the frames of the other files.\<close>

lemma fs_store_update:
  assumes s: "fs_inv s" and fr: "fs_frames_ok B s fr" and f: "fs_files s f = Some fl0"
    and new: "file_at B fs (fl, m)" and o: "others_same (set (fr f)) (fs_mem s) m"
    and fresh: "\<And>g. g \<in> set fs \<Longrightarrow> g \<notin> set (fr f) \<Longrightarrow> ah_used (heap_abs (pm_root (fs_mem s))) g = None"
    and s': "s' = s\<lparr>fs_files := (fs_files s)(f \<mapsto> fl), fs_mem := m\<rparr>"
  shows "fs_store B s'" and "fs_abs s' = fs_abs s" and "file_bytes s' = (file_bytes s)(f \<mapsto> content (fl, m))"
proof -
  have r: "root_ok B (pm_root m)" using file_atD(1) [OF new] by simp
  have sel: "fs_files s' = (fs_files s)(f \<mapsto> fl)" "fs_mem s' = m" by (simp_all add: s')
  have old: "file_at B (fr g) (x, fs_mem s)" "set (fr g) \<inter> set (fr f) = {}" if "fs_files s g = Some x" "g \<noteq> f" for g x
    using fr f that unfolding fs_frames_ok_def by blast+
  note same = file_at_same [OF old(1) o old(2) r]
  have used: "ah_used (heap_abs (pm_root (fs_mem s))) k \<noteq> None" if "fs_files s g = Some x" "g \<noteq> f" "k \<in> set (fr g)" for g x k
    using file_atD(4) [OF old(1) [OF that(1,2)]] that(3) by (auto simp: in_set_conv_nth file_page_def)
  have dis: "set (fr g) \<inter> set fs = {}" if g: "fs_files s g = Some x" "g \<noteq> f" for g x
    using used [OF g] fresh old(2) [OF g] by blast
  have pair: "set (fr g) \<inter> set (fr h) = {}" if "fs_files s g \<noteq> None" "fs_files s h \<noteq> None" "g \<noteq> h" for g h
    using fr that unfolding fs_frames_ok_def by blast
  have "fs_frames_ok B s' (fr(f := fs))"
    unfolding fs_frames_ok_def sel
  proof (intro conjI allI impI)
    fix g x assume "((fs_files s)(f \<mapsto> fl)) g = Some x"
    then show "file_at B ((fr(f := fs)) g) (x, m)" using new same(1) by (auto split: if_splits)
  next
    fix g h assume "((fs_files s)(f \<mapsto> fl)) g \<noteq> None" "((fs_files s)(f \<mapsto> fl)) h \<noteq> None" "g \<noteq> h"
    then show "set ((fr(f := fs)) g) \<inter> set ((fr(f := fs)) h) = {}"
      using dis pair [of g h] by (cases "g = f"; cases "h = f") (auto simp: disjoint_iff)
  qed (rule r)
  moreover have "fs_inv s'" "fs_abs s' = fs_abs s" using fs_inv_files [OF s, where f = f and fl = fl and m = m] f s' by simp_all
  ultimately show "fs_store B s'" "fs_abs s' = fs_abs s" by (auto simp: fs_store_def)
  show "file_bytes s' = (file_bytes s)(f \<mapsto> content (fl, m))"
  proof
    fix g show "file_bytes s' g = ((file_bytes s)(f \<mapsto> content (fl, m))) g"
      using same(2) [of g] by (cases "fs_files s g"; cases "g = f") (simp_all add: file_bytes_def sel)
  qed
qed

text \<open>A new file has no frames.\<close>

lemma fs_store_same:
  assumes "fs_store B s" and "fs_inv s'" and "fs_mem s' = fs_mem s"
    and "fs_files s' = fs_files s \<or> (\<exists>f. fs_files s f = None \<and> fs_files s' = (fs_files s)(f \<mapsto> RawRamFile_new))"
  shows "fs_store B s'"
proof -
  from assms(1) obtain fr where fr: "fs_frames_ok B s fr" by (auto simp: fs_store_def)
  then have r: "root_ok B (pm_root (fs_mem s))" by (simp add: fs_frames_ok_def)
  from assms(4) show ?thesis
  proof (elim disjE exE conjE)
    assume "fs_files s' = fs_files s"
    then show ?thesis using fr assms(2,3) by (auto simp: fs_store_def fs_frames_ok_def)
  next
    fix f assume f: "fs_files s f = None" "fs_files s' = (fs_files s)(f \<mapsto> RawRamFile_new)"
    have "file_at B [] (RawRamFile_new, fs_mem s)" using r by (simp add: file_at_def RawRamFile_new_def)
    then have "fs_frames_ok B s' (fr(f := []))"
      using fr f assms(3) by (auto simp: fs_frames_ok_def split: if_splits)
    then show ?thesis using assms(2) by (auto simp: fs_store_def)
  qed
qed

section \<open>Operations through a handle\<close>

lemma handle_file:
  assumes "fs_store B s" and "file_bytes s f = Some c"
  obtains fr fl where "fs_inv s" and "fs_frames_ok B s fr" and "fs_files s f = Some fl" and "file_at B (fr f) (fl, fs_mem s)"
    and "content (fl, fs_mem s) = c" and "rf_size fl = length c"
proof -
  from assms obtain fr fl where x: "fs_inv s" "fs_frames_ok B s fr" "fs_files s f = Some fl" "content (fl, fs_mem s) = c"
    by (auto simp: fs_store_def file_bytes_def)
  moreover from x have "file_at B (fr f) (fl, fs_mem s)" by (auto simp: fs_frames_ok_def)
  moreover from x(4) have "rf_size fl = length c" by (metis content_nth(2) fst_conv)
  ultimately show thesis by (intro that)
qed

lemma handle_write_ok:
  assumes s: "fs_store B s" and V: "heap_mapped V (pm_root (fs_mem s))" and c: "file_bytes s (fh_file h) = Some c"
    and data: "length data < 2 ^ 63" "fh_current h + length data \<le> usize_max - PAGE_SIZE" and w: "fh_write h"
  shows "\<exists>r h' s'. RawFileHandle_write V data (h, s) = Some (r, (h', s')) \<and> fs_store B s' \<and> fs_abs s' = fs_abs s
      \<and> heap_mapped V (pm_root (fs_mem s'))
      \<and> (r = Ok (length data) \<and> file_bytes s' = (file_bytes s)(fh_file h \<mapsto> write_at c (fh_current h) data)
           \<and> h' = h\<lparr>fh_current := fh_current h + length data\<rparr>
         \<or> r = Err (SvsmError_Alloc AllocError_OutOfMemory) \<and> file_bytes s' = file_bytes s \<and> h' = h)"
proof -
  from s c obtain fr fl where x: "fs_inv s" "fs_frames_ok B s fr" "fs_files s (fh_file h) = Some fl"
    "file_at B (fr (fh_file h)) (fl, fs_mem s)" "content (fl, fs_mem s) = c" by (rule handle_file)
  have b: "Buffer_size (SliceRefBuffer data) = length data" "Buffer_slice (SliceRefBuffer data) = data" by (simp_all add: Buffer_size_def)
  from RawRamFile_write_ok [OF x(4) V, of "SliceRefBuffer data" "fh_current h", unfolded b, OF data]
  obtain r gs fl' m' where wr: "RawRamFile_write V data (fh_current h) (fl, fs_mem s) = Some (r, (fl', m'))"
    "file_at B (fr (fh_file h) @ gs) (fl', m')" "others_same (set (fr (fh_file h))) (fs_mem s) m'"
    "\<And>g. g \<in> set gs \<Longrightarrow> ah_used (heap_abs (pm_root (fs_mem s))) g = None"
    "r = Ok (length data) \<and> content (fl', m') = write_at c (fh_current h) data
       \<or> r = Err (SvsmError_Alloc AllocError_OutOfMemory) \<and> content (fl', m') = c"
    unfolding RawRamFile_write_def x(5) by blast
  define s' where "s' = s\<lparr>fs_files := (fs_files s)(fh_file h \<mapsto> fl'), fs_mem := m'\<rparr>"
  have "fs_store B s' \<and> fs_abs s' = fs_abs s \<and> file_bytes s' = (file_bytes s)(fh_file h \<mapsto> content (fl', m'))"
    using fs_store_update [OF x(1-3) wr(2,3) _ s'_def] wr(4) by auto
  moreover have "heap_mapped V (pm_root (fs_mem s'))" using heap_mapped_same [OF wr(3) V] by (simp add: s'_def)
  moreover have "on_file (fh_file h) (RawRamFile_write V data (fh_current h)) s = Some (r, s')"
    using x(3) wr(1) by (simp add: on_file_def s'_def)
  moreover have "advance r h = Some (if r = Ok (length data) then h\<lparr>fh_current := fh_current h + length data\<rparr> else h)"
    using wr(5) data(2) by (auto simp: advance_def uadd_def)
  ultimately show ?thesis using wr(5) w c by (auto simp: RawFileHandle_write_def check_write_def fun_upd_idem)
qed

lemma handle_read_ok:
  assumes s: "fs_store B s" and c: "file_bytes s (fh_file h) = Some c" and buf: "length buf < 2 ^ 63" and r: "fh_read h"
    and cur: "fh_current h \<le> usize_max"
  shows "RawFileHandle_read s (h, buf) = (let d = take (length buf) (drop (fh_current h) c) in
      Some (Ok (length d), (h\<lparr>fh_current := fh_current h + length d\<rparr>, d @ drop (length d) buf)))"
proof -
  from s c obtain fr fl where x: "fs_inv s" "fs_frames_ok B s fr" "fs_files s (fh_file h) = Some fl"
    "file_at B (fr (fh_file h)) (fl, fs_mem s)" "content (fl, fs_mem s) = c" "rf_size fl = length c" by (rule handle_file)
  note D = file_atD [OF x(4), simplified]
  have "length c \<le> usize_max" using file_at_small(2) [OF x(4)] D(5,6) x(6) by (simp add: usize_max_eq)
  then have "fh_current h + length (take (length buf) (drop (fh_current h) c)) \<le> usize_max" using cur by auto
  then show ?thesis using r x(3) RawRamFile_read_ok [OF x(4) buf, of "fh_current h"] x(5)
    by (simp add: RawFileHandle_read_def check_read_def Let_def advance_def uadd_def)
qed

lemma handle_truncate_ok:
  assumes s: "fs_store B s" and c: "file_bytes s (fh_file h) = Some c" and w: "fh_write h" and n: "n \<le> length c"
  shows "\<exists>s'. RawFileHandle_truncate n (h, s) = Some (Ok n, (h\<lparr>fh_current := min (fh_current h) n\<rparr>, s')) \<and> fs_store B s'
      \<and> fs_abs s' = fs_abs s \<and> file_bytes s' = (file_bytes s)(fh_file h \<mapsto> take n c)"
proof -
  from s c obtain fr fl where x: "fs_inv s" "fs_frames_ok B s fr" "fs_files s (fh_file h) = Some fl"
    "file_at B (fr (fh_file h)) (fl, fs_mem s)" "content (fl, fs_mem s) = c" "rf_size fl = length c" by (rule handle_file)
  from RawRamFile_truncate_ok [OF x(4), of n] n x(6) obtain np fl' m' where
    t: "RawRamFile_truncate n (fl, fs_mem s) = Some (Ok n, (fl', m'))" "file_at B (take np (fr (fh_file h))) (fl', m')"
      "others_same (set (fr (fh_file h))) (fs_mem s) m'" "content (fl', m') = take n c" unfolding x(5) by auto
  define s' where "s' = s\<lparr>fs_files := (fs_files s)(fh_file h \<mapsto> fl'), fs_mem := m'\<rparr>"
  have "rf_size fl' = n" using t(4) n by (metis content_nth(2) fst_conv length_take min.absorb2)
  then have "file_size (fh_file h) s' = Some n" by (simp add: file_size_def s'_def)
  moreover have "on_file (fh_file h) (RawRamFile_truncate n) s = Some (Ok n, s')" using x(3) t(1) by (simp add: on_file_def s'_def)
  ultimately have "RawFileHandle_truncate n (h, s) = Some (Ok n, (h\<lparr>fh_current := min (fh_current h) n\<rparr>, s'))"
    using w by (auto simp: RawFileHandle_truncate_def check_write_def min_def)
  moreover have "fs_store B s' \<and> fs_abs s' = fs_abs s \<and> file_bytes s' = (file_bytes s)(fh_file h \<mapsto> take n c)"
    using fs_store_update [OF x(1-3) t(2,3) _ s'_def] t(4) in_set_takeD [of _ np "fr (fh_file h)"] by auto
  ultimately show ?thesis by blast
qed

section \<open>Properties\<close>

text \<open>
  C8. File handles, the store and the page heap together.  Every file of the store has pages of its
  own.  A write through a handle returns the length and puts the bytes at the position of the
  handle, or reports out of memory and changes no byte; a read copies the bytes at the position;
  truncate keeps a prefix and pulls the position back; each moves the position by what it did.  No
  operation changes a byte of another file or the directory tree, and a handle without the right
  changes nothing.
\<close>

theorem fs_handles_refine_bytes:
  assumes s: "fs_store B s" and V: "heap_mapped V (pm_root (fs_mem s))" and c: "file_bytes s (fh_file h) = Some c"
    and data: "length data < 2 ^ 63" "fh_current h + length data \<le> usize_max - PAGE_SIZE" and buf: "length buf < 2 ^ 63"
  shows "(if fh_write h
      then \<exists>r h' s'. RawFileHandle_write V data (h, s) = Some (r, (h', s')) \<and> fs_store B s' \<and> fs_abs s' = fs_abs s
        \<and> heap_mapped V (pm_root (fs_mem s'))
        \<and> (r = Ok (length data) \<and> file_bytes s' = (file_bytes s)(fh_file h \<mapsto> write_at c (fh_current h) data)
             \<and> h' = h\<lparr>fh_current := fh_current h + length data\<rparr>
           \<or> r = Err (SvsmError_Alloc AllocError_OutOfMemory) \<and> file_bytes s' = file_bytes s \<and> h' = h)
      else RawFileHandle_write V data (h, s) = Some (fs_err FsError_ReadOnly, (h, s)))
    \<and> RawFileHandle_read s (h, buf) = (if fh_read h
        then let d = take (length buf) (drop (fh_current h) c) in
          Some (Ok (length d), (h\<lparr>fh_current := fh_current h + length d\<rparr>, d @ drop (length d) buf))
        else Some (fs_err FsError_WriteOnly, (h, buf)))
    \<and> (if \<not> fh_write h then RawFileHandle_truncate n (h, s) = Some (fs_err FsError_ReadOnly, (h, s))
       else if length c < n then RawFileHandle_truncate n (h, s) = Some (fs_err FsError_Inval, (h, s))
       else \<exists>s'. RawFileHandle_truncate n (h, s) = Some (Ok n, (h\<lparr>fh_current := min (fh_current h) n\<rparr>, s')) \<and> fs_store B s'
         \<and> fs_abs s' = fs_abs s \<and> file_bytes s' = (file_bytes s)(fh_file h \<mapsto> take n c))
    \<and> RawFileHandle_seek_abs pos s h = Some (h\<lparr>fh_current := min pos (length c)\<rparr>)"
proof (intro conjI)
  show "if fh_write h
      then \<exists>r h' s'. RawFileHandle_write V data (h, s) = Some (r, (h', s')) \<and> fs_store B s' \<and> fs_abs s' = fs_abs s
        \<and> heap_mapped V (pm_root (fs_mem s'))
        \<and> (r = Ok (length data) \<and> file_bytes s' = (file_bytes s)(fh_file h \<mapsto> write_at c (fh_current h) data)
             \<and> h' = h\<lparr>fh_current := fh_current h + length data\<rparr>
           \<or> r = Err (SvsmError_Alloc AllocError_OutOfMemory) \<and> file_bytes s' = file_bytes s \<and> h' = h)
      else RawFileHandle_write V data (h, s) = Some (fs_err FsError_ReadOnly, (h, s))"
  proof (cases "fh_write h")
    case True
    then show ?thesis using handle_write_ok [OF s V c data True] by (simp only: if_True)
  qed (simp add: RawFileHandle_write_def check_write_def)
  show "RawFileHandle_read s (h, buf) = (if fh_read h
        then let d = take (length buf) (drop (fh_current h) c) in
          Some (Ok (length d), (h\<lparr>fh_current := fh_current h + length d\<rparr>, d @ drop (length d) buf))
        else Some (fs_err FsError_WriteOnly, (h, buf)))"
    using handle_read_ok [OF s c buf] data(2) by (simp add: RawFileHandle_read_def check_read_def)
  from s c obtain fr fl where x: "fs_files s (fh_file h) = Some fl" "rf_size fl = length c" by (rule handle_file)
  then show "RawFileHandle_seek_abs pos s h = Some (h\<lparr>fh_current := min pos (length c)\<rparr>)"
    by (simp add: RawFileHandle_seek_abs_def file_size_def)
  have "s\<lparr>fs_files := (fs_files s)(fh_file h \<mapsto> fl), fs_mem := fs_mem s\<rparr> = s" using x(1) by (simp add: fun_upd_idem)
  then have "RawFileHandle_truncate n (h, s) = Some (fs_err FsError_Inval, (h, s))" if "fh_write h" "length c < n"
    using that x by (simp add: RawFileHandle_truncate_def check_write_def on_file_def RawRamFile_truncate_def file_size_def)
  then show "if \<not> fh_write h then RawFileHandle_truncate n (h, s) = Some (fs_err FsError_ReadOnly, (h, s))
       else if length c < n then RawFileHandle_truncate n (h, s) = Some (fs_err FsError_Inval, (h, s))
       else \<exists>s'. RawFileHandle_truncate n (h, s) = Some (Ok n, (h\<lparr>fh_current := min (fh_current h) n\<rparr>, s')) \<and> fs_store B s'
         \<and> fs_abs s' = fs_abs s \<and> file_bytes s' = (file_bytes s)(fh_file h \<mapsto> take n c)"
    using handle_truncate_ok [OF s c, of n] by (simp add: RawFileHandle_truncate_def check_write_def)
qed

lemma demo_fs_store: "fs_store {0} demo_fs"
proof -
  have "root_ok {0} (pm_root demo_mem)" using file_atD(1) [OF demo_file] by simp
  then show ?thesis using demo_fs by (auto simp: fs_store_def fs_frames_ok_def)
qed

theorem fs_handles_refine_bytes_witness:
  "\<exists>f s. fs_create ''/etc//'' demo_fs = Some (Ok (RawFileHandle_new f True True), s) \<and> fs_store {0} s
    \<and> file_bytes s f = Some []
    \<and> (\<exists>r h' s'. RawFileHandle_write (\<lambda>v. Some (PhysAddr (virt_bits v))) [1, 2, 3] (RawFileHandle_new f True True, s) = Some (r, (h', s'))
        \<and> fs_store {0} s' \<and> (r = Ok 3 \<and> file_bytes s' f = Some [1, 2, 3] \<and> fh_current h' = 3
          \<or> r = Err (SvsmError_Alloc AllocError_OutOfMemory) \<and> file_bytes s' f = Some []))"
proof -
  have "create_error (fs_abs demo_fs) [''etc''] = None" by (simp add: demo_fs(3) create_error_def)
  from fs_create_spec(2) [OF demo_fs(2) demo_path [symmetric] this] obtain f s where
    f: "fs_create ''/etc//'' demo_fs = Some (Ok (RawFileHandle_new f True True), s)" "fs_inv s" "fs_files demo_fs f = None"
      "fs_files s = (fs_files demo_fs)(f \<mapsto> RawRamFile_new)" "fs_mem s = fs_mem demo_fs" by blast
  have s: "fs_store {0} s" using f by (intro fs_store_same [OF demo_fs_store]) auto
  let ?h = "RawFileHandle_new f True True" let ?V = "\<lambda>v. Some (PhysAddr (virt_bits v))"
  have h: "fh_file ?h = f" "fh_current ?h = 0" "fh_write ?h" by (simp_all add: RawFileHandle_new_def)
  have V: "heap_mapped ?V (pm_root (fs_mem s))" by (simp add: heap_mapped_def)
  have b: "file_bytes s (fh_file ?h) = Some []" by (simp add: file_bytes_def f(4) h content_def RawRamFile_new_def)
  have len: "length [1::u8, 2, 3] < 2 ^ 63" "fh_current ?h + length [1::u8, 2, 3] \<le> usize_max - PAGE_SIZE" "length ([]::u8 list) < 2 ^ 63"
    by (simp_all add: usize_max_eq page_consts h)
  have w: "write_at [] 0 [1, 2, 3::u8] = [1, 2, 3]" by (simp add: write_at_def)
  from conjunct1 [OF fs_handles_refine_bytes [OF s V b len]] obtain r h' s' where
    r: "RawFileHandle_write ?V [1, 2, 3] (?h, s) = Some (r, (h', s'))" "fs_store {0} s'"
    "r = Ok 3 \<and> file_bytes s' = (file_bytes s)(f \<mapsto> [1, 2, 3]) \<and> h' = ?h\<lparr>fh_current := 3\<rparr>
      \<or> r = Err (SvsmError_Alloc AllocError_OutOfMemory) \<and> file_bytes s' = file_bytes s" by (auto simp: h w)
  from r(3) have "r = Ok 3 \<and> file_bytes s' f = Some [1, 2, 3] \<and> fh_current h' = 3
      \<or> r = Err (SvsmError_Alloc AllocError_OutOfMemory) \<and> file_bytes s' f = Some []" using b by (auto simp: h)
  with r(1,2) f(1) s b show ?thesis unfolding h by blast
qed

end
