(* ===== verification/Spin_Lock.thy ===== *)
theory Spin_Lock
  imports Svsm_Prelude "HOL-Library.Monad_Syntax"
begin

text \<open>
  The ticket spin lock \<open>RawSpinLock\<close> (\<open>kernel/src/locking/spinlock.rs\<close>).  Every access to
  one of the two atomic counters is one operation here, and \<open>lock\<close>, \<open>try_lock\<close> and the drop of a
  guard are the transitions of a thread between them, so that the threads of a system interleave
  at every atomic access.  The counters are 64 bits wide and \<open>fetch_add\<close> wraps; the safety
  theorems are about runs of fewer than \<open>2 ^ 64\<close> steps, in which no counter wraps around.
\<close>

section \<open>The lock and its atomic accesses\<close>

record 'a RawSpinLock =
  sl_current :: u64
  sl_holder :: u64
  sl_data :: 'a

definition RawSpinLock_new :: "'a \<Rightarrow> 'a RawSpinLock" where
  "RawSpinLock_new data = \<lparr> sl_current = 0, sl_holder = 0, sl_data = data \<rparr>"

text \<open>\<open>lock\<close>: draw a ticket, then poll \<open>holder\<close> until it shows the ticket.\<close>

definition lock_ticket :: "'a RawSpinLock \<Rightarrow> u64 \<times> 'a RawSpinLock" where
  "lock_ticket self = (sl_current self, self\<lparr>sl_current := sl_current self + 1\<rparr>)"

definition lock_poll :: "u64 \<Rightarrow> 'a RawSpinLock \<Rightarrow> bool" where
  "lock_poll ticket self \<longleftrightarrow> sl_holder self = ticket"

text \<open>\<open>try_lock\<close>: two loads and, when they agree, a compare-and-exchange.\<close>

definition try_lock_cas :: "u64 \<Rightarrow> 'a RawSpinLock \<Rightarrow> (bool \<times> 'a RawSpinLock) option" where
  "try_lock_cas current self = do {
     next_val \<leftarrow> wadd current 1;
     Some (if sl_current self = current then (True, self\<lparr>sl_current := next_val\<rparr>) else (False, self))
   }"

text \<open>The drop of a guard.\<close>

definition LockGuard_drop :: "'a RawSpinLock \<Rightarrow> 'a RawSpinLock" where
  "LockGuard_drop self = self\<lparr>sl_holder := sl_holder self + 1\<rparr>"

text \<open>Access to the data through a guard.\<close>

definition LockGuard_update :: "('a \<Rightarrow> 'a) \<Rightarrow> 'a RawSpinLock \<Rightarrow> 'a RawSpinLock" where
  "LockGuard_update f self = self\<lparr>sl_data := f (sl_data self)\<rparr>"

text \<open>
  Without other threads: \<open>lock\<close> returns at the first poll when the lock is free and spins for ever
  otherwise; \<open>locked_do\<close> runs its function between \<open>lock\<close> and the drop of the guard.
\<close>

definition spin_lock :: "'a RawSpinLock \<Rightarrow> 'a RawSpinLock option" where
  "spin_lock self = (let (ticket, self) = lock_ticket self in if lock_poll ticket self then Some self else None)"

definition spin_try_lock :: "'a RawSpinLock \<Rightarrow> (bool \<times> 'a RawSpinLock) option" where
  "spin_try_lock self =
     (if sl_current self = sl_holder self then try_lock_cas (sl_current self) self else Some (False, self))"

definition locked_do :: "('a \<Rightarrow> 'b \<times> 'a) \<Rightarrow> 'a RawSpinLock \<Rightarrow> ('b \<times> 'a RawSpinLock) option" where
  "locked_do f self = do {
     self \<leftarrow> spin_lock self;
     let (r, d) = f (sl_data self);
     Some (r, LockGuard_drop (LockGuard_update (\<lambda>_. d) self))
   }"

section \<open>Interleaved execution\<close>

datatype spin_pc =
    Spin_Idle
  | Spin_Wait u64         \<comment> \<open>in \<open>lock\<close>, polling for its ticket\<close>
  | Spin_Try u64          \<comment> \<open>in \<open>try_lock\<close>, \<open>current\<close> loaded\<close>
  | Spin_Cas u64          \<comment> \<open>in \<open>try_lock\<close>, \<open>holder\<close> loaded and equal to \<open>current\<close>\<close>
  | Spin_Hold             \<comment> \<open>owns the guard\<close>

record 'a spin_sys =
  sp_lock :: "'a RawSpinLock"
  sp_pc :: "nat \<Rightarrow> spin_pc"

definition spin_init :: "'a \<Rightarrow> 'a spin_sys" where
  "spin_init data = \<lparr> sp_lock = RawSpinLock_new data, sp_pc = (\<lambda>_. Spin_Idle) \<rparr>"

definition at_pc :: "nat \<Rightarrow> spin_pc \<Rightarrow> 'a RawSpinLock \<Rightarrow> 'a spin_sys \<Rightarrow> 'a spin_sys" where
  "at_pc i pc l s = s\<lparr>sp_lock := l, sp_pc := (sp_pc s)(i := pc)\<rparr>"

inductive spin_step :: "'a spin_sys \<Rightarrow> 'a spin_sys \<Rightarrow> bool" where
  ticket: "sp_pc s i = Spin_Idle \<Longrightarrow> lock_ticket (sp_lock s) = (t, l) \<Longrightarrow> spin_step s (at_pc i (Spin_Wait t) l s)"
| acquire: "sp_pc s i = Spin_Wait t \<Longrightarrow> lock_poll t (sp_lock s) \<Longrightarrow> spin_step s (at_pc i Spin_Hold (sp_lock s) s)"
| spin: "sp_pc s i = Spin_Wait t \<Longrightarrow> \<not> lock_poll t (sp_lock s) \<Longrightarrow> spin_step s s"
| try_load: "sp_pc s i = Spin_Idle \<Longrightarrow> spin_step s (at_pc i (Spin_Try (sl_current (sp_lock s))) (sp_lock s) s)"
| try_eq: "sp_pc s i = Spin_Try c \<Longrightarrow> c = sl_holder (sp_lock s) \<Longrightarrow> spin_step s (at_pc i (Spin_Cas c) (sp_lock s) s)"
| try_ne: "sp_pc s i = Spin_Try c \<Longrightarrow> c \<noteq> sl_holder (sp_lock s) \<Longrightarrow> spin_step s (at_pc i Spin_Idle (sp_lock s) s)"
| try_cas: "sp_pc s i = Spin_Cas c \<Longrightarrow> try_lock_cas c (sp_lock s) = Some (ok, l) \<Longrightarrow>
    spin_step s (at_pc i (if ok then Spin_Hold else Spin_Idle) l s)"
| use: "sp_pc s i = Spin_Hold \<Longrightarrow> spin_step s (at_pc i Spin_Hold (LockGuard_update f (sp_lock s)) s)"
| release: "sp_pc s i = Spin_Hold \<Longrightarrow> spin_step s (at_pc i Spin_Idle (LockGuard_drop (sp_lock s)) s)"

inductive spin_run :: "'a \<Rightarrow> nat \<Rightarrow> 'a spin_sys \<Rightarrow> bool" for data where
  spin_run_0: "spin_run data 0 (spin_init data)"
| spin_run_Suc: "spin_run data n s \<Longrightarrow> spin_step s s' \<Longrightarrow> spin_run data (Suc n) s'"

section \<open>The invariant\<close>

definition spin_held :: "'a spin_sys \<Rightarrow> bool" where
  "spin_held s \<longleftrightarrow> (\<exists>i. sp_pc s i = Spin_Hold)"

text \<open>The first ticket that has not been served yet.\<close>

definition spin_next :: "'a spin_sys \<Rightarrow> nat" where
  "spin_next s = unat (sl_holder (sp_lock s)) + (if spin_held s then 1 else 0)"

definition spin_tickets :: "(nat \<Rightarrow> spin_pc) \<Rightarrow> nat set" where
  "spin_tickets pc = {unat t |i t. pc i = Spin_Wait t}"

definition spin_inv :: "'a spin_sys \<Rightarrow> bool" where
  "spin_inv s \<longleftrightarrow>
     (\<forall>i j. sp_pc s i = Spin_Hold \<longrightarrow> sp_pc s j = Spin_Hold \<longrightarrow> i = j)
   \<and> (\<forall>i j t. sp_pc s i = Spin_Wait t \<longrightarrow> sp_pc s j = Spin_Wait t \<longrightarrow> i = j)
   \<and> spin_next s \<le> unat (sl_current (sp_lock s))
   \<and> spin_tickets (sp_pc s) = {spin_next s ..< unat (sl_current (sp_lock s))}
   \<and> (\<forall>i c. sp_pc s i = Spin_Cas c \<longrightarrow> c \<le> sl_holder (sp_lock s))"

lemma spin_invD:
  assumes "spin_inv s"
  shows "sp_pc s i = Spin_Hold \<Longrightarrow> sp_pc s j = Spin_Hold \<Longrightarrow> i = j"
    "sp_pc s i = Spin_Wait t \<Longrightarrow> sp_pc s j = Spin_Wait t \<Longrightarrow> i = j"
    "spin_next s \<le> unat (sl_current (sp_lock s))"
    "spin_tickets (sp_pc s) = {spin_next s ..< unat (sl_current (sp_lock s))}"
    "sp_pc s i = Spin_Cas c \<Longrightarrow> c \<le> sl_holder (sp_lock s)"
  using assms unfolding spin_inv_def by blast+

lemma spin_invI:
  assumes "\<And>i j. sp_pc s i = Spin_Hold \<Longrightarrow> sp_pc s j = Spin_Hold \<Longrightarrow> i = j"
    and "\<And>i j t. sp_pc s i = Spin_Wait t \<Longrightarrow> sp_pc s j = Spin_Wait t \<Longrightarrow> i = j"
    and "spin_next s \<le> unat (sl_current (sp_lock s))"
    and "spin_tickets (sp_pc s) = {spin_next s ..< unat (sl_current (sp_lock s))}"
    and "\<And>i c. sp_pc s i = Spin_Cas c \<Longrightarrow> c \<le> sl_holder (sp_lock s)"
  shows "spin_inv s"
  using assms unfolding spin_inv_def by blast

lemma spin_waitD:
  assumes "spin_inv s" and "sp_pc s i = Spin_Wait t"
  shows "spin_next s \<le> unat t" "unat t < unat (sl_current (sp_lock s))"
proof -
  have "unat t \<in> spin_tickets (sp_pc s)" using assms(2) by (auto simp: spin_tickets_def)
  then show "spin_next s \<le> unat t" "unat t < unat (sl_current (sp_lock s))"
    unfolding spin_invD(4) [OF assms(1)] by simp_all
qed

lemma at_pc_simps [simp]:
  "sp_lock (at_pc i pc l s) = l" "sp_pc (at_pc i pc l s) = (sp_pc s)(i := pc)"
  by (simp_all add: at_pc_def)

lemma spin_held_other: "sp_pc s i = Spin_Hold \<longleftrightarrow> pc = Spin_Hold \<Longrightarrow> spin_held (at_pc i pc l s) = spin_held s"
  unfolding spin_held_def at_pc_simps fun_upd_apply by metis

lemma spin_held_hold [simp]: "spin_held (at_pc i Spin_Hold l s)"
  unfolding spin_held_def by auto

lemma tickets_other:
  "(\<And>t. pc i \<noteq> Spin_Wait t) \<Longrightarrow> (\<And>t. x \<noteq> Spin_Wait t) \<Longrightarrow> spin_tickets (pc(i := x)) = spin_tickets pc"
  unfolding spin_tickets_def by (intro Collect_cong) (metis fun_upd_apply)

lemma tickets_wait:
  "pc i = Spin_Idle \<Longrightarrow> spin_tickets (pc(i := Spin_Wait t)) = insert (unat t) (spin_tickets pc)"
  unfolding spin_tickets_def by (auto split: if_splits) (metis fun_upd_apply spin_pc.distinct(1))+

lemma tickets_leave:
  assumes "pc i = Spin_Wait t" and "\<And>j. pc j = Spin_Wait t \<Longrightarrow> j = i" and "\<And>u. x \<noteq> Spin_Wait u"
  shows "spin_tickets (pc(i := x)) = spin_tickets pc - {unat t}"
proof (intro set_eqI iffI)
  fix k assume "k \<in> spin_tickets (pc(i := x))"
  then obtain j u where u: "(pc(i := x)) j = Spin_Wait u" "k = unat u" unfolding spin_tickets_def by blast
  then have "j \<noteq> i" "pc j = Spin_Wait u" using assms(3) by (auto split: if_splits)
  moreover from this have "unat u \<noteq> unat t" using assms(2) by (auto simp: word_unat_eq_iff)
  ultimately show "k \<in> spin_tickets pc - {unat t}" using u(2) by (auto simp: spin_tickets_def)
next
  fix k assume "k \<in> spin_tickets pc - {unat t}"
  then obtain j u where u: "pc j = Spin_Wait u" "k = unat u" "k \<noteq> unat t" unfolding spin_tickets_def by blast
  then have "j \<noteq> i" using assms(1) by auto
  then have "(pc(i := x)) j = Spin_Wait u" using u(1) by simp
  then show "k \<in> spin_tickets (pc(i := x))" using u(2) unfolding spin_tickets_def by blast
qed

text \<open>A step of a thread that neither waits nor holds before or after it, on the same counters.\<close>

lemma spin_inv_idle:
  assumes inv: "spin_inv s" and l: "sl_current l = sl_current (sp_lock s)" "sl_holder l = sl_holder (sp_lock s)"
    and i: "\<And>t. sp_pc s i \<noteq> Spin_Wait t" "\<And>t. pc \<noteq> Spin_Wait t" "sp_pc s i = Spin_Hold \<longleftrightarrow> pc = Spin_Hold"
    and c: "\<And>c. pc = Spin_Cas c \<Longrightarrow> c \<le> sl_holder l"
  shows "spin_inv (at_pc i pc l s)"
proof -
  note D = spin_invD [OF inv]
  have nx: "spin_next (at_pc i pc l s) = spin_next s" using spin_held_other [OF i(3), of l] by (simp add: spin_next_def l)
  show ?thesis
  proof (rule spin_invI)
    show "spin_tickets (sp_pc (at_pc i pc l s)) = {spin_next (at_pc i pc l s) ..< unat (sl_current (sp_lock (at_pc i pc l s)))}"
      using D(4) i tickets_other [of "sp_pc s" i pc] by (simp add: nx l)
    show "a = b" if "sp_pc (at_pc i pc l s) a = Spin_Hold" "sp_pc (at_pc i pc l s) b = Spin_Hold" for a b
      using that D(1) [of a b] i(3) by (auto split: if_splits)
    show "a = b" if "sp_pc (at_pc i pc l s) a = Spin_Wait t" "sp_pc (at_pc i pc l s) b = Spin_Wait t" for a b t
      using that D(2) [of a t b] i(2) by (auto split: if_splits)
    show "x \<le> sl_holder (sp_lock (at_pc i pc l s))" if "sp_pc (at_pc i pc l s) a = Spin_Cas x" for a x
      using that D(5) [of a x] c l by (auto split: if_splits)
  qed (use D(3) in \<open>simp add: nx l\<close>)
qed

lemma spin_inv_ticket:
  assumes inv: "spin_inv s" and i: "sp_pc s i = Spin_Idle" and t: "lock_ticket (sp_lock s) = (t, l)"
    and b: "unat (sl_current (sp_lock s)) + 1 < 2 ^ 64"
  shows "spin_inv (at_pc i (Spin_Wait t) l s)" (is "spin_inv ?s")
proof -
  note D = spin_invD [OF inv]
  let ?c = "sl_current (sp_lock s)"
  have l: "t = ?c" "sl_current l = ?c + 1" "sl_holder l = sl_holder (sp_lock s)"
    using t by (auto simp: lock_ticket_def)
  have c1: "unat (?c + 1) = unat ?c + 1" using b by (simp add: unat_word_ariths)
  have nx: "spin_next ?s = spin_next s" using spin_held_other [of s i "Spin_Wait t" l] i by (simp add: spin_next_def l)
  show ?thesis
  proof (rule spin_invI)
    show "spin_tickets (sp_pc ?s) = {spin_next ?s ..< unat (sl_current (sp_lock ?s))}"
      using D(3,4) tickets_wait [of "sp_pc s" i, OF i] unfolding nx by (auto simp: l c1)
    show "a = b" if "sp_pc ?s a = Spin_Hold" "sp_pc ?s b = Spin_Hold" for a b
      using that D(1) [of a b] by (auto split: if_splits)
    show "a = b" if "sp_pc ?s a = Spin_Wait u" "sp_pc ?s b = Spin_Wait u" for a b u
      using that D(2) [of a u b] spin_waitD(2) [OF inv, of a u] spin_waitD(2) [OF inv, of b u] l(1)
      by (auto split: if_splits)
    show "x \<le> sl_holder (sp_lock ?s)" if "sp_pc ?s a = Spin_Cas x" for a x
      using that D(5) [of a x] l by (auto split: if_splits)
    show "spin_next ?s \<le> unat (sl_current (sp_lock ?s))" unfolding nx using D(3) by (simp add: l(2) c1)
  qed
qed

text \<open>A thread gets the lock: the lock was free, and the thread takes the next ticket.\<close>

lemma spin_inv_acquire:
  assumes inv: "spin_inv s" and i: "sp_pc s i = Spin_Wait t" and p: "lock_poll t (sp_lock s)"
  shows "\<not> spin_held s" and "spin_inv (at_pc i Spin_Hold (sp_lock s) s)" (is "spin_inv ?s")
proof -
  note D = spin_invD [OF inv]
  have t: "t = sl_holder (sp_lock s)" using p by (simp add: lock_poll_def)
  show free: "\<not> spin_held s" using spin_waitD(1) [OF inv i] t by (auto simp: spin_next_def split: if_splits)
  have nx: "spin_next s = unat t" "spin_next ?s = Suc (unat t)" using free t by (simp_all add: spin_next_def)
  show "spin_inv ?s"
  proof (rule spin_invI)
    have "spin_tickets ((sp_pc s)(i := Spin_Hold)) = spin_tickets (sp_pc s) - {unat t}"
      by (rule tickets_leave) (fact i, erule D(2) [OF _ i], simp)
    also have "\<dots> = {Suc (unat t) ..< unat (sl_current (sp_lock s))}" unfolding D(4) nx(1) by auto
    finally show "spin_tickets (sp_pc ?s) = {spin_next ?s ..< unat (sl_current (sp_lock ?s))}"
      unfolding nx(2) by simp
    show "a = b" if "sp_pc ?s a = Spin_Hold" "sp_pc ?s b = Spin_Hold" for a b
      using that free by (auto simp: spin_held_def split: if_splits)
    show "a = b" if "sp_pc ?s a = Spin_Wait u" "sp_pc ?s b = Spin_Wait u" for a b u
      using that D(2) [of a u b] by (auto split: if_splits)
    show "x \<le> sl_holder (sp_lock ?s)" if "sp_pc ?s a = Spin_Cas x" for a x
      using that D(5) [of a x] by (auto split: if_splits)
  qed (use spin_waitD(2) [OF inv i] in \<open>simp add: nx\<close>)
qed

lemma spin_inv_cas:
  assumes inv: "spin_inv s" and i: "sp_pc s i = Spin_Cas c" and t: "try_lock_cas c (sp_lock s) = Some (True, l)"
  shows "\<not> spin_held s" and "spin_inv (at_pc i Spin_Hold l s)" (is "spin_inv ?s")
proof -
  note D = spin_invD [OF inv]
  have l: "c = sl_current (sp_lock s)" "sl_current l = c + 1" "sl_holder l = sl_holder (sp_lock s)"
    and c1: "unat (c + 1) = unat c + 1"
    using t by (auto simp: try_lock_cas_def wadd_def bind_eq_Some_conv unat_word_ariths split: if_splits)
  have n: "spin_next s = unat c" "unat (sl_holder (sp_lock s)) = unat c"
    using D(3) D(5) [OF i] l(1) by (auto simp: spin_next_def word_le_nat_alt split: if_splits)
  then show free: "\<not> spin_held s" by (simp add: spin_next_def split: if_splits)
  have nx: "spin_next ?s = unat c + 1" using n(2) l(3) by (simp add: spin_next_def)
  show "spin_inv ?s"
  proof (rule spin_invI)
    show "spin_tickets (sp_pc ?s) = {spin_next ?s ..< unat (sl_current (sp_lock ?s))}"
      using D(4) tickets_other [of "sp_pc s" i Spin_Hold] i n(1) unfolding l(1) [symmetric] by (simp add: nx l(2) c1)
    show "a = b" if "sp_pc ?s a = Spin_Hold" "sp_pc ?s b = Spin_Hold" for a b
      using that free by (auto simp: spin_held_def split: if_splits)
    show "a = b" if "sp_pc ?s a = Spin_Wait u" "sp_pc ?s b = Spin_Wait u" for a b u
      using that D(2) [of a u b] by (auto split: if_splits)
    show "x \<le> sl_holder (sp_lock ?s)" if "sp_pc ?s a = Spin_Cas x" for a x
      using that D(5) [of a x] l(3) by (auto split: if_splits)
  qed (simp add: nx l(2) c1)
qed

lemma spin_inv_release:
  assumes inv: "spin_inv s" and i: "sp_pc s i = Spin_Hold"
  shows "spin_inv (at_pc i Spin_Idle (LockGuard_drop (sp_lock s)) s)" (is "spin_inv ?s")
proof -
  note D = spin_invD [OF inv]
  let ?h = "sl_holder (sp_lock s)"
  have held: "spin_held s" "\<not> spin_held ?s"
    using i by (auto simp: spin_held_def dest: D(1) [OF i])
  have "unat ?h + 1 \<le> unat (sl_current (sp_lock s))" using D(3) held by (simp add: spin_next_def)
  also have "\<dots> < 2 ^ 64" using unsigned_less [of "sl_current (sp_lock s)"] by simp
  finally have h1: "unat (?h + 1) = unat ?h + 1" by (simp add: unat_word_ariths)
  then have nx: "spin_next ?s = spin_next s" using held by (simp add: spin_next_def LockGuard_drop_def)
  show ?thesis
  proof (rule spin_invI)
    show "spin_tickets (sp_pc ?s) = {spin_next ?s ..< unat (sl_current (sp_lock ?s))}"
      using D(4) tickets_other [of "sp_pc s" i Spin_Idle] i unfolding nx by (simp add: LockGuard_drop_def)
    show "a = b" if "sp_pc ?s a = Spin_Hold" "sp_pc ?s b = Spin_Hold" for a b
      using that D(1) [of a b] by (auto split: if_splits)
    show "a = b" if "sp_pc ?s a = Spin_Wait u" "sp_pc ?s b = Spin_Wait u" for a b u
      using that D(2) [of a u b] by (auto split: if_splits)
    show "x \<le> sl_holder (sp_lock ?s)" if "sp_pc ?s a = Spin_Cas x" for a x
      using that D(5) [of a x] h1 by (auto simp: LockGuard_drop_def word_le_nat_alt split: if_splits)
    show "spin_next ?s \<le> unat (sl_current (sp_lock ?s))" unfolding nx using D(3) by (simp add: LockGuard_drop_def)
  qed
qed

text \<open>Every step keeps the invariant while \<open>current\<close> does not wrap around.\<close>

lemma spin_step_inv:
  assumes "spin_step s s'" and inv: "spin_inv s" and b: "unat (sl_current (sp_lock s)) + 1 < 2 ^ 64"
  shows "spin_inv s' \<and> unat (sl_current (sp_lock s')) \<le> unat (sl_current (sp_lock s)) + 1"
  using assms(1)
proof (cases rule: spin_step.cases)
  case (ticket i t l)
  have "unat (sl_current l) = unat (sl_current (sp_lock s)) + 1"
    using ticket(3) b by (auto simp: lock_ticket_def unat_word_ariths)
  then show ?thesis using spin_inv_ticket [OF inv ticket(2,3) b] ticket(1) by simp
next
  case (acquire i t)
  then show ?thesis using spin_inv_acquire(2) [OF inv] by simp
next
  case (try_cas i c ok l)
  show ?thesis
  proof (cases ok)
    case True
    have "unat (sl_current l) = unat (sl_current (sp_lock s)) + 1"
      using try_cas(3) True by (auto simp: try_lock_cas_def wadd_def bind_eq_Some_conv unat_word_ariths split: if_splits)
    then show ?thesis using spin_inv_cas(2) [OF inv try_cas(2)] try_cas(1,3) True by simp
  next
    case False
    then have "l = sp_lock s" using try_cas(3) by (auto simp: try_lock_cas_def bind_eq_Some_conv split: if_splits)
    with try_cas(1,2) False show ?thesis by (auto intro: spin_inv_idle [OF inv])
  qed
next
  case (release i)
  then show ?thesis using spin_inv_release [OF inv] by (simp add: LockGuard_drop_def)
qed (use inv in \<open>auto simp: LockGuard_update_def intro: spin_inv_idle [OF inv]\<close>)

lemma spin_run_inv:
  assumes "spin_run data n s" and "n < 2 ^ 64"
  shows "spin_inv s \<and> unat (sl_current (sp_lock s)) \<le> n"
  using assms
proof (induction rule: spin_run.induct)
  case spin_run_0
  have "spin_tickets (\<lambda>_. Spin_Idle) = {}" by (simp add: spin_tickets_def)
  then show ?case
    by (auto simp: spin_init_def RawSpinLock_new_def spin_next_def spin_held_def intro!: spin_invI)
next
  case (spin_run_Suc n s s')
  then have "spin_inv s" "unat (sl_current (sp_lock s)) \<le> n" by auto
  with spin_step_inv [OF spin_run_Suc.hyps(2)] spin_run_Suc.prems show ?case by fastforce
qed

section \<open>Properties\<close>

text \<open>
  C21. Mutual exclusion and fairness: in every run of fewer than \<open>2 ^ 64\<close> atomic steps, of any
  number of threads that lock, try to lock, use and drop the lock, at most one thread holds the
  lock, and a waiting thread only gets it when every other waiting thread drew a later ticket.
\<close>

theorem spin_lock_mutex:
  assumes "spin_run data n s" and "n < 2 ^ 64"
  shows "(sp_pc s i = Spin_Hold \<and> sp_pc s j = Spin_Hold \<longrightarrow> i = j)
    \<and> (sp_pc s i = Spin_Wait t \<and> lock_poll t (sp_lock s) \<and> sp_pc s j = Spin_Wait u \<and> j \<noteq> i \<longrightarrow>
        \<not> spin_held s \<and> t < u)"
proof (intro conjI impI)
  have inv: "spin_inv s" using spin_run_inv [OF assms] by blast
  show "i = j" if "sp_pc s i = Spin_Hold \<and> sp_pc s j = Spin_Hold" using spin_invD(1) [OF inv] that by blast
  assume a: "sp_pc s i = Spin_Wait t \<and> lock_poll t (sp_lock s) \<and> sp_pc s j = Spin_Wait u \<and> j \<noteq> i"
  show free: "\<not> spin_held s" using spin_inv_acquire(1) [OF inv] a by blast
  have "t \<noteq> u" using spin_invD(2) [OF inv, of i t j] a by auto
  moreover have "unat t \<le> unat u"
    using spin_waitD(1) [OF inv, of j u] a free by (simp add: spin_next_def lock_poll_def)
  ultimately show "t < u" by (simp add: word_less_nat_alt word_unat_eq_iff)
qed

lemma spin_run_example:
  "\<exists>s :: nat spin_sys. spin_run 0 3 s \<and> sp_pc s 0 = Spin_Hold \<and> sp_pc s 1 = Spin_Wait 1"
proof -
  define s1 where "s1 = at_pc 0 (Spin_Wait 0) \<lparr>sl_current = 1, sl_holder = 0, sl_data = 0 :: nat\<rparr> (spin_init 0)"
  define s2 where "s2 = at_pc 1 (Spin_Wait 1) \<lparr>sl_current = 2, sl_holder = 0, sl_data = 0 :: nat\<rparr> s1"
  have "spin_step (spin_init 0) s1"
    unfolding s1_def by (rule spin_step.ticket) (simp_all add: spin_init_def lock_ticket_def RawSpinLock_new_def)
  then have 1: "spin_run 0 1 s1" using spin_run_Suc [OF spin_run_0] by fastforce
  have "spin_step s1 s2"
    unfolding s2_def by (rule spin_step.ticket) (simp_all add: s1_def spin_init_def lock_ticket_def)
  then have 2: "spin_run 0 2 s2" using spin_run_Suc [OF 1] by (simp add: numeral_2_eq_2)
  have "spin_step s2 (at_pc 0 Spin_Hold (sp_lock s2) s2)"
    by (rule spin_step.acquire [where t = 0]) (simp_all add: s2_def s1_def lock_poll_def)
  then have "spin_run 0 3 (at_pc 0 Spin_Hold (sp_lock s2) s2)" using spin_run_Suc [OF 2] by (simp add: numeral_3_eq_3 numeral_2_eq_2)
  then show ?thesis by (intro exI [of _ "at_pc 0 Spin_Hold (sp_lock s2) s2"]) (simp add: s2_def)
qed

theorem spin_lock_mutex_witness:
  "\<exists>s :: nat spin_sys. spin_run 0 3 s \<and> sp_pc s 0 = Spin_Hold \<and> sp_pc s 1 \<noteq> Spin_Hold"
proof -
  obtain s :: "nat spin_sys" where s: "spin_run 0 3 s" "sp_pc s 0 = Spin_Hold" using spin_run_example by blast
  have "sp_pc s 1 \<noteq> Spin_Hold" using spin_lock_mutex [OF s(1), of 0 1] s(2) by auto
  with s show ?thesis by blast
qed

text \<open>From any state that satisfies the invariant a waiting thread can get the lock.\<close>

lemma spin_serve:
  assumes "spin_inv s" and "sp_pc s i = Spin_Wait t"
  shows "\<exists>s'. spin_step\<^sup>*\<^sup>* s s' \<and> sp_pc s' i = Spin_Hold"
  using assms
proof (induction "unat t - unat (sl_holder (sp_lock s))" arbitrary: s rule: less_induct)
  case less
  note inv = less.prems(1) and i = less.prems(2)
  have hand: "\<exists>s'. spin_step\<^sup>*\<^sup>* s1 s' \<and> sp_pc s' i = Spin_Hold"
    if s1: "spin_inv s1" "sp_pc s1 j = Spin_Hold" "sp_pc s1 i = Spin_Wait t"
      "sl_holder (sp_lock s1) = sl_holder (sp_lock s)" for s1 :: "'a spin_sys" and j
  proof -
    let ?s = "at_pc j Spin_Idle (LockGuard_drop (sp_lock s1)) s1"
    have step: "spin_step s1 ?s" using s1(2) by (rule spin_step.release)
    have inv': "spin_inv ?s" by (rule spin_inv_release [OF s1(1,2)])
    have ij: "sp_pc ?s i = Spin_Wait t" using s1(2,3) by auto
    have "spin_held s1" using s1(2) by (auto simp: spin_held_def)
    then have "unat (sl_holder (sp_lock s)) < unat t"
      using spin_waitD(1) [OF s1(1,3)] s1(4) by (simp add: spin_next_def)
    moreover have "unat (sl_holder (sp_lock ?s)) = unat (sl_holder (sp_lock s)) + 1"
      using calculation s1(4) unsigned_less [where ?'a = nat and w = t] by (simp add: LockGuard_drop_def unat_word_ariths)
    ultimately have "unat t - unat (sl_holder (sp_lock ?s)) < unat t - unat (sl_holder (sp_lock s))" by linarith
    from less.hyps [OF this inv' ij] step show ?thesis by (meson converse_rtranclp_into_rtranclp)
  qed
  show ?case
  proof (cases "spin_held s")
    case True
    then show ?thesis using hand [OF inv _ i] by (auto simp: spin_held_def)
  next
    case False
    let ?h = "unat (sl_holder (sp_lock s))"
    have "?h \<in> {spin_next s ..< unat (sl_current (sp_lock s))}"
      using False spin_waitD [OF inv i] by (simp add: spin_next_def)
    then obtain j u where j: "sp_pc s j = Spin_Wait u" "unat u = ?h"
      unfolding spin_invD(4) [OF inv, symmetric] by (auto simp: spin_tickets_def)
    then have poll: "lock_poll u (sp_lock s)" by (simp add: lock_poll_def word_unat_eq_iff)
    let ?s = "at_pc j Spin_Hold (sp_lock s) s"
    have step: "spin_step s ?s" by (rule spin_step.acquire [OF j(1) poll])
    show ?thesis
    proof (cases "j = i")
      case True
      then show ?thesis using step by (intro exI [of _ ?s]) auto
    next
      case False
      have "\<exists>s'. spin_step\<^sup>*\<^sup>* ?s s' \<and> sp_pc s' i = Spin_Hold"
        using False i by (intro hand [OF spin_inv_acquire(2) [OF inv j(1) poll], of j]) simp_all
      then show ?thesis using step by (meson converse_rtranclp_into_rtranclp)
    qed
  qed
qed

text \<open>
  C26. No deadlock and no starvation by the lock itself: from every state reached in fewer than
  \<open>2 ^ 64\<close> steps, a thread that waits in \<open>lock\<close> gets the lock in some continuation (the holders and
  the waiting threads before it release one after the other).
\<close>

theorem spin_lock_served:
  assumes "spin_run data n s" and "n < 2 ^ 64" and "sp_pc s i = Spin_Wait t"
  shows "\<exists>s'. spin_step\<^sup>*\<^sup>* s s' \<and> sp_pc s' i = Spin_Hold"
  using spin_run_inv [OF assms(1,2)] assms(3) by (blast intro: spin_serve)

theorem spin_lock_served_witness:
  "\<exists>s s' :: nat spin_sys. spin_run 0 3 s \<and> sp_pc s 1 = Spin_Wait 1 \<and> spin_step\<^sup>*\<^sup>* s s' \<and> sp_pc s' 1 = Spin_Hold"
proof -
  obtain s :: "nat spin_sys" where s: "spin_run 0 3 s" "sp_pc s 1 = Spin_Wait 1" using spin_run_example by blast
  from spin_lock_served [OF s(1) _ s(2)] s show ?thesis by auto
qed

text \<open>
  Used by one thread, a free lock is taken at once by \<open>lock\<close> and by \<open>try_lock\<close>, a taken lock is
  refused by \<open>try_lock\<close>, dropping the guard frees it again, and \<open>locked_do\<close> applies its function to
  the protected data exactly once and leaves the lock free.
\<close>

theorem spin_lock_sequential:
  fixes l :: "'a RawSpinLock"
  assumes free: "sl_current l = sl_holder l" and b: "unat (sl_current l) + 1 < 2 ^ 64"
  shows "(\<exists>l'. spin_lock l = Some l' \<and> spin_try_lock l = Some (True, l') \<and> spin_try_lock l' = Some (False, l')
      \<and> sl_data l' = sl_data l \<and> sl_current (LockGuard_drop l') = sl_holder (LockGuard_drop l'))
    \<and> (\<exists>l''. locked_do f l = Some (fst (f (sl_data l)), l'') \<and> sl_data l'' = snd (f (sl_data l))
      \<and> sl_current l'' = sl_holder l'')"
proof -
  have "unat (sl_current l + 1) \<noteq> unat (sl_current l)" using b by (simp add: unat_word_ariths)
  then have ne: "sl_current l + 1 \<noteq> sl_holder l" using free by auto
  show ?thesis
    using free b ne by (auto simp: spin_lock_def lock_ticket_def lock_poll_def spin_try_lock_def try_lock_cas_def
        wadd_def LockGuard_drop_def LockGuard_update_def locked_do_def Let_def split: prod.splits)
qed

theorem spin_lock_sequential_witness:
  "\<exists>l'. locked_do (\<lambda>x. ((), x + 1)) (RawSpinLock_new (41 :: int)) = Some ((), l') \<and> sl_data l' = 42"
  using spin_lock_sequential [of "RawSpinLock_new (41 :: int)" "\<lambda>x. ((), x + 1)"]
  by (simp add: RawSpinLock_new_def) blast

end
