(* ===== verification/RW_Lock.thy ===== *)
theory RW_Lock
  imports Svsm_Prelude "HOL-Library.Monad_Syntax"
begin

unbundle bit_operations_syntax

text \<open>
  The reader-writer lock \<open>RawRWLock\<close> (\<open>kernel/src/locking/rwlock.rs\<close>): one atomic word with the
  number of readers in its low and the number of writers in its high half.  As for the spin lock,
  every atomic access is one operation and the lock functions are sequences of them, interleaved
  between any number of owners below \<open>2 ^ 32\<close>.  An owner is an acquisition in progress or a guard;
  splitting a guard gives the second half to another owner.
\<close>

section \<open>The lock word\<close>

record 'a RawRWLock =
  rw_val :: u64
  rw_data :: 'a

definition RW_BITS :: nat where "RW_BITS = 32"

definition RW_MASK :: u64 where "RW_MASK = push_bit RW_BITS 1 - 1"

definition split_val :: "u64 \<Rightarrow> u64 \<times> u64" where
  "split_val val = (val AND RW_MASK, drop_bit RW_BITS val)"

definition compose_val :: "u64 \<Rightarrow> u64 \<Rightarrow> u64" where
  "compose_val readers writers = (readers AND 0xffffffff) OR push_bit 32 writers"

definition RawRWLock_new :: "'a \<Rightarrow> 'a RawRWLock" where
  "RawRWLock_new data = \<lparr> rw_val = 0, rw_data = data \<rparr>"

section \<open>Atomic accesses\<close>

text \<open>One iteration of the waiting loops: the loaded value when the wait is over.\<close>

definition wait_for_writers_poll :: "'a RawRWLock \<Rightarrow> u64 option" where
  "wait_for_writers_poll self =
     (let val = rw_val self; (_, writers) = split_val val in if writers = 0 then Some val else None)"

definition wait_for_readers_poll :: "'a RawRWLock \<Rightarrow> u64 option" where
  "wait_for_readers_poll self =
     (let val = rw_val self; (readers, _) = split_val val in if readers = 0 then Some val else None)"

definition rw_compare_exchange :: "u64 \<Rightarrow> u64 \<Rightarrow> 'a RawRWLock \<Rightarrow> bool \<times> 'a RawRWLock" where
  "rw_compare_exchange val new_val self =
     (if rw_val self = val then (True, self\<lparr>rw_val := new_val\<rparr>) else (False, self))"

definition lock_write_cas :: "u64 \<Rightarrow> 'a RawRWLock \<Rightarrow> bool \<times> 'a RawRWLock" where
  "lock_write_cas val self =
     (let (readers, _) = split_val val in rw_compare_exchange val (compose_val readers 1) self)"

definition lock_read_cas :: "u64 \<Rightarrow> 'a RawRWLock \<Rightarrow> (bool \<times> 'a RawRWLock) option" where
  "lock_read_cas val self = do {
     let (readers, _) = split_val val;
     r \<leftarrow> wadd readers 1;
     Some (rw_compare_exchange val (compose_val r 0) self)
   }"

text \<open>\<open>lock_write\<close> asserts the state of the lock after the readers are gone.\<close>

definition lock_write_check :: "u64 \<Rightarrow> bool" where
  "lock_write_check val \<longleftrightarrow> val = compose_val 0 1"

definition try_lock_write :: "'a RawRWLock \<Rightarrow> bool \<times> 'a RawRWLock" where
  "try_lock_write self = rw_compare_exchange (compose_val 0 0) (compose_val 0 1) self"

definition try_lock_read :: "'a RawRWLock \<Rightarrow> (bool \<times> 'a RawRWLock) option" where
  "try_lock_read self = do {
     let (readers, writers) = split_val (rw_val self);
     if writers = 0 then do {
       r \<leftarrow> wadd readers 1;
       Some (True, self\<lparr>rw_val := compose_val r 0\<rparr>)
     } else Some (False, self)
   }"

text \<open>\<open>write_noblock\<close> and \<open>read_noblock\<close> panic when the lock is not available.\<close>

definition write_noblock :: "'a RawRWLock \<Rightarrow> 'a RawRWLock option" where
  "write_noblock self = (let (ok, self) = try_lock_write self in if ok then Some self else None)"

definition read_noblock :: "'a RawRWLock \<Rightarrow> 'a RawRWLock option" where
  "read_noblock self = do { (ok, self) \<leftarrow> try_lock_read self; if ok then Some self else None }"

definition ReadLockGuard_drop :: "'a RawRWLock \<Rightarrow> 'a RawRWLock" where
  "ReadLockGuard_drop self = self\<lparr>rw_val := rw_val self - compose_val 1 0\<rparr>"

definition WriteLockGuard_drop :: "'a RawRWLock \<Rightarrow> 'a RawRWLock" where
  "WriteLockGuard_drop self = self\<lparr>rw_val := rw_val self - compose_val 0 1\<rparr>"

definition ReadLockGuard_map_split :: "'a RawRWLock \<Rightarrow> 'a RawRWLock" where
  "ReadLockGuard_map_split self = self\<lparr>rw_val := rw_val self + compose_val 1 0\<rparr>"

definition WriteLockGuard_map_split :: "'a RawRWLock \<Rightarrow> 'a RawRWLock" where
  "WriteLockGuard_map_split self = self\<lparr>rw_val := rw_val self + compose_val 0 1\<rparr>"

section \<open>Interleaved execution\<close>

datatype rw_pc =
    RW_Idle
  | RW_RCas u64        \<comment> \<open>in \<open>lock_read\<close>, value without writers loaded\<close>
  | RW_WCas u64        \<comment> \<open>in \<open>lock_write\<close>, value without writers loaded\<close>
  | RW_WWait           \<comment> \<open>in \<open>lock_write\<close>, writer count set, waiting for the readers\<close>
  | RW_Read            \<comment> \<open>owns a read guard\<close>
  | RW_Write nat       \<comment> \<open>owns a write guard that comes from the acquisition by the given owner\<close>
  | RW_Panic           \<comment> \<open>the assertion of \<open>lock_write\<close> failed\<close>

record 'a rw_sys =
  rs_lock :: "'a RawRWLock"
  rs_pc :: "nat \<Rightarrow> rw_pc"

definition rw_init :: "'a \<Rightarrow> 'a rw_sys" where
  "rw_init data = \<lparr> rs_lock = RawRWLock_new data, rs_pc = (\<lambda>_. RW_Idle) \<rparr>"

definition rw_at :: "nat \<Rightarrow> rw_pc \<Rightarrow> 'a RawRWLock \<Rightarrow> 'a rw_sys \<Rightarrow> 'a rw_sys" where
  "rw_at i pc l s = s\<lparr>rs_lock := l, rs_pc := (rs_pc s)(i := pc)\<rparr>"

inductive rw_step :: "nat \<Rightarrow> 'a rw_sys \<Rightarrow> 'a rw_sys \<Rightarrow> bool" for N where
  read_load: "i < N \<Longrightarrow> rs_pc s i = RW_Idle \<Longrightarrow> wait_for_writers_poll (rs_lock s) = Some v \<Longrightarrow>
    rw_step N s (rw_at i (RW_RCas v) (rs_lock s) s)"
| read_cas: "i < N \<Longrightarrow> rs_pc s i = RW_RCas v \<Longrightarrow> lock_read_cas v (rs_lock s) = Some (ok, l) \<Longrightarrow>
    rw_step N s (rw_at i (if ok then RW_Read else RW_Idle) l s)"
| write_load: "i < N \<Longrightarrow> rs_pc s i = RW_Idle \<Longrightarrow> wait_for_writers_poll (rs_lock s) = Some v \<Longrightarrow>
    rw_step N s (rw_at i (RW_WCas v) (rs_lock s) s)"
| write_cas: "i < N \<Longrightarrow> rs_pc s i = RW_WCas v \<Longrightarrow> lock_write_cas v (rs_lock s) = (ok, l) \<Longrightarrow>
    rw_step N s (rw_at i (if ok then RW_WWait else RW_Idle) l s)"
| write_wait: "i < N \<Longrightarrow> rs_pc s i = RW_WWait \<Longrightarrow> wait_for_readers_poll (rs_lock s) = Some v \<Longrightarrow>
    rw_step N s (rw_at i (if lock_write_check v then RW_Write i else RW_Panic) (rs_lock s) s)"
| try_read: "i < N \<Longrightarrow> rs_pc s i = RW_Idle \<Longrightarrow> try_lock_read (rs_lock s) = Some (ok, l) \<Longrightarrow>
    rw_step N s (rw_at i (if ok then RW_Read else RW_Idle) l s)"
| try_write: "i < N \<Longrightarrow> rs_pc s i = RW_Idle \<Longrightarrow> try_lock_write (rs_lock s) = (ok, l) \<Longrightarrow>
    rw_step N s (rw_at i (if ok then RW_Write i else RW_Idle) l s)"
| read_drop: "i < N \<Longrightarrow> rs_pc s i = RW_Read \<Longrightarrow> rw_step N s (rw_at i RW_Idle (ReadLockGuard_drop (rs_lock s)) s)"
| write_drop: "i < N \<Longrightarrow> rs_pc s i = RW_Write r \<Longrightarrow> rw_step N s (rw_at i RW_Idle (WriteLockGuard_drop (rs_lock s)) s)"
| read_split: "i < N \<Longrightarrow> rs_pc s i = RW_Read \<Longrightarrow> j < N \<Longrightarrow> rs_pc s j = RW_Idle \<Longrightarrow>
    rw_step N s (rw_at j RW_Read (ReadLockGuard_map_split (rs_lock s)) s)"
| write_split: "i < N \<Longrightarrow> rs_pc s i = RW_Write r \<Longrightarrow> j < N \<Longrightarrow> rs_pc s j = RW_Idle \<Longrightarrow>
    rw_step N s (rw_at j (RW_Write r) (WriteLockGuard_map_split (rs_lock s)) s)"
| write_use: "i < N \<Longrightarrow> rs_pc s i = RW_Write r \<Longrightarrow>
    rw_step N s (rw_at i (RW_Write r) ((rs_lock s)\<lparr>rw_data := d\<rparr>) s)"

section \<open>Counting readers and writers\<close>

definition rw_readers :: "(nat \<Rightarrow> rw_pc) \<Rightarrow> nat set" where
  "rw_readers pc = {i. pc i = RW_Read}"

definition rw_writers :: "(nat \<Rightarrow> rw_pc) \<Rightarrow> nat set" where
  "rw_writers pc = {i. pc i = RW_WWait \<or> (\<exists>r. pc i = RW_Write r)}"

lemma unat_split:
  "unat (fst (split_val v)) = unat v mod 2 ^ 32" "unat (snd (split_val v)) = unat v div 2 ^ 32"
proof -
  have m: "RW_MASK = mask 32" by (simp add: RW_MASK_def RW_BITS_def mask_eq_exp_minus_1)
  show "unat (fst (split_val v)) = unat v mod 2 ^ 32"
    by (simp add: split_val_def m unat_and_mask)
  show "unat (snd (split_val v)) = unat v div 2 ^ 32"
    by (simp add: split_val_def RW_BITS_def unat_drop_bit_div)
qed

lemma unat_compose:
  assumes "unat w < 2 ^ 32"
  shows "unat (compose_val r w) = unat r mod 2 ^ 32 + unat w * 2 ^ 32"
proof -
  have m: "(0xffffffff :: u64) = mask 32" by (simp add: mask_eq_exp_minus_1)
  have "(r AND mask 32) AND push_bit 32 w = 0" by (rule bit_word_eqI) (auto simp: bit_simps)
  then have "compose_val r w = (r AND mask 32) + push_bit 32 w"
    unfolding compose_val_def m by (simp add: disjunctive_add_eq_or)
  moreover have "unat (push_bit 32 w) = unat w * 2 ^ 32"
    using assms by (simp add: push_bit_eq_mult unat_word_ariths)
  ultimately show ?thesis
    using assms by (simp add: unat_word_ariths unat_and_mask)
qed

lemma rw_at_simps [simp]:
  "rs_lock (rw_at i pc l s) = l" "rs_pc (rw_at i pc l s) = (rs_pc s)(i := pc)"
  by (simp_all add: rw_at_def)

lemma readers_upd: "rw_readers (pc(i := x)) = (if x = RW_Read then insert i (rw_readers pc) else rw_readers pc - {i})"
  by (auto simp: rw_readers_def)

lemma writers_upd:
  "rw_writers (pc(i := x)) = (if x = RW_WWait \<or> (\<exists>r. x = RW_Write r) then insert i (rw_writers pc) else rw_writers pc - {i})"
  by (auto simp: rw_writers_def)

section \<open>The invariant\<close>

definition rw_inv :: "nat \<Rightarrow> 'a rw_sys \<Rightarrow> bool" where
  "rw_inv N s \<longleftrightarrow>
     (\<forall>i. N \<le> i \<longrightarrow> rs_pc s i = RW_Idle)
   \<and> unat (rw_val (rs_lock s)) = card (rw_readers (rs_pc s)) + card (rw_writers (rs_pc s)) * 2 ^ 32
   \<and> (\<forall>i. rs_pc s i = RW_WWait \<longrightarrow> rw_writers (rs_pc s) = {i})
   \<and> (\<forall>i r. rs_pc s i = RW_Write r \<longrightarrow> rw_readers (rs_pc s) = {} \<and> (\<forall>j q. rs_pc s j = RW_Write q \<longrightarrow> q = r))
   \<and> (\<forall>i. rs_pc s i \<noteq> RW_Panic)
   \<and> (\<forall>i v. rs_pc s i = RW_RCas v \<or> rs_pc s i = RW_WCas v \<longrightarrow> unat v < 2 ^ 32)"

lemma rw_invD:
  assumes "rw_inv N s"
  shows "N \<le> i \<Longrightarrow> rs_pc s i = RW_Idle"
    "unat (rw_val (rs_lock s)) = card (rw_readers (rs_pc s)) + card (rw_writers (rs_pc s)) * 2 ^ 32"
    "rs_pc s i = RW_WWait \<Longrightarrow> rw_writers (rs_pc s) = {i}"
    "rs_pc s i = RW_Write r \<Longrightarrow> rw_readers (rs_pc s) = {}"
    "rs_pc s i = RW_Write r \<Longrightarrow> rs_pc s j = RW_Write q \<Longrightarrow> q = r"
    "rs_pc s i \<noteq> RW_Panic"
    "rs_pc s i = RW_RCas v \<Longrightarrow> unat v < 2 ^ 32" "rs_pc s i = RW_WCas v \<Longrightarrow> unat v < 2 ^ 32"
  using assms unfolding rw_inv_def by blast+

lemma rw_sets:
  assumes "rw_inv N s" and "N < 2 ^ 32"
  shows "finite (rw_readers (rs_pc s))" "finite (rw_writers (rs_pc s))"
    "card (rw_readers (rs_pc s)) < 2 ^ 32" "card (rw_writers (rs_pc s)) < 2 ^ 32"
    "rs_pc s j = RW_Idle \<Longrightarrow> j < N \<Longrightarrow> card (rw_readers (rs_pc s)) + 1 < 2 ^ 32"
    "rs_pc s j = RW_Idle \<Longrightarrow> j < N \<Longrightarrow> card (rw_writers (rs_pc s)) + 1 < 2 ^ 32"
proof -
  have R: "rw_readers (rs_pc s) \<subseteq> {..<N}" and W: "rw_writers (rs_pc s) \<subseteq> {..<N}"
    using rw_invD(1) [OF assms(1)] by (fastforce simp: rw_readers_def rw_writers_def not_less [symmetric])+
  show "finite (rw_readers (rs_pc s))" "finite (rw_writers (rs_pc s))" using R W finite_subset by blast+
  show "card (rw_readers (rs_pc s)) < 2 ^ 32" "card (rw_writers (rs_pc s)) < 2 ^ 32"
    using card_mono [OF _ R] card_mono [OF _ W] assms(2) by simp_all
  assume j: "rs_pc s j = RW_Idle" "j < N"
  then have R: "rw_readers (rs_pc s) \<subseteq> {..<N} - {j}" and W: "rw_writers (rs_pc s) \<subseteq> {..<N} - {j}"
    using R W by (auto simp: rw_readers_def rw_writers_def)
  show "card (rw_readers (rs_pc s)) + 1 < 2 ^ 32" "card (rw_writers (rs_pc s)) + 1 < 2 ^ 32"
    using card_mono [OF _ R] card_mono [OF _ W] assms(2) j(2) by simp_all
qed

text \<open>The two halves of the lock word are the numbers of read and of write owners.\<close>

lemma rw_counts:
  assumes "rw_inv N s" and "N < 2 ^ 32"
  shows "unat (fst (split_val (rw_val (rs_lock s)))) = card (rw_readers (rs_pc s))"
    "unat (snd (split_val (rw_val (rs_lock s)))) = card (rw_writers (rs_pc s))"
  using rw_sets [OF assms] rw_invD(2) [OF assms(1)] by (simp_all add: unat_split)

lemma rw_no_writers:
  assumes "rw_inv N s" and "N < 2 ^ 32" and "unat (rw_val (rs_lock s)) < 2 ^ 32"
  shows "rw_writers (rs_pc s) = {}" and "unat (rw_val (rs_lock s)) = card (rw_readers (rs_pc s))"
proof -
  have "card (rw_writers (rs_pc s)) = 0" using rw_invD(2) [OF assms(1)] assms(3) by simp
  then show "rw_writers (rs_pc s) = {}" using rw_sets(2) [OF assms(1,2)] by simp
  then show "unat (rw_val (rs_lock s)) = card (rw_readers (rs_pc s))" using rw_invD(2) [OF assms(1)] by simp
qed

lemma rw_no_writers_pc:
  "rw_writers pc = {} \<Longrightarrow> pc i \<noteq> RW_WWait \<and> pc i \<noteq> RW_Write r"
  by (auto simp: rw_writers_def)

lemma poll_writers: "wait_for_writers_poll l = Some v \<Longrightarrow> v = rw_val l \<and> unat v < 2 ^ 32"
proof -
  assume "wait_for_writers_poll l = Some v"
  then have v: "v = rw_val l" and "snd (split_val v) = 0"
    by (auto simp: wait_for_writers_poll_def Let_def split: prod.splits if_splits)
  from this(2) have "unat (snd (split_val v)) = 0" by simp
  with v show ?thesis unfolding unat_split by (simp add: div_eq_0_iff)
qed

lemma poll_readers:
  assumes "rw_inv N s" and "N < 2 ^ 32" and "wait_for_readers_poll (rs_lock s) = Some v"
  shows "v = rw_val (rs_lock s) \<and> rw_readers (rs_pc s) = {}"
proof -
  have v: "v = rw_val (rs_lock s)" and "fst (split_val v) = 0"
    using assms(3) by (auto simp: wait_for_readers_poll_def Let_def split: prod.splits if_splits)
  from this(2) have "unat (fst (split_val v)) = 0" by simp
  with v show ?thesis using rw_counts(1) [OF assms(1,2)] rw_sets(1) [OF assms(1,2)] by simp
qed

section \<open>Every step keeps the invariant\<close>

text \<open>A step between states in which the owner neither reads nor writes.\<close>

lemma rw_inv_idle:
  assumes inv: "rw_inv N s" and i: "i < N" "i \<notin> rw_readers (rs_pc s)" "i \<notin> rw_writers (rs_pc s)"
    and pc: "pc = RW_Idle \<or> ((pc = RW_RCas v \<or> pc = RW_WCas v) \<and> unat v < 2 ^ 32)"
  shows "rw_inv N (rw_at i pc (rs_lock s) s)"
proof -
  have R: "rw_readers ((rs_pc s)(i := pc)) = rw_readers (rs_pc s)" using i pc by (auto simp: readers_upd)
  have W: "rw_writers ((rs_pc s)(i := pc)) = rw_writers (rs_pc s)" using i pc by (auto simp: writers_upd)
  show ?thesis
    using inv i(1) pc unfolding rw_inv_def rw_at_simps R W by auto
qed

text \<open>A new reader, when there is no writer.\<close>

lemma rw_inv_read:
  assumes inv: "rw_inv N s" and N: "N < 2 ^ 32" and i: "i < N" "i \<notin> rw_readers (rs_pc s)"
    and w: "\<And>j r. rs_pc s j \<noteq> RW_Write r" "i \<notin> rw_writers (rs_pc s)"
    and l: "unat (rw_val l) = unat (rw_val (rs_lock s)) + 1"
  shows "rw_inv N (rw_at i RW_Read l s)"
proof -
  have R: "card (rw_readers ((rs_pc s)(i := RW_Read))) = card (rw_readers (rs_pc s)) + 1"
    using i rw_sets(1) [OF inv N] by (simp add: readers_upd)
  have W: "rw_writers ((rs_pc s)(i := RW_Read)) = rw_writers (rs_pc s)" using w(2) by (simp add: writers_upd)
  show ?thesis
    using inv i(1) w(1) l unfolding rw_inv_def rw_at_simps R W by auto
qed

text \<open>The count of read owners after the compare-and-exchange or the update of a reader.\<close>

lemma compose_reader:
  assumes "unat v < 2 ^ 32" and "unat v + 1 < 2 ^ 32" and "wadd (fst (split_val v)) 1 = Some r"
  shows "unat (compose_val r 0) = unat v + 1"
proof -
  have "unat r = unat v + 1" using unat_wadd [OF assms(3)] assms(1) by (simp add: unat_split)
  then show ?thesis using assms(2) by (subst unat_compose) simp_all
qed

lemma rw_inv_read_val:
  assumes inv: "rw_inv N s" and N: "N < 2 ^ 32" and i: "i < N" "i \<notin> rw_readers (rs_pc s)"
    and v: "unat (rw_val (rs_lock s)) < 2 ^ 32" "wadd (fst (split_val (rw_val (rs_lock s)))) 1 = Some r"
  shows "rw_inv N (rw_at i RW_Read ((rs_lock s)\<lparr>rw_val := compose_val r 0\<rparr>) s)"
proof -
  note nw = rw_no_writers [OF inv N v(1)]
  have "i \<notin> rw_writers (rs_pc s)" using nw(1) by simp
  have "card (insert i (rw_readers (rs_pc s))) \<le> card {..<N}"
    using i(1) rw_invD(1) [OF inv] by (intro card_mono) (fastforce simp: rw_readers_def not_less [symmetric])+
  then have "unat (rw_val (rs_lock s)) + 1 < 2 ^ 32"
    using N i(2) nw(2) rw_sets(1) [OF inv N] by simp
  from compose_reader [OF v(1) this v(2)] show ?thesis
    using rw_no_writers_pc [OF nw(1)] nw(1) by (intro rw_inv_read [OF inv N i]) simp_all
qed

text \<open>The first writer: either waiting for the readers, or with no readers at all.\<close>

lemma rw_inv_writer:
  assumes inv: "rw_inv N s" and N: "N < 2 ^ 32" and i: "i < N" "i \<notin> rw_readers (rs_pc s)"
    and v: "unat (rw_val (rs_lock s)) < 2 ^ 32" and l: "unat (rw_val l) = unat (rw_val (rs_lock s)) + 2 ^ 32"
    and pc: "pc = RW_WWait \<or> (pc = RW_Write i \<and> rw_readers (rs_pc s) = {})"
  shows "rw_inv N (rw_at i pc l s)"
proof -
  note nw = rw_no_writers [OF inv N v]
  have R: "rw_readers ((rs_pc s)(i := pc)) = rw_readers (rs_pc s)" using i pc by (auto simp: readers_upd)
  have W: "rw_writers ((rs_pc s)(i := pc)) = {i}" using nw(1) pc by (auto simp: writers_upd)
  have "rs_pc s j \<noteq> RW_WWait" "rs_pc s j \<noteq> RW_Write r" for j r using rw_no_writers_pc [OF nw(1)] by blast+
  then show ?thesis
    using inv i(1) pc l nw(1) unfolding rw_inv_def rw_at_simps R W by auto
qed

lemma compose_writer:
  assumes "unat v < 2 ^ 32"
  shows "unat (compose_val (fst (split_val v)) 1) = unat v + 2 ^ 32"
  using assms by (subst unat_compose) (simp_all add: unat_split)

lemma rw_inv_wait_done:
  assumes inv: "rw_inv N s" and N: "N < 2 ^ 32" and i: "i < N" "rs_pc s i = RW_WWait"
    and v: "wait_for_readers_poll (rs_lock s) = Some v"
  shows "lock_write_check v" and "rw_inv N (rw_at i (RW_Write i) (rs_lock s) s)"
proof -
  note r = poll_readers [OF inv N v] and W = rw_invD(3) [OF inv i(2)]
  have "unat v = 2 ^ 32" using rw_invD(2) [OF inv] r W by simp
  moreover have "unat (compose_val 0 1) = 2 ^ 32" by (subst unat_compose) simp_all
  ultimately show "lock_write_check v" by (simp add: lock_write_check_def word_unat_eq_iff)
  have R: "rw_readers ((rs_pc s)(i := RW_Write i)) = rw_readers (rs_pc s)" using i(2) by (auto simp: rw_readers_def)
  have W': "rw_writers ((rs_pc s)(i := RW_Write i)) = rw_writers (rs_pc s)" using W by (simp add: writers_upd)
  have "rs_pc s j \<noteq> RW_Write q" "rs_pc s j = RW_WWait \<Longrightarrow> j = i" for j q
  proof -
    have "j \<in> rw_writers (rs_pc s) \<Longrightarrow> j = i" using W by simp
    then show "rs_pc s j \<noteq> RW_Write q" "rs_pc s j = RW_WWait \<Longrightarrow> j = i" using i(2) by (auto simp: rw_writers_def)
  qed
  then show "rw_inv N (rw_at i (RW_Write i) (rs_lock s) s)"
    using inv i(1) r unfolding rw_inv_def rw_at_simps R W' by auto
qed

lemma rw_inv_read_drop:
  assumes inv: "rw_inv N s" and N: "N < 2 ^ 32" and i: "i < N" "rs_pc s i = RW_Read"
  shows "rw_inv N (rw_at i RW_Idle (ReadLockGuard_drop (rs_lock s)) s)"
proof -
  have mem: "i \<in> rw_readers (rs_pc s)" "i \<notin> rw_writers (rs_pc s)" using i(2) by (auto simp: rw_readers_def rw_writers_def)
  have R: "card (rw_readers ((rs_pc s)(i := RW_Idle))) = card (rw_readers (rs_pc s)) - 1" "0 < card (rw_readers (rs_pc s))"
    using mem rw_sets(1) [OF inv N] by (auto simp: readers_upd card_gt_0_iff)
  have W: "rw_writers ((rs_pc s)(i := RW_Idle)) = rw_writers (rs_pc s)" using mem by (simp add: writers_upd)
  have "unat (compose_val 1 0) = 1" by (subst unat_compose) simp_all
  then have "unat (rw_val (rs_lock s) - compose_val 1 0) = unat (rw_val (rs_lock s)) - 1"
    using rw_invD(2) [OF inv] R(2) by (simp add: unat_sub word_le_nat_alt)
  then show ?thesis
    using inv i R(2) rw_invD(4) [OF inv] mem unfolding rw_inv_def rw_at_simps R(1) W by (auto simp: ReadLockGuard_drop_def)
qed

lemma rw_inv_write_drop:
  assumes inv: "rw_inv N s" and N: "N < 2 ^ 32" and i: "i < N" "rs_pc s i = RW_Write r"
  shows "rw_inv N (rw_at i RW_Idle (WriteLockGuard_drop (rs_lock s)) s)"
proof -
  have mem: "i \<in> rw_writers (rs_pc s)" using i(2) by (auto simp: rw_writers_def)
  have R: "rw_readers ((rs_pc s)(i := RW_Idle)) = rw_readers (rs_pc s)" "rw_readers (rs_pc s) = {}"
    using rw_invD(4) [OF inv i(2)] by (simp_all add: readers_upd)
  have W: "card (rw_writers ((rs_pc s)(i := RW_Idle))) = card (rw_writers (rs_pc s)) - 1" "0 < card (rw_writers (rs_pc s))"
    using mem rw_sets(2) [OF inv N] by (auto simp: writers_upd card_gt_0_iff)
  have "unat (compose_val 0 1) = 2 ^ 32" by (subst unat_compose) simp_all
  then have "unat (rw_val (rs_lock s) - compose_val 0 1) = unat (rw_val (rs_lock s)) - 2 ^ 32"
    using rw_invD(2) [OF inv] W(2) by (simp add: unat_sub word_le_nat_alt)
  moreover have "rs_pc s j \<noteq> RW_WWait" for j using rw_invD(3) [OF inv, of j] mem i(2) by auto
  ultimately show ?thesis
    using inv i R(2) unfolding rw_inv_def rw_at_simps R(1) W(1) by (auto simp: WriteLockGuard_drop_def algebra_simps)
qed

lemma rw_inv_write_split:
  assumes inv: "rw_inv N s" and N: "N < 2 ^ 32" and i: "rs_pc s i = RW_Write r" and j: "j < N" "rs_pc s j = RW_Idle"
  shows "rw_inv N (rw_at j (RW_Write r) (WriteLockGuard_map_split (rs_lock s)) s)"
proof -
  have mem: "j \<notin> rw_writers (rs_pc s)" "i \<in> rw_writers (rs_pc s)" using i j(2) by (auto simp: rw_writers_def)
  have R: "rw_readers ((rs_pc s)(j := RW_Write r)) = rw_readers (rs_pc s)" "rw_readers (rs_pc s) = {}"
    using rw_invD(4) [OF inv i] by (simp_all add: readers_upd)
  have W: "card (rw_writers ((rs_pc s)(j := RW_Write r))) = card (rw_writers (rs_pc s)) + 1"
    using mem rw_sets(2) [OF inv N] by (simp add: writers_upd)
  have "unat (compose_val 0 1) = 2 ^ 32" by (subst unat_compose) simp_all
  then have "unat (rw_val (rs_lock s) + compose_val 0 1) = unat (rw_val (rs_lock s)) + 2 ^ 32"
    using rw_invD(2) [OF inv] R(2) rw_sets(6) [OF inv N j(2,1)] by (simp add: unat_word_ariths)
  moreover have "rs_pc s k \<noteq> RW_WWait" for k using rw_invD(3) [OF inv, of k] mem(2) i by auto
  ultimately show ?thesis
    using inv i j R(2) unfolding rw_inv_def rw_at_simps R(1) W(1) by (auto simp: WriteLockGuard_map_split_def)
qed

text \<open>The compare-and-exchange steps: they either fail and change nothing or take the lock.\<close>

lemma rw_inv_read_cas:
  assumes inv: "rw_inv N s" and N: "N < 2 ^ 32" and i: "i < N" "rs_pc s i = RW_RCas v"
    and c: "lock_read_cas v (rs_lock s) = Some (ok, l)"
  shows "rw_inv N (rw_at i (if ok then RW_Read else RW_Idle) l s)"
proof -
  have out: "i \<notin> rw_readers (rs_pc s)" "i \<notin> rw_writers (rs_pc s)" using i(2) by (auto simp: rw_readers_def rw_writers_def)
  obtain r where r: "wadd (fst (split_val v)) 1 = Some r" "rw_compare_exchange v (compose_val r 0) (rs_lock s) = (ok, l)"
    using c by (auto simp: lock_read_cas_def bind_eq_Some_conv split: prod.splits)
  show ?thesis
  proof (cases "rw_val (rs_lock s) = v")
    case True
    then show ?thesis
      using rw_inv_read_val [OF inv N i(1) out(1)] r rw_invD(7) [OF inv i(2)] by (auto simp: rw_compare_exchange_def)
  next
    case False
    then show ?thesis using rw_inv_idle [OF inv i(1) out] r(2) by (auto simp: rw_compare_exchange_def)
  qed
qed

lemma rw_inv_write_cas:
  assumes inv: "rw_inv N s" and N: "N < 2 ^ 32" and i: "i < N" "rs_pc s i = RW_WCas v"
    and c: "lock_write_cas v (rs_lock s) = (ok, l)"
  shows "rw_inv N (rw_at i (if ok then RW_WWait else RW_Idle) l s)"
proof -
  have out: "i \<notin> rw_readers (rs_pc s)" "i \<notin> rw_writers (rs_pc s)" using i(2) by (auto simp: rw_readers_def rw_writers_def)
  have r: "rw_compare_exchange v (compose_val (fst (split_val v)) 1) (rs_lock s) = (ok, l)"
    using c by (auto simp: lock_write_cas_def split: prod.splits)
  show ?thesis
  proof (cases "rw_val (rs_lock s) = v")
    case True
    then show ?thesis
      using rw_inv_writer [OF inv N i(1) out(1), of l RW_WWait] compose_writer [of v] r rw_invD(8) [OF inv i(2)]
      by (auto simp: rw_compare_exchange_def)
  next
    case False
    then show ?thesis using rw_inv_idle [OF inv i(1) out] r by (auto simp: rw_compare_exchange_def)
  qed
qed

lemma rw_inv_try_read:
  assumes inv: "rw_inv N s" and N: "N < 2 ^ 32" and i: "i < N" "rs_pc s i = RW_Idle"
    and c: "try_lock_read (rs_lock s) = Some (ok, l)"
  shows "rw_inv N (rw_at i (if ok then RW_Read else RW_Idle) l s)"
proof -
  have out: "i \<notin> rw_readers (rs_pc s)" "i \<notin> rw_writers (rs_pc s)" using i(2) by (auto simp: rw_readers_def rw_writers_def)
  let ?v = "rw_val (rs_lock s)"
  show ?thesis
  proof (cases "snd (split_val ?v) = 0")
    case True
    then have "unat (snd (split_val ?v)) = 0" by simp
    then have small: "unat ?v < 2 ^ 32" unfolding unat_split by (simp add: div_eq_0_iff)
    obtain r where "wadd (fst (split_val ?v)) 1 = Some r" "ok" "l = (rs_lock s)\<lparr>rw_val := compose_val r 0\<rparr>"
      using c True by (auto simp: try_lock_read_def bind_eq_Some_conv split: prod.splits)
    with rw_inv_read_val [OF inv N i(1) out(1) small] show ?thesis by simp
  next
    case False
    then have "\<not> ok" "l = rs_lock s" using c by (auto simp: try_lock_read_def split: prod.splits)
    with rw_inv_idle [OF inv i(1) out, of RW_Idle] show ?thesis by simp
  qed
qed

lemma rw_inv_try_write:
  assumes inv: "rw_inv N s" and N: "N < 2 ^ 32" and i: "i < N" "rs_pc s i = RW_Idle"
    and c: "try_lock_write (rs_lock s) = (ok, l)"
  shows "rw_inv N (rw_at i (if ok then RW_Write i else RW_Idle) l s)"
proof -
  have out: "i \<notin> rw_readers (rs_pc s)" "i \<notin> rw_writers (rs_pc s)" using i(2) by (auto simp: rw_readers_def rw_writers_def)
  have cv: "unat (compose_val 0 1) = 2 ^ 32" "unat (compose_val 0 0) = 0" by (subst unat_compose; simp)+
  show ?thesis
  proof (cases "rw_val (rs_lock s) = compose_val 0 0")
    case True
    then have v: "unat (rw_val (rs_lock s)) = 0" using cv(2) by simp
    then have "rw_readers (rs_pc s) = {}" using rw_invD(2) [OF inv] rw_sets(1) [OF inv N] by simp
    with True v cv show ?thesis
      using rw_inv_writer [OF inv N i(1) out(1), of l "RW_Write i"] c
      by (auto simp: try_lock_write_def rw_compare_exchange_def)
  next
    case False
    then show ?thesis using rw_inv_idle [OF inv i(1) out, of RW_Idle] c
      by (auto simp: try_lock_write_def rw_compare_exchange_def)
  qed
qed

lemma rw_inv_read_split:
  assumes inv: "rw_inv N s" and N: "N < 2 ^ 32" and i: "rs_pc s i = RW_Read" and j: "j < N" "rs_pc s j = RW_Idle"
  shows "rw_inv N (rw_at j RW_Read (ReadLockGuard_map_split (rs_lock s)) s)"
proof (rule rw_inv_read [OF inv N j(1)])
  show "rs_pc s k \<noteq> RW_Write r" for k r using rw_invD(4) [OF inv, of k r] i by (auto simp: rw_readers_def)
  have "card (rw_readers (rs_pc s)) + card (rw_writers (rs_pc s)) * 2 ^ 32 + 1 < 2 ^ 64"
    using rw_sets(4) [OF inv N] rw_sets(5) [OF inv N j(2,1)] by simp
  moreover have "unat (compose_val 1 0) = 1" by (subst unat_compose) simp_all
  ultimately show "unat (rw_val (ReadLockGuard_map_split (rs_lock s))) = unat (rw_val (rs_lock s)) + 1"
    using rw_invD(2) [OF inv] by (simp add: ReadLockGuard_map_split_def unat_word_ariths)
qed (use j in \<open>auto simp: rw_readers_def rw_writers_def\<close>)

lemma rw_inv_step:
  assumes "rw_step N s s'" and inv: "rw_inv N s" and N: "N < 2 ^ 32"
  shows "rw_inv N s'"
  using assms(1)
proof (cases rule: rw_step.cases)
  case (read_load i v)
  then show ?thesis using poll_writers [OF read_load(4)] rw_inv_idle [OF inv read_load(2)]
    by (auto simp: rw_readers_def rw_writers_def)
next
  case (write_load i v)
  then show ?thesis using poll_writers [OF write_load(4)] rw_inv_idle [OF inv write_load(2)]
    by (auto simp: rw_readers_def rw_writers_def)
next
  case (write_wait i v)
  then show ?thesis using rw_inv_wait_done [OF inv N write_wait(2-4)] by simp
next
  case (write_use i r d)
  have "(rs_pc s)(i := RW_Write r) = rs_pc s" using write_use(3) by auto
  then show ?thesis using inv write_use(1) by (simp add: rw_inv_def)
next
  case (read_cas i v ok l)
  then show ?thesis using rw_inv_read_cas [OF inv N] by simp
next
  case (write_cas i v ok l)
  then show ?thesis using rw_inv_write_cas [OF inv N] by simp
next
  case (try_read i ok l)
  then show ?thesis using rw_inv_try_read [OF inv N] by simp
next
  case (try_write i ok l)
  then show ?thesis using rw_inv_try_write [OF inv N] by simp
next
  case (read_drop i)
  then show ?thesis using rw_inv_read_drop [OF inv N] by simp
next
  case (write_drop i r)
  then show ?thesis using rw_inv_write_drop [OF inv N] by simp
next
  case (read_split i j)
  then show ?thesis using rw_inv_read_split [OF inv N] by simp
next
  case (write_split i r j)
  then show ?thesis using rw_inv_write_split [OF inv N] by simp
qed

section \<open>Properties\<close>

inductive rw_reachable :: "nat \<Rightarrow> 'a \<Rightarrow> 'a rw_sys \<Rightarrow> bool" for N data where
  rw_start: "rw_reachable N data (rw_init data)"
| rw_next: "rw_reachable N data s \<Longrightarrow> rw_step N s s' \<Longrightarrow> rw_reachable N data s'"

lemma rw_reachable_inv:
  assumes "rw_reachable N data s" and "N < 2 ^ 32"
  shows "rw_inv N s"
  using assms
proof (induction rule: rw_reachable.induct)
  case rw_start
  have "rw_readers (\<lambda>_. RW_Idle) = {}" "rw_writers (\<lambda>_. RW_Idle) = {}" by (simp_all add: rw_readers_def rw_writers_def)
  then show ?case by (simp add: rw_inv_def rw_init_def RawRWLock_new_def)
next
  case (rw_next s s')
  then show ?case using rw_inv_step by blast
qed

text \<open>
  C22. Readers and writers exclude each other in every reachable state of fewer than \<open>2 ^ 32\<close>
  owners: no read guard exists next to a write guard, write guards that exist together come from
  splitting one acquisition, and the assertion in \<open>lock_write\<close> never fails.
\<close>

theorem rw_lock_exclusion:
  assumes "rw_reachable N data s" and "N < 2 ^ 32"
  shows "\<not> (rs_pc s i = RW_Read \<and> rs_pc s j = RW_Write r)
    \<and> (rs_pc s i = RW_Write r \<and> rs_pc s j = RW_Write q \<longrightarrow> r = q)
    \<and> rs_pc s i \<noteq> RW_Panic"
proof -
  note D = rw_invD [OF rw_reachable_inv [OF assms]]
  have "\<not> (rs_pc s i = RW_Read \<and> rs_pc s j = RW_Write r)" using D(4) [of j r] by (auto simp: rw_readers_def)
  then show ?thesis using D(5) [of i r j q] D(6) by blast
qed

lemma rw_reachable_example: "rw_reachable 2 (0 :: nat) (rw_at 0 (RW_Write 0) \<lparr>rw_val = 2 ^ 32, rw_data = 0\<rparr> (rw_init 0))"
proof (rule rw_next [OF rw_start])
  have "compose_val 0 1 = 2 ^ 32" "compose_val 0 0 = 0" by (simp_all add: compose_val_def push_bit_eq_mult)
  then have "rw_step 2 (rw_init (0 :: nat)) (rw_at 0 (if True then RW_Write 0 else RW_Idle) \<lparr>rw_val = 2 ^ 32, rw_data = 0\<rparr> (rw_init 0))"
    by (intro rw_step.try_write) (simp_all add: rw_init_def RawRWLock_new_def try_lock_write_def rw_compare_exchange_def)
  then show "rw_step 2 (rw_init (0 :: nat)) (rw_at 0 (RW_Write 0) \<lparr>rw_val = 2 ^ 32, rw_data = 0\<rparr> (rw_init 0))" by simp
qed

theorem rw_lock_exclusion_witness:
  "\<exists>s. rw_reachable 2 (0 :: nat) s \<and> rs_pc s 0 = RW_Write 0 \<and> rs_pc s 1 \<noteq> RW_Read"
proof -
  let ?s = "rw_at 0 (RW_Write 0) \<lparr>rw_val = 2 ^ 32, rw_data = 0\<rparr> (rw_init (0 :: nat))"
  have "rs_pc ?s 1 \<noteq> RW_Read" using rw_lock_exclusion [OF rw_reachable_example, of 1 0 0] by simp
  then show ?thesis using rw_reachable_example by (intro exI [of _ ?s]) simp
qed

text \<open>
  The lock word counts exactly: its low half is the number of read guards and its high half
  the number of write guards and pending writers.  Consequently \<open>try_lock_read\<close> succeeds exactly
  when there is no writer and \<open>try_lock_write\<close> exactly when nobody owns the lock.
\<close>

theorem rw_lock_word_counts:
  assumes "rw_reachable N data s" and "N < 2 ^ 32"
  shows "unat (fst (split_val (rw_val (rs_lock s)))) = card {i. rs_pc s i = RW_Read}
    \<and> unat (snd (split_val (rw_val (rs_lock s)))) = card (rw_writers (rs_pc s))
    \<and> ((\<exists>l. try_lock_read (rs_lock s) = Some (True, l)) \<longleftrightarrow> rw_writers (rs_pc s) = {})
    \<and> (fst (try_lock_write (rs_lock s)) \<longleftrightarrow> rw_writers (rs_pc s) = {} \<and> {i. rs_pc s i = RW_Read} = {})"
proof -
  let ?v = "rw_val (rs_lock s)"
  note inv = rw_reachable_inv [OF assms]
  note c = rw_counts [OF inv assms(2)] and f = rw_sets [OF inv assms(2)]
  have "wadd (fst (split_val ?v)) 1 \<noteq> None" using c(1) f(3) by (simp add: wadd_def)
  then obtain r where r: "wadd (fst (split_val ?v)) 1 = Some r" by blast
  have "snd (split_val ?v) = 0 \<longleftrightarrow> rw_writers (rs_pc s) = {}"
    using c(2) f(2) by (metis card_0_eq unat_eq_0)
  then have "(\<exists>l. try_lock_read (rs_lock s) = Some (True, l)) \<longleftrightarrow> rw_writers (rs_pc s) = {}"
    using r by (auto simp: try_lock_read_def split: prod.splits)
  moreover have "fst (try_lock_write (rs_lock s)) \<longleftrightarrow> rw_writers (rs_pc s) = {} \<and> rw_readers (rs_pc s) = {}"
  proof -
    have "fst (try_lock_write (rs_lock s)) \<longleftrightarrow> unat ?v = 0"
      by (simp add: try_lock_write_def rw_compare_exchange_def compose_val_def unat_eq_0)
    then show ?thesis using rw_invD(2) [OF inv] f(1,2) by auto
  qed
  ultimately show ?thesis using c by (simp add: rw_readers_def)
qed

theorem rw_lock_word_counts_witness:
  "\<exists>s. rw_reachable 2 (0 :: nat) s \<and> rs_pc s 0 = RW_Write 0 \<and> \<not> fst (try_lock_write (rs_lock s))
    \<and> \<not> (\<exists>l. try_lock_read (rs_lock s) = Some (True, l))"
proof -
  let ?s = "rw_at 0 (RW_Write 0) \<lparr>rw_val = 2 ^ 32, rw_data = 0\<rparr> (rw_init (0 :: nat))"
  have "0 \<in> rw_writers (rs_pc ?s)" by (simp add: rw_writers_def)
  then show ?thesis using rw_lock_word_counts [OF rw_reachable_example] rw_reachable_example
    by (intro exI [of _ ?s]) auto
qed

end
