(* ===== verification/Immut_After_Init.thy ===== *)
theory Immut_After_Init
  imports Svsm_Error
begin

text \<open>
  \<open>ImmutAfterInitCell\<close> (\<open>kernel/src/utils/immut_after_init.rs\<close>): a cell that is written once.
  The uninitialised storage is \<open>None\<close>; reading it through \<open>assume_init_ref\<close> is undefined
  behaviour and modelled as a panic.  The initialisation functions are the sequences of their
  atomic accesses, so that several threads may race to initialise a cell.
\<close>

section \<open>The cell\<close>

record 'a ImmutAfterInitCell =
  iai_data :: "'a option"
  iai_init :: u8

definition IMMUT_UNINIT :: u8 where "IMMUT_UNINIT = 0"
definition IMMUT_INIT_IN_PROGRESS :: u8 where "IMMUT_INIT_IN_PROGRESS = 1"
definition IMMUT_INITIALIZED :: u8 where "IMMUT_INITIALIZED = 2"

lemmas immut_consts = IMMUT_UNINIT_def IMMUT_INIT_IN_PROGRESS_def IMMUT_INITIALIZED_def

definition ImmutAfterInitCell_uninit :: "'a ImmutAfterInitCell" where
  "ImmutAfterInitCell_uninit = \<lparr> iai_data = None, iai_init = IMMUT_UNINIT \<rparr>"

definition check_init :: "'a ImmutAfterInitCell \<Rightarrow> (unit, ImmutAfterInitError) result" where
  "check_init self = (if iai_init self = IMMUT_INITIALIZED then Ok () else Err ImmutAfterInitError_Uninitialized)"

definition try_init :: "('a ImmutAfterInitCell, unit, ImmutAfterInitError) svsm" where
  "try_init self = Some (if iai_init self = IMMUT_UNINIT
     then (Ok (), self\<lparr>iai_init := IMMUT_INIT_IN_PROGRESS\<rparr>) else (Err ImmutAfterInitError_AlreadyInit, self))"

text \<open>Leaving the in-progress phase, with the assertion on the previous value.\<close>

definition swap_init :: "u8 \<Rightarrow> 'a ImmutAfterInitCell \<Rightarrow> 'a ImmutAfterInitCell option" where
  "swap_init v self = (if iai_init self = IMMUT_INIT_IN_PROGRESS then Some (self\<lparr>iai_init := v\<rparr>) else None)"

definition complete_init :: "'a ImmutAfterInitCell \<Rightarrow> 'a ImmutAfterInitCell option" where
  "complete_init = swap_init IMMUT_INITIALIZED"

definition get_inner_unchecked :: "'a ImmutAfterInitCell \<Rightarrow> 'a option" where
  "get_inner_unchecked self = iai_data self"

definition try_get_inner :: "'a ImmutAfterInitCell \<Rightarrow> ('a, ImmutAfterInitError) result option" where
  "try_get_inner self = (case check_init self of
       Err e \<Rightarrow> Some (Err e)
     | Ok _ \<Rightarrow> do { v \<leftarrow> get_inner_unchecked self; Some (Ok v) })"

definition write_data :: "'a \<Rightarrow> 'a ImmutAfterInitCell \<Rightarrow> 'a ImmutAfterInitCell" where
  "write_data v self = self\<lparr>iai_data := Some v\<rparr>"

definition ImmutAfterInitCell_init :: "'a \<Rightarrow> ('a ImmutAfterInitCell, unit, ImmutAfterInitError) svsm" where
  "ImmutAfterInitCell_init v = bindM try_init (\<lambda>_ self. do {
     self \<leftarrow> complete_init (write_data v self);
     Some (Ok (), self)
   })"

definition init_from_ref :: "'a \<Rightarrow> ('a ImmutAfterInitCell, unit, ImmutAfterInitError) svsm" where
  "init_from_ref r = ImmutAfterInitCell_init r"

definition try_init_from_fn ::
  "(unit \<Rightarrow> ('a, SvsmError) result) \<Rightarrow> ('a ImmutAfterInitCell, 'a, SvsmError) svsm" where
  "try_init_from_fn f self = do {
     (r, self) \<leftarrow> try_init self;
     case r of
       Err e \<Rightarrow> Some (Err (SvsmError_ImmutAfterInit e), self)
     | Ok _ \<Rightarrow> (case f () of
         Err e \<Rightarrow> do { self \<leftarrow> swap_init IMMUT_UNINIT self; Some (Err e, self) }
       | Ok val \<Rightarrow> do {
           self \<leftarrow> complete_init (write_data val self);
           v \<leftarrow> get_inner_unchecked self;
           Some (Ok v, self)
         })
   }"

definition ImmutAfterInitCell_deref :: "'a ImmutAfterInitCell \<Rightarrow> 'a option" where
  "ImmutAfterInitCell_deref self = do {
     r \<leftarrow> try_get_inner self;
     case r of Ok v \<Rightarrow> Some v | Err _ \<Rightarrow> None
   }"

text \<open>The value that the drop of the cell drops, if any.\<close>

definition ImmutAfterInitCell_drop :: "'a ImmutAfterInitCell \<Rightarrow> 'a option" where
  "ImmutAfterInitCell_drop self = (if iai_init self = IMMUT_INITIALIZED then iai_data self else None)"

section \<open>Races\<close>

datatype iai_pc = IAI_Idle | IAI_Won | IAI_Written

record 'a iai_sys =
  is_cell :: "'a ImmutAfterInitCell"
  is_pc :: "nat \<Rightarrow> iai_pc"

definition iai_at :: "nat \<Rightarrow> iai_pc \<Rightarrow> 'a ImmutAfterInitCell \<Rightarrow> 'a iai_sys \<Rightarrow> 'a iai_sys" where
  "iai_at i pc c s = s\<lparr>is_cell := c, is_pc := (is_pc s)(i := pc)\<rparr>"

inductive iai_step :: "'a iai_sys \<Rightarrow> 'a iai_sys \<Rightarrow> bool" where
  iai_win: "is_pc s i = IAI_Idle \<Longrightarrow> try_init (is_cell s) = Some (Ok (), c) \<Longrightarrow> iai_step s (iai_at i IAI_Won c s)"
| iai_lose: "is_pc s i = IAI_Idle \<Longrightarrow> try_init (is_cell s) = Some (Err e, c) \<Longrightarrow> iai_step s (iai_at i IAI_Idle c s)"
| iai_write: "is_pc s i = IAI_Won \<Longrightarrow> iai_step s (iai_at i IAI_Written (write_data v (is_cell s)) s)"
| iai_back_off: "is_pc s i = IAI_Won \<Longrightarrow> swap_init IMMUT_UNINIT (is_cell s) = Some c \<Longrightarrow> iai_step s (iai_at i IAI_Idle c s)"
| iai_complete: "is_pc s i = IAI_Written \<Longrightarrow> complete_init (is_cell s) = Some c \<Longrightarrow> iai_step s (iai_at i IAI_Idle c s)"

inductive iai_reachable :: "'a iai_sys \<Rightarrow> bool" where
  iai_start: "iai_reachable \<lparr> is_cell = ImmutAfterInitCell_uninit, is_pc = (\<lambda>_. IAI_Idle) \<rparr>"
| iai_next: "iai_reachable s \<Longrightarrow> iai_step s s' \<Longrightarrow> iai_reachable s'"

inductive_cases iai_stepE: "iai_step s s'"

section \<open>The invariant\<close>

text \<open>At most one thread is initialising, exactly in the in-progress phase; an initialised cell has a value.\<close>

definition iai_inv :: "'a iai_sys \<Rightarrow> bool" where
  "iai_inv s \<longleftrightarrow>
     (\<forall>i j. is_pc s i \<noteq> IAI_Idle \<longrightarrow> is_pc s j \<noteq> IAI_Idle \<longrightarrow> i = j)
   \<and> ((\<exists>i. is_pc s i \<noteq> IAI_Idle) \<longleftrightarrow> iai_init (is_cell s) = IMMUT_INIT_IN_PROGRESS)
   \<and> (\<forall>i. is_pc s i = IAI_Written \<longrightarrow> iai_data (is_cell s) \<noteq> None)
   \<and> (iai_init (is_cell s) = IMMUT_INITIALIZED \<longrightarrow> iai_data (is_cell s) \<noteq> None)
   \<and> iai_init (is_cell s) \<in> {IMMUT_UNINIT, IMMUT_INIT_IN_PROGRESS, IMMUT_INITIALIZED}"

lemma iai_invD:
  assumes "iai_inv s"
  shows "is_pc s i \<noteq> IAI_Idle \<Longrightarrow> is_pc s j \<noteq> IAI_Idle \<Longrightarrow> i = j"
    "is_pc s i \<noteq> IAI_Idle \<Longrightarrow> iai_init (is_cell s) = IMMUT_INIT_IN_PROGRESS"
    "is_pc s i = IAI_Written \<Longrightarrow> iai_data (is_cell s) \<noteq> None"
    "iai_init (is_cell s) = IMMUT_INITIALIZED \<Longrightarrow> iai_data (is_cell s) \<noteq> None"
  using assms unfolding iai_inv_def by auto

text \<open>The states in which one thread is initialising, and in which none is.\<close>

lemma iai_inv_busy:
  assumes "\<And>j. j \<noteq> i \<Longrightarrow> is_pc s j = IAI_Idle" and "is_pc s i \<noteq> IAI_Idle"
    and "iai_init (is_cell s) = IMMUT_INIT_IN_PROGRESS" and "is_pc s i = IAI_Written \<Longrightarrow> iai_data (is_cell s) \<noteq> None"
  shows "iai_inv s"
proof -
  have o: "j = i" if "is_pc s j \<noteq> IAI_Idle" for j using assms(1) that by blast
  have "iai_data (is_cell s) \<noteq> None" if "is_pc s j = IAI_Written" for j using o [of j] assms(4) that by auto
  then show ?thesis unfolding iai_inv_def using o assms(2,3)
    by (intro conjI allI impI) (metis | auto simp: immut_consts)+
qed

lemma iai_inv_quiet:
  assumes "\<And>j. is_pc s j = IAI_Idle" and "iai_init (is_cell s) = IMMUT_UNINIT
      \<or> (iai_init (is_cell s) = IMMUT_INITIALIZED \<and> iai_data (is_cell s) \<noteq> None)"
  shows "iai_inv s"
  using assms unfolding iai_inv_def by (auto simp: immut_consts)

lemma iai_at_simps [simp]: "is_cell (iai_at i pc c s) = c" "is_pc (iai_at i pc c s) = (is_pc s)(i := pc)"
  by (simp_all add: iai_at_def)

lemma iai_step_inv:
  assumes "iai_step s s'" and inv: "iai_inv s"
  shows "iai_inv s'"
  using assms(1)
proof (cases rule: iai_step.cases)
  case (iai_win i c)
  then have c: "iai_init (is_cell s) = IMMUT_UNINIT" "c = (is_cell s)\<lparr>iai_init := IMMUT_INIT_IN_PROGRESS\<rparr>"
    by (auto simp: try_init_def split: if_splits)
  have "is_pc s j = IAI_Idle" for j using iai_invD(2) [OF inv, of j] c(1) by (auto simp: immut_consts)
  then show ?thesis using iai_win(1) c(2) by (intro iai_inv_busy [of i]) simp_all
next
  case (iai_lose i e c)
  then have "c = is_cell s" "(is_pc s)(i := IAI_Idle) = is_pc s" by (auto simp: try_init_def split: if_splits)
  then show ?thesis using inv iai_lose(1) by (simp add: iai_inv_def)
next
  case (iai_write i v)
  have "is_pc s j = IAI_Idle" if "j \<noteq> i" for j using iai_invD(1) [OF inv, of j i] iai_write(2) that by auto
  then show ?thesis using iai_write(1,2) iai_invD(2) [OF inv, of i]
    by (intro iai_inv_busy [of i]) (simp_all add: write_data_def)
next
  case (iai_back_off i c)
  have "is_pc s j = IAI_Idle" if "j \<noteq> i" for j using iai_invD(1) [OF inv, of j i] iai_back_off(2) that by auto
  then show ?thesis using iai_back_off by (intro iai_inv_quiet) (auto simp: swap_init_def split: if_splits)
next
  case (iai_complete i c)
  have "is_pc s j = IAI_Idle" if "j \<noteq> i" for j using iai_invD(1) [OF inv, of j i] iai_complete(2) that by auto
  then show ?thesis using iai_complete iai_invD(3) [OF inv iai_complete(2)]
    by (intro iai_inv_quiet) (auto simp: complete_init_def swap_init_def split: if_splits)
qed

lemma iai_reachable_inv: "iai_reachable s \<Longrightarrow> iai_inv s"
proof (induction rule: iai_reachable.induct)
  case iai_start
  show ?case by (simp add: iai_inv_def ImmutAfterInitCell_uninit_def immut_consts)
qed (rule iai_step_inv)

section \<open>Properties\<close>

text \<open>
  C25. Initialisation happens once: in every reachable state of racing initialisers at most one
  thread is initialising and its assertions hold, an initialised cell yields a value, and once
  initialised no step of any thread changes the value or the state of the cell.
\<close>

theorem immut_after_init:
  assumes "iai_reachable s"
  shows "(is_pc s i \<noteq> IAI_Idle \<and> is_pc s j \<noteq> IAI_Idle \<longrightarrow> i = j)
    \<and> (is_pc s i \<noteq> IAI_Idle \<longrightarrow> complete_init (is_cell s) \<noteq> None \<and> swap_init IMMUT_UNINIT (is_cell s) \<noteq> None)
    \<and> (check_init (is_cell s) = Ok () \<longrightarrow> (\<exists>v. ImmutAfterInitCell_deref (is_cell s) = Some v
        \<and> (\<forall>s'. iai_step\<^sup>*\<^sup>* s s' \<longrightarrow> ImmutAfterInitCell_deref (is_cell s') = Some v)))"
proof (intro conjI impI)
  note inv = iai_reachable_inv [OF assms]
  show "i = j" if "is_pc s i \<noteq> IAI_Idle \<and> is_pc s j \<noteq> IAI_Idle" using iai_invD(1) [OF inv] that by blast
  show "complete_init (is_cell s) \<noteq> None" "swap_init IMMUT_UNINIT (is_cell s) \<noteq> None" if "is_pc s i \<noteq> IAI_Idle"
    using iai_invD(2) [OF inv that] by (simp_all add: complete_init_def swap_init_def)
  assume "check_init (is_cell s) = Ok ()"
  then have ini: "iai_init (is_cell s) = IMMUT_INITIALIZED" by (simp add: check_init_def split: if_splits)
  then obtain v where v: "iai_data (is_cell s) = Some v" using iai_invD(4) [OF inv] by blast
  have "is_cell s' = is_cell s \<and> iai_inv s'" if "iai_step\<^sup>*\<^sup>* s s'" for s'
    using that
  proof induction
    case (step t u)
    then have t: "is_cell t = is_cell s" "iai_inv t" by auto
    have idle: "is_pc t k = IAI_Idle" for k using iai_invD(2) [OF t(2), of k] t(1) ini by (auto simp: immut_consts)
    have "is_cell u = is_cell t"
      using step.hyps(2) idle t(1) ini by (auto elim!: iai_stepE simp: try_init_def immut_consts split: if_splits)
    then show ?case using t iai_step_inv [OF step.hyps(2)] by simp
  qed (simp add: inv)
  moreover have "ImmutAfterInitCell_deref (is_cell s) = Some v"
    using ini v by (simp add: ImmutAfterInitCell_deref_def try_get_inner_def check_init_def get_inner_unchecked_def)
  ultimately show "\<exists>v. ImmutAfterInitCell_deref (is_cell s) = Some v
      \<and> (\<forall>s'. iai_step\<^sup>*\<^sup>* s s' \<longrightarrow> ImmutAfterInitCell_deref (is_cell s') = Some v)" by metis
qed

lemma iai_example:
  "iai_reachable \<lparr> is_cell = \<lparr> iai_data = Some (7 :: nat), iai_init = IMMUT_INITIALIZED \<rparr>, is_pc = (\<lambda>_. IAI_Idle) \<rparr>"
proof -
  define s0 :: "nat iai_sys" where "s0 = \<lparr> is_cell = ImmutAfterInitCell_uninit, is_pc = (\<lambda>_. IAI_Idle) \<rparr>"
  define s1 where "s1 = iai_at 0 IAI_Won \<lparr> iai_data = None, iai_init = IMMUT_INIT_IN_PROGRESS \<rparr> s0"
  define s2 where "s2 = iai_at 0 IAI_Written (write_data 7 (is_cell s1)) s1"
  have "iai_reachable s0" unfolding s0_def by (rule iai_start)
  moreover have "iai_step s0 s1" unfolding s1_def
    by (rule iai_win) (simp_all add: s0_def try_init_def ImmutAfterInitCell_uninit_def)
  moreover have "iai_step s1 s2" unfolding s2_def by (rule iai_write) (simp add: s1_def)
  moreover have "iai_step s2 (iai_at 0 IAI_Idle \<lparr> iai_data = Some 7, iai_init = IMMUT_INITIALIZED \<rparr> s2)"
    by (rule iai_complete) (simp_all add: s2_def s1_def complete_init_def swap_init_def write_data_def)
  ultimately have "iai_reachable (iai_at 0 IAI_Idle \<lparr> iai_data = Some 7, iai_init = IMMUT_INITIALIZED \<rparr> s2)"
    by (blast intro: iai_next)
  moreover have "iai_at 0 IAI_Idle \<lparr> iai_data = Some 7, iai_init = IMMUT_INITIALIZED \<rparr> s2
      = \<lparr> is_cell = \<lparr> iai_data = Some 7, iai_init = IMMUT_INITIALIZED \<rparr>, is_pc = (\<lambda>_. IAI_Idle) \<rparr>"
    by (simp add: iai_at_def s2_def s1_def s0_def fun_upd_idem)
  ultimately show ?thesis by simp
qed

theorem immut_after_init_witness:
  "\<exists>s v. iai_reachable s \<and> check_init (is_cell s) = Ok () \<and> ImmutAfterInitCell_deref (is_cell s) = Some (v :: nat)"
proof -
  let ?s = "\<lparr> is_cell = \<lparr> iai_data = Some (7 :: nat), iai_init = IMMUT_INITIALIZED \<rparr>, is_pc = (\<lambda>_. IAI_Idle) \<rparr>"
  have "check_init (is_cell ?s) = Ok ()" by (simp add: check_init_def)
  then show ?thesis using immut_after_init [OF iai_example] iai_example by blast
qed

text \<open>
  Without races: \<open>init\<close>, \<open>init_from_ref\<close> and a successful \<open>try_init_from_fn\<close> store the value
  exactly when the cell is uninitialised and report \<open>AlreadyInit\<close> otherwise; a failing closure
  leaves the cell uninitialised and passes its error on; reading an uninitialised cell is an error
  and dereferencing it panics.
\<close>

theorem immut_after_init_sequential:
  fixes c :: "'a ImmutAfterInitCell"
  shows "(if iai_init c = IMMUT_UNINIT
      then ImmutAfterInitCell_init v c = Some (Ok (), \<lparr> iai_data = Some v, iai_init = IMMUT_INITIALIZED \<rparr>)
        \<and> try_init_from_fn (\<lambda>_. Ok v) c = Some (Ok v, \<lparr> iai_data = Some v, iai_init = IMMUT_INITIALIZED \<rparr>)
        \<and> try_init_from_fn (\<lambda>_. Err e) c = Some (Err e, c)
        \<and> try_get_inner c = Some (Err ImmutAfterInitError_Uninitialized) \<and> ImmutAfterInitCell_deref c = None
      else ImmutAfterInitCell_init v c = Some (Err ImmutAfterInitError_AlreadyInit, c)
        \<and> try_init_from_fn f c = Some (Err (SvsmError_ImmutAfterInit ImmutAfterInitError_AlreadyInit), c))
    \<and> ImmutAfterInitCell_deref \<lparr> iai_data = Some v, iai_init = IMMUT_INITIALIZED \<rparr> = Some v
    \<and> init_from_ref v c = ImmutAfterInitCell_init v c"
proof -
  note defs = ImmutAfterInitCell_init_def bindM_def try_init_def complete_init_def swap_init_def
    write_data_def try_init_from_fn_def get_inner_unchecked_def try_get_inner_def check_init_def
    ImmutAfterInitCell_deref_def immut_consts
  show ?thesis
  proof (cases "iai_init c = IMMUT_UNINIT")
    case True
    then show ?thesis by (cases c) (simp add: defs init_from_ref_def)
  next
    case False
    then show ?thesis by (simp add: defs init_from_ref_def)
  qed
qed

end
