(* ===== verification/Irq_State.thy ===== *)
theory Irq_State
  imports Svsm_Prelude "HOL-Library.Monad_Syntax" "HOL-Library.Multiset"
begin

text \<open>
  Interrupt and task priority nesting of a CPU (\<open>kernel/src/cpu/irq_state.rs\<close>).  The record
  holds the fields of \<open>IrqState\<close> together with the two pieces of processor state the code
  drives: the interrupt flag of RFLAGS and the task priority register CR8.  The counters are
  32-bit signed atomics; \<open>fetch_add\<close> and \<open>fetch_sub\<close> wrap.

  Enabling interrupts processes the events that the hypervisor posts in the \<open>#HV\<close> doorbell page
  (\<open>kernel/src/sev/hv_doorbell.rs\<close>, \<open>common_isr_handler\<close> in \<open>kernel/src/cpu/idt/svsm.rs\<close>), which
  disables and enables interrupts in turn.  The hypervisor may change the page at any time: what the
  accesses to it return is an argument, a function of the number of the access.  A failed assertion
  is \<open>None\<close>; the machine check panic and a panic of a message handler are \<open>HV_Panic\<close>.  The loops run
  as long as the hypervisor posts events, so they have fuel, and \<open>HV_Fuel\<close> is a run that did not end.
\<close>

section \<open>State and operations\<close>

type_synonym i32 = "32 word"

definition TPR_LIMIT :: nat where "TPR_LIMIT = 16"

record IrqState =
  irq_state :: bool
  irq_counts :: "i32 list"
  cpu_if :: bool
  cpu_tpr :: nat

definition IrqState_new :: "bool \<Rightarrow> IrqState" where
  "IrqState_new if_flag = \<lparr> irq_state = False, irq_counts = replicate TPR_LIMIT 0, cpu_if = if_flag, cpu_tpr = 0 \<rparr>"


text \<open>The outcome of code that may process events, with the number of accesses to the doorbell page so far.\<close>

datatype hv_result = HV_Done nat IrqState | HV_Panic | HV_Fuel





definition raw_set_tpr :: "nat \<Rightarrow> IrqState \<Rightarrow> IrqState" where
  "raw_set_tpr tpr_value c = c\<lparr>cpu_tpr := tpr_value\<rparr>"

definition raw_get_tpr :: "IrqState \<Rightarrow> nat" where
  "raw_get_tpr c = cpu_tpr c"





definition IrqState_count :: "IrqState \<Rightarrow> i32 option" where
  "IrqState_count self = idx (irq_counts self) 0"

definition set_restore_state :: "bool \<Rightarrow> IrqState \<Rightarrow> IrqState option" where
  "set_restore_state enabled self = do {
     n \<leftarrow> idx (irq_counts self) 0;
     if n \<noteq> 0 then Some (self\<lparr>irq_state := enabled\<rparr>) else None
   }"

definition raise_tpr :: "nat \<Rightarrow> IrqState \<Rightarrow> IrqState option" where
  "raise_tpr tpr_value self =
     (if \<not> (tpr_value > 0 \<and> tpr_value \<ge> raw_get_tpr self) then None
      else do {
        let self = raw_set_tpr tpr_value self;
        n \<leftarrow> idx (irq_counts self) tpr_value;
        Some (self\<lparr>irq_counts := (irq_counts self)[tpr_value := n + 1]\<rparr>)
      })"

definition lower_tpr :: "nat \<Rightarrow> IrqState \<Rightarrow> IrqState option" where
  "lower_tpr tpr_value self =
     (let current_tpr = raw_get_tpr self in
      if \<not> tpr_value \<le> current_tpr then None
      else do {
        count \<leftarrow> idx (irq_counts self) tpr_value;
        let self = self\<lparr>irq_counts := (irq_counts self)[tpr_value := count - 1]\<rparr>;
        if \<not> 0 < sint count then None
        else if count = 1 \<and> tpr_value \<ge> current_tpr then
          (case find (\<lambda>new_tpr. irq_counts self ! new_tpr \<noteq> 0) (rev [0 ..< tpr_value]) of
             Some new_tpr \<Rightarrow> Some (raw_set_tpr new_tpr self)
           | None \<Rightarrow> Some (raw_set_tpr 0 self))
        else Some self
      })"

text \<open>The drop of an \<open>IrqState\<close> checks that every counter is zero.\<close>

definition IrqState_drop :: "IrqState \<Rightarrow> unit option" where
  "IrqState_drop self = (if list_all (\<lambda>n. n = 0) (irq_counts self) then Some () else None)"



definition TprGuard_raise :: "nat \<Rightarrow> IrqState \<Rightarrow> (nat \<times> IrqState) option" where
  "TprGuard_raise tpr_value self = do { self \<leftarrow> raise_tpr tpr_value self; Some (tpr_value, self) }"

definition TprGuard_drop :: "nat \<Rightarrow> IrqState \<Rightarrow> IrqState option" where
  "TprGuard_drop guard self = lower_tpr guard self"

section \<open>Events of the hypervisor\<close>












section \<open>Runs of guards\<close>


text \<open>\<open>tpr_run G c\<close>: \<open>c\<close> is reached with the live task priority guards \<open>G\<close>, dropped in any order.\<close>

inductive tpr_run :: "nat multiset \<Rightarrow> IrqState \<Rightarrow> bool" where
  tpr_run_start: "tpr_run {#} (IrqState_new b)"
| tpr_run_raise: "tpr_run G c \<Longrightarrow> size G + 1 < 2 ^ 31 \<Longrightarrow> TprGuard_raise v c = Some (g, c') \<Longrightarrow> tpr_run (add_mset g G) c'"
| tpr_run_drop: "tpr_run G c \<Longrightarrow> g \<in># G \<Longrightarrow> TprGuard_drop g c = Some c' \<Longrightarrow> tpr_run (G - {#g#}) c'"

section \<open>Counters as numbers\<close>

lemma sint_of_nat:
  assumes "n < 2 ^ 31"
  shows "sint (of_nat n :: i32) = int n" "(of_nat n :: i32) = 0 \<longleftrightarrow> n = 0" "(of_nat n :: i32) = 1 \<longleftrightarrow> n = 1"
proof -
  show "sint (of_nat n :: i32) = int n"
    using assms by (simp add: signed_of_nat signed_take_bit_int_eq_self)
  have u: "unat (of_nat n :: i32) = n" using assms by (simp only: unat_of_nat) simp
  show "(of_nat n :: i32) = 0 \<longleftrightarrow> n = 0" unfolding word_unat_eq_iff u by simp
  show "(of_nat n :: i32) = 1 \<longleftrightarrow> n = 1" unfolding word_unat_eq_iff u by simp
qed




section \<open>Processing of events\<close>

text \<open>
  A processing is entered with interrupts enabled, outside every guard, and, when it returns, gives
  back the state it found; no assertion of it fails.
\<close>

definition irqs_on :: "IrqState \<Rightarrow> bool" where
  "irqs_on c \<longleftrightarrow> length (irq_counts c) = TPR_LIMIT \<and> irq_counts c ! 0 = 0 \<and> cpu_if c \<and> irq_state c"

text \<open>The state \<open>c\<close> after it has been entered once more with interrupts off.\<close>

definition irqs_off :: "IrqState \<Rightarrow> IrqState" where
  "irqs_off c = c\<lparr>cpu_if := False, irq_counts := (irq_counts c)[0 := 1]\<rparr>"

definition gives_back :: "hv_result option \<Rightarrow> nat \<Rightarrow> IrqState \<Rightarrow> bool" where
  "gives_back res t c \<longleftrightarrow> (case res of None \<Rightarrow> False | Some (HV_Done t' c') \<Rightarrow> t \<le> t' \<and> c' = c | Some _ \<Rightarrow> True)"

definition returns :: "hv_result option \<Rightarrow> bool" where
  "returns res \<longleftrightarrow> (case res of Some (HV_Done _ _) \<Rightarrow> True | _ \<Rightarrow> False)"

lemma gives_back_simps [simp]:
  "\<not> gives_back None t c" "gives_back (Some (HV_Done t' c')) t c \<longleftrightarrow> t \<le> t' \<and> c' = c"
  "gives_back (Some HV_Panic) t c" "gives_back (Some HV_Fuel) t c"
  by (simp_all add: gives_back_def)

lemma returns_simps [simp]:
  "\<not> returns None" "returns (Some (HV_Done t' c'))" "\<not> returns (Some HV_Panic)" "\<not> returns (Some HV_Fuel)"
  by (simp_all add: returns_def)


lemma irqs_on_tpr [simp]: "irqs_on (raw_set_tpr v c) \<longleftrightarrow> irqs_on c"
  by (simp add: irqs_on_def raw_set_tpr_def)


lemma raw_tpr_restore [simp]: "raw_set_tpr (raw_get_tpr (irqs_off c)) (raw_set_tpr v c) = c"
  by (simp add: irqs_off_def raw_set_tpr_def raw_get_tpr_def)



lemma irqs_on_reenable [simp]: "irqs_on c \<Longrightarrow> c\<lparr>cpu_if := True\<rparr> = c"
  by (simp add: irqs_on_def)













section \<open>Interrupt guards\<close>





section \<open>Task priority\<close>

definition tpr_inv :: "nat multiset \<Rightarrow> IrqState \<Rightarrow> bool" where
  "tpr_inv G c \<longleftrightarrow> length (irq_counts c) = TPR_LIMIT \<and> size G < 2 ^ 31
     \<and> irq_counts c ! 0 = 0
     \<and> (\<forall>v. 0 < v \<and> v < TPR_LIMIT \<longrightarrow> irq_counts c ! v = of_nat (count G v))
     \<and> (\<forall>v \<in># G. 0 < v \<and> v < TPR_LIMIT)
     \<and> cpu_tpr c = Max (insert 0 (set_mset G))"

lemma tpr_invD:
  assumes "tpr_inv G c"
  shows "length (irq_counts c) = TPR_LIMIT" "size G < 2 ^ 31" "irq_counts c ! 0 = 0"
    "0 < v \<Longrightarrow> v < TPR_LIMIT \<Longrightarrow> irq_counts c ! v = of_nat (count G v)"
    "v \<in># G \<Longrightarrow> 0 < v \<and> v < TPR_LIMIT" "cpu_tpr c = Max (insert 0 (set_mset G))"
proof -
  note inv = assms [unfolded tpr_inv_def]
  show "length (irq_counts c) = TPR_LIMIT" "size G < 2 ^ 31" "irq_counts c ! 0 = 0" using inv by argo+
  show "cpu_tpr c = Max (insert 0 (set_mset G))" using inv by argo
  show "irq_counts c ! v = of_nat (count G v)" if "0 < v" "v < TPR_LIMIT" using inv that by (elim conjE) blast
  show "0 < v \<and> v < TPR_LIMIT" if "v \<in># G" using inv that by (elim conjE) blast
qed

lemma tpr_inv_raise:
  assumes inv: "tpr_inv G c" and r: "TprGuard_raise v c = Some (g, c')" and b: "size G + 1 < 2 ^ 31"
  shows "g = v" "tpr_inv (add_mset v G) c'"
proof -
  note D = tpr_invD [OF inv]
  have v: "0 < v" "cpu_tpr c \<le> v" "v < TPR_LIMIT" and c': "g = v"
    "c' = c\<lparr>cpu_tpr := v, irq_counts := (irq_counts c)[v := irq_counts c ! v + 1]\<rparr>"
    using r D(1) by (auto simp: TprGuard_raise_def raise_tpr_def raw_get_tpr_def raw_set_tpr_def bind_eq_Some_conv
        split: if_splits)
  show "g = v" by (rule c'(1))
  have "Max (insert 0 (set_mset G)) \<le> v" using v(2) D(6) by simp
  then have m: "Max (insert 0 (set_mset (add_mset v G))) = v" by (intro Max_eqI) auto
  have "irq_counts c' ! u = of_nat (count (add_mset v G) u)" if "0 < u" "u < TPR_LIMIT" for u
    using D(1) D(4) [OF that] v(3) unfolding c'(2) by (simp add: nth_list_update)
  then show "tpr_inv (add_mset v G) c'"
    unfolding tpr_inv_def using D(1,3,5) v b m by (simp add: c'(2))
qed

text \<open>After the last guard of the highest level is gone, the search finds the next highest one.\<close>

lemma find_rev_upt:
  "find P (rev [0 ..< n]) = (if \<exists>i < n. P i then Some (Max {i. i < n \<and> P i}) else None)"
proof (induction n)
  case (Suc n)
  have e: "{i. i < Suc n \<and> P i} = (if P n then insert n {i. i < n \<and> P i} else {i. i < n \<and> P i})"
    by (auto simp: less_Suc_eq)
  show ?case
  proof (cases "P n")
    case True
    have "Max (insert n {i. i < n \<and> P i}) = n" by (rule Max_eqI) auto
    then show ?thesis using True e by auto
  next
    case False
    then show ?thesis using Suc e by (auto simp: less_Suc_eq)
  qed
qed simp

text \<open>The counters after the drop of one guard.\<close>

lemma drop_counts:
  assumes inv: "tpr_inv G c" and g: "g \<in># G"
    and c': "c' = c\<lparr>irq_counts := (irq_counts c)[g := irq_counts c ! g - 1]\<rparr>"
    and v: "0 < v" "v < TPR_LIMIT"
  shows "irq_counts c' ! v = of_nat (count (G - {#g#}) v)" and "irq_counts c' ! v = 0 \<longleftrightarrow> v \<notin># G - {#g#}"
proof -
  note D = tpr_invD [OF inv]
  have "0 < count G g" using g by simp
  then show eq: "irq_counts c' ! v = of_nat (count (G - {#g#}) v)"
    using v D(4) [OF v] D(1) by (auto simp: c' nth_list_update of_nat_diff)
  have "count (G - {#g#}) v \<le> count G v" by simp
  also have "\<dots> < 2 ^ 31" using D(2) count_le_size [of G v] by linarith
  finally have "(of_nat (count (G - {#g#}) v) :: i32) = 0 \<longleftrightarrow> count (G - {#g#}) v = 0" by (rule sint_of_nat(2))
  then show "irq_counts c' ! v = 0 \<longleftrightarrow> v \<notin># G - {#g#}" unfolding eq by (metis not_in_iff)
qed

lemma drop_inv:
  assumes inv: "tpr_inv G c" and g: "g \<in># G"
    and c': "c' = c\<lparr>irq_counts := (irq_counts c)[g := irq_counts c ! g - 1]\<rparr>"
    and t: "t = Max (insert 0 (set_mset (G - {#g#})))"
  shows "tpr_inv (G - {#g#}) (c'\<lparr>cpu_tpr := t\<rparr>)"
proof -
  note D = tpr_invD [OF inv]
  have "size (G - {#g#}) \<le> size G" by (intro size_mset_mono) simp
  moreover have "0 < v \<and> v < TPR_LIMIT" if "v \<in># G - {#g#}" for v using D(5) [OF in_diffD [OF that]] .
  moreover have "irq_counts c' ! 0 = 0" "length (irq_counts c') = TPR_LIMIT"
    using D(1,3) D(5) [OF g] by (simp_all add: c')
  ultimately show ?thesis
    unfolding tpr_inv_def using D(2) drop_counts(1) [OF inv g c'] t by simp
qed

text \<open>The highest level that remains, when the dropped guard was the last one of the highest level.\<close>

lemma drop_top:
  assumes inv: "tpr_inv G c" and g: "g \<in># G" and one: "count G g = 1" "cpu_tpr c \<le> g"
    and c': "c' = c\<lparr>irq_counts := (irq_counts c)[g := irq_counts c ! g - 1]\<rparr>"
  shows "{i. i < g \<and> irq_counts c' ! i \<noteq> 0} = set_mset (G - {#g#})"
proof (intro set_eqI iffI)
  note D = tpr_invD [OF inv]
  fix i assume i: "i \<in> {i. i < g \<and> irq_counts c' ! i \<noteq> 0}"
  have "irq_counts c' ! 0 = 0" using D(3) D(5) [OF g] by (simp add: c')
  with i have "0 < i" "i < TPR_LIMIT" using D(5) [OF g] by (auto intro: gr0I)
  then show "i \<in> set_mset (G - {#g#})" using i drop_counts(2) [OF inv g c', of i] by blast
next
  note D = tpr_invD [OF inv]
  fix i assume i: "i \<in> set_mset (G - {#g#})"
  have iG: "i \<in># G" using i by (rule in_diffD)
  have "count (G - {#g#}) g = 0" using one(1) by simp
  then have "i \<noteq> g" using i by (metis not_in_iff)
  moreover have "i \<le> cpu_tpr c" unfolding D(6) using iG by (intro Max_ge) auto
  ultimately have "i < g" using one(2) by simp
  then show "i \<in> {i. i < g \<and> irq_counts c' ! i \<noteq> 0}"
    using i D(5) [OF iG] drop_counts(2) [OF inv g c', of i] by blast
qed

lemma drop_not_top:
  assumes inv: "tpr_inv G c" and g: "g \<in># G" and ne: "\<not> (count G g = 1 \<and> cpu_tpr c \<le> g)"
  shows "cpu_tpr c = Max (insert 0 (set_mset (G - {#g#})))"
proof (rule Max_eqI [symmetric])
  note D = tpr_invD [OF inv]
  show "y \<le> cpu_tpr c" if "y \<in> insert 0 (set_mset (G - {#g#}))" for y
    unfolding D(6) using that in_diffD [of y G "{#g#}"] by (intro Max_ge) (simp, blast)
  have "cpu_tpr c \<in> insert 0 (set_mset G)" unfolding D(6) by (rule Max_in) auto
  moreover have "cpu_tpr c \<in># G - {#g#}" if "cpu_tpr c \<in># G"
  proof (cases "cpu_tpr c = g")
    case True
    then have "count G g \<noteq> 1" "0 < count G g" using ne g by auto
    then have "1 < count G g" by linarith
    then show ?thesis using True by (simp add: in_diff_count)
  next
    case False
    then show ?thesis using that by (simp add: in_diff_count)
  qed
  ultimately show "cpu_tpr c \<in> insert 0 (set_mset (G - {#g#}))" by blast
qed simp

lemma TprGuard_drop_eq:
  assumes "g < length (irq_counts c)" "g \<le> cpu_tpr c" "0 < sint (irq_counts c ! g)"
    and c': "c' = c\<lparr>irq_counts := (irq_counts c)[g := irq_counts c ! g - 1]\<rparr>"
  shows "TprGuard_drop g c =
    Some (if irq_counts c ! g = 1 \<and> cpu_tpr c \<le> g
          then c'\<lparr>cpu_tpr := case find (\<lambda>i. irq_counts c' ! i \<noteq> 0) (rev [0 ..< g]) of Some t \<Rightarrow> t | None \<Rightarrow> 0\<rparr>
          else c')"
proof -
  note defs = TprGuard_drop_def lower_tpr_def raw_get_tpr_def raw_set_tpr_def Let_def
  consider "irq_counts c ! g = 1 \<and> cpu_tpr c \<le> g" | "\<not> (irq_counts c ! g = 1 \<and> cpu_tpr c \<le> g)" by blast
  then show ?thesis
  proof cases
    case 1
    then show ?thesis using assms(1,2) unfolding defs c'
      by (cases "find (\<lambda>i. (irq_counts c)[g := 0] ! i \<noteq> 0) (rev [0 ..< g])") simp_all
  next
    case 2
    show ?thesis unfolding defs if_not_P [OF 2] using assms(1,2,3) 2 by (simp add: c') blast
  qed
qed

lemma tpr_inv_drop:
  assumes inv: "tpr_inv G c" and g: "g \<in># G"
  shows "\<exists>c'. TprGuard_drop g c = Some c' \<and> tpr_inv (G - {#g#}) c'"
proof -
  note D = tpr_invD [OF inv]
  define c' where "c' = c\<lparr>irq_counts := (irq_counts c)[g := irq_counts c ! g - 1]\<rparr>"
  have gl: "0 < g" "g < length (irq_counts c)" "g < TPR_LIMIT" using D(1) D(5) [OF g] by auto
  have cg: "count G g < 2 ^ 31" "0 < count G g" using D(2) g count_le_size [of G g] by auto
  have w: "0 < sint (irq_counts c ! g)" "irq_counts c ! g = 1 \<longleftrightarrow> count G g = 1"
    using sint_of_nat [OF cg(1)] cg(2) D(4) [OF gl(1,3)] by simp_all
  have "g \<le> cpu_tpr c" unfolding D(6) using g by (intro Max_ge) auto
  note eq = TprGuard_drop_eq [OF gl(2) this w(1) c'_def, unfolded w(2)]
  show ?thesis
  proof (cases "count G g = 1 \<and> cpu_tpr c \<le> g")
    case True
    let ?S = "set_mset (G - {#g#})"
    let ?f = "find (\<lambda>i. irq_counts c' ! i \<noteq> 0) (rev [0 ..< g])"
    have S: "{i. i < g \<and> irq_counts c' ! i \<noteq> 0} = ?S"
      using True by (intro drop_top [OF inv g _ _ c'_def]) simp_all
    then have "(\<exists>i < g. irq_counts c' ! i \<noteq> 0) \<longleftrightarrow> ?S \<noteq> {}" by blast
    then have "(case ?f of Some t \<Rightarrow> t | None \<Rightarrow> 0) = Max (insert 0 ?S)"
      unfolding find_rev_upt S by simp
    then show ?thesis unfolding eq using drop_inv [OF inv g c'_def] True by simp
  next
    case False
    have "c'\<lparr>cpu_tpr := cpu_tpr c\<rparr> = c'" by (simp add: c'_def)
    then show ?thesis unfolding eq if_not_P [OF False]
      using drop_inv [OF inv g c'_def drop_not_top [OF inv g False]] by simp
  qed
qed

lemma tpr_inv_start: "tpr_inv {#} (IrqState_new b)"
proof -
  have "replicate TPR_LIMIT (0 :: i32) ! v = 0" if "v < TPR_LIMIT" for v using that by (rule nth_replicate)
  moreover have "0 < TPR_LIMIT" by (simp add: TPR_LIMIT_def)
  ultimately show ?thesis by (simp add: tpr_inv_def IrqState_new_def)
qed

lemma tpr_run_inv:
  assumes "tpr_run G c"
  shows "tpr_inv G c"
  using assms
proof induction
  case (tpr_run_start b)
  show ?case by (rule tpr_inv_start)
next
  case (tpr_run_raise G c v g c')
  have "g = v" "tpr_inv (add_mset v G) c'"
    using tpr_inv_raise tpr_run_raise.IH tpr_run_raise.hyps by blast+
  then show ?case by simp
next
  case (tpr_run_drop G c g c')
  obtain c2 where "TprGuard_drop g c = Some c2" "tpr_inv (G - {#g#}) c2"
    using tpr_inv_drop [OF tpr_run_drop.IH tpr_run_drop.hyps(2)] by blast
  then show ?case using tpr_run_drop.hyps(3) by simp
qed

section \<open>Properties\<close>




text \<open>
  C23. Task priority guards may be dropped in any order: the task priority register always holds the
  highest level of the live guards, zero without guards, and dropping a live guard never panics.
\<close>

theorem tpr_guards_any_order:
  assumes "tpr_run G c"
  shows "cpu_tpr c = Max (insert 0 (set_mset G)) \<and> (g \<in># G \<longrightarrow> TprGuard_drop g c \<noteq> None)"
proof -
  have inv: "tpr_inv G c" by (rule tpr_run_inv [OF assms])
  have "TprGuard_drop g c \<noteq> None" if "g \<in># G" using tpr_inv_drop [OF inv that] by auto
  with tpr_invD(6) [OF inv] show ?thesis by blast
qed

theorem tpr_guards_any_order_witness:
  "\<exists>c c'. tpr_run {#2, 5#} c \<and> cpu_tpr c = 5 \<and> TprGuard_drop 5 c = Some c'"
proof -
  let ?c1 = "(IrqState_new False)\<lparr>cpu_tpr := 2, irq_counts := (replicate 16 0)[2 := 1]\<rparr>"
  let ?c2 = "?c1\<lparr>cpu_tpr := 5, irq_counts := ((replicate 16 0)[2 := 1])[5 := 1]\<rparr>"
  have c1: "TprGuard_raise 2 (IrqState_new False) = Some (2, ?c1)" and c2: "TprGuard_raise 5 ?c1 = Some (5, ?c2)"
    by (simp_all add: TprGuard_raise_def raise_tpr_def raw_get_tpr_def raw_set_tpr_def IrqState_new_def TPR_LIMIT_def)
  have "tpr_run (add_mset 5 (add_mset 2 {#})) ?c2"
    by (rule tpr_run_raise [OF tpr_run_raise [OF tpr_run_start _ c1] _ c2]) simp_all
  then have run: "tpr_run {#2, 5#} ?c2" by (simp only: add_mset_commute)
  from tpr_guards_any_order [OF run, of 5] have "cpu_tpr ?c2 = 5" "TprGuard_drop 5 ?c2 \<noteq> None" by simp_all
  with run show ?thesis by blast
qed

end
