(* ===== verification/Byte_Buffer.thy ===== *)
theory Byte_Buffer
  imports Svsm_Prelude "HOL-Library.Monad_Syntax"
begin

text \<open>
  Byte slices and fallible functions without state, shared by the parsers of the development.
  A slice is a list of bytes, \<open>slice a b\<close> is the Rust expression \<open>&buf[a..b]\<close>, and the
  little-endian readers are \<open>from_le_bytes\<close> of a slice of the right length.  A function that
  returns a \<open>Result\<close> and may panic has the type \<open>outcome\<close>: \<open>None\<close> is the panic.
\<close>

section \<open>Fallible functions\<close>

type_synonym ('a, 'e) outcome = "('a, 'e) result option"

text \<open>The \<open>?\<close> operator.\<close>

definition bindR :: "('a, 'e) outcome \<Rightarrow> ('a \<Rightarrow> ('b, 'e) outcome) \<Rightarrow> ('b, 'e) outcome" where
  "bindR m f = (case m of None \<Rightarrow> None | Some (Ok x) \<Rightarrow> f x | Some (Err e) \<Rightarrow> Some (Err e))"

text \<open>\<open>Option::ok_or\<close>.\<close>

definition ok_or :: "'a option \<Rightarrow> 'e \<Rightarrow> ('a, 'e) result" where
  "ok_or x e = (case x of Some v \<Rightarrow> Ok v | None \<Rightarrow> Err e)"

text \<open>\<open>unwrap\<close> of a result.\<close>

definition unwrapR :: "('a, 'e) result \<Rightarrow> 'a option" where
  "unwrapR r = (case r of Ok x \<Rightarrow> Some x | Err e \<Rightarrow> None)"

text \<open>A loop whose body may fail, over a loop state.\<close>

primrec forR :: "'b list \<Rightarrow> ('b \<Rightarrow> 's \<Rightarrow> ('s, 'e) outcome) \<Rightarrow> 's \<Rightarrow> ('s, 'e) outcome" where
  "forR [] f s = Some (Ok s)"
| "forR (x # xs) f s = bindR (f x s) (forR xs f)"

text \<open>
  \<open>wpR m Q\<close>: the call does not panic, and a value it returns satisfies \<open>Q\<close>; errors are allowed.
\<close>

definition wpR :: "('a, 'e) outcome \<Rightarrow> ('a \<Rightarrow> bool) \<Rightarrow> bool" where
  "wpR m Q = (case m of None \<Rightarrow> False | Some (Ok x) \<Rightarrow> Q x | Some (Err e) \<Rightarrow> True)"

lemma wpR_simps [simp]:
  "wpR (Some (Ok x)) Q = Q x" "wpR (Some (Err e)) Q = True" "wpR None Q = False"
  by (simp_all add: wpR_def)

lemma wpR_bindR [simp]: "wpR (bindR m f) Q = wpR m (\<lambda>x. wpR (f x) Q)"
  by (simp add: wpR_def bindR_def split: option.splits result.splits)

lemma wpR_Some_True [simp]: "wpR (Some r) (\<lambda>_. True)"
  by (cases r) simp_all

lemma wpR_mono: "wpR m Q \<Longrightarrow> (\<And>x. Q x \<Longrightarrow> Q' x) \<Longrightarrow> wpR m Q'"
  by (auto simp: wpR_def split: option.splits result.splits)

lemma wpR_Ok: "wpR m Q \<Longrightarrow> m = Some (Ok x) \<Longrightarrow> Q x"
  by simp

lemma wpR_no_panic: "wpR m Q \<Longrightarrow> m \<noteq> None"
  by (cases m) simp_all

lemma wpR_if: "wpR (if b then m else n) Q = (if b then wpR m Q else wpR n Q)"
  by simp

lemma wpR_ok_or [simp]: "wpR (Some (ok_or x e)) Q = (\<forall>v. x = Some v \<longrightarrow> Q v)"
  by (cases x) (simp_all add: ok_or_def)

lemma wpR_bind: "wpR (Option.bind x f) Q = (\<exists>v. x = Some v \<and> wpR (f v) Q)"
  by (cases x) simp_all

lemma bindR_simps [simp]:
  "bindR (Some (Ok x)) f = f x" "bindR (Some (Err e)) f = Some (Err e)" "bindR None f = None"
  by (simp_all add: bindR_def)

lemma bindR_eq_Ok: "bindR m f = Some (Ok y) \<longleftrightarrow> (\<exists>x. m = Some (Ok x) \<and> f x = Some (Ok y))"
  by (simp add: bindR_def split: option.splits result.splits)

lemma ok_or_eq_Ok [simp]: "ok_or x e = Ok v \<longleftrightarrow> x = Some v"
  by (cases x) (simp_all add: ok_or_def)

lemma ok_or_Some [simp]: "ok_or (Some v) e = Ok v" "ok_or None e = Err e"
  by (simp_all add: ok_or_def)

lemma unwrapR_simps [simp]: "unwrapR (Ok x) = Some x" "unwrapR (Err e) = None"
  by (simp_all add: unwrapR_def)

lemma unwrapR_eq_Some [simp]: "unwrapR r = Some x \<longleftrightarrow> r = Ok x"
  by (cases r) simp_all

text \<open>A loop keeps every invariant that each iteration keeps.\<close>

lemma wpR_forR:
  assumes "\<And>x s. x \<in> set xs \<Longrightarrow> I s \<Longrightarrow> wpR (f x s) I" and "I s"
  shows "wpR (forR xs f s) I"
  using assms
proof (induction xs arbitrary: s)
  case (Cons x xs)
  have "wpR (f x s) I" using Cons.prems by simp
  then have "wpR (f x s) (\<lambda>s'. wpR (forR xs f s') I)"
    by (rule wpR_mono) (rule Cons.IH, use Cons.prems in auto)
  then show ?case by simp
qed simp

text \<open>The same for a loop over indices, with an invariant that knows how far the loop got.\<close>

lemma wpR_forR_from:
  assumes "\<And>i s. i < n \<Longrightarrow> I i s \<Longrightarrow> wpR (f i s) (I (Suc i))" and "I k s" and "k \<le> n"
  shows "wpR (forR [k ..< n] f s) (I n)"
  using assms(2,3)
proof (induction "n - k" arbitrary: k s)
  case 0
  then show ?case by simp
next
  case (Suc d)
  then have k: "k < n" by simp
  have "wpR (f k s) (I (Suc k))" using assms(1) [OF k Suc.prems(1)] .
  then have "wpR (f k s) (\<lambda>s'. wpR (forR [Suc k ..< n] f s') (I n))"
    by (rule wpR_mono) (rule Suc.hyps(1), use Suc.hyps(2) k in auto)
  then show ?case using k by (simp add: upt_conv_Cons)
qed

lemma wpR_forR_upt:
  assumes "\<And>i s. i < n \<Longrightarrow> I i s \<Longrightarrow> wpR (f i s) (I (Suc i))" and "I 0 s"
  shows "wpR (forR [0 ..< n] f s) (I n)"
  by (rule wpR_forR_from [OF assms]) simp_all

lemma unat_of_nat_lt: "i < unat w \<Longrightarrow> unat (of_nat i :: 'a word) = i" for w :: "'a::len word"
proof -
  assume "i < unat w"
  also have "unat w < 2 ^ LENGTH('a)" by (rule unsigned_less)
  finally show ?thesis by (simp only: unat_of_nat mod_less)
qed

section \<open>Slices\<close>

definition slice :: "nat \<Rightarrow> nat \<Rightarrow> 'a list \<Rightarrow> 'a list option" where
  "slice a b xs = (if a \<le> b \<and> b \<le> length xs then Some (take (b - a) (drop a xs)) else None)"

lemma slice_Some [simp]: "a \<le> b \<Longrightarrow> b \<le> length xs \<Longrightarrow> slice a b xs = Some (take (b - a) (drop a xs))"
  by (simp add: slice_def)

lemma slice_eq_Some: "slice a b xs = Some ys \<longleftrightarrow> a \<le> b \<and> b \<le> length xs \<and> ys = take (b - a) (drop a xs)"
  by (auto simp: slice_def)

lemma slice_eq_None: "slice a b xs = None \<longleftrightarrow> b < a \<or> length xs < b"
  by (auto simp: slice_def)

lemma slice_length: "slice a b xs = Some ys \<Longrightarrow> length ys = b - a"
  by (auto simp: slice_eq_Some)

text \<open>\<open>chunks n\<close>: consecutive pieces of \<open>n\<close> elements, the last one possibly shorter.\<close>

function chunks :: "nat \<Rightarrow> 'a list \<Rightarrow> 'a list list" where
  "chunks n xs = (if xs = [] \<or> n = 0 then [] else take n xs # chunks n (drop n xs))"
  by pat_completeness auto
termination by (relation "measure (\<lambda>(n, xs). length xs)") auto

declare chunks.simps [simp del]

lemma chunks_full:
  assumes "n dvd length xs" and "0 < n" and "c \<in> set (chunks n xs)"
  shows "length c = n"
  using assms
proof (induction n xs rule: chunks.induct)
  case (1 n xs)
  show ?case
  proof (cases "xs = []")
    case True
    with "1.prems" show ?thesis by (simp add: chunks.simps)
  next
    case False
    have le: "n \<le> length xs" using "1.prems"(1,2) False by (auto intro: dvd_imp_le)
    then have "n dvd length (drop n xs)" using "1.prems"(1) by (simp add: dvd_minus_self)
    then show ?thesis
      using "1.prems" False le "1.IH" by (auto simp: chunks.simps [of n xs])
  qed
qed

section \<open>Little-endian integers\<close>

primrec le_nat :: "u8 list \<Rightarrow> nat" where
  "le_nat [] = 0"
| "le_nat (b # bs) = unat b + 256 * le_nat bs"

primrec to_le :: "nat \<Rightarrow> nat \<Rightarrow> u8 list" where
  "to_le 0 x = []"
| "to_le (Suc n) x = of_nat x # to_le n (x div 256)"

definition u64_to_le_bytes :: "u64 \<Rightarrow> u8 list" where
  "u64_to_le_bytes w = to_le 8 (unat w)"

definition rd_u8 :: "nat \<Rightarrow> u8 list \<Rightarrow> u8 option" where
  "rd_u8 off buf = map_option (\<lambda>bs. of_nat (le_nat bs)) (slice off (off + 1) buf)"

definition rd_u16 :: "nat \<Rightarrow> u8 list \<Rightarrow> u16 option" where
  "rd_u16 off buf = map_option (\<lambda>bs. of_nat (le_nat bs)) (slice off (off + 2) buf)"

definition rd_u32 :: "nat \<Rightarrow> u8 list \<Rightarrow> u32 option" where
  "rd_u32 off buf = map_option (\<lambda>bs. of_nat (le_nat bs)) (slice off (off + 4) buf)"

definition rd_u64 :: "nat \<Rightarrow> u8 list \<Rightarrow> u64 option" where
  "rd_u64 off buf = map_option (\<lambda>bs. of_nat (le_nat bs)) (slice off (off + 8) buf)"

lemmas rd_defs = rd_u8_def rd_u16_def rd_u32_def rd_u64_def

lemma rd_Some:
  "off + 1 \<le> length buf \<Longrightarrow> \<exists>w. rd_u8 off buf = Some w"
  "off + 2 \<le> length buf \<Longrightarrow> \<exists>w. rd_u16 off buf = Some w"
  "off + 4 \<le> length buf \<Longrightarrow> \<exists>w. rd_u32 off buf = Some w"
  "off + 8 \<le> length buf \<Longrightarrow> \<exists>w. rd_u64 off buf = Some w"
  by (simp_all add: rd_defs)

lemma le_nat_bound: "le_nat bs < 256 ^ length bs"
proof (induction bs)
  case (Cons b bs)
  have "unat b < 256" using unsigned_less [where ?'a = nat and w = b] by simp
  then have "unat b + 256 * le_nat bs < 256 * (le_nat bs + 1)" by simp
  also have "\<dots> \<le> 256 * 256 ^ length bs" using Cons by simp
  finally show ?case by simp
qed simp

lemma length_to_le [simp]: "length (to_le n x) = n"
  by (induction n arbitrary: x) simp_all

text \<open>Reading back what was written.\<close>

lemma le_nat_to_le: "x < 256 ^ n \<Longrightarrow> le_nat (to_le n x) = x"
proof (induction n arbitrary: x)
  case (Suc n)
  have "x div 256 < 256 ^ n" using Suc.prems by (simp add: less_mult_imp_div_less mult.commute)
  moreover have "unat (of_nat x :: u8) = x mod 256" by (simp add: unsigned_of_nat take_bit_eq_mod)
  ultimately show ?case using Suc.IH by simp
qed simp

lemma u64_le_roundtrip: "rd_u64 0 (u64_to_le_bytes w @ rest) = Some w"
proof -
  have "unat w < 256 ^ 8" using unsigned_less [where ?'a = nat and w = w] by simp
  then show ?thesis
    by (simp add: rd_u64_def u64_to_le_bytes_def le_nat_to_le)
qed

end
