(* ===== verification/Elf_Headers.thy ===== *)
theory Elf_Headers
  imports Byte_Buffer Svsm_Error
begin

text \<open>
  The tables of an ELF file as the crate \<open>elf\<close> reads them from untrusted bytes: address and file
  ranges, the file header, program and section headers, string and symbol tables, and the dynamic
  section.  Offsets into the file are \<open>usize\<close>, which on the target is as wide as \<open>u64\<close>, so the
  \<open>usize::try_from\<close> of a 64-bit value never fails.
\<close>

section \<open>Ranges\<close>

record Elf64AddrRange =
  vaddr_begin :: u64
  vaddr_end :: u64

definition Elf64AddrRange_len :: "Elf64AddrRange \<Rightarrow> u64 option" where
  "Elf64AddrRange_len self = wsub (vaddr_end self) (vaddr_begin self)"

definition Elf64AddrRange_is_empty :: "Elf64AddrRange \<Rightarrow> bool option" where
  "Elf64AddrRange_is_empty self = do { l \<leftarrow> Elf64AddrRange_len self; Some (l = 0) }"

definition Elf64AddrRange_try_from :: "u64 \<Rightarrow> u64 \<Rightarrow> (Elf64AddrRange, ElfError) result" where
  "Elf64AddrRange_try_from begin' size' =
     (case wadd begin' size' of
        None \<Rightarrow> Err ElfError_InvalidAddressRange
      | Some end' \<Rightarrow> Ok \<lparr> vaddr_begin = begin', vaddr_end = end' \<rparr>)"

datatype ordering = Less | Equal | Greater

definition Elf64AddrRange_partial_cmp :: "Elf64AddrRange \<Rightarrow> Elf64AddrRange \<Rightarrow> ordering option" where
  "Elf64AddrRange_partial_cmp self other =
     (if vaddr_end self \<le> vaddr_begin other then Some Less
      else if vaddr_begin self \<ge> vaddr_end other then Some Greater
      else if self = other then Some Equal
      else None)"

record Elf64FileRange =
  offset_begin :: nat
  offset_end :: nat

definition Elf64FileRange_try_from :: "u64 \<Rightarrow> u64 \<Rightarrow> (Elf64FileRange, ElfError) result" where
  "Elf64FileRange_try_from off size' =
     (case uadd (unat off) (unat size') of
        None \<Rightarrow> Err ElfError_InvalidFileRange
      | Some end' \<Rightarrow> Ok \<lparr> offset_begin = unat off, offset_end = end' \<rparr>)"

section \<open>File header\<close>

record Elf64Hdr =
  e_ident :: "u8 list"
  e_type :: u16
  e_machine :: u16
  e_version :: u32
  e_entry :: u64
  e_phoff :: u64
  e_shoff :: u64
  e_flags :: u32
  e_ehsize :: u16
  e_phentsize :: u16
  e_phnum :: u16
  e_shentsize :: u16
  e_shnum :: u32
  e_shstrndx :: u32

definition ELFMAG :: "u8 list" where "ELFMAG = [0x7f, 0x45, 0x4c, 0x46]"
definition ELFCLASS64 :: u8 where "ELFCLASS64 = 2"
definition ELFDATA2LSB :: u8 where "ELFDATA2LSB = 1"
definition ELFOSABI_NONE :: u8 where "ELFOSABI_NONE = 0"
definition ELFOSABI_GNU :: u8 where "ELFOSABI_GNU = 3"
definition ET_EXEC :: u16 where "ET_EXEC = 2"
definition EM_X86_64 :: u16 where "EM_X86_64 = 62"
definition EV_CURRENT :: u32 where "EV_CURRENT = 1"

text \<open>The checks of \<open>e_ident\<close>, then the fields; both lengths are checked before the bytes are read.\<close>

definition check_e_ident :: "u8 list \<Rightarrow> (unit, ElfError) result" where
  "check_e_ident ident =
     (if take 4 ident \<noteq> ELFMAG then Err ElfError_UnrecognizedMagic
      else if ident ! 4 \<noteq> ELFCLASS64 then Err ElfError_UnsupportedClass
      else if ident ! 5 \<noteq> ELFDATA2LSB then Err ElfError_UnsupportedEndianess
      else if ident ! 6 \<noteq> ucast EV_CURRENT then Err ElfError_UnsupportedVersion
      else if ident ! 7 \<noteq> ELFOSABI_NONE \<and> ident ! 7 \<noteq> ELFOSABI_GNU then Err ElfError_UnsupportedOsAbi
      else Ok ())"

definition Elf64Hdr_read :: "u8 list \<Rightarrow> (Elf64Hdr, ElfError) outcome" where
  "Elf64Hdr_read buf =
     (if length buf < 16 then Some (Err ElfError_FileTooShort)
      else do {
        ident \<leftarrow> slice 0 16 buf;
        bindR (Some (check_e_ident ident)) (\<lambda>_.
        if length buf < 64 then Some (Err ElfError_FileTooShort)
        else do {
          ty \<leftarrow> rd_u16 16 buf;
          machine \<leftarrow> rd_u16 18 buf;
          version \<leftarrow> rd_u32 20 buf;
          entry \<leftarrow> rd_u64 24 buf;
          phoff \<leftarrow> rd_u64 32 buf;
          shoff \<leftarrow> rd_u64 40 buf;
          flags \<leftarrow> rd_u32 48 buf;
          ehsize \<leftarrow> rd_u16 52 buf;
          phentsize \<leftarrow> rd_u16 54 buf;
          phnum \<leftarrow> rd_u16 56 buf;
          shentsize \<leftarrow> rd_u16 58 buf;
          shnum \<leftarrow> rd_u16 60 buf;
          shstrndx \<leftarrow> rd_u16 62 buf;
          Some (if ty \<noteq> ET_EXEC then Err ElfError_UnsupportedType
                else if machine \<noteq> EM_X86_64 then Err ElfError_UnsupportedMachine
                else if version \<noteq> EV_CURRENT then Err ElfError_UnsupportedVersion
                else Ok \<lparr> e_ident = ident, e_type = ty, e_machine = machine, e_version = version,
                  e_entry = entry, e_phoff = phoff, e_shoff = shoff, e_flags = flags,
                  e_ehsize = ehsize, e_phentsize = phentsize, e_phnum = phnum,
                  e_shentsize = shentsize, e_shnum = ucast shnum, e_shstrndx = ucast shstrndx \<rparr>)
        })
      })"

section \<open>Program headers\<close>

definition ELF_PF_EXECUTE :: u32 where "ELF_PF_EXECUTE = 1"
definition ELF_PF_WRITE :: u32 where "ELF_PF_WRITE = 2"
definition ELF_PF_READ :: u32 where "ELF_PF_READ = 4"

text \<open>\<open>from_bits_truncate\<close> keeps the known flags.\<close>

definition Elf64PhdrFlags_truncate :: "u32 \<Rightarrow> u32" where
  "Elf64PhdrFlags_truncate w = w AND (ELF_PF_EXECUTE OR ELF_PF_WRITE OR ELF_PF_READ)"

record Elf64Phdr =
  p_type :: u32
  p_flags :: u32
  p_offset :: u64
  p_vaddr :: u64
  p_paddr :: u64
  p_filesz :: u64
  p_memsz :: u64
  p_align :: u64

definition PT_NULL :: u32 where "PT_NULL = 0"
definition PT_LOAD :: u32 where "PT_LOAD = 1"
definition PT_DYNAMIC :: u32 where "PT_DYNAMIC = 2"

definition Elf64Phdr_read :: "u8 list \<Rightarrow> Elf64Phdr option" where
  "Elf64Phdr_read buf = do {
     ty \<leftarrow> rd_u32 0 buf;
     flags \<leftarrow> rd_u32 4 buf;
     off \<leftarrow> rd_u64 8 buf;
     vaddr \<leftarrow> rd_u64 16 buf;
     paddr \<leftarrow> rd_u64 24 buf;
     filesz \<leftarrow> rd_u64 32 buf;
     memsz \<leftarrow> rd_u64 40 buf;
     align' \<leftarrow> rd_u64 48 buf;
     Some \<lparr> p_type = ty, p_flags = Elf64PhdrFlags_truncate flags, p_offset = off, p_vaddr = vaddr,
       p_paddr = paddr, p_filesz = filesz, p_memsz = memsz, p_align = align' \<rparr>
   }"

definition is_power_of_two :: "u64 \<Rightarrow> bool" where
  "is_power_of_two w \<longleftrightarrow> w \<noteq> 0 \<and> w AND (w - 1) = 0"

definition Elf64Phdr_verify :: "Elf64Phdr \<Rightarrow> (unit, ElfError) result" where
  "Elf64Phdr_verify self =
     (if p_type self = PT_NULL then Ok ()
      else if p_type self = PT_LOAD \<and> p_memsz self < p_filesz self then Err ElfError_InvalidSegmentSize
      else if p_align self > 1 \<and> \<not> is_power_of_two (p_align self) then Err ElfError_InvalidAddressAlignment
      else if p_align self > 1 \<and> p_vaddr self mod p_align self \<noteq> p_offset self mod p_align self
      then Err ElfError_UnalignedSegmentAddress
      else case (if p_filesz self \<noteq> 0 then Elf64FileRange_try_from (p_offset self) (p_filesz self)
                 else Ok \<lparr> offset_begin = 0, offset_end = 0 \<rparr>) of
        Err e \<Rightarrow> Err e
      | Ok _ \<Rightarrow>
          (case (if p_memsz self \<noteq> 0 then Elf64AddrRange_try_from (p_vaddr self) (p_memsz self)
                 else Ok \<lparr> vaddr_begin = 0, vaddr_end = 0 \<rparr>) of
             Err e \<Rightarrow> Err e
           | Ok _ \<Rightarrow> Ok ()))"

definition Elf64Phdr_file_range :: "Elf64Phdr \<Rightarrow> Elf64FileRange option" where
  "Elf64Phdr_file_range self = unwrapR (Elf64FileRange_try_from (p_offset self) (p_filesz self))"

definition Elf64Phdr_vaddr_range :: "Elf64Phdr \<Rightarrow> Elf64AddrRange option" where
  "Elf64Phdr_vaddr_range self = unwrapR (Elf64AddrRange_try_from (p_vaddr self) (p_memsz self))"

section \<open>Section headers\<close>

definition SHF_ALLOC :: u64 where "SHF_ALLOC = 0x002"
definition SHF_INFO_LINK :: u64 where "SHF_INFO_LINK = 0x040"

text \<open>All flags of \<open>Elf64ShdrFlags\<close>.\<close>

definition Elf64ShdrFlags_truncate :: "u64 \<Rightarrow> u64" where
  "Elf64ShdrFlags_truncate w = w AND 0xff7"

record Elf64Shdr =
  sh_name :: u32
  sh_type :: u32
  sh_flags :: u64
  sh_addr :: u64
  sh_offset :: u64
  sh_size :: u64
  sh_link :: u32
  sh_info :: u32
  sh_addralign :: u64
  sh_entsize :: u64

definition SHN_UNDEF :: u32 where "SHN_UNDEF = 0"
definition SHN_ABS :: u32 where "SHN_ABS = 0xfff1"
definition SHN_XINDEX :: u32 where "SHN_XINDEX = 0xffff"
definition SHT_NULL :: u32 where "SHT_NULL = 0"
definition SHT_SYMTAB :: u32 where "SHT_SYMTAB = 2"
definition SHT_STRTAB :: u32 where "SHT_STRTAB = 3"
definition SHT_NOBITS :: u32 where "SHT_NOBITS = 8"

definition Elf64Shdr_read :: "u8 list \<Rightarrow> Elf64Shdr option" where
  "Elf64Shdr_read buf = do {
     name \<leftarrow> rd_u32 0 buf;
     ty \<leftarrow> rd_u32 4 buf;
     flags \<leftarrow> rd_u64 8 buf;
     addr \<leftarrow> rd_u64 16 buf;
     off \<leftarrow> rd_u64 24 buf;
     size' \<leftarrow> rd_u64 32 buf;
     link \<leftarrow> rd_u32 40 buf;
     info \<leftarrow> rd_u32 44 buf;
     addralign \<leftarrow> rd_u64 48 buf;
     entsize \<leftarrow> rd_u64 56 buf;
     Some \<lparr> sh_name = name, sh_type = ty, sh_flags = Elf64ShdrFlags_truncate flags, sh_addr = addr,
       sh_offset = off, sh_size = size', sh_link = link, sh_info = info, sh_addralign = addralign,
       sh_entsize = entsize \<rparr>
   }"

definition Elf64Shdr_file_range_checked :: "Elf64Shdr \<Rightarrow> (Elf64FileRange, ElfError) result" where
  "Elf64Shdr_file_range_checked self =
     (if sh_type self \<noteq> SHT_NOBITS then Elf64FileRange_try_from (sh_offset self) (sh_size self)
      else Elf64FileRange_try_from (sh_offset self) 0)"

definition Elf64Shdr_verify :: "Elf64Shdr \<Rightarrow> (unit, ElfError) result" where
  "Elf64Shdr_verify self =
     (if sh_type self = SHT_NULL then Ok ()
      else case Elf64Shdr_file_range_checked self of
        Err e \<Rightarrow> Err e
      | Ok _ \<Rightarrow>
          (if sh_flags self AND SHF_ALLOC = SHF_ALLOC
           then (case Elf64AddrRange_try_from (sh_addr self) (sh_size self) of
                   Err e \<Rightarrow> Err e
                 | Ok _ \<Rightarrow>
                     (if sh_addralign self \<noteq> 0
                      then (if sh_addralign self \<noteq> 0 \<and> \<not> is_power_of_two (sh_addralign self)
                            then Err ElfError_InvalidAddressAlignment
                            else if sh_addr self AND (sh_addralign self - 1) \<noteq> 0
                            then Err ElfError_InvalidAddressAlignment
                            else Ok ())
                      else Ok ()))
           else if sh_addr self \<noteq> 0 then Err ElfError_InvalidAddressRange
           else Ok ()))"

definition Elf64Shdr_file_range :: "Elf64Shdr \<Rightarrow> Elf64FileRange option" where
  "Elf64Shdr_file_range self = unwrapR (Elf64Shdr_file_range_checked self)"

section \<open>String and symbol tables\<close>

text \<open>A string table is its buffer; a C string is the bytes before the first zero byte.\<close>

definition Elf64Strtab_get_str :: "u8 list \<Rightarrow> u32 \<Rightarrow> (u8 list, ElfError) outcome" where
  "Elf64Strtab_get_str strtab_buf index =
     (if unat index \<ge> length strtab_buf then Some (Err ElfError_InvalidStrtabString)
      else do {
        rest \<leftarrow> slice (unat index) (length strtab_buf) strtab_buf;
        Some (if 0 \<in> set rest then Ok (takeWhile (\<lambda>b. b \<noteq> 0) rest) else Err ElfError_InvalidStrtabString)
      })"

record Elf64Sym =
  st_name :: u32
  st_info :: u8
  st_other :: u8
  st_shndx :: u16
  st_value :: u64
  st_size :: u64

definition Elf64Sym_read :: "u8 list \<Rightarrow> Elf64Sym option" where
  "Elf64Sym_read buf = do {
     name \<leftarrow> rd_u32 0 buf;
     info \<leftarrow> rd_u8 4 buf;
     other \<leftarrow> rd_u8 5 buf;
     shndx \<leftarrow> rd_u16 6 buf;
     val \<leftarrow> rd_u64 8 buf;
     size' \<leftarrow> rd_u64 16 buf;
     Some \<lparr> st_name = name, st_info = info, st_other = other, st_shndx = shndx, st_value = val,
       st_size = size' \<rparr>
   }"

record Elf64Symtab =
  syms_buf :: "u8 list"
  syms_entsize :: nat
  syms_num :: u32

definition STN_UNDEF :: u32 where "STN_UNDEF = 0"

definition Elf64Symtab_new :: "u8 list \<Rightarrow> u64 \<Rightarrow> (Elf64Symtab, ElfError) result" where
  "Elf64Symtab_new buf entsize =
     (if unat entsize < 24 then Err ElfError_InvalidSymbolEntrySize
      else let n = length buf div unat entsize in
        if n < 2 ^ 32 then Ok \<lparr> syms_buf = buf, syms_entsize = unat entsize, syms_num = of_nat n \<rparr>
        else Err ElfError_InvalidSymbolIndex)"

definition Elf64Symtab_read_sym :: "Elf64Symtab \<Rightarrow> u32 \<Rightarrow> (Elf64Sym, ElfError) outcome" where
  "Elf64Symtab_read_sym self i =
     (if i > syms_num self then Some (Err ElfError_InvalidSymbolIndex)
      else do {
        sym_off \<leftarrow> umul (unat i) (syms_entsize self);
        sym_end \<leftarrow> uadd sym_off (syms_entsize self);
        sym_buf \<leftarrow> slice sym_off sym_end (syms_buf self);
        sym \<leftarrow> Elf64Sym_read sym_buf;
        Some (Ok sym)
      })"

section \<open>Dynamic section\<close>

record Elf64DynamicRelocTable =
  rela_base_vaddr :: u64
  rela_size :: u64
  rela_entsize :: u64

definition Elf64DynamicRelocTable_verify :: "Elf64DynamicRelocTable \<Rightarrow> (unit, ElfError) result" where
  "Elf64DynamicRelocTable_verify self =
     (case Elf64AddrRange_try_from (rela_base_vaddr self) (rela_size self) of Err e \<Rightarrow> Err e | Ok _ \<Rightarrow> Ok ())"

definition Elf64DynamicRelocTable_vaddr_range :: "Elf64DynamicRelocTable \<Rightarrow> Elf64AddrRange option" where
  "Elf64DynamicRelocTable_vaddr_range self =
     unwrapR (Elf64AddrRange_try_from (rela_base_vaddr self) (rela_size self))"

record Elf64DynamicSymtab =
  dsym_base_vaddr :: u64
  dsym_entsize :: u64
  dsym_shndx :: "u64 option"

record Elf64Dynamic =
  dyn_rela :: "Elf64DynamicRelocTable option"
  dyn_symtab :: "Elf64DynamicSymtab option"
  dyn_flags_1 :: u64

definition DT_NULL :: u64 where "DT_NULL = 0"
definition DT_RELA :: u64 where "DT_RELA = 7"
definition DT_RELASZ :: u64 where "DT_RELASZ = 8"
definition DT_RELAENT :: u64 where "DT_RELAENT = 9"
definition DT_SYMTAB :: u64 where "DT_SYMTAB = 6"
definition DT_SYMENT :: u64 where "DT_SYMENT = 11"
definition DT_SYMTAB_SHNDX :: u64 where "DT_SYMTAB_SHNDX = 34"
definition DT_FLAGS_1 :: u64 where "DT_FLAGS_1 = 0x6ffffffb"
definition DF_PIE_1 :: u64 where "DF_PIE_1 = 0x08000000"

text \<open>The fields that \<open>read\<close> collects, and the tags it ignores.\<close>

definition dynamic_fields :: "u64 list" where
  "dynamic_fields = [DT_RELA, DT_RELASZ, DT_RELAENT, DT_SYMTAB, DT_SYMENT, DT_SYMTAB_SHNDX, DT_FLAGS_1]"

definition dynamic_ignored_fields :: "u64 list" where
  "dynamic_ignored_fields = [4, 5, 10, 21, 22, 30, 0x6ffffef5, 0x6ffffff9]"

text \<open>The loop over the entries; the result says whether \<open>DT_NULL\<close> was seen.\<close>

fun dynamic_scan :: "u8 list list \<Rightarrow> (u64 \<rightharpoonup> u64) \<Rightarrow> (bool \<times> (u64 \<rightharpoonup> u64), ElfError) outcome" where
  "dynamic_scan [] fm = Some (Ok (False, fm))"
| "dynamic_scan (entry_buf # es) fm = do {
     d_tag \<leftarrow> rd_u64 0 entry_buf;
     if d_tag = DT_NULL then Some (Ok (True, fm))
     else if d_tag \<in> set dynamic_fields then
       (if fm d_tag \<noteq> None then Some (Err ElfError_DynamicFieldConflict)
        else do {
          d_val \<leftarrow> rd_u64 8 entry_buf;
          dynamic_scan es (fm(d_tag \<mapsto> d_val))
        })
     else if d_tag \<notin> set dynamic_ignored_fields then Some (Err ElfError_UnrecognizedDynamicField)
     else dynamic_scan es fm
   }"

definition dynamic_required :: "(u64 \<rightharpoonup> u64) \<Rightarrow> u64 \<Rightarrow> (u64, ElfError) outcome" where
  "dynamic_required fm tag = Some (ok_or (fm tag) ElfError_MissingDynamicField)"

definition dynamic_rela :: "(u64 \<rightharpoonup> u64) \<Rightarrow> (Elf64DynamicRelocTable option, ElfError) outcome" where
  "dynamic_rela fm =
     (if fm DT_RELA \<noteq> None \<or> fm DT_RELASZ \<noteq> None \<or> fm DT_RELAENT \<noteq> None
      then bindR (dynamic_required fm DT_RELA) (\<lambda>rela.
           bindR (dynamic_required fm DT_RELASZ) (\<lambda>relasz.
           bindR (dynamic_required fm DT_RELAENT) (\<lambda>relaent.
           Some (Ok (Some \<lparr> rela_base_vaddr = rela, rela_size = relasz, rela_entsize = relaent \<rparr>)))))
      else Some (Ok None))"

definition dynamic_symtab :: "(u64 \<rightharpoonup> u64) \<Rightarrow> (Elf64DynamicSymtab option, ElfError) outcome" where
  "dynamic_symtab fm =
     (if fm DT_SYMTAB \<noteq> None \<or> fm DT_SYMENT \<noteq> None
      then bindR (dynamic_required fm DT_SYMTAB) (\<lambda>symtab.
           bindR (dynamic_required fm DT_SYMENT) (\<lambda>syment.
           Some (Ok (Some \<lparr> dsym_base_vaddr = symtab, dsym_entsize = syment,
             dsym_shndx = fm DT_SYMTAB_SHNDX \<rparr>))))
      else Some (Ok None))"

definition Elf64Dynamic_read :: "u8 list \<Rightarrow> (Elf64Dynamic, ElfError) outcome" where
  "Elf64Dynamic_read buf =
     bindR (dynamic_scan (chunks 16 buf) (\<lambda>_. None)) (\<lambda>(null_seen, fm).
     if \<not> null_seen then Some (Err ElfError_UnterminatedDynamicSection)
     else bindR (dynamic_rela fm) (\<lambda>rela.
          bindR (dynamic_symtab fm) (\<lambda>symtab.
          Some (Ok \<lparr> dyn_rela = rela, dyn_symtab = symtab,
            dyn_flags_1 = (case fm DT_FLAGS_1 of Some f \<Rightarrow> f | None \<Rightarrow> 0) \<rparr>))))"

definition Elf64DynamicSymtab_verify :: "Elf64DynamicSymtab \<Rightarrow> (unit, ElfError) result" where
  "Elf64DynamicSymtab_verify self = Ok ()"

definition Elf64Dynamic_verify :: "Elf64Dynamic \<Rightarrow> (unit, ElfError) result" where
  "Elf64Dynamic_verify self =
     (case (case dyn_rela self of Some rela \<Rightarrow> Elf64DynamicRelocTable_verify rela | None \<Rightarrow> Ok ()) of
        Err e \<Rightarrow> Err e
      | Ok _ \<Rightarrow> (case dyn_symtab self of Some symtab \<Rightarrow> Elf64DynamicSymtab_verify symtab | None \<Rightarrow> Ok ()))"

definition Elf64Dynamic_is_pie :: "Elf64Dynamic \<Rightarrow> bool" where
  "Elf64Dynamic_is_pie self \<longleftrightarrow> dyn_flags_1 self AND DF_PIE_1 \<noteq> 0"

end
