(* ===== verification/Elf_File.thy ===== *)
theory Elf_File
  imports Elf_Headers
begin

text \<open>
  Parsing a whole ELF file (\<open>Elf64File::read\<close>), its load segments, the mapping of virtual addresses
  to file contents, and dynamic relocations.  A loop with an early return is a recursive function
  over the remaining indices.
\<close>

section \<open>Load segments\<close>

type_synonym Elf64LoadSegments = "(Elf64AddrRange \<times> u16) list"

text \<open>\<open>partition_point\<close> of a list whose elements with the property come first.\<close>

definition partition_point :: "('a \<Rightarrow> bool) \<Rightarrow> 'a list \<Rightarrow> nat" where
  "partition_point P xs = length (takeWhile P xs)"

definition find_first_not_before :: "Elf64LoadSegments \<Rightarrow> Elf64AddrRange \<Rightarrow> nat option" where
  "find_first_not_before segments rng =
     (let i = partition_point (\<lambda>segment. Elf64AddrRange_partial_cmp (fst segment) rng = Some Less) segments in
      if i \<noteq> length segments then Some i else None)"

definition try_insert ::
  "Elf64AddrRange \<Rightarrow> u16 \<Rightarrow> Elf64LoadSegments \<Rightarrow> (Elf64LoadSegments, ElfError) result" where
  "try_insert segment phdr_index segments =
     (case find_first_not_before segments segment of
        Some i \<Rightarrow>
          (if Elf64AddrRange_partial_cmp segment (fst (segments ! i)) = Some Less
           then Ok (take i segments @ (segment, phdr_index) # drop i segments)
           else Err ElfError_LoadSegmentConflict)
      | None \<Rightarrow> Ok (segments @ [(segment, phdr_index)]))"

definition lookup_vaddr_range :: "Elf64LoadSegments \<Rightarrow> Elf64AddrRange \<Rightarrow> (u16 \<times> u64) option" where
  "lookup_vaddr_range segments rng =
     (case find_first_not_before segments rng of
        None \<Rightarrow> None
      | Some i \<Rightarrow>
          (let segment = segments ! i in
           if vaddr_begin (fst segment) \<le> vaddr_begin rng \<and> vaddr_end rng \<le> vaddr_end (fst segment)
           then Some (snd segment, vaddr_begin rng - vaddr_begin (fst segment))
           else None))"

definition total_vaddr_range :: "Elf64LoadSegments \<Rightarrow> Elf64AddrRange" where
  "total_vaddr_range segments =
     \<lparr> vaddr_begin = (case segments of [] \<Rightarrow> 0 | first # _ \<Rightarrow> vaddr_begin (fst first)),
       vaddr_end = (if segments = [] then 0 else vaddr_end (fst (last segments))) \<rparr>"

section \<open>Reading a file\<close>

record Elf64File =
  elf_file_buf :: "u8 list"
  elf_hdr :: Elf64Hdr
  load_segments :: Elf64LoadSegments
  max_load_segment_align :: u64
  elf_sh_strtab :: "u8 list option"
  elf_symtab :: "Elf64Symtab option"
  elf_strtab :: "u8 list option"
  elf_dynamic :: "Elf64Dynamic option"

definition check_program_header_table :: "Elf64Hdr \<Rightarrow> nat \<Rightarrow> (unit, ElfError) result" where
  "check_program_header_table hdr buf_len =
     (if unat (e_phentsize hdr) < 56 then Err ElfError_InvalidPhdrSize
      else case umul (unat (e_phnum hdr)) (unat (e_phentsize hdr)) of
        None \<Rightarrow> Err ElfError_FileTooShort
      | Some phdrs_size \<Rightarrow>
          (case uadd (unat (e_phoff hdr)) phdrs_size of
             None \<Rightarrow> Err ElfError_FileTooShort
           | Some phdrs_end \<Rightarrow> if phdrs_end > buf_len then Err ElfError_FileTooShort else Ok ()))"

definition check_section_header_table_bounds :: "Elf64Hdr \<Rightarrow> nat \<Rightarrow> (unit, ElfError) result" where
  "check_section_header_table_bounds hdr buf_len =
     (case umul (unat (e_shnum hdr)) (unat (e_shentsize hdr)) of
        None \<Rightarrow> Err ElfError_FileTooShort
      | Some shdrs_size \<Rightarrow>
          (case uadd (unat (e_shoff hdr)) shdrs_size of
             None \<Rightarrow> Err ElfError_FileTooShort
           | Some shdrs_end \<Rightarrow> if shdrs_end > buf_len then Err ElfError_FileTooShort else Ok ()))"

definition read_phdr_from_file :: "u8 list \<Rightarrow> Elf64Hdr \<Rightarrow> u16 \<Rightarrow> Elf64Phdr option" where
  "read_phdr_from_file buf hdr i = do {
     o1 \<leftarrow> umul (unat i) (unat (e_phentsize hdr));
     phdr_off \<leftarrow> uadd (unat (e_phoff hdr)) o1;
     phdr_end \<leftarrow> uadd phdr_off (unat (e_phentsize hdr));
     phdr_buf \<leftarrow> slice phdr_off phdr_end buf;
     Elf64Phdr_read phdr_buf
   }"

definition verify_phdr :: "Elf64Phdr \<Rightarrow> nat \<Rightarrow> (unit, ElfError) outcome" where
  "verify_phdr phdr buf_len =
     (if p_type phdr = PT_NULL then Some (Ok ())
      else bindR (Some (Elf64Phdr_verify phdr)) (\<lambda>_.
        if p_filesz phdr \<noteq> 0 then do {
          file_range \<leftarrow> Elf64Phdr_file_range phdr;
          Some (if offset_end file_range > buf_len then Err ElfError_FileTooShort else Ok ())
        } else Some (Ok ())))"

definition read_verified_phdr :: "u8 list \<Rightarrow> Elf64Hdr \<Rightarrow> u16 \<Rightarrow> (Elf64Phdr, ElfError) outcome" where
  "read_verified_phdr buf hdr i = do {
     phdr \<leftarrow> read_phdr_from_file buf hdr i;
     bindR (verify_phdr phdr (length buf)) (\<lambda>_. Some (Ok phdr))
   }"

definition read_shdr_from_file :: "u8 list \<Rightarrow> Elf64Hdr \<Rightarrow> u32 \<Rightarrow> Elf64Shdr option" where
  "read_shdr_from_file buf hdr i = do {
     o1 \<leftarrow> umul (unat i) (unat (e_shentsize hdr));
     shdr_off \<leftarrow> uadd (unat (e_shoff hdr)) o1;
     shdr_end \<leftarrow> uadd shdr_off (unat (e_shentsize hdr));
     shdr_buf \<leftarrow> slice shdr_off shdr_end buf;
     Elf64Shdr_read shdr_buf
   }"

definition verify_shdr :: "Elf64Shdr \<Rightarrow> nat \<Rightarrow> u32 \<Rightarrow> (unit, ElfError) outcome" where
  "verify_shdr shdr buf_len shnum =
     (if sh_type shdr = SHT_NULL then Some (Ok ())
      else bindR (Some (Elf64Shdr_verify shdr)) (\<lambda>_.
        if sh_link shdr > shnum \<or> (sh_flags shdr AND SHF_INFO_LINK = SHF_INFO_LINK \<and> sh_info shdr > shnum)
        then Some (Err ElfError_InvalidSectionIndex)
        else if sh_type shdr \<noteq> SHT_NOBITS then do {
          file_range \<leftarrow> Elf64Shdr_file_range shdr;
          Some (if offset_end file_range > buf_len then Err ElfError_FileTooShort else Ok ())
        } else Some (Ok ())))"

definition read_verified_shdr :: "u8 list \<Rightarrow> Elf64Hdr \<Rightarrow> u32 \<Rightarrow> (Elf64Shdr, ElfError) outcome" where
  "read_verified_shdr buf hdr i = do {
     shdr \<leftarrow> read_shdr_from_file buf hdr i;
     bindR (verify_shdr shdr (length buf) (e_shnum hdr)) (\<lambda>_. Some (Ok shdr))
   }"

text \<open>Section header zero holds the number of section headers when it does not fit the file header.\<close>

definition resolve_shnum :: "u8 list \<Rightarrow> Elf64Hdr \<Rightarrow> (Elf64Hdr, ElfError) outcome" where
  "resolve_shnum buf hdr =
     (if unat (e_shentsize hdr) < 64 then Some (Err ElfError_InvalidShdrSize)
      else bindR
        (if e_shnum hdr = 0 \<and> e_shoff hdr \<noteq> 0 then
           bindR (Some (check_section_header_table_bounds (hdr\<lparr>e_shnum := 1\<rparr>) (length buf))) (\<lambda>_. do {
             shdr0 \<leftarrow> read_shdr_from_file buf (hdr\<lparr>e_shnum := 1\<rparr>) 0;
             Some (if unat (sh_size shdr0) < 2 ^ 32 then Ok (hdr\<lparr>e_shnum := ucast (sh_size shdr0)\<rparr>)
                   else Err ElfError_InvalidSectionIndex)
           })
         else Some (Ok hdr)) (\<lambda>hdr.
        bindR (Some (check_section_header_table_bounds hdr (length buf))) (\<lambda>_. Some (Ok hdr))))"

text \<open>The loop over the program headers: load segments, largest alignment, file range of the dynamic section.\<close>

definition scan_phdr ::
  "u8 list \<Rightarrow> Elf64Hdr \<Rightarrow> nat \<Rightarrow> Elf64LoadSegments \<times> u64 \<times> Elf64FileRange option
     \<Rightarrow> (Elf64LoadSegments \<times> u64 \<times> Elf64FileRange option, ElfError) outcome" where
  "scan_phdr buf hdr i = (\<lambda>(segs, align', dyn).
     bindR (read_verified_phdr buf hdr (of_nat i)) (\<lambda>phdr.
       if p_type phdr = PT_LOAD then do {
         vaddr_range \<leftarrow> Elf64Phdr_vaddr_range phdr;
         if vaddr_begin vaddr_range = vaddr_end vaddr_range then Some (Ok (segs, align', dyn))
         else (case try_insert vaddr_range (of_nat i) segs of
                 Err _ \<Rightarrow> Some (Err ElfError_LoadSegmentConflict)
               | Ok segs \<Rightarrow> Some (Ok (segs, max align' (p_align phdr), dyn)))
       }
       else if p_type phdr = PT_DYNAMIC then
         (if dyn \<noteq> None then Some (Err ElfError_DynamicPhdrConflict)
          else do {
            file_range \<leftarrow> Elf64Phdr_file_range phdr;
            Some (Ok (segs, align', Some file_range))
          })
       else Some (Ok (segs, align', dyn))))"

definition resolve_shstrndx :: "u8 list \<Rightarrow> Elf64Hdr \<Rightarrow> (Elf64Hdr, ElfError) outcome" where
  "resolve_shstrndx buf hdr =
     bindR
       (if e_shstrndx hdr = SHN_XINDEX then
          (if e_shnum hdr = 0 then Some (Err ElfError_InvalidSectionIndex)
           else do {
             shdr0 \<leftarrow> read_shdr_from_file buf hdr 0;
             Some (Ok (hdr\<lparr>e_shstrndx := sh_link shdr0\<rparr>))
           })
        else Some (Ok hdr)) (\<lambda>hdr.
       if e_shstrndx hdr \<noteq> SHN_UNDEF \<and> e_shstrndx hdr > e_shnum hdr
       then Some (Err ElfError_InvalidSectionIndex)
       else Some (Ok hdr))"

text \<open>The loop over the section headers: verify each, find the section name string table.\<close>

definition scan_shdr ::
  "u8 list \<Rightarrow> Elf64Hdr \<Rightarrow> nat \<Rightarrow> u8 list option \<Rightarrow> (u8 list option, ElfError) outcome" where
  "scan_shdr buf hdr i strtab =
     bindR (read_verified_shdr buf hdr (of_nat i)) (\<lambda>shdr.
       if e_shstrndx hdr \<noteq> SHN_UNDEF \<and> of_nat i = e_shstrndx hdr then
         (if sh_type shdr \<noteq> SHT_STRTAB then Some (Err ElfError_IncompatibleSectionType)
          else do {
            rng \<leftarrow> Elf64Shdr_file_range shdr;
            strtab_buf \<leftarrow> slice (offset_begin rng) (offset_end rng) buf;
            Some (Ok (Some strtab_buf))
          })
       else Some (Ok strtab))"

fun find_symtab :: "u8 list \<Rightarrow> Elf64Hdr \<Rightarrow> nat list \<Rightarrow> (Elf64Symtab option, ElfError) outcome" where
  "find_symtab buf hdr [] = Some (Ok None)"
| "find_symtab buf hdr (i # is) =
     bindR (read_verified_shdr buf hdr (of_nat i)) (\<lambda>shdr.
       if sh_type shdr \<noteq> SHT_SYMTAB then find_symtab buf hdr is
       else do {
         rng \<leftarrow> Elf64Shdr_file_range shdr;
         syms \<leftarrow> slice (offset_begin rng) (offset_end rng) buf;
         bindR (Some (Elf64Symtab_new syms (sh_entsize shdr))) (\<lambda>symtab. Some (Ok (Some symtab)))
       })"

text \<open>The name \<open>.strtab\<close>.\<close>

definition strtab_name :: "u8 list" where
  "strtab_name = [0x2e, 0x73, 0x74, 0x72, 0x74, 0x61, 0x62]"

fun find_strtab_in :: "u8 list \<Rightarrow> Elf64Hdr \<Rightarrow> u8 list \<Rightarrow> nat list \<Rightarrow> (u8 list option, ElfError) outcome" where
  "find_strtab_in buf hdr shstr [] = Some (Ok None)"
| "find_strtab_in buf hdr shstr (i # is) =
     bindR (read_verified_shdr buf hdr (of_nat i)) (\<lambda>shdr.
       if sh_type shdr \<noteq> SHT_STRTAB then find_strtab_in buf hdr shstr is
       else bindR (Elf64Strtab_get_str shstr (sh_name shdr)) (\<lambda>name.
         if name \<noteq> strtab_name then find_strtab_in buf hdr shstr is
         else do {
           rng \<leftarrow> Elf64Shdr_file_range shdr;
           strs \<leftarrow> slice (offset_begin rng) (offset_end rng) buf;
           Some (Ok (Some strs))
         }))"

definition find_strtab ::
  "u8 list \<Rightarrow> Elf64Hdr \<Rightarrow> u8 list option \<Rightarrow> (u8 list option, ElfError) outcome" where
  "find_strtab buf hdr sh_strtab =
     (case sh_strtab of
        None \<Rightarrow> Some (Ok None)
      | Some shstr \<Rightarrow> find_strtab_in buf hdr shstr [0 ..< unat (e_shnum hdr)])"

definition read_dynamic :: "u8 list \<Rightarrow> Elf64FileRange option \<Rightarrow> (Elf64Dynamic option, ElfError) outcome" where
  "read_dynamic buf dyn_range =
     (case dyn_range of
        None \<Rightarrow> Some (Ok None)
      | Some rng \<Rightarrow> do {
          dynamic_buf \<leftarrow> slice (offset_begin rng) (offset_end rng) buf;
          bindR (Elf64Dynamic_read dynamic_buf) (\<lambda>dynamic.
          bindR (Some (Elf64Dynamic_verify dynamic)) (\<lambda>_.
          Some (Ok (Some dynamic))))
        })"

text \<open>The part of \<open>read\<close> after the program headers, then the whole function.\<close>

definition read_sections ::
  "u8 list \<Rightarrow> Elf64Hdr \<Rightarrow> Elf64LoadSegments \<times> u64 \<times> Elf64FileRange option \<Rightarrow> (Elf64File, ElfError) outcome" where
  "read_sections buf hdr = (\<lambda>(segs, align', dyn_range).
     bindR (resolve_shstrndx buf hdr) (\<lambda>hdr.
     bindR (forR [0 ..< unat (e_shnum hdr)] (scan_shdr buf hdr) None) (\<lambda>sh_strtab.
     bindR (find_symtab buf hdr [0 ..< unat (e_shnum hdr)]) (\<lambda>symtab.
     bindR (find_strtab buf hdr sh_strtab) (\<lambda>strtab.
     bindR (read_dynamic buf dyn_range) (\<lambda>dynamic.
     Some (Ok \<lparr> elf_file_buf = buf, elf_hdr = hdr, load_segments = segs,
       max_load_segment_align = align', elf_sh_strtab = sh_strtab, elf_symtab = symtab,
       elf_strtab = strtab, elf_dynamic = dynamic \<rparr>)))))))"

definition Elf64File_read :: "u8 list \<Rightarrow> (Elf64File, ElfError) outcome" where
  "Elf64File_read buf =
     bindR (Elf64Hdr_read buf) (\<lambda>hdr.
     bindR (Some (check_program_header_table hdr (length buf))) (\<lambda>_.
     bindR (resolve_shnum buf hdr) (\<lambda>hdr.
     bindR (forR [0 ..< unat (e_phnum hdr)] (scan_phdr buf hdr) ([], 0, None))
       (read_sections buf hdr))))"

section \<open>Addresses of the loaded image\<close>

definition read_phdr :: "Elf64File \<Rightarrow> u16 \<Rightarrow> Elf64Phdr option" where
  "read_phdr self i = read_phdr_from_file (elf_file_buf self) (elf_hdr self) i"

definition read_shdr :: "Elf64File \<Rightarrow> u32 \<Rightarrow> Elf64Shdr option" where
  "read_shdr self i = read_shdr_from_file (elf_file_buf self) (elf_hdr self) i"

text \<open>The section header iterator: its state is the next index.\<close>

definition Elf64ShdrIterator_next :: "Elf64File \<Rightarrow> u32 \<Rightarrow> (Elf64Shdr option \<times> u32) option" where
  "Elf64ShdrIterator_next self cur =
     (if cur = e_shnum (elf_hdr self) then Some (None, cur)
      else do {
        nxt \<leftarrow> wadd cur 1;
        shdr \<leftarrow> read_shdr self cur;
        Some (Some shdr, nxt)
      })"

definition map_vaddr_to_file_off :: "Elf64File \<Rightarrow> u64 \<Rightarrow> u64 option \<Rightarrow> (Elf64FileRange, ElfError) outcome" where
  "map_vaddr_to_file_off self begin' end' =
     (if begin' = - 1 then Some (Err ElfError_UnmappedVaddrRange)
      else
        (let rng = \<lparr> vaddr_begin = begin', vaddr_end = (case end' of Some e \<Rightarrow> e | None \<Rightarrow> begin' + 1) \<rparr> in
         case lookup_vaddr_range (load_segments self) rng of
           None \<Rightarrow> Some (Err ElfError_UnmappedVaddrRange)
         | Some (phdr_index, off) \<Rightarrow> do {
             phdr \<leftarrow> read_phdr self phdr_index;
             seg \<leftarrow> Elf64Phdr_file_range phdr;
             bindR (Some (ok_or (uadd (offset_begin seg) (unat off)) ElfError_InvalidFileRange)) (\<lambda>ob.
             case end' of
               Some e \<Rightarrow> do {
                 len \<leftarrow> wsub e begin';
                 bindR (Some (ok_or (uadd ob (unat len)) ElfError_InvalidFileRange)) (\<lambda>oe.
                 if oe > offset_end seg then Some (Err ElfError_UnbackedVaddrRange)
                 else Some (Ok \<lparr> offset_begin = ob, offset_end = oe \<rparr>))
               }
             | None \<Rightarrow> Some (Ok \<lparr> offset_begin = ob, offset_end = offset_end seg \<rparr>))
           }))"

definition map_vaddr_to_file_buf :: "Elf64File \<Rightarrow> u64 \<Rightarrow> u64 option \<Rightarrow> (u8 list, ElfError) outcome" where
  "map_vaddr_to_file_buf self begin' end' =
     bindR (map_vaddr_to_file_off self begin' end') (\<lambda>rng. do {
       b \<leftarrow> slice (offset_begin rng) (offset_end rng) (elf_file_buf self);
       Some (Ok b)
     })"

definition image_load_align_offset :: "Elf64File \<Rightarrow> u64" where
  "image_load_align_offset self =
     (if max_load_segment_align self = 0 then 0
      else vaddr_begin (total_vaddr_range (load_segments self)) AND (max_load_segment_align self - 1))"

definition image_load_addr :: "Elf64File \<Rightarrow> u64 \<Rightarrow> u64 option" where
  "image_load_addr self addr =
     (if max_load_segment_align self = 0 then Some addr
      else wadd (addr AND NOT (max_load_segment_align self - 1)) (image_load_align_offset self))"

definition load_base :: "Elf64File \<Rightarrow> u64 \<Rightarrow> u64 option" where
  "load_base self addr = do {
     a \<leftarrow> image_load_addr self addr;
     Some (a - vaddr_begin (total_vaddr_range (load_segments self)))
   }"

record Elf64ImageLoadVaddrAllocInfo =
  alloc_range :: Elf64AddrRange
  alloc_align :: "u64 option"

definition image_load_vaddr_alloc_info :: "Elf64File \<Rightarrow> Elf64ImageLoadVaddrAllocInfo" where
  "image_load_vaddr_alloc_info self =
     (let rng = total_vaddr_range (load_segments self);
          rng = (if max_load_segment_align self \<noteq> 0
                   then rng\<lparr>vaddr_begin := vaddr_begin rng AND NOT (max_load_segment_align self - 1)\<rparr>
                   else rng);
          pie = (case elf_dynamic self of Some d \<Rightarrow> Elf64Dynamic_is_pie d | None \<Rightarrow> False)
      in \<lparr> alloc_range = rng, alloc_align = (if pie then Some (max_load_segment_align self) else None) \<rparr>)"

definition get_entry :: "Elf64File \<Rightarrow> u64 \<Rightarrow> u64 option" where
  "get_entry self addr = do { b \<leftarrow> load_base self addr; Some (e_entry (elf_hdr self) + b) }"

record Elf64ImageLoadSegment =
  ils_vaddr_range :: Elf64AddrRange
  ils_file_range :: Elf64FileRange
  ils_file_contents :: "u8 list"
  ils_flags :: u32

text \<open>One step of the iterator over the load segments; its state is the next index.\<close>

definition image_load_segment_next ::
  "Elf64File \<Rightarrow> u64 \<Rightarrow> nat \<Rightarrow> (Elf64ImageLoadSegment option \<times> nat) option" where
  "image_load_segment_next self base cur =
     (if cur = length (load_segments self) then Some (None, cur)
      else do {
        nxt \<leftarrow> uadd cur 1;
        segment \<leftarrow> idx (load_segments self) cur;
        phdr \<leftarrow> read_phdr self (snd segment);
        vr \<leftarrow> Elf64Phdr_vaddr_range phdr;
        fr \<leftarrow> Elf64Phdr_file_range phdr;
        contents \<leftarrow> slice (offset_begin fr) (offset_end fr) (elf_file_buf self);
        Some (Some \<lparr> ils_vaddr_range = \<lparr> vaddr_begin = vaddr_begin vr + base, vaddr_end = vaddr_end vr + base \<rparr>,
          ils_file_range = fr, ils_file_contents = contents, ils_flags = p_flags phdr \<rparr>, nxt)
      })"

section \<open>Relocations\<close>

record Elf64Rela =
  r_offset :: u64
  r_info :: u64
  r_addend :: u64   \<comment> \<open>the signed addend in two's complement\<close>

definition Elf64Rela_get_sym :: "Elf64Rela \<Rightarrow> u32" where
  "Elf64Rela_get_sym self = ucast (drop_bit 32 (r_info self))"

definition Elf64Rela_get_type :: "Elf64Rela \<Rightarrow> u32" where
  "Elf64Rela_get_type self = ucast (r_info self AND 0xffffffff)"

definition Elf64Rela_read :: "u8 list \<Rightarrow> Elf64Rela option" where
  "Elf64Rela_read buf = do {
     off \<leftarrow> rd_u64 0 buf;
     info \<leftarrow> rd_u64 8 buf;
     addend \<leftarrow> rd_u64 16 buf;
     Some \<lparr> r_offset = off, r_info = info, r_addend = addend \<rparr>
   }"

record Elf64Relas =
  relas_buf :: "u8 list"
  relas_entsize :: nat
  relas_num :: nat

definition Elf64Relas_new :: "u8 list \<Rightarrow> u64 \<Rightarrow> (Elf64Relas, ElfError) result" where
  "Elf64Relas_new buf entsize =
     (if unat entsize < 24 then Err ElfError_InvalidRelocationEntrySize
      else Ok \<lparr> relas_buf = buf, relas_entsize = unat entsize, relas_num = length buf div unat entsize \<rparr>)"

definition Elf64Relas_read_rela :: "Elf64Relas \<Rightarrow> nat \<Rightarrow> (Elf64Rela, ElfError) outcome" where
  "Elf64Relas_read_rela self i = do {
     rela_off \<leftarrow> umul i (relas_entsize self);
     rela_end \<leftarrow> uadd rela_off (relas_entsize self);
     rela_buf \<leftarrow> slice rela_off rela_end (relas_buf self);
     rela \<leftarrow> Elf64Rela_read rela_buf;
     Some (Ok rela)
   }"

record Elf64RelocOp =
  reloc_dst :: u64
  reloc_value :: "u8 list"
  reloc_value_len :: nat

definition R_X86_64_64 :: u32 where "R_X86_64_64 = 1"
definition R_X86_64_PC32 :: u32 where "R_X86_64_PC32 = 2"
definition R_X86_64_RELATIVE :: u32 where "R_X86_64_RELATIVE = 8"
definition R_X86_64_32 :: u32 where "R_X86_64_32 = 10"
definition R_X86_64_32S :: u32 where "R_X86_64_32S = 11"
definition R_X86_64_PC64 :: u32 where "R_X86_64_PC64 = 24"

definition x86_apply_relocation :: "Elf64Rela \<Rightarrow> u64 \<Rightarrow> u64 \<Rightarrow> (Elf64RelocOp, ElfError) result" where
  "x86_apply_relocation rela base sym_value =
     (let p = r_offset rela + base; a = r_addend rela; ty = Elf64Rela_get_type rela;
          res = (if ty = R_X86_64_64 then Some (sym_value + a, 8)
                 else if ty = R_X86_64_PC32 then Some (sym_value + a - p, 4)
                 else if ty = R_X86_64_RELATIVE then Some (base + a, 8)
                 else if ty = R_X86_64_32 then Some (sym_value + a, 4)
                 else if ty = R_X86_64_32S then Some (sym_value + a, 4)
                 else if ty = R_X86_64_PC64 then Some (sym_value + a - p, 8)
                 else None)
      in case res of
           None \<Rightarrow> Err ElfError_UnrecognizedRelocationType
         | Some (v, n) \<Rightarrow> Ok \<lparr> reloc_dst = p, reloc_value = u64_to_le_bytes v, reloc_value_len = n \<rparr>)"

text \<open>The iterator over the applied relocations; \<open>rela_proc\<close> is its relocation processor.\<close>

record Elf64AppliedRelaIterator =
  ari_load_base :: u64
  ari_load_segments :: Elf64LoadSegments
  ari_relas :: Elf64Relas
  ari_symtab :: "Elf64Symtab option"
  ari_next :: nat

definition rela_sym_value :: "Elf64AppliedRelaIterator \<Rightarrow> Elf64Rela \<Rightarrow> (u64, ElfError) outcome" where
  "rela_sym_value self rela =
     (if Elf64Rela_get_sym rela \<noteq> STN_UNDEF then
        (case ari_symtab self of
           None \<Rightarrow> Some (Err ElfError_InvalidSymbolIndex)
         | Some symtab \<Rightarrow>
             bindR (Elf64Symtab_read_sym symtab (Elf64Rela_get_sym rela)) (\<lambda>sym.
               if (ucast (st_shndx sym) :: u32) = SHN_UNDEF then Some (Err ElfError_RelocationAgainstUndefSymbol)
               else if (ucast (st_shndx sym) :: u32) = SHN_ABS then Some (Ok (st_value sym))
               else Some (Ok (st_value sym + ari_load_base self))))
      else Some (Ok 0))"

definition apply_rela ::
  "(Elf64Rela \<Rightarrow> u64 \<Rightarrow> u64 \<Rightarrow> (Elf64RelocOp, ElfError) result) \<Rightarrow> Elf64AppliedRelaIterator \<Rightarrow> nat
     \<Rightarrow> (Elf64RelocOp option, ElfError) outcome" where
  "apply_rela rela_proc self cur =
     bindR (Elf64Relas_read_rela (ari_relas self) cur) (\<lambda>rela.
     if Elf64Rela_get_type rela = 0 then Some (Ok None)
     else bindR (rela_sym_value self rela) (\<lambda>sym_value.
     bindR (Some (rela_proc rela (ari_load_base self) sym_value)) (\<lambda>reloc_op.
     case wadd (r_offset rela) (of_nat (reloc_value_len reloc_op)) of
       None \<Rightarrow> Some (Err ElfError_InvalidAddressRange)
     | Some dst_end \<Rightarrow>
         (if lookup_vaddr_range (ari_load_segments self) \<lparr> vaddr_begin = r_offset rela, vaddr_end = dst_end \<rparr> = None
          then Some (Err ElfError_InvalidRelocationOffset)
          else Some (Ok (Some reloc_op))))))"

definition Elf64AppliedRelaIterator_next ::
  "(Elf64Rela \<Rightarrow> u64 \<Rightarrow> u64 \<Rightarrow> (Elf64RelocOp, ElfError) result) \<Rightarrow> Elf64AppliedRelaIterator
     \<Rightarrow> ((Elf64RelocOp option, ElfError) result option \<times> Elf64AppliedRelaIterator) option" where
  "Elf64AppliedRelaIterator_next rela_proc self =
     (let cur = ari_next self in
      if cur = relas_num (ari_relas self) then Some (None, self)
      else do {
        nxt \<leftarrow> uadd cur 1;
        item \<leftarrow> apply_rela rela_proc self cur;
        Some (Some item, self\<lparr>ari_next := nxt\<rparr>)
      })"

definition apply_dyn_relas :: "Elf64File \<Rightarrow> u64 \<Rightarrow> (Elf64AppliedRelaIterator option, ElfError) outcome" where
  "apply_dyn_relas self addr =
     (case elf_dynamic self of
        None \<Rightarrow> Some (Ok None)
      | Some dynamic \<Rightarrow>
          (case dyn_rela dynamic of
             None \<Rightarrow> Some (Ok None)
           | Some rela \<Rightarrow> do {
               base \<leftarrow> load_base self addr;
               rng \<leftarrow> Elf64DynamicRelocTable_vaddr_range rela;
               bindR (map_vaddr_to_file_buf self (vaddr_begin rng) (Some (vaddr_end rng))) (\<lambda>buf.
               bindR (Some (Elf64Relas_new buf (rela_entsize rela))) (\<lambda>relas.
               bindR (case dyn_symtab dynamic of
                        None \<Rightarrow> Some (Ok None)
                      | Some ds \<Rightarrow>
                          bindR (map_vaddr_to_file_buf self (dsym_base_vaddr ds) None) (\<lambda>syms.
                          bindR (Some (Elf64Symtab_new syms (dsym_entsize ds))) (\<lambda>symtab.
                          Some (Ok (Some symtab))))) (\<lambda>symtab.
               Some (Ok (Some \<lparr> ari_load_base = base, ari_load_segments = load_segments self,
                 ari_relas = relas, ari_symtab = symtab, ari_next = 0 \<rparr>)))))
             }))"

end
