(* ===== verification/Elf_Properties.thy ===== *)
theory Elf_Properties
  imports Elf_File
begin

text \<open>
  What the ELF parser guarantees.  Reading a file never panics, with one exception that comes from
  the dynamic section, and a file that was read satisfies \<open>elf_wf\<close>: its load segments are exactly
  its non-empty loadable program headers, sorted and disjoint, and every table lies in the file.
\<close>

section \<open>Headers in bounds\<close>

lemma Elf64Hdr_read_total: "wpR (Elf64Hdr_read buf) (\<lambda>_. True)"
  by (cases "check_e_ident (take 16 buf)") (simp_all add: Elf64Hdr_read_def rd_defs)

lemma Elf64Phdr_read_total: "56 \<le> length buf \<Longrightarrow> \<exists>phdr. Elf64Phdr_read buf = Some phdr"
  by (simp add: Elf64Phdr_read_def rd_defs)

lemma Elf64Shdr_read_total: "64 \<le> length buf \<Longrightarrow> \<exists>shdr. Elf64Shdr_read buf = Some shdr"
  by (simp add: Elf64Shdr_read_def rd_defs)

text \<open>Entry \<open>i\<close> of a table of \<open>n\<close> entries that fits into the file.\<close>

lemma table_entry:
  assumes "i < n" and "off + n * ent \<le> len" and "len \<le> usize_max"
  shows "umul i ent = Some (i * ent)" "uadd off (i * ent) = Some (off + i * ent)"
    "uadd (off + i * ent) ent = Some (off + i * ent + ent)" "off + i * ent + ent \<le> len"
proof -
  have "Suc i * ent \<le> n * ent" using assms(1) by (intro mult_le_mono1) simp
  then have "off + i * ent + ent \<le> len" using assms(2) by simp
  then show "umul i ent = Some (i * ent)" "uadd off (i * ent) = Some (off + i * ent)"
    "uadd (off + i * ent) ent = Some (off + i * ent + ent)" "off + i * ent + ent \<le> len"
    using assms(3) by simp_all
qed

definition phdrs_in_file :: "Elf64Hdr \<Rightarrow> nat \<Rightarrow> bool" where
  "phdrs_in_file hdr len \<longleftrightarrow> 56 \<le> unat (e_phentsize hdr)
     \<and> unat (e_phoff hdr) + unat (e_phnum hdr) * unat (e_phentsize hdr) \<le> len"

definition shdrs_in_file :: "Elf64Hdr \<Rightarrow> nat \<Rightarrow> bool" where
  "shdrs_in_file hdr len \<longleftrightarrow> 64 \<le> unat (e_shentsize hdr)
     \<and> unat (e_shoff hdr) + unat (e_shnum hdr) * unat (e_shentsize hdr) \<le> len"

lemma check_program_header_table_Ok:
  "check_program_header_table hdr len = Ok () \<Longrightarrow> phdrs_in_file hdr len"
  by (auto simp: check_program_header_table_def phdrs_in_file_def split: if_splits option.splits)

lemma check_section_header_table_bounds_Ok:
  "check_section_header_table_bounds hdr len = Ok () \<Longrightarrow> 64 \<le> unat (e_shentsize hdr) \<Longrightarrow> shdrs_in_file hdr len"
  by (auto simp: check_section_header_table_bounds_def shdrs_in_file_def split: if_splits option.splits)

lemma read_phdr_total:
  assumes "phdrs_in_file hdr (length buf)" and "unat i < unat (e_phnum hdr)" and "length buf \<le> usize_max"
  shows "\<exists>phdr. read_phdr_from_file buf hdr i = Some phdr"
proof -
  note E = table_entry [OF assms(2) _ assms(3), of "unat (e_phoff hdr)" "unat (e_phentsize hdr)"]
  have fits: "unat (e_phoff hdr) + unat (e_phnum hdr) * unat (e_phentsize hdr) \<le> length buf"
    and big: "56 \<le> unat (e_phentsize hdr)" using assms(1) by (simp_all add: phdrs_in_file_def)
  obtain phdr where "Elf64Phdr_read (take (unat (e_phentsize hdr))
      (drop (unat (e_phoff hdr) + unat i * unat (e_phentsize hdr)) buf)) = Some phdr"
    using Elf64Phdr_read_total E(4) [OF fits] big by fastforce
  then show ?thesis using E [OF fits] by (simp add: read_phdr_from_file_def)
qed

lemma read_shdr_total:
  assumes "shdrs_in_file hdr (length buf)" and "unat i < unat (e_shnum hdr)" and "length buf \<le> usize_max"
  shows "\<exists>shdr. read_shdr_from_file buf hdr i = Some shdr"
proof -
  note E = table_entry [OF assms(2) _ assms(3), of "unat (e_shoff hdr)" "unat (e_shentsize hdr)"]
  have fits: "unat (e_shoff hdr) + unat (e_shnum hdr) * unat (e_shentsize hdr) \<le> length buf"
    and big: "64 \<le> unat (e_shentsize hdr)" using assms(1) by (simp_all add: shdrs_in_file_def)
  obtain shdr where "Elf64Shdr_read (take (unat (e_shentsize hdr))
      (drop (unat (e_shoff hdr) + unat i * unat (e_shentsize hdr)) buf)) = Some shdr"
    using Elf64Shdr_read_total E(4) [OF fits] big by fastforce
  then show ?thesis using E [OF fits] by (simp add: read_shdr_from_file_def)
qed

section \<open>Verified headers\<close>

lemma file_range_try_from_Ok:
  "Elf64FileRange_try_from off size' = Ok r \<longleftrightarrow>
     unat off + unat size' \<le> usize_max \<and> r = \<lparr> offset_begin = unat off, offset_end = unat off + unat size' \<rparr>"
  by (auto simp: Elf64FileRange_try_from_def split: option.splits)

lemma addr_range_try_from_Ok:
  "Elf64AddrRange_try_from b size' = Ok r \<longleftrightarrow>
     unat b + unat size' < 2 ^ 64 \<and> r = \<lparr> vaddr_begin = b, vaddr_end = b + size' \<rparr>"
  by (auto simp: Elf64AddrRange_try_from_def wadd_def split: option.splits if_splits)

text \<open>What the verification of a program header establishes.\<close>

definition phdr_ok :: "Elf64Phdr \<Rightarrow> nat \<Rightarrow> bool" where
  "phdr_ok phdr len \<longleftrightarrow> p_type phdr \<noteq> PT_NULL \<longrightarrow>
     (p_type phdr = PT_LOAD \<longrightarrow> p_filesz phdr \<le> p_memsz phdr)
     \<and> (p_align phdr = 0 \<or> is_power_of_two (p_align phdr))
     \<and> (p_filesz phdr \<noteq> 0 \<longrightarrow> unat (p_offset phdr) + unat (p_filesz phdr) \<le> len)
     \<and> unat (p_offset phdr) + unat (p_filesz phdr) \<le> usize_max
     \<and> unat (p_vaddr phdr) + unat (p_memsz phdr) < 2 ^ 64"

lemma unat_le_usize_max: "unat (w :: u64) \<le> usize_max"
  using unat_lt_u64 [of w] by (simp add: usize_max_eq)

lemma small_align: "\<not> 1 < w \<Longrightarrow> w = 0 \<or> is_power_of_two w" for w :: u64
proof -
  assume "\<not> 1 < w"
  then have "unat w \<le> 1" by (simp add: word_less_nat_alt)
  then have "w = 0 \<or> w = 1" unfolding word_unat_eq_iff by (simp add: le_Suc_eq)
  then show ?thesis by (auto simp: is_power_of_two_def)
qed

lemma Elf64Phdr_verify_Ok:
  assumes "Elf64Phdr_verify phdr = Ok ()" and "p_type phdr \<noteq> PT_NULL"
  shows "p_type phdr = PT_LOAD \<longrightarrow> p_filesz phdr \<le> p_memsz phdr"
    "p_align phdr = 0 \<or> is_power_of_two (p_align phdr)"
    "unat (p_offset phdr) + unat (p_filesz phdr) \<le> usize_max"
    "unat (p_vaddr phdr) + unat (p_memsz phdr) < 2 ^ 64"
  using assms unat_le_usize_max [of "p_offset phdr"] unsigned_less [where ?'a = nat and w = "p_vaddr phdr"]
    small_align [of "p_align phdr"]
  by (auto simp: Elf64Phdr_verify_def file_range_try_from_Ok addr_range_try_from_Ok not_less
      split: if_splits result.splits)

lemma verify_phdr_wpR: "wpR (verify_phdr phdr len) (\<lambda>_. phdr_ok phdr len)"
proof (cases "p_type phdr = PT_NULL \<or> Elf64Phdr_verify phdr \<noteq> Ok ()")
  case True
  then show ?thesis by (cases "Elf64Phdr_verify phdr") (auto simp: verify_phdr_def phdr_ok_def)
next
  case False
  then have "Elf64Phdr_verify phdr = Ok ()" "p_type phdr \<noteq> PT_NULL" by auto
  note V = this Elf64Phdr_verify_Ok [OF this]
  have "Elf64Phdr_file_range phdr = Some \<lparr> offset_begin = unat (p_offset phdr),
      offset_end = unat (p_offset phdr) + unat (p_filesz phdr) \<rparr>"
    using V(5) by (simp add: Elf64Phdr_file_range_def file_range_try_from_Ok)
  then show ?thesis using V by (simp add: verify_phdr_def phdr_ok_def)
qed

lemma read_verified_phdr_wpR:
  assumes "phdrs_in_file hdr (length buf)" and "unat i < unat (e_phnum hdr)" and "length buf \<le> usize_max"
  shows "wpR (read_verified_phdr buf hdr i)
    (\<lambda>phdr. read_phdr_from_file buf hdr i = Some phdr \<and> phdr_ok phdr (length buf))"
proof -
  obtain phdr where phdr: "read_phdr_from_file buf hdr i = Some phdr" using read_phdr_total [OF assms] by blast
  show ?thesis using verify_phdr_wpR [of phdr "length buf"] by (simp add: read_verified_phdr_def phdr)
qed

text \<open>A verified section header that is neither null nor without data lies in the file.\<close>

definition shdr_ok :: "Elf64Shdr \<Rightarrow> nat \<Rightarrow> bool" where
  "shdr_ok shdr len \<longleftrightarrow> sh_type shdr \<noteq> SHT_NULL \<and> sh_type shdr \<noteq> SHT_NOBITS \<longrightarrow>
     Elf64Shdr_file_range shdr =
       Some \<lparr> offset_begin = unat (sh_offset shdr), offset_end = unat (sh_offset shdr) + unat (sh_size shdr) \<rparr>
     \<and> unat (sh_offset shdr) + unat (sh_size shdr) \<le> len"

lemma Elf64Shdr_verify_Ok:
  assumes "Elf64Shdr_verify shdr = Ok ()" and "sh_type shdr \<noteq> SHT_NULL"
  shows "\<exists>r. Elf64Shdr_file_range_checked shdr = Ok r"
  using assms by (auto simp: Elf64Shdr_verify_def split: if_splits result.splits)

lemma verify_shdr_wpR: "wpR (verify_shdr shdr len shnum) (\<lambda>_. shdr_ok shdr len)"
proof (cases "sh_type shdr = SHT_NULL \<or> Elf64Shdr_verify shdr \<noteq> Ok ()")
  case True
  then show ?thesis by (cases "Elf64Shdr_verify shdr") (auto simp: verify_shdr_def shdr_ok_def)
next
  case False
  then have V: "Elf64Shdr_verify shdr = Ok ()" "sh_type shdr \<noteq> SHT_NULL" by auto
  then obtain r where r: "Elf64Shdr_file_range_checked shdr = Ok r" using Elf64Shdr_verify_Ok by blast
  then have fr: "Elf64Shdr_file_range shdr = Some r" by (simp add: Elf64Shdr_file_range_def)
  have "r = \<lparr> offset_begin = unat (sh_offset shdr), offset_end = unat (sh_offset shdr) + unat (sh_size shdr) \<rparr>"
    if "sh_type shdr \<noteq> SHT_NOBITS"
    using r that by (simp add: Elf64Shdr_file_range_checked_def file_range_try_from_Ok)
  then show ?thesis using V fr by (simp add: verify_shdr_def shdr_ok_def)
qed

lemma read_verified_shdr_wpR:
  assumes "shdrs_in_file hdr (length buf)" and "unat i < unat (e_shnum hdr)" and "length buf \<le> usize_max"
  shows "wpR (read_verified_shdr buf hdr i) (\<lambda>shdr. shdr_ok shdr (length buf))"
proof -
  obtain shdr where shdr: "read_shdr_from_file buf hdr i = Some shdr" using read_shdr_total [OF assms] by blast
  show ?thesis using verify_shdr_wpR [of shdr "length buf" "e_shnum hdr"] by (simp add: read_verified_shdr_def shdr)
qed

section \<open>Load segments\<close>

definition segs_ok :: "Elf64LoadSegments \<Rightarrow> bool" where
  "segs_ok segs \<longleftrightarrow> sorted_wrt (\<lambda>a b. vaddr_end (fst a) \<le> vaddr_begin (fst b)) segs
     \<and> (\<forall>s \<in> set segs. vaddr_begin (fst s) < vaddr_end (fst s))"

definition before :: "Elf64AddrRange \<Rightarrow> Elf64AddrRange \<times> u16 \<Rightarrow> bool" where
  "before r s \<longleftrightarrow> vaddr_end (fst s) \<le> vaddr_begin r"

lemma find_first_not_before_eq:
  "find_first_not_before segs r =
     (if dropWhile (before r) segs = [] then None else Some (length (takeWhile (before r) segs)))"
proof -
  have "(\<lambda>s. Elf64AddrRange_partial_cmp (fst s) r = Some Less) = before r"
    by (auto simp: Elf64AddrRange_partial_cmp_def before_def fun_eq_iff)
  moreover have "length (takeWhile (before r) segs) \<noteq> length segs \<longleftrightarrow> dropWhile (before r) segs \<noteq> []"
    by (metis append_Nil2 append_eq_conv_conj length_0_conv length_append self_append_conv takeWhile_dropWhile_id
        add_cancel_right_right)
  ultimately show ?thesis by (simp add: find_first_not_before_def partition_point_def Let_def)
qed

lemma nth_length_takeWhile_hd: "dropWhile P xs \<noteq> [] \<Longrightarrow> xs ! length (takeWhile P xs) = hd (dropWhile P xs)"
  by (metis hd_drop_conv_nth dropWhile_eq_drop drop_eq_Nil not_le)

lemma takeWhile_all: "x \<in> set (takeWhile P xs) \<Longrightarrow> P x"
  by (rule set_takeWhileD [THEN conjunct2])

text \<open>Insertion keeps the list sorted and disjoint, and is refused only for an overlap.\<close>

lemma try_insert_Ok:
  assumes ok: "segs_ok segs" and r: "vaddr_begin r < vaddr_end r" and ins: "try_insert r i segs = Ok segs'"
  shows "segs_ok segs'" "set segs' = insert (r, i) (set segs)"
proof -
  define A where "A = takeWhile (before r) segs"
  define B where "B = dropWhile (before r) segs"
  have AB: "segs = A @ B" by (simp add: A_def B_def)
  have ff: "find_first_not_before segs r = (if B = [] then None else Some (length A))"
    unfolding A_def B_def by (rule find_first_not_before_eq)
  have hd: "vaddr_end r \<le> vaddr_begin (fst (hd B))" if "B \<noteq> []"
    using ins that nth_length_takeWhile_hd [of "before r" segs]
    by (auto simp: try_insert_def ff Elf64AddrRange_partial_cmp_def A_def B_def split: if_splits)
  have segs': "segs' = A @ (r, i) # B"
    using ins unfolding try_insert_def ff by (cases "B = []") (auto simp: AB split: if_splits)
  show "set segs' = insert (r, i) (set segs)" by (auto simp: segs' AB)
  have S: "sorted_wrt (\<lambda>a b. vaddr_end (fst a) \<le> vaddr_begin (fst b)) (A @ B)"
    and N: "\<forall>s \<in> set (A @ B). vaddr_begin (fst s) < vaddr_end (fst s)"
    using ok by (simp_all add: segs_ok_def AB)
  have ge: "vaddr_end r \<le> vaddr_begin (fst b)" if b: "b \<in> set B" for b
  proof (cases B)
    case (Cons h t)
    have "vaddr_begin (fst h) \<le> vaddr_begin (fst b)"
    proof (cases "b = h")
      case False
      then have "vaddr_end (fst h) \<le> vaddr_begin (fst b)" using S b Cons by (simp add: sorted_wrt_append)
      moreover have "vaddr_begin (fst h) < vaddr_end (fst h)" using N Cons by simp
      ultimately show ?thesis by simp
    qed simp
    with hd show ?thesis using Cons by simp
  qed (use b in simp)
  have le: "vaddr_end (fst a) \<le> vaddr_begin r" if "a \<in> set A" for a
    using takeWhile_all [of a "before r" segs] that by (simp add: before_def A_def)
  show "segs_ok segs'"
    unfolding segs_ok_def segs' using S N r ge le by (simp add: sorted_wrt_append)
qed

lemma overlap_in_segs:
  assumes "segs_ok segs" and "dropWhile (before r) segs = h # t" and "s \<in> set segs"
    and "vaddr_begin r < vaddr_end (fst s)"
  shows "s = h \<or> vaddr_end (fst h) \<le> vaddr_begin (fst s)"
proof -
  let ?A = "takeWhile (before r) segs"
  have AB: "segs = ?A @ h # t" using assms(2) by (metis takeWhile_dropWhile_id)
  have "s \<notin> set ?A" using takeWhile_all [of s "before r" segs] assms(4) by (auto simp: before_def)
  then have "s = h \<or> s \<in> set t" using assms(3) AB by (metis Un_iff set_ConsD set_append)
  moreover have "sorted_wrt (\<lambda>a b. vaddr_end (fst a) \<le> vaddr_begin (fst b)) (?A @ h # t)"
    using assms(1) AB by (metis segs_ok_def)
  ultimately show ?thesis by (auto simp: sorted_wrt_append)
qed

text \<open>The lookup finds exactly the segment that contains a non-empty range.\<close>

lemma lookup_vaddr_range_eq:
  assumes ok: "segs_ok segs" and r: "vaddr_begin r < vaddr_end r"
  shows "lookup_vaddr_range segs r = Some (i, off) \<longleftrightarrow>
    (\<exists>s. (s, i) \<in> set segs \<and> vaddr_begin s \<le> vaddr_begin r \<and> vaddr_end r \<le> vaddr_end s
      \<and> off = vaddr_begin r - vaddr_begin s)"
proof (cases "dropWhile (before r) segs")
  case Nil
  have no: "\<not> vaddr_end r \<le> vaddr_end s" if "(s, i) \<in> set segs" for s i
  proof -
    have "before r (s, i)" using Nil that by (simp add: dropWhile_eq_Nil_conv)
    then have "vaddr_end s \<le> vaddr_begin r" by (simp add: before_def)
    also note r
    finally show ?thesis by simp
  qed
  have "lookup_vaddr_range segs r = None" using Nil by (simp add: lookup_vaddr_range_def find_first_not_before_eq)
  with no show ?thesis by auto
next
  case (Cons h t)
  have h: "h \<in> set segs" using Cons by (metis list.set_intros(1) set_dropWhileD)
  have at: "segs ! length (takeWhile (before r) segs) = h" using nth_length_takeWhile_hd [of "before r" segs] Cons by simp
  have lk: "lookup_vaddr_range segs r = (if vaddr_begin (fst h) \<le> vaddr_begin r \<and> vaddr_end r \<le> vaddr_end (fst h)
      then Some (snd h, vaddr_begin r - vaddr_begin (fst h)) else None)"
    using Cons by (simp add: lookup_vaddr_range_def find_first_not_before_eq at)
  have uniq: "(s, i) = h" if s: "(s, i) \<in> set segs" "vaddr_begin s \<le> vaddr_begin r" "vaddr_end r \<le> vaddr_end s" for s
  proof (rule ccontr)
    assume "(s, i) \<noteq> h"
    then have "vaddr_end (fst h) \<le> vaddr_begin s"
      using overlap_in_segs [OF ok Cons s(1)] s(2,3) r by simp
    moreover have "\<not> before r h" using Cons by (metis hd_dropWhile list.distinct(1) list.sel(1))
    ultimately show False using s(2) by (simp add: before_def)
  qed
  show ?thesis
  proof
    assume "lookup_vaddr_range segs r = Some (i, off)"
    then have "(fst h, i) \<in> set segs \<and> vaddr_begin (fst h) \<le> vaddr_begin r \<and> vaddr_end r \<le> vaddr_end (fst h)
        \<and> off = vaddr_begin r - vaddr_begin (fst h)"
      unfolding lk using h by (auto split: if_splits)
    then show "\<exists>s. (s, i) \<in> set segs \<and> vaddr_begin s \<le> vaddr_begin r \<and> vaddr_end r \<le> vaddr_end s
        \<and> off = vaddr_begin r - vaddr_begin s" by blast
  next
    assume "\<exists>s. (s, i) \<in> set segs \<and> vaddr_begin s \<le> vaddr_begin r \<and> vaddr_end r \<le> vaddr_end s
        \<and> off = vaddr_begin r - vaddr_begin s"
    then obtain s where s: "(s, i) \<in> set segs" "vaddr_begin s \<le> vaddr_begin r" "vaddr_end r \<le> vaddr_end s"
      "off = vaddr_begin r - vaddr_begin s" by blast
    have "h = (s, i)" using uniq [OF s(1-3)] by simp
    then show "lookup_vaddr_range segs r = Some (i, off)" unfolding lk using s by simp
  qed
qed

section \<open>Reading a file\<close>

text \<open>A load segment comes from a non-empty loadable program header.\<close>

definition segment_of :: "u8 list \<Rightarrow> Elf64Hdr \<Rightarrow> Elf64AddrRange \<Rightarrow> u16 \<Rightarrow> bool" where
  "segment_of buf hdr r i \<longleftrightarrow> (\<exists>phdr. read_phdr_from_file buf hdr i = Some phdr \<and> phdr_ok phdr (length buf)
     \<and> p_type phdr = PT_LOAD \<and> p_memsz phdr \<noteq> 0 \<and> Elf64Phdr_vaddr_range phdr = Some r)"

definition align_ok :: "u64 \<Rightarrow> bool" where
  "align_ok a \<longleftrightarrow> a = 0 \<or> is_power_of_two a"

definition dynamic_range :: "Elf64Phdr \<Rightarrow> Elf64FileRange" where
  "dynamic_range phdr = \<lparr> offset_begin = unat (p_offset phdr), offset_end = unat (p_offset phdr) + unat (p_filesz phdr) \<rparr>"

definition dynamic_from :: "u8 list \<Rightarrow> Elf64Hdr \<Rightarrow> nat \<Rightarrow> Elf64FileRange option \<Rightarrow> bool" where
  "dynamic_from buf hdr n dyn \<longleftrightarrow> (\<forall>fr. dyn = Some fr \<longrightarrow>
     (\<exists>i phdr. unat i < n \<and> read_phdr_from_file buf hdr i = Some phdr \<and> p_type phdr = PT_DYNAMIC
       \<and> fr = dynamic_range phdr))"

definition scan_inv ::
  "u8 list \<Rightarrow> Elf64Hdr \<Rightarrow> nat \<Rightarrow> Elf64LoadSegments \<times> u64 \<times> Elf64FileRange option \<Rightarrow> bool" where
  "scan_inv buf hdr n = (\<lambda>(segs, align', dyn). segs_ok segs
     \<and> (\<forall>r i. (r, i) \<in> set segs \<longleftrightarrow> unat i < n \<and> segment_of buf hdr r i)
     \<and> align_ok align' \<and> dynamic_from buf hdr n dyn)"

lemma PT_distinct [simp]: "PT_LOAD \<noteq> PT_NULL" "PT_DYNAMIC \<noteq> PT_NULL" "PT_DYNAMIC \<noteq> PT_LOAD"
  by (simp_all add: PT_LOAD_def PT_NULL_def PT_DYNAMIC_def)

lemma phdr_vaddr_range:
  assumes "phdr_ok phdr len" and "p_type phdr \<noteq> PT_NULL"
  shows "Elf64Phdr_vaddr_range phdr = Some \<lparr> vaddr_begin = p_vaddr phdr, vaddr_end = p_vaddr phdr + p_memsz phdr \<rparr>"
    and "unat (p_vaddr phdr + p_memsz phdr) = unat (p_vaddr phdr) + unat (p_memsz phdr)"
    and "p_vaddr phdr = p_vaddr phdr + p_memsz phdr \<longleftrightarrow> p_memsz phdr = 0"
  using assms by (auto simp: phdr_ok_def Elf64Phdr_vaddr_range_def addr_range_try_from_Ok unat_word_ariths)

lemma phdr_file_range:
  assumes "phdr_ok phdr len" and "p_type phdr \<noteq> PT_NULL"
  shows "Elf64Phdr_file_range phdr = Some (dynamic_range phdr)"
  using assms by (simp add: phdr_ok_def Elf64Phdr_file_range_def file_range_try_from_Ok dynamic_range_def)

lemma dynamic_from_mono: "dynamic_from buf hdr n dyn \<Longrightarrow> n \<le> m \<Longrightarrow> dynamic_from buf hdr m dyn"
  unfolding dynamic_from_def by (blast intro: less_le_trans)

text \<open>A header that is no segment leaves the list of segments as it is.\<close>

lemma scan_inv_skip:
  assumes "scan_inv buf hdr n (segs, align', dyn)" and "read_phdr_from_file buf hdr i = Some phdr"
    and "unat i = n" and "p_type phdr \<noteq> PT_LOAD \<or> p_memsz phdr = 0" and "dynamic_from buf hdr (Suc n) dyn'"
  shows "scan_inv buf hdr (Suc n) (segs, align', dyn')"
proof -
  have "\<not> segment_of buf hdr r j" if "unat j = n" for r j
    using assms(2,3,4) that by (auto simp: segment_of_def word_unat_eq_iff [symmetric])
  then show ?thesis using assms(1,5) unfolding scan_inv_def by (auto simp: less_Suc_eq)
qed

lemma scan_inv_load:
  assumes inv: "scan_inv buf hdr n (segs, align', dyn)" and phdr: "read_phdr_from_file buf hdr i = Some phdr"
    and ok: "phdr_ok phdr (length buf)" and i: "unat i = n" and ty: "p_type phdr = PT_LOAD" and ne: "p_memsz phdr \<noteq> 0"
    and vr: "Elf64Phdr_vaddr_range phdr = Some r" and ins: "try_insert r i segs = Ok segs'"
  shows "scan_inv buf hdr (Suc n) (segs', max align' (p_align phdr), dyn)"
proof -
  have ok_segs: "segs_ok segs" and mem: "\<And>r i. (r, i) \<in> set segs \<longleftrightarrow> unat i < n \<and> segment_of buf hdr r i"
    and al: "align_ok align'" and dy: "dynamic_from buf hdr (Suc n) dyn"
    using inv dynamic_from_mono [of buf hdr n dyn "Suc n"] by (auto simp: scan_inv_def)
  have r: "r = \<lparr> vaddr_begin = p_vaddr phdr, vaddr_end = p_vaddr phdr + p_memsz phdr \<rparr>"
    using phdr_vaddr_range(1) [OF ok] vr ty by simp
  have "vaddr_begin r < vaddr_end r"
    using phdr_vaddr_range(2) [OF ok] ty ne unfolding r word_less_nat_alt by (simp add: unat_gt_0)
  note T = try_insert_Ok [OF ok_segs this ins]
  have "segment_of buf hdr r' j \<longleftrightarrow> r' = r" if "unat j = n" for r' j
    using that i phdr ok ty ne vr by (auto simp: segment_of_def word_unat_eq_iff [symmetric])
  then have "(r', j) \<in> set segs' \<longleftrightarrow> unat j < Suc n \<and> segment_of buf hdr r' j" for r' j
    unfolding T(2) using mem i by (auto simp: less_Suc_eq word_unat_eq_iff)
  moreover have "align_ok (max align' (p_align phdr))"
    using al ok ty by (auto simp: align_ok_def phdr_ok_def max_def)
  ultimately show ?thesis using T(1) dy by (simp add: scan_inv_def)
qed

lemma scan_phdr_wpR:
  assumes ph: "phdrs_in_file hdr (length buf)" and len: "length buf \<le> usize_max" and n: "n < unat (e_phnum hdr)"
    and inv: "scan_inv buf hdr n s"
  shows "wpR (scan_phdr buf hdr n s) (scan_inv buf hdr (Suc n))"
proof -
  obtain segs align' dyn where s: "s = (segs, align', dyn)" by (cases s)
  have i: "unat (of_nat n :: u16) = n" using n by (rule unat_of_nat_lt)
  have dy: "dynamic_from buf hdr (Suc n) dyn" using inv dynamic_from_mono [of buf hdr n dyn "Suc n"] by (auto simp: s scan_inv_def)
  have step: "wpR (if p_type phdr = PT_LOAD then do {
         vaddr_range \<leftarrow> Elf64Phdr_vaddr_range phdr;
         if vaddr_begin vaddr_range = vaddr_end vaddr_range then Some (Ok (segs, align', dyn))
         else (case try_insert vaddr_range (of_nat n) segs of
                 Err _ \<Rightarrow> Some (Err ElfError_LoadSegmentConflict)
               | Ok segs \<Rightarrow> Some (Ok (segs, max align' (p_align phdr), dyn)))
       }
       else if p_type phdr = PT_DYNAMIC then
         (if dyn \<noteq> None then Some (Err ElfError_DynamicPhdrConflict)
          else do {
            file_range \<leftarrow> Elf64Phdr_file_range phdr;
            Some (Ok (segs, align', Some file_range))
          })
       else Some (Ok (segs, align', dyn))) (scan_inv buf hdr (Suc n))"
    if phdr: "read_phdr_from_file buf hdr (of_nat n) = Some phdr" and ok: "phdr_ok phdr (length buf)" for phdr
  proof -
    note skip = scan_inv_skip [OF inv [unfolded s] phdr i]
    consider (load) "p_type phdr = PT_LOAD" | (dynamic) "p_type phdr = PT_DYNAMIC"
      | (other) "p_type phdr \<noteq> PT_LOAD" "p_type phdr \<noteq> PT_DYNAMIC" by blast
    then show ?thesis
    proof cases
      case load
      note V = phdr_vaddr_range [OF ok, unfolded load, OF PT_distinct(1)]
      show ?thesis
      proof (cases "p_memsz phdr = 0")
        case True
        then show ?thesis using load V(1) skip [OF _ dy] by simp
      next
        case False
        then show ?thesis using load V(1,3) scan_inv_load [OF inv [unfolded s] phdr ok i load False V(1)]
          by (auto split: result.split)
      qed
    next
      case dynamic
      have "dynamic_from buf hdr (Suc n) (Some (dynamic_range phdr))"
        unfolding dynamic_from_def using phdr i dynamic by (auto intro!: exI [of _ "of_nat n"])
      then show ?thesis using dynamic phdr_file_range [OF ok] skip by (auto simp: option.case_eq_if)
    next
      case other
      then show ?thesis using skip [OF _ dy] by simp
    qed
  qed
  have "wpR (read_verified_phdr buf hdr (of_nat n))
     (\<lambda>phdr. read_phdr_from_file buf hdr (of_nat n) = Some phdr \<and> phdr_ok phdr (length buf))"
    using read_verified_phdr_wpR [OF ph _ len, of "of_nat n"] i n by simp
  then show ?thesis
    unfolding scan_phdr_def s prod.case wpR_bindR by (rule wpR_mono) (use step in blast)
qed

text \<open>The section headers.\<close>

lemma resolve_shnum_wpR:
  assumes "length buf \<le> usize_max"
  shows "wpR (resolve_shnum buf hdr) (\<lambda>hdr'. shdrs_in_file hdr' (length buf) \<and> (\<exists>n. hdr' = hdr\<lparr>e_shnum := n\<rparr>))"
proof (cases "64 \<le> unat (e_shentsize hdr)")
  case False
  then show ?thesis by (simp add: resolve_shnum_def)
next
  case big: True
  have chk: "wpR (Some (check_section_header_table_bounds h (length buf)))
      (\<lambda>_. shdrs_in_file h (length buf))" if "e_shentsize h = e_shentsize hdr" for h
    using check_section_header_table_bounds_Ok [of h "length buf"] big that
    by (cases "check_section_header_table_bounds h (length buf)") auto
  show ?thesis
  proof (cases "e_shnum hdr = 0 \<and> e_shoff hdr \<noteq> 0")
    case False
    have "hdr = hdr\<lparr>e_shnum := e_shnum hdr\<rparr>" by simp
    then have "wpR (Some (check_section_header_table_bounds hdr (length buf)))
        (\<lambda>_. shdrs_in_file hdr (length buf) \<and> (\<exists>n. hdr = hdr\<lparr>e_shnum := n\<rparr>))"
      using chk [of hdr] by (blast intro: wpR_mono)
    then show ?thesis using big unfolding resolve_shnum_def if_not_P [OF False] by simp
  next
    case True
    let ?h = "hdr\<lparr>e_shnum := 1\<rparr>"
    show ?thesis
    proof (cases "check_section_header_table_bounds ?h (length buf)")
      case (Ok u)
      then have "shdrs_in_file ?h (length buf)" using chk [of ?h] by simp
      then obtain shdr0 where "read_shdr_from_file buf ?h 0 = Some shdr0"
        using read_shdr_total [OF _ _ assms, of ?h 0] by auto
      moreover have "wpR (Some (check_section_header_table_bounds (hdr\<lparr>e_shnum := n\<rparr>) (length buf)))
          (\<lambda>_. shdrs_in_file (hdr\<lparr>e_shnum := n\<rparr>) (length buf) \<and> (\<exists>m. hdr\<lparr>e_shnum := n\<rparr> = hdr\<lparr>e_shnum := m\<rparr>))" for n
        by (rule wpR_mono [OF chk]) auto
      ultimately show ?thesis using big True Ok by (simp add: resolve_shnum_def)
    qed (use big True in \<open>simp add: resolve_shnum_def\<close>)
  qed
qed

lemma resolve_shstrndx_wpR:
  assumes "shdrs_in_file hdr (length buf)" and "length buf \<le> usize_max"
  shows "wpR (resolve_shstrndx buf hdr) (\<lambda>hdr'. \<exists>n. hdr' = hdr\<lparr>e_shstrndx := n\<rparr>)"
proof -
  have "hdr = hdr\<lparr>e_shstrndx := e_shstrndx hdr\<rparr>" by simp
  then have self: "\<exists>n. hdr = hdr\<lparr>e_shstrndx := n\<rparr>" by blast
  show ?thesis
  proof (cases "e_shnum hdr = 0 \<or> e_shstrndx hdr \<noteq> SHN_XINDEX")
    case True
    then show ?thesis using self by (auto simp: resolve_shstrndx_def)
  next
    case False
    then obtain shdr0 where "read_shdr_from_file buf hdr 0 = Some shdr0"
      using read_shdr_total [OF assms(1) _ assms(2), of 0] by (auto simp: unat_gt_0)
    then show ?thesis using False by (auto simp: resolve_shstrndx_def)
  qed
qed

text \<open>Section contents of a verified header can be sliced out of the file.\<close>

lemma SHT_distinct [simp]: "SHT_STRTAB \<noteq> SHT_NULL" "SHT_STRTAB \<noteq> SHT_NOBITS" "SHT_SYMTAB \<noteq> SHT_NULL" "SHT_SYMTAB \<noteq> SHT_NOBITS"
  by (simp_all add: SHT_STRTAB_def SHT_NULL_def SHT_NOBITS_def SHT_SYMTAB_def)

lemma shdr_ok_slice:
  assumes "shdr_ok shdr (length buf)" and "sh_type shdr \<noteq> SHT_NULL" and "sh_type shdr \<noteq> SHT_NOBITS"
  obtains rng where "Elf64Shdr_file_range shdr = Some rng" and "offset_begin rng \<le> offset_end rng" and "offset_end rng \<le> length buf"
  using assms by (auto simp: shdr_ok_def)

lemma scan_shdr_wpR:
  assumes "shdrs_in_file hdr (length buf)" and "length buf \<le> usize_max" and n: "n < unat (e_shnum hdr)"
  shows "wpR (scan_shdr buf hdr n s) (\<lambda>_. True)"
proof -
  have "unat (of_nat n :: u32) < unat (e_shnum hdr)" using n unat_of_nat_lt [OF n] by simp
  note R = read_verified_shdr_wpR [OF assms(1) this assms(2)]
  show ?thesis unfolding scan_shdr_def wpR_bindR
  proof (rule wpR_mono [OF R])
    fix shdr assume ok: "shdr_ok shdr (length buf)"
    show "wpR (if e_shstrndx hdr \<noteq> SHN_UNDEF \<and> of_nat n = e_shstrndx hdr then
         (if sh_type shdr \<noteq> SHT_STRTAB then Some (Err ElfError_IncompatibleSectionType)
          else do {
            rng \<leftarrow> Elf64Shdr_file_range shdr;
            strtab_buf \<leftarrow> slice (offset_begin rng) (offset_end rng) buf;
            Some (Ok (Some strtab_buf))
          })
       else Some (Ok s)) (\<lambda>_. True)"
    proof (cases "sh_type shdr = SHT_STRTAB")
      case True
      with shdr_ok_slice [OF ok] show ?thesis by fastforce
    qed simp
  qed
qed

lemma find_symtab_wpR:
  assumes "shdrs_in_file hdr (length buf)" and "length buf \<le> usize_max" and "\<forall>i \<in> set is. i < unat (e_shnum hdr)"
  shows "wpR (find_symtab buf hdr is) (\<lambda>_. True)"
  using assms(3)
proof (induction "is")
  case (Cons i "is")
  have "unat (of_nat i :: u32) < unat (e_shnum hdr)" using Cons.prems unat_of_nat_lt [of i "e_shnum hdr"] by simp
  note R = read_verified_shdr_wpR [OF assms(1) this assms(2)]
  show ?case unfolding find_symtab.simps wpR_bindR
  proof (rule wpR_mono [OF R])
    fix shdr assume ok: "shdr_ok shdr (length buf)"
    show "wpR (if sh_type shdr \<noteq> SHT_SYMTAB then find_symtab buf hdr is
       else do {
         rng \<leftarrow> Elf64Shdr_file_range shdr;
         syms \<leftarrow> slice (offset_begin rng) (offset_end rng) buf;
         bindR (Some (Elf64Symtab_new syms (sh_entsize shdr))) (\<lambda>symtab. Some (Ok (Some symtab)))
       }) (\<lambda>_. True)"
    proof (cases "sh_type shdr = SHT_SYMTAB")
      case True
      then obtain rng where "Elf64Shdr_file_range shdr = Some rng" "offset_begin rng \<le> offset_end rng" "offset_end rng \<le> length buf"
        using shdr_ok_slice [OF ok] by auto
      with True show ?thesis by simp
    qed (use Cons in simp)
  qed
qed simp

lemma get_str_wpR: "wpR (Elf64Strtab_get_str b i) (\<lambda>_. True)"
  by (simp add: Elf64Strtab_get_str_def)

lemma find_strtab_in_wpR:
  assumes "shdrs_in_file hdr (length buf)" and "length buf \<le> usize_max" and "\<forall>i \<in> set is. i < unat (e_shnum hdr)"
  shows "wpR (find_strtab_in buf hdr shstr is) (\<lambda>_. True)"
  using assms(3)
proof (induction "is")
  case (Cons i "is")
  have "unat (of_nat i :: u32) < unat (e_shnum hdr)" using Cons.prems unat_of_nat_lt [of i "e_shnum hdr"] by simp
  note R = read_verified_shdr_wpR [OF assms(1) this assms(2)]
  show ?case unfolding find_strtab_in.simps wpR_bindR
  proof (rule wpR_mono [OF R])
    fix shdr assume ok: "shdr_ok shdr (length buf)"
    show "wpR (if sh_type shdr \<noteq> SHT_STRTAB then find_strtab_in buf hdr shstr is
       else bindR (Elf64Strtab_get_str shstr (sh_name shdr)) (\<lambda>name.
         if name \<noteq> strtab_name then find_strtab_in buf hdr shstr is
         else do {
           rng \<leftarrow> Elf64Shdr_file_range shdr;
           strs \<leftarrow> slice (offset_begin rng) (offset_end rng) buf;
           Some (Ok (Some strs))
         })) (\<lambda>_. True)"
    proof (cases "sh_type shdr = SHT_STRTAB")
      case True
      then obtain rng where "Elf64Shdr_file_range shdr = Some rng" "offset_begin rng \<le> offset_end rng" "offset_end rng \<le> length buf"
        using shdr_ok_slice [OF ok] by auto
      then show ?thesis using True Cons by (auto intro: wpR_mono [OF get_str_wpR])
    qed (use Cons in simp)
  qed
qed simp

text \<open>The dynamic section: with full entries nothing panics.\<close>

lemma dynamic_scan_wpR:
  assumes "\<forall>e \<in> set es. length e = 16"
  shows "wpR (dynamic_scan es fm) (\<lambda>_. True)"
  using assms
proof (induction es arbitrary: fm)
  case (Cons e es)
  have "rd_u64 0 e \<noteq> None" "rd_u64 8 e \<noteq> None" using Cons.prems by (simp_all add: rd_u64_def)
  then obtain t v where "rd_u64 0 e = Some t" "rd_u64 8 e = Some v" by auto
  then show ?case using Cons by simp
qed simp

lemma Elf64Dynamic_read_wpR:
  assumes "16 dvd length buf"
  shows "wpR (Elf64Dynamic_read buf) (\<lambda>_. True)"
proof -
  have "wpR (dynamic_scan (chunks 16 buf) (\<lambda>_. None)) (\<lambda>_. True)"
    using chunks_full [OF assms] by (intro dynamic_scan_wpR) simp
  then show ?thesis unfolding Elf64Dynamic_read_def wpR_bindR
    by (rule wpR_mono) (auto simp: dynamic_rela_def dynamic_symtab_def dynamic_required_def)
qed

text \<open>
  The condition on the dynamic section: a \<open>PT_DYNAMIC\<close> header has its contents in the file and
  consists of whole entries.  The parser does not check this itself.
\<close>

definition dynamic_whole :: "u8 list \<Rightarrow> bool" where
  "dynamic_whole buf \<longleftrightarrow>
     (case Elf64Hdr_read buf of
        Some (Ok hdr) \<Rightarrow>
          list_all (\<lambda>i. case read_phdr_from_file buf hdr (of_nat i) of
              Some phdr \<Rightarrow> p_type phdr = PT_DYNAMIC \<longrightarrow>
                unat (p_offset phdr) + unat (p_filesz phdr) \<le> length buf \<and> 16 dvd unat (p_filesz phdr)
            | None \<Rightarrow> True) [0 ..< unat (e_phnum hdr)]
      | _ \<Rightarrow> True)"

lemma dynamic_wholeD:
  assumes "dynamic_whole buf" and "Elf64Hdr_read buf = Some (Ok hdr)" and i: "unat i < unat (e_phnum hdr)"
    and "read_phdr_from_file buf hdr i = Some phdr" and "p_type phdr = PT_DYNAMIC"
  shows "unat (p_offset phdr) + unat (p_filesz phdr) \<le> length buf" "16 dvd unat (p_filesz phdr)"
proof -
  have "(of_nat (unat i) :: u16) = i" by simp
  then have "case read_phdr_from_file buf hdr i of
              Some phdr \<Rightarrow> p_type phdr = PT_DYNAMIC \<longrightarrow>
                unat (p_offset phdr) + unat (p_filesz phdr) \<le> length buf \<and> 16 dvd unat (p_filesz phdr)
            | None \<Rightarrow> True"
    using assms(1,2) i by (auto simp: dynamic_whole_def list_all_iff dest!: bspec [of _ _ "unat i"])
  then show "unat (p_offset phdr) + unat (p_filesz phdr) \<le> length buf" "16 dvd unat (p_filesz phdr)"
    using assms(4,5) by simp_all
qed

lemma read_dynamic_wpR:
  assumes "dynamic_whole buf" and hdr: "Elf64Hdr_read buf = Some (Ok hdr)"
    and "dynamic_from buf hdr (unat (e_phnum hdr)) dyn"
  shows "wpR (read_dynamic buf dyn) (\<lambda>_. True)"
proof (cases dyn)
  case (Some fr)
  then obtain i phdr where p: "unat i < unat (e_phnum hdr)" "read_phdr_from_file buf hdr i = Some phdr"
    "p_type phdr = PT_DYNAMIC" "fr = dynamic_range phdr"
    using assms(3) by (auto simp: dynamic_from_def)
  note D = dynamic_wholeD [OF assms(1) hdr p(1-3)]
  let ?b = "take (unat (p_filesz phdr)) (drop (unat (p_offset phdr)) buf)"
  have "length ?b = unat (p_filesz phdr)" using D(1) by simp
  then have "wpR (Elf64Dynamic_read ?b) (\<lambda>_. True)" using D(2) by (intro Elf64Dynamic_read_wpR) simp
  then have "wpR (Elf64Dynamic_read ?b) (\<lambda>d. wpR (Some (Elf64Dynamic_verify d)) (\<lambda>_. True))" by simp
  then show ?thesis using D(1) p(4) Some by (simp add: read_dynamic_def dynamic_range_def)
qed (simp add: read_dynamic_def)

text \<open>What holds of every file that was read.\<close>

definition elf_wf :: "Elf64File \<Rightarrow> bool" where
  "elf_wf f \<longleftrightarrow> length (elf_file_buf f) \<le> usize_max
     \<and> phdrs_in_file (elf_hdr f) (length (elf_file_buf f)) \<and> shdrs_in_file (elf_hdr f) (length (elf_file_buf f))
     \<and> segs_ok (load_segments f)
     \<and> (\<forall>r i. (r, i) \<in> set (load_segments f) \<longleftrightarrow>
          unat i < unat (e_phnum (elf_hdr f)) \<and> segment_of (elf_file_buf f) (elf_hdr f) r i)
     \<and> align_ok (max_load_segment_align f)"

lemma hdr_update_simps [simp]:
  "read_phdr_from_file buf (hdr\<lparr>e_shnum := n\<rparr>) i = read_phdr_from_file buf hdr i"
  "read_phdr_from_file buf (hdr\<lparr>e_shstrndx := n\<rparr>) i = read_phdr_from_file buf hdr i"
  "segment_of buf (hdr\<lparr>e_shnum := n\<rparr>) r i = segment_of buf hdr r i"
  "segment_of buf (hdr\<lparr>e_shstrndx := n\<rparr>) r i = segment_of buf hdr r i"
  "phdrs_in_file (hdr\<lparr>e_shnum := n\<rparr>) = phdrs_in_file hdr"
  "phdrs_in_file (hdr\<lparr>e_shstrndx := n\<rparr>) = phdrs_in_file hdr"
  "shdrs_in_file (hdr\<lparr>e_shstrndx := n\<rparr>) = shdrs_in_file hdr"
  "dynamic_from buf (hdr\<lparr>e_shnum := n\<rparr>) k d = dynamic_from buf hdr k d"
  by (simp_all add: read_phdr_from_file_def segment_of_def phdrs_in_file_def shdrs_in_file_def
      dynamic_from_def fun_eq_iff)

lemma scan_phdrs_wpR:
  assumes "phdrs_in_file hdr (length buf)" and "length buf \<le> usize_max"
  shows "wpR (forR [0 ..< unat (e_phnum hdr)] (scan_phdr buf hdr) ([], 0, None)) (scan_inv buf hdr (unat (e_phnum hdr)))"
proof (rule wpR_forR_upt [where I = "scan_inv buf hdr"])
  show "scan_inv buf hdr 0 ([], 0, None)" by (simp add: scan_inv_def segs_ok_def align_ok_def dynamic_from_def)
qed (rule scan_phdr_wpR [OF assms])

lemma read_sections_wpR:
  assumes ph: "phdrs_in_file hdr (length buf)" and sh: "shdrs_in_file hdr (length buf)" and len: "length buf \<le> usize_max"
    and inv: "scan_inv buf hdr (unat (e_phnum hdr)) s" and dyn: "\<And>d. dynamic_from buf hdr (unat (e_phnum hdr)) d \<Longrightarrow> wpR (read_dynamic buf d) (\<lambda>_. True)"
  shows "wpR (read_sections buf hdr s) (\<lambda>f. elf_file_buf f = buf \<and> elf_wf f)"
proof -
  obtain segs al d where s: "s = (segs, al, d)" by (cases s)
  have rd: "wpR (read_dynamic buf d) (\<lambda>_. True)" using dyn inv by (simp add: s scan_inv_def)
  show ?thesis unfolding read_sections_def s prod.case wpR_bindR
  proof (rule wpR_mono [OF resolve_shstrndx_wpR [OF sh len]])
    fix h assume "\<exists>n. h = hdr\<lparr>e_shstrndx := n\<rparr>"
    then obtain n where h: "h = hdr\<lparr>e_shstrndx := n\<rparr>" by blast
    have sh': "shdrs_in_file h (length buf)" using sh by (simp add: h)
    have fin: "elf_wf \<lparr> elf_file_buf = buf, elf_hdr = h, load_segments = segs, max_load_segment_align = al,
        elf_sh_strtab = a, elf_symtab = b, elf_strtab = c, elf_dynamic = e \<rparr>" for a b c e
      using ph sh' len inv by (simp add: elf_wf_def h s scan_inv_def)
    have F: "wpR (find_strtab buf h x) (\<lambda>_. True)" for x
      by (cases x) (simp_all add: find_strtab_def find_strtab_in_wpR [OF sh' len])
    have "wpR (forR [0 ..< unat (e_shnum h)] (scan_shdr buf h) None) (\<lambda>_. True)"
      using scan_shdr_wpR [OF sh' len] by (intro wpR_forR) auto
    moreover have "wpR (find_symtab buf h [0 ..< unat (e_shnum h)]) (\<lambda>_. True)"
      by (rule find_symtab_wpR [OF sh' len]) simp
    ultimately show "wpR (forR [0 ..< unat (e_shnum h)] (scan_shdr buf h) None) (\<lambda>sh_strtab.
        wpR (find_symtab buf h [0 ..< unat (e_shnum h)]) (\<lambda>symtab.
        wpR (find_strtab buf h sh_strtab) (\<lambda>strtab.
        wpR (read_dynamic buf d) (\<lambda>dynamic.
        wpR (Some (Ok \<lparr> elf_file_buf = buf, elf_hdr = h, load_segments = segs, max_load_segment_align = al,
          elf_sh_strtab = sh_strtab, elf_symtab = symtab, elf_strtab = strtab, elf_dynamic = dynamic \<rparr>))
          (\<lambda>f. elf_file_buf f = buf \<and> elf_wf f)))))"
      using fin F rd by (auto elim!: wpR_mono)
  qed
qed

lemma Elf64File_read_wpR:
  assumes dyn: "dynamic_whole buf" and len: "length buf \<le> usize_max"
  shows "wpR (Elf64File_read buf) (\<lambda>f. elf_file_buf f = buf \<and> elf_wf f)"
proof -
  have main: "wpR (resolve_shnum buf hdr) (\<lambda>h. wpR (forR [0 ..< unat (e_phnum h)] (scan_phdr buf h) ([], 0, None))
      (\<lambda>s. wpR (read_sections buf h s) (\<lambda>f. elf_file_buf f = buf \<and> elf_wf f)))"
    if hdr: "Elf64Hdr_read buf = Some (Ok hdr)" and ph: "phdrs_in_file hdr (length buf)" for hdr
  proof (rule wpR_mono [OF resolve_shnum_wpR [OF len]])
    fix h assume "shdrs_in_file h (length buf) \<and> (\<exists>n. h = hdr\<lparr>e_shnum := n\<rparr>)"
    then obtain n where sh: "shdrs_in_file h (length buf)" and h: "h = hdr\<lparr>e_shnum := n\<rparr>" by blast
    have ph': "phdrs_in_file h (length buf)" using ph by (simp add: h)
    have "wpR (read_dynamic buf d) (\<lambda>_. True)" if "dynamic_from buf h (unat (e_phnum h)) d" for d
      using read_dynamic_wpR [OF dyn hdr] that by (simp add: h)
    then show "wpR (forR [0 ..< unat (e_phnum h)] (scan_phdr buf h) ([], 0, None))
      (\<lambda>s. wpR (read_sections buf h s) (\<lambda>f. elf_file_buf f = buf \<and> elf_wf f))"
      using read_sections_wpR [OF ph' sh len] by (blast intro: wpR_mono [OF scan_phdrs_wpR [OF ph' len]])
  qed
  have "wpR (Elf64Hdr_read buf) (\<lambda>hdr. Elf64Hdr_read buf = Some (Ok hdr))"
    using Elf64Hdr_read_total [of buf] by (cases "Elf64Hdr_read buf") (auto simp: wpR_def split: result.splits)
  then show ?thesis unfolding Elf64File_read_def wpR_bindR
  proof (rule wpR_mono)
    fix hdr assume hdr: "Elf64Hdr_read buf = Some (Ok hdr)"
    show "wpR (Some (check_program_header_table hdr (length buf))) (\<lambda>_. wpR (resolve_shnum buf hdr)
        (\<lambda>h. wpR (forR [0 ..< unat (e_phnum h)] (scan_phdr buf h) ([], 0, None))
        (\<lambda>s. wpR (read_sections buf h s) (\<lambda>f. elf_file_buf f = buf \<and> elf_wf f))))"
      using main [OF hdr check_program_header_table_Ok] by (cases "check_program_header_table hdr (length buf)") auto
  qed
qed

end
