(* ===== verification/Elf_Claims.thy ===== *)
theory Elf_Claims
  imports Elf_Properties
begin

text \<open>
  The properties of the ELF loader, each with an application to \<open>demo_elf\<close>: a position independent
  executable of 264 bytes with one load segment, a dynamic section and one relative relocation.
\<close>

section \<open>Symbols, relocations and the loaded image\<close>

lemma Elf64Sym_read_total: "24 \<le> length buf \<Longrightarrow> \<exists>sym. Elf64Sym_read buf = Some sym"
  by (simp add: Elf64Sym_read_def rd_defs)

lemma Elf64Rela_read_total: "24 \<le> length buf \<Longrightarrow> \<exists>rela. Elf64Rela_read buf = Some rela"
  by (simp add: Elf64Rela_read_def rd_defs)

lemma Elf64Symtab_new_Ok:
  assumes "Elf64Symtab_new buf ent = Ok t"
  shows "syms_buf t = buf" "syms_entsize t = unat ent" "24 \<le> unat ent" "unat (syms_num t) = length buf div unat ent"
  using assms by (auto simp: Elf64Symtab_new_def Let_def unat_of_nat split: if_splits)

lemma read_sym_in_range:
  assumes new: "Elf64Symtab_new buf ent = Ok t" and i: "i < syms_num t" and len: "length buf \<le> usize_max"
  shows "\<exists>sym. Elf64Symtab_read_sym t i = Some (Ok sym)"
proof -
  note N = Elf64Symtab_new_Ok [OF new]
  have "unat i < length buf div unat ent" using i N(4) by (simp add: word_less_nat_alt)
  note E = table_entry [OF this _ len, of 0 "unat ent", simplified]
  have "24 \<le> length (take (unat ent) (drop (unat i * unat ent) buf))" using E(4) N(3) by simp
  then obtain sym where "Elf64Sym_read (take (unat ent) (drop (unat i * unat ent) buf)) = Some sym"
    using Elf64Sym_read_total by blast
  then show ?thesis using i E N by (simp add: Elf64Symtab_read_sym_def not_less)
qed

lemma read_sym_off_by_one:
  assumes new: "Elf64Symtab_new buf ent = Ok t"
  shows "Elf64Symtab_read_sym t (syms_num t) = None"
proof -
  note N = Elf64Symtab_new_Ok [OF new]
  have "length buf < Suc (length buf div unat ent) * unat ent"
    using N(3) dividend_less_times_div [of "unat ent" "length buf"] by (simp add: algebra_simps)
  then have "slice (unat (syms_num t) * unat ent) (unat (syms_num t) * unat ent + unat ent) buf = None"
    unfolding slice_eq_None N(4) by simp
  then show ?thesis by (auto simp: Elf64Symtab_read_sym_def N bind_eq_None_conv)
qed

lemma x86_apply_relocation_Ok:
  assumes "x86_apply_relocation rela base v = Ok op"
  shows "reloc_dst op = r_offset rela + base" "reloc_value_len op \<in> {4, 8}" "length (reloc_value op) = 8"
  using assms by (auto simp: x86_apply_relocation_def Let_def u64_to_le_bytes_def split: if_splits)

lemma apply_rela_Ok:
  assumes "apply_rela proc it n = Some (Ok (Some op))"
  obtains rela v e s where "proc rela (ari_load_base it) v = Ok op"
    and "wadd (r_offset rela) (of_nat (reloc_value_len op)) = Some e"
    and "lookup_vaddr_range (ari_load_segments it) \<lparr> vaddr_begin = r_offset rela, vaddr_end = e \<rparr> = Some s"
  using assms by (auto simp: apply_rela_def bindR_eq_Ok split: if_splits option.splits)

lemma apply_dyn_relas_Ok:
  assumes "apply_dyn_relas f addr = Some (Ok (Some it))"
  shows "load_base f addr = Some (ari_load_base it)" "ari_load_segments it = load_segments f"
  using assms by (auto simp: apply_dyn_relas_def bindR_eq_Ok bind_eq_Some_conv split: option.splits)

text \<open>Alignments of load segments are powers of two.\<close>

lemma bit_word_top:
  fixes w :: u64
  assumes "2 ^ k \<le> unat w" and "unat w < 2 ^ Suc k"
  shows "bit w k"
proof -
  have "unat w div 2 ^ k = 1" using assms by (intro div_nat_eqI) simp_all
  then have "drop_bit k w = 1" unfolding word_unat_eq_iff unat_drop_bit_div by simp
  then show ?thesis by (simp add: bit_iff_odd_drop_bit)
qed

lemma pow2_mask:
  assumes "is_power_of_two w"
  obtains k where "k < 64" and "w = 2 ^ k" and "w - 1 = mask k"
proof -
  have w: "w \<noteq> 0" "w AND (w - 1) = 0" using assms by (simp_all add: is_power_of_two_def)
  then have "1 \<le> unat w" by (simp add: Suc_le_eq unat_gt_0)
  then obtain k where k: "2 ^ k \<le> unat w" "unat w < 2 ^ Suc k" using ex_power_ivl1 [of 2 "unat w"] by auto
  have "(2::nat) ^ k < 2 ^ 64" using k(1) unat_lt_u64 [of w] by simp
  then have k64: "k < 64" by (simp only: power_strict_increasing_iff)
  have "\<not> 2 ^ k < unat w"
  proof
    assume "2 ^ k < unat w"
    then have "bit (w - 1) k" using k w(1) by (intro bit_word_top) (simp_all add: unat_minus_one)
    moreover have "bit w k" using k by (rule bit_word_top)
    ultimately have "bit (w AND (w - 1)) k" by (simp add: bit_and_iff)
    with w(2) show False by simp
  qed
  then have "unat w = 2 ^ k" using k by simp
  then have "w = 2 ^ k" unfolding word_unat_eq_iff using unat_exp [where ?'a = 64, of k] k64 by simp
  with k64 show ?thesis by (intro that [of k]) (simp_all add: mask_eq_exp_minus_1)
qed

lemma image_load_addr_total:
  assumes "align_ok (max_load_segment_align f)"
  shows "\<exists>a. image_load_addr f addr = Some a \<and> (max_load_segment_align f \<noteq> 0 \<longrightarrow>
    unat a mod unat (max_load_segment_align f)
      = unat (vaddr_begin (total_vaddr_range (load_segments f))) mod unat (max_load_segment_align f)
    \<and> unat a div unat (max_load_segment_align f) = unat addr div unat (max_load_segment_align f))"
proof (cases "max_load_segment_align f = 0")
  case True
  then show ?thesis by (simp add: image_load_addr_def)
next
  case False
  let ?al = "max_load_segment_align f" and ?b = "vaddr_begin (total_vaddr_range (load_segments f))"
  have "is_power_of_two ?al" using assms False by (simp add: align_ok_def)
  then obtain k where k: "k < 64" "?al = 2 ^ k" "?al - 1 = mask k" by (rule pow2_mask)
  have al: "unat ?al = 2 ^ k" unfolding k(2) using k(1) by (simp add: unat_exp)
  have hi: "unat (addr AND NOT (?al - 1)) = unat addr div 2 ^ k * 2 ^ k" unfolding k(3) by (rule unat_and_not_mask)
  have lo: "unat (image_load_align_offset f) = unat ?b mod 2 ^ k"
    using False by (simp add: image_load_align_offset_def k(3) unat_and_mask)
  have "unat addr div 2 ^ k < 2 ^ 64 div 2 ^ k"
  proof (rule less_mult_imp_div_less)
    have "(2::nat) ^ 64 div 2 ^ k * 2 ^ k = 2 ^ 64" using k(1) by (intro dvd_div_mult_self le_imp_power_dvd) simp
    then show "unat addr < 2 ^ 64 div 2 ^ k * 2 ^ k" using unat_lt_u64 [of addr] by simp
  qed
  then have "Suc (unat addr div 2 ^ k) * 2 ^ k \<le> 2 ^ 64 div 2 ^ k * 2 ^ k" by (intro mult_le_mono1) simp
  also have "\<dots> \<le> 2 ^ 64" by simp
  finally have "unat addr div 2 ^ k * 2 ^ k + 2 ^ k \<le> 2 ^ 64" by (simp add: add.commute)
  moreover have "unat ?b mod 2 ^ k < 2 ^ k" by simp
  ultimately have "unat addr div 2 ^ k * 2 ^ k + unat ?b mod 2 ^ k < 2 ^ 64" by linarith
  then obtain a where a: "wadd (addr AND NOT (?al - 1)) (image_load_align_offset f) = Some a"
    by (simp add: wadd_def hi lo)
  have "unat a = unat addr div 2 ^ k * 2 ^ k + unat ?b mod 2 ^ k" using unat_wadd [OF a] hi lo by simp
  then show ?thesis using a False al by (simp add: image_load_addr_def)
qed

text \<open>The contents of a load segment.\<close>

lemma image_load_segment_next_eq:
  assumes wf: "elf_wf f" and cur: "cur < length (load_segments f)" and phdr: "read_phdr f (snd (load_segments f ! cur)) = Some phdr"
    and off: "p_filesz phdr \<noteq> 0 \<or> unat (p_offset phdr) \<le> length (elf_file_buf f)" and len: "cur < usize_max"
  shows "image_load_segment_next f base cur = Some (Some \<lparr>
      ils_vaddr_range = \<lparr> vaddr_begin = vaddr_begin (fst (load_segments f ! cur)) + base,
        vaddr_end = vaddr_end (fst (load_segments f ! cur)) + base \<rparr>,
      ils_file_range = dynamic_range phdr,
      ils_file_contents = take (unat (p_filesz phdr)) (drop (unat (p_offset phdr)) (elf_file_buf f)),
      ils_flags = p_flags phdr \<rparr>, Suc cur)"
    and "unat (p_offset phdr) + unat (p_filesz phdr) \<le> length (elf_file_buf f)"
    and "p_filesz phdr \<le> vaddr_end (fst (load_segments f ! cur)) - vaddr_begin (fst (load_segments f ! cur))"
proof -
  obtain r i where ri: "load_segments f ! cur = (r, i)" by (cases "load_segments f ! cur")
  then have "(r, i) \<in> set (load_segments f)" using cur by (metis nth_mem)
  then have "segment_of (elf_file_buf f) (elf_hdr f) r i" using wf by (simp add: elf_wf_def)
  then have P: "phdr_ok phdr (length (elf_file_buf f))" "p_type phdr = PT_LOAD" "Elf64Phdr_vaddr_range phdr = Some r"
    using phdr by (auto simp: segment_of_def ri read_phdr_def)
  have nn: "p_type phdr \<noteq> PT_NULL" using P(2) by simp
  have r: "r = \<lparr> vaddr_begin = p_vaddr phdr, vaddr_end = p_vaddr phdr + p_memsz phdr \<rparr>"
    using phdr_vaddr_range(1) [OF P(1) nn] P(3) by simp
  show le: "unat (p_offset phdr) + unat (p_filesz phdr) \<le> length (elf_file_buf f)"
    using P(1,2) off by (cases "p_filesz phdr = 0") (auto simp: phdr_ok_def)
  show "p_filesz phdr \<le> vaddr_end (fst (load_segments f ! cur)) - vaddr_begin (fst (load_segments f ! cur))"
    using P(1,2) by (simp add: ri r phdr_ok_def)
  show "image_load_segment_next f base cur = Some (Some \<lparr>
      ils_vaddr_range = \<lparr> vaddr_begin = vaddr_begin (fst (load_segments f ! cur)) + base,
        vaddr_end = vaddr_end (fst (load_segments f ! cur)) + base \<rparr>,
      ils_file_range = dynamic_range phdr,
      ils_file_contents = take (unat (p_filesz phdr)) (drop (unat (p_offset phdr)) (elf_file_buf f)),
      ils_flags = p_flags phdr \<rparr>, Suc cur)"
    using cur len phdr le P(3) phdr_file_range [OF P(1) nn]
    by (simp add: image_load_segment_next_def ri dynamic_range_def)
qed

section \<open>A concrete file\<close>

definition demo_elf :: "u8 list" where
  "demo_elf =
     [0x7f, 0x45, 0x4c, 0x46, 2, 1, 1, 0, 0, 0, 0, 0, 0, 0, 0, 0]
     @ to_le 2 2 @ to_le 2 62 @ to_le 4 1 @ to_le 8 0x1000 @ to_le 8 64 @ to_le 8 0
     @ to_le 4 0 @ to_le 2 64 @ to_le 2 56 @ to_le 2 2 @ to_le 2 64 @ to_le 2 0 @ to_le 2 0
     @ to_le 4 1 @ to_le 4 7 @ to_le 8 0 @ to_le 8 0x1000 @ to_le 8 0x1000 @ to_le 8 264 @ to_le 8 0x2000 @ to_le 8 0x1000
     @ to_le 4 2 @ to_le 4 6 @ to_le 8 176 @ to_le 8 0x10b0 @ to_le 8 0x10b0 @ to_le 8 64 @ to_le 8 64 @ to_le 8 8
     @ to_le 8 7 @ to_le 8 0x10f0 @ to_le 8 8 @ to_le 8 24 @ to_le 8 9 @ to_le 8 24 @ to_le 8 0 @ to_le 8 0
     @ to_le 8 0x1800 @ to_le 8 8 @ to_le 8 0x1234"

definition demo_hdr :: Elf64Hdr where
  "demo_hdr = \<lparr> e_ident = [0x7f, 0x45, 0x4c, 0x46, 2, 1, 1, 0, 0, 0, 0, 0, 0, 0, 0, 0], e_type = 2, e_machine = 62,
     e_version = 1, e_entry = 0x1000, e_phoff = 64, e_shoff = 0, e_flags = 0, e_ehsize = 64, e_phentsize = 56,
     e_phnum = 2, e_shentsize = 64, e_shnum = 0, e_shstrndx = 0 \<rparr>"

definition demo_load :: Elf64Phdr where
  "demo_load = \<lparr> p_type = 1, p_flags = 7, p_offset = 0, p_vaddr = 0x1000, p_paddr = 0x1000, p_filesz = 264,
     p_memsz = 0x2000, p_align = 0x1000 \<rparr>"

definition demo_dyn :: Elf64Phdr where
  "demo_dyn = \<lparr> p_type = 2, p_flags = 6, p_offset = 176, p_vaddr = 0x10b0, p_paddr = 0x10b0, p_filesz = 64,
     p_memsz = 64, p_align = 8 \<rparr>"

definition demo_dynamic :: Elf64Dynamic where
  "demo_dynamic = \<lparr> dyn_rela = Some \<lparr> rela_base_vaddr = 0x10f0, rela_size = 24, rela_entsize = 24 \<rparr>,
     dyn_symtab = None, dyn_flags_1 = 0 \<rparr>"

definition demo_file :: Elf64File where
  "demo_file = \<lparr> elf_file_buf = demo_elf, elf_hdr = demo_hdr,
     load_segments = [(\<lparr> vaddr_begin = 0x1000, vaddr_end = 0x3000 \<rparr>, 0)], max_load_segment_align = 0x1000,
     elf_sh_strtab = None, elf_symtab = None, elf_strtab = None, elf_dynamic = Some demo_dynamic \<rparr>"

lemma to_le_numeral: "to_le (numeral n) x = of_nat x # to_le (pred_numeral n) (x div 256)"
  by (simp only: numeral_eq_Suc [of n] to_le.simps)

lemma demo_elf_bytes: "demo_elf = [
    0x7f, 0x45, 0x4c, 0x46, 2, 1, 1, 0, 0, 0, 0, 0, 0, 0, 0, 0,
    2, 0, 62, 0, 1, 0, 0, 0, 0, 16, 0, 0, 0, 0, 0, 0, 64, 0, 0, 0, 0, 0, 0, 0, 0, 0, 0, 0, 0, 0, 0, 0,
    0, 0, 0, 0, 64, 0, 56, 0, 2, 0, 64, 0, 0, 0, 0, 0,
    1, 0, 0, 0, 7, 0, 0, 0, 0, 0, 0, 0, 0, 0, 0, 0, 0, 16, 0, 0, 0, 0, 0, 0, 0, 16, 0, 0, 0, 0, 0, 0,
    8, 1, 0, 0, 0, 0, 0, 0, 0, 32, 0, 0, 0, 0, 0, 0, 0, 16, 0, 0, 0, 0, 0, 0,
    2, 0, 0, 0, 6, 0, 0, 0, 176, 0, 0, 0, 0, 0, 0, 0, 0xb0, 16, 0, 0, 0, 0, 0, 0, 0xb0, 16, 0, 0, 0, 0, 0, 0,
    64, 0, 0, 0, 0, 0, 0, 0, 64, 0, 0, 0, 0, 0, 0, 0, 8, 0, 0, 0, 0, 0, 0, 0,
    7, 0, 0, 0, 0, 0, 0, 0, 0xf0, 16, 0, 0, 0, 0, 0, 0, 8, 0, 0, 0, 0, 0, 0, 0, 24, 0, 0, 0, 0, 0, 0, 0,
    9, 0, 0, 0, 0, 0, 0, 0, 24, 0, 0, 0, 0, 0, 0, 0, 0, 0, 0, 0, 0, 0, 0, 0, 0, 0, 0, 0, 0, 0, 0, 0,
    0, 24, 0, 0, 0, 0, 0, 0, 8, 0, 0, 0, 0, 0, 0, 0, 0x34, 0x12, 0, 0, 0, 0, 0, 0]"
  by (simp add: demo_elf_def to_le_numeral)

lemma length_demo_elf: "length demo_elf = 264"
  by (simp add: demo_elf_def)

lemma demo_hdr_read: "Elf64Hdr_read demo_elf = Some (Ok demo_hdr)"
  by (simp add: Elf64Hdr_read_def demo_elf_bytes rd_defs check_e_ident_def ELFMAG_def ELFCLASS64_def ELFDATA2LSB_def
      ELFOSABI_NONE_def EV_CURRENT_def ET_EXEC_def EM_X86_64_def demo_hdr_def)

lemma demo_phdrs:
  "read_phdr_from_file demo_elf demo_hdr 0 = Some demo_load"
  "read_phdr_from_file demo_elf demo_hdr 1 = Some demo_dyn"
  by (simp_all add: read_phdr_from_file_def demo_hdr_def demo_elf_bytes Elf64Phdr_read_def rd_defs usize_max_eq
      Elf64PhdrFlags_truncate_def ELF_PF_EXECUTE_def ELF_PF_WRITE_def ELF_PF_READ_def demo_load_def demo_dyn_def)

lemma demo_verified:
  "read_verified_phdr demo_elf demo_hdr 0 = Some (Ok demo_load)"
  "read_verified_phdr demo_elf demo_hdr 1 = Some (Ok demo_dyn)"
  by (simp_all add: read_verified_phdr_def demo_phdrs verify_phdr_def Elf64Phdr_verify_def demo_load_def demo_dyn_def
      PT_NULL_def PT_LOAD_def is_power_of_two_def Elf64FileRange_try_from_def Elf64AddrRange_try_from_def
      usize_max_eq wadd_def Elf64Phdr_file_range_def length_demo_elf)

lemma demo_dynamic_read:
  "read_dynamic demo_elf (Some \<lparr> offset_begin = 176, offset_end = 240 \<rparr>) = Some (Ok (Some demo_dynamic))"
proof -
  have "Elf64Dynamic_read (take 64 (drop 176 demo_elf)) = Some (Ok demo_dynamic)"
    by (simp add: Elf64Dynamic_read_def demo_elf_bytes chunks.simps rd_defs DT_NULL_def dynamic_fields_def
        DT_RELA_def DT_RELASZ_def DT_RELAENT_def DT_SYMTAB_def DT_SYMENT_def DT_SYMTAB_SHNDX_def DT_FLAGS_1_def
        dynamic_rela_def dynamic_required_def dynamic_symtab_def demo_dynamic_def)
  moreover have "Elf64Dynamic_verify demo_dynamic = Ok ()"
    by (simp add: Elf64Dynamic_verify_def demo_dynamic_def Elf64DynamicRelocTable_verify_def
        Elf64AddrRange_try_from_def wadd_def)
  ultimately show ?thesis by (simp add: read_dynamic_def length_demo_elf)
qed

lemma demo_read: "Elf64File_read demo_elf = Some (Ok demo_file)"
proof -
  have "scan_phdr demo_elf demo_hdr 0 ([], 0, None) =
      Some (Ok ([(\<lparr> vaddr_begin = 0x1000, vaddr_end = 0x3000 \<rparr>, 0)], 0x1000, None))"
    by (simp add: scan_phdr_def demo_verified demo_load_def PT_LOAD_def Elf64Phdr_vaddr_range_def
        Elf64AddrRange_try_from_def wadd_def try_insert_def find_first_not_before_eq max_def)
  moreover have "scan_phdr demo_elf demo_hdr 1 ([(\<lparr> vaddr_begin = 0x1000, vaddr_end = 0x3000 \<rparr>, 0)], 0x1000, None) =
      Some (Ok ([(\<lparr> vaddr_begin = 0x1000, vaddr_end = 0x3000 \<rparr>, 0)], 0x1000,
        Some \<lparr> offset_begin = 176, offset_end = 240 \<rparr>))"
    by (simp add: scan_phdr_def demo_verified demo_dyn_def PT_LOAD_def PT_DYNAMIC_def Elf64Phdr_file_range_def
        Elf64FileRange_try_from_def usize_max_eq)
  moreover have "[0 ..< unat (e_phnum demo_hdr)] = [0, 1]" by (simp add: demo_hdr_def upt_rec)
  ultimately have "forR [0 ..< unat (e_phnum demo_hdr)] (scan_phdr demo_elf demo_hdr) ([], 0, None) =
      Some (Ok ([(\<lparr> vaddr_begin = 0x1000, vaddr_end = 0x3000 \<rparr>, 0)], 0x1000,
        Some \<lparr> offset_begin = 176, offset_end = 240 \<rparr>))" by simp
  moreover have "check_program_header_table demo_hdr 264 = Ok ()" "resolve_shnum demo_elf demo_hdr = Some (Ok demo_hdr)"
    by (simp_all add: check_program_header_table_def resolve_shnum_def check_section_header_table_bounds_def
        demo_hdr_def usize_max_eq length_demo_elf)
  moreover have "resolve_shstrndx demo_elf demo_hdr = Some (Ok demo_hdr)" "unat (e_shnum demo_hdr) = 0"
    by (simp_all add: resolve_shstrndx_def demo_hdr_def SHN_XINDEX_def SHN_UNDEF_def)
  ultimately show ?thesis
    using demo_dynamic_read by (simp add: Elf64File_read_def demo_hdr_read length_demo_elf read_sections_def
        find_strtab_def demo_file_def)
qed

lemma demo_whole: "dynamic_whole demo_elf"
proof -
  have "[0 ..< unat (e_phnum demo_hdr)] = [0, 1]" by (simp add: demo_hdr_def upt_rec)
  then show ?thesis
    by (simp add: dynamic_whole_def demo_hdr_read demo_phdrs length_demo_elf) (simp add: demo_load_def demo_dyn_def PT_DYNAMIC_def)
qed

lemma demo_wf: "elf_wf demo_file"
  using wpR_Ok [OF Elf64File_read_wpR [OF demo_whole] demo_read] by (simp add: length_demo_elf usize_max_eq)

definition demo_relas :: Elf64AppliedRelaIterator where
  "demo_relas = \<lparr> ari_load_base = 0x7000, ari_load_segments = load_segments demo_file,
     ari_relas = \<lparr> relas_buf = drop 240 demo_elf, relas_entsize = 24, relas_num = 1 \<rparr>, ari_symtab = None, ari_next = 0 \<rparr>"

lemma demo_load_base: "load_base demo_file 0x8000 = Some 0x7000"
  by (simp add: load_base_def image_load_addr_def image_load_align_offset_def demo_file_def total_vaddr_range_def wadd_def)

lemma demo_apply: "apply_dyn_relas demo_file 0x8000 = Some (Ok (Some demo_relas))"
proof -
  have "map_vaddr_to_file_buf demo_file 0x10f0 (Some 0x1108) = Some (Ok (drop 240 demo_elf))"
    by (simp add: map_vaddr_to_file_buf_def map_vaddr_to_file_off_def demo_file_def lookup_vaddr_range_def
        find_first_not_before_eq before_def read_phdr_def demo_phdrs demo_load_def Elf64Phdr_file_range_def
        Elf64FileRange_try_from_def usize_max_eq wsub_def length_demo_elf)
  moreover have "Elf64Relas_new (drop 240 demo_elf) 24 = Ok (ari_relas demo_relas)"
    by (simp add: Elf64Relas_new_def demo_relas_def length_demo_elf)
  moreover have "elf_dynamic demo_file = Some demo_dynamic" by (simp add: demo_file_def)
  ultimately show ?thesis
    by (simp add: apply_dyn_relas_def demo_dynamic_def demo_load_base Elf64DynamicRelocTable_vaddr_range_def
        Elf64AddrRange_try_from_def wadd_def demo_relas_def)
qed

lemma demo_apply_rela:
  "apply_rela x86_apply_relocation demo_relas 0 =
     Some (Ok (Some \<lparr> reloc_dst = 0x8800, reloc_value = u64_to_le_bytes 0x8234, reloc_value_len = 8 \<rparr>))"
proof -
  have "Elf64Relas_read_rela (ari_relas demo_relas) 0 = Some (Ok \<lparr> r_offset = 0x1800, r_info = 8, r_addend = 0x1234 \<rparr>)"
    by (simp add: Elf64Relas_read_rela_def demo_relas_def usize_max_eq Elf64Rela_read_def rd_defs demo_elf_bytes)
  then show ?thesis
    by (simp add: apply_rela_def rela_sym_value_def Elf64Rela_get_type_def Elf64Rela_get_sym_def STN_UNDEF_def
        x86_apply_relocation_def R_X86_64_64_def R_X86_64_PC32_def R_X86_64_RELATIVE_def demo_relas_def wadd_def
        lookup_vaddr_range_def find_first_not_before_eq before_def demo_file_def)
qed

section \<open>Properties\<close>

text \<open>
  C27. Reading an ELF file from arbitrary bytes does not panic, provided that its dynamic section, if
  any, lies in the file and consists of whole entries; a file that was read is well-formed: the
  header tables lie in the file, and the load segments are exactly the non-empty loadable program
  headers, verified, sorted by address and disjoint.
\<close>

theorem elf_read_well_formed:
  assumes "dynamic_whole buf" and "length buf \<le> usize_max"
  shows "\<exists>r. Elf64File_read buf = Some r \<and> (\<forall>f. r = Ok f \<longrightarrow> elf_file_buf f = buf \<and> elf_wf f)"
  using Elf64File_read_wpR [OF assms] by (cases "Elf64File_read buf") auto

theorem elf_read_well_formed_witness:
  "dynamic_whole demo_elf \<and> Elf64File_read demo_elf = Some (Ok demo_file) \<and> elf_wf demo_file"
proof -
  have "length demo_elf \<le> usize_max" by (simp add: length_demo_elf usize_max_eq)
  from elf_read_well_formed [OF demo_whole this] show ?thesis using demo_read demo_whole by simp
qed

text \<open>
  C30. In a well-formed file the lookup of a non-empty address range finds exactly the load segment
  that contains it, and the offset of the range in that segment.
\<close>

theorem elf_lookup_vaddr_range:
  assumes "elf_wf f" and "vaddr_begin r < vaddr_end r"
  shows "lookup_vaddr_range (load_segments f) r = Some (i, off) \<longleftrightarrow>
    (\<exists>s. (s, i) \<in> set (load_segments f) \<and> vaddr_begin s \<le> vaddr_begin r \<and> vaddr_end r \<le> vaddr_end s
      \<and> off = vaddr_begin r - vaddr_begin s)"
  using assms by (intro lookup_vaddr_range_eq) (simp_all add: elf_wf_def)

theorem elf_lookup_vaddr_range_witness:
  "lookup_vaddr_range (load_segments demo_file) \<lparr> vaddr_begin = 0x1800, vaddr_end = 0x1808 \<rparr> = Some (0, 0x800)"
proof -
  have "(\<lparr> vaddr_begin = 0x1000, vaddr_end = 0x3000 \<rparr>, 0) \<in> set (load_segments demo_file)" by (simp add: demo_file_def)
  moreover have "(0x800 :: u64) = 0x1800 - 0x1000" "(0x1000 :: u64) \<le> 0x1800" "(0x1808 :: u64) \<le> 0x3000" by simp_all
  ultimately show ?thesis
    using elf_lookup_vaddr_range [OF demo_wf, of "\<lparr> vaddr_begin = 0x1800, vaddr_end = 0x1808 \<rparr>" 0 "0x800"] by fastforce
qed

text \<open>
  C28. Every relocation that is applied to a loaded image writes inside one of its load segments: the
  destination, moved back by the load base, lies with its four or eight bytes in a segment.
\<close>

theorem elf_reloc_in_segment:
  assumes wf: "elf_wf f" and it: "apply_dyn_relas f addr = Some (Ok (Some it))"
    and op: "apply_rela x86_apply_relocation it n = Some (Ok (Some op))"
  shows "\<exists>b r i. load_base f addr = Some b \<and> (r, i) \<in> set (load_segments f)
    \<and> vaddr_begin r \<le> reloc_dst op - b \<and> unat (reloc_dst op - b) + reloc_value_len op \<le> unat (vaddr_end r)
    \<and> reloc_value_len op \<in> {4, 8} \<and> length (reloc_value op) = 8"
proof -
  note I = apply_dyn_relas_Ok [OF it]
  obtain rela v e s where R: "x86_apply_relocation rela (ari_load_base it) v = Ok op"
    "wadd (r_offset rela) (of_nat (reloc_value_len op)) = Some e"
    "lookup_vaddr_range (load_segments f) \<lparr> vaddr_begin = r_offset rela, vaddr_end = e \<rparr> = Some s"
    using apply_rela_Ok [OF op] unfolding I(2) by blast
  note X = x86_apply_relocation_Ok [OF R(1)]
  have n: "unat (of_nat (reloc_value_len op) :: u64) = reloc_value_len op" "0 < reloc_value_len op" using X(2) by auto
  have e: "unat e = unat (r_offset rela) + reloc_value_len op" using unat_wadd [OF R(2)] n(1) by simp
  then have "r_offset rela < e" using n(2) by (simp add: word_less_nat_alt)
  moreover have "segs_ok (load_segments f)" using wf by (simp add: elf_wf_def)
  ultimately obtain r where "(r, fst s) \<in> set (load_segments f)" "vaddr_begin r \<le> r_offset rela" "e \<le> vaddr_end r"
    using lookup_vaddr_range_eq [of "load_segments f" "\<lparr> vaddr_begin = r_offset rela, vaddr_end = e \<rparr>" "fst s" "snd s"] R(3)
    by auto
  then show ?thesis using I(1) X e
    by (intro exI [of _ "ari_load_base it"] exI [of _ r] exI [of _ "fst s"]) (auto simp: word_le_nat_alt)
qed

theorem elf_reloc_in_segment_witness:
  "\<exists>op b r i. apply_rela x86_apply_relocation demo_relas 0 = Some (Ok (Some op)) \<and> load_base demo_file 0x8000 = Some b
    \<and> (r, i) \<in> set (load_segments demo_file) \<and> vaddr_begin r \<le> reloc_dst op - b
    \<and> unat (reloc_dst op - b) + reloc_value_len op \<le> unat (vaddr_end r)"
  using elf_reloc_in_segment [OF demo_wf demo_apply demo_apply_rela] demo_apply_rela by blast

text \<open>
  A segment without file contents whose offset lies behind the end of the file stops the iterator
  with a panic: the empty file range was not checked when the file was read.
\<close>

lemma image_load_segment_next_panics:
  assumes cur: "cur < length (load_segments f)" and phdr: "read_phdr f (snd (load_segments f ! cur)) = Some phdr"
    and off: "\<not> (p_filesz phdr \<noteq> 0 \<or> unat (p_offset phdr) \<le> length (elf_file_buf f))"
  shows "image_load_segment_next f base cur = None"
  using assms
  by (auto simp: image_load_segment_next_def bind_eq_None_conv Elf64Phdr_file_range_def slice_def wadd_def
      Elf64FileRange_try_from_def split: option.splits if_splits)

text \<open>
  C29. Loading: for every requested address the image is placed at an address that agrees with the
  requested one above the largest segment alignment and with the first segment below it, and the
  iterator over the segments yields for each segment its shifted range and exactly its file
  contents, which fit into its memory.  The only segments for which it does not are those without
  file contents whose file offset lies behind the end of the file: there the iterator panics.
\<close>

theorem elf_image_layout:
  assumes wf: "elf_wf f" and cur: "cur < length (load_segments f)" and "cur < usize_max"
    and phdr: "read_phdr f (snd (load_segments f ! cur)) = Some phdr"
  shows "(\<exists>a. image_load_addr f addr = Some a
      \<and> load_base f addr = Some (a - vaddr_begin (total_vaddr_range (load_segments f)))
      \<and> (max_load_segment_align f \<noteq> 0 \<longrightarrow>
          unat a mod unat (max_load_segment_align f)
            = unat (vaddr_begin (total_vaddr_range (load_segments f))) mod unat (max_load_segment_align f)
          \<and> unat a div unat (max_load_segment_align f) = unat addr div unat (max_load_segment_align f)))
    \<and> (if p_filesz phdr \<noteq> 0 \<or> unat (p_offset phdr) \<le> length (elf_file_buf f)
       then \<exists>seg. image_load_segment_next f base cur = Some (Some seg, Suc cur)
         \<and> vaddr_begin (ils_vaddr_range seg) = vaddr_begin (fst (load_segments f ! cur)) + base
         \<and> vaddr_end (ils_vaddr_range seg) = vaddr_end (fst (load_segments f ! cur)) + base
         \<and> ils_file_contents seg = take (unat (p_filesz phdr)) (drop (unat (p_offset phdr)) (elf_file_buf f))
         \<and> length (ils_file_contents seg) = unat (p_filesz phdr)
         \<and> p_filesz phdr \<le> vaddr_end (ils_vaddr_range seg) - vaddr_begin (ils_vaddr_range seg)
       else image_load_segment_next f base cur = None)"
proof -
  note S = image_load_segment_next_eq [OF wf cur phdr _ assms(3)]
  note N = image_load_segment_next_panics [OF cur phdr]
  have "align_ok (max_load_segment_align f)" using wf by (simp add: elf_wf_def)
  from image_load_addr_total [OF this, of addr] show ?thesis using S N by (auto simp: load_base_def)
qed

theorem elf_image_layout_witness:
  "\<exists>seg. image_load_segment_next demo_file 0x7000 0 = Some (Some seg, 1) \<and> length (ils_file_contents seg) = 264
    \<and> vaddr_begin (ils_vaddr_range seg) = 0x8000"
proof -
  have "read_phdr demo_file (snd (load_segments demo_file ! 0)) = Some demo_load"
    by (simp add: read_phdr_def demo_file_def demo_phdrs)
  moreover have "0 < length (load_segments demo_file)" "vaddr_begin (fst (load_segments demo_file ! 0)) = 0x1000"
    by (simp_all add: demo_file_def)
  ultimately show ?thesis
    using elf_image_layout [OF demo_wf, of 0 demo_load undefined "0x7000"] by (auto simp: demo_load_def usize_max_eq)
qed

text \<open>
  C31. Reading a symbol: an index below the number of symbols gives a symbol, an index above it is an
  error, and the index that equals the number of symbols passes the check and panics.
\<close>

theorem elf_read_sym_bounds:
  assumes "Elf64Symtab_new buf ent = Ok t" and "length buf \<le> usize_max"
  shows "(i < syms_num t \<longrightarrow> (\<exists>sym. Elf64Symtab_read_sym t i = Some (Ok sym)))
    \<and> (syms_num t < i \<longrightarrow> Elf64Symtab_read_sym t i = Some (Err ElfError_InvalidSymbolIndex))
    \<and> (i = syms_num t \<longrightarrow> Elf64Symtab_read_sym t i = None)"
  using read_sym_in_range [OF assms(1) _ assms(2)] read_sym_off_by_one [OF assms(1)]
  by (simp add: Elf64Symtab_read_sym_def)

theorem elf_read_sym_bounds_witness:
  "\<exists>t sym. Elf64Symtab_new (replicate 48 1) 24 = Ok t \<and> Elf64Symtab_read_sym t 1 = Some (Ok sym)
    \<and> Elf64Symtab_read_sym t 2 = None"
proof -
  let ?t = "\<lparr> syms_buf = replicate 48 1, syms_entsize = 24, syms_num = 2 \<rparr>"
  have new: "Elf64Symtab_new (replicate 48 1) 24 = Ok ?t" by (simp add: Elf64Symtab_new_def)
  have len: "length (replicate 48 (1 :: u8)) \<le> usize_max" by (simp add: usize_max_eq)
  from elf_read_sym_bounds [OF new len, of 1] elf_read_sym_bounds [OF new len, of 2] new show ?thesis by auto
qed

end
