(* ===== verification/Paging.thy ===== *)
theory Paging
  imports Memory_Region Svsm_Error
begin

unbundle bit_operations_syntax

text \<open>
  Page table entries (\<open>kernel/src/mm/pagetable.rs\<close>): flags, encryption masks, paging modes,
  reserved bits and the access rights of a guest page walk.

  The masks and sizes that \<open>paging_init\<close> stores in cells of the kernel are the record
  \<open>paging\<close>, an argument of the functions that read them.  A \<open>bitflags\<close> value is its word.
\<close>

section \<open>Flags\<close>

datatype PTEntryFlag =
  PTE_PRESENT | PTE_WRITABLE | PTE_USER | PTE_ACCESSED | PTE_DIRTY | PTE_HUGE | PTE_GLOBAL | PTE_NX

fun pte_flag :: "PTEntryFlag \<Rightarrow> u64" where
  "pte_flag PTE_PRESENT = push_bit 0 1"
| "pte_flag PTE_WRITABLE = push_bit 1 1"
| "pte_flag PTE_USER = push_bit 2 1"
| "pte_flag PTE_ACCESSED = push_bit 5 1"
| "pte_flag PTE_DIRTY = push_bit 6 1"
| "pte_flag PTE_HUGE = push_bit 7 1"
| "pte_flag PTE_GLOBAL = push_bit 8 1"
| "pte_flag PTE_NX = push_bit 63 1"

type_synonym PTEntryFlags = u64

definition PTEntryFlags_all :: PTEntryFlags where
  "PTEntryFlags_all = pte_flag PTE_PRESENT OR pte_flag PTE_WRITABLE OR pte_flag PTE_USER OR pte_flag PTE_ACCESSED
     OR pte_flag PTE_DIRTY OR pte_flag PTE_HUGE OR pte_flag PTE_GLOBAL OR pte_flag PTE_NX"

definition flags_contain :: "'a::len word \<Rightarrow> 'a word \<Rightarrow> bool" where
  "flags_contain self other \<longleftrightarrow> self AND other = other"

text \<open>The complement of a \<open>bitflags\<close> value has the defined flags only.\<close>

definition flags_not :: "PTEntryFlags \<Rightarrow> PTEntryFlags" where
  "flags_not self = NOT self AND PTEntryFlags_all"

definition PTEntryFlags_data_ro :: PTEntryFlags where
  "PTEntryFlags_data_ro = pte_flag PTE_PRESENT OR pte_flag PTE_GLOBAL OR pte_flag PTE_NX OR pte_flag PTE_ACCESSED"

section \<open>Encryption masks\<close>

record PageEncryptionMasks =
  pem_private_pte_mask :: u64
  pem_shared_pte_mask :: u64
  pem_addr_mask_width :: u32
  pem_phys_addr_sizes :: u32

record paging =
  private_pte_mask :: u64
  shared_pte_mask :: u64
  feature_mask :: PTEntryFlags
  phys_addr_size :: u32
  max_phys_addr :: u64

definition paging_init :: "PageEncryptionMasks \<Rightarrow> bool \<Rightarrow> paging option" where
  "paging_init masks suppress_global =
     (let guest_phys_addr_size = drop_bit 16 (pem_phys_addr_sizes masks) AND 0xff;
          host_phys_addr_size = pem_phys_addr_sizes masks AND 0xff;
          phys_addr_size' = (if guest_phys_addr_size = 0 then host_phys_addr_size else guest_phys_addr_size);
          effective_phys_addr_size = min (pem_addr_mask_width masks) phys_addr_size'
      in if unat effective_phys_addr_size < 64 then
           Some \<lparr> private_pte_mask = pem_private_pte_mask masks, shared_pte_mask = pem_shared_pte_mask masks,
             feature_mask = (if suppress_global then PTEntryFlags_all AND NOT (pte_flag PTE_GLOBAL) else PTEntryFlags_all),
             phys_addr_size = phys_addr_size', max_phys_addr = push_bit (unat effective_phys_addr_size) 1 \<rparr>
         else None)"

definition supported_flags :: "paging \<Rightarrow> PTEntryFlags \<Rightarrow> PTEntryFlags" where
  "supported_flags pg flags = flags AND feature_mask pg"

definition strip_confidentiality_bits :: "paging \<Rightarrow> PhysAddr \<Rightarrow> PhysAddr" where
  "strip_confidentiality_bits pg paddr = PhysAddr_from (phys_bits paddr AND NOT (private_pte_mask pg))"

definition strip_shared_address_bits :: "paging \<Rightarrow> PhysAddr \<Rightarrow> PhysAddr" where
  "strip_shared_address_bits pg paddr = PhysAddr_from (phys_bits paddr AND NOT (shared_pte_mask pg))"

definition make_shared_address :: "paging \<Rightarrow> PhysAddr \<Rightarrow> PhysAddr" where
  "make_shared_address pg paddr = PhysAddr_from (phys_bits (strip_confidentiality_bits pg paddr) OR shared_pte_mask pg)"

definition make_private_address :: "paging \<Rightarrow> PhysAddr \<Rightarrow> PhysAddr" where
  "make_private_address pg paddr = PhysAddr_from (phys_bits (strip_shared_address_bits pg paddr) OR private_pte_mask pg)"

definition is_shared :: "paging \<Rightarrow> PhysAddr \<Rightarrow> bool" where
  "is_shared pg paddr \<longleftrightarrow> paddr = make_shared_address pg paddr"

section \<open>Page table entries\<close>

type_synonym PTEntry = PhysAddr

definition PTEntry_flags :: "PTEntry \<Rightarrow> PTEntryFlags" where
  "PTEntry_flags self = phys_bits self AND PTEntryFlags_all"

text \<open>\<open>present\<close>, \<open>huge\<close>, \<open>writable\<close>, \<open>nx\<close>, \<open>user\<close> and \<open>global\<close> test one flag.\<close>

definition PTEntry_has :: "PTEntryFlag \<Rightarrow> PTEntry \<Rightarrow> bool" where
  "PTEntry_has f self \<longleftrightarrow> flags_contain (PTEntry_flags self) (pte_flag f)"

definition PTEntry_set_unrestricted :: "PhysAddr \<Rightarrow> PTEntryFlags \<Rightarrow> PTEntry option" where
  "PTEntry_set_unrestricted addr flags =
     (if phys_bits addr AND NOT 0x000ffffffffff000 = 0 then Some (PhysAddr_from (phys_bits addr OR flags)) else None)"

definition PTEntry_set :: "paging \<Rightarrow> PhysAddr \<Rightarrow> PTEntryFlags \<Rightarrow> PTEntry option" where
  "PTEntry_set pg addr flags = PTEntry_set_unrestricted addr (supported_flags pg flags)"

definition PTEntry_make_private_if_present :: "paging \<Rightarrow> PTEntry \<Rightarrow> PTEntry" where
  "PTEntry_make_private_if_present pg self =
     (if flags_contain (PTEntry_flags self) (pte_flag PTE_PRESENT) then make_private_address pg self else self)"

definition PTEntry_page_frame :: "paging \<Rightarrow> PTEntry \<Rightarrow> PhysAddr" where
  "PTEntry_page_frame pg self = strip_confidentiality_bits pg (PhysAddr_from (phys_bits self AND 0x000ffffffffff000))"

definition PTEntry_address :: "paging \<Rightarrow> PTEntry \<Rightarrow> PhysAddr" where
  "PTEntry_address pg self = strip_shared_address_bits pg (PTEntry_page_frame pg self)"

section \<open>Paging modes and reserved bits\<close>

datatype PagingMode = NoPaging | NonPAE | PAE | PML4 | PML5

definition CR0_WP :: u64 where "CR0_WP = push_bit 16 1"
definition CR0_PG :: u64 where "CR0_PG = push_bit 31 1"
definition CR4_PAE :: u64 where "CR4_PAE = push_bit 5 1"
definition CR4_LA57 :: u64 where "CR4_LA57 = push_bit 12 1"
definition CR4_SMEP :: u64 where "CR4_SMEP = push_bit 20 1"
definition CR4_SMAP :: u64 where "CR4_SMAP = push_bit 21 1"
definition EFER_LMA :: u64 where "EFER_LMA = push_bit 10 1"
definition EFER_NXE :: u64 where "EFER_NXE = push_bit 11 1"
definition RFLAGS_AC :: u64 where "RFLAGS_AC = push_bit 18 1"

definition PagingMode_new :: "u64 \<Rightarrow> u64 \<Rightarrow> u64 \<Rightarrow> PagingMode" where
  "PagingMode_new efer cr0 cr4 =
     (if \<not> flags_contain cr0 CR0_PG then NoPaging
      else if flags_contain efer EFER_LMA then (if flags_contain cr4 CR4_LA57 then PML5 else PML4)
      else if flags_contain cr4 CR4_PAE then PAE
      else NonPAE)"

definition BIT_MASK :: "nat \<Rightarrow> nat \<Rightarrow> u64 option" where
  "BIT_MASK e s =
     (if s \<le> 63 \<and> e \<le> 63 \<and> s \<le> e \<and> e - s + 1 < 64 then Some (push_bit s (push_bit (e - s + 1) 1 - 1)) else None)"

text \<open>\<open>None\<close>: an unreachable case or a bit range that is none.\<close>

definition has_reserved_bits :: "paging \<Rightarrow> PagingMode \<Rightarrow> nat \<Rightarrow> PTEntry \<Rightarrow> bool option" where
  "has_reserved_bits pg pm level self = do {
     reserved_mask \<leftarrow> (case pm of
         NoPaging \<Rightarrow> None
       | NonPAE \<Rightarrow>
           if level = 0 then Some 0
           else if level = 1 then (if PTEntry_has PTE_HUGE self then BIT_MASK 21 21 else Some 0)
           else None
       | PAE \<Rightarrow> do {
           common \<leftarrow> BIT_MASK 62 (unat (phys_addr_size pg));
           more \<leftarrow> (if level = 0 then Some 0
             else if level = 1 then (if PTEntry_has PTE_HUGE self then BIT_MASK 20 13 else Some 0)
             else if level = 2 then do { a \<leftarrow> BIT_MASK 63 63; b \<leftarrow> BIT_MASK 8 5; Some (a OR b) }
             else None);
           Some (common OR more)
         }
       | _ \<Rightarrow> do {
           common \<leftarrow> (if unat (phys_addr_size pg) > 51 then Some 0
             else do {
               m \<leftarrow> BIT_MASK 51 (unat (phys_addr_size pg));
               Some (m AND NOT (shared_pte_mask pg OR private_pte_mask pg))
             });
           more \<leftarrow> (if level = 0 then Some 0
             else if level = 1 then (if PTEntry_has PTE_HUGE self then BIT_MASK 20 13 else Some 0)
             else if level = 2 then (if PTEntry_has PTE_HUGE self then BIT_MASK 29 13 else Some 0)
             else if level = 3 then BIT_MASK 8 7
             else if level = 4 then (if pm = PML4 then None else BIT_MASK 8 7)
             else None);
           Some (common OR more)
         });
     Some (phys_bits self AND reserved_mask \<noteq> 0)
   }"

section \<open>Access rights\<close>

text \<open>\<open>MemAccessMode\<close> and \<open>PageFaultError\<close>.\<close>

definition AM_WRITE :: u32 where "AM_WRITE = push_bit 0 1"
definition AM_FETCH :: u32 where "AM_FETCH = push_bit 1 1"
definition PF_P :: u32 where "PF_P = push_bit 0 1"
definition PF_W :: u32 where "PF_W = push_bit 1 1"
definition PF_U :: u32 where "PF_U = push_bit 2 1"
definition PF_R :: u32 where "PF_R = push_bit 3 1"
definition PF_I :: u32 where "PF_I = push_bit 4 1"

record PTWalkAttr =
  wa_cr0 :: u64
  wa_cr4 :: u64
  wa_efer :: u64
  wa_flags :: u64
  wa_user_mode_access :: bool
  wa_pm :: PagingMode

definition PTWalkAttr_new :: "u64 \<Rightarrow> u64 \<Rightarrow> u64 \<Rightarrow> u64 \<Rightarrow> bool \<Rightarrow> PTWalkAttr" where
  "PTWalkAttr_new cr0 cr4 efer flags user_mode_access =
     \<lparr> wa_cr0 = cr0, wa_cr4 = cr4, wa_efer = efer, wa_flags = flags,
       wa_user_mode_access = user_mode_access, wa_pm = PagingMode_new efer cr0 cr4 \<rparr>"

definition default_pf_err :: "PTWalkAttr \<Rightarrow> u32 \<Rightarrow> u32" where
  "default_pf_err self mem_am =
     (let err = 0;
          err = (if flags_contain mem_am AM_WRITE then err OR PF_W else err);
          err = (if flags_contain mem_am AM_FETCH then err OR PF_I else err)
      in if wa_user_mode_access self then err OR PF_U else err)"

text \<open>The checks at a leaf: whether one of them refuses the access.\<close>

definition leaf_refuses :: "PTWalkAttr \<Rightarrow> u32 \<Rightarrow> PTEntryFlags \<Rightarrow> bool" where
  "leaf_refuses self mem_am pteflags =
     (let um = wa_user_mode_access self;
          user = flags_contain pteflags (pte_flag PTE_USER);
          writable = flags_contain pteflags (pte_flag PTE_WRITABLE);
          smap = flags_contain (wa_cr4 self) CR4_SMAP;
          ac = flags_contain (wa_flags self) RFLAGS_AC;
          wp = flags_contain (wa_cr0 self) CR0_WP
      in if um \<and> \<not> user then True
         else if \<not> um \<and> user \<and> smap \<and> \<not> ac then True
         else if flags_contain mem_am AM_WRITE \<and>
           (if \<not> um \<and> user then
              (if \<not> wp then smap \<and> \<not> ac
               else if \<not> smap then \<not> writable
               else \<not> ac \<or> \<not> writable)
            else if \<not> um \<and> \<not> user then wp \<and> \<not> writable
            else if um \<and> user then \<not> writable
            else False) then True
         else if flags_contain mem_am AM_FETCH \<and> \<not> um \<and> user \<and> flags_contain (wa_cr4 self) CR4_SMEP then True
         else flags_contain mem_am AM_FETCH \<and> flags_contain (wa_cr4 self) CR4_PAE
           \<and> flags_contain (wa_efer self) EFER_NXE \<and> flags_contain pteflags (pte_flag PTE_NX))"

definition check_access_rights ::
  "paging \<Rightarrow> PTWalkAttr \<Rightarrow> PTEntry \<Rightarrow> u32 \<Rightarrow> nat \<Rightarrow> PTEntryFlags
   \<Rightarrow> ((PTEntry \<times> bool, u32) result \<times> PTEntryFlags) option" where
  "check_access_rights pg self entry mem_am level pteflags =
     (let pf_err = default_pf_err self mem_am OR PF_P in
      if \<not> PTEntry_has PTE_PRESENT entry then Some (Err (pf_err AND NOT PF_P), pteflags)
      else do {
        reserved \<leftarrow> has_reserved_bits pg (wa_pm self) level entry;
        if reserved then Some (Err (pf_err OR PF_R), pteflags)
        else let pteflags = (if \<not> PTEntry_has PTE_USER entry then pteflags AND flags_not (pte_flag PTE_USER) else pteflags);
                 pteflags = (if \<not> PTEntry_has PTE_WRITABLE entry then pteflags AND flags_not (pte_flag PTE_WRITABLE) else pteflags)
          in if flags_contain (wa_efer self) EFER_NXE \<and> PTEntry_has PTE_NX entry
             then let pteflags = pteflags OR pte_flag PTE_NX in
               Some (if level = 0 \<or> PTEntry_has PTE_HUGE entry
                     then (if leaf_refuses self mem_am pteflags then Err pf_err else Ok (entry, True))
                     else Ok (entry, False), pteflags)
             else if \<not> flags_contain (wa_efer self) EFER_NXE \<and> PTEntry_has PTE_NX entry
             then Some (Err (pf_err OR PF_R), pteflags)
             else Some (if level = 0 \<or> PTEntry_has PTE_HUGE entry
                     then (if leaf_refuses self mem_am pteflags then Err pf_err else Ok (entry, True))
                     else Ok (entry, False), pteflags)
      })"

end
