(* ===== verification/Page_Table.thy ===== *)
theory Page_Table
  imports Paging Ram_File
begin

text \<open>
  Page tables (\<open>kernel/src/mm/pagetable.rs\<close>) and the fixed address mappings
  (\<open>kernel/src/mm/address_space.rs\<close>).

  Page table pages live in a store under their virtual addresses; a reference to an entry is the
  address of its page and its index.  The pages come from the page allocator.  What the
  kernel reads through the self-map of the loaded page table is the argument \<open>pe_read_pte\<close>, the
  access of the processor to memory.  A \<open>PTPage\<close> is a list of entries.  Flushing the TLB has no
  effect on the tables.
\<close>

section \<open>The fixed mappings\<close>

record FixedAddressMappingRange =
  fm_virt_start :: VirtAddr
  fm_virt_end :: VirtAddr
  fm_phys_start :: PhysAddr

definition range_phys_to_virt :: "FixedAddressMappingRange \<Rightarrow> PhysAddr \<Rightarrow> VirtAddr option option" where
  "range_phys_to_virt self paddr =
     (if phys_bits paddr < phys_bits (fm_phys_start self) then Some None
      else do {
        size' \<leftarrow> VirtAddr_sub (fm_virt_end self) (fm_virt_start self);
        offset \<leftarrow> PhysAddr_sub paddr (fm_phys_start self);
        if offset \<ge> size' then Some None
        else map_option Some (VirtAddr_add (fm_virt_start self) offset)
      })"

record FixedAddressMapping =
  fam_kernel_mapping :: FixedAddressMappingRange
  fam_heap_mapping :: "FixedAddressMappingRange option"

definition phys_to_virt :: "FixedAddressMapping \<Rightarrow> PhysAddr \<Rightarrow> VirtAddr option" where
  "phys_to_virt fm paddr = do {
     k \<leftarrow> range_phys_to_virt (fam_kernel_mapping fm) paddr;
     case k of
       Some addr \<Rightarrow> Some addr
     | None \<Rightarrow> (case fam_heap_mapping fm of
           None \<Rightarrow> None
         | Some mapping \<Rightarrow> do { h \<leftarrow> range_phys_to_virt mapping paddr; h })
   }"

definition virt_from_idx :: "nat \<Rightarrow> VirtAddr" where
  "virt_from_idx i = VirtAddr_new (push_bit (3 * 9 + 12) (of_nat i))"

definition PGTABLE_LVL3_IDX_SHARED :: nat where "PGTABLE_LVL3_IDX_SHARED = 511"
definition PGTABLE_LVL3_IDX_PTE_SELFMAP :: nat where "PGTABLE_LVL3_IDX_PTE_SELFMAP = 493"
definition SVSM_PTE_BASE :: VirtAddr where "SVSM_PTE_BASE = virt_from_idx PGTABLE_LVL3_IDX_PTE_SELFMAP"

section \<open>Page frames and the self-map\<close>

datatype PageFrame = Size4K PhysAddr | Size2M PhysAddr | Size1G PhysAddr

fun PageFrame_paddr :: "PageFrame \<Rightarrow> PhysAddr" where
  "PageFrame_paddr (Size4K pa) = pa"
| "PageFrame_paddr (Size2M pa) = pa"
| "PageFrame_paddr (Size1G pa) = pa"

definition PageFrame_page_frame :: "paging \<Rightarrow> PageFrame \<Rightarrow> PhysAddr" where
  "PageFrame_page_frame pg self = strip_confidentiality_bits pg (PageFrame_paddr self)"

definition PageFrame_address :: "paging \<Rightarrow> PageFrame \<Rightarrow> PhysAddr" where
  "PageFrame_address pg self = strip_shared_address_bits pg (PageFrame_page_frame pg self)"

fun PageFrame_size :: "PageFrame \<Rightarrow> nat" where
  "PageFrame_size (Size4K pa) = PAGE_SIZE"
| "PageFrame_size (Size2M pa) = PAGE_SIZE_2M"
| "PageFrame_size (Size1G pa) = PAGE_SIZE_1G"

definition PageFrame_start :: "paging \<Rightarrow> PageFrame \<Rightarrow> PhysAddr" where
  "PageFrame_start pg self =
     PhysAddr_from (phys_bits (PageFrame_address pg self) AND NOT (of_nat (PageFrame_size self) - 1))"

definition PageFrame_end :: "paging \<Rightarrow> PageFrame \<Rightarrow> PhysAddr option" where
  "PageFrame_end pg self = PhysAddr_add (PageFrame_start pg self) (of_nat (PageFrame_size self))"

definition get_pte_address :: "VirtAddr \<Rightarrow> VirtAddr option" where
  "get_pte_address vaddr = VirtAddr_add SVSM_PTE_BASE (drop_bit 9 (virt_bits vaddr AND 0x0000FFFFFFFFF000))"

text \<open>The argument \<open>read_pte\<close> reads an entry from virtual memory.\<close>

definition virt_to_frame :: "paging \<Rightarrow> (VirtAddr \<Rightarrow> PTEntry) \<Rightarrow> VirtAddr \<Rightarrow> PageFrame option option" where
  "virt_to_frame pg read_pte vaddr = do {
     pte_addr \<leftarrow> get_pte_address vaddr;
     pde_addr \<leftarrow> get_pte_address pte_addr;
     pdpe_addr \<leftarrow> get_pte_address pde_addr;
     pml4e_addr \<leftarrow> get_pte_address pdpe_addr;
     if \<not> PTEntry_has PTE_PRESENT (read_pte pml4e_addr) then Some None
     else let pdpe = read_pte pdpe_addr in
       if \<not> PTEntry_has PTE_PRESENT pdpe then Some None
       else if PTEntry_has PTE_HUGE pdpe then
         map_option (\<lambda>pa. Some (Size1G pa)) (PhysAddr_add (PTEntry_page_frame pg pdpe) (virt_bits vaddr AND 0x3FFFFFFF))
       else let pde = read_pte pde_addr in
         if \<not> PTEntry_has PTE_PRESENT pde then Some None
         else if PTEntry_has PTE_HUGE pde then
           map_option (\<lambda>pa. Some (Size2M pa)) (PhysAddr_add (PTEntry_page_frame pg pde) (virt_bits vaddr AND 0x001FFFFF))
         else let pte = read_pte pte_addr in
           if PTEntry_has PTE_PRESENT pte then
             map_option (\<lambda>pa. Some (Size4K pa)) (PhysAddr_add (PTEntry_page_frame pg pte) (virt_bits vaddr AND 0xFFF))
           else Some None
   }"

text \<open>The translations of the loaded page table, \<open>None\<close> where they panic.\<close>

definition virt_to_phys :: "paging \<Rightarrow> (VirtAddr \<Rightarrow> PTEntry) \<Rightarrow> VirtAddr \<Rightarrow> PhysAddr option" where
  "virt_to_phys pg read_pte vaddr = do {
     frame \<leftarrow> virt_to_frame pg read_pte vaddr;
     map_option (PageFrame_address pg) frame
   }"

definition virt_to_page_frame :: "paging \<Rightarrow> (VirtAddr \<Rightarrow> PTEntry) \<Rightarrow> VirtAddr \<Rightarrow> PhysAddr option" where
  "virt_to_page_frame pg read_pte vaddr = do {
     frame \<leftarrow> virt_to_frame pg read_pte vaddr;
     map_option (PageFrame_page_frame pg) frame
   }"

section \<open>Page table pages\<close>

definition ENTRY_COUNT :: nat where "ENTRY_COUNT = 512"

record pt_env =
  pe_paging :: paging
  pe_fixed_mapping :: FixedAddressMapping
  pe_read_pte :: "VirtAddr \<Rightarrow> PTEntry"

definition pe_virt_to_phys :: "pt_env \<Rightarrow> translation" where
  "pe_virt_to_phys E = virt_to_phys (pe_paging E) (pe_read_pte E)"

record pt_state =
  pt_heap :: HeapMemoryRegion
  pt_pages :: "VirtAddr \<Rightarrow> PTEntry list option"

type_synonym pte_ref = "VirtAddr \<times> nat"

definition pte_get :: "pte_ref \<Rightarrow> pt_state \<Rightarrow> PTEntry option" where
  "pte_get = (\<lambda>(page, i) s. do { entries \<leftarrow> pt_pages s page; idx entries i })"

definition pte_put :: "pte_ref \<Rightarrow> PTEntry \<Rightarrow> pt_state \<Rightarrow> pt_state option" where
  "pte_put = (\<lambda>(page, i) e s. do {
     entries \<leftarrow> pt_pages s page;
     if i < length entries then Some (s\<lparr>pt_pages := (pt_pages s)(page \<mapsto> entries[i := e])\<rparr>) else None
   })"

text \<open>A zeroed page from the page allocator (\<open>PageBox::try_new_zeroed\<close>).\<close>

definition PTPage_alloc_box :: "(pt_state, VirtAddr, SvsmError) svsm" where
  "PTPage_alloc_box s = do {
     (r, heap) \<leftarrow> heap_allocate_pages 0 (pt_heap s);
     case r of
       Err e \<Rightarrow> Some (Err (SvsmError_Alloc e), s\<lparr>pt_heap := heap\<rparr>)
     | Ok vaddr \<Rightarrow>
         if virt_bits vaddr = 0 then None
         else Some (Ok vaddr, s\<lparr>pt_heap := heap, pt_pages := (pt_pages s)(vaddr \<mapsto> replicate ENTRY_COUNT PhysAddr_null)\<rparr>)
   }"

definition PTPage_alloc :: "pt_env \<Rightarrow> (pt_state, VirtAddr \<times> PhysAddr, SvsmError) svsm" where
  "PTPage_alloc E = bindM PTPage_alloc_box (\<lambda>page s. do {
     paddr \<leftarrow> pe_virt_to_phys E page;
     Some (Ok (page, paddr), s)
   })"

definition PTPage_free :: "VirtAddr \<Rightarrow> pt_state \<Rightarrow> pt_state option" where
  "PTPage_free page s = do {
     heap \<leftarrow> heap_free_page page (pt_heap s);
     Some (s\<lparr>pt_heap := heap, pt_pages := (pt_pages s)(page := None)\<rparr>)
   }"

definition PTPage_from_entry :: "pt_env \<Rightarrow> PTEntry \<Rightarrow> VirtAddr option option" where
  "PTPage_from_entry E entry =
     (let flags = PTEntry_flags entry in
      if \<not> flags_contain flags (pte_flag PTE_PRESENT) \<or> flags_contain flags (pte_flag PTE_HUGE) then Some None
      else map_option Some (phys_to_virt (pe_fixed_mapping E) (PTEntry_address (pe_paging E) entry)))"

datatype Mapping = Level3 pte_ref | Level2 pte_ref | Level1 pte_ref | Level0 pte_ref

section \<open>Walking\<close>

definition pt_index :: "nat \<Rightarrow> VirtAddr \<Rightarrow> nat" where
  "pt_index L vaddr = unat (VirtAddr_to_pgtbl_idx L vaddr)"

definition walk_addr_lvl0 :: "VirtAddr \<Rightarrow> VirtAddr \<Rightarrow> pt_state \<Rightarrow> Mapping option" where
  "walk_addr_lvl0 page vaddr s = do {
     let i = pt_index 0 vaddr;
     entry \<leftarrow> pte_get (page, i) s;
     Some (Level0 (page, i))
   }"

definition walk_addr_lvl1 :: "pt_env \<Rightarrow> VirtAddr \<Rightarrow> VirtAddr \<Rightarrow> pt_state \<Rightarrow> Mapping option" where
  "walk_addr_lvl1 E page vaddr s = do {
     let i = pt_index 1 vaddr;
     entry \<leftarrow> pte_get (page, i) s;
     next' \<leftarrow> PTPage_from_entry E entry;
     case next' of Some page' \<Rightarrow> walk_addr_lvl0 page' vaddr s | None \<Rightarrow> Some (Level1 (page, i))
   }"

definition walk_addr_lvl2 :: "pt_env \<Rightarrow> VirtAddr \<Rightarrow> VirtAddr \<Rightarrow> pt_state \<Rightarrow> Mapping option" where
  "walk_addr_lvl2 E page vaddr s = do {
     let i = pt_index 2 vaddr;
     entry \<leftarrow> pte_get (page, i) s;
     next' \<leftarrow> PTPage_from_entry E entry;
     case next' of Some page' \<Rightarrow> walk_addr_lvl1 E page' vaddr s | None \<Rightarrow> Some (Level2 (page, i))
   }"

definition walk_addr_lvl3 :: "pt_env \<Rightarrow> VirtAddr \<Rightarrow> VirtAddr \<Rightarrow> pt_state \<Rightarrow> Mapping option" where
  "walk_addr_lvl3 E page vaddr s = do {
     let i = pt_index 3 vaddr;
     entry \<leftarrow> pte_get (page, i) s;
     next' \<leftarrow> PTPage_from_entry E entry;
     case next' of Some page' \<Rightarrow> walk_addr_lvl2 E page' vaddr s | None \<Rightarrow> Some (Level3 (page, i))
   }"

definition walk_addr :: "pt_env \<Rightarrow> VirtAddr \<Rightarrow> VirtAddr \<Rightarrow> pt_state \<Rightarrow> Mapping option" where
  "walk_addr E root vaddr s = walk_addr_lvl3 E root vaddr s"

section \<open>Allocating table pages\<close>

definition table_flags :: PTEntryFlags where
  "table_flags = pte_flag PTE_PRESENT OR pte_flag PTE_WRITABLE OR pte_flag PTE_USER OR pte_flag PTE_ACCESSED"

definition PageTable_allocate_new :: "pt_env \<Rightarrow> (pt_state, VirtAddr, SvsmError) svsm" where
  "PageTable_allocate_new E = bindM PTPage_alloc_box (\<lambda>pgtable s. do {
     paddr \<leftarrow> pe_virt_to_phys E pgtable;
     entry \<leftarrow> PTEntry_set (pe_paging E) (make_private_address (pe_paging E) paddr)
       (pte_flag PTE_PRESENT OR pte_flag PTE_WRITABLE OR pte_flag PTE_ACCESSED OR pte_flag PTE_DIRTY OR pte_flag PTE_NX);
     s \<leftarrow> pte_put (pgtable, PGTABLE_LVL3_IDX_PTE_SELFMAP) entry s;
     Some (Ok pgtable, s)
   })"

definition copy_entry :: "VirtAddr \<Rightarrow> VirtAddr \<Rightarrow> nat \<Rightarrow> pt_state \<Rightarrow> pt_state option" where
  "copy_entry self other entry s = do {
     e \<leftarrow> pte_get (other, entry) s;
     pte_put (self, entry) e s
   }"

definition clone_shared :: "pt_env \<Rightarrow> VirtAddr \<Rightarrow> (pt_state, VirtAddr, SvsmError) svsm" where
  "clone_shared E self = bindM (PageTable_allocate_new E) (\<lambda>pgtable s. do {
     s \<leftarrow> copy_entry pgtable self PGTABLE_LVL3_IDX_SHARED s;
     Some (Ok pgtable, s)
   })"

definition alloc_pte_lvl1 :: "pt_env \<Rightarrow> pte_ref \<Rightarrow> VirtAddr \<Rightarrow> PageSize \<Rightarrow> pt_state \<Rightarrow> (Mapping \<times> pt_state) option" where
  "alloc_pte_lvl1 E entry vaddr size' s = do {
     e \<leftarrow> pte_get entry s;
     if size' = Huge \<or> flags_contain (PTEntry_flags e) (pte_flag PTE_PRESENT) then Some (Level1 entry, s)
     else do {
       (r, s) \<leftarrow> PTPage_alloc E s;
       case r of
         Err _ \<Rightarrow> Some (Level1 entry, s)
       | Ok (page, paddr) \<Rightarrow> do {
           e \<leftarrow> PTEntry_set (pe_paging E) (make_private_address (pe_paging E) paddr) table_flags;
           s \<leftarrow> pte_put entry e s;
           Some (Level0 (page, pt_index 0 vaddr), s)
         }
     }
   }"

definition alloc_pte_lvl2 :: "pt_env \<Rightarrow> pte_ref \<Rightarrow> VirtAddr \<Rightarrow> PageSize \<Rightarrow> pt_state \<Rightarrow> (Mapping \<times> pt_state) option" where
  "alloc_pte_lvl2 E entry vaddr size' s = do {
     e \<leftarrow> pte_get entry s;
     if flags_contain (PTEntry_flags e) (pte_flag PTE_PRESENT) then Some (Level2 entry, s)
     else do {
       (r, s) \<leftarrow> PTPage_alloc E s;
       case r of
         Err _ \<Rightarrow> Some (Level2 entry, s)
       | Ok (page, paddr) \<Rightarrow> do {
           e \<leftarrow> PTEntry_set (pe_paging E) (make_private_address (pe_paging E) paddr) table_flags;
           s \<leftarrow> pte_put entry e s;
           alloc_pte_lvl1 E (page, pt_index 1 vaddr) vaddr size' s
         }
     }
   }"

definition alloc_pte_lvl3 :: "pt_env \<Rightarrow> pte_ref \<Rightarrow> VirtAddr \<Rightarrow> PageSize \<Rightarrow> pt_state \<Rightarrow> (Mapping \<times> pt_state) option" where
  "alloc_pte_lvl3 E entry vaddr size' s = do {
     e \<leftarrow> pte_get entry s;
     if flags_contain (PTEntry_flags e) (pte_flag PTE_PRESENT) then Some (Level3 entry, s)
     else do {
       (r, s) \<leftarrow> PTPage_alloc E s;
       case r of
         Err _ \<Rightarrow> Some (Level3 entry, s)
       | Ok (page, paddr) \<Rightarrow> do {
           e \<leftarrow> PTEntry_set (pe_paging E) (make_private_address (pe_paging E) paddr) table_flags;
           s \<leftarrow> pte_put entry e s;
           alloc_pte_lvl2 E (page, pt_index 2 vaddr) vaddr size' s
         }
     }
   }"

definition alloc_pte_4k :: "pt_env \<Rightarrow> VirtAddr \<Rightarrow> VirtAddr \<Rightarrow> pt_state \<Rightarrow> (Mapping \<times> pt_state) option" where
  "alloc_pte_4k E root vaddr s = do {
     m \<leftarrow> walk_addr E root vaddr s;
     case m of
       Level0 entry \<Rightarrow> Some (Level0 entry, s)
     | Level1 entry \<Rightarrow> alloc_pte_lvl1 E entry vaddr Regular s
     | Level2 entry \<Rightarrow> alloc_pte_lvl2 E entry vaddr Regular s
     | Level3 entry \<Rightarrow> alloc_pte_lvl3 E entry vaddr Regular s
   }"

definition alloc_pte_2m :: "pt_env \<Rightarrow> VirtAddr \<Rightarrow> VirtAddr \<Rightarrow> pt_state \<Rightarrow> (Mapping \<times> pt_state) option" where
  "alloc_pte_2m E root vaddr s = do {
     m \<leftarrow> walk_addr E root vaddr s;
     case m of
       Level0 entry \<Rightarrow> Some (Level0 entry, s)
     | Level1 entry \<Rightarrow> Some (Level1 entry, s)
     | Level2 entry \<Rightarrow> alloc_pte_lvl2 E entry vaddr Huge s
     | Level3 entry \<Rightarrow> alloc_pte_lvl3 E entry vaddr Huge s
   }"

end
