(* ===== verification/Page_Table_Ops.thy ===== *)
theory Page_Table_Ops
  imports Page_Table
begin

unbundle bit_operations_syntax

text \<open>
  The operations of page tables and of page table parts (\<open>kernel/src/mm/pagetable.rs\<close>): splitting,
  sharing, mapping and unmapping of pages and regions, and freeing of a part.
\<close>

section \<open>Splitting and sharing\<close>

definition do_split_4k :: "pt_env \<Rightarrow> pte_ref \<Rightarrow> (pt_state, unit, SvsmError) svsm" where
  "do_split_4k E entry = bindM (PTPage_alloc E) (\<lambda>(page, paddr) s. do {
     e \<leftarrow> pte_get entry s;
     let flags = PTEntry_flags e;
     if \<not> flags_contain flags (pte_flag PTE_HUGE) then None
     else do {
       let addr_2m = PhysAddr_from (phys_bits (PTEntry_address (pe_paging E) e) AND 0x000ffffffff00000);
       let flags = flags AND NOT (pte_flag PTE_HUGE);
       s \<leftarrow> forO [0 ..< ENTRY_COUNT] (\<lambda>i s. do {
         addr_4k \<leftarrow> PhysAddr_add addr_2m (of_nat (i * PAGE_SIZE));
         e \<leftarrow> PTEntry_set (pe_paging E) (make_private_address (pe_paging E) addr_4k) flags;
         pte_put (page, i) e s
       }) s;
       e \<leftarrow> PTEntry_set (pe_paging E) (make_private_address (pe_paging E) paddr) flags;
       s \<leftarrow> pte_put entry e s;
       Some (Ok (), s)
     }
   })"

fun split_4k :: "pt_env \<Rightarrow> Mapping \<Rightarrow> (pt_state, unit, SvsmError) svsm" where
  "split_4k E (Level0 entry) = (\<lambda>s. Some (Ok (), s))"
| "split_4k E (Level1 entry) = do_split_4k E entry"
| "split_4k E (Level2 entry) = (\<lambda>s. Some (Err SvsmError_Mem, s))"
| "split_4k E (Level3 entry) = (\<lambda>s. Some (Err SvsmError_Mem, s))"

definition make_pte_shared :: "pt_env \<Rightarrow> pte_ref \<Rightarrow> pt_state \<Rightarrow> pt_state option" where
  "make_pte_shared E entry s = do {
     e \<leftarrow> pte_get entry s;
     e \<leftarrow> PTEntry_set (pe_paging E) (make_shared_address (pe_paging E) (PTEntry_address (pe_paging E) e)) (PTEntry_flags e);
     pte_put entry e s
   }"

definition make_pte_private :: "pt_env \<Rightarrow> pte_ref \<Rightarrow> pt_state \<Rightarrow> pt_state option" where
  "make_pte_private E entry s = do {
     e \<leftarrow> pte_get entry s;
     e \<leftarrow> PTEntry_set (pe_paging E) (make_private_address (pe_paging E) (PTEntry_address (pe_paging E) e)) (PTEntry_flags e);
     pte_put entry e s
   }"

definition set_shared_4k :: "pt_env \<Rightarrow> VirtAddr \<Rightarrow> VirtAddr \<Rightarrow> (pt_state, unit, SvsmError) svsm" where
  "set_shared_4k E root vaddr s = do {
     mapping \<leftarrow> walk_addr E root vaddr s;
     bindM (split_4k E mapping) (\<lambda>_ s. do {
       m \<leftarrow> walk_addr E root vaddr s;
       case m of
         Level0 entry \<Rightarrow> do { s \<leftarrow> make_pte_shared E entry s; Some (Ok (), s) }
       | _ \<Rightarrow> Some (Err SvsmError_Mem, s)
     }) s
   }"

definition set_encrypted_4k :: "pt_env \<Rightarrow> VirtAddr \<Rightarrow> VirtAddr \<Rightarrow> (pt_state, unit, SvsmError) svsm" where
  "set_encrypted_4k E root vaddr s = do {
     mapping \<leftarrow> walk_addr E root vaddr s;
     bindM (split_4k E mapping) (\<lambda>_ s. do {
       m \<leftarrow> walk_addr E root vaddr s;
       case m of
         Level0 entry \<Rightarrow> do { s \<leftarrow> make_pte_private E entry s; Some (Ok (), s) }
       | _ \<Rightarrow> Some (Err SvsmError_Mem, s)
     }) s
   }"

definition check_mapping :: "pt_env \<Rightarrow> VirtAddr \<Rightarrow> VirtAddr \<Rightarrow> pt_state \<Rightarrow> PhysAddr option option" where
  "check_mapping E root vaddr s = do {
     m \<leftarrow> walk_addr E root vaddr s;
     case m of
       Level0 entry \<Rightarrow> map_option (\<lambda>e. Some (PTEntry_address (pe_paging E) e)) (pte_get entry s)
     | Level1 entry \<Rightarrow> map_option (\<lambda>e. Some (PTEntry_address (pe_paging E) e)) (pte_get entry s)
     | _ \<Rightarrow> Some None
   }"

section \<open>Mapping and unmapping pages\<close>

definition leaf_address :: "paging \<Rightarrow> PhysAddr \<Rightarrow> bool \<Rightarrow> PhysAddr" where
  "leaf_address pg paddr shared = (if \<not> shared then make_private_address pg paddr else make_shared_address pg paddr)"

definition map_2m ::
  "pt_env \<Rightarrow> VirtAddr \<Rightarrow> VirtAddr \<Rightarrow> PhysAddr \<Rightarrow> PTEntryFlags \<Rightarrow> bool \<Rightarrow> (pt_state, unit, SvsmError) svsm" where
  "map_2m E root vaddr paddr flags shared s = do {
     va \<leftarrow> Address_is_aligned VirtAddr_ops vaddr (of_nat PAGE_SIZE_2M);
     pa \<leftarrow> Address_is_aligned PhysAddr_ops paddr (of_nat PAGE_SIZE_2M);
     if \<not> va \<or> \<not> pa then None
     else do {
       (mapping, s) \<leftarrow> alloc_pte_2m E root vaddr s;
       case mapping of
         Level1 entry \<Rightarrow> do {
           e \<leftarrow> PTEntry_set (pe_paging E) (leaf_address (pe_paging E) paddr shared) (flags OR pte_flag PTE_HUGE);
           s \<leftarrow> pte_put entry e s;
           Some (Ok (), s)
         }
       | _ \<Rightarrow> Some (Err SvsmError_Mem, s)
     }
   }"

text \<open>An assertion that the entry is not present.\<close>

definition assert_not_present :: "pte_ref \<Rightarrow> pt_state \<Rightarrow> pt_state option" where
  "assert_not_present entry s = do {
     e \<leftarrow> pte_get entry s;
     if PTEntry_has PTE_PRESENT e then None else Some s
   }"

definition unmap_2m :: "pt_env \<Rightarrow> VirtAddr \<Rightarrow> VirtAddr \<Rightarrow> pt_state \<Rightarrow> pt_state option" where
  "unmap_2m E root vaddr s = do {
     va \<leftarrow> Address_is_aligned VirtAddr_ops vaddr (of_nat PAGE_SIZE_2M);
     if \<not> va then None
     else do {
       mapping \<leftarrow> walk_addr E root vaddr s;
       case mapping of
         Level0 _ \<Rightarrow> None
       | Level1 entry \<Rightarrow> pte_put entry PhysAddr_null s
       | Level2 entry \<Rightarrow> assert_not_present entry s
       | Level3 entry \<Rightarrow> assert_not_present entry s
     }
   }"

definition map_4k ::
  "pt_env \<Rightarrow> VirtAddr \<Rightarrow> VirtAddr \<Rightarrow> PhysAddr \<Rightarrow> PTEntryFlags \<Rightarrow> bool \<Rightarrow> (pt_state, unit, SvsmError) svsm" where
  "map_4k E root vaddr paddr flags shared s = do {
     (mapping, s) \<leftarrow> alloc_pte_4k E root vaddr s;
     case mapping of
       Level0 entry \<Rightarrow> do {
         e \<leftarrow> PTEntry_set (pe_paging E) (leaf_address (pe_paging E) paddr shared) flags;
         s \<leftarrow> pte_put entry e s;
         Some (Ok (), s)
       }
     | _ \<Rightarrow> Some (Err SvsmError_Mem, s)
   }"

definition unmap_4k :: "pt_env \<Rightarrow> VirtAddr \<Rightarrow> VirtAddr \<Rightarrow> pt_state \<Rightarrow> pt_state option" where
  "unmap_4k E root vaddr s = do {
     mapping \<leftarrow> walk_addr E root vaddr s;
     case mapping of
       Level0 entry \<Rightarrow> pte_put entry PhysAddr_null s
     | Level1 entry \<Rightarrow> assert_not_present entry s
     | Level2 entry \<Rightarrow> assert_not_present entry s
     | Level3 entry \<Rightarrow> assert_not_present entry s
   }"

definition pt_phys_addr :: "pt_env \<Rightarrow> VirtAddr \<Rightarrow> VirtAddr \<Rightarrow> pt_state \<Rightarrow> (PhysAddr, SvsmError) result option" where
  "pt_phys_addr E root vaddr s = do {
     mapping \<leftarrow> walk_addr E root vaddr s;
     case mapping of
       Level0 entry \<Rightarrow> do {
         let offset = Address_page_offset VirtAddr_ops vaddr;
         e \<leftarrow> pte_get entry s;
         if \<not> flags_contain (PTEntry_flags e) (pte_flag PTE_PRESENT) then Some (Err SvsmError_Mem)
         else map_option Ok (PhysAddr_add (PTEntry_address (pe_paging E) e) offset)
       }
     | Level1 entry \<Rightarrow> do {
         let offset = virt_bits vaddr AND (of_nat PAGE_SIZE_2M - 1);
         e \<leftarrow> pte_get entry s;
         if \<not> flags_contain (PTEntry_flags e) (pte_flag PTE_PRESENT) \<or> \<not> flags_contain (PTEntry_flags e) (pte_flag PTE_HUGE)
         then Some (Err SvsmError_Mem)
         else map_option Ok (PhysAddr_add (PTEntry_address (pe_paging E) e) offset)
       }
     | _ \<Rightarrow> Some (Err SvsmError_Mem)
   }"

section \<open>Regions\<close>

definition map_region_4k ::
  "pt_env \<Rightarrow> VirtAddr \<Rightarrow> VirtAddr MemoryRegion \<Rightarrow> PhysAddr \<Rightarrow> PTEntryFlags \<Rightarrow> bool \<Rightarrow> (pt_state, unit, SvsmError) svsm" where
  "map_region_4k E root vregion phys flags shared =
     forM (MemoryRegion_iter_pages VirtAddr_ops vregion Regular) (\<lambda>addr s. do {
       offset \<leftarrow> VirtAddr_sub addr (mr_start vregion);
       paddr \<leftarrow> PhysAddr_add phys offset;
       map_4k E root addr paddr flags shared s
     })"

definition unmap_region_4k :: "pt_env \<Rightarrow> VirtAddr \<Rightarrow> VirtAddr MemoryRegion \<Rightarrow> pt_state \<Rightarrow> pt_state option" where
  "unmap_region_4k E root vregion = forO (MemoryRegion_iter_pages VirtAddr_ops vregion Regular) (unmap_4k E root)"

definition map_region_2m ::
  "pt_env \<Rightarrow> VirtAddr \<Rightarrow> VirtAddr MemoryRegion \<Rightarrow> PhysAddr \<Rightarrow> PTEntryFlags \<Rightarrow> bool \<Rightarrow> (pt_state, unit, SvsmError) svsm" where
  "map_region_2m E root vregion phys flags shared =
     forM (MemoryRegion_iter_pages VirtAddr_ops vregion Huge) (\<lambda>addr s. do {
       offset \<leftarrow> VirtAddr_sub addr (mr_start vregion);
       paddr \<leftarrow> PhysAddr_add phys offset;
       map_2m E root addr paddr flags shared s
     })"

definition unmap_region_2m :: "pt_env \<Rightarrow> VirtAddr \<Rightarrow> VirtAddr MemoryRegion \<Rightarrow> pt_state \<Rightarrow> pt_state option" where
  "unmap_region_2m E root vregion = forO (MemoryRegion_iter_pages VirtAddr_ops vregion Huge) (unmap_2m E root)"

text \<open>One round of the loop of \<open>map_region\<close>: the bytes that were mapped.\<close>

definition map_region_step ::
  "pt_env \<Rightarrow> VirtAddr \<Rightarrow> VirtAddr \<Rightarrow> PTEntryFlags \<Rightarrow> VirtAddr \<Rightarrow> PhysAddr \<Rightarrow> (pt_state, nat, SvsmError) svsm" where
  "map_region_step E root end' flags vaddr paddr s = do {
     va \<leftarrow> Address_is_aligned VirtAddr_ops vaddr (of_nat PAGE_SIZE_2M);
     pa \<leftarrow> Address_is_aligned PhysAddr_ops paddr (of_nat PAGE_SIZE_2M);
     fits \<leftarrow> (if va \<and> pa
       then map_option (\<lambda>v. virt_bits v \<le> virt_bits end') (VirtAddr_add vaddr (of_nat PAGE_SIZE_2M))
       else Some False);
     (huge, s) \<leftarrow> (if fits then do {
         (r, s) \<leftarrow> map_2m E root vaddr paddr flags False s;
         Some (is_ok r, s)
       } else Some (False, s));
     if huge then Some (Ok PAGE_SIZE_2M, s)
     else bindM (map_4k E root vaddr paddr flags False) (\<lambda>_ s. Some (Ok PAGE_SIZE, s)) s
   }"

partial_function (option) map_region_loop ::
  "pt_env \<Rightarrow> VirtAddr \<Rightarrow> VirtAddr \<Rightarrow> PTEntryFlags \<Rightarrow> VirtAddr \<Rightarrow> PhysAddr \<Rightarrow> pt_state
   \<Rightarrow> ((unit, SvsmError) result \<times> pt_state) option" where
  "map_region_loop E root end' flags vaddr paddr s =
     (if virt_bits vaddr < virt_bits end' then do {
        (r, s) \<leftarrow> map_region_step E root end' flags vaddr paddr s;
        case r of
          Err e \<Rightarrow> Some (Err e, s)
        | Ok n \<Rightarrow> do {
            vaddr \<leftarrow> VirtAddr_add vaddr (of_nat n);
            paddr \<leftarrow> PhysAddr_add paddr (of_nat n);
            map_region_loop E root end' flags vaddr paddr s
          }
      }
      else Some (Ok (), s))"

definition map_region ::
  "pt_env \<Rightarrow> VirtAddr \<Rightarrow> VirtAddr MemoryRegion \<Rightarrow> PhysAddr \<Rightarrow> PTEntryFlags \<Rightarrow> (pt_state, unit, SvsmError) svsm" where
  "map_region E root region phys flags s = map_region_loop E root (mr_end region) flags (mr_start region) phys s"

text \<open>One round of the loop of \<open>unmap_region\<close>: an address without a table stays where it is.\<close>

definition unmap_region_step :: "pt_env \<Rightarrow> VirtAddr \<Rightarrow> VirtAddr \<Rightarrow> pt_state \<Rightarrow> (VirtAddr \<times> pt_state) option" where
  "unmap_region_step E root vaddr s = do {
     mapping \<leftarrow> walk_addr E root vaddr s;
     case mapping of
       Level0 entry \<Rightarrow> do {
         s \<leftarrow> pte_put entry PhysAddr_null s;
         vaddr \<leftarrow> VirtAddr_add vaddr (of_nat PAGE_SIZE);
         Some (vaddr, s)
       }
     | Level1 entry \<Rightarrow> do {
         s \<leftarrow> pte_put entry PhysAddr_null s;
         vaddr \<leftarrow> VirtAddr_add vaddr (of_nat PAGE_SIZE_2M);
         Some (vaddr, s)
       }
     | _ \<Rightarrow> Some (vaddr, s)
   }"

partial_function (option) unmap_region_loop ::
  "pt_env \<Rightarrow> VirtAddr \<Rightarrow> VirtAddr \<Rightarrow> VirtAddr \<Rightarrow> pt_state \<Rightarrow> pt_state option" where
  "unmap_region_loop E root end' vaddr s =
     (if virt_bits vaddr < virt_bits end' then do {
        (vaddr, s) \<leftarrow> unmap_region_step E root vaddr s;
        unmap_region_loop E root end' vaddr s
      }
      else Some s)"

definition unmap_region :: "pt_env \<Rightarrow> VirtAddr \<Rightarrow> VirtAddr MemoryRegion \<Rightarrow> pt_state \<Rightarrow> pt_state option" where
  "unmap_region E root vregion s = unmap_region_loop E root (mr_end vregion) (mr_start vregion) s"

definition make_region_ro_4k :: "pt_env \<Rightarrow> VirtAddr \<Rightarrow> VirtAddr MemoryRegion \<Rightarrow> (pt_state, unit, SvsmError) svsm" where
  "make_region_ro_4k E root region =
     forM (MemoryRegion_iter_pages VirtAddr_ops region Regular) (\<lambda>page s. do {
       mapping \<leftarrow> walk_addr E root page s;
       case mapping of
         Level0 entry \<Rightarrow> do {
           e \<leftarrow> pte_get entry s;
           if \<not> PTEntry_has PTE_PRESENT e \<or> \<not> PTEntry_has PTE_GLOBAL e then Some (Err SvsmError_Mem, s)
           else do {
             let paddr = (if is_shared (pe_paging E) e
               then make_shared_address (pe_paging E) (PTEntry_address (pe_paging E) e)
               else make_private_address (pe_paging E) (PTEntry_address (pe_paging E) e));
             e \<leftarrow> PTEntry_set (pe_paging E) paddr PTEntryFlags_data_ro;
             s \<leftarrow> pte_put entry e s;
             Some (Ok (), s)
           }
         }
       | Level1 entry \<Rightarrow> do {
           e \<leftarrow> pte_get entry s;
           Some (if PTEntry_has PTE_HUGE e then Err SvsmError_Mem else Ok (), s)
         }
       | Level2 entry \<Rightarrow> do {
           e \<leftarrow> pte_get entry s;
           Some (if PTEntry_has PTE_HUGE e then Err SvsmError_Mem else Ok (), s)
         }
       | Level3 _ \<Rightarrow> Some (Ok (), s)
     })"

section \<open>Page table parts\<close>

definition free_lvl1 :: "pt_env \<Rightarrow> VirtAddr \<Rightarrow> pt_state \<Rightarrow> pt_state option" where
  "free_lvl1 E page s = do {
     entries \<leftarrow> pt_pages s page;
     forO entries (\<lambda>entry s. do {
       next' \<leftarrow> PTPage_from_entry E entry;
       case next' of Some page' \<Rightarrow> PTPage_free page' s | None \<Rightarrow> Some s
     }) s
   }"

definition free_lvl2 :: "pt_env \<Rightarrow> VirtAddr \<Rightarrow> pt_state \<Rightarrow> pt_state option" where
  "free_lvl2 E page s = do {
     entries \<leftarrow> pt_pages s page;
     forO entries (\<lambda>entry s. do {
       next' \<leftarrow> PTPage_from_entry E entry;
       case next' of
         Some l1_page \<Rightarrow> do { s \<leftarrow> free_lvl1 E l1_page s; PTPage_free l1_page s }
       | None \<Rightarrow> Some s
     }) s
   }"

definition part_walk_addr :: "pt_env \<Rightarrow> VirtAddr \<Rightarrow> VirtAddr \<Rightarrow> pt_state \<Rightarrow> Mapping option" where
  "part_walk_addr E page vaddr s = walk_addr_lvl2 E page vaddr s"

definition part_alloc_pte_4k :: "pt_env \<Rightarrow> VirtAddr \<Rightarrow> VirtAddr \<Rightarrow> pt_state \<Rightarrow> (Mapping \<times> pt_state) option" where
  "part_alloc_pte_4k E page vaddr s = do {
     m \<leftarrow> part_walk_addr E page vaddr s;
     case m of
       Level0 entry \<Rightarrow> Some (Level0 entry, s)
     | Level1 entry \<Rightarrow> alloc_pte_lvl1 E entry vaddr Regular s
     | Level2 entry \<Rightarrow> alloc_pte_lvl2 E entry vaddr Regular s
     | Level3 _ \<Rightarrow> None
   }"

definition part_alloc_pte_2m :: "pt_env \<Rightarrow> VirtAddr \<Rightarrow> VirtAddr \<Rightarrow> pt_state \<Rightarrow> (Mapping \<times> pt_state) option" where
  "part_alloc_pte_2m E page vaddr s = do {
     m \<leftarrow> part_walk_addr E page vaddr s;
     case m of
       Level0 entry \<Rightarrow> Some (Level0 entry, s)
     | Level1 entry \<Rightarrow> Some (Level1 entry, s)
     | Level2 entry \<Rightarrow> alloc_pte_lvl2 E entry vaddr Huge s
     | Level3 entry \<Rightarrow> alloc_pte_lvl3 E entry vaddr Huge s
   }"

definition part_map_4k ::
  "pt_env \<Rightarrow> VirtAddr \<Rightarrow> VirtAddr \<Rightarrow> PhysAddr \<Rightarrow> PTEntryFlags \<Rightarrow> bool \<Rightarrow> (pt_state, unit, SvsmError) svsm" where
  "part_map_4k E page vaddr paddr flags shared s = do {
     (mapping, s) \<leftarrow> part_alloc_pte_4k E page vaddr s;
     case mapping of
       Level0 entry \<Rightarrow> do {
         e \<leftarrow> PTEntry_set (pe_paging E) (leaf_address (pe_paging E) paddr shared) flags;
         s \<leftarrow> pte_put entry e s;
         Some (Ok (), s)
       }
     | _ \<Rightarrow> Some (Err SvsmError_Mem, s)
   }"

definition part_unmap_4k :: "pt_env \<Rightarrow> VirtAddr \<Rightarrow> VirtAddr \<Rightarrow> pt_state \<Rightarrow> (PTEntry option \<times> pt_state) option" where
  "part_unmap_4k E page vaddr s = do {
     mapping \<leftarrow> part_walk_addr E page vaddr s;
     case mapping of
       Level0 entry \<Rightarrow> do {
         e \<leftarrow> pte_get entry s;
         s \<leftarrow> pte_put entry PhysAddr_null s;
         Some (Some e, s)
       }
     | Level1 entry \<Rightarrow> map_option (\<lambda>s. (None, s)) (assert_not_present entry s)
     | Level2 entry \<Rightarrow> map_option (\<lambda>s. (None, s)) (assert_not_present entry s)
     | Level3 entry \<Rightarrow> map_option (\<lambda>s. (None, s)) (assert_not_present entry s)
   }"

definition part_map_2m ::
  "pt_env \<Rightarrow> VirtAddr \<Rightarrow> VirtAddr \<Rightarrow> PhysAddr \<Rightarrow> PTEntryFlags \<Rightarrow> bool \<Rightarrow> (pt_state, unit, SvsmError) svsm" where
  "part_map_2m E page vaddr paddr flags shared s = do {
     va \<leftarrow> Address_is_aligned VirtAddr_ops vaddr (of_nat PAGE_SIZE_2M);
     pa \<leftarrow> Address_is_aligned PhysAddr_ops paddr (of_nat PAGE_SIZE_2M);
     if \<not> va \<or> \<not> pa then None
     else do {
       (mapping, s) \<leftarrow> part_alloc_pte_2m E page vaddr s;
       case mapping of
         Level1 entry \<Rightarrow> do {
           e \<leftarrow> PTEntry_set (pe_paging E) (leaf_address (pe_paging E) paddr shared) (flags OR pte_flag PTE_HUGE);
           s \<leftarrow> pte_put entry e s;
           Some (Ok (), s)
         }
       | _ \<Rightarrow> Some (Err SvsmError_Mem, s)
     }
   }"

text \<open>The entry is cleared before it is read for the result.\<close>

definition part_unmap_2m :: "pt_env \<Rightarrow> VirtAddr \<Rightarrow> VirtAddr \<Rightarrow> pt_state \<Rightarrow> (PTEntry option \<times> pt_state) option" where
  "part_unmap_2m E page vaddr s = do {
     va \<leftarrow> Address_is_aligned VirtAddr_ops vaddr (of_nat PAGE_SIZE_2M);
     if \<not> va then None
     else do {
       mapping \<leftarrow> part_walk_addr E page vaddr s;
       case mapping of
         Level0 _ \<Rightarrow> Some (None, s)
       | Level1 entry \<Rightarrow> do {
           s \<leftarrow> pte_put entry PhysAddr_null s;
           e \<leftarrow> pte_get entry s;
           Some (Some e, s)
         }
       | Level2 entry \<Rightarrow> map_option (\<lambda>s. (None, s)) (assert_not_present entry s)
       | Level3 entry \<Rightarrow> map_option (\<lambda>s. (None, s)) (assert_not_present entry s)
     }
   }"

record PageTablePart =
  ptp_raw :: "VirtAddr option"
  ptp_idx :: nat

definition PageTablePart_new :: "VirtAddr \<Rightarrow> PageTablePart" where
  "PageTablePart_new start = \<lparr> ptp_raw = None, ptp_idx = pt_index 3 start \<rparr>"

definition get_or_init_mut :: "PageTablePart \<Rightarrow> pt_state \<Rightarrow> (VirtAddr \<times> PageTablePart \<times> pt_state) option" where
  "get_or_init_mut self s = (case ptp_raw self of
       Some page \<Rightarrow> Some (page, self, s)
     | None \<Rightarrow> do {
         (r, s) \<leftarrow> PTPage_alloc_box s;
         case r of Ok page \<Rightarrow> Some (page, self\<lparr>ptp_raw := Some page\<rparr>, s) | Err _ \<Rightarrow> None
       })"

definition PageTablePart_map_4k ::
  "pt_env \<Rightarrow> VirtAddr \<Rightarrow> PhysAddr \<Rightarrow> PTEntryFlags \<Rightarrow> bool \<Rightarrow> (PageTablePart \<times> pt_state, unit, SvsmError) svsm" where
  "PageTablePart_map_4k E vaddr paddr flags shared = (\<lambda>(self, s).
     if pt_index 3 vaddr \<noteq> ptp_idx self then None
     else do {
       (page, self, s) \<leftarrow> get_or_init_mut self s;
       (r, s) \<leftarrow> part_map_4k E page vaddr paddr flags shared s;
       Some (r, (self, s))
     })"

definition PageTablePart_unmap_4k ::
  "pt_env \<Rightarrow> VirtAddr \<Rightarrow> PageTablePart \<Rightarrow> pt_state \<Rightarrow> (PTEntry option \<times> pt_state) option" where
  "PageTablePart_unmap_4k E vaddr self s =
     (if pt_index 3 vaddr \<noteq> ptp_idx self then None
      else case ptp_raw self of None \<Rightarrow> Some (None, s) | Some page \<Rightarrow> part_unmap_4k E page vaddr s)"

definition PageTablePart_map_2m ::
  "pt_env \<Rightarrow> VirtAddr \<Rightarrow> PhysAddr \<Rightarrow> PTEntryFlags \<Rightarrow> bool \<Rightarrow> (PageTablePart \<times> pt_state, unit, SvsmError) svsm" where
  "PageTablePart_map_2m E vaddr paddr flags shared = (\<lambda>(self, s).
     if pt_index 3 vaddr \<noteq> ptp_idx self then None
     else do {
       (page, self, s) \<leftarrow> get_or_init_mut self s;
       (r, s) \<leftarrow> part_map_2m E page vaddr paddr flags shared s;
       Some (r, (self, s))
     })"

definition PageTablePart_unmap_2m ::
  "pt_env \<Rightarrow> VirtAddr \<Rightarrow> PageTablePart \<Rightarrow> pt_state \<Rightarrow> (PTEntry option \<times> pt_state) option" where
  "PageTablePart_unmap_2m E vaddr self s =
     (if pt_index 3 vaddr \<noteq> ptp_idx self then None
      else case ptp_raw self of None \<Rightarrow> Some (None, s) | Some page \<Rightarrow> part_unmap_2m E page vaddr s)"

definition populate_pgtbl_part :: "pt_env \<Rightarrow> VirtAddr \<Rightarrow> PageTablePart \<Rightarrow> pt_state \<Rightarrow> (bool \<times> pt_state) option" where
  "populate_pgtbl_part E root part s = (case ptp_raw part of
       None \<Rightarrow> Some (False, s)
     | Some page \<Rightarrow> do {
         paddr \<leftarrow> pe_virt_to_phys E page;
         prev \<leftarrow> pte_get (root, ptp_idx part) s;
         e \<leftarrow> PTEntry_set (pe_paging E) (make_private_address (pe_paging E) paddr) table_flags;
         s \<leftarrow> pte_put (root, ptp_idx part) e s;
         Some (phys_bits prev \<noteq> phys_bits e, s)
       })"

end
