(* ===== verification/Paging_Lemmas.thy ===== *)
theory Paging_Lemmas
  imports Page_Table_Ops Slab_Heap
begin

unbundle bit_operations_syntax

text \<open>
  Page table entries as a frame, a sharing state and flags: building an entry and reading it back.
\<close>

section \<open>Bits of entries\<close>

declare pte_flag.simps [simp del]

lemma word_bits_eq: "(a :: 'a::len word) = b \<longleftrightarrow> (\<forall>n < LENGTH('a). bit a n = bit b n)"
  by (simp add: bit_eq_iff)

lemma ADDR_MASK: "(0x000ffffffffff000 :: u64) = mask 52 AND NOT (mask 12)"
  by (simp add: mask_eq_exp_minus_1)

lemma bit_ADDR_MASK: "bit (0x000ffffffffff000 :: u64) n \<longleftrightarrow> 12 \<le> n \<and> n < 52"
  unfolding ADDR_MASK by (auto simp: bit_simps)

definition flag_pos :: "PTEntryFlag \<Rightarrow> nat" where
  "flag_pos f = (case f of PTE_PRESENT \<Rightarrow> 0 | PTE_WRITABLE \<Rightarrow> 1 | PTE_USER \<Rightarrow> 2 | PTE_ACCESSED \<Rightarrow> 5 | PTE_DIRTY \<Rightarrow> 6
     | PTE_HUGE \<Rightarrow> 7 | PTE_GLOBAL \<Rightarrow> 8 | PTE_NX \<Rightarrow> 63)"

lemma pte_flag_exp: "pte_flag f = push_bit (flag_pos f) 1"
  by (cases f) (simp_all add: flag_pos_def pte_flag.simps)

lemma flag_pos_less: "flag_pos f < 64"
  by (cases f) (simp_all add: flag_pos_def)

lemma bit_exp: "bit (push_bit k 1 :: 'a::len word) n \<longleftrightarrow> n = k \<and> k < LENGTH('a)"
  by (auto simp: bit_simps)

lemma bit_pte_flag: "bit (pte_flag f) n \<longleftrightarrow> n = flag_pos f"
  unfolding pte_flag_exp bit_exp using flag_pos_less [of f] by auto

lemma bit_PTEntryFlags_all: "bit PTEntryFlags_all n \<longleftrightarrow> n \<in> {0, 1, 2, 5, 6, 7, 8, 63}"
  unfolding PTEntryFlags_all_def bit_or_iff bit_pte_flag flag_pos_def by auto

lemma flag_pos_all: "bit PTEntryFlags_all (flag_pos f)"
  by (cases f) (simp_all add: bit_PTEntryFlags_all flag_pos_def)

lemma flags_contain_exp: "k < LENGTH('a) \<Longrightarrow> flags_contain w (push_bit k 1 :: 'a::len word) \<longleftrightarrow> bit w k"
  unfolding flags_contain_def word_bits_eq bit_and_iff bit_exp by auto

lemma flags_contain_flag: "flags_contain w (pte_flag f) \<longleftrightarrow> bit w (flag_pos f)"
  unfolding pte_flag_exp using flag_pos_less [of f] by (intro flags_contain_exp) simp

lemma PTEntry_has_bit: "PTEntry_has f e \<longleftrightarrow> bit (phys_bits e) (flag_pos f)"
  by (simp add: PTEntry_has_def flags_contain_flag PTEntry_flags_def bit_and_iff flag_pos_all)

lemma flags_present: "flags_contain (PTEntry_flags e) (pte_flag f) \<longleftrightarrow> PTEntry_has f e"
  by (simp add: PTEntry_has_def)

lemma PTEntry_null [simp]: "\<not> PTEntry_has f PhysAddr_null"
  by (simp add: PTEntry_has_bit PhysAddr_null_def)

lemma bits_subset: "w AND NOT m = 0 \<longleftrightarrow> (\<forall>n. bit w n \<longrightarrow> bit m n)" for w m :: "'a::len word"
  by (auto simp: word_bits_eq bit_and_iff bit_not_iff dest: bit_imp_le_length)

lemma bits_disjoint: "w AND m = 0 \<longleftrightarrow> (\<forall>n. bit w n \<longrightarrow> \<not> bit m n)" for w m :: "'a::len word"
  by (auto simp: word_bits_eq bit_and_iff dest: bit_imp_le_length)

section \<open>Entries of frames\<close>

text \<open>The encryption masks are address bits and the feature mask has all flags but perhaps the global one.\<close>

definition paging_ok :: "paging \<Rightarrow> bool" where
  "paging_ok pg \<longleftrightarrow> private_pte_mask pg AND NOT 0x000ffffffffff000 = 0 \<and> shared_pte_mask pg AND NOT 0x000ffffffffff000 = 0
     \<and> private_pte_mask pg AND shared_pte_mask pg = 0
     \<and> (feature_mask pg = PTEntryFlags_all \<or> feature_mask pg = PTEntryFlags_all AND NOT (pte_flag PTE_GLOBAL))"

text \<open>The address of a page frame, without encryption bits.\<close>

definition frame_ok :: "paging \<Rightarrow> PhysAddr \<Rightarrow> bool" where
  "frame_ok pg p \<longleftrightarrow> phys_bits p AND NOT 0x000ffffffffff000 = 0 \<and> phys_bits p AND private_pte_mask pg = 0
     \<and> phys_bits p AND shared_pte_mask pg = 0"

definition pte_make :: "paging \<Rightarrow> PhysAddr \<Rightarrow> bool \<Rightarrow> PTEntryFlags \<Rightarrow> PTEntry" where
  "pte_make pg p shared flags = PhysAddr (phys_bits p OR (if shared then shared_pte_mask pg else private_pte_mask pg) OR (flags AND feature_mask pg))"

lemma paging_okD:
  assumes "paging_ok pg"
  shows "bit (private_pte_mask pg) n \<Longrightarrow> 12 \<le> n \<and> n < 52" "bit (shared_pte_mask pg) n \<Longrightarrow> 12 \<le> n \<and> n < 52"
    "bit (private_pte_mask pg) n \<Longrightarrow> \<not> bit (shared_pte_mask pg) n"
    "bit (feature_mask pg) n \<longleftrightarrow> bit PTEntryFlags_all n \<and> (n = 8 \<longrightarrow> bit (feature_mask pg) 8)"
  using assms unfolding paging_ok_def bits_subset bit_ADDR_MASK unfolding bits_disjoint
  by (auto simp: bit_and_iff bit_not_iff bit_pte_flag flag_pos_def bit_PTEntryFlags_all)

lemma frame_okD:
  assumes "frame_ok pg p" and "bit (phys_bits p) n"
  shows "12 \<le> n" "n < 52" "\<not> bit (private_pte_mask pg) n" "\<not> bit (shared_pte_mask pg) n"
  using assms unfolding frame_ok_def bits_subset bit_ADDR_MASK unfolding bits_disjoint by auto

lemma leaf_address_eq:
  assumes "frame_ok pg p"
  shows "leaf_address pg p shared = PhysAddr (phys_bits p OR (if shared then shared_pte_mask pg else private_pte_mask pg))"
proof -
  have "phys_bits p AND NOT (shared_pte_mask pg) = phys_bits p" "phys_bits p AND NOT (private_pte_mask pg) = phys_bits p"
    using frame_okD [OF assms] by (auto simp: word_bits_eq bit_and_iff bit_not_iff)
  then show ?thesis by (simp add: leaf_address_def make_private_address_def make_shared_address_def strip_shared_address_bits_def
      strip_confidentiality_bits_def PhysAddr_from_def)
qed

lemma make_addresses:
  "make_private_address pg p = leaf_address pg p False" "make_shared_address pg p = leaf_address pg p True"
  by (simp_all add: leaf_address_def)

lemma PTEntry_set_eq:
  assumes pg: "paging_ok pg" and p: "frame_ok pg p"
  shows "PTEntry_set pg (leaf_address pg p shared) flags = Some (pte_make pg p shared flags)"
proof -
  have "phys_bits (leaf_address pg p shared) AND NOT 0x000ffffffffff000 = 0"
    unfolding bits_subset bit_ADDR_MASK leaf_address_eq [OF p] using paging_okD(1,2) [OF pg] frame_okD(1,2) [OF p]
    by (auto simp: bit_or_iff)
  then show ?thesis
    by (simp add: PTEntry_set_def PTEntry_set_unrestricted_def supported_flags_def pte_make_def PhysAddr_from_def leaf_address_eq [OF p] or.assoc)
qed

lemma pte_make_read:
  assumes pg: "paging_ok pg" and p: "frame_ok pg p"
  shows "PTEntry_address pg (pte_make pg p shared flags) = p"
    and "PTEntry_flags (pte_make pg p shared flags) = flags AND feature_mask pg"
    and "PTEntry_has f (pte_make pg p shared flags) \<longleftrightarrow> flags_contain (flags AND feature_mask pg) (pte_flag f)"
    and "f \<noteq> PTE_GLOBAL \<Longrightarrow> PTEntry_has f (pte_make pg p shared flags) \<longleftrightarrow> flags_contain flags (pte_flag f)"
proof -
  have fp: "flag_pos f < 12 \<or> flag_pos f = 63" for f by (cases f) (simp_all add: flag_pos_def)
  note P = paging_okD [OF pg] and F = frame_okD [OF p]
  have bits: "bit (phys_bits (pte_make pg p shared flags)) n \<longleftrightarrow> bit (phys_bits p) n
      \<or> bit (if shared then shared_pte_mask pg else private_pte_mask pg) n \<or> (bit flags n \<and> bit (feature_mask pg) n)" for n
    by (auto simp: pte_make_def bit_or_iff bit_and_iff)
  have feat: "bit (feature_mask pg) n \<Longrightarrow> n < 12 \<or> n = 63" for n using P(4) [of n] by (auto simp: bit_PTEntryFlags_all)
  show "PTEntry_address pg (pte_make pg p shared flags) = p"
  proof -
    have "phys_bits (PTEntry_address pg (pte_make pg p shared flags)) = phys_bits p"
      unfolding PTEntry_address_def PTEntry_page_frame_def strip_shared_address_bits_def strip_confidentiality_bits_def PhysAddr_from_def
        word_bits_eq bit_and_iff bit_not_iff bits bit_ADDR_MASK PhysAddr.sel
      using F P(1,2,3) by (auto split: if_splits dest: feat)
    then show ?thesis by (metis PhysAddr.collapse)
  qed
  show "PTEntry_flags (pte_make pg p shared flags) = flags AND feature_mask pg"
  proof -
    have fa: "bit (feature_mask pg) n \<Longrightarrow> bit PTEntryFlags_all n" for n using P(4) [of n] by blast
    have na: "12 \<le> n \<Longrightarrow> n < 52 \<Longrightarrow> \<not> bit PTEntryFlags_all n" for n by (auto simp: bit_PTEntryFlags_all)
    have "\<not> bit PTEntryFlags_all n" if "bit (phys_bits p) n \<or> bit (if shared then shared_pte_mask pg else private_pte_mask pg) n" for n
      using that F(1,2) [of n] P(1,2) [of n] by (intro na) (auto split: if_splits)
    then show ?thesis unfolding PTEntry_flags_def word_bits_eq bit_and_iff bits using fa by blast
  qed
  show h: "PTEntry_has f (pte_make pg p shared flags) \<longleftrightarrow> flags_contain (flags AND feature_mask pg) (pte_flag f)"
    unfolding PTEntry_has_bit flags_contain_flag bits
    using F P(1,2) fp [of f] by (fastforce simp: bit_and_iff split: if_splits)
  show "f \<noteq> PTE_GLOBAL \<Longrightarrow> PTEntry_has f (pte_make pg p shared flags) \<longleftrightarrow> flags_contain flags (pte_flag f)"
    unfolding h flags_contain_flag bit_and_iff using P(4) [of "flag_pos f"] flag_pos_all [of f]
    by (cases f) (simp_all add: flag_pos_def)
qed

lemma table_flags_has:
  assumes "paging_ok pg" and "frame_ok pg p"
  shows "PTEntry_has PTE_PRESENT (pte_make pg p shared table_flags)" "\<not> PTEntry_has PTE_HUGE (pte_make pg p shared table_flags)"
  using pte_make_read(4) [OF assms] by (simp_all add: flags_contain_flag table_flags_def bit_or_iff bit_pte_flag flag_pos_def)

lemma paging_init_ok:
  assumes "paging_init masks g = Some pg" and "pem_private_pte_mask masks AND NOT 0x000ffffffffff000 = 0"
    and "pem_shared_pte_mask masks AND NOT 0x000ffffffffff000 = 0" and "pem_private_pte_mask masks AND pem_shared_pte_mask masks = 0"
  shows "paging_ok pg"
  using assms by (auto simp: paging_init_def paging_ok_def Let_def split: if_splits)

end
