(* ===== verification/Page_Tree.thy ===== *)
theory Page_Tree
  imports Paging_Lemmas
begin

text \<open>
  Page tables as trees: paths of indices from a root page, the invariant that the pages reached by
  different paths differ, and the effect of writing an entry on walks.
\<close>

section \<open>Paths\<close>

definition child :: "pt_env \<Rightarrow> pt_state \<Rightarrow> VirtAddr \<Rightarrow> nat \<Rightarrow> VirtAddr option" where
  "child E s t i = (case pte_get (t, i) s of
       None \<Rightarrow> None
     | Some e \<Rightarrow> (case PTPage_from_entry E e of Some (Some t') \<Rightarrow> Some t' | _ \<Rightarrow> None))"

fun reach :: "pt_env \<Rightarrow> pt_state \<Rightarrow> VirtAddr \<Rightarrow> nat list \<Rightarrow> VirtAddr option" where
  "reach E s t [] = Some t"
| "reach E s t (i # is) = Option.bind (child E s t i) (\<lambda>t'. reach E s t' is)"

lemma reach_append: "reach E s t (p @ q) = Option.bind (reach E s t p) (\<lambda>u. reach E s u q)"
  by (induction p arbitrary: t) simp_all

lemma reach_snoc: "reach E s t (p @ [i]) = Some u \<longleftrightarrow> (\<exists>w. reach E s t p = Some w \<and> child E s w i = Some u)"
proof (cases "reach E s t p")
  case (Some w)
  then show ?thesis by (cases "child E s w i") (simp_all add: reach_append)
qed (simp add: reach_append)

text \<open>The paths below a root that has \<open>n\<close> levels beneath it and follows no index of \<open>S\<close>.\<close>

definition pt_path :: "nat \<Rightarrow> nat set \<Rightarrow> nat list \<Rightarrow> bool" where
  "pt_path n S p \<longleftrightarrow> length p \<le> n \<and> (\<forall>i \<in> set p. i < ENTRY_COUNT) \<and> (p \<noteq> [] \<longrightarrow> hd p \<notin> S)"

lemma pt_path_snoc: "pt_path n S (p @ [i]) \<Longrightarrow> pt_path n S p \<and> i < ENTRY_COUNT \<and> length p < n"
  by (cases p) (auto simp: pt_path_def)

lemma pt_path_Nil [simp]: "pt_path n S []"
  by (simp add: pt_path_def)

section \<open>The invariant\<close>

definition table_page :: "pt_state \<Rightarrow> VirtAddr \<Rightarrow> bool" where
  "table_page s t \<longleftrightarrow> (\<exists>f < hm_page_count (pt_heap s). t = page_vaddr (pt_heap s) f \<and> ah_used (heap_abs (pt_heap s)) f = Some (AllocP 0))
     \<and> (\<exists>es. pt_pages s t = Some es \<and> length es = ENTRY_COUNT)"

definition pt_tree :: "pt_env \<Rightarrow> nat set \<Rightarrow> nat \<Rightarrow> nat set \<Rightarrow> VirtAddr \<Rightarrow> pt_state \<Rightarrow> bool" where
  "pt_tree E B n S root s \<longleftrightarrow> root_ok B (pt_heap s)
     \<and> (\<forall>p t. pt_path n S p \<longrightarrow> reach E s root p = Some t \<longrightarrow> table_page s t)
     \<and> (\<forall>p q t. pt_path n S p \<longrightarrow> pt_path n S q \<longrightarrow> reach E s root p = Some t \<longrightarrow> reach E s root q = Some t \<longrightarrow> p = q)
     \<and> (\<forall>p t i e. pt_path n S (p @ [i]) \<longrightarrow> reach E s root p = Some t \<longrightarrow> pte_get (t, i) s = Some e \<longrightarrow> PTPage_from_entry E e \<noteq> None)"

lemma pt_treeD:
  assumes "pt_tree E B n S root s"
  shows "root_ok B (pt_heap s)" "pt_path n S p \<Longrightarrow> reach E s root p = Some t \<Longrightarrow> table_page s t"
    "pt_path n S p \<Longrightarrow> pt_path n S q \<Longrightarrow> reach E s root p = Some t \<Longrightarrow> reach E s root q = Some t \<Longrightarrow> p = q"
    "pt_path n S (p @ [i]) \<Longrightarrow> reach E s root p = Some t \<Longrightarrow> pte_get (t, i) s = Some e \<Longrightarrow> PTPage_from_entry E e \<noteq> None"
  using assms unfolding pt_tree_def by blast+

lemma table_page_get: "table_page s t \<Longrightarrow> i < ENTRY_COUNT \<Longrightarrow> \<exists>e. pte_get (t, i) s = Some e"
  by (auto simp: table_page_def pte_get_def idx_def)

lemma pte_put_eq:
  assumes "pte_get (t, i) s = Some e0"
  obtains s' where "pte_put (t, i) e s = Some s'" "pt_heap s' = pt_heap s"
    "\<And>u j. pte_get (u, j) s' = (if u = t \<and> j = i then Some e else pte_get (u, j) s)"
    "\<And>u. (\<exists>es. pt_pages s' u = Some es \<and> length es = k) \<longleftrightarrow> (\<exists>es. pt_pages s u = Some es \<and> length es = k)"
proof -
  from assms obtain es where es: "pt_pages s t = Some es" "i < length es" by (auto simp: pte_get_def idx_def split: Option.bind_splits if_splits)
  show thesis
    by (rule that [of "s\<lparr>pt_pages := (pt_pages s)(t \<mapsto> es[i := e])\<rparr>"])
      (use es in \<open>auto simp: pte_put_def pte_get_def idx_def nth_list_update split: Option.bind_splits if_splits\<close>)
qed

section \<open>Walks\<close>

lemma pt_index_less: "pt_index l v < ENTRY_COUNT"
proof -
  have "VirtAddr_to_pgtbl_idx l v \<le> 0x1ff" unfolding VirtAddr_to_pgtbl_idx_def by (rule word_and_le1)
  then have "unat (VirtAddr_to_pgtbl_idx l v) \<le> unat (0x1ff :: u64)" by (simp add: word_le_nat_alt)
  then show ?thesis by (simp add: pt_index_def ENTRY_COUNT_def)
qed

fun gwalk :: "pt_env \<Rightarrow> pt_state \<Rightarrow> nat \<Rightarrow> VirtAddr \<Rightarrow> VirtAddr \<Rightarrow> nat \<times> pte_ref" where
  "gwalk E s 0 t v = (0, (t, pt_index 0 v))"
| "gwalk E s (Suc l) t v = (case child E s t (pt_index (Suc l) v) of
      Some t' \<Rightarrow> gwalk E s l t' v
    | None \<Rightarrow> (Suc l, (t, pt_index (Suc l) v)))"

text \<open>The path of an address from a table of level \<open>m\<close> to its table of level \<open>l\<close>.\<close>

definition vpath :: "VirtAddr \<Rightarrow> nat \<Rightarrow> nat \<Rightarrow> nat list" where
  "vpath v m l = map (\<lambda>k. pt_index k v) (rev [Suc l ..< Suc m])"

lemma vpath_simps:
  "vpath v m m = []" "l \<le> m \<Longrightarrow> vpath v (Suc m) l = pt_index (Suc m) v # vpath v m l"
  by (simp_all add: vpath_def)

lemma vpath_snoc: "l < m \<Longrightarrow> vpath v m l = vpath v m (Suc l) @ [pt_index (Suc l) v]"
  using upt_conv_Cons [of "Suc l" "Suc m"] by (simp add: vpath_def)

lemma length_vpath: "length (vpath v m l) = m - l"
  unfolding vpath_def length_map length_rev length_upt by simp

lemma vpath_eq_iff: "l \<le> m \<Longrightarrow> vpath v m l = vpath w m l \<longleftrightarrow> (\<forall>k. l < k \<longrightarrow> k \<le> m \<longrightarrow> pt_index k v = pt_index k w)"
  unfolding vpath_def map_eq_conv set_rev set_upt by (auto simp del: upt_Suc)

lemma vpath_path:
  assumes "pt_index n v \<notin> S"
  shows "pt_path n S (vpath v n l)"
proof -
  have "hd (vpath v n l) = pt_index n v" if "vpath v n l \<noteq> []"
  proof -
    from that have "l < n" using length_vpath [of v n l] by (cases "l < n") auto
    then obtain m where "n = Suc m" "l \<le> m" by (cases n) auto
    then show ?thesis by (simp add: vpath_simps)
  qed
  then show ?thesis using assms pt_index_less by (auto simp: pt_path_def length_vpath) (auto simp: vpath_def)
qed

lemma gwalk_reach:
  "gwalk E s m t v = (l, (u, i)) \<Longrightarrow> l \<le> m \<and> reach E s t (vpath v m l) = Some u \<and> i = pt_index l v \<and> (l = 0 \<or> child E s u i = None)"
proof (induction m arbitrary: t)
  case (Suc m)
  show ?case
  proof (cases "child E s t (pt_index (Suc m) v)")
    case (Some t')
    with Suc.IH [of t'] Suc.prems show ?thesis by (auto simp: vpath_simps)
  qed (use Suc.prems in \<open>auto simp: vpath_simps\<close>)
qed (auto simp: vpath_simps)

lemma gwalkI:
  "l \<le> m \<Longrightarrow> reach E s t (vpath v m l) = Some u \<Longrightarrow> l = 0 \<or> child E s u (pt_index l v) = None \<Longrightarrow> gwalk E s m t v = (l, (u, pt_index l v))"
proof (induction m arbitrary: t)
  case (Suc m)
  show ?case
  proof (cases "l = Suc m")
    case True
    then show ?thesis using Suc.prems by (simp add: vpath_simps)
  next
    case False
    then have "l \<le> m" using Suc.prems by simp
    then show ?thesis using Suc.prems Suc.IH by (auto simp: vpath_simps split: Option.bind_splits)
  qed
qed (simp add: vpath_simps)

definition mk_mapping :: "nat \<times> pte_ref \<Rightarrow> Mapping" where
  "mk_mapping = (\<lambda>(l, r). if l = 0 then Level0 r else if l = 1 then Level1 r else if l = 2 then Level2 r else Level3 r)"

fun walk_good :: "pt_env \<Rightarrow> pt_state \<Rightarrow> nat \<Rightarrow> VirtAddr \<Rightarrow> VirtAddr \<Rightarrow> bool" where
  "walk_good E s 0 t v \<longleftrightarrow> pte_get (t, pt_index 0 v) s \<noteq> None"
| "walk_good E s (Suc l) t v \<longleftrightarrow> (\<exists>e. pte_get (t, pt_index (Suc l) v) s = Some e \<and> PTPage_from_entry E e \<noteq> None
     \<and> (\<forall>t'. child E s t (pt_index (Suc l) v) = Some t' \<longrightarrow> walk_good E s l t' v))"

lemma walk_levels:
  "walk_good E s 0 t v \<Longrightarrow> walk_addr_lvl0 t v s = Some (mk_mapping (gwalk E s 0 t v))"
  "walk_good E s 1 t v \<Longrightarrow> walk_addr_lvl1 E t v s = Some (mk_mapping (gwalk E s 1 t v))"
  "walk_good E s 2 t v \<Longrightarrow> walk_addr_lvl2 E t v s = Some (mk_mapping (gwalk E s 2 t v))"
  "walk_good E s 3 t v \<Longrightarrow> walk_addr_lvl3 E t v s = Some (mk_mapping (gwalk E s 3 t v))"
proof -
  show w0: "walk_good E s 0 t v \<Longrightarrow> walk_addr_lvl0 t v s = Some (mk_mapping (gwalk E s 0 t v))" for t
    by (auto simp: walk_addr_lvl0_def mk_mapping_def)
  show w1: "walk_good E s 1 t v \<Longrightarrow> walk_addr_lvl1 E t v s = Some (mk_mapping (gwalk E s 1 t v))" for t
    using w0 unfolding One_nat_def
    by (auto simp: walk_addr_lvl1_def child_def mk_mapping_def split: option.splits)
  show w2: "walk_good E s 2 t v \<Longrightarrow> walk_addr_lvl2 E t v s = Some (mk_mapping (gwalk E s 2 t v))" for t
    using w1 unfolding numeral_2_eq_2 One_nat_def
    by (auto simp: walk_addr_lvl2_def child_def mk_mapping_def numeral_2_eq_2 split: option.splits)
  show "walk_good E s 3 t v \<Longrightarrow> walk_addr_lvl3 E t v s = Some (mk_mapping (gwalk E s 3 t v))"
    using w2 unfolding numeral_3_eq_3 numeral_2_eq_2 One_nat_def
    by (auto simp: walk_addr_lvl3_def child_def mk_mapping_def numeral_2_eq_2 numeral_3_eq_3 split: option.splits)
qed

lemma tree_walk_good:
  assumes T: "pt_tree E B n S root s" and v: "pt_index n v \<notin> S"
  shows "l \<le> n \<Longrightarrow> reach E s root (vpath v n l) = Some t \<Longrightarrow> walk_good E s l t v"
proof (induction l arbitrary: t)
  case 0
  from table_page_get [OF pt_treeD(2) [OF T vpath_path [OF v] 0(2)] pt_index_less, of 0 v] show ?case by auto
next
  case (Suc l)
  note snoc = vpath_snoc [of l n v]
  from table_page_get [OF pt_treeD(2) [OF T vpath_path [OF v] Suc.prems(2)] pt_index_less, of "Suc l" v]
  obtain e where e: "pte_get (t, pt_index (Suc l) v) s = Some e" by blast
  have "pt_path n S (vpath v n (Suc l) @ [pt_index (Suc l) v])" using vpath_path [OF v, of l] snoc Suc.prems(1) by simp
  from pt_treeD(4) [OF T this Suc.prems(2) e] have "PTPage_from_entry E e \<noteq> None" .
  moreover have "walk_good E s l t' v" if "child E s t (pt_index (Suc l) v) = Some t'" for t'
    using that Suc.prems by (intro Suc.IH) (auto simp: snoc reach_snoc)
  ultimately show ?case using e by simp
qed

lemma tree_walk:
  assumes T: "pt_tree E B n S root s" and v: "pt_index n v \<notin> S"
  shows "walk_good E s n root v"
  using tree_walk_good [OF assms, of n root] by (simp add: vpath_simps)

lemma gwalk_get:
  assumes T: "pt_tree E B n S root s" and v: "pt_index n v \<notin> S" and g: "gwalk E s n root v = (l, (t, i))"
  shows "table_page s t" "\<exists>e. pte_get (t, i) s = Some e" "pt_path n S (vpath v n l)" "reach E s root (vpath v n l) = Some t"
    "i = pt_index l v" "l \<le> n" "l = 0 \<or> child E s t i = None"
proof -
  note w = gwalk_reach [OF g]
  show p: "pt_path n S (vpath v n l)" by (rule vpath_path [OF v])
  show r: "reach E s root (vpath v n l) = Some t" and i: "i = pt_index l v" and "l \<le> n" "l = 0 \<or> child E s t i = None"
    using w by auto
  show t: "table_page s t" by (rule pt_treeD(2) [OF T p r])
  show "\<exists>e. pte_get (t, i) s = Some e" using table_page_get [OF t pt_index_less, of l v] i by simp
qed

end
