(* ===== verification/Page_Tree_Update.thy ===== *)
theory Page_Tree_Update
  imports Page_Tree
begin

text \<open>
  Writing entries of a page table tree: a leaf entry changes one translation, a new table page
  changes none.
\<close>

section \<open>Paths after an update\<close>

lemma reach_same:
  assumes T: "pt_tree E B n S root s" and p: "pt_path n S p" "reach E s root p = Some t"
    and other: "\<And>u j. \<not> (u = t \<and> j = i) \<Longrightarrow> child E s' u j = child E s u j"
    and leaf: "child E s' t i = child E s t i \<or> length p = n"
  shows "pt_path n S q \<Longrightarrow> reach E s' root q = reach E s root q"
proof (induction q rule: rev_induct)
  case (snoc j q)
  note q = pt_path_snoc [OF snoc.prems]
  have IH: "reach E s' root q = reach E s root q" using snoc.IH q by blast
  show ?case
  proof (cases "reach E s root q")
    case (Some u)
    have "child E s' u j = child E s u j"
    proof (cases "u = t \<and> j = i")
      case True
      then have "q = p" using pt_treeD(3) [OF T, of q p t] q p Some by auto
      then show ?thesis using leaf True q by auto
    qed (rule other)
    then show ?thesis using IH Some by (simp add: reach_append)
  qed (simp add: reach_append IH)
qed simp

lemma reach_link:
  assumes T: "pt_tree E B n S root s" and p: "pt_path n S p" "reach E s root p = Some t" "length p < n"
    and old: "child E s t i = None" and new: "child E s' t i = Some t'" "\<And>j. child E s' t' j = None \<or> Suc (length p) = n"
    and other: "\<And>u j. u \<noteq> t' \<Longrightarrow> \<not> (u = t \<and> j = i) \<Longrightarrow> child E s' u j = child E s u j"
    and fresh: "\<And>q. pt_path n S q \<Longrightarrow> reach E s root q \<noteq> Some t'"
  shows "pt_path n S q \<Longrightarrow> reach E s' root q = Some u \<longleftrightarrow> reach E s root q = Some u \<or> (q = p @ [i] \<and> u = t')"
proof (induction q arbitrary: u rule: rev_induct)
  case (snoc j q)
  note q = pt_path_snoc [OF snoc.prems]
  have IH: "reach E s' root q = Some w \<longleftrightarrow> reach E s root q = Some w \<or> (q = p @ [i] \<and> w = t')" for w
    using snoc.IH q by blast
  have step: "child E s' w j = Some u \<longleftrightarrow> child E s w j = Some u \<or> (q = p \<and> j = i \<and> u = t')" if w: "reach E s root q = Some w" for w
  proof (cases "w = t \<and> j = i")
    case True
    then have "q = p" using pt_treeD(3) [OF T, of q p t] q p w by auto
    then show ?thesis using True old new(1) by auto
  next
    case False
    have "w \<noteq> t'" using fresh q w by blast
    moreover have "\<not> (q = p \<and> j = i)" using False w p(2) by auto
    ultimately show ?thesis using other [of w j] False by auto
  qed
  have "reach E s' root (q @ [j]) = Some u \<longleftrightarrow> (\<exists>w. reach E s root q = Some w \<and> child E s' w j = Some u)"
    unfolding reach_snoc IH using new(2) [of j] q by auto
  also have "\<dots> \<longleftrightarrow> (\<exists>w. reach E s root q = Some w \<and> child E s w j = Some u) \<or> (q = p \<and> j = i \<and> u = t')"
    using step p(2) by metis
  finally show ?case unfolding reach_snoc by auto
qed auto

section \<open>Translations\<close>

definition leaf_of :: "pt_env \<Rightarrow> nat \<Rightarrow> VirtAddr \<Rightarrow> pt_state \<Rightarrow> VirtAddr \<Rightarrow> nat \<times> PTEntry" where
  "leaf_of E n root s v = (case gwalk E s n root v of (l, r) \<Rightarrow> (l, the (pte_get r s)))"

text \<open>The present leaf entry of an address with its level.\<close>

definition pt_trans :: "pt_env \<Rightarrow> nat \<Rightarrow> VirtAddr \<Rightarrow> pt_state \<Rightarrow> VirtAddr \<Rightarrow> (nat \<times> PTEntry) option" where
  "pt_trans E n root s v = (let (l, e) = leaf_of E n root s v in if PTEntry_has PTE_PRESENT e then Some (l, e) else None)"

text \<open>Two addresses under the same entry of level \<open>l\<close>.\<close>

definition same_entry :: "nat \<Rightarrow> nat \<Rightarrow> VirtAddr \<Rightarrow> VirtAddr \<Rightarrow> bool" where
  "same_entry n l v w \<longleftrightarrow> (\<forall>k. l \<le> k \<longrightarrow> k \<le> n \<longrightarrow> pt_index k w = pt_index k v)"

lemma same_entry_path: "l \<le> n \<Longrightarrow> same_entry n l v w \<longleftrightarrow> vpath w n l = vpath v n l \<and> pt_index l w = pt_index l v"
  by (auto simp: same_entry_def vpath_eq_iff) (metis le_neq_implies_less)

lemma same_entry_refl [simp]: "same_entry n l v v"
  by (simp add: same_entry_def)

lemma same_entry_gwalk:
  assumes T: "pt_tree E B n S root s" and v: "pt_index n v \<notin> S" and w: "pt_index n w \<notin> S"
    and g: "gwalk E s n root v = (l, (t, i))" and h: "gwalk E s n root w = (k, (u, j))"
  shows "u = t \<and> j = i \<longleftrightarrow> same_entry n l v w" and "u = t \<Longrightarrow> k = l" and "same_entry n l v w \<Longrightarrow> k = l"
proof -
  note G = gwalk_get [OF T v g] and H = gwalk_get [OF T w h]
  have kl: "vpath w n k = vpath v n l \<and> k = l" if "u = t"
  proof -
    have "vpath w n k = vpath v n l" using pt_treeD(3) [OF T H(3) G(3), of t] H(4) G(4) that by simp
    moreover from this have "k = l" using length_vpath [of w n k] length_vpath [of v n l] G(6) H(6) by simp
    ultimately show ?thesis by simp
  qed
  then show "u = t \<Longrightarrow> k = l" by blast
  have bk: "(k, u, j) = (l, t, i)" if "same_entry n l v w"
  proof -
    have e: "vpath w n l = vpath v n l" "pt_index l w = pt_index l v" using that same_entry_path [OF G(6)] by auto
    have "gwalk E s n root w = (l, (t, pt_index l w))"
      using G e by (intro gwalkI) auto
    then show ?thesis using h G(5) e by simp
  qed
  then show "same_entry n l v w \<Longrightarrow> k = l" by blast
  show "u = t \<and> j = i \<longleftrightarrow> same_entry n l v w"
    using kl bk G(5,6) H(5) same_entry_path [OF G(6), of v w] by auto
qed

section \<open>Writing a leaf entry\<close>

lemma pt_tree_same:
  assumes T: "pt_tree E B n S root s" and heap: "pt_heap s' = pt_heap s"
    and r: "\<And>q. pt_path n S q \<Longrightarrow> reach E s' root q = reach E s root q"
    and pages: "\<And>u. (\<exists>es. pt_pages s' u = Some es \<and> length es = ENTRY_COUNT) \<longleftrightarrow> (\<exists>es. pt_pages s u = Some es \<and> length es = ENTRY_COUNT)"
    and entries: "\<And>q i t e. pt_path n S (q @ [i]) \<Longrightarrow> reach E s root q = Some t \<Longrightarrow> pte_get (t, i) s' = Some e \<Longrightarrow> PTPage_from_entry E e \<noteq> None"
  shows "pt_tree E B n S root s'"
  unfolding pt_tree_def
proof (intro conjI allI impI)
  show "root_ok B (pt_heap s')" using pt_treeD(1) [OF T] heap by simp
  fix p t assume "pt_path n S p" "reach E s' root p = Some t"
  then have "table_page s t" using pt_treeD(2) [OF T] r by simp
  then show "table_page s' t" using heap pages by (simp add: table_page_def)
next
  fix p q t assume "pt_path n S p" "pt_path n S q" "reach E s' root p = Some t" "reach E s' root q = Some t"
  then show "p = q" using pt_treeD(3) [OF T] r by simp
next
  fix p t i e assume a: "pt_path n S (p @ [i])" "reach E s' root p = Some t" "pte_get (t, i) s' = Some e"
  then show "PTPage_from_entry E e \<noteq> None" using entries [OF a(1) _ a(3)] r [of p] pt_path_snoc [OF a(1)] by simp
qed

lemma put_leaf:
  assumes T: "pt_tree E B n S root s" and v: "pt_index n v \<notin> S" and g: "gwalk E s n root v = (l, (t, i))"
    and e: "l = 0 \<or> PTPage_from_entry E e = Some None"
  obtains s' where "pte_put (t, i) e s = Some s'" "pt_tree E B n S root s'" "pt_heap s' = pt_heap s"
    "\<And>w. pt_index n w \<notin> S \<Longrightarrow> gwalk E s' n root w = gwalk E s n root w"
    "\<And>w. pt_index n w \<notin> S \<Longrightarrow> pt_trans E n root s' w =
      (if same_entry n l v w then (if PTEntry_has PTE_PRESENT e then Some (l, e) else None) else pt_trans E n root s w)"
    "pte_get (t, i) s' = Some e"
proof -
  note G = gwalk_get [OF T v g]
  from G(2) obtain e0 where e0: "pte_get (t, i) s = Some e0" by blast
  from pte_put_eq [OF e0, of e ENTRY_COUNT] obtain s' where s': "pte_put (t, i) e s = Some s'" "pt_heap s' = pt_heap s"
    "\<And>u j. pte_get (u, j) s' = (if u = t \<and> j = i then Some e else pte_get (u, j) s)"
    "\<And>u. (\<exists>es. pt_pages s' u = Some es \<and> length es = ENTRY_COUNT) \<longleftrightarrow> (\<exists>es. pt_pages s u = Some es \<and> length es = ENTRY_COUNT)"
    by blast
  have c: "child E s' u j = child E s u j" if "\<not> (u = t \<and> j = i)" for u j using that by (auto simp: child_def s'(3))
  have ct: "child E s' t i = None \<and> child E s t i = None \<or> l = 0" using e G(7) by (auto simp: child_def s'(3))
  have len: "l = 0 \<Longrightarrow> length (vpath v n l) = n" by (simp add: length_vpath)
  have r: "reach E s' root q = reach E s root q" if "pt_path n S q" for q
    by (rule reach_same [OF T G(3,4) c _ that]) (use ct len in auto)
  have tree: "pt_tree E B n S root s'"
  proof (rule pt_tree_same [OF T s'(2) r s'(4)])
    fix q j u x assume a: "pt_path n S (q @ [j])" "reach E s root q = Some u" "pte_get (u, j) s' = Some x"
    show "PTPage_from_entry E x \<noteq> None"
    proof (cases "u = t \<and> j = i")
      case True
      then have "q = vpath v n l" using pt_treeD(3) [OF T _ G(3), of q t] pt_path_snoc [OF a(1)] a(2) G(4) by simp
      then have "l \<noteq> 0" using pt_path_snoc [OF a(1)] len by (cases "l = 0") auto
      then show ?thesis using e a(3) True by (simp add: s'(3))
    qed (use pt_treeD(4) [OF T a(1,2)] a(3) in \<open>auto simp: s'(3)\<close>)
  qed
  have gw: "gwalk E s' n root w = gwalk E s n root w" if w: "pt_index n w \<notin> S" for w
  proof -
    obtain k u j where h: "gwalk E s n root w = (k, (u, j))" by (metis prod.exhaust)
    note H = gwalk_get [OF T w h]
    have "k = 0 \<or> child E s' u j = None"
      using H(7) c [of u j] ct same_entry_gwalk(2) [OF T v w g h] by (cases "u = t \<and> j = i") auto
    then show ?thesis using H r [OF H(3)] h by (auto intro: gwalkI)
  qed
  have "pt_trans E n root s' w = (if same_entry n l v w then (if PTEntry_has PTE_PRESENT e then Some (l, e) else None) else pt_trans E n root s w)"
    if w: "pt_index n w \<notin> S" for w
  proof -
    obtain k u j where h: "gwalk E s n root w = (k, (u, j))" by (metis prod.exhaust)
    show ?thesis using same_entry_gwalk [OF T v w g h] by (auto simp: pt_trans_def leaf_of_def gw [OF w] h s'(3))
  qed
  with s'(1,2) tree gw show thesis by (intro that [of s']) (simp_all add: s'(3))
qed

section \<open>A new table page\<close>

text \<open>
  What the kernel guarantees of the heap: every heap page has a physical frame without encryption
  bits, and the fixed mapping leads from the frame back to the page.
\<close>

definition env_ok :: "pt_env \<Rightarrow> HeapMemoryRegion \<Rightarrow> bool" where
  "env_ok E r \<longleftrightarrow> paging_ok (pe_paging E) \<and> (\<forall>f < hm_page_count r. \<exists>p. pe_virt_to_phys E (page_vaddr r f) = Some p
     \<and> frame_ok (pe_paging E) p \<and> phys_to_virt (pe_fixed_mapping E) p = Some (page_vaddr r f))"

lemma env_ok_same:
  "env_ok E r \<Longrightarrow> hm_start_virt r' = hm_start_virt r \<Longrightarrow> hm_page_count r' = hm_page_count r \<Longrightarrow> env_ok E r'"
  unfolding env_ok_def by (drule page_vaddr_cong) simp

lemma page_vaddr_inj:
  assumes "root_ok B r" and "f < hm_page_count r" and "g < hm_page_count r" and "page_vaddr r f = page_vaddr r g"
  shows "f = g"
proof -
  have "f * PAGE_SIZE = g * PAGE_SIZE" using frame_addr(2) [OF assms(1,2)] frame_addr(2) [OF assms(1,3)] unfolding assms(4) by linarith
  then show ?thesis by (simp add: page_consts)
qed

text \<open>A page from the allocator is linked nowhere.\<close>

definition new_page :: "pt_env \<Rightarrow> nat set \<Rightarrow> pt_state \<Rightarrow> VirtAddr \<Rightarrow> PhysAddr \<Rightarrow> pt_state \<Rightarrow> bool" where
  "new_page E B s page pa s1 \<longleftrightarrow> (\<exists>f heap. page = page_vaddr (pt_heap s) f \<and> f < hm_page_count (pt_heap s)
     \<and> ah_used (heap_abs (pt_heap s)) f = None \<and> ah_used (heap_abs heap) = (ah_used (heap_abs (pt_heap s)))(f \<mapsto> AllocP 0)
     \<and> ah_free (heap_abs heap) = ah_free (heap_abs (pt_heap s)) - {f}
     \<and> s1 = s\<lparr>pt_heap := heap, pt_pages := (pt_pages s)(page \<mapsto> replicate ENTRY_COUNT PhysAddr_null)\<rparr>
     \<and> root_ok B heap \<and> hm_start_virt heap = hm_start_virt (pt_heap s) \<and> hm_page_count heap = hm_page_count (pt_heap s)
     \<and> pe_virt_to_phys E page = Some pa \<and> frame_ok (pe_paging E) pa \<and> phys_to_virt (pe_fixed_mapping E) pa = Some page)"

definition no_memory :: "pt_state \<Rightarrow> bool" where
  "no_memory s \<longleftrightarrow> ah_free (heap_abs (pt_heap s)) = {}"

definition free_pages :: "pt_state \<Rightarrow> nat" where
  "free_pages s = card (ah_free (heap_abs (pt_heap s)))"

lemma new_pageD:
  assumes "new_page E B s page pa s1"
  shows "pt_pages s1 = (pt_pages s)(page \<mapsto> replicate ENTRY_COUNT PhysAddr_null)" "frame_ok (pe_paging E) pa"
    "phys_to_virt (pe_fixed_mapping E) pa = Some page" "pe_virt_to_phys E page = Some pa"
    "root_ok B (pt_heap s1)" "hm_start_virt (pt_heap s1) = hm_start_virt (pt_heap s)" "hm_page_count (pt_heap s1) = hm_page_count (pt_heap s)"
  using assms unfolding new_page_def by (elim exE conjE; simp)+

lemma new_page_free: "new_page E B s page pa s1 \<Longrightarrow> free_pages s \<le> Suc (free_pages s1)"
  unfolding new_page_def by (elim exE conjE) (simp add: free_pages_def card_Diff_singleton_if; linarith)

lemma no_memory_free: "no_memory s \<Longrightarrow> free_pages s = 0"
  by (simp add: no_memory_def free_pages_def)

lemma PTPage_alloc_ok:
  assumes r: "root_ok B (pt_heap s)" and E: "env_ok E (pt_heap s)"
  shows "(\<exists>page pa s1. PTPage_alloc E s = Some (Ok (page, pa), s1) \<and> new_page E B s page pa s1)
    \<or> (PTPage_alloc E s = Some (Err (SvsmError_Alloc AllocError_OutOfMemory), s) \<and> no_memory s)"
proof -
  have inv: "heap_inv B (pt_heap s)" using r by (simp add: root_ok_def)
  have pg: "used_page 0 (AllocP 0)" "0 < MAX_ORDER" by (simp_all add: MAX_ORDER_def)
  have eq: "heap_allocate_pages 0 = allocate_pages_info 0 (AllocP 0)"
    by (simp add: heap_allocate_pages_def fun_eq_iff)
  from heap_alloc_refines [OF inv pg(2,1)] show ?thesis
  proof (elim disjE exE conjE)
    fix f heap assume f: "allocate_pages_info 0 (AllocP 0) (pt_heap s) = Some (Ok (page_vaddr (pt_heap s) f), heap)" "heap_inv B heap"
      "f < hm_page_count (pt_heap s)" "abs_alloc 0 (AllocP 0) f (heap_abs (pt_heap s)) (heap_abs heap)"
      "hm_start_virt heap = hm_start_virt (pt_heap s)" "hm_page_count heap = hm_page_count (pt_heap s)"
    have root: "root_ok B heap" using r f by (simp add: root_ok_def)
    let ?v = "page_vaddr (pt_heap s) f"
    have nz: "virt_bits ?v \<noteq> 0" using frame_addr(2) [OF r f(3)] r by (auto simp: root_ok_def unat_eq_zero)
    from E f(3) obtain pa where pa: "pe_virt_to_phys E ?v = Some pa" "frame_ok (pe_paging E) pa"
      "phys_to_virt (pe_fixed_mapping E) pa = Some ?v" by (auto simp: env_ok_def)
    let ?s = "s\<lparr>pt_heap := heap, pt_pages := (pt_pages s)(?v \<mapsto> replicate ENTRY_COUNT PhysAddr_null)\<rparr>"
    have "PTPage_alloc E s = Some (Ok (?v, pa), ?s)"
      using f(1) nz pa(1) by (simp add: PTPage_alloc_def PTPage_alloc_box_def bindM_def eq)
    moreover have "new_page E B s ?v pa ?s"
      unfolding new_page_def using f(3-6) root pa by (intro exI [of _ f] exI [of _ heap]) (auto simp: abs_alloc_def block_of_def)
    ultimately show ?thesis by blast
  next
    assume a: "allocate_pages_info 0 (AllocP 0) (pt_heap s) = Some (Err AllocError_OutOfMemory, pt_heap s)"
      "\<forall>p j nx. p < hm_page_count (pt_heap s) \<longrightarrow> 0 \<le> j \<longrightarrow> heap_view (pt_heap s) p \<noteq> FreeP nx j"
    then have "no_memory s" by (auto simp: no_memory_def heap_abs_def free_set_def free_heads_def)
    then show ?thesis using a(1) by (simp add: PTPage_alloc_def PTPage_alloc_box_def bindM_def eq)
  qed
qed

lemma from_entry_null [simp]: "PTPage_from_entry E PhysAddr_null = Some None"
  by (simp add: PTPage_from_entry_def Let_def flags_present)

lemma from_entry_table:
  assumes "env_ok E r" and "frame_ok (pe_paging E) pa" and "phys_to_virt (pe_fixed_mapping E) pa = Some t"
    and "flags_contain flags (pte_flag PTE_PRESENT)" and "\<not> flags_contain flags (pte_flag PTE_HUGE)"
  shows "PTPage_from_entry E (pte_make (pe_paging E) pa sh flags) = Some (Some t)"
    and "PTEntry_has PTE_PRESENT (pte_make (pe_paging E) pa sh flags)"
  using assms pte_make_read [of "pe_paging E" pa] by (auto simp: PTPage_from_entry_def Let_def flags_present env_ok_def)

lemma new_page_other:
  assumes r: "root_ok B (pt_heap s)" and new: "new_page E B s page pa s1" and t: "table_page s t"
  shows "t \<noteq> page"
proof
  assume "t = page"
  from t obtain f where f: "f < hm_page_count (pt_heap s)" "t = page_vaddr (pt_heap s) f"
    "ah_used (heap_abs (pt_heap s)) f = Some (AllocP 0)" by (auto simp: table_page_def)
  from new obtain g where g: "g < hm_page_count (pt_heap s)" "page = page_vaddr (pt_heap s) g" "ah_used (heap_abs (pt_heap s)) g = None"
    by (auto simp: new_page_def)
  have "f = g" using page_vaddr_inj [OF r f(1) g(1)] f(2) g(2) \<open>t = page\<close> by simp
  then show False using f(3) g(3) by simp
qed

lemma new_page_fresh:
  assumes T: "pt_tree E B n S root s" and new: "new_page E B s page pa s1" and q: "pt_path n S q"
  shows "reach E s root q \<noteq> Some page"
  using new_page_other [OF pt_treeD(1) [OF T] new pt_treeD(2) [OF T q]] by blast

text \<open>
  Linking a page with the entries \<open>es\<close> into an entry that is no table entry.  The entries of the
  page are leaf entries of the next level.
\<close>

lemma link_tree:
  assumes T: "pt_tree E B n S root s" and root: "root_ok B (pt_heap s3)"
    and r3: "\<And>q u. pt_path n S q \<Longrightarrow> reach E s3 root q = Some u \<longleftrightarrow> reach E s root q = Some u \<or> (q = p @ [i] \<and> u = page)"
    and old: "\<And>u. table_page s u \<Longrightarrow> u \<noteq> page \<Longrightarrow> table_page s3 u" and new: "table_page s3 page"
    and fresh: "\<And>q. pt_path n S q \<Longrightarrow> reach E s root q \<noteq> Some page"
    and entries: "\<And>q u j e. pt_path n S (q @ [j]) \<Longrightarrow> reach E s root q = Some u \<or> (q = p @ [i] \<and> u = page)
      \<Longrightarrow> pte_get (u, j) s3 = Some e \<Longrightarrow> PTPage_from_entry E e \<noteq> None"
  shows "pt_tree E B n S root s3"
  unfolding pt_tree_def
proof (intro conjI allI impI)
  fix q u assume q: "pt_path n S q" "reach E s3 root q = Some u"
  then consider "reach E s root q = Some u" "u \<noteq> page" | "u = page" using r3 fresh by metis
  then show "table_page s3 u" using old new pt_treeD(2) [OF T q(1)] by cases auto
next
  fix q q' u assume q: "pt_path n S q" "pt_path n S q'" "reach E s3 root q = Some u" "reach E s3 root q' = Some u"
  show "q = q'"
  proof (cases "u = page")
    case True
    then show ?thesis using q r3 fresh by metis
  next
    case False
    then show ?thesis using pt_treeD(3) [OF T q(1,2), of u] q r3 by blast
  qed
next
  fix q u j e assume a: "pt_path n S (q @ [j])" "reach E s3 root q = Some u" "pte_get (u, j) s3 = Some e"
  then show "PTPage_from_entry E e \<noteq> None" using entries [OF a(1) _ a(3)] r3 pt_path_snoc [OF a(1)] by blast
qed (rule root)

lemma link_walk:
  assumes T: "pt_tree E B n S root s" and v: "pt_index n v \<notin> S" and g: "gwalk E s n root v = (Suc l, (t, i))" and w: "pt_index n w \<notin> S"
    and r3: "\<And>q u. pt_path n S q \<Longrightarrow> reach E s3 root q = Some u \<longleftrightarrow> reach E s root q = Some u \<or> (q = vpath v n (Suc l) @ [i] \<and> u = page)"
    and c2: "\<And>j. child E s3 page j = None \<or> l = 0"
    and c3: "\<And>u j. u \<noteq> page \<Longrightarrow> \<not> (u = t \<and> j = i) \<Longrightarrow> child E s3 u j = child E s u j"
    and get: "\<And>u j. u \<noteq> page \<Longrightarrow> \<not> (u = t \<and> j = i) \<Longrightarrow> pte_get (u, j) s3 = pte_get (u, j) s"
    and fresh: "\<And>q. pt_path n S q \<Longrightarrow> reach E s root q \<noteq> Some page"
  shows "gwalk E s3 n root w = (if same_entry n (Suc l) v w then (l, (page, pt_index l w)) else gwalk E s n root w)"
    and "\<not> same_entry n (Suc l) v w \<Longrightarrow> pt_trans E n root s3 w = pt_trans E n root s w"
proof -
  note G = gwalk_get [OF T v g]
  obtain k u j where h: "gwalk E s n root w = (k, (u, j))" by (metis prod.exhaust)
  note H = gwalk_get [OF T w h] and same = same_entry_gwalk [OF T v w g h]
  have up: "u \<noteq> page" using fresh H(3,4) by blast
  have other: "gwalk E s3 n root w = (k, (u, j))" if "\<not> same_entry n (Suc l) v w"
    unfolding H(5) by (rule gwalkI) (use H r3 [OF H(3)] c3 [of u j] up same that in auto)
  moreover have "gwalk E s3 n root w = (l, (page, pt_index l w))" if "same_entry n (Suc l) v w"
  proof (rule gwalkI)
    have "vpath w n l = vpath v n (Suc l) @ [i]" using that same_entry_path [OF G(6), of v w] G(5,6) vpath_snoc [of l n w] by simp
    then show "reach E s3 root (vpath w n l) = Some page" using r3 [OF vpath_path [OF w, of l]] by simp
  qed (use G(6) c2 [of "pt_index l w"] in auto)
  ultimately show "gwalk E s3 n root w = (if same_entry n (Suc l) v w then (l, (page, pt_index l w)) else gwalk E s n root w)"
    using h by simp
  show "pt_trans E n root s3 w = pt_trans E n root s w" if "\<not> same_entry n (Suc l) v w"
    using other [OF that] same(1) that up by (auto simp: pt_trans_def leaf_of_def h get)
qed

lemma link_page:
  assumes T: "pt_tree E B n S root s" and v: "pt_index n v \<notin> S" and g: "gwalk E s n root v = (Suc l, (t, i))"
    and new: "new_page E B s page pa s1" and E: "env_ok E (pt_heap s)"
    and flags: "flags_contain flags (pte_flag PTE_PRESENT)" "\<not> flags_contain flags (pte_flag PTE_HUGE)"
    and es: "length es = ENTRY_COUNT" "l = 0 \<or> (\<forall>e \<in> set es. PTPage_from_entry E e = Some None)"
    and s2: "s2 = s1\<lparr>pt_pages := (pt_pages s1)(page \<mapsto> es)\<rparr>"
  shows "\<exists>s3. pte_put (t, i) (pte_make (pe_paging E) pa False flags) s2 = Some s3 \<and> pt_tree E B n S root s3 \<and> pt_heap s3 = pt_heap s1
    \<and> hm_start_virt (pt_heap s1) = hm_start_virt (pt_heap s) \<and> hm_page_count (pt_heap s1) = hm_page_count (pt_heap s)
    \<and> (\<forall>w. pt_index n w \<notin> S \<longrightarrow> gwalk E s3 n root w =
      (if same_entry n (Suc l) v w then (l, (page, pt_index l w)) else gwalk E s n root w))
    \<and> (\<forall>w. pt_index n w \<notin> S \<longrightarrow> \<not> same_entry n (Suc l) v w \<longrightarrow> pt_trans E n root s3 w = pt_trans E n root s w)
    \<and> (\<forall>j < ENTRY_COUNT. pte_get (page, j) s3 = Some (es ! j))"
proof -
  note G = gwalk_get [OF T v g]
  let ?e = "pte_make (pe_paging E) pa False flags"
  from new obtain f heap where N: "page = page_vaddr (pt_heap s) f" "f < hm_page_count (pt_heap s)"
    "ah_used (heap_abs (pt_heap s)) f = None" "ah_used (heap_abs heap) = (ah_used (heap_abs (pt_heap s)))(f \<mapsto> AllocP 0)"
    "s1 = s\<lparr>pt_heap := heap, pt_pages := (pt_pages s)(page \<mapsto> replicate ENTRY_COUNT PhysAddr_null)\<rparr>"
    "root_ok B heap" "hm_start_virt heap = hm_start_virt (pt_heap s)" "hm_page_count heap = hm_page_count (pt_heap s)"
    "frame_ok (pe_paging E) pa" "phys_to_virt (pe_fixed_mapping E) pa = Some page" by (auto simp: new_page_def)
  have fresh: "reach E s root q \<noteq> Some page" if "pt_path n S q" for q by (rule new_page_fresh [OF T new that])
  have tp: "t \<noteq> page" using fresh G(3,4) by blast
  from G(2) obtain e0 where e0: "pte_get (t, i) s = Some e0" by blast
  have get2: "pte_get (u, j) s2 = (if u = page then idx es j else pte_get (u, j) s)" for u j
    by (simp add: s2 N(5) pte_get_def)
  have "pte_get (t, i) s2 = Some e0" using e0 tp by (simp add: get2)
  from pte_put_eq [OF this, of ?e ENTRY_COUNT] obtain s3 where s3: "pte_put (t, i) ?e s2 = Some s3" "pt_heap s3 = pt_heap s2"
    "\<And>u j. pte_get (u, j) s3 = (if u = t \<and> j = i then Some ?e else pte_get (u, j) s2)"
    "\<And>u. (\<exists>es. pt_pages s3 u = Some es \<and> length es = ENTRY_COUNT) \<longleftrightarrow> (\<exists>es. pt_pages s2 u = Some es \<and> length es = ENTRY_COUNT)"
    by blast
  have heap3: "pt_heap s3 = heap" by (simp add: s3(2) s2 N(5))
  have fe: "PTPage_from_entry E ?e = Some (Some page)" by (rule from_entry_table(1) [OF E N(9,10) flags])
  have c1: "child E s3 t i = Some page" by (simp add: child_def s3(3) fe)
  have c2: "child E s3 page j = None \<or> l = 0" for j using es tp by (auto simp: child_def s3(3) get2 idx_def)
  have c3: "child E s3 u j = child E s u j" if "u \<noteq> page" "\<not> (u = t \<and> j = i)" for u j
    using that by (auto simp: child_def s3(3) get2)
  have c0: "child E s t i = None" using G(7) by simp
  have lp: "length (vpath v n (Suc l)) < n" using G(6) by (simp add: length_vpath)
  have c4: "child E s3 page j = None \<or> Suc (length (vpath v n (Suc l))) = n" for j
    using c2 [of j] G(6) by (auto simp: length_vpath)
  have r3: "reach E s3 root q = Some u \<longleftrightarrow> reach E s root q = Some u \<or> (q = vpath v n (Suc l) @ [i] \<and> u = page)" if "pt_path n S q" for q u
    by (rule reach_link [OF T G(3,4) lp c0 c1 c4 c3 fresh that])
  have len3: "(\<exists>es. pt_pages s3 u = Some es \<and> length es = ENTRY_COUNT) \<longleftrightarrow> u = page \<or> (\<exists>es. pt_pages s u = Some es \<and> length es = ENTRY_COUNT)" for u
    unfolding s3(4) by (simp add: s2 N(5) es)
  have tree: "pt_tree E B n S root s3"
  proof (rule link_tree [OF T _ r3 _ _ fresh])
    show "root_ok B (pt_heap s3)" by (simp add: heap3 N(6))
    show "table_page s3 u" if "table_page s u" "u \<noteq> page" for u
      using that N(4,8) page_vaddr_cong [OF N(7)] unfolding table_page_def heap3 len3 by (auto simp: N(1))
    show "table_page s3 page" using N(1,2,4,8) page_vaddr_cong [OF N(7)] unfolding table_page_def heap3 len3 by auto
    fix q u j e assume a: "pt_path n S (q @ [j])" "reach E s root q = Some u \<or> (q = vpath v n (Suc l) @ [i] \<and> u = page)"
      "pte_get (u, j) s3 = Some e"
    show "PTPage_from_entry E e \<noteq> None"
    proof (cases "u = page")
      case True
      then have "q = vpath v n (Suc l) @ [i]" using a(2) fresh pt_path_snoc [OF a(1)] by blast
      then have "Suc (n - Suc l) < n" using pt_path_snoc [OF a(1)] by (simp add: length_vpath)
      then have "l \<noteq> 0" using G(6) by (intro notI) simp
      moreover have "e \<in> set es" using a(3) True tp by (auto simp: s3(3) get2 idx_def split: if_splits)
      ultimately show ?thesis using es(2) by auto
    next
      case False
      then show ?thesis using a pt_treeD(4) [OF T a(1), of u] fe by (auto simp: s3(3) get2 split: if_splits)
    qed
  qed
  have get3: "pte_get (u, j) s3 = pte_get (u, j) s" if "u \<noteq> page" "\<not> (u = t \<and> j = i)" for u j
    using that by (auto simp: s3(3) get2)
  have gw: "gwalk E s3 n root w = (if same_entry n (Suc l) v w then (l, (page, pt_index l w)) else gwalk E s n root w)"
    "\<not> same_entry n (Suc l) v w \<Longrightarrow> pt_trans E n root s3 w = pt_trans E n root s w" if w: "pt_index n w \<notin> S" for w
    using link_walk [OF T v g w r3 c2 c3 get3 fresh] by blast+
  have "pte_get (page, j) s3 = Some (es ! j)" if "j < ENTRY_COUNT" for j using that tp es(1) by (auto simp: s3(3) get2 idx_def)
  moreover have "pt_heap s3 = pt_heap s1" "hm_start_virt (pt_heap s1) = hm_start_virt (pt_heap s)" "hm_page_count (pt_heap s1) = hm_page_count (pt_heap s)"
    using heap3 N(5,7,8) by simp_all
  ultimately show ?thesis using s3(1) tree gw by blast
qed

section \<open>Allocating the tables of an address\<close>

text \<open>The allocation of the missing tables below an entry, for every level.\<close>

fun alloc_lvl :: "pt_env \<Rightarrow> nat \<Rightarrow> pte_ref \<Rightarrow> VirtAddr \<Rightarrow> PageSize \<Rightarrow> pt_state \<Rightarrow> (Mapping \<times> pt_state) option" where
  "alloc_lvl E 0 entry vaddr size' s = Some (mk_mapping (0, entry), s)"
| "alloc_lvl E (Suc l) entry vaddr size' s = do {
     e \<leftarrow> pte_get entry s;
     if size' = Huge \<and> l = 0 \<or> PTEntry_has PTE_PRESENT e then Some (mk_mapping (Suc l, entry), s)
     else do {
       (r, s) \<leftarrow> PTPage_alloc E s;
       case r of
         Err _ \<Rightarrow> Some (mk_mapping (Suc l, entry), s)
       | Ok (page, paddr) \<Rightarrow> do {
           e \<leftarrow> PTEntry_set (pe_paging E) (make_private_address (pe_paging E) paddr) table_flags;
           s \<leftarrow> pte_put entry e s;
           alloc_lvl E l (page, pt_index l vaddr) vaddr size' s
         }
     }
   }"

lemma mk_mapping_simps:
  "mk_mapping (0, r) = Level0 r" "mk_mapping (Suc 0, r) = Level1 r" "mk_mapping (Suc (Suc 0), r) = Level2 r"
  "mk_mapping (Suc (Suc (Suc 0)), r) = Level3 r"
  by (simp_all add: mk_mapping_def)

lemma alloc_levels:
  "alloc_pte_lvl1 E entry v size' s = alloc_lvl E (Suc 0) entry v size' s"
  "alloc_pte_lvl2 E entry v size' s = alloc_lvl E (Suc (Suc 0)) entry v size' s"
  "alloc_pte_lvl3 E entry v size' s = alloc_lvl E (Suc (Suc (Suc 0))) entry v size' s"
proof -
  show l1: "alloc_pte_lvl1 E entry v size' s = alloc_lvl E (Suc 0) entry v size' s" for entry s
    unfolding alloc_pte_lvl1_def alloc_lvl.simps mk_mapping_simps flags_present by simp
  show l2: "alloc_pte_lvl2 E entry v size' s = alloc_lvl E (Suc (Suc 0)) entry v size' s" for entry s
    unfolding alloc_pte_lvl2_def l1 alloc_lvl.simps(2) [of E "Suc 0"] mk_mapping_simps flags_present One_nat_def by simp
  show "alloc_pte_lvl3 E entry v size' s = alloc_lvl E (Suc (Suc (Suc 0))) entry v size' s"
    unfolding alloc_pte_lvl3_def l2 numeral_2_eq_2 alloc_lvl.simps(2) [of E "Suc (Suc 0)"] mk_mapping_simps flags_present by simp
qed

text \<open>What an allocation leaves behind: the same translations, and the entry it stopped at.\<close>

definition same_trans :: "pt_env \<Rightarrow> nat \<Rightarrow> nat set \<Rightarrow> VirtAddr \<Rightarrow> pt_state \<Rightarrow> pt_state \<Rightarrow> bool" where
  "same_trans E n S root s s' \<longleftrightarrow> (\<forall>w. pt_index n w \<notin> S \<longrightarrow> pt_trans E n root s' w = pt_trans E n root s w)"

definition leaf_level :: "PageSize \<Rightarrow> nat" where
  "leaf_level size' = (if size' = Huge then 1 else 0)"

lemma link_empty:
  assumes T: "pt_tree E B n S root s" and v: "pt_index n v \<notin> S" and g: "gwalk E s n root v = (Suc l, (t, i))"
    and e: "pte_get (t, i) s = Some e" and absent: "\<not> PTEntry_has PTE_PRESENT e"
    and new: "new_page E B s page pa s1" and E: "env_ok E (pt_heap s)"
  shows "\<exists>x s3. PTEntry_set (pe_paging E) (make_private_address (pe_paging E) pa) table_flags = Some x
    \<and> pte_put (t, i) x s1 = Some s3 \<and> pt_tree E B n S root s3 \<and> env_ok E (pt_heap s3)
    \<and> gwalk E s3 n root v = (l, (page, pt_index l v)) \<and> same_trans E n S root s s3 \<and> free_pages s \<le> Suc (free_pages s3)"
proof -
  have pa: "frame_ok (pe_paging E) pa" "paging_ok (pe_paging E)" using new_pageD(2) [OF new] E by (simp_all add: env_ok_def)
  have fl: "flags_contain table_flags (pte_flag PTE_PRESENT)" "\<not> flags_contain table_flags (pte_flag PTE_HUGE)"
    by (simp_all add: flags_contain_flag table_flags_def bit_or_iff bit_pte_flag flag_pos_def)
  have s1: "s1 = s1\<lparr>pt_pages := (pt_pages s1)(page \<mapsto> replicate ENTRY_COUNT PhysAddr_null)\<rparr>"
    using new unfolding new_page_def by (elim exE conjE) (simp add: fun_upd_idem)
  have es: "length (replicate ENTRY_COUNT PhysAddr_null) = ENTRY_COUNT" "l = 0 \<or> (\<forall>e \<in> set (replicate ENTRY_COUNT PhysAddr_null). PTPage_from_entry E e = Some None)"
    by simp_all
  from link_page [OF T v g new E fl es s1] obtain s3 where s3: "pte_put (t, i) (pte_make (pe_paging E) pa False table_flags) s1 = Some s3"
    "pt_tree E B n S root s3" "hm_start_virt (pt_heap s1) = hm_start_virt (pt_heap s)" "hm_page_count (pt_heap s1) = hm_page_count (pt_heap s)"
    "\<forall>w. pt_index n w \<notin> S \<longrightarrow> gwalk E s3 n root w = (if same_entry n (Suc l) v w then (l, (page, pt_index l w)) else gwalk E s n root w)"
    "\<forall>w. pt_index n w \<notin> S \<longrightarrow> \<not> same_entry n (Suc l) v w \<longrightarrow> pt_trans E n root s3 w = pt_trans E n root s w" "pt_heap s3 = pt_heap s1"
    "\<forall>j < ENTRY_COUNT. pte_get (page, j) s3 = Some (replicate ENTRY_COUNT PhysAddr_null ! j)" by blast
  have st: "pt_trans E n root s3 w = pt_trans E n root s w" if w: "pt_index n w \<notin> S" for w
  proof (cases "same_entry n (Suc l) v w")
    case True
    obtain k u j where h: "gwalk E s n root w = (k, (u, j))" by (metis prod.exhaust)
    have "(u, j) = (t, i)" using same_entry_gwalk(1) [OF T v w g h] True by simp
    then show ?thesis using absent True h e by (simp add: pt_trans_def leaf_of_def s3(5) w s3(8) pt_index_less)
  qed (use s3(6) w in blast)
  have g3: "gwalk E s3 n root v = (l, (page, pt_index l v))" using s3(5) v by simp
  have "same_trans E n S root s s3" using st by (simp add: same_trans_def)
  moreover have "free_pages s \<le> Suc (free_pages s3)" using new_page_free [OF new] s3(7) by (simp add: free_pages_def)
  moreover have "env_ok E (pt_heap s3)" unfolding s3(7) by (rule env_ok_same [OF E s3(3,4)])
  ultimately show ?thesis using PTEntry_set_eq [OF pa(2,1), of False table_flags] s3(1,2) g3 by (auto simp: make_addresses)
qed

lemma alloc_lvl_ok:
  assumes "pt_tree E B n S root s" and v: "pt_index n v \<notin> S" and "gwalk E s n root v = (l, (t, i))" and "env_ok E (pt_heap s)"
  shows "\<exists>k r s'. alloc_lvl E l (t, i) v size' s = Some (mk_mapping (k, r), s') \<and> pt_tree E B n S root s' \<and> env_ok E (pt_heap s')
    \<and> gwalk E s' n root v = (k, r) \<and> same_trans E n S root s s'
    \<and> (k \<le> leaf_level size' \<or> (\<exists>e. pt_trans E n root s v = Some (k, e)) \<or> no_memory s')
    \<and> (size' = Huge \<longrightarrow> k = 0 \<longrightarrow> l = 0) \<and> free_pages s \<le> l + free_pages s'"
  using assms(1,3,4)
proof (induction l arbitrary: t i s)
  case 0
  then show ?case by (auto simp: same_trans_def)
next
  case (Suc l)
  note T = Suc.prems(1) and g = Suc.prems(2) and E = Suc.prems(3)
  from gwalk_get(2) [OF T v g] obtain e where e: "pte_get (t, i) s = Some e" by blast
  show ?case
  proof (cases "size' = Huge \<and> l = 0 \<or> PTEntry_has PTE_PRESENT e")
    case True
    then have "Suc l \<le> leaf_level size' \<or> (\<exists>e. pt_trans E n root s v = Some (Suc l, e))"
      using e g by (auto simp: leaf_level_def pt_trans_def leaf_of_def)
    then show ?thesis using True T E g by (auto simp: e same_trans_def)
  next
    case False
    note new = PTPage_alloc_ok [OF pt_treeD(1) [OF T] E]
    show ?thesis
    proof (cases "PTPage_alloc E s = Some (Err (SvsmError_Alloc AllocError_OutOfMemory), s)")
      case True
      then show ?thesis using False new T E g by (auto simp: e same_trans_def)
    next
      case ne: False
      with new obtain page pa s1 where a: "PTPage_alloc E s = Some (Ok (page, pa), s1)" "new_page E B s page pa s1" by auto
      from link_empty [OF T v g e _ a(2) E] False obtain x s3 where s3: "PTEntry_set (pe_paging E) (make_private_address (pe_paging E) pa) table_flags = Some x"
        "pte_put (t, i) x s1 = Some s3" "pt_tree E B n S root s3" "env_ok E (pt_heap s3)" "gwalk E s3 n root v = (l, (page, pt_index l v))"
        "same_trans E n S root s s3" "free_pages s \<le> Suc (free_pages s3)" by blast
      have "alloc_lvl E (Suc l) (t, i) v size' s = alloc_lvl E l (page, pt_index l v) v size' s3" using False a(1) s3(1,2) by (auto simp: e)
      with Suc.IH [OF s3(3,5,4)] s3(6,7) v False show ?thesis by (fastforce simp: same_trans_def)
    qed
  qed
qed

end
