(* ===== verification/Page_Mapping.thy ===== *)
theory Page_Mapping
  imports Page_Tree_Update
begin

unbundle bit_operations_syntax

text \<open>
  The operations of page tables on translations: mapping, unmapping and looking up pages, for the
  tables with four levels and for the parts with three.
\<close>

section \<open>Walks of the two kinds of tables\<close>

lemma walk_addr_tree:
  "pt_tree E B 3 S root s \<Longrightarrow> pt_index 3 v \<notin> S \<Longrightarrow> walk_addr E root v s = Some (mk_mapping (gwalk E s 3 root v))"
  unfolding walk_addr_def by (rule walk_levels(4)) (rule tree_walk)

lemma part_walk_tree:
  "pt_tree E B 2 S root s \<Longrightarrow> pt_index 2 v \<notin> S \<Longrightarrow> part_walk_addr E root v s = Some (mk_mapping (gwalk E s 2 root v))"
  unfolding part_walk_addr_def by (rule walk_levels(3)) (rule tree_walk)

lemma mk_mapping_cases:
  assumes "l \<le> 3"
  obtains "l = 0" "mk_mapping (l, r) = Level0 r" | "l = Suc 0" "mk_mapping (l, r) = Level1 r"
    | "l = Suc (Suc 0)" "mk_mapping (l, r) = Level2 r" | "l = Suc (Suc (Suc 0))" "mk_mapping (l, r) = Level3 r"
proof -
  consider "l = 0" | "l = Suc 0" | "l = Suc (Suc 0)" | "l = Suc (Suc (Suc 0))" using assms by linarith
  then show thesis using that by cases (simp_all add: mk_mapping_simps)
qed

lemma alloc_pte_eq:
  assumes T: "pt_tree E B 3 S root s" and v: "pt_index 3 v \<notin> S" and g: "gwalk E s 3 root v = (l, r)"
  shows "alloc_pte_4k E root v s = alloc_lvl E l r v Regular s" "alloc_pte_2m E root v s = alloc_lvl E l r v Huge s"
proof -
  obtain t i where r: "r = (t, i)" by (cases r)
  note G = gwalk_get [OF T v g [unfolded r]]
  from G(2) obtain e where e: "pte_get r s = Some e" using r by blast
  show "alloc_pte_4k E root v s = alloc_lvl E l r v Regular s" using G(6)
    by (cases rule: mk_mapping_cases [where r = r])
      (simp_all add: alloc_pte_4k_def walk_addr_tree [OF T v] g alloc_levels mk_mapping_simps)
  show "alloc_pte_2m E root v s = alloc_lvl E l r v Huge s" using G(6)
    by (cases rule: mk_mapping_cases [where r = r])
      (simp_all add: alloc_pte_2m_def walk_addr_tree [OF T v] g alloc_levels mk_mapping_simps e)
qed

lemma part_alloc_pte_eq:
  assumes T: "pt_tree E B 2 S root s" and v: "pt_index 2 v \<notin> S" and g: "gwalk E s 2 root v = (l, r)"
  shows "part_alloc_pte_4k E root v s = alloc_lvl E l r v Regular s" "part_alloc_pte_2m E root v s = alloc_lvl E l r v Huge s"
proof -
  obtain t i where r: "r = (t, i)" by (cases r)
  note G = gwalk_get [OF T v g [unfolded r]]
  from G(2) obtain e where e: "pte_get r s = Some e" using r by blast
  have l3: "l \<le> 3" "l \<noteq> Suc (Suc (Suc 0))" using G(6) by auto
  show "part_alloc_pte_4k E root v s = alloc_lvl E l r v Regular s" using l3
    by (cases rule: mk_mapping_cases [where r = r])
      (simp_all add: part_alloc_pte_4k_def part_walk_tree [OF T v] g alloc_levels mk_mapping_simps)
  show "part_alloc_pte_2m E root v s = alloc_lvl E l r v Huge s" using l3
    by (cases rule: mk_mapping_cases [where r = r])
      (simp_all add: part_alloc_pte_2m_def part_walk_tree [OF T v] g alloc_levels mk_mapping_simps e)
qed

section \<open>Mapping\<close>

text \<open>The entry \<open>e\<close> of level \<open>k\<close> is what the addresses under the entry of \<open>v\<close> translate to, and no other translation changes.\<close>

definition set_trans :: "pt_env \<Rightarrow> nat \<Rightarrow> nat set \<Rightarrow> VirtAddr \<Rightarrow> nat \<Rightarrow> VirtAddr \<Rightarrow> PTEntry \<Rightarrow> pt_state \<Rightarrow> pt_state \<Rightarrow> bool" where
  "set_trans E n S root k v e s s' \<longleftrightarrow> (\<forall>w. pt_index n w \<notin> S \<longrightarrow> pt_trans E n root s' w =
     (if same_entry n k v w then if PTEntry_has PTE_PRESENT e then Some (k, e) else None else pt_trans E n root s w))"

text \<open>A tree in a well-formed environment.\<close>

definition pt_ok :: "pt_env \<Rightarrow> nat set \<Rightarrow> nat \<Rightarrow> nat set \<Rightarrow> VirtAddr \<Rightarrow> pt_state \<Rightarrow> bool" where
  "pt_ok E B n S root s \<longleftrightarrow> pt_tree E B n S root s \<and> env_ok E (pt_heap s)"

lemma put_leaf_trans:
  assumes "pt_tree E B n S root s" and "pt_index n v \<notin> S" and "gwalk E s n root v = (l, (t, i))"
    and "l = 0 \<or> PTPage_from_entry E e = Some None"
  shows "\<exists>s'. pte_put (t, i) e s = Some s' \<and> pt_tree E B n S root s' \<and> pt_heap s' = pt_heap s \<and> set_trans E n S root l v e s s'
    \<and> pte_get (t, i) s' = Some e"
proof (rule put_leaf [OF assms], goal_cases)
  case (1 s')
  then show ?case unfolding set_trans_def by (intro exI [of _ s']) simp
qed

definition store_leaf :: "pt_env \<Rightarrow> pte_ref \<Rightarrow> PhysAddr \<Rightarrow> PTEntryFlags \<Rightarrow> bool \<Rightarrow> (pt_state, unit, SvsmError) svsm" where
  "store_leaf E r paddr flags shared s = do {
     e \<leftarrow> PTEntry_set (pe_paging E) (leaf_address (pe_paging E) paddr shared) flags;
     s \<leftarrow> pte_put r e s;
     Some (Ok (), s)
   }"

lemma store_leaf_ok:
  assumes ok: "pt_ok E B n S root s'" and v: "pt_index n v \<notin> S" and g: "gwalk E s' n root v = (k, r)"
    and same: "same_trans E n S root s s'" and p: "frame_ok (pe_paging E) p"
    and k: "k = 0 \<or> flags_contain flags (pte_flag PTE_HUGE)"
  shows "\<exists>s''. store_leaf E r p flags shared s' = Some (Ok (), s'') \<and> pt_ok E B n S root s''
    \<and> set_trans E n S root k v (pte_make (pe_paging E) p shared flags) s s''"
proof -
  let ?e = "pte_make (pe_paging E) p shared flags"
  have pg: "paging_ok (pe_paging E)" and T: "pt_tree E B n S root s'" using ok by (auto simp: pt_ok_def env_ok_def)
  obtain t i where r: "r = (t, i)" by (cases r)
  have "k = 0 \<or> PTEntry_has PTE_HUGE ?e" using k pte_make_read(4) [OF pg p, of PTE_HUGE shared flags] by simp
  then have kl: "k = 0 \<or> PTPage_from_entry E ?e = Some None" by (elim disjE) (simp_all add: PTPage_from_entry_def flags_present)
  from put_leaf_trans [OF T v g [unfolded r] kl] obtain s'' where s'': "pte_put (t, i) ?e s' = Some s''" "pt_tree E B n S root s''"
    "pt_heap s'' = pt_heap s'" "set_trans E n S root k v ?e s' s''" by blast
  have "store_leaf E r p flags shared s' = Some (Ok (), s'')"
    using s''(1) PTEntry_set_eq [OF pg p, of shared flags] by (simp add: store_leaf_def r)
  moreover have "pt_ok E B n S root s''" using ok s''(2,3) by (simp add: pt_ok_def)
  moreover have "set_trans E n S root k v ?e s s''" using same s''(4) by (simp add: set_trans_def same_trans_def)
  ultimately show ?thesis by blast
qed

text \<open>The outcome of mapping a page of level \<open>k\<close>.\<close>

definition map_outcome ::
  "pt_env \<Rightarrow> nat set \<Rightarrow> nat \<Rightarrow> nat set \<Rightarrow> VirtAddr \<Rightarrow> nat \<Rightarrow> VirtAddr \<Rightarrow> PTEntry \<Rightarrow> pt_state
   \<Rightarrow> (unit, SvsmError) result \<times> pt_state \<Rightarrow> bool" where
  "map_outcome E B n S root k v e s = (\<lambda>(r, s'). pt_ok E B n S root s' \<and> (case r of
       Ok _ \<Rightarrow> set_trans E n S root k v e s s'
     | Err err \<Rightarrow> err = SvsmError_Mem \<and> same_trans E n S root s s' \<and>
         ((\<exists>l x. k < l \<and> pt_trans E n root s v = Some (l, x)) \<or> (\<exists>l r. l < k \<and> gwalk E s n root v = (l, r)) \<or> (no_memory s' \<and> free_pages s \<le> n))))"

lemma gwalk_le: "gwalk E s n root v = (k, r) \<Longrightarrow> k \<le> n"
  using gwalk_reach [of E s n root v k "fst r" "snd r"] by simp

lemma alloc_pt_ok:
  assumes "pt_ok E B n S root s" and "pt_index n v \<notin> S" and "gwalk E s n root v = (l, r)"
  shows "\<exists>k r' s'. alloc_lvl E l r v size' s = Some (mk_mapping (k, r'), s') \<and> pt_ok E B n S root s' \<and> k \<le> n
    \<and> gwalk E s' n root v = (k, r') \<and> same_trans E n S root s s'
    \<and> (k \<le> leaf_level size' \<or> (\<exists>e. pt_trans E n root s v = Some (k, e)) \<or> (no_memory s' \<and> free_pages s \<le> n)) \<and> (size' = Huge \<longrightarrow> k = 0 \<longrightarrow> l = 0)"
proof -
  obtain t i where r: "r = (t, i)" by (cases r)
  have T: "pt_tree E B n S root s" and E: "env_ok E (pt_heap s)" using assms(1) by (auto simp: pt_ok_def)
  from alloc_lvl_ok [OF T assms(2) assms(3) [unfolded r] E, of size'] obtain k r' s' where
    a: "alloc_lvl E l (t, i) v size' s = Some (mk_mapping (k, r'), s')" "pt_tree E B n S root s'" "env_ok E (pt_heap s')"
    "gwalk E s' n root v = (k, r')" "same_trans E n S root s s'"
    "k \<le> leaf_level size' \<or> (\<exists>e. pt_trans E n root s v = Some (k, e)) \<or> no_memory s'" "size' = Huge \<longrightarrow> k = 0 \<longrightarrow> l = 0"
    "free_pages s \<le> l + free_pages s'" by blast
  have "no_memory s' \<Longrightarrow> free_pages s \<le> n" using a(8) gwalk_le [OF assms(3)] no_memory_free [of s'] by simp
  then show ?thesis using a gwalk_le [OF a(4)] r by (intro exI [of _ k] exI [of _ r'] exI [of _ s']) (auto simp: pt_ok_def)
qed

lemma map_4k_outcome:
  assumes ok: "pt_ok E B n S root s" and v: "pt_index n v \<notin> S" and p: "frame_ok (pe_paging E) p" and n: "n \<le> 3"
    and alloc: "\<And>l r. gwalk E s n root v = (l, r) \<Longrightarrow> alloc = alloc_lvl E l r v Regular s"
  shows "\<exists>x. do { (mapping, s) \<leftarrow> alloc;
      case mapping of Level0 entry \<Rightarrow> store_leaf E entry p flags shared s | _ \<Rightarrow> Some (Err SvsmError_Mem, s) } = Some x
    \<and> map_outcome E B n S root 0 v (pte_make (pe_paging E) p shared flags) s x"
proof -
  obtain l r where g: "gwalk E s n root v = (l, r)" by (cases "gwalk E s n root v")
  from alloc_pt_ok [OF ok v g, of Regular] obtain k r' s' where a: "alloc = Some (mk_mapping (k, r'), s')" "pt_ok E B n S root s'"
    "k \<le> n" "gwalk E s' n root v = (k, r')" "same_trans E n S root s s'"
    "k = 0 \<or> (\<exists>e. pt_trans E n root s v = Some (k, e)) \<or> (no_memory s' \<and> free_pages s \<le> n)" unfolding alloc [OF g] leaf_level_def by auto
  have k3: "k \<le> 3" using a(3) n by simp
  show ?thesis
  proof (cases "k = 0")
    case True
    from store_leaf_ok [OF a(2) v a(4,5) p, of flags shared] True show ?thesis
      by (auto simp: a(1) mk_mapping_simps map_outcome_def)
  next
    case False
    then show ?thesis using a(2,5,6) by (cases rule: mk_mapping_cases [OF k3, of r']) (auto simp: a(1) mk_mapping_simps map_outcome_def)
  qed
qed

lemma map_2m_outcome:
  assumes ok: "pt_ok E B n S root s" and v: "pt_index n v \<notin> S" and p: "frame_ok (pe_paging E) p" and n: "n \<le> 3"
    and alloc: "\<And>l r. gwalk E s n root v = (l, r) \<Longrightarrow> alloc = alloc_lvl E l r v Huge s"
  shows "\<exists>x. do { (mapping, s) \<leftarrow> alloc;
      case mapping of Level1 entry \<Rightarrow> store_leaf E entry p (flags OR pte_flag PTE_HUGE) shared s | _ \<Rightarrow> Some (Err SvsmError_Mem, s) } = Some x
    \<and> map_outcome E B n S root 1 v (pte_make (pe_paging E) p shared (flags OR pte_flag PTE_HUGE)) s x"
proof -
  obtain l r where g: "gwalk E s n root v = (l, r)" by (cases "gwalk E s n root v")
  from alloc_pt_ok [OF ok v g, of Huge] obtain k r' s' where a: "alloc = Some (mk_mapping (k, r'), s')" "pt_ok E B n S root s'"
    "k \<le> n" "gwalk E s' n root v = (k, r')" "same_trans E n S root s s'"
    "k \<le> 1 \<or> (\<exists>e. pt_trans E n root s v = Some (k, e)) \<or> (no_memory s' \<and> free_pages s \<le> n)" "k = 0 \<longrightarrow> l = 0" unfolding alloc [OF g] leaf_level_def by auto
  have k3: "k \<le> 3" using a(3) n by simp
  have fl: "flags_contain (flags OR pte_flag PTE_HUGE) (pte_flag PTE_HUGE)" by (simp add: flags_contain_flag bit_or_iff bit_pte_flag)
  show ?thesis
  proof (cases "k = 1")
    case True
    from store_leaf_ok [OF a(2) v a(4,5) p, of "flags OR pte_flag PTE_HUGE" shared] True fl show ?thesis
      by (auto simp: a(1) mk_mapping_simps map_outcome_def)
  next
    case False
    then show ?thesis using a(2,5,6,7) g
      by (cases rule: mk_mapping_cases [OF k3, of r']) (auto simp: a(1) mk_mapping_simps map_outcome_def)
  qed
qed

lemma map_4k_ok:
  assumes "pt_ok E B 3 S root s" and "pt_index 3 v \<notin> S" and "frame_ok (pe_paging E) p"
  shows "\<exists>x. map_4k E root v p flags shared s = Some x \<and> map_outcome E B 3 S root 0 v (pte_make (pe_paging E) p shared flags) s x"
proof -
  have T: "pt_tree E B 3 S root s" using assms(1) by (simp add: pt_ok_def)
  show ?thesis unfolding map_4k_def
    by (rule map_4k_outcome [OF assms _ alloc_pte_eq(1) [OF T assms(2)], unfolded store_leaf_def]) simp_all
qed

lemma part_map_4k_ok:
  assumes "pt_ok E B 2 S root s" and "pt_index 2 v \<notin> S" and "frame_ok (pe_paging E) p"
  shows "\<exists>x. part_map_4k E root v p flags shared s = Some x \<and> map_outcome E B 2 S root 0 v (pte_make (pe_paging E) p shared flags) s x"
proof -
  have T: "pt_tree E B 2 S root s" using assms(1) by (simp add: pt_ok_def)
  show ?thesis unfolding part_map_4k_def
    by (rule map_4k_outcome [OF assms _ part_alloc_pte_eq(1) [OF T assms(2)], unfolded store_leaf_def]) simp_all
qed

lemma map_2m_ok:
  assumes "pt_ok E B 3 S root s" and "pt_index 3 v \<notin> S" and "frame_ok (pe_paging E) p"
    and "Address_is_aligned VirtAddr_ops v (of_nat PAGE_SIZE_2M) = Some True" and "Address_is_aligned PhysAddr_ops p (of_nat PAGE_SIZE_2M) = Some True"
  shows "\<exists>x. map_2m E root v p flags shared s = Some x
    \<and> map_outcome E B 3 S root 1 v (pte_make (pe_paging E) p shared (flags OR pte_flag PTE_HUGE)) s x"
proof -
  have T: "pt_tree E B 3 S root s" using assms(1) by (simp add: pt_ok_def)
  show ?thesis unfolding map_2m_def assms(4,5)
    using map_2m_outcome [OF assms(1-3) _ alloc_pte_eq(2) [OF T assms(2)], of flags shared, unfolded store_leaf_def] by simp
qed

lemma part_map_2m_ok:
  assumes "pt_ok E B 2 S root s" and "pt_index 2 v \<notin> S" and "frame_ok (pe_paging E) p"
    and "Address_is_aligned VirtAddr_ops v (of_nat PAGE_SIZE_2M) = Some True" and "Address_is_aligned PhysAddr_ops p (of_nat PAGE_SIZE_2M) = Some True"
  shows "\<exists>x. part_map_2m E root v p flags shared s = Some x
    \<and> map_outcome E B 2 S root 1 v (pte_make (pe_paging E) p shared (flags OR pte_flag PTE_HUGE)) s x"
proof -
  have T: "pt_tree E B 2 S root s" using assms(1) by (simp add: pt_ok_def)
  show ?thesis unfolding part_map_2m_def assms(4,5)
    using map_2m_outcome [OF assms(1-3) _ part_alloc_pte_eq(2) [OF T assms(2)], of flags shared, unfolded store_leaf_def] by simp
qed

end
