(* ===== verification/Page_Lookup.thy ===== *)
theory Page_Lookup
  imports Page_Mapping
begin

unbundle bit_operations_syntax

text \<open>
  Looking up and unmapping pages: the translation of an address as the physical address that the
  tables give it, and the clearing of entries.
\<close>

section \<open>Addresses under the same entry\<close>

lemma pt_index_bits:
  assumes "k \<le> 3"
  shows "pt_index k v = pt_index k w \<longleftrightarrow> (\<forall>j. 12 + k * 9 \<le> j \<longrightarrow> j < 21 + k * 9 \<longrightarrow> bit (virt_bits v) j = bit (virt_bits w) j)"
proof -
  have lt: "i < 64" if "i < 9" for i :: nat using that by simp
  have m9: "(0x1ff :: u64) = mask 9" by (simp add: mask_eq_exp_minus_1)
  have "pt_index k v = pt_index k w \<longleftrightarrow> VirtAddr_to_pgtbl_idx k v = VirtAddr_to_pgtbl_idx k w" by (simp add: pt_index_def word_unat_eq_iff)
  also have "\<dots> \<longleftrightarrow> (\<forall>i < 9. bit (virt_bits v) (12 + k * 9 + i) = bit (virt_bits w) (12 + k * 9 + i))"
    unfolding VirtAddr_to_pgtbl_idx_def m9 word_bits_eq
    by (auto simp: bit_and_iff bit_drop_bit_eq bit_mask_iff) (use lt in blast)+
  also have "\<dots> \<longleftrightarrow> (\<forall>j. 12 + k * 9 \<le> j \<longrightarrow> j < 21 + k * 9 \<longrightarrow> bit (virt_bits v) j = bit (virt_bits w) j)"
  proof (rule iffI; rule allI)
    fix j assume a: "\<forall>i < 9. bit (virt_bits v) (12 + k * 9 + i) = bit (virt_bits w) (12 + k * 9 + i)"
    show "12 + k * 9 \<le> j \<longrightarrow> j < 21 + k * 9 \<longrightarrow> bit (virt_bits v) j = bit (virt_bits w) j"
      using a [rule_format, of "j - (12 + k * 9)"] by auto
  qed simp
  finally show ?thesis .
qed

lemma same_entry_bits:
  assumes n: "n \<le> 3" and k: "k \<le> n"
  shows "same_entry n k v w \<longleftrightarrow> (\<forall>j. 12 + k * 9 \<le> j \<longrightarrow> j < 21 + n * 9 \<longrightarrow> bit (virt_bits w) j = bit (virt_bits v) j)"
proof
  assume same: "same_entry n k v w"
  show "\<forall>j. 12 + k * 9 \<le> j \<longrightarrow> j < 21 + n * 9 \<longrightarrow> bit (virt_bits w) j = bit (virt_bits v) j"
  proof (rule allI, rule impI, rule impI)
    fix j assume a: "12 + k * 9 \<le> j" "j < 21 + n * 9"
    define l where "l = (j - 12) div 9"
    have l: "12 + l * 9 \<le> j" "j < 21 + l * 9" "k \<le> l" "l \<le> n" using a by (auto simp: l_def)
    then have "pt_index l w = pt_index l v" using same by (simp add: same_entry_def)
    then show "bit (virt_bits w) j = bit (virt_bits v) j" using pt_index_bits [of l w v] l n by simp
  qed
qed (use n in \<open>auto simp: same_entry_def pt_index_bits\<close>)

lemma same_entry_mono: "same_entry n k v w \<Longrightarrow> k \<le> l \<Longrightarrow> same_entry n l v w"
  by (simp add: same_entry_def)

lemma same_entry_sym: "same_entry n k v w \<longleftrightarrow> same_entry n k w v"
  by (auto simp: same_entry_def)

section \<open>Translated addresses\<close>

text \<open>The physical address of a translation: an offset into a 4K page or a 2M page.\<close>

definition trans_phys :: "paging \<Rightarrow> VirtAddr \<Rightarrow> (nat \<times> PTEntry) option \<Rightarrow> (PhysAddr, SvsmError) result option" where
  "trans_phys pg v tr = (case tr of
       Some (0, e) \<Rightarrow> map_option Ok (PhysAddr_add (PTEntry_address pg e) (Address_page_offset VirtAddr_ops v))
     | Some (Suc 0, e) \<Rightarrow> map_option Ok (PhysAddr_add (PTEntry_address pg e) (virt_bits v AND (of_nat PAGE_SIZE_2M - 1)))
     | _ \<Rightarrow> Some (Err SvsmError_Mem))"

lemma leaf_huge:
  assumes T: "pt_tree E B n S root s" and v: "pt_index n v \<notin> S" and g: "gwalk E s n root v = (Suc l, r)" and e: "pte_get r s = Some e"
  shows "PTEntry_has PTE_PRESENT e \<Longrightarrow> PTEntry_has PTE_HUGE e"
proof -
  obtain t i where r: "r = (t, i)" by (cases r)
  note G = gwalk_get [OF T v g [unfolded r]]
  have "pt_path n S (vpath v n (Suc l) @ [i])" using vpath_path [OF v, of l] vpath_snoc [of l n v] G(5,6) by simp
  from pt_treeD(4) [OF T this G(4)] e r have "PTPage_from_entry E e \<noteq> None" by simp
  moreover have "PTPage_from_entry E e \<noteq> Some (Some x)" for x using G(7) e r by (auto simp: child_def)
  ultimately have "PTPage_from_entry E e = Some None" by (cases "PTPage_from_entry E e") auto
  then show "PTEntry_has PTE_PRESENT e \<Longrightarrow> PTEntry_has PTE_HUGE e"
    by (auto simp: PTPage_from_entry_def Let_def flags_present split: if_splits)
qed

lemma pt_trans_gwalk: "gwalk E s n root v = (l, r) \<Longrightarrow> pte_get r s = Some e \<Longrightarrow>
    pt_trans E n root s v = (if PTEntry_has PTE_PRESENT e then Some (l, e) else None)"
  by (simp add: pt_trans_def leaf_of_def)

lemma walk_cases:
  assumes T: "pt_tree E B n S root s" and v: "pt_index n v \<notin> S"
  obtains l r e where "gwalk E s n root v = (l, r)" "pte_get r s = Some e" "l \<le> n"
    "pt_trans E n root s v = (if PTEntry_has PTE_PRESENT e then Some (l, e) else None)"
proof -
  obtain l t i where g: "gwalk E s n root v = (l, (t, i))" by (metis prod.exhaust)
  with gwalk_get(2,6) [OF T v g] show thesis using that pt_trans_gwalk by metis
qed

lemma phys_addr_trans:
  assumes T: "pt_tree E B 3 S root s" and v: "pt_index 3 v \<notin> S"
  shows "pt_phys_addr E root v s = trans_phys (pe_paging E) v (pt_trans E 3 root s v)"
proof -
  obtain l r e where w: "gwalk E s 3 root v = (l, r)" "pte_get r s = Some e" "l \<le> 3"
    "pt_trans E 3 root s v = (if PTEntry_has PTE_PRESENT e then Some (l, e) else None)" using walk_cases [OF T v] .
  have hg: "l \<noteq> 0 \<Longrightarrow> PTEntry_has PTE_PRESENT e \<Longrightarrow> PTEntry_has PTE_HUGE e"
    using leaf_huge [OF T v _ w(2)] w(1) by (cases l) auto
  show ?thesis using hg
    by (cases rule: mk_mapping_cases [OF w(3), of r])
      (auto simp: pt_phys_addr_def walk_addr_tree [OF T v] w(1,2,4) trans_phys_def flags_present Let_def)
qed

lemma check_mapping_trans:
  assumes T: "pt_tree E B 3 S root s" and v: "pt_index 3 v \<notin> S" and tr: "pt_trans E 3 root s v = Some (l, e)"
  shows "check_mapping E root v s = Some (if l \<le> 1 then Some (PTEntry_address (pe_paging E) e) else None)"
proof -
  obtain k r x where w: "gwalk E s 3 root v = (k, r)" "pte_get r s = Some x" "k \<le> 3"
    "pt_trans E 3 root s v = (if PTEntry_has PTE_PRESENT x then Some (k, x) else None)" using walk_cases [OF T v] .
  then have "k = l" "x = e" using tr by (auto split: if_splits)
  then show ?thesis
    by (cases rule: mk_mapping_cases [OF w(3), of r]) (auto simp: check_mapping_def walk_addr_tree [OF T v] w(1,2))
qed

section \<open>Unmapping\<close>

lemma clear_absent:
  assumes T: "pt_tree E B n S root s" and v: "pt_index n v \<notin> S" and g: "gwalk E s n root v = (l, r)" and e: "pte_get r s = Some e"
    and absent: "\<not> PTEntry_has PTE_PRESENT e" and k: "k \<le> l"
  shows "set_trans E n S root k v PhysAddr_null s s"
  unfolding set_trans_def
proof (intro allI impI)
  fix w assume w: "pt_index n w \<notin> S"
  obtain t i where r: "r = (t, i)" by (cases r)
  obtain m u j where h: "gwalk E s n root w = (m, (u, j))" by (metis prod.exhaust)
  have "pt_trans E n root s w = None" if "same_entry n k v w"
    using same_entry_gwalk(1) [OF T v w g [unfolded r] h] same_entry_mono [OF that k] h e absent r
    by (simp add: pt_trans_def leaf_of_def)
  then show "pt_trans E n root s w = (if same_entry n k v w then if PTEntry_has PTE_PRESENT PhysAddr_null then Some (k, PhysAddr_null) else None
      else pt_trans E n root s w)" by simp
qed

lemma clear_leaf:
  assumes ok: "pt_ok E B n S root s" and v: "pt_index n v \<notin> S" and g: "gwalk E s n root v = (l, r)"
  shows "\<exists>s'. pte_put r PhysAddr_null s = Some s' \<and> pt_ok E B n S root s' \<and> set_trans E n S root l v PhysAddr_null s s'
    \<and> pte_get r s' = Some PhysAddr_null"
proof -
  obtain t i where r: "r = (t, i)" by (cases r)
  have T: "pt_tree E B n S root s" using ok by (simp add: pt_ok_def)
  from put_leaf_trans [OF T v g [unfolded r], of PhysAddr_null] show ?thesis using ok by (auto simp: r pt_ok_def)
qed

text \<open>The outcome of unmapping a page of level \<open>k\<close>: a panic where a larger page maps the address, otherwise no translation.\<close>

definition unmap_outcome ::
  "pt_env \<Rightarrow> nat set \<Rightarrow> nat \<Rightarrow> nat set \<Rightarrow> VirtAddr \<Rightarrow> nat \<Rightarrow> VirtAddr \<Rightarrow> pt_state \<Rightarrow> pt_state option \<Rightarrow> bool" where
  "unmap_outcome E B n S root k v s x \<longleftrightarrow> (case x of
       Some s' \<Rightarrow> pt_ok E B n S root s' \<and> set_trans E n S root k v PhysAddr_null s s' \<and> (\<forall>l e. pt_trans E n root s v = Some (l, e) \<longrightarrow> l \<le> k)
     | None \<Rightarrow> \<exists>l e. k < l \<and> pt_trans E n root s v = Some (l, e))"

lemma unmap_4k_ok:
  assumes ok: "pt_ok E B 3 S root s" and v: "pt_index 3 v \<notin> S"
  shows "unmap_outcome E B 3 S root 0 v s (unmap_4k E root v s)"
proof -
  have T: "pt_tree E B 3 S root s" using ok by (simp add: pt_ok_def)
  obtain l r e where w: "gwalk E s 3 root v = (l, r)" "pte_get r s = Some e" "l \<le> 3"
    "pt_trans E 3 root s v = (if PTEntry_has PTE_PRESENT e then Some (l, e) else None)" using walk_cases [OF T v] .
  have "\<not> PTEntry_has PTE_PRESENT e \<Longrightarrow> set_trans E 3 S root 0 v PhysAddr_null s s" using clear_absent [OF T v w(1,2)] by simp
  then show ?thesis using clear_leaf [OF ok v w(1)] ok
    by (cases rule: mk_mapping_cases [OF w(3), of r])
      (auto simp: unmap_outcome_def unmap_4k_def walk_addr_tree [OF T v] w assert_not_present_def)
qed

lemma part_unmap_4k_ok:
  assumes ok: "pt_ok E B 2 S root s" and v: "pt_index 2 v \<notin> S"
  shows "unmap_outcome E B 2 S root 0 v s (map_option snd (part_unmap_4k E root v s))"
    and "part_unmap_4k E root v s = Some (x, s') \<Longrightarrow> pt_trans E 2 root s v = (case x of Some e \<Rightarrow> if PTEntry_has PTE_PRESENT e then Some (0, e) else None | None \<Rightarrow> None)"
proof -
  have T: "pt_tree E B 2 S root s" using ok by (simp add: pt_ok_def)
  obtain l r e where w: "gwalk E s 2 root v = (l, r)" "pte_get r s = Some e" "l \<le> 2"
    "pt_trans E 2 root s v = (if PTEntry_has PTE_PRESENT e then Some (l, e) else None)" using walk_cases [OF T v] .
  have l3: "l \<le> 3" using w(3) by simp
  have "\<not> PTEntry_has PTE_PRESENT e \<Longrightarrow> set_trans E 2 S root 0 v PhysAddr_null s s" using clear_absent [OF T v w(1,2)] by simp
  then show "unmap_outcome E B 2 S root 0 v s (map_option snd (part_unmap_4k E root v s))" using clear_leaf [OF ok v w(1)] ok
    by (cases rule: mk_mapping_cases [OF l3, of r])
      (auto simp: unmap_outcome_def part_unmap_4k_def part_walk_tree [OF T v] w assert_not_present_def)
  show "part_unmap_4k E root v s = Some (x, s') \<Longrightarrow> pt_trans E 2 root s v = (case x of Some e \<Rightarrow> if PTEntry_has PTE_PRESENT e then Some (0, e) else None | None \<Rightarrow> None)"
    using clear_leaf [OF ok v w(1)]
    by (cases rule: mk_mapping_cases [OF l3, of r])
      (auto simp: part_unmap_4k_def part_walk_tree [OF T v] w assert_not_present_def split: if_splits)
qed

lemma unmap_2m_ok:
  assumes ok: "pt_ok E B 3 S root s" and v: "pt_index 3 v \<notin> S" and al: "Address_is_aligned VirtAddr_ops v (of_nat PAGE_SIZE_2M) = Some True"
    and table: "\<And>r. gwalk E s 3 root v \<noteq> (0, r)"
  shows "unmap_outcome E B 3 S root 1 v s (unmap_2m E root v s)"
proof -
  have T: "pt_tree E B 3 S root s" using ok by (simp add: pt_ok_def)
  obtain l r e where w: "gwalk E s 3 root v = (l, r)" "pte_get r s = Some e" "l \<le> 3"
    "pt_trans E 3 root s v = (if PTEntry_has PTE_PRESENT e then Some (l, e) else None)" using walk_cases [OF T v] .
  have l0: "l \<noteq> 0" using table w(1) by metis
  have "\<not> PTEntry_has PTE_PRESENT e \<Longrightarrow> set_trans E 3 S root 1 v PhysAddr_null s s"
    using clear_absent [OF T v w(1,2), of 1] l0 by simp
  then show ?thesis using clear_leaf [OF ok v w(1)] ok l0
    by (cases rule: mk_mapping_cases [OF w(3), of r])
      (auto simp: unmap_outcome_def unmap_2m_def al walk_addr_tree [OF T v] w assert_not_present_def)
qed

text \<open>The entry that \<open>RawPageTablePart::unmap_2m\<close> returns is the cleared one.\<close>

lemma part_unmap_2m_cleared:
  assumes ok: "pt_ok E B 2 S root s" and v: "pt_index 2 v \<notin> S" and al: "Address_is_aligned VirtAddr_ops v (of_nat PAGE_SIZE_2M) = Some True"
    and tr: "pt_trans E 2 root s v = Some (1, e)"
  shows "\<exists>s'. part_unmap_2m E root v s = Some (Some PhysAddr_null, s') \<and> pt_ok E B 2 S root s' \<and> set_trans E 2 S root 1 v PhysAddr_null s s'"
proof -
  have T: "pt_tree E B 2 S root s" using ok by (simp add: pt_ok_def)
  obtain l r x where w: "gwalk E s 2 root v = (l, r)" "pte_get r s = Some x" "l \<le> 2"
    "pt_trans E 2 root s v = (if PTEntry_has PTE_PRESENT x then Some (l, x) else None)" using walk_cases [OF T v] .
  then have l: "l = 1" using tr by (simp split: if_splits)
  show ?thesis using clear_leaf [OF ok v w(1)] by (auto simp: part_unmap_2m_def al part_walk_tree [OF T v] w(1) l mk_mapping_def)
qed

end
