(* ===== verification/Page_Split.thy ===== *)
theory Page_Split
  imports Page_Lookup
begin

unbundle bit_operations_syntax

text \<open>
  Splitting a 2M page and changing the sharing state of a 4K page.
\<close>

section \<open>Frames of a 2M page\<close>

lemma wadd_disjoint:
  fixes a b :: "'a::len word"
  assumes "\<And>n. bit a n \<Longrightarrow> \<not> bit b n"
  shows "wadd a b = Some (a OR b)"
proof -
  have w: "a + b = a OR b" using assms by (intro disjunctive_add) auto
  have "unat a + unat b = unat a OR unat b" using assms by (intro disjunctive_add) (auto simp: bit_unsigned_iff)
  also have "\<dots> = unat (a OR b)" by (simp add: unsigned_or_eq)
  finally show ?thesis using unsigned_less [of "a OR b"] by (simp add: wadd_def w)
qed

text \<open>The encryption masks leave the offsets within a 2M page alone.\<close>

definition masks_2m :: "paging \<Rightarrow> bool" where
  "masks_2m pg \<longleftrightarrow> private_pte_mask pg AND mask 21 = 0 \<and> shared_pte_mask pg AND mask 21 = 0"

definition aligned_2m :: "PhysAddr \<Rightarrow> bool" where
  "aligned_2m p \<longleftrightarrow> phys_bits p AND mask 21 = 0"

definition frame_of :: "PhysAddr \<Rightarrow> nat \<Rightarrow> PhysAddr" where
  "frame_of p i = PhysAddr (phys_bits p OR push_bit 12 (of_nat i))"

lemma bit_frame_index: "i < ENTRY_COUNT \<Longrightarrow> bit (push_bit 12 (of_nat i :: u64)) n \<Longrightarrow> 12 \<le> n \<and> n < 21"
proof -
  assume i: "i < ENTRY_COUNT" and b: "bit (push_bit 12 (of_nat i :: u64)) n"
  then have n: "12 \<le> n" "bit (of_nat i :: u64) (n - 12)" by (auto simp: bit_push_bit_iff)
  have "bit i (n - 12)" using n(2) by (simp add: bit_of_nat_iff)
  moreover have "take_bit 9 i = i" using i by (simp add: take_bit_nat_eq_self ENTRY_COUNT_def)
  ultimately have "n - 12 < 9" by (metis bit_take_bit_iff)
  then show ?thesis using n by simp
qed

lemma frame_of_ok:
  assumes p: "frame_ok pg p" "aligned_2m p" and m: "masks_2m pg" and i: "i < ENTRY_COUNT"
  shows "PhysAddr_add p (of_nat (i * PAGE_SIZE)) = Some (frame_of p i)" and "frame_ok pg (frame_of p i)"
proof -
  note bi = bit_frame_index [OF i]
  have al: "\<not> bit (phys_bits p) n" "\<not> bit (private_pte_mask pg) n" "\<not> bit (shared_pte_mask pg) n" if "n < 21" for n
    using p(2) m that unfolding aligned_2m_def masks_2m_def bits_disjoint bit_mask_iff by (auto dest: bit_imp_le_length)
  have o: "of_nat (i * PAGE_SIZE) = push_bit 12 (of_nat i :: u64)" by (simp add: push_bit_eq_mult page_consts)
  have "wadd (phys_bits p) (push_bit 12 (of_nat i)) = Some (phys_bits p OR push_bit 12 (of_nat i))"
    using al(1) bi by (intro wadd_disjoint) blast
  then show "PhysAddr_add p (of_nat (i * PAGE_SIZE)) = Some (frame_of p i)"
    unfolding PhysAddr_add_def o by (simp add: frame_of_def PhysAddr_from_def)
  show "frame_ok pg (frame_of p i)"
    unfolding frame_ok_def frame_of_def PhysAddr.sel bits_subset bit_ADDR_MASK
    unfolding bits_disjoint bit_or_iff using frame_okD [OF p(1)] bi al(2,3) by (auto dest: bi)
qed

lemma entry_frame_ok: "paging_ok pg \<Longrightarrow> frame_ok pg (PTEntry_address pg e)"
  unfolding frame_ok_def PTEntry_address_def PTEntry_page_frame_def strip_shared_address_bits_def strip_confidentiality_bits_def
    PhysAddr_from_def PhysAddr.sel bits_subset unfolding bits_disjoint
  by (auto simp: bit_and_iff bit_not_iff)

lemma mask_2m_frame:
  assumes "paging_ok pg" and "aligned_2m (PTEntry_address pg e)"
  shows "PhysAddr_from (phys_bits (PTEntry_address pg e) AND 0x000ffffffff00000) = PTEntry_address pg e"
proof -
  let ?a = "phys_bits (PTEntry_address pg e)"
  have M: "(0x000ffffffff00000 :: u64) = mask 52 AND NOT (mask 20)" by (simp add: mask_eq_exp_minus_1)
  have "?a AND 0x000ffffffff00000 = ?a"
    unfolding M word_bits_eq using frame_okD(2) [OF entry_frame_ok [OF assms(1)], of e] assms(2)
    unfolding aligned_2m_def bits_disjoint by (auto simp: bit_and_iff bit_not_iff bit_mask_iff)
  then show ?thesis by (simp add: PhysAddr_from_def)
qed

section \<open>Filling a page\<close>

lemma forO_append: "forO (xs @ ys) f s = Option.bind (forO xs f s) (forO ys f)"
  by (induction xs arbitrary: s) (simp_all split: option.splits)

lemma fill_page:
  assumes f: "\<And>i s. i < ENTRY_COUNT \<Longrightarrow> f i s = pte_put (page, i) (x i) s"
    and p: "pt_pages s page = Some es" "length es = ENTRY_COUNT"
  shows "m \<le> ENTRY_COUNT \<Longrightarrow> forO [0 ..< m] f s = Some (s\<lparr>pt_pages := (pt_pages s)(page \<mapsto> map x [0 ..< m] @ drop m es)\<rparr>)"
proof (induction m)
  case 0
  then show ?case using p by (simp add: fun_upd_idem)
next
  case (Suc m)
  have "(map x [0 ..< m] @ drop m es)[m := x m] = map x [0 ..< Suc m] @ drop (Suc m) es"
    using Suc.prems p(2) by (simp add: list_update_append Cons_nth_drop_Suc [symmetric])
  then show ?case using Suc p(2) f [of m] by (simp add: forO_append pte_put_def fun_upd_def cong: if_cong)
qed

section \<open>Splitting\<close>

text \<open>
  The outcome of splitting the 2M page of \<open>v\<close>: the pages of its frames, all of them private, or no
  memory for the table.
\<close>

definition split_outcome ::
  "pt_env \<Rightarrow> nat set \<Rightarrow> nat \<Rightarrow> nat set \<Rightarrow> VirtAddr \<Rightarrow> VirtAddr \<Rightarrow> PTEntry \<Rightarrow> pt_state \<Rightarrow> (unit, SvsmError) result \<times> pt_state \<Rightarrow> bool" where
  "split_outcome E B n S root v e s = (\<lambda>(r, s'). (case r of
       Ok _ \<Rightarrow> pt_ok E B n S root s' \<and> (\<exists>q. gwalk E s' n root v = (0, q)) \<and>
         (\<forall>w. pt_index n w \<notin> S \<longrightarrow> pt_trans E n root s' w = (if same_entry n 1 v w
           then Some (0, pte_make (pe_paging E) (frame_of (PTEntry_address (pe_paging E) e) (pt_index 0 w)) False (PTEntry_flags e AND NOT (pte_flag PTE_HUGE)))
           else pt_trans E n root s w))
     | Err err \<Rightarrow> err = SvsmError_Alloc AllocError_OutOfMemory \<and> s' = s \<and> no_memory s))"

lemma split_flags:
  assumes "PTEntry_has PTE_PRESENT e"
  shows "flags_contain (PTEntry_flags e AND NOT (pte_flag PTE_HUGE)) (pte_flag PTE_PRESENT)"
    and "\<not> flags_contain (PTEntry_flags e AND NOT (pte_flag PTE_HUGE)) (pte_flag PTE_HUGE)"
  using assms by (simp_all add: flags_contain_flag bit_and_iff bit_not_iff bit_pte_flag flag_pos_def PTEntry_has_bit PTEntry_flags_def bit_PTEntryFlags_all)

lemma do_split_ok:
  assumes ok: "pt_ok E B n S root s" and v: "pt_index n v \<notin> S" and g: "gwalk E s n root v = (1, r)"
    and e: "pte_get r s = Some e" "PTEntry_has PTE_PRESENT e"
    and al: "aligned_2m (PTEntry_address (pe_paging E) e)" "masks_2m (pe_paging E)"
  shows "\<exists>x. do_split_4k E r s = Some x \<and> split_outcome E B n S root v e s x"
proof -
  let ?pg = "pe_paging E" and ?fl = "PTEntry_flags e AND NOT (pte_flag PTE_HUGE)"
  have T: "pt_tree E B n S root s" and E: "env_ok E (pt_heap s)" and pg: "paging_ok ?pg" using ok by (auto simp: pt_ok_def env_ok_def)
  obtain t i where r: "r = (t, i)" by (cases r)
  have g1: "gwalk E s n root v = (Suc 0, (t, i))" using g r by simp
  note G = gwalk_get [OF T v g1] and fl = split_flags [OF e(2)]
  have huge: "PTEntry_has PTE_HUGE e" by (rule leaf_huge [OF T v g1 e(1) [unfolded r] e(2)])
  from PTPage_alloc_ok [OF pt_treeD(1) [OF T] E] show ?thesis
  proof (elim disjE exE conjE)
    fix page pa s1 assume a: "PTPage_alloc E s = Some (Ok (page, pa), s1)" "new_page E B s page pa s1"
    have tp: "t \<noteq> page" using new_page_fresh [OF T a(2) G(3)] G(4) by blast
    have pages1: "pt_pages s1 = (pt_pages s)(page \<mapsto> replicate ENTRY_COUNT PhysAddr_null)" and pa: "frame_ok ?pg pa"
      using new_pageD [OF a(2)] by simp_all
    have e1: "pte_get r s1 = Some e" using e(1) tp by (simp add: r pte_get_def pages1)
    let ?x = "\<lambda>i. pte_make ?pg (frame_of (PTEntry_address ?pg e) i) False ?fl"
    let ?s2 = "s1\<lparr>pt_pages := (pt_pages s1)(page \<mapsto> map ?x [0 ..< ENTRY_COUNT])\<rparr>"
    note fr = frame_of_ok [OF entry_frame_ok [OF pg] al]
    have fill: "forO [0 ..< ENTRY_COUNT] (\<lambda>i s. do {
         addr_4k \<leftarrow> PhysAddr_add (PTEntry_address ?pg e) (of_nat (i * PAGE_SIZE));
         e \<leftarrow> PTEntry_set ?pg (make_private_address ?pg addr_4k) ?fl;
         pte_put (page, i) e s }) s1 = Some ?s2"
      using fill_page [where x = ?x and m = ENTRY_COUNT and page = page and s = s1 and es = "replicate ENTRY_COUNT PhysAddr_null"] fr pg
      by (simp add: pages1 make_addresses PTEntry_set_eq)
    have es: "length (map ?x [0 ..< ENTRY_COUNT]) = ENTRY_COUNT" by simp
    from link_page [OF T v g1 a(2) E fl es _ refl] obtain s3 where s3: "pte_put (t, i) (pte_make ?pg pa False ?fl) ?s2 = Some s3" "pt_tree E B n S root s3"
      "hm_start_virt (pt_heap s3) = hm_start_virt (pt_heap s)" "hm_page_count (pt_heap s3) = hm_page_count (pt_heap s)"
      "\<forall>w. pt_index n w \<notin> S \<longrightarrow> gwalk E s3 n root w = (if same_entry n 1 v w then (0, (page, pt_index 0 w)) else gwalk E s n root w)"
      "\<forall>w. pt_index n w \<notin> S \<longrightarrow> \<not> same_entry n 1 v w \<longrightarrow> pt_trans E n root s3 w = pt_trans E n root s w"
      "\<forall>j. j < ENTRY_COUNT \<longrightarrow> pte_get (page, j) s3 = Some (map ?x [0 ..< ENTRY_COUNT] ! j)" by (metis One_nat_def)
    have tr: "pt_trans E n root s3 w = Some (0, ?x (pt_index 0 w))" if "pt_index n w \<notin> S" "same_entry n 1 v w" for w
    proof (subst pt_trans_gwalk)
      show "gwalk E s3 n root w = (0, (page, pt_index 0 w))" using s3(5) that by simp
      show "pte_get (page, pt_index 0 w) s3 = Some (?x (pt_index 0 w))" using s3(7) pt_index_less by simp
    qed (use pte_make_read(4) [OF pg fr(2) [OF pt_index_less], of PTE_PRESENT] fl(1) in simp)
    have "do_split_4k E r s = Some (Ok (), s3)"
      using fill s3(1) huge PTEntry_set_eq [OF pg pa, of False ?fl]
      by (simp add: do_split_4k_def bindM_def a(1) e1 [unfolded r] flags_present Let_def mask_2m_frame [OF pg al(1)] make_addresses r)
    moreover have "split_outcome E B n S root v e s (Ok (), s3)"
      using s3(2,5,6) tr v env_ok_same [OF E s3(3,4)] by (auto simp: split_outcome_def pt_ok_def)
    ultimately show ?thesis by blast
  next
    assume "PTPage_alloc E s = Some (Err (SvsmError_Alloc AllocError_OutOfMemory), s)" "no_memory s"
    then show ?thesis by (simp add: do_split_4k_def bindM_def split_outcome_def)
  qed
qed

section \<open>Sharing\<close>

text \<open>\<open>set_shared_4k\<close> and \<open>set_encrypted_4k\<close> differ in the sharing state they store.\<close>

definition set_sharing_4k :: "pt_env \<Rightarrow> VirtAddr \<Rightarrow> VirtAddr \<Rightarrow> bool \<Rightarrow> (pt_state, unit, SvsmError) svsm" where
  "set_sharing_4k E root v sh = (if sh then set_shared_4k E root v else set_encrypted_4k E root v)"

definition share_leaf :: "pt_env \<Rightarrow> pte_ref \<Rightarrow> bool \<Rightarrow> (pt_state, unit, SvsmError) svsm" where
  "share_leaf E r sh s = do { e \<leftarrow> pte_get r s; store_leaf E r (PTEntry_address (pe_paging E) e) (PTEntry_flags e) sh s }"

lemma set_sharing_eq:
  "set_sharing_4k E root v sh s = do {
     mapping \<leftarrow> walk_addr E root v s;
     bindM (split_4k E mapping) (\<lambda>_ s. do {
       m \<leftarrow> walk_addr E root v s;
       case m of Level0 r \<Rightarrow> share_leaf E r sh s | _ \<Rightarrow> Some (Err SvsmError_Mem, s)
     }) s
   }"
proof -
  have "Option.bind (make_pte_shared E r s) (\<lambda>s. Some (Ok (), s)) = share_leaf E r True s"
    "Option.bind (make_pte_private E r s) (\<lambda>s. Some (Ok (), s)) = share_leaf E r False s" for r s
    by (simp_all add: make_pte_shared_def make_pte_private_def share_leaf_def store_leaf_def make_addresses)
  then show ?thesis by (cases sh) (simp_all add: set_sharing_4k_def set_shared_4k_def set_encrypted_4k_def cong: Mapping.case_cong)
qed

lemma share_leaf_ok:
  assumes ok: "pt_ok E B n S root s" and v: "pt_index n v \<notin> S" and g: "gwalk E s n root v = (0, r)" and e: "pte_get r s = Some e"
  shows "\<exists>s'. share_leaf E r sh s = Some (Ok (), s') \<and> pt_ok E B n S root s'
    \<and> set_trans E n S root 0 v (pte_make (pe_paging E) (PTEntry_address (pe_paging E) e) sh (PTEntry_flags e)) s s'"
proof -
  have "paging_ok (pe_paging E)" using ok by (simp add: pt_ok_def env_ok_def)
  from store_leaf_ok [OF ok v g, of s, OF _ entry_frame_ok [OF this], of "PTEntry_flags e" e sh] show ?thesis
    by (simp add: share_leaf_def e same_trans_def)
qed

text \<open>The frame and the flags of the 4K page of an address, whether a 4K or a 2M page maps it.\<close>

definition frame_4k :: "paging \<Rightarrow> VirtAddr \<Rightarrow> nat \<times> PTEntry \<Rightarrow> PhysAddr" where
  "frame_4k pg v = (\<lambda>(l, e). if l = 0 then PTEntry_address pg e else frame_of (PTEntry_address pg e) (pt_index 0 v))"

definition flags_4k :: "nat \<times> PTEntry \<Rightarrow> PTEntryFlags" where
  "flags_4k = (\<lambda>(l, e). if l = 0 then PTEntry_flags e else PTEntry_flags e AND NOT (pte_flag PTE_HUGE))"

definition share_outcome ::
  "pt_env \<Rightarrow> nat set \<Rightarrow> nat set \<Rightarrow> VirtAddr \<Rightarrow> VirtAddr \<Rightarrow> bool \<Rightarrow> nat \<times> PTEntry \<Rightarrow> pt_state \<Rightarrow> (unit, SvsmError) result \<times> pt_state \<Rightarrow> bool" where
  "share_outcome E B S root v sh tr s = (\<lambda>(r, s'). (case r of
       Ok _ \<Rightarrow> pt_ok E B 3 S root s' \<and> fst tr \<le> 1 \<and> (\<forall>w. pt_index 3 w \<notin> S \<longrightarrow> pt_trans E 3 root s' w =
         (if same_entry 3 0 v w then Some (0, pte_make (pe_paging E) (frame_4k (pe_paging E) w tr) sh (flags_4k tr))
          else if same_entry 3 (fst tr) v w then Some (0, pte_make (pe_paging E) (frame_4k (pe_paging E) w tr) False (flags_4k tr))
          else pt_trans E 3 root s w))
     | Err err \<Rightarrow> s' = s \<and> (err = SvsmError_Mem \<and> 2 \<le> fst tr \<or> err = SvsmError_Alloc AllocError_OutOfMemory \<and> fst tr = 1 \<and> no_memory s)))"

lemma pte_make_again:
  assumes "paging_ok pg" and "frame_ok pg p" and "x = pte_make pg p a flags"
  shows "pte_make pg (PTEntry_address pg x) b (PTEntry_flags x) = pte_make pg p b flags"
  using pte_make_read(1,2) [OF assms(1,2), of a flags] unfolding assms(3) by (simp add: pte_make_def and.assoc)

lemma pte_make_present:
  "paging_ok pg \<Longrightarrow> PTEntry_has PTE_PRESENT (pte_make pg (PTEntry_address pg e) sh (PTEntry_flags e)) \<longleftrightarrow> PTEntry_has PTE_PRESENT e"
  using pte_make_read(4) [OF _ entry_frame_ok, of pg PTE_PRESENT e sh "PTEntry_flags e"] by (simp add: flags_present)

lemma split_then_share:
  assumes q: "pt_ok E B 3 S root s1" "gwalk E s1 3 root v = (0, r)"
    "\<And>w. pt_index 3 w \<notin> S \<Longrightarrow> pt_trans E 3 root s1 w = (if same_entry 3 1 v w
       then Some (0, pte_make (pe_paging E) (frame_of (PTEntry_address (pe_paging E) e) (pt_index 0 w)) False (PTEntry_flags e AND NOT (pte_flag PTE_HUGE)))
       else pt_trans E 3 root s w)"
    and v: "pt_index 3 v \<notin> S" and e: "PTEntry_has PTE_PRESENT e"
    and al: "aligned_2m (PTEntry_address (pe_paging E) e)" "masks_2m (pe_paging E)"
  shows "\<exists>s'. share_leaf E r sh s1 = Some (Ok (), s') \<and> share_outcome E B S root v sh (1, e) s (Ok (), s')"
proof -
  let ?pg = "pe_paging E" and ?fl = "PTEntry_flags e AND NOT (pte_flag PTE_HUGE)"
  let ?x = "\<lambda>sh w. pte_make ?pg (frame_of (PTEntry_address ?pg e) (pt_index 0 w)) sh ?fl"
  have T1: "pt_tree E B 3 S root s1" and pg: "paging_ok ?pg" using q(1) by (auto simp: pt_ok_def env_ok_def)
  have xr: "pte_get r s1 = Some (?x False v)"
  proof -
    obtain t i where "r = (t, i)" by (cases r)
    with gwalk_get(2) [OF T1 v, of 0 t i] q(2) obtain z where "pte_get r s1 = Some z" by auto
    with pt_trans_gwalk [OF q(2) this] q(3) [OF v] show ?thesis by (simp split: if_splits)
  qed
  have fr: "frame_ok ?pg (frame_of (PTEntry_address ?pg e) (pt_index 0 w))" for w
    by (rule frame_of_ok(2) [OF entry_frame_ok [OF pg] al pt_index_less])
  from share_leaf_ok [OF q(1) v q(2) xr, of sh] obtain s' where s': "share_leaf E r sh s1 = Some (Ok (), s')" "pt_ok E B 3 S root s'"
    "set_trans E 3 S root 0 v (?x sh v) s1 s'" unfolding pte_make_again [OF pg fr refl] by blast
  have pres: "PTEntry_has PTE_PRESENT (?x sh v)" using pte_make_read(4) [OF pg fr] split_flags(1) [OF e] by simp
  have "pt_trans E 3 root s' w = (if same_entry 3 0 v w then Some (0, pte_make ?pg (frame_4k ?pg w (1, e)) sh (flags_4k (1, e)))
      else if same_entry 3 1 v w then Some (0, pte_make ?pg (frame_4k ?pg w (1, e)) False (flags_4k (1, e))) else pt_trans E 3 root s w)"
    if w: "pt_index 3 w \<notin> S" for w
  proof -
    have "pt_index 0 w = pt_index 0 v" if "same_entry 3 0 v w" using that by (simp add: same_entry_def)
    then show ?thesis using s'(3) q(3) [OF w] w pres by (simp add: set_trans_def frame_4k_def flags_4k_def)
  qed
  then have "share_outcome E B S root v sh (1, e) s (Ok (), s')" using s'(2) by (simp add: share_outcome_def)
  then show ?thesis using s'(1) by blast
qed

lemma set_sharing_huge:
  assumes ok: "pt_ok E B 3 S root s" and v: "pt_index 3 v \<notin> S" and g: "gwalk E s 3 root v = (1, r)"
    and e: "pte_get r s = Some e" "PTEntry_has PTE_PRESENT e"
    and al: "aligned_2m (PTEntry_address (pe_paging E) e)" "masks_2m (pe_paging E)"
  shows "\<exists>x. set_sharing_4k E root v sh s = Some x \<and> share_outcome E B S root v sh (1, e) s x"
proof -
  have T: "pt_tree E B 3 S root s" using ok by (simp add: pt_ok_def)
  have m: "walk_addr E root v s = Some (Level1 r)" using walk_addr_tree [OF T v] g by (simp add: mk_mapping_def)
  from do_split_ok [OF ok v g e al] obtain y s1 where y: "do_split_4k E r s = Some (y, s1)" "split_outcome E B 3 S root v e s (y, s1)" by auto
  show ?thesis
  proof (cases y)
    case (Err err)
    then have "set_sharing_4k E root v sh s = Some (Err err, s1)" using y(1) by (simp add: set_sharing_eq m bindM_def)
    then show ?thesis using y(2) Err by (auto simp: split_outcome_def share_outcome_def)
  next
    case (Ok u)
    from y(2) obtain q where q: "pt_ok E B 3 S root s1" "gwalk E s1 3 root v = (0, q)"
      "\<And>w. pt_index 3 w \<notin> S \<Longrightarrow> pt_trans E 3 root s1 w = (if same_entry 3 1 v w
       then Some (0, pte_make (pe_paging E) (frame_of (PTEntry_address (pe_paging E) e) (pt_index 0 w)) False (PTEntry_flags e AND NOT (pte_flag PTE_HUGE)))
       else pt_trans E 3 root s w)" unfolding split_outcome_def Ok by auto
    have T1: "pt_tree E B 3 S root s1" using q(1) by (simp add: pt_ok_def)
    from split_then_share [OF q v e(2) al, of sh] obtain s' where s': "share_leaf E q sh s1 = Some (Ok (), s')"
      "share_outcome E B S root v sh (1, e) s (Ok (), s')" by blast
    have "walk_addr E root v s1 = Some (Level0 q)" using walk_addr_tree [OF T1 v] q(2) by (simp add: mk_mapping_def)
    then have "set_sharing_4k E root v sh s = Some (Ok (), s')" using y(1) Ok s'(1) by (simp add: set_sharing_eq m bindM_def)
    then show ?thesis using s'(2) by blast
  qed
qed

lemma set_sharing_ok:
  assumes ok: "pt_ok E B 3 S root s" and v: "pt_index 3 v \<notin> S" and tr: "pt_trans E 3 root s v = Some (l, e)"
    and al: "l = 1 \<Longrightarrow> aligned_2m (PTEntry_address (pe_paging E) e)" "masks_2m (pe_paging E)"
  shows "\<exists>x. set_sharing_4k E root v sh s = Some x \<and> share_outcome E B S root v sh (l, e) s x"
proof -
  let ?pg = "pe_paging E"
  have T: "pt_tree E B 3 S root s" and pg: "paging_ok ?pg" using ok by (auto simp: pt_ok_def env_ok_def)
  obtain k r x where w: "gwalk E s 3 root v = (k, r)" "pte_get r s = Some x" "k \<le> 3"
    "pt_trans E 3 root s v = (if PTEntry_has PTE_PRESENT x then Some (k, x) else None)" using walk_cases [OF T v] .
  then have kl: "k = l" "x = e" "PTEntry_has PTE_PRESENT e" using tr by (auto split: if_splits)
  have l3: "l \<le> 3" using w(3) kl by simp
  show ?thesis
  proof (cases rule: mk_mapping_cases [OF l3, of r])
    case 1
    from share_leaf_ok [OF ok v, of r e sh] w kl 1 obtain s' where s': "share_leaf E r sh s = Some (Ok (), s')" "pt_ok E B 3 S root s'"
      "set_trans E 3 S root 0 v (pte_make ?pg (PTEntry_address ?pg e) sh (PTEntry_flags e)) s s'" by auto
    have "set_sharing_4k E root v sh s = Some (Ok (), s')" using s'(1) w(1) kl 1 by (simp add: set_sharing_eq walk_addr_tree [OF T v] bindM_def)
    moreover have "share_outcome E B S root v sh (l, e) s (Ok (), s')"
      using s'(2,3) 1 kl(3) pg by (simp add: share_outcome_def set_trans_def frame_4k_def flags_4k_def pte_make_present)
    ultimately show ?thesis by blast
  next
    case 2
    then show ?thesis using set_sharing_huge [OF ok v _ _ kl(3) al(1) al(2), of r sh] w kl by simp
  qed (use w(1) kl in \<open>auto simp: set_sharing_eq walk_addr_tree [OF T v] bindM_def share_outcome_def\<close>)
qed

section \<open>The physical addresses\<close>

lemma trans_under:
  assumes T: "pt_tree E B n S root s" and v: "pt_index n v \<notin> S" and w: "pt_index n w \<notin> S"
    and tr: "pt_trans E n root s v = Some (l, e)" and same: "same_entry n l v w"
  shows "pt_trans E n root s w = Some (l, e)"
proof -
  obtain k t i where g: "gwalk E s n root v = (k, (t, i))" by (metis prod.exhaust)
  obtain m u j where h: "gwalk E s n root w = (m, (u, j))" by (metis prod.exhaust)
  have "k = l" using tr g by (auto simp: pt_trans_def leaf_of_def split: if_splits)
  then have "u = t" "j = i" "m = l" using same_entry_gwalk [OF T v w g h] same by auto
  then show ?thesis using tr g h \<open>k = l\<close> by (simp add: pt_trans_def leaf_of_def)
qed

lemma frame_offset:
  assumes a: "aligned_2m a"
  shows "PhysAddr_add (frame_of a (pt_index 0 w)) (Address_page_offset VirtAddr_ops w) = PhysAddr_add a (virt_bits w AND (of_nat PAGE_SIZE_2M - 1))"
proof -
  let ?a = "phys_bits a" and ?w = "virt_bits w"
  have m9: "(0x1ff :: u64) = mask 9" and m21: "of_nat PAGE_SIZE_2M - 1 = (mask 21 :: u64)" and m12: "PAGE_SIZE_W - 1 = mask 12"
    by (simp_all add: mask_eq_exp_minus_1 page_consts)
  have i: "of_nat (pt_index 0 w) = drop_bit 12 ?w AND mask 9" by (simp add: pt_index_def VirtAddr_to_pgtbl_idx_def m9)
  have al: "\<not> bit ?a n" if "n < 21" for n
    using a that unfolding aligned_2m_def bits_disjoint bit_mask_iff by (auto dest: bit_imp_le_length)
  have 1: "wadd ?a (?w AND mask 21) = Some (?a OR (?w AND mask 21))"
    using al by (intro wadd_disjoint) (auto simp: bit_and_iff bit_mask_iff)
  have 2: "wadd (?a OR push_bit 12 (drop_bit 12 ?w AND mask 9)) (?w AND mask 12) = Some ((?a OR push_bit 12 (drop_bit 12 ?w AND mask 9)) OR (?w AND mask 12))"
    using al by (intro wadd_disjoint) (auto simp: bit_and_iff bit_mask_iff bit_or_iff bit_push_bit_iff)
  have "(?a OR push_bit 12 (drop_bit 12 ?w AND mask 9)) OR (?w AND mask 12) = ?a OR (?w AND mask 21)"
    unfolding word_bits_eq by (auto simp: bit_and_iff bit_mask_iff bit_or_iff bit_push_bit_iff bit_drop_bit_eq)
  then show ?thesis using 1 2
    by (simp add: PhysAddr_add_def frame_of_def Address_page_offset_def VirtAddr_ops_def m21 m12 i)
qed

end
