(* ===== verification/Page_Root.thy ===== *)
theory Page_Root
  imports Page_Split Ram_File_Claims
begin

unbundle bit_operations_syntax

text \<open>
  Translated addresses of mapped pages, new page tables and a concrete table to which the
  properties of page tables apply.
\<close>

section \<open>Addresses of mapped pages\<close>

definition page_bits_4k :: "VirtAddr \<Rightarrow> u64" where
  "page_bits_4k v = virt_bits v AND 0x0000fffffffff000"

definition page_bits_2m :: "VirtAddr \<Rightarrow> u64" where
  "page_bits_2m v = virt_bits v AND 0x0000ffffffe00000"

lemma field_eq:
  fixes v w :: u64
  shows "w AND (mask 48 AND NOT (mask k)) = v AND (mask 48 AND NOT (mask k)) \<longleftrightarrow> (\<forall>j. k \<le> j \<longrightarrow> j < 48 \<longrightarrow> bit w j = bit v j)" (is "?l \<longleftrightarrow> ?r")
proof
  assume ?l
  show ?r
  proof (rule allI, rule impI, rule impI)
    fix j assume "k \<le> j" "j < 48"
    then show "bit w j = bit v j" using arg_cong [OF \<open>?l\<close>, of "\<lambda>x. bit x j"] by (simp add: bit_and_iff bit_not_iff bit_mask_iff)
  qed
qed (auto simp: word_bits_eq bit_and_iff bit_not_iff bit_mask_iff)

lemma page_bits_eq:
  "page_bits_4k w = page_bits_4k v \<longleftrightarrow> same_entry 3 0 v w" "page_bits_2m w = page_bits_2m v \<longleftrightarrow> same_entry 3 1 v w"
proof -
  have m: "(0x0000fffffffff000 :: u64) = mask 48 AND NOT (mask 12)" "(0x0000ffffffe00000 :: u64) = mask 48 AND NOT (mask 21)"
    by (simp_all add: mask_eq_exp_minus_1)
  show "page_bits_4k w = page_bits_4k v \<longleftrightarrow> same_entry 3 0 v w" "page_bits_2m w = page_bits_2m v \<longleftrightarrow> same_entry 3 1 v w"
    unfolding page_bits_4k_def page_bits_2m_def m field_eq by (simp_all add: same_entry_bits)
qed

lemma trans_phys_page:
  assumes pg: "paging_ok pg" and p: "frame_ok pg p"
  shows "trans_phys pg w (Some (0, pte_make pg p sh flags)) = Some (Ok (PhysAddr (phys_bits p OR (virt_bits w AND 0xfff))))"
    and "aligned_2m p \<Longrightarrow> trans_phys pg w (Some (1, pte_make pg p sh flags)) = Some (Ok (PhysAddr (phys_bits p OR (virt_bits w AND 0x1fffff))))"
proof -
  have m: "PAGE_SIZE_W - 1 = 0xfff" "of_nat PAGE_SIZE_2M - 1 = (0x1fffff :: u64)" by (simp_all add: page_consts)
  have mm: "(0xfff :: u64) = mask 12" "(0x1fffff :: u64) = mask 21" by (simp_all add: mask_eq_exp_minus_1)
  have "wadd (phys_bits p) (virt_bits w AND 0xfff) = Some (phys_bits p OR (virt_bits w AND 0xfff))"
    unfolding mm by (rule wadd_disjoint) (use frame_okD(1) [OF p] in \<open>force simp: bit_and_iff bit_mask_iff\<close>)
  then show "trans_phys pg w (Some (0, pte_make pg p sh flags)) = Some (Ok (PhysAddr (phys_bits p OR (virt_bits w AND 0xfff))))"
    by (simp add: trans_phys_def pte_make_read(1) [OF pg p] PhysAddr_add_def PhysAddr_from_def Address_page_offset_def VirtAddr_ops_def m)
  assume "aligned_2m p"
  then have "wadd (phys_bits p) (virt_bits w AND 0x1fffff) = Some (phys_bits p OR (virt_bits w AND 0x1fffff))"
    unfolding mm aligned_2m_def bits_disjoint by (intro wadd_disjoint) (auto simp: bit_and_iff bit_mask_iff)
  then show "trans_phys pg w (Some (1, pte_make pg p sh flags)) = Some (Ok (PhysAddr (phys_bits p OR (virt_bits w AND 0x1fffff))))"
    by (simp add: trans_phys_def pte_make_read(1) [OF pg p] PhysAddr_add_def PhysAddr_from_def m)
qed

lemma aligned_2m_iff: "Address_is_aligned PhysAddr_ops p (of_nat PAGE_SIZE_2M) = Some (aligned_2m p)"
proof -
  have "of_nat PAGE_SIZE_2M - 1 = (mask 21 :: u64)" "(1 :: u64) \<le> of_nat PAGE_SIZE_2M" by (simp_all add: mask_eq_exp_minus_1 page_consts)
  then show ?thesis by (simp add: Address_is_aligned_def is_aligned_def wsub_def PhysAddr_ops_def aligned_2m_def)
qed

section \<open>New page tables\<close>

lemma root_only:
  assumes new: "new_page E B s page pa s1" and put: "pte_put (page, k) e s1 = Some s2" and E: "env_ok E (pt_heap s)"
  shows "pt_ok E B n {k} page s2" and "pt_index n v \<noteq> k \<Longrightarrow> pt_trans E n page s2 v = None"
    and "pte_get (page, k) s2 = Some e" and "free_pages s \<le> Suc (free_pages s2)"
    and "i < ENTRY_COUNT \<Longrightarrow> i \<noteq> k \<Longrightarrow> pte_get (page, i) s2 = Some PhysAddr_null"
proof -
  obtain f heap where N: "page = page_vaddr (pt_heap s) f" "f < hm_page_count (pt_heap s)"
    "ah_used (heap_abs heap) = (ah_used (heap_abs (pt_heap s)))(f \<mapsto> AllocP 0)"
    "s1 = s\<lparr>pt_heap := heap, pt_pages := (pt_pages s)(page \<mapsto> replicate ENTRY_COUNT PhysAddr_null)\<rparr>"
    "root_ok B heap" "hm_start_virt heap = hm_start_virt (pt_heap s)" "hm_page_count heap = hm_page_count (pt_heap s)" using new unfolding new_page_def by (elim exE conjE) (rule that)
  have k: "k < ENTRY_COUNT" and s2: "s2 = s1\<lparr>pt_pages := (pt_pages s1)(page \<mapsto> (replicate ENTRY_COUNT PhysAddr_null)[k := e])\<rparr>"
    using put by (auto simp: pte_put_def N(4) split: if_splits)
  have get: "pte_get (page, i) s2 = (if i < ENTRY_COUNT then Some (if i = k then e else PhysAddr_null) else None)" for i
    by (auto simp: pte_get_def s2 idx_def)
  then show "pte_get (page, k) s2 = Some e" "i < ENTRY_COUNT \<Longrightarrow> i \<noteq> k \<Longrightarrow> pte_get (page, i) s2 = Some PhysAddr_null" using k by simp_all
  show "free_pages s \<le> Suc (free_pages s2)" using new_page_free [OF new] by (simp add: free_pages_def s2)
  have c: "child E s2 page i = None" if "i \<noteq> k" for i using that by (simp add: child_def get)
  have r: "reach E s2 page p = Some t \<longleftrightarrow> p = [] \<and> t = page" if "pt_path n {k} p" for p t
    using that c by (cases p) (auto simp: pt_path_def)
  have tp: "table_page s2 page" using N(1,2,3,7) page_vaddr_cong [OF N(6)] by (auto simp: table_page_def s2 N(4))
  have "pt_tree E B n {k} page s2"
    unfolding pt_tree_def
  proof (intro conjI allI impI)
    show "root_ok B (pt_heap s2)" by (simp add: s2 N(4,5))
    fix p t i x assume a: "pt_path n {k} (p @ [i])" "reach E s2 page p = Some t" "pte_get (t, i) s2 = Some x"
    then have "i \<noteq> k" "t = page" using r pt_path_snoc [OF a(1)] by (auto simp: pt_path_def)
    then show "PTPage_from_entry E x \<noteq> None" using a(3) by (auto simp: get split: if_splits)
  qed (use r tp in auto)
  moreover have "env_ok E (pt_heap s2)" by (rule env_ok_same [OF E]) (simp_all add: s2 N(4,6,7))
  ultimately show "pt_ok E B n {k} page s2" by (simp add: pt_ok_def)
  show "pt_trans E n page s2 v = None" if "pt_index n v \<noteq> k"
  proof -
    have "gwalk E s2 n page v = (n, (page, pt_index n v))" using c [OF that] by (cases n) simp_all
    then show ?thesis using that by (simp add: pt_trans_def leaf_of_def get pt_index_less)
  qed
qed

lemma alloc_box_ok:
  assumes r: "root_ok B (pt_heap s)" and E: "env_ok E (pt_heap s)"
  shows "(\<exists>page pa s1. PTPage_alloc_box s = Some (Ok page, s1) \<and> pe_virt_to_phys E page = Some pa \<and> new_page E B s page pa s1)
    \<or> (PTPage_alloc_box s = Some (Err (SvsmError_Alloc AllocError_OutOfMemory), s) \<and> no_memory s)"
  using PTPage_alloc_ok [OF r E]
  by (auto simp: PTPage_alloc_def bindM_def split: option.splits result.splits Option.bind_splits)

text \<open>The page table that \<open>allocate_new\<close> returns: the self-map and no translation.\<close>

definition new_table :: "pt_env \<Rightarrow> nat set \<Rightarrow> VirtAddr \<Rightarrow> pt_state \<Rightarrow> bool" where
  "new_table E B root s \<longleftrightarrow> pt_ok E B 3 {PGTABLE_LVL3_IDX_PTE_SELFMAP} root s
     \<and> child E s root PGTABLE_LVL3_IDX_PTE_SELFMAP = Some root
     \<and> (\<forall>i < ENTRY_COUNT. i \<noteq> PGTABLE_LVL3_IDX_PTE_SELFMAP \<longrightarrow> pte_get (root, i) s = Some PhysAddr_null)"

lemma allocate_new_ok:
  assumes r: "root_ok B (pt_heap s)" and E: "env_ok E (pt_heap s)"
  shows "(\<exists>root s'. PageTable_allocate_new E s = Some (Ok root, s') \<and> new_table E B root s' \<and> (\<forall>t. table_page s t \<longrightarrow> t \<noteq> root)
      \<and> free_pages s \<le> Suc (free_pages s'))
    \<or> (PageTable_allocate_new E s = Some (Err (SvsmError_Alloc AllocError_OutOfMemory), s) \<and> no_memory s)"
  using alloc_box_ok [OF assms]
proof (elim disjE exE conjE)
  let ?fl = "pte_flag PTE_PRESENT OR pte_flag PTE_WRITABLE OR pte_flag PTE_ACCESSED OR pte_flag PTE_DIRTY OR pte_flag PTE_NX"
  fix page pa s1 assume a: "PTPage_alloc_box s = Some (Ok page, s1)" "pe_virt_to_phys E page = Some pa" "new_page E B s page pa s1"
  have pa: "frame_ok (pe_paging E) pa" "phys_to_virt (pe_fixed_mapping E) pa = Some page" and pg: "paging_ok (pe_paging E)"
    using new_pageD [OF a(3)] E by (simp_all add: env_ok_def)
  let ?e = "pte_make (pe_paging E) pa False ?fl"
  have fl: "flags_contain ?fl (pte_flag PTE_PRESENT)" "\<not> flags_contain ?fl (pte_flag PTE_HUGE)"
    by (simp_all add: flags_contain_flag bit_or_iff bit_pte_flag flag_pos_def)
  have "pt_pages s1 page = Some (replicate ENTRY_COUNT PhysAddr_null)" using new_pageD(1) [OF a(3)] by simp
  then obtain s2 where put: "pte_put (page, PGTABLE_LVL3_IDX_PTE_SELFMAP) ?e s1 = Some s2"
    by (simp add: pte_put_def ENTRY_COUNT_def PGTABLE_LVL3_IDX_PTE_SELFMAP_def)
  note root = root_only [OF a(3) put E]
  have "child E s2 page PGTABLE_LVL3_IDX_PTE_SELFMAP = Some page"
    by (simp add: child_def root(3) from_entry_table(1) [OF E pa fl])
  then have "new_table E B page s2" using root(1,5) by (simp add: new_table_def)
  moreover have "PageTable_allocate_new E s = Some (Ok page, s2)"
    using a(1,2) put PTEntry_set_eq [OF pg pa(1), of False ?fl] by (simp add: PageTable_allocate_new_def bindM_def make_addresses)
  moreover have "t \<noteq> page" if "table_page s t" for t
    by (rule new_page_other [OF r a(3) that])
  ultimately show ?thesis using root(4) by blast
qed (simp add: PageTable_allocate_new_def bindM_def)

section \<open>The addresses of the self-map\<close>

definition pte_base :: u64 where
  "pte_base = 0xfffff68000000000"

lemma SVSM_PTE_BASE_eq: "virt_bits SVSM_PTE_BASE = pte_base"
  by (simp add: SVSM_PTE_BASE_def virt_from_idx_def PGTABLE_LVL3_IDX_PTE_SELFMAP_def VirtAddr_new_def sign_extend_def SIGN_BIT_def pte_base_def)

lemma bit_pte_base: "bit pte_base n \<longleftrightarrow> n \<in> {39, 41, 42} \<or> 44 \<le> n \<and> n < 64"
proof -
  have e: "pte_base = push_bit 39 1 OR push_bit 41 1 OR push_bit 42 1 OR (NOT (mask 44))"
    by (simp add: pte_base_def mask_eq_exp_minus_1)
  show ?thesis unfolding e bit_or_iff bit_exp bit_not_iff bit_mask_iff by auto
qed

lemma get_pte_address_bits:
  obtains a where "get_pte_address v = Some a" "\<forall>j < 64. bit (virt_bits a) j = (if j < 39 then 3 \<le> j \<and> bit (virt_bits v) (j + 9) else bit pte_base j)"
proof -
  let ?x = "drop_bit 9 (virt_bits v AND 0x0000FFFFFFFFF000)"
  have m: "(0x0000FFFFFFFFF000 :: u64) = mask 48 AND NOT (mask 12)" by (simp add: mask_eq_exp_minus_1)
  have x: "bit ?x j \<longleftrightarrow> j < 39 \<and> 3 \<le> j \<and> bit (virt_bits v) (j + 9)" if "j < 64" for j
    using that unfolding m by (auto simp: bit_drop_bit_eq bit_and_iff bit_not_iff bit_mask_iff add.commute)
  have d: "wadd pte_base ?x = Some (pte_base OR ?x)"
    by (rule wadd_disjoint) (use x bit_pte_base in \<open>auto dest: bit_imp_le_length\<close>)
  let ?y = "sign_extend (pte_base OR ?x)"
  have "get_pte_address v = Some (VirtAddr ?y)"
    using d by (simp add: get_pte_address_def VirtAddr_add_def SVSM_PTE_BASE_eq VirtAddr_from_def)
  moreover have "bit ?y j = (if j < 39 then 3 \<le> j \<and> bit (virt_bits v) (j + 9) else bit pte_base j)" if "j < 64" for j
    using that x [of j] x [of 47] bit_pte_base [of j] by (auto simp: bit_sign_extend bit_or_iff bit_pte_base)
  ultimately show thesis using that by simp
qed

section \<open>A concrete table\<close>

definition demo_env :: pt_env where
  "demo_env = \<lparr> pe_paging = \<lparr> private_pte_mask = 0x0008000000000000, shared_pte_mask = 0, feature_mask = PTEntryFlags_all,
       phys_addr_size = 48, max_phys_addr = 0x1000000000000 \<rparr>,
     pe_fixed_mapping = \<lparr> fam_kernel_mapping = \<lparr> fm_virt_start = VirtAddr 0xffffff8000000000,
       fm_virt_end = VirtAddr 0xffffff8000100000, fm_phys_start = PhysAddr 0 \<rparr>, fam_heap_mapping = None \<rparr>,
     pe_read_pte = (\<lambda>_. PhysAddr 0x81) \<rparr>"

lemma demo_root: "root_ok {0} demo_heap" "hm_start_virt demo_heap = VirtAddr 0xffffff8000000000" "hm_page_count demo_heap = 66"
proof -
  have "1 + meta_pages (hm_page_count demo_region) \<le> hm_page_count demo_region" by (simp add: demo_region)
  from init_memory_run [OF demo_region(1) this refl] obtain r' where
    "init_memory 1 demo_region = Some r'" "hm_start_virt r' = hm_start_virt demo_region" by metis
  then show v: "hm_start_virt demo_heap = VirtAddr 0xffffff8000000000" by (simp add: demo_heap_def demo_region_def)
  show "root_ok {0} demo_heap" using demo_heap(1,2) v by (simp add: root_ok_def)
qed (rule demo_heap(2))

lemma demo_paging: "paging_ok (pe_paging demo_env)" "masks_2m (pe_paging demo_env)"
  by (simp_all add: paging_ok_def masks_2m_def demo_env_def mask_eq_exp_minus_1)

text \<open>The loaded table maps the heap with a 1G page at the physical address 0.\<close>

lemma demo_virt_to_phys: "pe_virt_to_phys demo_env v = Some (PhysAddr (virt_bits v AND 0x3FFFFFFF))"
proof -
  obtain a b c d where "get_pte_address v = Some a" "get_pte_address a = Some b" "get_pte_address b = Some c" "get_pte_address c = Some d"
    using get_pte_address_bits by metis
  moreover have "PTEntry_has PTE_PRESENT (PhysAddr 0x81)" "PTEntry_has PTE_HUGE (PhysAddr 0x81)"
    by (simp_all add: PTEntry_has_def PTEntry_flags_def PTEntryFlags_all_def flags_contain_def pte_flag.simps)
  moreover have "wadd 0 x = Some x" for x :: u64 using unat_lt_u64 [of x] by (simp add: wadd_def)
  moreover have "(x AND 0x3FFFFFFF) AND - 2251799813685249 = x AND 0x3FFFFFFF" for x :: u64 by (simp add: and.assoc)
  ultimately show ?thesis
    by (simp add: pe_virt_to_phys_def virt_to_phys_def virt_to_frame_def demo_env_def PhysAddr_add_def PhysAddr_from_def
        PTEntry_page_frame_def PageFrame_address_def PageFrame_page_frame_def strip_confidentiality_bits_def strip_shared_address_bits_def)
qed

lemma demo_env_ok: "env_ok demo_env demo_heap"
  unfolding env_ok_def
proof (intro conjI allI impI)
  fix f assume f: "f < hm_page_count demo_heap"
  let ?v = "page_vaddr demo_heap f" and ?o = "of_nat f * 0x1000 :: u64"
  have f66: "f < 66" using f by (simp add: demo_root)
  have v: "virt_bits ?v = 0xffffff8000000000 + ?o" by (simp add: page_vaddr_def demo_root page_consts)
  have u: "unat ?o = f * 0x1000" using f66 by (simp add: unat_word_ariths unat_of_nat)
  have ok: "VirtAddr_ok ?v" using frame_addr(1) [OF demo_root(1) f] by (simp add: page_addr_ok_def)
  have se: "sign_extend (virt_bits ?v) = virt_bits ?v" using ok by (simp add: sign_extend_canonical)
  have fr: "frame_ok (pe_paging demo_env) (PhysAddr ?o)"
  proof -
    have "?o = push_bit 12 (of_nat f)" by (simp add: push_bit_eq_mult)
    then have b: "bit ?o n \<Longrightarrow> 12 \<le> n \<and> n < 21" for n using bit_frame_index [of f n] f66 by (simp add: ENTRY_COUNT_def)
    have m: "private_pte_mask (pe_paging demo_env) = push_bit 51 1" "shared_pte_mask (pe_paging demo_env) = 0" by (simp_all add: demo_env_def)
    show ?thesis unfolding frame_ok_def m PhysAddr.sel bits_subset bit_ADDR_MASK unfolding bits_disjoint bit_exp using b by fastforce
  qed
  have "phys_to_virt (pe_fixed_mapping demo_env) (PhysAddr ?o) = Some ?v"
  proof -
    have "\<not> 0x100000 \<le> ?o" using u f66 by (simp add: word_le_nat_alt)
    moreover have "wadd 0xffffff8000000000 ?o = Some (virt_bits ?v)" using u f66 v by (simp add: wadd_def)
    moreover have "VirtAddr_sub (VirtAddr 0xffffff8000100000) (VirtAddr 0xffffff8000000000) = Some 0x100000"
      by (simp add: VirtAddr_sub_def wsub_def SIGN_BIT_def)
    ultimately show ?thesis using se
      by (simp add: phys_to_virt_def range_phys_to_virt_def demo_env_def PhysAddr_sub_def wsub_def VirtAddr_add_def VirtAddr_from_def)
  qed
  moreover have "virt_bits ?v AND 0x3FFFFFFF = ?o"
  proof -
    have "unat (virt_bits ?v) = 0xffffff8000000000 + f * 0x1000" unfolding v using u f66 by (simp add: unat_word_ariths)
    moreover have "(0x3FFFFFE00 * 2 ^ 30 + f * 0x1000) mod 2 ^ 30 = f * 0x1000" unfolding mod_mult_self3 using f66 by simp
    ultimately have "unat (virt_bits ?v AND mask 30) = unat ?o" unfolding unat_and_mask u by simp
    then show ?thesis by (simp add: word_unat_eq_iff mask_eq_exp_minus_1)
  qed
  ultimately show "\<exists>p. pe_virt_to_phys demo_env ?v = Some p \<and> frame_ok (pe_paging demo_env) p \<and> phys_to_virt (pe_fixed_mapping demo_env) p = Some ?v"
    using fr by (intro exI [of _ "PhysAddr ?o"]) (simp add: demo_virt_to_phys)
qed (rule demo_paging)

definition demo_pt :: pt_state where
  "demo_pt = \<lparr> pt_heap = demo_heap, pt_pages = (\<lambda>_. None) \<rparr>"

lemma demo_table:
  obtains root s where "PageTable_allocate_new demo_env demo_pt = Some (Ok root, s)" "new_table demo_env {0} root s" "63 \<le> free_pages s"
proof -
  have f: "free_pages demo_pt = 64" and "\<not> no_memory demo_pt" by (simp_all add: no_memory_def free_pages_def demo_pt_def demo_heap(3))
  with allocate_new_ok [of "{0}" demo_pt demo_env] demo_root(1) demo_env_ok obtain root s where
    "PageTable_allocate_new demo_env demo_pt = Some (Ok root, s)" "new_table demo_env {0} root s" "free_pages demo_pt \<le> Suc (free_pages s)"
    by (auto simp: demo_pt_def)
  then show thesis using that f by simp
qed

lemma new_tableD:
  assumes t: "new_table E B root s"
  shows "pt_ok E B 3 {PGTABLE_LVL3_IDX_PTE_SELFMAP} root s" "pt_tree E B 3 {PGTABLE_LVL3_IDX_PTE_SELFMAP} root s"
    "pt_index 3 v \<noteq> PGTABLE_LVL3_IDX_PTE_SELFMAP \<Longrightarrow> gwalk E s 3 root v = (3, (root, pt_index 3 v))"
    "pt_index 3 v \<noteq> PGTABLE_LVL3_IDX_PTE_SELFMAP \<Longrightarrow> pt_trans E 3 root s v = None"
proof -
  show "pt_ok E B 3 {PGTABLE_LVL3_IDX_PTE_SELFMAP} root s" "pt_tree E B 3 {PGTABLE_LVL3_IDX_PTE_SELFMAP} root s"
    using t by (auto simp: new_table_def pt_ok_def)
  assume v: "pt_index 3 v \<noteq> PGTABLE_LVL3_IDX_PTE_SELFMAP"
  then have get: "pte_get (root, pt_index 3 v) s = Some PhysAddr_null" using t pt_index_less by (simp add: new_table_def)
  then show g: "gwalk E s 3 root v = (3, (root, pt_index 3 v))"
    using gwalkI [of 3 3 E s root v root] by (simp add: vpath_simps child_def)
  show "pt_trans E 3 root s v = None" using pt_trans_gwalk [OF g get] by simp
qed

end
