(* ===== verification/Page_Claims.thy ===== *)
theory Page_Claims
  imports Page_Root
begin

unbundle bit_operations_syntax

text \<open>
  The properties of page tables: what mapping, unmapping and sharing a page do to the addresses
  that \<open>phys_addr\<close> returns.
\<close>

section \<open>Mapping\<close>

lemma outcome_phys:
  assumes ok: "pt_ok E B 3 S root s" "pt_ok E B 3 S root s'" and w: "pt_index 3 w \<notin> S"
  shows "same_trans E 3 S root s s' \<Longrightarrow> pt_phys_addr E root w s' = pt_phys_addr E root w s"
    and "set_trans E 3 S root k v e s s' \<Longrightarrow> pt_phys_addr E root w s' = (if same_entry 3 k v w
      then trans_phys (pe_paging E) w (if PTEntry_has PTE_PRESENT e then Some (k, e) else None) else pt_phys_addr E root w s)"
  using ok phys_addr_trans [of E B S root s w] phys_addr_trans [of E B S root s' w] w
  by (simp_all add: pt_ok_def same_trans_def set_trans_def)

text \<open>
  C13. Mapping a 4K page returns with a well-formed table.  When it succeeds, every address of the
  page translates to the frame with the offset of the address, the entry holds the frame with the
  sharing state and the supported flags, and no other address changes its translation.  It fails
  only where a larger page maps the address or where the allocator runs out of pages, for which at
  most three pages were free before, and then no translation changes.
\<close>

theorem map_4k_refines:
  assumes ok: "pt_ok E B 3 {PGTABLE_LVL3_IDX_PTE_SELFMAP} root s" and v: "pt_index 3 v \<noteq> PGTABLE_LVL3_IDX_PTE_SELFMAP"
    and p: "frame_ok (pe_paging E) p" and flags: "flags_contain flags (pte_flag PTE_PRESENT)"
  shows "\<exists>r s'. map_4k E root v p flags shared s = Some (r, s') \<and> pt_ok E B 3 {PGTABLE_LVL3_IDX_PTE_SELFMAP} root s' \<and>
    (case r of
       Ok _ \<Rightarrow> pt_trans E 3 root s' v = Some (0, pte_make (pe_paging E) p shared flags)
         \<and> (\<forall>w. pt_index 3 w \<noteq> PGTABLE_LVL3_IDX_PTE_SELFMAP \<longrightarrow> pt_phys_addr E root w s' =
             (if page_bits_4k w = page_bits_4k v then Some (Ok (PhysAddr (phys_bits p OR (virt_bits w AND 0xfff))))
              else pt_phys_addr E root w s))
     | Err e \<Rightarrow> e = SvsmError_Mem \<and> (no_memory s' \<and> free_pages s \<le> 3 \<or> (\<exists>l x. 0 < l \<and> pt_trans E 3 root s v = Some (l, x)))
         \<and> (\<forall>w. pt_index 3 w \<noteq> PGTABLE_LVL3_IDX_PTE_SELFMAP \<longrightarrow> pt_phys_addr E root w s' = pt_phys_addr E root w s))"
proof -
  let ?S = "{PGTABLE_LVL3_IDX_PTE_SELFMAP}" and ?e = "pte_make (pe_paging E) p shared flags"
  have pg: "paging_ok (pe_paging E)" using ok by (simp add: pt_ok_def env_ok_def)
  have pres: "PTEntry_has PTE_PRESENT ?e" using pte_make_read(4) [OF pg p] flags by simp
  from map_4k_ok [OF ok _ p, of v flags shared] v obtain r s' where m: "map_4k E root v p flags shared s = Some (r, s')"
    "map_outcome E B 3 ?S root 0 v ?e s (r, s')" by auto
  have ok': "pt_ok E B 3 ?S root s'" using m(2) by (simp add: map_outcome_def)
  note ph = outcome_phys [OF ok ok'] and tp = trans_phys_page(1) [OF pg p]
  show ?thesis
  proof (cases r)
    case (Ok u)
    then have st: "set_trans E 3 ?S root 0 v ?e s s'" using m(2) by (simp add: map_outcome_def)
    then have "pt_trans E 3 root s' v = Some (0, ?e)" using v pres by (simp add: set_trans_def)
    then show ?thesis using m(1) ok' Ok ph(2) [OF _ st] pres by (auto simp: tp page_bits_eq)
  next
    case (Err err)
    then show ?thesis using m ok' ph(1) by (auto simp: map_outcome_def)
  qed
qed

theorem map_4k_refines_witness:
  "\<exists>root s s'. PageTable_allocate_new demo_env demo_pt = Some (Ok root, s)
    \<and> map_4k demo_env root (VirtAddr 0x403000) (PhysAddr 0x7000) table_flags False s = Some (Ok (), s')
    \<and> pt_phys_addr demo_env root (VirtAddr 0x403abc) s' = Some (Ok (PhysAddr 0x7abc))"
proof (rule demo_table)
  fix root s assume t: "PageTable_allocate_new demo_env demo_pt = Some (Ok root, s)" "new_table demo_env {0} root s" "63 \<le> free_pages s"
  have x: "pt_index 3 (VirtAddr 0x403000) \<noteq> PGTABLE_LVL3_IDX_PTE_SELFMAP" "pt_index 3 (VirtAddr 0x403abc) \<noteq> PGTABLE_LVL3_IDX_PTE_SELFMAP"
    "page_bits_4k (VirtAddr 0x403abc) = page_bits_4k (VirtAddr 0x403000)"
    by (simp_all add: pt_index_def VirtAddr_to_pgtbl_idx_def PGTABLE_LVL3_IDX_PTE_SELFMAP_def page_bits_4k_def)
  have p: "frame_ok (pe_paging demo_env) (PhysAddr 0x7000)" and fl: "flags_contain table_flags (pte_flag PTE_PRESENT)"
    by (simp_all add: frame_ok_def demo_env_def flags_contain_flag table_flags_def bit_or_iff bit_pte_flag)
  from map_4k_refines [OF new_tableD(1) [OF t(2)] x(1) p fl, of False] show ?thesis
  proof (elim exE conjE, goal_cases)
    case (1 r s')
    then have "r = Ok ()" using t(3) new_tableD(4) [OF t(2) x(1)] by (cases r) auto
    then show ?case using t(1) 1 x(2,3) by auto
  qed
qed

text \<open>
  Mapping a 2M page with aligned addresses returns with a well-formed table.  When it succeeds,
  every address of the 2M page translates to the frame with its offset, and no other address changes
  its translation.  It fails only where a larger page maps the address, a table of 4K pages is in
  place or the allocator runs out of pages, for which at most three pages were free before, and then
  no translation changes.
\<close>

theorem map_2m_refines:
  assumes ok: "pt_ok E B 3 {PGTABLE_LVL3_IDX_PTE_SELFMAP} root s" and v: "pt_index 3 v \<noteq> PGTABLE_LVL3_IDX_PTE_SELFMAP"
    and p: "frame_ok (pe_paging E) p" and flags: "flags_contain flags (pte_flag PTE_PRESENT)"
    and al: "Address_is_aligned VirtAddr_ops v (of_nat PAGE_SIZE_2M) = Some True" "Address_is_aligned PhysAddr_ops p (of_nat PAGE_SIZE_2M) = Some True"
  shows "\<exists>r s'. map_2m E root v p flags shared s = Some (r, s') \<and> pt_ok E B 3 {PGTABLE_LVL3_IDX_PTE_SELFMAP} root s' \<and>
    (case r of
       Ok _ \<Rightarrow> \<forall>w. pt_index 3 w \<noteq> PGTABLE_LVL3_IDX_PTE_SELFMAP \<longrightarrow> pt_phys_addr E root w s' =
         (if page_bits_2m w = page_bits_2m v then Some (Ok (PhysAddr (phys_bits p OR (virt_bits w AND 0x1fffff))))
          else pt_phys_addr E root w s)
     | Err e \<Rightarrow> e = SvsmError_Mem
         \<and> (no_memory s' \<and> free_pages s \<le> 3 \<or> (\<exists>l x. 1 < l \<and> pt_trans E 3 root s v = Some (l, x)) \<or> (\<exists>x. walk_addr E root v s = Some (Level0 x)))
         \<and> (\<forall>w. pt_index 3 w \<noteq> PGTABLE_LVL3_IDX_PTE_SELFMAP \<longrightarrow> pt_phys_addr E root w s' = pt_phys_addr E root w s))"
proof -
  let ?S = "{PGTABLE_LVL3_IDX_PTE_SELFMAP}" and ?e = "pte_make (pe_paging E) p shared (flags OR pte_flag PTE_HUGE)"
  have pg: "paging_ok (pe_paging E)" and T: "pt_tree E B 3 ?S root s" using ok by (auto simp: pt_ok_def env_ok_def)
  have pres: "PTEntry_has PTE_PRESENT ?e" using pte_make_read(4) [OF pg p] flags by (simp add: flags_contain_flag bit_or_iff)
  from map_2m_ok [OF ok _ p al, of flags shared] v obtain r s' where m: "map_2m E root v p flags shared s = Some (r, s')"
    "map_outcome E B 3 ?S root 1 v ?e s (r, s')" by auto
  have ok': "pt_ok E B 3 ?S root s'" using m(2) by (simp add: map_outcome_def)
  have "aligned_2m p" using al(2) by (simp add: aligned_2m_iff)
  note ph = outcome_phys [OF ok ok'] and tp = trans_phys_page(2) [OF pg p this]
  have lvl0: "walk_addr E root v s = Some (Level0 x)" if "gwalk E s 3 root v = (0, x)" for x
    using walk_addr_tree [OF T] v that by (simp add: mk_mapping_simps)
  show ?thesis
  proof (cases r)
    case (Ok u)
    then have st: "set_trans E 3 ?S root 1 v ?e s s'" using m(2) by (simp add: map_outcome_def)
    then show ?thesis using m(1) ok' Ok ph(2) [OF _ st] pres by (auto simp: tp [unfolded One_nat_def] page_bits_eq)
  next
    case (Err err)
    then show ?thesis using m ok' ph(1) lvl0 by (auto simp: map_outcome_def)
  qed
qed

lemma demo_2m:
  "pt_index 3 (VirtAddr 0x400000) \<noteq> PGTABLE_LVL3_IDX_PTE_SELFMAP" "frame_ok (pe_paging demo_env) (PhysAddr 0x600000)"
  "flags_contain table_flags (pte_flag PTE_PRESENT)" "Address_is_aligned VirtAddr_ops (VirtAddr 0x400000) (of_nat PAGE_SIZE_2M) = Some True"
  "Address_is_aligned PhysAddr_ops (PhysAddr 0x600000) (of_nat PAGE_SIZE_2M) = Some True"
  by (simp_all add: pt_index_def VirtAddr_to_pgtbl_idx_def PGTABLE_LVL3_IDX_PTE_SELFMAP_def frame_ok_def demo_env_def flags_contain_flag
      table_flags_def bit_or_iff bit_pte_flag Address_is_aligned_def is_aligned_def wsub_def VirtAddr_ops_def PhysAddr_ops_def page_consts)

theorem map_2m_refines_witness:
  "\<exists>root s s'. PageTable_allocate_new demo_env demo_pt = Some (Ok root, s)
    \<and> map_2m demo_env root (VirtAddr 0x400000) (PhysAddr 0x600000) table_flags False s = Some (Ok (), s')
    \<and> pt_phys_addr demo_env root (VirtAddr 0x412345) s' = Some (Ok (PhysAddr 0x612345))"
proof (rule demo_table)
  fix root s assume t: "PageTable_allocate_new demo_env demo_pt = Some (Ok root, s)" "new_table demo_env {0} root s" "63 \<le> free_pages s"
  have x: "pt_index 3 (VirtAddr 0x412345) \<noteq> PGTABLE_LVL3_IDX_PTE_SELFMAP" "page_bits_2m (VirtAddr 0x412345) = page_bits_2m (VirtAddr 0x400000)"
    by (simp_all add: pt_index_def VirtAddr_to_pgtbl_idx_def PGTABLE_LVL3_IDX_PTE_SELFMAP_def page_bits_2m_def)
  have w: "walk_addr demo_env root (VirtAddr 0x400000) s = Some (Level3 (root, pt_index 3 (VirtAddr 0x400000)))"
    using walk_addr_tree [OF new_tableD(2) [OF t(2)], of "VirtAddr 0x400000"] new_tableD(3) [OF t(2) demo_2m(1)] demo_2m(1) by (simp add: mk_mapping_def)
  from map_2m_refines [OF new_tableD(1) [OF t(2)] demo_2m, of False] show ?thesis
  proof (elim exE conjE, goal_cases)
    case (1 r s')
    then have "r = Ok ()" using t(3) new_tableD(4) [OF t(2) demo_2m(1)] w by (cases r) auto
    then show ?case using t(1) 1 x by auto
  qed
qed

section \<open>Unmapping\<close>

text \<open>
  C14. Unmapping a 4K page panics exactly where a larger page maps the address.  Otherwise no address
  of the page has a translation afterwards, and no other translation changes.
\<close>

theorem unmap_4k_refines:
  assumes ok: "pt_ok E B 3 {PGTABLE_LVL3_IDX_PTE_SELFMAP} root s" and v: "pt_index 3 v \<noteq> PGTABLE_LVL3_IDX_PTE_SELFMAP"
  shows "case unmap_4k E root v s of
      None \<Rightarrow> \<exists>l e. 0 < l \<and> pt_trans E 3 root s v = Some (l, e)
    | Some s' \<Rightarrow> \<not> (\<exists>l e. 0 < l \<and> pt_trans E 3 root s v = Some (l, e)) \<and> pt_ok E B 3 {PGTABLE_LVL3_IDX_PTE_SELFMAP} root s'
      \<and> (\<forall>w. pt_index 3 w \<noteq> PGTABLE_LVL3_IDX_PTE_SELFMAP \<longrightarrow> pt_phys_addr E root w s' =
          (if page_bits_4k w = page_bits_4k v then Some (Err SvsmError_Mem) else pt_phys_addr E root w s))"
proof -
  let ?S = "{PGTABLE_LVL3_IDX_PTE_SELFMAP}"
  have o: "unmap_outcome E B 3 ?S root 0 v s (unmap_4k E root v s)" using unmap_4k_ok [OF ok] v by simp
  show ?thesis
  proof (cases "unmap_4k E root v s")
    case (Some s')
    then have ok': "pt_ok E B 3 ?S root s'" and st: "set_trans E 3 ?S root 0 v PhysAddr_null s s'"
      and l: "\<And>l e. pt_trans E 3 root s v = Some (l, e) \<Longrightarrow> l = 0" using o by (auto simp: unmap_outcome_def)
    show ?thesis using Some ok' outcome_phys(2) [OF ok ok' _ st] by (auto simp: page_bits_eq trans_phys_def dest: l)
  qed (use o in \<open>simp add: unmap_outcome_def\<close>)
qed

theorem unmap_4k_refines_witness:
  "\<exists>root s s'. PageTable_allocate_new demo_env demo_pt = Some (Ok root, s) \<and> unmap_4k demo_env root (VirtAddr 0x403000) s = Some s'
    \<and> pt_phys_addr demo_env root (VirtAddr 0x403abc) s' = Some (Err SvsmError_Mem)"
proof (rule demo_table)
  fix root s assume t: "PageTable_allocate_new demo_env demo_pt = Some (Ok root, s)" "new_table demo_env {0} root s" "63 \<le> free_pages s"
  have x: "pt_index 3 (VirtAddr 0x403000) \<noteq> PGTABLE_LVL3_IDX_PTE_SELFMAP" "pt_index 3 (VirtAddr 0x403abc) \<noteq> PGTABLE_LVL3_IDX_PTE_SELFMAP"
    "page_bits_4k (VirtAddr 0x403abc) = page_bits_4k (VirtAddr 0x403000)"
    by (simp_all add: pt_index_def VirtAddr_to_pgtbl_idx_def PGTABLE_LVL3_IDX_PTE_SELFMAP_def page_bits_4k_def)
  from unmap_4k_refines [OF new_tableD(1) [OF t(2)] x(1)] new_tableD(4) [OF t(2) x(1)] x(2,3) t(1) show ?thesis
    by (auto split: option.splits)
qed

text \<open>
  Mapping a 4K page at an address without a translation and unmapping it restores every
  translation, whether the mapping succeeded or not.
\<close>

theorem map_unmap_roundtrip:
  assumes ok: "pt_ok E B 3 {PGTABLE_LVL3_IDX_PTE_SELFMAP} root s" and v: "pt_index 3 v \<noteq> PGTABLE_LVL3_IDX_PTE_SELFMAP"
    and p: "frame_ok (pe_paging E) p" and free: "pt_trans E 3 root s v = None"
  shows "\<exists>r s' s''. map_4k E root v p flags shared s = Some (r, s') \<and> unmap_4k E root v s' = Some s''
    \<and> (\<forall>w. pt_index 3 w \<noteq> PGTABLE_LVL3_IDX_PTE_SELFMAP \<longrightarrow> pt_trans E 3 root s'' w = pt_trans E 3 root s w)"
proof -
  let ?S = "{PGTABLE_LVL3_IDX_PTE_SELFMAP}" and ?e = "pte_make (pe_paging E) p shared flags"
  have T: "pt_tree E B 3 ?S root s" using ok by (simp add: pt_ok_def)
  from map_4k_ok [OF ok _ p, of v flags shared] v obtain r s' where m: "map_4k E root v p flags shared s = Some (r, s')"
    and mo: "map_outcome E B 3 ?S root 0 v ?e s (r, s')" by auto
  have ok': "pt_ok E B 3 ?S root s'" and st: "set_trans E 3 ?S root 0 v ?e s s' \<or> same_trans E 3 ?S root s s'"
    using mo by (cases r; simp add: map_outcome_def)+
  have l0: "l = 0" if "pt_trans E 3 root s' v = Some (l, e)" for l e
    using st v that free by (auto simp: set_trans_def same_trans_def split: if_splits)
  have um: "unmap_outcome E B 3 ?S root 0 v s' (unmap_4k E root v s')" using unmap_4k_ok [OF ok'] v by simp
  then have "unmap_4k E root v s' \<noteq> None" using l0 by (intro notI) (auto simp: unmap_outcome_def)
  then obtain s'' where s'': "unmap_4k E root v s' = Some s''" "set_trans E 3 ?S root 0 v PhysAddr_null s' s''"
    using um by (auto simp: unmap_outcome_def)
  have "pt_trans E 3 root s w = None" if "pt_index 3 w \<notin> ?S" "same_entry 3 0 v w" for w
  proof (rule ccontr)
    assume "pt_trans E 3 root s w \<noteq> None"
    then obtain l e where "pt_trans E 3 root s w = Some (l, e)" by auto
    moreover have "same_entry 3 l w v" using same_entry_mono [OF that(2), of l] same_entry_sym by blast
    ultimately show False using trans_under [OF T that(1), of v l e] v free by simp
  qed
  then show ?thesis using m s'' st by (intro exI [of _ r] exI [of _ s'] exI [of _ s'']) (auto simp: set_trans_def same_trans_def)
qed

theorem map_unmap_roundtrip_witness:
  "\<exists>root s r s' s''. PageTable_allocate_new demo_env demo_pt = Some (Ok root, s)
    \<and> map_4k demo_env root (VirtAddr 0x403000) (PhysAddr 0x7000) table_flags False s = Some (r, s')
    \<and> unmap_4k demo_env root (VirtAddr 0x403000) s' = Some s'' \<and> pt_trans demo_env 3 root s'' (VirtAddr 0x403000) = None"
proof (rule demo_table)
  fix root s assume t: "PageTable_allocate_new demo_env demo_pt = Some (Ok root, s)" "new_table demo_env {0} root s" "63 \<le> free_pages s"
  have x: "pt_index 3 (VirtAddr 0x403000) \<noteq> PGTABLE_LVL3_IDX_PTE_SELFMAP"
    by (simp add: pt_index_def VirtAddr_to_pgtbl_idx_def PGTABLE_LVL3_IDX_PTE_SELFMAP_def)
  have p: "frame_ok (pe_paging demo_env) (PhysAddr 0x7000)" by (simp add: frame_ok_def demo_env_def)
  note n = new_tableD(4) [OF t(2) x]
  from map_unmap_roundtrip [OF new_tableD(1) [OF t(2)] x p n, of table_flags False] t(1) x n show ?thesis by metis
qed

section \<open>Sharing\<close>





end
