(* ===== verification/Page_Selfmap.thy ===== *)
theory Page_Selfmap
  imports Page_Claims
begin

unbundle bit_operations_syntax

text \<open>
  The self-map: \<open>virt_to_frame\<close>, which reads entries through the mapping of the root page into itself,
  agrees with the walk of the tables.
\<close>

lemma get_pte_address_ok:
  obtains a where "get_pte_address v = Some a" "pt_index 3 a = PGTABLE_LVL3_IDX_PTE_SELFMAP" "pt_index 2 a = pt_index 3 v"
    "pt_index 1 a = pt_index 2 v" "pt_index 0 a = pt_index 1 v" "unat (virt_bits a AND 0xfff) = 8 * pt_index 0 v"
proof -
  obtain a where a: "get_pte_address v = Some a"
    "\<forall>j < 64. bit (virt_bits a) j = (if j < 39 then 3 \<le> j \<and> bit (virt_bits v) (j + 9) else bit pte_base j)" using get_pte_address_bits [of v] .
  have m9: "(0x1ff :: u64) = mask 9" and m12: "(0xfff :: u64) = mask 12" by (simp_all add: mask_eq_exp_minus_1)
  have idx: "pt_index k a = pt_index (Suc k) v" if "k \<le> 2" for k
  proof -
    have "drop_bit (12 + k * 9) (virt_bits a) AND mask 9 = drop_bit (12 + Suc k * 9) (virt_bits v) AND mask 9"
      unfolding word_bits_eq using a(2) that by (auto simp: bit_and_iff bit_drop_bit_eq bit_mask_iff add.commute add.left_commute)
    then show ?thesis by (simp add: pt_index_def VirtAddr_to_pgtbl_idx_def m9)
  qed
  have "drop_bit 39 (virt_bits a) = drop_bit 39 pte_base"
  proof (rule bit_word_eqI)
    fix n
    show "bit (drop_bit 39 (virt_bits a)) n = bit (drop_bit 39 pte_base) n"
      using a(2) [rule_format, of "39 + n"] by (cases "39 + n < 64") (auto simp: bit_drop_bit_eq dest: bit_imp_le_length)
  qed
  then have i3: "pt_index 3 a = PGTABLE_LVL3_IDX_PTE_SELFMAP"
    by (simp add: pt_index_def VirtAddr_to_pgtbl_idx_def PGTABLE_LVL3_IDX_PTE_SELFMAP_def pte_base_def)
  have "virt_bits a AND mask 12 = push_bit 3 (drop_bit 12 (virt_bits v) AND mask 9)"
    unfolding word_bits_eq using a(2) by (auto simp: bit_and_iff bit_drop_bit_eq bit_push_bit_iff bit_mask_iff add.commute [of 9])
  moreover have "drop_bit 12 (virt_bits v) AND mask 9 = of_nat (pt_index 0 v)" by (simp add: pt_index_def VirtAddr_to_pgtbl_idx_def m9)
  ultimately have "virt_bits a AND mask 12 = of_nat (8 * pt_index 0 v)" by (simp add: push_bit_eq_mult)
  moreover have "unat (of_nat (8 * pt_index 0 v) :: u64) = 8 * pt_index 0 v"
    using pt_index_less [of 0 v] by (intro unat_of_nat_u64) (simp add: ENTRY_COUNT_def)
  ultimately have "unat (virt_bits a AND 0xfff) = 8 * pt_index 0 v" unfolding m12 by (rule ssubst)
  then show thesis using that [OF a(1) i3] idx [of 2] idx [of 1] idx [of 0] by (simp add: numeral_3_eq_3 numeral_2_eq_2)
qed

section \<open>Reading through the self-map\<close>

text \<open>
  The memory read of \<open>virt_to_frame\<close>: the processor translates an address by the entries from the
  loaded root page and reads an entry of the page it arrives at.
\<close>

definition selfmap_reads :: "pt_env \<Rightarrow> VirtAddr \<Rightarrow> pt_state \<Rightarrow> (VirtAddr \<Rightarrow> PTEntry) \<Rightarrow> bool" where
  "selfmap_reads E root s read_pte \<longleftrightarrow> (\<forall>a t i e. reach E s root [pt_index 3 a, pt_index 2 a, pt_index 1 a, pt_index 0 a] = Some t \<longrightarrow>
     unat (virt_bits a AND 0xfff) = 8 * i \<longrightarrow> pte_get (t, i) s = Some e \<longrightarrow> read_pte a = e)"

lemma vpath_3:
  "vpath v 3 3 = []" "vpath v 3 2 = [pt_index 3 v]" "vpath v 3 1 = [pt_index 3 v, pt_index 2 v]" "vpath v 3 0 = [pt_index 3 v, pt_index 2 v, pt_index 1 v]"
  by (simp_all add: vpath_def upt_rec numeral_2_eq_2 numeral_3_eq_3)

lemma selfmap_entries:
  assumes self: "child E s root PGTABLE_LVL3_IDX_PTE_SELFMAP = Some root" and rd: "selfmap_reads E root s read_pte"
  obtains a1 a2 a3 a4 where "get_pte_address v = Some a1" "get_pte_address a1 = Some a2" "get_pte_address a2 = Some a3" "get_pte_address a3 = Some a4"
    "\<forall>e. pte_get (root, pt_index 3 v) s = Some e \<longrightarrow> read_pte a4 = e"
    "\<forall>t e. reach E s root (vpath v 3 2) = Some t \<longrightarrow> pte_get (t, pt_index 2 v) s = Some e \<longrightarrow> read_pte a3 = e"
    "\<forall>t e. reach E s root (vpath v 3 1) = Some t \<longrightarrow> pte_get (t, pt_index 1 v) s = Some e \<longrightarrow> read_pte a2 = e"
    "\<forall>t e. reach E s root (vpath v 3 0) = Some t \<longrightarrow> pte_get (t, pt_index 0 v) s = Some e \<longrightarrow> read_pte a1 = e"
proof -
  obtain a1 where a1: "get_pte_address v = Some a1" "pt_index 3 a1 = PGTABLE_LVL3_IDX_PTE_SELFMAP" "pt_index 2 a1 = pt_index 3 v"
    "pt_index 1 a1 = pt_index 2 v" "pt_index 0 a1 = pt_index 1 v" "unat (virt_bits a1 AND 0xfff) = 8 * pt_index 0 v" using get_pte_address_ok [of v] .
  obtain a2 where a2: "get_pte_address a1 = Some a2" "pt_index 3 a2 = PGTABLE_LVL3_IDX_PTE_SELFMAP" "pt_index 2 a2 = pt_index 3 a1"
    "pt_index 1 a2 = pt_index 2 a1" "pt_index 0 a2 = pt_index 1 a1" "unat (virt_bits a2 AND 0xfff) = 8 * pt_index 0 a1" using get_pte_address_ok [of a1] .
  obtain a3 where a3: "get_pte_address a2 = Some a3" "pt_index 3 a3 = PGTABLE_LVL3_IDX_PTE_SELFMAP" "pt_index 2 a3 = pt_index 3 a2"
    "pt_index 1 a3 = pt_index 2 a2" "pt_index 0 a3 = pt_index 1 a2" "unat (virt_bits a3 AND 0xfff) = 8 * pt_index 0 a2" using get_pte_address_ok [of a2] .
  obtain a4 where a4: "get_pte_address a3 = Some a4" "pt_index 3 a4 = PGTABLE_LVL3_IDX_PTE_SELFMAP" "pt_index 2 a4 = pt_index 3 a3"
    "pt_index 1 a4 = pt_index 2 a3" "pt_index 0 a4 = pt_index 1 a3" "unat (virt_bits a4 AND 0xfff) = 8 * pt_index 0 a3" using get_pte_address_ok [of a3] .
  have sm: "reach E s root (PGTABLE_LVL3_IDX_PTE_SELFMAP # p) = reach E s root p" for p using self by simp
  note R = rd [unfolded selfmap_reads_def, rule_format]
  show thesis
  proof (rule that [OF a1(1) a2(1) a3(1) a4(1)])
    show "\<forall>e. pte_get (root, pt_index 3 v) s = Some e \<longrightarrow> read_pte a4 = e"
      using R [of a4 root] unfolding a4 a3 a2 a1 sm by simp
    show "\<forall>t e. reach E s root (vpath v 3 2) = Some t \<longrightarrow> pte_get (t, pt_index 2 v) s = Some e \<longrightarrow> read_pte a3 = e"
      using R [of a3] unfolding a3 a2 a1 sm vpath_3 by simp
    show "\<forall>t e. reach E s root (vpath v 3 1) = Some t \<longrightarrow> pte_get (t, pt_index 1 v) s = Some e \<longrightarrow> read_pte a2 = e"
      using R [of a2] unfolding a2 a1 sm vpath_3 by simp
    show "\<forall>t e. reach E s root (vpath v 3 0) = Some t \<longrightarrow> pte_get (t, pt_index 0 v) s = Some e \<longrightarrow> read_pte a1 = e"
      using R [of a1] unfolding a1 sm vpath_3 by simp
  qed
qed

lemma level_step:
  assumes T: "pt_tree E B n S root s" and v: "pt_index n v \<notin> S" and l: "l \<le> n" and t: "reach E s root (vpath v n l) = Some t"
  obtains e where "pte_get (t, pt_index l v) s = Some e"
    "l = 0 \<or> \<not> PTEntry_has PTE_PRESENT e \<or> PTEntry_has PTE_HUGE e \<longrightarrow> pt_trans E n root s v = (if PTEntry_has PTE_PRESENT e then Some (l, e) else None)"
    "l \<noteq> 0 \<and> PTEntry_has PTE_PRESENT e \<and> \<not> PTEntry_has PTE_HUGE e \<longrightarrow> (\<exists>t'. reach E s root (vpath v n (l - 1)) = Some t')"
proof -
  from table_page_get [OF pt_treeD(2) [OF T vpath_path [OF v] t] pt_index_less, of l v] obtain e where e: "pte_get (t, pt_index l v) s = Some e" by blast
  show thesis
  proof (rule that [OF e]; rule impI)
    assume a: "l = 0 \<or> \<not> PTEntry_has PTE_PRESENT e \<or> PTEntry_has PTE_HUGE e"
    have "l = 0 \<or> child E s t (pt_index l v) = None" using a e by (auto simp: child_def PTPage_from_entry_def Let_def flags_present)
    from gwalkI [OF l t this] show "pt_trans E n root s v = (if PTEntry_has PTE_PRESENT e then Some (l, e) else None)"
      using e by (rule pt_trans_gwalk)
  next
    assume "l \<noteq> 0 \<and> PTEntry_has PTE_PRESENT e \<and> \<not> PTEntry_has PTE_HUGE e"
    then have a: "l \<noteq> 0" "PTEntry_has PTE_PRESENT e" "\<not> PTEntry_has PTE_HUGE e" by auto
    have p: "vpath v n (l - 1) = vpath v n l @ [pt_index l v]" using vpath_snoc [of "l - 1" n v] a(1) l by simp
    have "PTPage_from_entry E e \<noteq> None" using pt_treeD(4) [OF T _ t e] vpath_path [OF v, of "l - 1"] p by simp
    then obtain t' where "PTPage_from_entry E e = Some (Some t')" using a(2,3) by (auto simp: PTPage_from_entry_def Let_def flags_present)
    then have "child E s t (pt_index l v) = Some t'" by (simp add: child_def e)
    then show "\<exists>t'. reach E s root (vpath v n (l - 1)) = Some t'" unfolding p reach_snoc using t by blast
  qed
qed

definition frame_trans :: "paging \<Rightarrow> VirtAddr \<Rightarrow> (nat \<times> PTEntry) option \<Rightarrow> PageFrame option option" where
  "frame_trans pg v tr = (case tr of
       None \<Rightarrow> Some None
     | Some (l, e) \<Rightarrow>
         if l = 0 then map_option (\<lambda>pa. Some (Size4K pa)) (PhysAddr_add (PTEntry_page_frame pg e) (virt_bits v AND 0xfff))
         else if l = 1 then map_option (\<lambda>pa. Some (Size2M pa)) (PhysAddr_add (PTEntry_page_frame pg e) (virt_bits v AND 0x1fffff))
         else map_option (\<lambda>pa. Some (Size1G pa)) (PhysAddr_add (PTEntry_page_frame pg e) (virt_bits v AND 0x3fffffff)))"

lemma virt_to_frame_trans:
  assumes T: "pt_tree E B 3 S root s" and v: "pt_index 3 v \<notin> S" and self: "child E s root PGTABLE_LVL3_IDX_PTE_SELFMAP = Some root"
    and rd: "selfmap_reads E root s read_pte" and n3: "\<not> (\<exists>e. pt_trans E 3 root s v = Some (3, e))"
  shows "virt_to_frame (pe_paging E) read_pte v = frame_trans (pe_paging E) v (pt_trans E 3 root s v)"
proof -
  obtain a1 a2 a3 a4 where a: "get_pte_address v = Some a1" "get_pte_address a1 = Some a2" "get_pte_address a2 = Some a3" "get_pte_address a3 = Some a4"
    and r4: "\<forall>e. pte_get (root, pt_index 3 v) s = Some e \<longrightarrow> read_pte a4 = e"
    and r3: "\<forall>t e. reach E s root (vpath v 3 2) = Some t \<longrightarrow> pte_get (t, pt_index 2 v) s = Some e \<longrightarrow> read_pte a3 = e"
    and r2: "\<forall>t e. reach E s root (vpath v 3 1) = Some t \<longrightarrow> pte_get (t, pt_index 1 v) s = Some e \<longrightarrow> read_pte a2 = e"
    and r1: "\<forall>t e. reach E s root (vpath v 3 0) = Some t \<longrightarrow> pte_get (t, pt_index 0 v) s = Some e \<longrightarrow> read_pte a1 = e"
    using selfmap_entries [OF self rd, of v] .
  let ?has = "\<lambda>f a. PTEntry_has f (read_pte a)"
  have s3: "(\<not> ?has PTE_PRESENT a4 \<longrightarrow> pt_trans E 3 root s v = None) \<and> (?has PTE_PRESENT a4 \<longrightarrow> (\<exists>t. reach E s root (vpath v 3 2) = Some t))"
    by (rule level_step [OF T v, of 3 root]) (use n3 r4 in \<open>auto simp: vpath_3\<close>)
  have s2: "(\<not> ?has PTE_PRESENT a3 \<or> ?has PTE_HUGE a3 \<longrightarrow> pt_trans E 3 root s v = (if ?has PTE_PRESENT a3 then Some (2, read_pte a3) else None))
      \<and> (?has PTE_PRESENT a3 \<and> \<not> ?has PTE_HUGE a3 \<longrightarrow> (\<exists>t. reach E s root (vpath v 3 1) = Some t))" if "reach E s root (vpath v 3 2) = Some t" for t
    by (rule level_step [OF T v _ that]) (use that r3 in auto)
  have s1: "(\<not> ?has PTE_PRESENT a2 \<or> ?has PTE_HUGE a2 \<longrightarrow> pt_trans E 3 root s v = (if ?has PTE_PRESENT a2 then Some (1, read_pte a2) else None))
      \<and> (?has PTE_PRESENT a2 \<and> \<not> ?has PTE_HUGE a2 \<longrightarrow> (\<exists>t. reach E s root (vpath v 3 0) = Some t))" if "reach E s root (vpath v 3 1) = Some t" for t
    by (rule level_step [OF T v _ that]) (use that r2 in auto)
  have s0: "pt_trans E 3 root s v = (if ?has PTE_PRESENT a1 then Some (0, read_pte a1) else None)" if "reach E s root (vpath v 3 0) = Some t" for t
    by (rule level_step [OF T v _ that]) (use that r1 in auto)
  show ?thesis
    unfolding virt_to_frame_def a Option.bind.simps Let_def using s3 s2 s1 s0 by (auto simp: frame_trans_def)
qed

section \<open>Frames\<close>

lemma bit_page_frame: "bit (phys_bits (PTEntry_page_frame pg e)) n \<longleftrightarrow> bit (phys_bits e) n \<and> 12 \<le> n \<and> n < 52 \<and> \<not> bit (private_pte_mask pg) n"
  unfolding PTEntry_page_frame_def strip_confidentiality_bits_def PhysAddr_from_def PhysAddr.sel bit_and_iff bit_ADDR_MASK bit_not_iff by auto

lemma bit_address: "bit (phys_bits (PTEntry_address pg e)) n \<longleftrightarrow> bit (phys_bits (PTEntry_page_frame pg e)) n \<and> \<not> bit (shared_pte_mask pg) n"
  by (auto simp: PTEntry_address_def strip_shared_address_bits_def PhysAddr_from_def bit_and_iff bit_not_iff dest: bit_imp_le_length)

lemma frame_sum:
  assumes low: "\<And>n. n < k \<Longrightarrow> \<not> bit (phys_bits (PTEntry_address pg e)) n \<and> \<not> bit (private_pte_mask pg) n \<and> \<not> bit (shared_pte_mask pg) n"
  shows "\<exists>pa. PhysAddr_add (PTEntry_page_frame pg e) (w AND mask k) = Some pa
    \<and> PhysAddr_add (PTEntry_address pg e) (w AND mask k) = Some (strip_shared_address_bits pg (strip_confidentiality_bits pg pa))"
proof -
  let ?x = "phys_bits (PTEntry_page_frame pg e)" and ?a = "phys_bits (PTEntry_address pg e)"
  have "wadd ?x (w AND mask k) = Some (?x OR (w AND mask k))" "wadd ?a (w AND mask k) = Some (?a OR (w AND mask k))"
    using low by (intro wadd_disjoint; auto simp: bit_and_iff bit_mask_iff bit_address)+
  moreover have "?a OR (w AND mask k) = (?x OR (w AND mask k)) AND NOT (private_pte_mask pg) AND NOT (shared_pte_mask pg)"
    unfolding word_bits_eq using low by (auto simp: bit_and_iff bit_not_iff bit_or_iff bit_mask_iff bit_address bit_page_frame)
  ultimately show ?thesis
    by (simp add: PhysAddr_add_def PhysAddr_from_def strip_shared_address_bits_def strip_confidentiality_bits_def and.assoc)
qed

lemma page_frame_1g: "\<exists>pa. PhysAddr_add (PTEntry_page_frame pg e) (virt_bits v AND 0x3fffffff) = Some pa"
proof -
  let ?x = "phys_bits (PTEntry_page_frame pg e)"
  have m: "(0xfffffffffffff :: u64) = mask 52" by (simp add: mask_eq_exp_minus_1)
  have "?x = ?x AND 0xfffffffffffff" unfolding m word_bits_eq by (auto simp: bit_and_iff bit_mask_iff bit_page_frame)
  also have "\<dots> \<le> 0xfffffffffffff" by (rule word_and_le1)
  finally have "unat ?x \<le> 0xfffffffffffff" by (simp add: word_le_nat_alt)
  moreover have "unat (virt_bits v AND 0x3fffffff) \<le> 0x3fffffff" by (rule order.trans [OF word_and_le1 [THEN word_le_nat_alt [THEN iffD1]]]) simp
  ultimately show ?thesis by (simp add: PhysAddr_add_def wadd_def)
qed

text \<open>
  C16. Reading the entries of an address through the self-map gives the translation of the tables: the
  frame of \<open>virt_to_frame\<close> has the physical address that \<open>phys_addr\<close> computes by walking the
  tables, and there is no frame where \<open>phys_addr\<close> fails, but for 1G pages, which \<open>phys_addr\<close> refuses.
\<close>

theorem virt_to_frame_agrees:
  assumes ok: "pt_ok E B 3 {PGTABLE_LVL3_IDX_PTE_SELFMAP} root s" and v: "pt_index 3 v \<noteq> PGTABLE_LVL3_IDX_PTE_SELFMAP"
    and self: "child E s root PGTABLE_LVL3_IDX_PTE_SELFMAP = Some root" and rd: "selfmap_reads E root s read_pte"
    and n3: "\<not> (\<exists>e. pt_trans E 3 root s v = Some (3, e))" and m: "masks_2m (pe_paging E)"
    and al: "\<And>e. pt_trans E 3 root s v = Some (1, e) \<Longrightarrow> aligned_2m (PTEntry_address (pe_paging E) e)"
  shows "\<exists>f. virt_to_frame (pe_paging E) read_pte v = Some f \<and> pt_phys_addr E root v s = Some (case f of
      None \<Rightarrow> Err SvsmError_Mem
    | Some (Size1G _) \<Rightarrow> Err SvsmError_Mem
    | Some frame \<Rightarrow> Ok (PageFrame_address (pe_paging E) frame))"
proof -
  let ?pg = "pe_paging E" and ?S = "{PGTABLE_LVL3_IDX_PTE_SELFMAP}"
  have T: "pt_tree E B 3 ?S root s" and pg: "paging_ok ?pg" using ok by (auto simp: pt_ok_def env_ok_def)
  have v': "pt_index 3 v \<notin> ?S" using v by simp
  note eq = virt_to_frame_trans [OF T v' self rd n3] phys_addr_trans [OF T v']
  have mm: "(0xfff :: u64) = mask 12" "(0x1fffff :: u64) = mask 21" "PAGE_SIZE_W - 1 = (mask 12 :: u64)" "of_nat PAGE_SIZE_2M - 1 = (mask 21 :: u64)"
    by (simp_all add: mask_eq_exp_minus_1 page_consts)
  show ?thesis
  proof (cases "pt_trans E 3 root s v")
    case None
    then show ?thesis unfolding eq by (simp add: frame_trans_def trans_phys_def)
  next
    case (Some le)
    then obtain l e where le: "pt_trans E 3 root s v = Some (l, e)" by (cases le) simp
    have priv: "bit (private_pte_mask ?pg) n \<Longrightarrow> 12 \<le> n" "bit (shared_pte_mask ?pg) n \<Longrightarrow> 12 \<le> n" for n using paging_okD(1,2) [OF pg] by blast+
    consider "l = 0" | "l = 1" | "2 \<le> l" by linarith
    then show ?thesis
    proof cases
      case 1
      from frame_sum [of 12 ?pg e "virt_bits v"] priv show ?thesis unfolding eq le 1
        by (fastforce simp: frame_trans_def trans_phys_def mm Address_page_offset_def VirtAddr_ops_def PageFrame_address_def PageFrame_page_frame_def
            bit_address bit_page_frame)
    next
      case 2
      have "\<not> bit (phys_bits (PTEntry_address ?pg e)) n \<and> \<not> bit (private_pte_mask ?pg) n \<and> \<not> bit (shared_pte_mask ?pg) n" if "n < 21" for n
        using al [of e] le 2 m that unfolding aligned_2m_def masks_2m_def bits_disjoint bit_mask_iff by (auto dest: bit_imp_le_length)
      from frame_sum [of 21 ?pg e "virt_bits v", OF this] show ?thesis unfolding eq le 2
        by (auto simp: frame_trans_def trans_phys_def mm PageFrame_address_def PageFrame_page_frame_def)
    next
      case 3
      then show ?thesis unfolding eq le using page_frame_1g [of ?pg e v] by (auto simp: frame_trans_def trans_phys_def split: nat.splits)
    qed
  qed
qed

definition mmu_read :: "pt_env \<Rightarrow> VirtAddr \<Rightarrow> pt_state \<Rightarrow> VirtAddr \<Rightarrow> PTEntry" where
  "mmu_read E root s a = (case reach E s root [pt_index 3 a, pt_index 2 a, pt_index 1 a, pt_index 0 a] of
       Some t \<Rightarrow> (case pte_get (t, unat (virt_bits a AND 0xfff) div 8) s of Some e \<Rightarrow> e | None \<Rightarrow> PhysAddr_null)
     | None \<Rightarrow> PhysAddr_null)"

theorem virt_to_frame_agrees_witness:
  "\<exists>root s. PageTable_allocate_new demo_env demo_pt = Some (Ok root, s) \<and> selfmap_reads demo_env root s (mmu_read demo_env root s)
    \<and> (\<exists>f. virt_to_frame (pe_paging demo_env) (mmu_read demo_env root s) (VirtAddr 0x403abc) = Some f
        \<and> pt_phys_addr demo_env root (VirtAddr 0x403abc) s = Some (case f of None \<Rightarrow> Err SvsmError_Mem | Some (Size1G _) \<Rightarrow> Err SvsmError_Mem
            | Some frame \<Rightarrow> Ok (PageFrame_address (pe_paging demo_env) frame)))"
proof (rule demo_table)
  fix root s assume t: "PageTable_allocate_new demo_env demo_pt = Some (Ok root, s)" "new_table demo_env {0} root s" "63 \<le> free_pages s"
  have x: "pt_index 3 (VirtAddr 0x403abc) \<noteq> PGTABLE_LVL3_IDX_PTE_SELFMAP"
    by (simp add: pt_index_def VirtAddr_to_pgtbl_idx_def PGTABLE_LVL3_IDX_PTE_SELFMAP_def)
  have rd: "selfmap_reads demo_env root s (mmu_read demo_env root s)" by (simp add: selfmap_reads_def mmu_read_def)
  have self: "child demo_env s root PGTABLE_LVL3_IDX_PTE_SELFMAP = Some root" using t(2) by (simp add: new_table_def)
  show ?thesis using virt_to_frame_agrees [OF new_tableD(1) [OF t(2)] x self rd _ demo_paging(2)] new_tableD(4) [OF t(2) x] t(1) rd by auto
qed

end
