(* ===== verification/Page_Access.thy ===== *)
theory Page_Access
  imports Page_Claims
begin

unbundle bit_operations_syntax

text \<open>
  The access rights of a guest page walk: \<open>PTWalkAttr::check_access_rights\<close> against the rules it
  implements, and the error codes it returns.
\<close>

section \<open>Flags\<close>

lemma has_flags_not: "flags_contain (fl AND flags_not (pte_flag f)) (pte_flag g) \<longleftrightarrow> flags_contain fl (pte_flag g) \<and> f \<noteq> g"
proof -
  have "flag_pos f = flag_pos g \<longleftrightarrow> f = g" by (cases f; cases g) (simp_all add: flag_pos_def)
  then show ?thesis using flag_pos_all [of g]
    by (auto simp: flags_contain_flag flags_not_def bit_and_iff bit_not_iff bit_pte_flag flag_pos_less dest: bit_imp_le_length)
qed

lemma has_flags_or: "flags_contain (fl OR pte_flag f) (pte_flag g) \<longleftrightarrow> flags_contain fl (pte_flag g) \<or> f = g"
proof -
  have "flag_pos f = flag_pos g \<longleftrightarrow> f = g" by (cases f; cases g) (simp_all add: flag_pos_def)
  then show ?thesis by (auto simp: flags_contain_flag bit_or_iff bit_pte_flag)
qed

section \<open>Error codes\<close>

lemma pf_consts: "PF_P = push_bit 0 1" "PF_W = push_bit 1 1" "PF_U = push_bit 2 1" "PF_R = push_bit 3 1" "PF_I = push_bit 4 1"
  by (simp_all add: PF_P_def PF_W_def PF_U_def PF_R_def PF_I_def)

text \<open>The bits of an error code: present, write, user, reserved and fetch.\<close>

definition pf_code :: "bool \<Rightarrow> bool \<Rightarrow> bool \<Rightarrow> bool \<Rightarrow> bool \<Rightarrow> u32" where
  "pf_code p w u r f = (if p then PF_P else 0) OR (if w then PF_W else 0) OR (if u then PF_U else 0) OR (if r then PF_R else 0) OR (if f then PF_I else 0)"

lemma default_pf_code:
  "default_pf_err a am OR PF_P = pf_code True (flags_contain am AM_WRITE) (wa_user_mode_access a) False (flags_contain am AM_FETCH)"
  "pf_code True w u False f AND NOT PF_P = pf_code False w u False f"
  "pf_code True w u False f OR PF_R = pf_code True w u True f"
  by (simp_all add: default_pf_err_def Let_def pf_code_def PF_P_def PF_W_def PF_U_def PF_R_def PF_I_def)

section \<open>The rules\<close>

text \<open>
  The access that a translation permits: \<open>user\<close> and \<open>writable\<close> hold when every entry has the flag,
  \<open>nx\<close> when some entry has it.
\<close>

definition access_permitted :: "PTWalkAttr \<Rightarrow> u32 \<Rightarrow> bool \<Rightarrow> bool \<Rightarrow> bool \<Rightarrow> bool" where
  "access_permitted a am user writable nx \<longleftrightarrow>
     (let um = wa_user_mode_access a; write = flags_contain am AM_WRITE; fetch = flags_contain am AM_FETCH in
      (um \<longrightarrow> user) \<and> (\<not> um \<and> user \<and> flags_contain (wa_cr4 a) CR4_SMAP \<longrightarrow> flags_contain (wa_flags a) RFLAGS_AC)
      \<and> (write \<longrightarrow> writable \<or> (\<not> um \<and> \<not> flags_contain (wa_cr0 a) CR0_WP))
      \<and> (fetch \<and> \<not> um \<and> user \<longrightarrow> \<not> flags_contain (wa_cr4 a) CR4_SMEP)
      \<and> (fetch \<and> flags_contain (wa_cr4 a) CR4_PAE \<and> flags_contain (wa_efer a) EFER_NXE \<longrightarrow> \<not> nx))"

lemma leaf_refuses_iff:
  "leaf_refuses a am fl \<longleftrightarrow> \<not> access_permitted a am (flags_contain fl (pte_flag PTE_USER)) (flags_contain fl (pte_flag PTE_WRITABLE)) (flags_contain fl (pte_flag PTE_NX))"
  unfolding leaf_refuses_def access_permitted_def Let_def by auto

text \<open>
  C17. An entry of a walk that has the user and write rights of the entries before it and no reserved
  bit: the check passes below the last level, and at the last level exactly when the access is
  permitted with the rights of all the entries; it returns the accumulated rights.  A missing entry, a
  reserved bit and an execute-disable bit without NXE give the error code of a page fault with exactly
  the bits for present, write, user, reserved and fetch that the access has.
\<close>

theorem check_access_rights_spec:
  assumes res: "has_reserved_bits pg (wa_pm a) level e = Some reserved"
  shows "\<exists>r fl'. check_access_rights pg a e am level fl = Some (r, fl') \<and>
    (let w = flags_contain am AM_WRITE; u = wa_user_mode_access a; f = flags_contain am AM_FETCH;
         user = (flags_contain fl (pte_flag PTE_USER) \<and> PTEntry_has PTE_USER e);
         writable = (flags_contain fl (pte_flag PTE_WRITABLE) \<and> PTEntry_has PTE_WRITABLE e);
         nx = (flags_contain fl (pte_flag PTE_NX) \<or> PTEntry_has PTE_NX e);
         leaf = (level = 0 \<or> PTEntry_has PTE_HUGE e);
         bad_nx = (PTEntry_has PTE_NX e \<and> \<not> flags_contain (wa_efer a) EFER_NXE)
     in r = (if \<not> PTEntry_has PTE_PRESENT e then Err (pf_code False w u False f)
             else if reserved \<or> bad_nx then Err (pf_code True w u True f)
             else if leaf \<and> \<not> access_permitted a am user writable nx then Err (pf_code True w u False f)
             else Ok (e, leaf))
        \<and> (PTEntry_has PTE_PRESENT e \<and> \<not> reserved \<and> \<not> bad_nx \<longrightarrow>
             (flags_contain fl' (pte_flag PTE_USER) \<longleftrightarrow> user) \<and> (flags_contain fl' (pte_flag PTE_WRITABLE) \<longleftrightarrow> writable)
             \<and> (flags_contain fl' (pte_flag PTE_NX) \<longleftrightarrow> nx)))"
proof -
  define fl1 where "fl1 = (if \<not> PTEntry_has PTE_USER e then fl AND flags_not (pte_flag PTE_USER) else fl)"
  define fl2 where "fl2 = (if \<not> PTEntry_has PTE_WRITABLE e then fl1 AND flags_not (pte_flag PTE_WRITABLE) else fl1)"
  have F: "flags_contain fl2 (pte_flag PTE_USER) \<longleftrightarrow> flags_contain fl (pte_flag PTE_USER) \<and> PTEntry_has PTE_USER e"
    "flags_contain fl2 (pte_flag PTE_WRITABLE) \<longleftrightarrow> flags_contain fl (pte_flag PTE_WRITABLE) \<and> PTEntry_has PTE_WRITABLE e"
    "flags_contain fl2 (pte_flag PTE_NX) \<longleftrightarrow> flags_contain fl (pte_flag PTE_NX)"
    by (simp_all add: fl2_def fl1_def has_flags_not)
  define out where "out = (\<lambda>fl'. if level = 0 \<or> PTEntry_has PTE_HUGE e
    then (if leaf_refuses a am fl' then Err (default_pf_err a am OR PF_P) else Ok (e, True)) else Ok (e, False))"
  have eq: "check_access_rights pg a e am level fl =
    (if \<not> PTEntry_has PTE_PRESENT e then Some (Err ((default_pf_err a am OR PF_P) AND NOT PF_P), fl)
     else if reserved then Some (Err ((default_pf_err a am OR PF_P) OR PF_R), fl)
     else if flags_contain (wa_efer a) EFER_NXE \<and> PTEntry_has PTE_NX e then Some (out (fl2 OR pte_flag PTE_NX), fl2 OR pte_flag PTE_NX)
     else if \<not> flags_contain (wa_efer a) EFER_NXE \<and> PTEntry_has PTE_NX e then Some (Err ((default_pf_err a am OR PF_P) OR PF_R), fl2)
     else Some (out fl2, fl2))"
    unfolding check_access_rights_def Let_def res fl1_def [symmetric] fl2_def [symmetric] out_def by simp
  show ?thesis
  proof (cases "PTEntry_has PTE_PRESENT e \<and> \<not> reserved")
    case False
    then show ?thesis unfolding eq default_pf_code Let_def by (cases "PTEntry_has PTE_PRESENT e") simp_all
  next
    case True
    then show ?thesis unfolding eq default_pf_code out_def leaf_refuses_iff has_flags_or F Let_def
      by (cases "PTEntry_has PTE_NX e"; cases "flags_contain (wa_efer a) EFER_NXE") (simp_all add: F has_flags_or)
  qed
qed

theorem check_access_rights_spec_witness:
  "\<exists>r fl'. check_access_rights (pe_paging demo_env) (PTWalkAttr_new (CR0_PG OR CR0_WP) CR4_PAE (EFER_LMA OR EFER_NXE) 0 True)
      (PhysAddr 0x5) AM_WRITE 0 PTEntryFlags_all = Some (r, fl') \<and> r = Err (pf_code True True True False False)"
proof -
  let ?a = "PTWalkAttr_new (CR0_PG OR CR0_WP) CR4_PAE (EFER_LMA OR EFER_NXE) 0 True"
  have pm: "wa_pm ?a = PML4"
    by (simp add: PTWalkAttr_new_def PagingMode_new_def flags_contain_def CR0_PG_def CR0_WP_def CR4_PAE_def EFER_LMA_def EFER_NXE_def CR4_LA57_def)
  have res: "has_reserved_bits (pe_paging demo_env) (wa_pm ?a) 0 (PhysAddr 0x5) = Some False"
    unfolding pm by (simp add: has_reserved_bits_def BIT_MASK_def demo_env_def)
  have "PTEntry_has PTE_PRESENT (PhysAddr 0x5)" "\<not> PTEntry_has PTE_WRITABLE (PhysAddr 0x5)" "\<not> PTEntry_has PTE_NX (PhysAddr 0x5)"
    by (simp_all add: PTEntry_has_bit flag_pos_def)
  moreover have "flags_contain AM_WRITE AM_WRITE" "\<not> flags_contain AM_WRITE AM_FETCH" "wa_user_mode_access ?a"
    by (simp_all add: flags_contain_def AM_WRITE_def AM_FETCH_def PTWalkAttr_new_def)
  ultimately show ?thesis using check_access_rights_spec [OF res, of AM_WRITE PTEntryFlags_all] by (auto simp: Let_def access_permitted_def)
qed

section \<open>Reserved bits\<close>

lemma bit_BIT_MASK:
  assumes "lo \<le> hi" and "hi \<le> 63" and "hi - lo < 63"
  shows "BIT_MASK hi lo = Some (mask (hi + 1) AND NOT (mask lo))"
proof -
  have m: "push_bit (hi - lo + 1) 1 - 1 = (mask (hi - lo + 1) :: u64)" by (simp only: mask_eq_exp_minus_1 push_bit_of_1)
  have "push_bit lo (push_bit (hi - lo + 1) 1 - 1) = (mask (hi + 1) AND NOT (mask lo) :: u64)"
    unfolding m using assms by (auto simp: word_bits_eq bit_push_bit_iff bit_and_iff bit_not_iff bit_mask_iff)
  then show ?thesis using assms unfolding BIT_MASK_def by simp
qed

lemma reserved_PML4:
  assumes pg: "paging_ok pg" and p: "frame_ok pg p" and size: "12 \<le> unat (phys_addr_size pg)" "\<And>n. bit (phys_bits p) n \<Longrightarrow> n < unat (phys_addr_size pg)"
    and lvl: "(if level = 0 then Some 0
       else if level = 1 then (if PTEntry_has PTE_HUGE (pte_make pg p sh fl) then BIT_MASK 20 13 else Some 0)
       else if level = 2 then (if PTEntry_has PTE_HUGE (pte_make pg p sh fl) then BIT_MASK 29 13 else Some 0)
       else if level = 3 then BIT_MASK 8 7 else None) = Some lvl" "phys_bits (pte_make pg p sh fl) AND lvl = 0"
  shows "has_reserved_bits pg PML4 level (pte_make pg p sh fl) = Some False"
proof -
  let ?z = "unat (phys_addr_size pg)" and ?x = "phys_bits (pte_make pg p sh fl)"
  define common where "common = (if ?z > 51 then 0 else (mask 52 AND NOT (mask ?z)) AND NOT (shared_pte_mask pg OR private_pte_mask pg))"
  have c: "(if ?z > 51 then Some 0 else do { m \<leftarrow> BIT_MASK 51 ?z; Some (m AND NOT (shared_pte_mask pg OR private_pte_mask pg)) }) = Some common"
    using bit_BIT_MASK [of ?z 51] size(1) by (simp add: common_def)
  have "?x AND common = 0"
    unfolding bits_disjoint
  proof (rule allI, rule impI)
    fix n assume "bit ?x n"
    then consider "bit (phys_bits p) n" | "bit (shared_pte_mask pg) n \<or> bit (private_pte_mask pg) n" | "bit (feature_mask pg) n"
      by (auto simp: pte_make_def bit_or_iff bit_and_iff split: if_splits)
    then show "\<not> bit common n"
    proof cases
      case 3
      then have "n < 12 \<or> n = 63" using paging_okD(4) [OF pg, of n] by (auto simp: bit_PTEntryFlags_all)
      then show ?thesis using size(1) by (auto simp: common_def bit_and_iff bit_not_iff bit_mask_iff)
    qed (use size(2) in \<open>auto simp: common_def bit_and_iff bit_not_iff bit_mask_iff bit_or_iff\<close>)
  qed
  then have "?x AND (common OR lvl) = 0" using lvl(2) by (simp add: bit.conj_disj_distrib)
  then show ?thesis unfolding has_reserved_bits_def PagingMode.case using c lvl(1) by (simp split: if_splits)
qed

text \<open>
  The entries that the kernel writes have no reserved bits in four-level paging: 4K pages with any
  flags, aligned 2M pages and table entries, for frames below the physical address size, with the
  encryption bits of either sharing state.
\<close>

theorem written_entries_not_reserved:
  assumes pg: "paging_ok pg" "masks_2m pg" and p: "frame_ok pg p" "unat (phys_bits p) < 2 ^ unat (phys_addr_size pg)" and size: "12 \<le> unat (phys_addr_size pg)"
  shows "has_reserved_bits pg PML4 0 (pte_make pg p sh fl) = Some False
    \<and> (aligned_2m p \<longrightarrow> has_reserved_bits pg PML4 1 (pte_make pg p sh (fl OR pte_flag PTE_HUGE)) = Some False)
    \<and> (\<forall>level \<in> {1, 2, 3}. has_reserved_bits pg PML4 level (pte_make pg p False table_flags) = Some False)"
proof -
  have b: "n < unat (phys_addr_size pg)" if "bit (phys_bits p) n" for n
  proof (rule ccontr)
    assume "\<not> ?thesis"
    moreover have "take_bit (unat (phys_addr_size pg)) (unat (phys_bits p)) = unat (phys_bits p)" using p(2) by (simp add: take_bit_nat_eq_self)
    moreover have "bit (unat (phys_bits p)) n" using that by (simp add: bit_unsigned_iff)
    ultimately show False by (metis bit_take_bit_iff)
  qed
  have tf: "\<not> PTEntry_has PTE_HUGE (pte_make pg p False table_flags)" by (rule table_flags_has(2) [OF pg(1) p(1)])
  note res = reserved_PML4 [OF pg(1) p(1) size b]
  have m: "BIT_MASK 20 13 = Some (mask 21 AND NOT (mask 13))" "BIT_MASK 8 7 = Some (mask 9 AND NOT (mask 7))"
    using bit_BIT_MASK [of 13 20] bit_BIT_MASK [of 7 8] by simp_all
  have bits: "bit (phys_bits (pte_make pg p x f)) n \<longleftrightarrow> bit (phys_bits p) n \<or> bit (if x then shared_pte_mask pg else private_pte_mask pg) n
      \<or> (bit f n \<and> bit (feature_mask pg) n)" for x f n
    by (auto simp: pte_make_def bit_or_iff bit_and_iff)
  have h: "phys_bits (pte_make pg p sh (fl OR pte_flag PTE_HUGE)) AND (mask 21 AND NOT (mask 13)) = 0" if "aligned_2m p"
    unfolding bits_disjoint
  proof (rule allI, rule impI, rule notI)
    fix n assume a: "bit (phys_bits (pte_make pg p sh (fl OR pte_flag PTE_HUGE))) n" "bit (mask 21 AND NOT (mask 13) :: u64) n"
    then have n: "13 \<le> n" "n < 21" by (auto simp: bit_and_iff bit_not_iff bit_mask_iff)
    have "\<not> bit (phys_bits p) n" "\<not> bit (private_pte_mask pg) n" "\<not> bit (shared_pte_mask pg) n"
      using n that pg(2) unfolding aligned_2m_def masks_2m_def bits_disjoint bit_mask_iff by (auto dest: bit_imp_le_length)
    moreover have "\<not> bit (feature_mask pg) n" using paging_okD(4) [OF pg(1), of n] n by (auto simp: bit_PTEntryFlags_all)
    ultimately show False using a(1) by (auto simp: bits split: if_splits)
  qed
  have t: "phys_bits (pte_make pg p False table_flags) AND (mask 9 AND NOT (mask 7)) = 0"
    unfolding bits_disjoint bits using frame_okD(1) [OF p(1)] paging_okD(1) [OF pg(1)]
    by (auto simp: bit_and_iff bit_not_iff bit_mask_iff table_flags_def bit_or_iff bit_pte_flag flag_pos_def) fastforce+
  have l0: "has_reserved_bits pg PML4 0 (pte_make pg p sh fl) = Some False" by (rule res [where lvl = 0]) simp_all
  have l1: "has_reserved_bits pg PML4 1 (pte_make pg p sh (fl OR pte_flag PTE_HUGE)) = Some False" if "aligned_2m p"
    by (rule res [where lvl = "mask 21 AND NOT (mask 13)"]) (use h [OF that] pte_make_read(4) [OF pg(1) p(1), of PTE_HUGE] m in \<open>simp_all add: flags_contain_flag bit_or_iff bit_pte_flag\<close>)
  have tl: "has_reserved_bits pg PML4 level (pte_make pg p False table_flags) = Some False" if "level \<in> {1, 2, 3}" for level
    by (rule res [where lvl = "if level = 3 then mask 9 AND NOT (mask 7) else 0"]) (use that tf m t in auto)
  show ?thesis using l0 l1 tl by blast
qed

theorem written_entries_not_reserved_witness:
  "has_reserved_bits (pe_paging demo_env) PML4 0 (pte_make (pe_paging demo_env) (PhysAddr 0x600000) True PTEntryFlags_all) = Some False"
proof -
  have "unat (phys_bits (PhysAddr 0x600000)) < 2 ^ unat (phys_addr_size (pe_paging demo_env))" "12 \<le> unat (phys_addr_size (pe_paging demo_env))"
    by (simp_all add: demo_env_def)
  from written_entries_not_reserved [OF demo_paging demo_2m(2) this] show ?thesis by blast
qed

end
