(* ===== verification/Spec2Isabelle.thy ===== *)
theory Spec2Isabelle
  imports Memory_Region Bitmap_Allocator Virtual_Range Heap_Properties Slab_Claims Fs_Handles
    Spin_Lock RW_Lock Immut_After_Init Irq_State Elf_Claims Page_Selfmap Page_Access
begin

text \<open>
  A verification development of COCONUT-SVSM, the service module that runs below a confidential
  guest (\<open>src/kernel\<close>), and of the ELF crate it loads programs with (\<open>src/elf\<close>).

  \<^bold>\<open>Parts and their interplay.\<close>  The buddy allocator hands out pages of the kernel heap; the slab
  allocators take single pages from it and serve small objects, and the global allocator chooses
  between the two.  The page tables take their table pages from the buddy allocator too.  RAM files
  keep their contents in reference counted pages of it, and the file system is a tree of directories
  over these files, used through handles.  Ranges of temporary virtual addresses come from a bitmap
  allocator.  Spin locks, read-write locks, cells that are written once and interrupt guards protect
  the shared state.  The ELF crate parses untrusted files and computes what a loader has to place
  and to relocate.

  \<^bold>\<open>Conventions.\<close>  A function of the source is a HOL function with the state as an argument.  A
  panic, which aborts the kernel, is \<open>None\<close>; this includes failed assertions, arithmetic
  overflow, which the kernel checks, and slices out of range.  A \<open>Result\<close> is the datatype
  \<open>result\<close>.  A \<open>usize\<close> that holds bits of an address is a 64-bit word with checked
  addition \<open>wadd\<close> and subtraction \<open>wsub\<close>; one that counts is a natural number with
  \<open>uadd\<close>, \<open>usub\<close> and \<open>umul\<close>, which fail beyond \<open>usize_max\<close>.  Fallible code over a state is
  the monad \<open>svsm\<close> (\<open>bindM\<close>, \<open>forM\<close>, \<open>forO\<close>).

  \<^bold>\<open>Theories.\<close>
  \<^item> \<open>Svsm_Prelude\<close>: checked arithmetic, the monad, words and lists.  \<open>Svsm_Error\<close>: the error types
    (\<open>error.rs\<close> and the error types of the other modules).
  \<^item> \<open>Address\<close> (\<open>address.rs\<close>, \<open>utils/util.rs\<close>, \<open>types.rs\<close>): physical and virtual addresses,
    alignment, sign extension, page table indices.  The locale \<open>Address_laws\<close> is the contract of the
    trait \<open>Address\<close>, interpreted for both kinds.  \<open>Memory_Region\<close> (\<open>utils/memory_region.rs\<close>).
  \<^item> \<open>Bitmap_Allocator\<close> (\<open>utils/bitmap_allocator.rs\<close>): the 64-bit leaf, the tree of sixteen
    leaves and the first-fit search.  The locale \<open>bitmap_laws\<close> is the contract of the trait,
    interpreted for the leaf and for the tree; the search is proved in it once.
    \<open>Virtual_Range\<close> (\<open>mm/virtualrange.rs\<close>) is its client.
  \<^item> \<open>Page_Info\<close>, \<open>Heap_Region\<close> (\<open>mm/alloc.rs\<close>): the encoding of page metadata and every
    operation of \<open>HeapMemoryRegion\<close>.  \<open>Heap_Invariant\<close>, \<open>Heap_Alloc\<close>, \<open>Heap_Free\<close>,
    \<open>Heap_Init\<close>: the invariant and its preservation.  \<open>Heap_Spec\<close>: the abstract heap (the set of
    free pages and the blocks in use) and the locale \<open>page_allocator\<close>, interpreted on the code.
    \<open>Heap_Properties\<close>: what the operations do to the abstract heap.
  \<^item> \<open>Slab_Model\<close> and \<open>Slab_Page_Lemmas\<close> to \<open>Slab_Claims\<close> (\<open>mm/alloc.rs\<close>): slab pages, the
    slab of slab pages, the slabs of the object sizes, the global allocator.  The locale
    \<open>object_allocator\<close> states what clients rely on.
  \<^item> \<open>Ram_File\<close> to \<open>Ram_File_Claims\<close> (\<open>fs/ramfs.rs\<close>, \<open>fs/buffer.rs\<close>, \<open>PageRef\<close> of
    \<open>mm/alloc.rs\<close>): RAM files over pages of the heap refine byte sequences.  \<open>Fs_Model\<close> to
    \<open>Fs_Handles\<close> (\<open>fs/filesystem.rs\<close>, \<open>fs/api.rs\<close>, \<open>fs/obj.rs\<close>): directories, path walking,
    file handles; the file system refines a map from paths to entries.
  \<^item> \<open>Paging\<close>, \<open>Page_Table\<close>, \<open>Page_Table_Ops\<close> (\<open>mm/pagetable.rs\<close>, \<open>mm/address_space.rs\<close>):
    entries, encryption masks, table pages, walking, mapping, splitting, sharing, regions, page table
    parts, the self-map, access rights.  \<open>Paging_Lemmas\<close>, \<open>Page_Tree\<close>, \<open>Page_Tree_Update\<close>: the
    invariant \<open>pt_ok\<close> (a tree of table pages that are allocated in the heap, each linked once)
    and what writing an entry and linking a new table do.  \<open>Page_Mapping\<close>, \<open>Page_Lookup\<close>,
    \<open>Page_Split\<close>, \<open>Page_Root\<close>: the operations as updates of the abstract translation \<open>pt_trans\<close>,
    for whole tables and for parts alike.  \<open>Page_Claims\<close>, \<open>Page_Selfmap\<close>, \<open>Page_Access\<close>: the
    properties.
  \<^item> \<open>Spin_Lock\<close>, \<open>RW_Lock\<close> (\<open>locking/\<close>), \<open>Immut_After_Init\<close> (\<open>utils/immut_after_init.rs\<close>):
    the atomic accesses as steps of any number of threads, with invariants over all interleavings.
  \<^item> \<open>Irq_State\<close> (\<open>cpu/irq_state.rs\<close>, \<open>sev/hv_doorbell.rs\<close>, \<open>common_isr_handler\<close> of
    \<open>cpu/idt/svsm.rs\<close>): interrupt nesting, task priorities and the events of the hypervisor.
  \<^item> \<open>Byte_Buffer\<close>, \<open>Elf_Headers\<close>, \<open>Elf_File\<close>, \<open>Elf_Properties\<close>, \<open>Elf_Claims\<close> (\<open>src/elf/src\<close>):
    the whole ELF crate, from arbitrary bytes.

  \<^bold>\<open>What the properties show.\<close>
  \<^item> Pages: allocation and freeing refine the abstract heap, whatever splitting and merging happens;
    initialisation frees exactly the pages behind the boot pages; blocks in use are disjoint; misuse
    panics or is ignored; counters and reference counts are exact; the encoding is lossless.
  \<^item> Objects: live objects never overlap; allocation and deallocation through the global allocator
    do not panic, and the mutual recursion of the slab of slab pages ends.
  \<^item> Files: contents, positions and paths behave as byte sequences and as a map, errors included.
  \<^item> Page tables: mapping, unmapping and changing the sharing state change exactly the translations
    they name, also when memory runs out; the self-map gives the same addresses as the walk; the
    check of access rights is the rule it implements.
  \<^item> Concurrency: mutual exclusion, order of service and single initialisation in every
    interleaving; interrupt guards nest although event handlers run inside them.
  \<^item> ELF: a file that is read is well formed, and relocations write inside its segments.

  \<^bold>\<open>Loops, fuel and bounds.\<close>  Loops over lists and ranges are structural recursions.  The walk of a
  free list, the slab lists and the first-fit search are partial functions or recursions for which
  termination is proved together with the result.  The processing of hypervisor events runs as long
  as events are posted; it has fuel, no assertion fails for any fuel, and \<open>T + 4\<close> rounds are
  enough when the hypervisor is quiet from its \<open>T\<close>th access on.  \<open>map_region\<close> and \<open>unmap_region\<close>
  are partial functions; nothing is claimed of their termination.  The lock properties bound the
  number of threads below the range of the counters (\<open>2 ^ 32\<close> owners of a read-write lock,
  \<open>2 ^ 31\<close> interrupt guards) and the runs of the spin lock below \<open>2 ^ 64\<close> steps.

  \<^bold>\<open>Arguments that stand for the machine.\<close>  The accesses of the hypervisor to the doorbell page, what
  a read through the self-map returns, the translation of the loaded page table for file pages, and
  the message handlers that other CPUs post are arguments, with what the code relies on as named
  hypotheses (\<open>ipi_balanced\<close>, \<open>selfmap_reads\<close>, \<open>env_ok\<close>).  The lock models are sequentially
  consistent: the orderings of the atomic accesses are not modelled.  \<open>partition_point\<close> on a list of
  load segments, which is partitioned by its invariant, is the length of the prefix that satisfies
  the predicate.

  \<^bold>\<open>Not modelled.\<close>  Code whose effect is on the processor or the hypervisor alone (registers, GHCB,
  TDX and Hyper-V calls, port input and output, task switches), cryptography and the TPM, the
  emulation of instructions, the virtual memory ranges of tasks (their mappings are in trees of a
  library outside the sources), the devices, the boot stages and the tools.  Asynchronous interrupts
  and TLB flushes are not modelled.
\<close>

end
